(* ===== verification/Prelude.thy ===== *)
theory Prelude
  imports Main "HOL-Library.Word" "HOL-Library.AList" "HOL-Library.Multiset"
begin

unbundle bit_operations_syntax

text \<open>
  Shared base of the development: the types the components use (bytes, results), the part of
  the JavaScript standard library the sources rely on (\<^verbatim>\<open>Number.isSafeInteger\<close>, big-endian
  \<^verbatim>\<open>DataView\<close> access, \<^verbatim>\<open>Uint8Array.set\<close>, \<^verbatim>\<open>findIndex\<close>/\<^verbatim>\<open>splice\<close>, the insertion ordered
  \<^verbatim>\<open>Map\<close>, decimal and hexadecimal text), and the generic lemmas on them.

  The collections: \<open>result_simps\<close> rewrites result-typed code, \<open>wire_simps\<close> the buffer layouts,
  \<open>const_defs\<close> unfolds numeric protocol constants.
\<close>

named_theorems result_simps
named_theorems wire_simps
named_theorems const_defs

type_synonym byte = "8 word"
type_synonym bytes = "8 word list"

section \<open>Results: a thrown error or a value\<close>

definition rbind :: "'e + 'a \<Rightarrow> ('a \<Rightarrow> 'e + 'b) \<Rightarrow> 'e + 'b" where
  "rbind r f = (case r of Inl e \<Rightarrow> Inl e | Inr x \<Rightarrow> f x)"

definition ensure :: "bool \<Rightarrow> 'e \<Rightarrow> 'e + unit" where
  "ensure b e = (if b then Inr () else Inl e)"

fun is_ok :: "'e + 'a \<Rightarrow> bool" where
  "is_ok (Inl e) = False"
| "is_ok (Inr x) = True"

lemma rbind_Inl [simp, result_simps]: "rbind (Inl e) f = Inl e"
  by (simp add: rbind_def)

lemma rbind_Inr [simp, result_simps]: "rbind (Inr x) f = f x"
  by (simp add: rbind_def)

lemma rbind_eq_Inr_iff [result_simps]:
  "rbind r f = Inr y \<longleftrightarrow> (\<exists>x. r = Inr x \<and> f x = Inr y)"
  by (cases r) auto

lemma rbind_eq_Inl_iff [result_simps]:
  "rbind r f = Inl e \<longleftrightarrow> r = Inl e \<or> (\<exists>x. r = Inr x \<and> f x = Inl e)"
  by (cases r) auto

lemma ensure_True [simp]: "ensure True e = Inr ()"
  by (simp add: ensure_def)

lemma ensure_False [simp]: "ensure False e = Inl e"
  by (simp add: ensure_def)

lemma ensure_eq_Inr_iff [simp, result_simps]: "ensure b e = Inr u \<longleftrightarrow> b"
  by (simp add: ensure_def)

lemma ensure_eq_Inl_iff [simp, result_simps]: "ensure b e = Inl e' \<longleftrightarrow> \<not> b \<and> e = e'"
  by (simp add: ensure_def)

lemma is_ok_iff: "is_ok r \<longleftrightarrow> (\<exists>x. r = Inr x)"
  by (cases r) auto

section \<open>Numbers\<close>

text \<open>
  A JavaScript \<^verbatim>\<open>number\<close> that the sources treat as an integer is an \<open>int\<close>; the range half of
  \<^verbatim>\<open>Number.isSafeInteger\<close> is written out, since code relies on it.
\<close>

definition MAX_SAFE_INTEGER :: int where
  [const_defs]: "MAX_SAFE_INTEGER = 9007199254740991"

definition is_safe_integer :: "int \<Rightarrow> bool" where
  "is_safe_integer x \<longleftrightarrow> - MAX_SAFE_INTEGER \<le> x \<and> x \<le> MAX_SAFE_INTEGER"

definition ceil_div :: "int \<Rightarrow> int \<Rightarrow> int" where
  "ceil_div a b = - ((- a) div b)"

lemma ceil_div_bounds:
  assumes "0 < b"
  shows "a \<le> ceil_div a b * b" and "(ceil_div a b - 1) * b < a"
proof -
  have eq: "(- a) = ((- a) div b) * b + (- a) mod b" by simp
  have m: "0 \<le> (- a) mod b" "(- a) mod b < b" using assms by simp_all
  show "a \<le> ceil_div a b * b"
    unfolding ceil_div_def minus_mult_left [symmetric] using eq m by linarith
  have "(ceil_div a b - 1) * b = - (((- a) div b) * b) - b"
    by (simp add: ceil_div_def algebra_simps)
  then show "(ceil_div a b - 1) * b < a"
    using eq m by linarith
qed

section \<open>Big-endian integers in byte buffers\<close>

text \<open>
  \<open>be_enc n v\<close> is what \<^verbatim>\<open>setUint16/32/BigUint64\<close> store in \<open>n\<close> bytes (the value modulo
  \<open>256 ^ n\<close>); \<open>be_dec\<close> is what the matching getters read.
\<close>

fun be_enc :: "nat \<Rightarrow> nat \<Rightarrow> bytes" where
  "be_enc 0 v = []"
| "be_enc (Suc n) v = be_enc n (v div 256) @ [of_nat v]"

definition be_dec :: "bytes \<Rightarrow> nat" where
  "be_dec bs = foldl (\<lambda>acc b. acc * 256 + unat b) 0 bs"

lemma length_be_enc [simp]: "length (be_enc n v) = n"
  by (induction n arbitrary: v) simp_all

lemma be_dec_Nil [simp]: "be_dec [] = 0"
  by (simp add: be_dec_def)

lemma be_dec_snoc [simp]: "be_dec (bs @ [b]) = be_dec bs * 256 + unat b"
  by (simp add: be_dec_def)

lemma unat_byte_of_nat [simp]: "unat (of_nat v :: byte) = v mod 256"
  by (simp add: unat_of_nat)

lemma unat_byte_less [simp]: "unat (b :: byte) < 256"
  using unsigned_less [of b] by simp

lemma be_dec_enc_mod: "be_dec (be_enc n v) = v mod 256 ^ n"
proof (induction n arbitrary: v)
  case 0
  then show ?case by simp
next
  case (Suc n)
  have "be_dec (be_enc (Suc n) v) = (v div 256 mod 256 ^ n) * 256 + v mod 256"
    by (simp add: Suc.IH)
  also have "\<dots> = v mod (256 * 256 ^ n)"
    by (simp add: mod_mult2_eq mult.commute)
  finally show ?case by simp
qed

lemma be_dec_enc [wire_simps]: "v < 256 ^ n \<Longrightarrow> be_dec (be_enc n v) = v"
  by (simp add: be_dec_enc_mod)

lemma be_dec_enc_int: "0 \<le> v \<Longrightarrow> v < 256 ^ n \<Longrightarrow> int (be_dec (be_enc n (nat v))) = v"
  by (subst be_dec_enc) (simp_all add: nat_less_iff)

lemma be_dec_enc_u64:
  assumes "0 \<le> v" "v \<le> 18446744073709551615"
  shows "be_dec (be_enc 8 (nat v)) = nat v"
proof -
  have "int (be_dec (be_enc 8 (nat v))) = v" using assms by (intro be_dec_enc_int) simp_all
  then show ?thesis by simp
qed

lemma be_dec_less: "be_dec bs < 256 ^ length bs"
proof (induction bs rule: rev_induct)
  case Nil
  then show ?case by simp
next
  case (snoc b bs)
  have b: "unat b < 256" using unsigned_less [of b] by simp
  have "be_dec (bs @ [b]) < (be_dec bs + 1) * 256" using b by simp
  also have "\<dots> \<le> 256 ^ length bs * 256" using snoc by (intro mult_right_mono) simp_all
  finally show ?case by simp
qed

lemma be_enc_dec: "be_enc (length bs) (be_dec bs) = bs"
proof (induction bs rule: rev_induct)
  case Nil
  then show ?case by simp
next
  case (snoc b bs)
  have b: "unat b < 256" using unsigned_less [of b] by simp
  have w: "(of_nat (be_dec bs * 256 + unat b) :: byte) = b"
  proof (rule word_unat_eq_iff [THEN iffD2])
    have "unat (of_nat (be_dec bs * 256 + unat b) :: byte) = (be_dec bs * 256 + unat b) mod 256"
      by (simp only: unat_byte_of_nat)
    also have "\<dots> = unat b" using b by simp
    finally show "unat (of_nat (be_dec bs * 256 + unat b) :: byte) = unat b" .
  qed
  show ?case using b snoc w by simp
qed

section \<open>Byte buffers\<close>

text \<open>
  \<open>set_at buf off xs\<close> is \<^verbatim>\<open>buf.set(xs, off)\<close> where the written range fits; \<open>sub bs i j\<close> is
  \<^verbatim>\<open>subarray(i, j)\<close> or \<^verbatim>\<open>slice(i, j)\<close> for \<open>i \<le> j\<close>; \<open>zeros n\<close> is \<^verbatim>\<open>new Uint8Array(n)\<close>.
\<close>

definition set_at :: "bytes \<Rightarrow> nat \<Rightarrow> bytes \<Rightarrow> bytes" where
  "set_at buf off xs = take off buf @ xs @ drop (off + length xs) buf"

definition sub :: "bytes \<Rightarrow> nat \<Rightarrow> nat \<Rightarrow> bytes" where
  "sub bs i j = take (j - i) (drop i bs)"

definition zeros :: "nat \<Rightarrow> bytes" where
  "zeros n = replicate n 0"

lemma length_zeros [simp]: "length (zeros n) = n"
  by (simp add: zeros_def)

lemma length_set_at [simp]: "off + length xs \<le> length buf \<Longrightarrow> length (set_at buf off xs) = length buf"
  by (simp add: set_at_def)

text \<open>Filling a zeroed buffer from left to right appends: the layout lemma every encoder uses.\<close>

lemma set_at_append [wire_simps]:
  "length pre \<le> off \<Longrightarrow> set_at (pre @ buf) off xs = pre @ set_at buf (off - length pre) xs"
  by (simp add: set_at_def)

lemma set_at_Cons [wire_simps]: "set_at (x # buf) (numeral k) xs = x # set_at buf (pred_numeral k) xs"
  by (simp add: set_at_def numeral_eq_Suc)

lemma set_at_Cons1 [wire_simps]:
  "set_at (x # buf) (Suc 0) xs = x # set_at buf 0 xs" "set_at (x # buf) 1 xs = x # set_at buf 0 xs"
  by (simp_all add: set_at_def)

lemma set_at_start [wire_simps]: "set_at (zeros n) 0 xs = xs @ zeros (n - length xs)"
  by (simp add: set_at_def zeros_def)

lemma take_zeros [simp]: "take k (zeros n) = zeros (min k n)"
  by (simp add: zeros_def)

lemma drop_zeros [simp]: "drop k (zeros n) = zeros (n - k)"
  by (simp add: zeros_def)

lemma zeros_0 [simp]: "zeros 0 = []"
  by (simp add: zeros_def)

lemma sub_append_skip [wire_simps]:
  "length xs \<le> i \<Longrightarrow> sub (xs @ ys) i j = sub ys (i - length xs) (j - length xs)"
  by (simp add: sub_def)

lemma sub_append_take [wire_simps]: "length xs = j \<Longrightarrow> sub (xs @ ys) 0 j = xs"
  by (simp add: sub_def)

lemma sub_full [wire_simps]: "length xs = j \<Longrightarrow> sub xs 0 j = xs"
  by (simp add: sub_def)

lemma length_sub [simp]: "j \<le> length bs \<Longrightarrow> i \<le> j \<Longrightarrow> length (sub bs i j) = j - i"
  by (simp add: sub_def)

lemma sub_join: "i \<le> j \<Longrightarrow> j \<le> k \<Longrightarrow> sub bs i j @ sub bs j k = sub bs i k"
proof -
  assume ij: "i \<le> j" and jk: "j \<le> k"
  have "sub bs i k = take ((j - i) + (k - j)) (drop i bs)"
    using ij jk by (simp add: sub_def)
  also have "\<dots> = take (j - i) (drop i bs) @ take (k - j) (drop (j - i) (drop i bs))"
    by (rule take_add)
  also have "\<dots> = sub bs i j @ sub bs j k"
    using ij by (simp add: sub_def)
  finally show ?thesis by simp
qed

lemma sub_single: "i < length bs \<Longrightarrow> sub bs i (Suc i) = [bs ! i]"
  by (simp add: sub_def take_Suc_conv_app_nth)

lemma sub_whole: "length bs = n \<Longrightarrow> sub bs 0 n = bs"
  by (simp add: sub_def)

lemma be_enc_sub: "j \<le> length bs \<Longrightarrow> i \<le> j \<Longrightarrow> be_enc (j - i) (be_dec (sub bs i j)) = sub bs i j"
  using be_enc_dec [of "sub bs i j"] by simp

lemma be_dec_sub_less: "j \<le> length bs \<Longrightarrow> i \<le> j \<Longrightarrow> be_dec (sub bs i j) < 256 ^ (j - i)"
  using be_dec_less [of "sub bs i j"] by simp

section \<open>Accumulated difference comparison\<close>

text \<open>
  The constant-time comparison loops \<^verbatim>\<open>diff |= a[i] ^ b[i]\<close> of \<^verbatim>\<open>ratchet.ts\<close>,
  \<^verbatim>\<open>uint8array.ts\<close> and \<^verbatim>\<open>roomPolicy.ts\<close>.
\<close>

fun xor_diff :: "byte \<Rightarrow> bytes \<Rightarrow> bytes \<Rightarrow> byte" where
  "xor_diff d (x # xs) (y # ys) = xor_diff (d OR (x XOR y)) xs ys"
| "xor_diff d _ _ = d"

lemma word_or_zero_iff: "(a :: byte) OR b = 0 \<longleftrightarrow> a = 0 \<and> b = 0"
  by (metis or.right_neutral or_eq_0_iff)

lemma word_xor_zero_iff: "(a :: byte) XOR b = 0 \<longleftrightarrow> a = b"
  by (metis xor_self_eq word_bw_lcs(3) xor.right_neutral)

lemma xor_diff_zero_iff:
  "length xs = length ys \<Longrightarrow> xor_diff d xs ys = 0 \<longleftrightarrow> d = 0 \<and> xs = ys"
  by (induction d xs ys rule: xor_diff.induct) (auto simp: word_or_zero_iff word_xor_zero_iff)

fun or_all :: "byte \<Rightarrow> bytes \<Rightarrow> byte" where
  "or_all aggregate [] = aggregate"
| "or_all aggregate (b # bs) = or_all (aggregate OR b) bs"

lemma or_all_zero_iff: "or_all aggregate bs = 0 \<longleftrightarrow> aggregate = 0 \<and> bs = zeros (length bs)"
  by (induction aggregate bs rule: or_all.induct) (auto simp: word_or_zero_iff zeros_def)

section \<open>Lists by index\<close>

text \<open>\<^verbatim>\<open>findIndex\<close>, \<^verbatim>\<open>findLastIndex\<close> and \<^verbatim>\<open>splice(i, 1)\<close> on JavaScript arrays.\<close>

fun find_index :: "('a \<Rightarrow> bool) \<Rightarrow> 'a list \<Rightarrow> nat option" where
  "find_index P [] = None"
| "find_index P (x # xs) = (if P x then Some 0 else map_option Suc (find_index P xs))"

fun find_last_index :: "('a \<Rightarrow> bool) \<Rightarrow> 'a list \<Rightarrow> nat option" where
  "find_last_index P [] = None"
| "find_last_index P (x # xs) =
     (case find_last_index P xs of
        Some i \<Rightarrow> Some (Suc i)
      | None \<Rightarrow> if P x then Some 0 else None)"

definition remove_nth :: "nat \<Rightarrow> 'a list \<Rightarrow> 'a list" where
  "remove_nth i xs = take i xs @ drop (Suc i) xs"

lemma find_index_SomeD:
  "find_index P xs = Some i \<Longrightarrow> i < length xs \<and> P (xs ! i) \<and> (\<forall>j < i. \<not> P (xs ! j))"
proof (induction xs arbitrary: i)
  case Nil
  then show ?case by simp
next
  case (Cons x xs)
  show ?case
  proof (cases "P x")
    case True
    with Cons.prems show ?thesis by simp
  next
    case False
    with Cons.prems obtain k where k: "find_index P xs = Some k" "i = Suc k" by auto
    with Cons.IH [of k] False show ?thesis by (auto simp: nth_Cons split: nat.splits)
  qed
qed

lemma find_index_None_iff: "find_index P xs = None \<longleftrightarrow> (\<forall>x \<in> set xs. \<not> P x)"
  by (induction xs) auto

lemma find_last_index_None_iff: "find_last_index P xs = None \<longleftrightarrow> (\<forall>x \<in> set xs. \<not> P x)"
  by (induction xs) (auto split: option.splits)

lemma find_last_index_SomeD:
  "find_last_index P xs = Some i \<Longrightarrow> i < length xs \<and> P (xs ! i)"
  by (induction xs arbitrary: i) (auto split: option.splits if_splits)

lemma set_remove_nth_subset: "set (remove_nth i xs) \<subseteq> set xs"
  by (auto simp: remove_nth_def dest: in_set_takeD in_set_dropD)

lemma length_remove_nth: "i < length xs \<Longrightarrow> length (remove_nth i xs) = length xs - 1"
  by (simp add: remove_nth_def)

lemma distinct_remove_nth: "distinct xs \<Longrightarrow> distinct (remove_nth i xs)"
  unfolding remove_nth_def
  by (metis append_take_drop_id distinct_append distinct_drop distinct_take
      set_drop_subset_set_drop Suc_leD inf_mono le_refl order_refl subset_empty lessI less_imp_le)

section \<open>Sorting by a comparator\<close>

text \<open>\<^verbatim>\<open>Array.prototype.sort\<close> with a comparator is stable; so is insertion sort.\<close>

fun insert_cmp :: "('a \<Rightarrow> 'a \<Rightarrow> int) \<Rightarrow> 'a \<Rightarrow> 'a list \<Rightarrow> 'a list" where
  "insert_cmp cmp x [] = [x]"
| "insert_cmp cmp x (y # ys) = (if cmp x y \<le> 0 then x # y # ys else y # insert_cmp cmp x ys)"

definition sort_cmp :: "('a \<Rightarrow> 'a \<Rightarrow> int) \<Rightarrow> 'a list \<Rightarrow> 'a list" where
  "sort_cmp cmp xs = foldr (insert_cmp cmp) xs []"

lemma mset_insert_cmp [simp]: "mset (insert_cmp cmp x ys) = add_mset x (mset ys)"
  by (induction ys) auto

lemma mset_sort_cmp [simp]: "mset (sort_cmp cmp xs) = mset xs"
  unfolding sort_cmp_def by (induction xs) auto

lemma set_sort_cmp [simp]: "set (sort_cmp cmp xs) = set xs"
  by (rule mset_eq_setD) simp

lemma distinct_sort_cmp [simp]: "distinct (sort_cmp cmp xs) = distinct xs"
  by (rule mset_eq_imp_distinct_iff) simp

lemma length_sort_cmp [simp]: "length (sort_cmp cmp xs) = length xs"
  by (rule mset_eq_length) simp

text \<open>What \<^verbatim>\<open>sort\<close> asks of its comparator, and what it then promises.\<close>

locale js_comparator =
  fixes cmp :: "'a \<Rightarrow> 'a \<Rightarrow> int"
  assumes cmp_total: "cmp x y \<le> 0 \<or> cmp y x \<le> 0"
    and cmp_trans: "cmp x y \<le> 0 \<Longrightarrow> cmp y z \<le> 0 \<Longrightarrow> cmp x z \<le> 0"
begin

lemma set_insert_cmp: "set (insert_cmp cmp x ys) = insert x (set ys)"
  by (induction ys) auto

lemma sorted_insert_cmp:
  "sorted_wrt (\<lambda>a b. cmp a b \<le> 0) ys \<Longrightarrow> sorted_wrt (\<lambda>a b. cmp a b \<le> 0) (insert_cmp cmp x ys)"
proof (induction ys)
  case (Cons y ys)
  show ?case
  proof (cases "cmp x y \<le> 0")
    case True
    with Cons.prems show ?thesis by (auto intro: cmp_trans [OF True])
  next
    case False
    then have "cmp y x \<le> 0" using cmp_total [of x y] by blast
    with False Cons show ?thesis by (auto simp: set_insert_cmp)
  qed
qed simp

lemma sorted_sort_cmp: "sorted_wrt (\<lambda>a b. cmp a b \<le> 0) (sort_cmp cmp xs)"
  unfolding sort_cmp_def by (induction xs) (simp_all add: sorted_insert_cmp)

lemma sort_cmp_first:
  assumes "sort_cmp cmp xs = y # ys" "x \<in> set xs"
  shows "cmp y x \<le> 0"
proof -
  have "x \<in> set (y # ys)" using assms set_sort_cmp [of cmp xs] by simp
  moreover have "sorted_wrt (\<lambda>a b. cmp a b \<le> 0) (y # ys)" using sorted_sort_cmp [of xs] assms(1) by simp
  ultimately show ?thesis using cmp_total [of y y] by auto
qed

lemma lifted: "js_comparator (\<lambda>a b. cmp (f a) (f b))"
  by unfold_locales (use cmp_total cmp_trans in blast)+

end

section \<open>Codecs\<close>

text \<open>
  The contract every wire codec of the program is held to: encoding and decoding are two readings
  of one relation between values and byte strings. A fixed-width codec also promises its width.
\<close>

fun ok_of :: "'e + 'a \<Rightarrow> 'a option" where
  "ok_of (Inl e) = None"
| "ok_of (Inr x) = Some x"

lemma ok_of_Some [simp]: "ok_of r = Some x \<longleftrightarrow> r = Inr x"
  by (cases r) auto

lemma ok_of_None [simp]: "ok_of r = None \<longleftrightarrow> \<not> is_ok r"
  by (cases r) auto

locale wire_codec =
  fixes enc :: "'a \<Rightarrow> 'w option" and dec :: "'w \<Rightarrow> 'a option"
  assumes dec_enc_law: "enc x = Some w \<Longrightarrow> dec w = Some x"
    and enc_dec_law: "dec w = Some x \<Longrightarrow> enc x = Some w"
begin

lemma codec_iff: "dec w = Some x \<longleftrightarrow> enc x = Some w"
  using dec_enc_law enc_dec_law by blast

lemma enc_injective: "enc x = Some w \<Longrightarrow> enc y = Some w \<Longrightarrow> x = y"
  by (drule dec_enc_law, drule dec_enc_law) simp

lemma dec_injective: "dec w = Some x \<Longrightarrow> dec v = Some x \<Longrightarrow> w = v"
  by (drule enc_dec_law, drule enc_dec_law) simp

lemma reencode: "Option.bind (dec w) enc = (if dec w = None then None else Some w)"
  by (cases "dec w") (auto dest: enc_dec_law)

lemma canonical: "Option.bind (enc x) dec = (if enc x = None then None else Some x)"
  by (cases "enc x") (auto dest: dec_enc_law)

lemma accepted_iff: "dec w \<noteq> None \<longleftrightarrow> (\<exists>x. enc x = Some w)"
  using codec_iff by auto

end

locale fixed_codec = wire_codec enc dec
  for enc :: "'a \<Rightarrow> 'b list option" and dec :: "'b list \<Rightarrow> 'a option" +
  fixes width :: nat
  assumes enc_width: "enc x = Some w \<Longrightarrow> length w = width"
begin

lemma dec_width: "dec w = Some x \<Longrightarrow> length w = width"
  by (rule enc_width [OF enc_dec_law])

lemma wrong_width_refused: "length w \<noteq> width \<Longrightarrow> dec w = None"
  using dec_width by (cases "dec w") auto

lemma no_proper_prefix: "enc x = Some w \<Longrightarrow> enc y = Some (w @ v) \<Longrightarrow> v = []"
  by (drule enc_width, drule enc_width) simp

end

end
