(* ===== verification/Wire_Constants.thy ===== *)
theory Wire_Constants
  imports Prelude
begin

text \<open>
  The protocol constants of \<^verbatim>\<open>src/src/utils/constants.ts\<close> (and the libsodium sizes of
  \<^verbatim>\<open>cryptography/interfaces.ts\<close> they are computed from) that the modelled components read.
  Every constant keeps the source's name and its defining sum. \<open>wire_geometry\<close> collects their
  values.
\<close>

definition crypto_hash_sha512_BYTES :: nat where [const_defs]: "crypto_hash_sha512_BYTES = 64"
definition crypto_aead_chacha20poly1305_ietf_ABYTES :: nat where
  [const_defs]: "crypto_aead_chacha20poly1305_ietf_ABYTES = 16"

definition MESSAGE_LEN :: nat where [const_defs]: "MESSAGE_LEN = 64 * 1024"
definition MAX_MESSAGE_SIZE :: nat where [const_defs]: "MAX_MESSAGE_SIZE = 10 * 1024 * 1024 * 1024"
definition MAX_BUFFERED_AMOUNT :: nat where [const_defs]: "MAX_BUFFERED_AMOUNT = 16 * MESSAGE_LEN"
definition NAME_LEN :: nat where [const_defs]: "NAME_LEN = 256"
definition METADATA_LEN :: nat where
  [const_defs]: "METADATA_LEN = 8 + 1 + crypto_hash_sha512_BYTES + 8 + 8 + NAME_LEN + 8 + 8 + 8"
definition PROOF_LEN :: nat where
  [const_defs]: "PROOF_LEN = 4 + 48 * (crypto_hash_sha512_BYTES + 1)"
definition CHUNK_START :: nat where [const_defs]: "CHUNK_START = METADATA_LEN + PROOF_LEN"
definition CHUNK_PLAINTEXT_LEN :: nat where [const_defs]: "CHUNK_PLAINTEXT_LEN = 65405"
definition CHUNK_LEN :: nat where [const_defs]: "CHUNK_LEN = CHUNK_PLAINTEXT_LEN - CHUNK_START"
definition CHUNK_SIZE_FLOOR :: nat where [const_defs]: "CHUNK_SIZE_FLOOR = MESSAGE_LEN - CHUNK_LEN"
definition DECRYPTED_LEN :: nat where [const_defs]: "DECRYPTED_LEN = CHUNK_PLAINTEXT_LEN"

definition PROTOCOL_VERSION :: int where [const_defs]: "PROTOCOL_VERSION = 4"
definition FRAME_TYPE_LEN :: nat where [const_defs]: "FRAME_TYPE_LEN = 1"
definition FRAME_TYPE_HANDSHAKE :: int where [const_defs]: "FRAME_TYPE_HANDSHAKE = 1"
definition FRAME_TYPE_CHUNK :: int where [const_defs]: "FRAME_TYPE_CHUNK = 2"
definition FRAME_TYPE_RECEIPT :: int where [const_defs]: "FRAME_TYPE_RECEIPT = 3"
definition FRAME_TYPE_COVER :: int where [const_defs]: "FRAME_TYPE_COVER = 4"
definition FRAME_TYPE_PQ_CONTROL :: int where [const_defs]: "FRAME_TYPE_PQ_CONTROL = 5"
definition RECEIPT_TOKEN_LEN :: nat where [const_defs]: "RECEIPT_TOKEN_LEN = crypto_hash_sha512_BYTES"
definition WIRE_RECEIPT_FRAME_LEN :: nat where
  [const_defs]: "WIRE_RECEIPT_FRAME_LEN = FRAME_TYPE_LEN + RECEIPT_TOKEN_LEN"

definition RATCHET_DHPUB_LEN :: nat where [const_defs]: "RATCHET_DHPUB_LEN = 32"
definition RATCHET_N_LEN :: nat where [const_defs]: "RATCHET_N_LEN = 8"
definition RATCHET_PN_LEN :: nat where [const_defs]: "RATCHET_PN_LEN = 8"
definition PQ_EPOCH_LEN :: nat where [const_defs]: "PQ_EPOCH_LEN = 8"
definition RATCHET_NONCE_LEN :: nat where [const_defs]: "RATCHET_NONCE_LEN = 12"
definition CHUNK_AAD_HEADER_LEN :: nat where
  [const_defs]: "CHUNK_AAD_HEADER_LEN =
     FRAME_TYPE_LEN + RATCHET_DHPUB_LEN + RATCHET_N_LEN + RATCHET_PN_LEN + PQ_EPOCH_LEN"
definition CHUNK_HEADER_LEN :: nat where
  [const_defs]: "CHUNK_HEADER_LEN =
     RATCHET_DHPUB_LEN + RATCHET_N_LEN + RATCHET_PN_LEN + PQ_EPOCH_LEN + RATCHET_NONCE_LEN"
definition MESSAGE_START :: nat where [const_defs]: "MESSAGE_START = FRAME_TYPE_LEN + CHUNK_HEADER_LEN"
definition WIRE_CHUNK_FRAME_LEN :: nat where
  [const_defs]: "WIRE_CHUNK_FRAME_LEN =
     MESSAGE_START + DECRYPTED_LEN + crypto_aead_chacha20poly1305_ietf_ABYTES"

definition RATCHET_ROOT_SUITE_MLKEM512 :: string where
  "RATCHET_ROOT_SUITE_MLKEM512 = ''hybrid-3dh-mlkem512-cpace21-v4''"
definition RATCHET_ROOT_SUITE_MLKEM768 :: string where
  "RATCHET_ROOT_SUITE_MLKEM768 = ''hybrid-3dh-mlkem768-cpace21-v4''"
definition RATCHET_ROOT_SUITE_MLKEM1024 :: string where
  "RATCHET_ROOT_SUITE_MLKEM1024 = ''hybrid-3dh-mlkem1024-cpace21-v4''"
definition RATCHET_ROOT_SUITES :: "string list" where
  "RATCHET_ROOT_SUITES =
     [RATCHET_ROOT_SUITE_MLKEM512, RATCHET_ROOT_SUITE_MLKEM768, RATCHET_ROOT_SUITE_MLKEM1024]"
definition isRatchetRootSuite :: "string \<Rightarrow> bool" where
  "isRatchetRootSuite value \<longleftrightarrow> value \<in> set RATCHET_ROOT_SUITES"

definition MAX_SKIP :: int where [const_defs]: "MAX_SKIP = 512"
definition MAX_SKIP_SESSION :: nat where [const_defs]: "MAX_SKIP_SESSION = 2000"

text \<open>
  The signaling version check of \<^verbatim>\<open>utils/protocolVersion.ts\<close>: a missing version is \<open>None\<close>.
\<close>

definition isProtocolVersionCompatible :: "int option \<Rightarrow> bool" where
  "isProtocolVersionCompatible peerProtocolVersion =
     (case peerProtocolVersion of None \<Rightarrow> False | Some v \<Rightarrow> v = PROTOCOL_VERSION)"

text \<open>The range check of \<^verbatim>\<open>utils/chunkBounds.ts\<close> on a sender-declared data range.\<close>

definition isStorableChunkRange :: "int \<Rightarrow> int \<Rightarrow> int \<Rightarrow> bool" where
  "isStorableChunkRange chunkStartIndex chunkEndIndex chunkLength \<longleftrightarrow>
     is_safe_integer chunkStartIndex \<and> is_safe_integer chunkEndIndex \<and>
     chunkStartIndex \<ge> 0 \<and> chunkEndIndex \<ge> chunkStartIndex \<and> chunkEndIndex \<le> chunkLength"

lemma wire_geometry:
  "WIRE_CHUNK_FRAME_LEN = 65490" "MESSAGE_START = 69" "METADATA_LEN = 369" "PROOF_LEN = 3124"
  "CHUNK_LEN = 61912" "WIRE_RECEIPT_FRAME_LEN = 65" "CHUNK_AAD_HEADER_LEN = 57"
  by (simp_all add: const_defs)

end
