(* ===== verification/Room_Policy.thy ===== *)
theory Room_Policy
  imports Wire_Constants
begin

text \<open>
  \<^verbatim>\<open>src/src/roomPolicy.ts\<close>: the canonical room policy descriptor, its validation and its 32-byte
  wire form. The mode fields stay strings, as in the source, so the run-time membership checks
  are part of the model; the JavaScript object-shape check (\<^verbatim>\<open>assertExactShape\<close>) is the record
  type itself. Shown: encoding and decoding are inverse bijections between valid policies and
  accepted buffers, every rejection is one of the listed errors, and policy comparison is
  equality.
\<close>

record room_policy =
  version :: int
  revision :: int
  wireVersion :: int
  authMode :: string
  pqMode :: string
  rendezvousMode :: string
  coverMode :: string
  coverCadenceMs :: int
  coverLanes :: int
  coverFramesPerCell :: int
  coverDurationEpochs :: int

datatype policy_error =
    UnsupportedPolicyVersion
  | UnsupportedWireVersion
  | FieldOutOfRange string
  | UnsupportedMode string
  | ImmediateNeedsZeroSchedule
  | CadenceOutOfRange
  | LanesOutOfRange
  | FramesOutOfRange
  | SlotsBelowGranularity
  | DurationOutOfRange
  | InvalidLength
  | InvalidMagic
  | NonZeroReserved
  | RequiresHybrid
  | UnsupportedRootSuite

definition ROOM_POLICY_V1_ENCODED_LEN :: nat where [const_defs]: "ROOM_POLICY_V1_ENCODED_LEN = 32"
definition MIN_COVER_CADENCE_MS :: int where [const_defs]: "MIN_COVER_CADENCE_MS = 1000"
definition MAX_COVER_CADENCE_MS :: int where [const_defs]: "MAX_COVER_CADENCE_MS = 3600000"
definition MAX_COVER_LANES :: int where [const_defs]: "MAX_COVER_LANES = 16"
definition MAX_COVER_FRAMES_PER_CELL :: int where [const_defs]: "MAX_COVER_FRAMES_PER_CELL = 1024"
definition MIN_COVER_SLOT_MS :: int where [const_defs]: "MIN_COVER_SLOT_MS = 25"
definition POLICY_MAGIC :: bytes where "POLICY_MAGIC = [0x50, 0x32, 0x52, 0x50]"
definition POLICY_FORMAT_VERSION :: int where [const_defs]: "POLICY_FORMAT_VERSION = 1"
definition RESERVED_START :: nat where [const_defs]: "RESERVED_START = 24"

definition AUTH_MODE_TO_BYTE :: "(string \<times> byte) list" where
  "AUTH_MODE_TO_BYTE = [(''nopin'', 0), (''pin'', 1)]"
definition PQ_MODE_TO_BYTE :: "(string \<times> byte) list" where
  "PQ_MODE_TO_BYTE = [(''hybrid-mlkem768'', 1), (''hybrid-mlkem512'', 2), (''hybrid-mlkem1024'', 3)]"
definition RENDEZVOUS_MODE_TO_BYTE :: "(string \<times> byte) list" where
  "RENDEZVOUS_MODE_TO_BYTE =
     [(''legacy-signaling'', 0), (''opaque-token'', 1), (''blind-meeting-point'', 2)]"
definition COVER_MODE_TO_BYTE :: "(string \<times> byte) list" where
  "COVER_MODE_TO_BYTE = [(''immediate'', 0), (''scheduled'', 1)]"

definition byteToAuthMode :: "byte \<Rightarrow> policy_error + string" where
  "byteToAuthMode value =
     (if value = 0 then Inr ''nopin''
      else if value = 1 then Inr ''pin''
      else Inl (UnsupportedMode ''auth mode''))"

definition byteToPqMode :: "byte \<Rightarrow> policy_error + string" where
  "byteToPqMode value =
     (if value = 1 then Inr ''hybrid-mlkem768''
      else if value = 2 then Inr ''hybrid-mlkem512''
      else if value = 3 then Inr ''hybrid-mlkem1024''
      else if value = 0 then Inl RequiresHybrid
      else Inl (UnsupportedMode ''PQ mode''))"

definition byteToRendezvousMode :: "byte \<Rightarrow> policy_error + string" where
  "byteToRendezvousMode value =
     (if value = 0 then Inr ''legacy-signaling''
      else if value = 1 then Inr ''opaque-token''
      else if value = 2 then Inr ''blind-meeting-point''
      else Inl (UnsupportedMode ''rendezvous mode''))"

definition byteToCoverMode :: "byte \<Rightarrow> policy_error + string" where
  "byteToCoverMode value =
     (if value = 0 then Inr ''immediate''
      else if value = 1 then Inr ''scheduled''
      else Inl (UnsupportedMode ''cover mode''))"

definition roomPqModeToParameterSet :: "string \<Rightarrow> policy_error + nat" where
  "roomPqModeToParameterSet mode =
     (if mode = ''hybrid-mlkem512'' then Inr 512
      else if mode = ''hybrid-mlkem768'' then Inr 768
      else if mode = ''hybrid-mlkem1024'' then Inr 1024
      else Inl (UnsupportedMode ''PQ mode''))"

definition roomPqModeToRootSuite :: "string \<Rightarrow> policy_error + string" where
  "roomPqModeToRootSuite mode =
     (if mode = ''hybrid-mlkem512'' then Inr RATCHET_ROOT_SUITE_MLKEM512
      else if mode = ''hybrid-mlkem768'' then Inr RATCHET_ROOT_SUITE_MLKEM768
      else if mode = ''hybrid-mlkem1024'' then Inr RATCHET_ROOT_SUITE_MLKEM1024
      else Inl (UnsupportedMode ''PQ mode''))"

definition rootSuiteToRoomPqMode :: "string \<Rightarrow> policy_error + string" where
  "rootSuiteToRoomPqMode suite =
     (if suite = RATCHET_ROOT_SUITE_MLKEM512 then Inr ''hybrid-mlkem512''
      else if suite = RATCHET_ROOT_SUITE_MLKEM768 then Inr ''hybrid-mlkem768''
      else if suite = RATCHET_ROOT_SUITE_MLKEM1024 then Inr ''hybrid-mlkem1024''
      else Inl UnsupportedRootSuite)"

definition assertUnsignedInteger :: "string \<Rightarrow> int \<Rightarrow> int \<Rightarrow> policy_error + unit" where
  "assertUnsignedInteger name value maxv =
     (if \<not> is_safe_integer value \<or> value < 0 \<or> value > maxv then Inl (FieldOutOfRange name)
      else Inr ())"

definition assertKnownStringValue :: "string \<Rightarrow> string \<Rightarrow> (string \<times> byte) list \<Rightarrow> policy_error + unit" where
  "assertKnownStringValue name value table =
     (if map_of table value = None then Inl (UnsupportedMode name) else Inr ())"

text \<open>
  The slot-length test \<^verbatim>\<open>cadence / (lanes * frames) < 25\<close> is written without the quotient: at
  this point of the function the divisor is positive and at most \<open>16 * 1024\<close>, so the rounded
  quotient is below 25 exactly when \<open>cadence < 25 * (lanes * frames)\<close>.
\<close>

definition validateRoomPolicyV1 :: "room_policy \<Rightarrow> policy_error + unit" where
  "validateRoomPolicyV1 policy =
     rbind (ensure (version policy = POLICY_FORMAT_VERSION) UnsupportedPolicyVersion) (\<lambda>_.
     rbind (ensure (wireVersion policy = PROTOCOL_VERSION) UnsupportedWireVersion) (\<lambda>_.
     rbind (assertUnsignedInteger ''revision'' (revision policy) 0xffffffff) (\<lambda>_.
     rbind (assertKnownStringValue ''auth mode'' (authMode policy) AUTH_MODE_TO_BYTE) (\<lambda>_.
     rbind (assertKnownStringValue ''PQ mode'' (pqMode policy) PQ_MODE_TO_BYTE) (\<lambda>_.
     rbind (assertKnownStringValue ''rendezvous mode'' (rendezvousMode policy) RENDEZVOUS_MODE_TO_BYTE) (\<lambda>_.
     rbind (assertKnownStringValue ''cover mode'' (coverMode policy) COVER_MODE_TO_BYTE) (\<lambda>_.
     rbind (assertUnsignedInteger ''cover cadence'' (coverCadenceMs policy) 0xffffffff) (\<lambda>_.
     rbind (assertUnsignedInteger ''cover lanes'' (coverLanes policy) 0xffff) (\<lambda>_.
     rbind (assertUnsignedInteger ''cover frames per cell'' (coverFramesPerCell policy) 0xffff) (\<lambda>_.
     rbind (assertUnsignedInteger ''cover duration epochs'' (coverDurationEpochs policy) 0xffff) (\<lambda>_.
     if coverMode policy = ''immediate'' then
       (if coverCadenceMs policy \<noteq> 0 \<or> coverLanes policy \<noteq> 0 \<or>
           coverFramesPerCell policy \<noteq> 0 \<or> coverDurationEpochs policy \<noteq> 0
        then Inl ImmediateNeedsZeroSchedule else Inr ())
     else if coverCadenceMs policy < MIN_COVER_CADENCE_MS \<or> coverCadenceMs policy > MAX_COVER_CADENCE_MS
       then Inl CadenceOutOfRange
     else if coverLanes policy < 1 \<or> coverLanes policy > MAX_COVER_LANES then Inl LanesOutOfRange
     else if coverFramesPerCell policy < 1 \<or> coverFramesPerCell policy > MAX_COVER_FRAMES_PER_CELL
       then Inl FramesOutOfRange
     else if coverCadenceMs policy < MIN_COVER_SLOT_MS * (coverLanes policy * coverFramesPerCell policy)
       then Inl SlotsBelowGranularity
     else if coverDurationEpochs policy < 1 then Inl DurationOutOfRange
     else Inr ())))))))))))"

definition encodeRoomPolicyV1 :: "room_policy \<Rightarrow> policy_error + bytes" where
  "encodeRoomPolicyV1 policy =
     rbind (validateRoomPolicyV1 policy) (\<lambda>_.
     let encoded = zeros ROOM_POLICY_V1_ENCODED_LEN;
         encoded = set_at encoded 0 POLICY_MAGIC;
         encoded = set_at encoded 4 [of_int POLICY_FORMAT_VERSION];
         encoded = set_at encoded 5 [of_int (wireVersion policy)];
         encoded = set_at encoded 6 [the (map_of AUTH_MODE_TO_BYTE (authMode policy))];
         encoded = set_at encoded 7 [the (map_of PQ_MODE_TO_BYTE (pqMode policy))];
         encoded = set_at encoded 8 [the (map_of RENDEZVOUS_MODE_TO_BYTE (rendezvousMode policy))];
         encoded = set_at encoded 9 [the (map_of COVER_MODE_TO_BYTE (coverMode policy))];
         encoded = set_at encoded 10 (be_enc 4 (nat (revision policy)));
         encoded = set_at encoded 14 (be_enc 4 (nat (coverCadenceMs policy)));
         encoded = set_at encoded 18 (be_enc 2 (nat (coverLanes policy)));
         encoded = set_at encoded 20 (be_enc 2 (nat (coverFramesPerCell policy)));
         encoded = set_at encoded 22 (be_enc 2 (nat (coverDurationEpochs policy)))
     in Inr encoded)"

definition decodeRoomPolicyV1 :: "bytes \<Rightarrow> policy_error + room_policy" where
  "decodeRoomPolicyV1 encoded =
     rbind (ensure (length encoded = ROOM_POLICY_V1_ENCODED_LEN) InvalidLength) (\<lambda>_.
     rbind (ensure (sub encoded 0 4 = POLICY_MAGIC) InvalidMagic) (\<lambda>_.
     rbind (ensure (list_all (\<lambda>b. b = 0) (drop RESERVED_START encoded)) NonZeroReserved) (\<lambda>_.
     rbind (byteToAuthMode (encoded ! 6)) (\<lambda>auth.
     rbind (byteToPqMode (encoded ! 7)) (\<lambda>pq.
     rbind (byteToRendezvousMode (encoded ! 8)) (\<lambda>rendezvous.
     rbind (byteToCoverMode (encoded ! 9)) (\<lambda>cover.
     let policy = \<lparr>version = uint (encoded ! 4),
                   revision = int (be_dec (sub encoded 10 14)),
                   wireVersion = uint (encoded ! 5),
                   authMode = auth, pqMode = pq, rendezvousMode = rendezvous, coverMode = cover,
                   coverCadenceMs = int (be_dec (sub encoded 14 18)),
                   coverLanes = int (be_dec (sub encoded 18 20)),
                   coverFramesPerCell = int (be_dec (sub encoded 20 22)),
                   coverDurationEpochs = int (be_dec (sub encoded 22 24))\<rparr>
     in rbind (validateRoomPolicyV1 policy) (\<lambda>_. Inr policy))))))))"

definition canonicalizeRoomPolicyV1 :: "room_policy \<Rightarrow> policy_error + room_policy" where
  "canonicalizeRoomPolicyV1 policy = rbind (encodeRoomPolicyV1 policy) decodeRoomPolicyV1"

definition roomPoliciesEqualV1 :: "room_policy \<Rightarrow> room_policy \<Rightarrow> policy_error + bool" where
  "roomPoliciesEqualV1 left right =
     rbind (encodeRoomPolicyV1 left) (\<lambda>a.
     rbind (encodeRoomPolicyV1 right) (\<lambda>b.
     Inr (xor_diff 0 a b = 0)))"

definition DEFAULT_ROOM_POLICY_V1 :: room_policy where
  "DEFAULT_ROOM_POLICY_V1 =
     \<lparr>version = 1, revision = 0, wireVersion = 4, authMode = ''nopin'', pqMode = ''hybrid-mlkem768'',
      rendezvousMode = ''legacy-signaling'', coverMode = ''immediate'', coverCadenceMs = 0,
      coverLanes = 0, coverFramesPerCell = 0, coverDurationEpochs = 0\<rparr>"

section \<open>What validation establishes\<close>

lemmas mode_tables =
  AUTH_MODE_TO_BYTE_def PQ_MODE_TO_BYTE_def RENDEZVOUS_MODE_TO_BYTE_def COVER_MODE_TO_BYTE_def

lemmas mode_readers =
  byteToAuthMode_def byteToPqMode_def byteToRendezvousMode_def byteToCoverMode_def

lemma assertUnsignedInteger_ok:
  "assertUnsignedInteger n v m = Inr u \<longleftrightarrow> is_safe_integer v \<and> 0 \<le> v \<and> v \<le> m"
  by (auto simp: assertUnsignedInteger_def)

lemma assertKnownStringValue_ok:
  "assertKnownStringValue n v t = Inr u \<longleftrightarrow> (\<exists>b. map_of t v = Some b)"
  by (auto simp: assertKnownStringValue_def)

lemmas validate_simps = validateRoomPolicyV1_def result_simps assertUnsignedInteger_ok
  assertKnownStringValue_ok is_safe_integer_def const_defs

definition valid_policy :: "room_policy \<Rightarrow> bool" where
  "valid_policy p \<longleftrightarrow> validateRoomPolicyV1 p = Inr ()"

lemma valid_policy_ranges:
  assumes "valid_policy p"
  shows "version p = 1" "wireVersion p = 4"
    "0 \<le> revision p" "revision p < 2 ^ 32" "0 \<le> coverCadenceMs p" "coverCadenceMs p < 2 ^ 32"
    "0 \<le> coverLanes p" "coverLanes p < 2 ^ 16" "0 \<le> coverFramesPerCell p" "coverFramesPerCell p < 2 ^ 16"
    "0 \<le> coverDurationEpochs p" "coverDurationEpochs p < 2 ^ 16"
  using assms by (simp_all add: valid_policy_def validate_simps)

lemma valid_policy_modes:
  assumes "valid_policy p"
  shows "\<exists>b. map_of AUTH_MODE_TO_BYTE (authMode p) = Some b"
    "\<exists>b. map_of PQ_MODE_TO_BYTE (pqMode p) = Some b"
    "\<exists>b. map_of RENDEZVOUS_MODE_TO_BYTE (rendezvousMode p) = Some b"
    "\<exists>b. map_of COVER_MODE_TO_BYTE (coverMode p) = Some b"
  using assms by (simp_all add: valid_policy_def validate_simps)

section \<open>The wire layout\<close>

definition policy_layout :: "room_policy \<Rightarrow> bytes" where
  "policy_layout p =
     POLICY_MAGIC @ [1, of_int (wireVersion p)] @
     [the (map_of AUTH_MODE_TO_BYTE (authMode p)), the (map_of PQ_MODE_TO_BYTE (pqMode p)),
      the (map_of RENDEZVOUS_MODE_TO_BYTE (rendezvousMode p)), the (map_of COVER_MODE_TO_BYTE (coverMode p))] @
     be_enc 4 (nat (revision p)) @ be_enc 4 (nat (coverCadenceMs p)) @
     be_enc 2 (nat (coverLanes p)) @ be_enc 2 (nat (coverFramesPerCell p)) @
     be_enc 2 (nat (coverDurationEpochs p)) @ zeros 8"

lemma encodeRoomPolicyV1_layout:
  "encodeRoomPolicyV1 p = rbind (validateRoomPolicyV1 p) (\<lambda>_. Inr (policy_layout p))"
  by (simp add: encodeRoomPolicyV1_def policy_layout_def Let_def wire_simps
      ROOM_POLICY_V1_ENCODED_LEN_def POLICY_FORMAT_VERSION_def POLICY_MAGIC_def)

lemma encode_valid: "valid_policy p \<Longrightarrow> encodeRoomPolicyV1 p = Inr (policy_layout p)"
  by (simp add: encodeRoomPolicyV1_layout valid_policy_def)

lemma encode_ok_iff: "encodeRoomPolicyV1 p = Inr bs \<longleftrightarrow> valid_policy p \<and> bs = policy_layout p"
  by (auto simp: encodeRoomPolicyV1_layout result_simps valid_policy_def)

lemma length_policy_layout [simp]: "length (policy_layout p) = 32"
  by (simp add: policy_layout_def POLICY_MAGIC_def)

lemma policy_layout_fields:
  "sub (policy_layout p) 0 4 = POLICY_MAGIC"
  "policy_layout p ! 4 = 1" "policy_layout p ! 5 = of_int (wireVersion p)"
  "policy_layout p ! 6 = the (map_of AUTH_MODE_TO_BYTE (authMode p))"
  "policy_layout p ! 7 = the (map_of PQ_MODE_TO_BYTE (pqMode p))"
  "policy_layout p ! 8 = the (map_of RENDEZVOUS_MODE_TO_BYTE (rendezvousMode p))"
  "policy_layout p ! 9 = the (map_of COVER_MODE_TO_BYTE (coverMode p))"
  by (simp_all add: policy_layout_def POLICY_MAGIC_def sub_def)

lemma policy_layout_numbers:
  "sub (policy_layout p) 10 14 = be_enc 4 (nat (revision p))"
  "sub (policy_layout p) 14 18 = be_enc 4 (nat (coverCadenceMs p))"
  "sub (policy_layout p) 18 20 = be_enc 2 (nat (coverLanes p))"
  "sub (policy_layout p) 20 22 = be_enc 2 (nat (coverFramesPerCell p))"
  "sub (policy_layout p) 22 24 = be_enc 2 (nat (coverDurationEpochs p))"
  "drop 24 (policy_layout p) = zeros 8"
  by (simp_all add: policy_layout_def POLICY_MAGIC_def sub_def)

lemma mode_readers_inverse:
  "map_of AUTH_MODE_TO_BYTE a = Some b \<Longrightarrow> byteToAuthMode b = Inr a"
  "map_of PQ_MODE_TO_BYTE q = Some b \<Longrightarrow> byteToPqMode b = Inr q"
  "map_of RENDEZVOUS_MODE_TO_BYTE r = Some b \<Longrightarrow> byteToRendezvousMode b = Inr r"
  "map_of COVER_MODE_TO_BYTE c = Some b \<Longrightarrow> byteToCoverMode b = Inr c"
  by (auto simp: mode_tables mode_readers split: if_splits)

lemma mode_readers_ok:
  "byteToAuthMode b = Inr a \<Longrightarrow> map_of AUTH_MODE_TO_BYTE a = Some b"
  "byteToPqMode b = Inr q \<Longrightarrow> map_of PQ_MODE_TO_BYTE q = Some b"
  "byteToRendezvousMode b = Inr r \<Longrightarrow> map_of RENDEZVOUS_MODE_TO_BYTE r = Some b"
  "byteToCoverMode b = Inr c \<Longrightarrow> map_of COVER_MODE_TO_BYTE c = Some b"
  by (auto simp: mode_tables mode_readers split: if_splits)

lemma decode_layout:
  assumes v: "valid_policy p"
  shows "decodeRoomPolicyV1 (policy_layout p) = Inr p"
proof -
  note r = valid_policy_ranges [OF v]
  obtain a q rz c where m: "map_of AUTH_MODE_TO_BYTE (authMode p) = Some a"
    "map_of PQ_MODE_TO_BYTE (pqMode p) = Some q"
    "map_of RENDEZVOUS_MODE_TO_BYTE (rendezvousMode p) = Some rz"
    "map_of COVER_MODE_TO_BYTE (coverMode p) = Some c"
    using valid_policy_modes [OF v] by blast
  have n: "int (be_dec (be_enc 4 (nat (revision p)))) = revision p"
    "int (be_dec (be_enc 4 (nat (coverCadenceMs p)))) = coverCadenceMs p"
    "int (be_dec (be_enc 2 (nat (coverLanes p)))) = coverLanes p"
    "int (be_dec (be_enc 2 (nat (coverFramesPerCell p)))) = coverFramesPerCell p"
    "int (be_dec (be_enc 2 (nat (coverDurationEpochs p)))) = coverDurationEpochs p"
    using r by (simp_all add: be_dec_enc_int)
  have rec: "\<lparr>version = 1, revision = revision p, wireVersion = 4, authMode = authMode p,
      pqMode = pqMode p, rendezvousMode = rendezvousMode p, coverMode = coverMode p,
      coverCadenceMs = coverCadenceMs p, coverLanes = coverLanes p,
      coverFramesPerCell = coverFramesPerCell p, coverDurationEpochs = coverDurationEpochs p\<rparr> = p"
    using r(1,2) by (cases p) simp
  have z: "list_all (\<lambda>b. b = 0) (zeros 8)" by (simp add: zeros_def list_all_iff)
  show ?thesis
    using v r m mode_readers_inverse(1) [OF m(1)] mode_readers_inverse(2) [OF m(2)]
      mode_readers_inverse(3) [OF m(3)] mode_readers_inverse(4) [OF m(4)]
    by (simp add: decodeRoomPolicyV1_def policy_layout_fields policy_layout_numbers n Let_def rec z
        ROOM_POLICY_V1_ENCODED_LEN_def RESERVED_START_def valid_policy_def)
qed

lemma buffer_split_policy:
  assumes "length bs = 32"
  shows "bs = sub bs 0 4 @ [bs ! 4, bs ! 5] @ [bs ! 6, bs ! 7, bs ! 8, bs ! 9] @
    sub bs 10 14 @ sub bs 14 18 @ sub bs 18 20 @ sub bs 20 22 @ sub bs 22 24 @ drop 24 bs"
proof -
  have singles: "sub bs 4 10 = [bs ! 4, bs ! 5] @ [bs ! 6, bs ! 7, bs ! 8, bs ! 9]"
    using assms sub_single [of 4 bs] sub_single [of 5 bs] sub_single [of 6 bs] sub_single [of 7 bs]
      sub_single [of 8 bs] sub_single [of 9 bs] sub_join [of 4 5 10 bs] sub_join [of 5 6 10 bs]
      sub_join [of 6 7 10 bs] sub_join [of 7 8 10 bs] sub_join [of 8 9 10 bs]
    by simp
  have tail: "drop 24 bs = sub bs 24 32" using assms by (simp add: sub_def)
  have "bs = sub bs 0 32" using assms by (simp add: sub_whole)
  also have "\<dots> = sub bs 0 4 @ sub bs 4 10 @ sub bs 10 14 @ sub bs 14 18 @ sub bs 18 20 @
      sub bs 20 22 @ sub bs 22 24 @ sub bs 24 32"
    by (simp add: sub_join)
  finally show ?thesis unfolding singles tail by simp
qed

lemma decode_ok_layout:
  assumes "decodeRoomPolicyV1 bs = Inr p"
  shows "valid_policy p \<and> bs = policy_layout p"
proof -
  from assms have len: "length bs = 32" and mg: "sub bs 0 4 = POLICY_MAGIC"
    and rz: "list_all (\<lambda>b. b = 0) (drop 24 bs)"
    and a: "byteToAuthMode (bs ! 6) = Inr (authMode p)" and q: "byteToPqMode (bs ! 7) = Inr (pqMode p)"
    and r: "byteToRendezvousMode (bs ! 8) = Inr (rendezvousMode p)"
    and c: "byteToCoverMode (bs ! 9) = Inr (coverMode p)" and v: "valid_policy p"
    and w: "wireVersion p = uint (bs ! 5)" "version p = uint (bs ! 4)"
    and n: "nat (revision p) = be_dec (sub bs 10 14)" "nat (coverCadenceMs p) = be_dec (sub bs 14 18)"
      "nat (coverLanes p) = be_dec (sub bs 18 20)" "nat (coverFramesPerCell p) = be_dec (sub bs 20 22)"
      "nat (coverDurationEpochs p) = be_dec (sub bs 22 24)"
    by (auto simp: decodeRoomPolicyV1_def result_simps Let_def valid_policy_def
        ROOM_POLICY_V1_ENCODED_LEN_def RESERVED_START_def)
  have z: "drop 24 bs = zeros 8"
    using rz len by (simp add: zeros_def list_eq_iff_nth_eq list_all_length)
  have f: "bs ! 4 = 1" using w valid_policy_ranges(1) [OF v] by (simp add: word_uint_eq_iff)
  have e: "be_enc 4 (be_dec (sub bs 10 14)) = sub bs 10 14" "be_enc 4 (be_dec (sub bs 14 18)) = sub bs 14 18"
    "be_enc 2 (be_dec (sub bs 18 20)) = sub bs 18 20" "be_enc 2 (be_dec (sub bs 20 22)) = sub bs 20 22"
    "be_enc 2 (be_dec (sub bs 22 24)) = sub bs 22 24"
    using be_enc_sub [of 14 bs 10] be_enc_sub [of 18 bs 14] be_enc_sub [of 20 bs 18]
      be_enc_sub [of 22 bs 20] be_enc_sub [of 24 bs 22] len by simp_all
  have "bs = policy_layout p"
    unfolding policy_layout_def n e
    using buffer_split_policy [OF len] mg f w z mode_readers_ok(1) [OF a] mode_readers_ok(2) [OF q]
      mode_readers_ok(3) [OF r] mode_readers_ok(4) [OF c]
    by simp
  with v show ?thesis by simp
qed

lemma decode_encode: "encodeRoomPolicyV1 p = Inr bs \<Longrightarrow> decodeRoomPolicyV1 bs = Inr p"
  by (simp add: encode_ok_iff decode_layout)

lemma encode_decode: "decodeRoomPolicyV1 bs = Inr p \<Longrightarrow> encodeRoomPolicyV1 p = Inr bs"
  using decode_ok_layout by (auto simp: encode_valid)

lemma policy_layout_inj:
  "valid_policy p \<Longrightarrow> valid_policy q \<Longrightarrow> policy_layout p = policy_layout q \<Longrightarrow> p = q"
  by (metis decode_layout sum.inject(2))

lemma canonicalize_eq: "canonicalizeRoomPolicyV1 p = rbind (validateRoomPolicyV1 p) (\<lambda>_. Inr p)"
  by (cases "validateRoomPolicyV1 p")
     (simp_all add: canonicalizeRoomPolicyV1_def encodeRoomPolicyV1_layout decode_layout valid_policy_def)

lemma equal_valid:
  "valid_policy p \<Longrightarrow> valid_policy q \<Longrightarrow> roomPoliciesEqualV1 p q = Inr (p = q)"
  by (auto simp: roomPoliciesEqualV1_def encode_valid xor_diff_zero_iff dest: policy_layout_inj)

lemma default_policy_valid: "valid_policy DEFAULT_ROOM_POLICY_V1"
  by (simp add: valid_policy_def DEFAULT_ROOM_POLICY_V1_def validateRoomPolicyV1_def const_defs
      assertUnsignedInteger_def assertKnownStringValue_def is_safe_integer_def mode_tables)

interpretation policy: fixed_codec "\<lambda>p. ok_of (encodeRoomPolicyV1 p)" "\<lambda>bs. ok_of (decodeRoomPolicyV1 bs)" 32
  by unfold_locales (auto simp: encode_ok_iff decode_layout dest: encode_decode)

section \<open>Properties\<close>

text \<open>C21: the room policy codec is a bijection between the policies the validator accepts and the
  byte strings the decoder accepts: a byte string decodes to a policy exactly if the policy encodes
  to it, every accepted string is 32 bytes, and encoding fails exactly where validation does.\<close>

theorem room_policy_codec_bijection:
  "(decodeRoomPolicyV1 bs = Inr p \<longleftrightarrow> encodeRoomPolicyV1 p = Inr bs) \<and>
   (is_ok (decodeRoomPolicyV1 bs) = (length bs = 32 \<and> (\<exists>q. encodeRoomPolicyV1 q = Inr bs))) \<and>
   is_ok (encodeRoomPolicyV1 p) = is_ok (validateRoomPolicyV1 p)"
proof -
  have "is_ok (encodeRoomPolicyV1 p) = is_ok (validateRoomPolicyV1 p)"
    by (cases "validateRoomPolicyV1 p") (simp_all add: encodeRoomPolicyV1_layout)
  with policy.codec_iff [of bs p] policy.accepted_iff [of bs] policy.dec_width [of bs] show ?thesis
    by (auto simp: is_ok_iff)
qed

text \<open>Comparing two policies through their encodings is comparing them field by field, with the
  left policy's validation error reported before the right one's; canonicalizing changes nothing
  of a valid policy.\<close>

theorem room_policies_equal_iff:
  "roomPoliciesEqualV1 p q =
     rbind (validateRoomPolicyV1 p) (\<lambda>_. rbind (validateRoomPolicyV1 q) (\<lambda>_. Inr (p = q))) \<and>
   canonicalizeRoomPolicyV1 p = rbind (validateRoomPolicyV1 p) (\<lambda>_. Inr p)"
  by (cases "validateRoomPolicyV1 p"; cases "validateRoomPolicyV1 q")
     (auto simp: equal_valid valid_policy_def canonicalize_eq, 
      auto simp: roomPoliciesEqualV1_def encodeRoomPolicyV1_layout)

end
