(* ===== verification/Frames.thy ===== *)
theory Frames
  imports Wire_Constants
begin

text \<open>
  The outer frames of the data channel: the tag classifier (\<^verbatim>\<open>handlers/frameType.ts\<close>), the receipt
  frame (\<^verbatim>\<open>handlers/receiptFrame.ts\<close>) and the chunk-frame header codec
  (\<^verbatim>\<open>handlers/chunkFrame.ts\<close>). The ratchet counters are JavaScript numbers guarded to the
  safe-integer range; the PQ epoch is a \<^verbatim>\<open>bigint\<close> guarded to 64 bits. Shown: packing and parsing
  are inverse in both directions, and which frames the classifier accepts.
\<close>

section \<open>Frame tags\<close>

record classified_frame =
  frame_type :: int
  payload :: bytes

definition classifyFrame :: "bytes \<Rightarrow> classified_frame" where
  "classifyFrame data =
     (let candidate = (if length data \<ge> FRAME_TYPE_LEN then uint (data ! 0) else -1);
          type = (if candidate = FRAME_TYPE_RECEIPT \<and> length data \<noteq> WIRE_RECEIPT_FRAME_LEN
                  then -1 else candidate)
      in \<lparr>frame_type = type,
          payload = (if type = -1 then [] else drop FRAME_TYPE_LEN data)\<rparr>)"

section \<open>Receipt frames\<close>

datatype receipt_error = ReceiptTokenLength

definition encodeReceiptFrame :: "bytes \<Rightarrow> receipt_error + bytes" where
  "encodeReceiptFrame token =
     (if length token \<noteq> RECEIPT_TOKEN_LEN then Inl ReceiptTokenLength
      else let frame = zeros WIRE_RECEIPT_FRAME_LEN;
               frame = set_at frame 0 [of_int FRAME_TYPE_RECEIPT];
               frame = set_at frame 1 token
           in Inr frame)"

definition decodeReceiptFrame :: "bytes \<Rightarrow> bytes option" where
  "decodeReceiptFrame frame =
     (if length frame = WIRE_RECEIPT_FRAME_LEN \<and> uint (frame ! 0) = FRAME_TYPE_RECEIPT
      then Some (drop 1 frame) else None)"

text \<open>A data channel as the receipt sender sees it: its state string and what was sent on it.\<close>

record receipt_channel =
  readyState :: string
  rc_sent :: "bytes list"

definition sendReceiptFrame :: "receipt_channel \<Rightarrow> bytes \<Rightarrow> receipt_error + bool \<times> receipt_channel" where
  "sendReceiptFrame channel token =
     (if readyState channel \<noteq> ''open'' then Inr (False, channel)
      else rbind (encodeReceiptFrame token)
             (\<lambda>frame. Inr (True, channel\<lparr>rc_sent := rc_sent channel @ [frame]\<rparr>)))"

section \<open>Chunk-frame headers\<close>

record ratchet_header =
  dhPub :: bytes
  N :: int
  PN :: int

datatype chunk_error =
    CounterOutOfRange
  | EpochOutOfRange
  | DhPubLength
  | NonceLength
  | FrameTooShort
  | NotAChunkFrame

definition DHPUB_OFF :: nat where [const_defs]: "DHPUB_OFF = FRAME_TYPE_LEN"
definition N_OFF :: nat where [const_defs]: "N_OFF = DHPUB_OFF + RATCHET_DHPUB_LEN"
definition PN_OFF :: nat where [const_defs]: "PN_OFF = N_OFF + RATCHET_N_LEN"
definition PQ_EPOCH_OFF :: nat where [const_defs]: "PQ_EPOCH_OFF = PN_OFF + RATCHET_PN_LEN"
definition NONCE_OFF :: nat where [const_defs]: "NONCE_OFF = PQ_EPOCH_OFF + PQ_EPOCH_LEN"
definition CHUNK_FRAME_HEADER_LEN :: nat where
  [const_defs]: "CHUNK_FRAME_HEADER_LEN = FRAME_TYPE_LEN + CHUNK_HEADER_LEN"
definition MAX_U64 :: int where [const_defs]: "MAX_U64 = 18446744073709551615"

definition writeU64BE :: "bytes \<Rightarrow> nat \<Rightarrow> int \<Rightarrow> chunk_error + bytes" where
  "writeU64BE out offset value =
     (if value < 0 \<or> value > MAX_SAFE_INTEGER then Inl CounterOutOfRange
      else Inr (set_at out offset (be_enc 8 (nat value))))"

definition readU64BE :: "bytes \<Rightarrow> nat \<Rightarrow> chunk_error + int" where
  "readU64BE buf offset =
     (let v = int (be_dec (sub buf offset (offset + 8)))
      in if v > MAX_SAFE_INTEGER then Inl CounterOutOfRange else Inr v)"

definition writeEpochU64BE :: "bytes \<Rightarrow> nat \<Rightarrow> int \<Rightarrow> chunk_error + bytes" where
  "writeEpochU64BE out offset value =
     (if value < 0 \<or> value > MAX_U64 then Inl EpochOutOfRange
      else Inr (set_at out offset (be_enc 8 (nat value))))"

definition readEpochU64BE :: "bytes \<Rightarrow> nat \<Rightarrow> int" where
  "readEpochU64BE buf offset = int (be_dec (sub buf offset (offset + 8)))"

definition packChunkFrameHeader :: "ratchet_header \<Rightarrow> bytes \<Rightarrow> int \<Rightarrow> chunk_error + bytes" where
  "packChunkFrameHeader header nonce pqEpoch =
     (if length (dhPub header) \<noteq> RATCHET_DHPUB_LEN then Inl DhPubLength
      else if length nonce \<noteq> RATCHET_NONCE_LEN then Inl NonceLength
      else let out = zeros CHUNK_FRAME_HEADER_LEN;
               out = set_at out 0 [of_int FRAME_TYPE_CHUNK];
               out = set_at out DHPUB_OFF (dhPub header)
           in rbind (writeU64BE out N_OFF (N header)) (\<lambda>out.
              rbind (writeU64BE out PN_OFF (PN header)) (\<lambda>out.
              rbind (writeEpochU64BE out PQ_EPOCH_OFF pqEpoch) (\<lambda>out.
              Inr (set_at out NONCE_OFF nonce)))))"

record parsed_chunk_frame =
  pf_header :: ratchet_header
  pf_pqEpoch :: int
  pf_nonce :: bytes
  pf_ciphertext :: bytes

definition parseChunkFrameHeader :: "bytes \<Rightarrow> chunk_error + parsed_chunk_frame" where
  "parseChunkFrameHeader frame =
     (if length frame < CHUNK_FRAME_HEADER_LEN then Inl FrameTooShort
      else if uint (frame ! 0) \<noteq> FRAME_TYPE_CHUNK then Inl NotAChunkFrame
      else rbind (readU64BE frame N_OFF) (\<lambda>n.
           rbind (readU64BE frame PN_OFF) (\<lambda>pn.
           Inr \<lparr>pf_header = \<lparr>dhPub = sub frame DHPUB_OFF (DHPUB_OFF + RATCHET_DHPUB_LEN), N = n, PN = pn\<rparr>,
                pf_pqEpoch = readEpochU64BE frame PQ_EPOCH_OFF,
                pf_nonce = sub frame NONCE_OFF (NONCE_OFF + RATCHET_NONCE_LEN),
                pf_ciphertext = drop CHUNK_FRAME_HEADER_LEN frame\<rparr>)))"

section \<open>Receipts and the classifier\<close>

lemma encodeReceiptFrame_layout:
  "length token = 64 \<Longrightarrow> encodeReceiptFrame token = Inr (3 # token)"
  by (simp add: encodeReceiptFrame_def Let_def const_defs wire_simps)

lemma decode_encode_receipt:
  "encodeReceiptFrame token = Inr frame \<Longrightarrow> decodeReceiptFrame frame = Some token"
  by (auto simp: encodeReceiptFrame_def decodeReceiptFrame_def Let_def const_defs wire_simps
      split: if_splits)

lemma encode_decode_receipt:
  assumes "decodeReceiptFrame frame = Some token"
  shows "encodeReceiptFrame token = Inr frame"
proof -
  from assms have len: "length frame = 65" and tag: "uint (frame ! 0) = 3" and t: "token = drop 1 frame"
    by (auto simp: decodeReceiptFrame_def const_defs split: if_splits)
  have "frame ! 0 = 3" using tag by (simp add: word_uint_eq_iff)
  with len have "frame = 3 # drop 1 frame"
    by (cases frame) auto
  with len t show ?thesis using encodeReceiptFrame_layout [of token] by simp
qed

lemma classify_receipt_iff:
  "frame_type (classifyFrame d) = FRAME_TYPE_RECEIPT \<longleftrightarrow> decodeReceiptFrame d \<noteq> None"
  by (auto simp: classifyFrame_def decodeReceiptFrame_def Let_def const_defs)

section \<open>The chunk header codec\<close>

definition chunk_layout :: "ratchet_header \<Rightarrow> bytes \<Rightarrow> int \<Rightarrow> bytes" where
  "chunk_layout h n e =
     [2] @ dhPub h @ be_enc 8 (nat (N h)) @ be_enc 8 (nat (PN h)) @ be_enc 8 (nat e) @ n"

definition chunk_header_ok :: "ratchet_header \<Rightarrow> bytes \<Rightarrow> int \<Rightarrow> bool" where
  "chunk_header_ok h n e \<longleftrightarrow>
     length (dhPub h) = 32 \<and> length n = 12 \<and> 0 \<le> N h \<and> N h \<le> MAX_SAFE_INTEGER \<and>
     0 \<le> PN h \<and> PN h \<le> MAX_SAFE_INTEGER \<and> 0 \<le> e \<and> e \<le> MAX_U64"

lemma pack_ok: "chunk_header_ok h n e \<Longrightarrow> packChunkFrameHeader h n e = Inr (chunk_layout h n e)"
  by (simp add: packChunkFrameHeader_def chunk_header_ok_def chunk_layout_def Let_def
      writeU64BE_def writeEpochU64BE_def const_defs wire_simps)

lemma pack_okD:
  "packChunkFrameHeader h n e = Inr hdr \<Longrightarrow> chunk_header_ok h n e \<and> hdr = chunk_layout h n e"
proof -
  assume a: "packChunkFrameHeader h n e = Inr hdr"
  then have "chunk_header_ok h n e"
    by (auto simp: packChunkFrameHeader_def chunk_header_ok_def Let_def writeU64BE_def
        writeEpochU64BE_def RATCHET_DHPUB_LEN_def RATCHET_NONCE_LEN_def result_simps split: if_splits)
  with a pack_ok [OF this] show ?thesis by simp
qed

lemma length_chunk_layout: "chunk_header_ok h n e \<Longrightarrow> length (chunk_layout h n e) = 69"
  by (simp add: chunk_layout_def chunk_header_ok_def)

lemma chunk_layout_fields:
  assumes "chunk_header_ok h n e"
  shows "sub (chunk_layout h n e @ ct) 1 33 = dhPub h"
    "sub (chunk_layout h n e @ ct) 33 41 = be_enc 8 (nat (N h))"
    "sub (chunk_layout h n e @ ct) 41 49 = be_enc 8 (nat (PN h))"
    "sub (chunk_layout h n e @ ct) 49 57 = be_enc 8 (nat e)"
    "sub (chunk_layout h n e @ ct) 57 69 = n"
    "drop 69 (chunk_layout h n e @ ct) = ct"
    "(chunk_layout h n e @ ct) ! 0 = 2"
  using assms by (simp_all add: chunk_layout_def chunk_header_ok_def sub_def)

lemma parse_layout:
  assumes ok: "chunk_header_ok h n e"
  shows "parseChunkFrameHeader (chunk_layout h n e @ ct) =
    Inr \<lparr>pf_header = h, pf_pqEpoch = e, pf_nonce = n, pf_ciphertext = ct\<rparr>"
proof -
  have d: "be_dec (be_enc 8 (nat (N h))) = nat (N h)" "be_dec (be_enc 8 (nat (PN h))) = nat (PN h)"
    "be_dec (be_enc 8 (nat e)) = nat e"
    using ok by (simp_all add: be_dec_enc_u64 chunk_header_ok_def const_defs)
  have nn: "0 \<le> N h" "N h \<le> MAX_SAFE_INTEGER" "0 \<le> PN h" "PN h \<le> MAX_SAFE_INTEGER" "0 \<le> e"
    using ok by (simp_all add: chunk_header_ok_def)
  have len: "length (chunk_layout h n e @ ct) \<ge> 69" using length_chunk_layout [OF ok] by simp
  have h: "\<lparr>dhPub = dhPub h, N = N h, PN = PN h\<rparr> = h" by simp
  have f: "sub (chunk_layout h n e @ ct) (Suc 0) 33 = dhPub h"
    using chunk_layout_fields(1) [OF ok, of ct] by simp
  show ?thesis
    using nn len length_chunk_layout [OF ok] by (simp add: f parseChunkFrameHeader_def readU64BE_def readEpochU64BE_def Let_def
        chunk_layout_fields [OF ok] d h DHPUB_OFF_def N_OFF_def PN_OFF_def PQ_EPOCH_OFF_def
        NONCE_OFF_def CHUNK_FRAME_HEADER_LEN_def CHUNK_HEADER_LEN_def FRAME_TYPE_LEN_def
        RATCHET_DHPUB_LEN_def RATCHET_N_LEN_def RATCHET_PN_LEN_def PQ_EPOCH_LEN_def
        RATCHET_NONCE_LEN_def FRAME_TYPE_CHUNK_def)
qed

lemma frame_split:
  assumes "69 \<le> length fr" "fr ! 0 = 2"
  shows "fr = [2] @ sub fr 1 33 @ sub fr 33 41 @ sub fr 41 49 @ sub fr 49 57 @ sub fr 57 69 @ drop 69 fr"
proof -
  have "fr = sub fr 0 69 @ drop 69 fr" by (simp add: sub_def)
  also have "sub fr 0 69 = sub fr 0 1 @ sub fr 1 33 @ sub fr 33 41 @ sub fr 41 49 @ sub fr 49 57 @ sub fr 57 69"
    by (simp add: sub_join)
  also have "sub fr 0 1 = [2]" using assms sub_single [of 0 fr] by (cases fr) simp_all
  finally show ?thesis by simp
qed

lemma parse_okD:
  assumes "parseChunkFrameHeader fr = Inr p"
  shows "chunk_header_ok (pf_header p) (pf_nonce p) (pf_pqEpoch p) \<and>
    fr = chunk_layout (pf_header p) (pf_nonce p) (pf_pqEpoch p) @ pf_ciphertext p"
proof -
  from assms have len: "69 \<le> length fr" and tag: "uint (fr ! 0) = 2"
    and h: "dhPub (pf_header p) = sub fr 1 33" "N (pf_header p) = int (be_dec (sub fr 33 41))"
      "PN (pf_header p) = int (be_dec (sub fr 41 49))" "pf_pqEpoch p = int (be_dec (sub fr 49 57))"
      "pf_nonce p = sub fr 57 69" "pf_ciphertext p = drop 69 fr"
    and r: "N (pf_header p) \<le> MAX_SAFE_INTEGER" "PN (pf_header p) \<le> MAX_SAFE_INTEGER"
    by (auto simp: parseChunkFrameHeader_def readU64BE_def readEpochU64BE_def Let_def result_simps
        DHPUB_OFF_def N_OFF_def PN_OFF_def PQ_EPOCH_OFF_def
        NONCE_OFF_def CHUNK_FRAME_HEADER_LEN_def CHUNK_HEADER_LEN_def FRAME_TYPE_LEN_def
        RATCHET_DHPUB_LEN_def RATCHET_N_LEN_def RATCHET_PN_LEN_def PQ_EPOCH_LEN_def
        RATCHET_NONCE_LEN_def FRAME_TYPE_CHUNK_def split: if_splits)
  have t: "fr ! 0 = 2" using tag by (simp add: word_uint_eq_iff)
  have e: "be_enc 8 (be_dec (sub fr 33 41)) = sub fr 33 41" "be_enc 8 (be_dec (sub fr 41 49)) = sub fr 41 49"
    "be_enc 8 (be_dec (sub fr 49 57)) = sub fr 49 57"
    using be_enc_sub [of 41 fr 33] be_enc_sub [of 49 fr 41] be_enc_sub [of 57 fr 49] len by simp_all
  have "be_dec (sub fr 49 57) < 256 ^ 8"
    using be_dec_sub_less [of 57 fr 49] len by simp
  then have "int (be_dec (sub fr 49 57)) < 18446744073709551616" by simp
  then have ok: "chunk_header_ok (pf_header p) (pf_nonce p) (pf_pqEpoch p)"
    using len h r by (simp add: chunk_header_ok_def MAX_U64_def)
  have "fr = chunk_layout (pf_header p) (pf_nonce p) (pf_pqEpoch p) @ pf_ciphertext p"
    using frame_split [OF len t] by (simp add: chunk_layout_def h e)
  with ok show ?thesis by simp
qed

section \<open>Codec interpretations\<close>

interpretation receipt: fixed_codec "\<lambda>t. ok_of (encodeReceiptFrame t)" decodeReceiptFrame 65
proof
  fix t w
  assume "ok_of (encodeReceiptFrame t) = Some w"
  then show "decodeReceiptFrame w = Some t" by (simp add: decode_encode_receipt)
  then show "length w = 65" by (simp add: decodeReceiptFrame_def const_defs split: if_splits)
next
  fix t w
  assume "decodeReceiptFrame w = Some t"
  then show "ok_of (encodeReceiptFrame t) = Some w" by (simp add: encode_decode_receipt)
qed

text \<open>A chunk frame as the sender builds it: the packed header followed by the sealed chunk.\<close>

definition chunk_frame_of :: "parsed_chunk_frame \<Rightarrow> chunk_error + bytes" where
  "chunk_frame_of f =
     rbind (packChunkFrameHeader (pf_header f) (pf_nonce f) (pf_pqEpoch f)) (\<lambda>hdr. Inr (hdr @ pf_ciphertext f))"

interpretation chunk: wire_codec "\<lambda>f. ok_of (chunk_frame_of f)" "\<lambda>bs. ok_of (parseChunkFrameHeader bs)"
proof
  fix f w
  assume "ok_of (chunk_frame_of f) = Some w"
  then show "ok_of (parseChunkFrameHeader w) = Some f"
    by (auto simp: chunk_frame_of_def result_simps parse_layout dest!: pack_okD)
next
  fix f w
  assume "ok_of (parseChunkFrameHeader w) = Some f"
  then show "ok_of (chunk_frame_of f) = Some w"
    by (auto simp: chunk_frame_of_def pack_ok dest!: parse_okD)
qed

section \<open>Properties\<close>

text \<open>C22: the chunk frame parser accepts exactly the frames the packer produces, and returns the
  header, epoch, nonce and ciphertext they were packed from; two different tuples never share a
  frame.\<close>

theorem chunk_frame_parse_pack:
  "parseChunkFrameHeader fr = Inr \<lparr>pf_header = h, pf_pqEpoch = e, pf_nonce = n, pf_ciphertext = ct\<rparr> \<longleftrightarrow>
   (\<exists>hdr. packChunkFrameHeader h n e = Inr hdr \<and> length hdr = CHUNK_FRAME_HEADER_LEN \<and> fr = hdr @ ct)"
  using chunk.codec_iff [of fr "\<lparr>pf_header = h, pf_pqEpoch = e, pf_nonce = n, pf_ciphertext = ct\<rparr>"]
  by (auto simp: chunk_frame_of_def result_simps const_defs length_chunk_layout dest: pack_okD)

text \<open>The frame classifier reports a receipt exactly for the frames the receipt encoder
  produces, and the decoder then returns the token; a receipt-tagged frame of any other length is
  classified as unknown.\<close>

theorem classified_receipt_decodes:
  "(frame_type (classifyFrame d) = FRAME_TYPE_RECEIPT) =
     (\<exists>token. encodeReceiptFrame token = Inr d \<and> decodeReceiptFrame d = Some token \<and>
        payload (classifyFrame d) = token \<and> length d = WIRE_RECEIPT_FRAME_LEN)"
proof -
  have "decodeReceiptFrame d = Some t \<Longrightarrow> payload (classifyFrame d) = t" for t
    by (auto simp: decodeReceiptFrame_def classifyFrame_def Let_def const_defs split: if_splits)
  then show ?thesis
    using classify_receipt_iff [of d] receipt.codec_iff [of d] receipt.dec_width [of d]
    by (auto simp: const_defs)
qed

end
