(* ===== verification/Text_Codec.thy ===== *)
theory Text_Codec
  imports Wire_Constants
begin

text \<open>
  Text forms of bytes and numbers: \<^verbatim>\<open>utils/uint8array.ts\<close> (concatenation, comparison, hexadecimal),
  the decimal printing of a template literal, and the canonical identity check and role
  assignment of \<^verbatim>\<open>utils/identityRole.ts\<close>. Shown: both hexadecimal printers agree, printing and
  parsing are inverse, and the two ends of an edge always take opposite roles.
\<close>

section \<open>Byte arrays\<close>

text \<open>\<^verbatim>\<open>concatUint8Arrays\<close>: sum the lengths, then copy every array at the running offset.\<close>

fun copy_all :: "bytes \<Rightarrow> nat \<Rightarrow> bytes list \<Rightarrow> bytes" where
  "copy_all result offset [] = result"
| "copy_all result offset (arr # arrays) = copy_all (set_at result offset arr) (offset + length arr) arrays"

definition concatUint8Arrays :: "bytes list \<Rightarrow> bytes" where
  "concatUint8Arrays arrays = copy_all (zeros (foldl (\<lambda>len arr. len + length arr) 0 arrays)) 0 arrays"

definition uint8ArraysAreEqual :: "bytes \<Rightarrow> bytes \<Rightarrow> bool" where
  "uint8ArraysAreEqual array1 array2 =
     (if length array1 \<noteq> length array2 then False else xor_diff 0 array1 array2 = 0)"

section \<open>Hexadecimal\<close>

definition HEX :: string where "HEX = ''0123456789abcdef''"

fun uint8ArrayToHex :: "bytes \<Rightarrow> string" where
  "uint8ArrayToHex [] = []"
| "uint8ArrayToHex (v # array) =
     HEX ! unat (drop_bit 4 v) # HEX ! unat (v AND 0x0f) # uint8ArrayToHex array"

text \<open>The value of a hexadecimal digit of either case, as \<^verbatim>\<open>parseInt(_, 16)\<close> reads it.\<close>

definition hex_val :: "char \<Rightarrow> nat option" where
  "hex_val c =
     (let n = of_char c :: nat
      in if 48 \<le> n \<and> n \<le> 57 then Some (n - 48)
         else if 97 \<le> n \<and> n \<le> 102 then Some (n - 87)
         else if 65 \<le> n \<and> n \<le> 70 then Some (n - 55)
         else None)"

datatype hex_error = NoHexCharacters | NonHexCharacter char

fun hex_pairs :: "string \<Rightarrow> bytes" where
  "hex_pairs (c # d # cs) = of_nat (the (hex_val c) * 16 + the (hex_val d)) # hex_pairs cs"
| "hex_pairs _ = []"

definition strip0x :: "string \<Rightarrow> string" where
  "strip0x s = (if take 2 s = ''0x'' then drop 2 s else s)"

definition hexToUint8Array :: "string \<Rightarrow> hex_error + bytes" where
  "hexToUint8Array hexString =
     (let h = strip0x hexString
      in if length h = 0 then Inl NoHexCharacters
         else case find (\<lambda>c. hex_val c = None) h of
           Some bad \<Rightarrow> Inl (NonHexCharacter bad)
         | None \<Rightarrow> let h = (if length h mod 2 \<noteq> 0 then CHR ''0'' # h else h) in Inr (hex_pairs h))"

section \<open>Decimal printing\<close>

definition dec_digit :: "nat \<Rightarrow> char" where
  "dec_digit d = char_of (48 + d :: nat)"

fun nat_to_dec :: "nat \<Rightarrow> string" where
  "nat_to_dec n = (if n < 10 then [dec_digit n] else nat_to_dec (n div 10) @ [dec_digit (n mod 10)])"

definition dec_to_nat :: "string \<Rightarrow> nat" where
  "dec_to_nat s = foldl (\<lambda>acc c. acc * 10 + (of_char c - 48)) 0 s"

declare nat_to_dec.simps [simp del]

section \<open>Identity roles\<close>

datatype role_error = NonCanonicalSelf | NonCanonicalPeer | SameIdentity

definition isCanonicalEd25519Identity :: "string \<Rightarrow> bool" where
  "isCanonicalEd25519Identity publicKey \<longleftrightarrow>
     length publicKey = 64 \<and> list_all (\<lambda>c. c \<in> set HEX) publicKey"

text \<open>JavaScript \<^verbatim>\<open><\<close> on strings: lexicographic on code units.\<close>

fun js_string_less :: "string \<Rightarrow> string \<Rightarrow> bool" where
  "js_string_less _ [] = False"
| "js_string_less [] (_ # _) = True"
| "js_string_less (x # xs) (y # ys) =
     (if (of_char x :: nat) < of_char y then True
      else if (of_char y :: nat) < of_char x then False
      else js_string_less xs ys)"

definition isIdentityInitiator :: "string \<Rightarrow> string \<Rightarrow> role_error + bool" where
  "isIdentityInitiator selfPublicKey peerPublicKey =
     (if \<not> isCanonicalEd25519Identity selfPublicKey then Inl NonCanonicalSelf
      else if \<not> isCanonicalEd25519Identity peerPublicKey then Inl NonCanonicalPeer
      else if selfPublicKey = peerPublicKey then Inl SameIdentity
      else Inr (js_string_less selfPublicKey peerPublicKey))"

definition shouldAcceptIncomingMain :: "string \<Rightarrow> string \<Rightarrow> role_error + bool" where
  "shouldAcceptIncomingMain selfPublicKey peerPublicKey =
     rbind (isIdentityInitiator selfPublicKey peerPublicKey) (\<lambda>b. Inr (\<not> b))"

section \<open>Lemmas on byte arrays\<close>

lemma copy_all_append:
  "length pre = off \<Longrightarrow> copy_all (pre @ zeros (length (concat arrs))) off arrs = pre @ concat arrs"
proof (induction arrs arbitrary: pre off)
  case Nil
  then show ?case by simp
next
  case (Cons a arrs)
  have "set_at (pre @ zeros (length a + length (concat arrs))) off a = (pre @ a) @ zeros (length (concat arrs))"
    using Cons.prems by (simp add: wire_simps)
  with Cons.IH [of "pre @ a" "off + length a"] Cons.prems show ?case by simp
qed

lemma foldl_sum_lengths: "foldl (\<lambda>len arr. len + length arr) k arrs = k + length (concat arrs)"
  by (induction arrs arbitrary: k) simp_all

lemma concatUint8Arrays_concat: "concatUint8Arrays arrs = concat arrs"
  using copy_all_append [of "[]" 0 arrs] by (simp add: concatUint8Arrays_def foldl_sum_lengths)

lemma uint8ArraysAreEqual_iff: "uint8ArraysAreEqual a b \<longleftrightarrow> a = b"
  by (auto simp: uint8ArraysAreEqual_def xor_diff_zero_iff)

section \<open>Lemmas on hexadecimal\<close>

lemma hex_val_digits: "list_all (\<lambda>n. hex_val (HEX ! n) = Some n) [0..<16]"
  by code_simp

lemma hex_val_digit: "n < 16 \<Longrightarrow> hex_val (HEX ! n) = Some n"
  using hex_val_digits by (simp add: list_all_iff)

lemma high_nibble: "drop_bit 4 v = (v :: byte) div 16"
  by (simp add: drop_bit_eq_div)

lemma low_nibble: "(v :: byte) AND 0x0f = v mod 16"
proof -
  have "v AND 0x0f = take_bit 4 v" by (simp add: take_bit_eq_mask mask_eq_exp_minus_1)
  then show ?thesis by (simp add: take_bit_eq_mod)
qed

lemma unat_nibbles:
  "unat (drop_bit 4 (v :: byte)) = unat v div 16" "unat ((v :: byte) AND 0x0f) = unat v mod 16"
  by (simp_all add: high_nibble low_nibble unat_div_distrib unat_mod_distrib)

lemma nibbles_bounds: "unat (drop_bit 4 (v :: byte)) < 16" "unat ((v :: byte) AND 0x0f) < 16"
  by (simp_all add: unat_nibbles less_mult_imp_div_less)

lemma byte_from_nibbles: "drop_bit 4 v * 16 + (v AND 0x0f) = (v :: byte)"
  unfolding high_nibble low_nibble by (rule div_mult_mod_eq)

lemma length_hex [simp]: "length (uint8ArrayToHex bs) = 2 * length bs"
  by (induction bs) simp_all

lemma hex_pairs_toHex [simp]: "hex_pairs (uint8ArrayToHex bs) = bs"
  by (induction bs) (simp_all add: hex_val_digit nibbles_bounds byte_from_nibbles)

lemma toHex_digits: "c \<in> set (uint8ArrayToHex bs) \<Longrightarrow> \<exists>n < 16. c = HEX ! n"
  by (induction bs) (auto intro: nibbles_bounds)

lemma toHex_inj: "uint8ArrayToHex a = uint8ArrayToHex b \<Longrightarrow> a = b"
  by (metis hex_pairs_toHex)

lemma strip0x_toHex: "strip0x (uint8ArrayToHex bs) = uint8ArrayToHex bs"
proof -
  have "take 2 (uint8ArrayToHex bs) \<noteq> ''0x''"
  proof
    assume a: "take 2 (uint8ArrayToHex bs) = ''0x''"
    then have "CHR ''x'' \<in> set (take 2 (uint8ArrayToHex bs))" by simp
    then have "CHR ''x'' \<in> set (uint8ArrayToHex bs)" by (rule in_set_takeD)
    then obtain n where "n < 16" "CHR ''x'' = HEX ! n" using toHex_digits by blast
    then have "hex_val (CHR ''x'') = Some n" using hex_val_digit by metis
    then show False by (simp add: hex_val_def)
  qed
  then show ?thesis by (simp add: strip0x_def)
qed

lemma hexToUint8Array_toHex: "bs \<noteq> [] \<Longrightarrow> hexToUint8Array (uint8ArrayToHex bs) = Inr bs"
proof -
  assume ne: "bs \<noteq> []"
  have "find (\<lambda>c. hex_val c = None) (uint8ArrayToHex bs) = None"
    unfolding find_None_iff using toHex_digits hex_val_digit by fastforce
  moreover have "uint8ArrayToHex bs \<noteq> []" using ne by (cases bs) simp_all
  ultimately show ?thesis by (simp add: hexToUint8Array_def strip0x_toHex Let_def)
qed

section \<open>Lemmas on decimal text\<close>

lemma dec_digit_val: "d < 10 \<Longrightarrow> of_char (dec_digit d) = 48 + d"
  by (simp add: dec_digit_def)

lemma dec_to_nat_snoc: "dec_to_nat (s @ [c]) = dec_to_nat s * 10 + (of_char c - 48)"
  by (simp add: dec_to_nat_def)

lemma dec_to_nat_to_dec [simp]: "dec_to_nat (nat_to_dec n) = n"
proof (induction n rule: nat_to_dec.induct)
  case (1 n)
  show ?case
  proof (cases "n < 10")
    case True
    then show ?thesis by (simp add: nat_to_dec.simps [of n] dec_to_nat_def dec_digit_val)
  next
    case False
    with "1.IH" show ?thesis
      by (simp add: nat_to_dec.simps [of n] dec_to_nat_snoc dec_digit_val)
  qed
qed

lemma nat_to_dec_inj: "nat_to_dec m = nat_to_dec n \<Longrightarrow> m = n"
  by (metis dec_to_nat_to_dec)

lemma nat_to_dec_digits: "c \<in> set (nat_to_dec n) \<Longrightarrow> \<exists>d < 10. c = dec_digit d"
proof (induction n rule: nat_to_dec.induct)
  case (1 n)
  have "n mod 10 < 10" by simp
  with 1 show ?case by (cases "n < 10") (force simp: nat_to_dec.simps [of n])+
qed

lemma colon_not_in_dec: "CHR '':'' \<notin> set (nat_to_dec n)"
proof
  assume "CHR '':'' \<in> set (nat_to_dec n)"
  then obtain d where "d < 10" "CHR '':'' = dec_digit d" using nat_to_dec_digits by blast
  then have "of_char (CHR '':'') = 48 + d" using dec_digit_val by metis
  with \<open>d < 10\<close> show False by simp
qed

section \<open>Lemmas on roles\<close>

lemma js_string_less_total: "length a = length b \<Longrightarrow> a \<noteq> b \<Longrightarrow> js_string_less a b \<longleftrightarrow> \<not> js_string_less b a"
proof (induction a b rule: js_string_less.induct)
  case (3 x xs y ys)
  have "x \<noteq> y \<Longrightarrow> (of_char x :: nat) \<noteq> of_char y" by (metis char_of_char)
  with 3 show ?case by (auto simp: linorder_neq_iff)
qed simp_all

lemma js_string_less_irrefl: "\<not> js_string_less a a"
  by (induction a) simp_all

lemma initiator_opposite:
  assumes "isIdentityInitiator a b = Inr r"
  shows "isIdentityInitiator b a = Inr (\<not> r)"
proof -
  from assms have "isCanonicalEd25519Identity a" "isCanonicalEd25519Identity b" "a \<noteq> b"
    "r = js_string_less a b"
    by (auto simp: isIdentityInitiator_def split: if_splits)
  moreover from this have "length a = length b"
    by (simp add: isCanonicalEd25519Identity_def)
  ultimately show ?thesis
    using js_string_less_total [of a b] by (auto simp: isIdentityInitiator_def)
qed

section \<open>Properties\<close>

text \<open>The two ends of an edge take opposite roles whatever end computes them: if one is the
  initiator the other is not, the end that is not the initiator accepts the incoming main channel,
  and where one end refuses the pair of identities so does the other.\<close>

theorem roles_are_opposite:
  "case isIdentityInitiator a b of
     Inr r \<Rightarrow> isIdentityInitiator b a = Inr (\<not> r) \<and> shouldAcceptIncomingMain b a = Inr r \<and>
            shouldAcceptIncomingMain a b = Inr (\<not> r)
   | Inl _ \<Rightarrow> \<not> is_ok (isIdentityInitiator b a) \<and> \<not> is_ok (shouldAcceptIncomingMain b a)"
proof (cases "isIdentityInitiator a b")
  case (Inr r)
  then show ?thesis by (simp add: initiator_opposite shouldAcceptIncomingMain_def)
next
  case (Inl e)
  then have "\<not> is_ok (isIdentityInitiator b a)"
    by (auto simp: isIdentityInitiator_def split: if_splits)
  with Inl show ?thesis
    by (cases "isIdentityInitiator b a") (simp_all add: shouldAcceptIncomingMain_def)
qed

text \<open>Hexadecimal text parses back to the bytes it was printed from, for every array but the
  empty one, whose text the parser refuses; distinct arrays have distinct texts.\<close>

theorem hex_roundtrip:
  "hexToUint8Array (uint8ArrayToHex bs) = (if bs = [] then Inl NoHexCharacters else Inr bs) \<and>
   (uint8ArrayToHex bs = uint8ArrayToHex cs) = (bs = cs)"
proof -
  have "(uint8ArrayToHex bs = uint8ArrayToHex cs) = (bs = cs)" using toHex_inj by blast
  moreover have "hexToUint8Array (uint8ArrayToHex []) = Inl NoHexCharacters"
    by (simp add: hexToUint8Array_def strip0x_def)
  ultimately show ?thesis by (simp add: hexToUint8Array_toHex)
qed

end
