(* ===== verification/Ratchet.thy ===== *)
theory Ratchet
  imports Frames Text_Codec
begin

text \<open>
  The Double Ratchet of \<^verbatim>\<open>src/src/cryptography/ratchet.ts\<close> with the wrappers of \<^verbatim>\<open>hkdf.ts\<close> and
  \<^verbatim>\<open>x25519.ts\<close> it calls. The WebAssembly module is a parameter: a record of the four functions it
  exports that the ratchet reaches, each returning \<open>None\<close> where the C function returns a non-zero
  code. Key generation draws entropy, so it threads a random state of any type.

  Every operation that the source runs on a live state in place returns the state with its
  outcome, also when it throws, since a throw half way leaves the state half updated. Keys are
  values here: a buffer the source wipes after its successor is derived is a value nothing refers
  to any more, and \<open>wipeRatchet\<close> is the state with its secret buffers zeroed.
\<close>

section \<open>The module and its wrappers\<close>

record 'r libcrypto =
  hkdf_sha512_extract :: "bytes \<Rightarrow> bytes \<Rightarrow> bytes option"
  hkdf_sha512_expand :: "nat \<Rightarrow> bytes \<Rightarrow> bytes \<Rightarrow> bytes option"
  x25519_dh :: "bytes \<Rightarrow> bytes \<Rightarrow> bytes option"
  x25519_keypair :: "'r \<Rightarrow> (bytes \<times> bytes) option \<times> 'r"

datatype ratchet_error =
    HkdfExtractFailed
  | HkdfExpandFailed
  | KeypairFailed
  | DhFailed
  | StagedBufferRange
  | InitiatorRequiresRemote
  | NoSendingChain
  | MaxSkipExceeded
  | NullReference
  | InvalidInitiatorDh
  | NotPristine
  | InvalidHeader
  | AlreadyConsumed
  | DifferentRootSuite

definition hkdfExtract :: "'r libcrypto \<Rightarrow> bytes \<Rightarrow> bytes \<Rightarrow> ratchet_error + bytes" where
  "hkdfExtract module salt ikm =
     (case hkdf_sha512_extract module salt ikm of
        None \<Rightarrow> Inl HkdfExtractFailed | Some prk \<Rightarrow> Inr prk)"

definition hkdfExpand :: "'r libcrypto \<Rightarrow> bytes \<Rightarrow> bytes \<Rightarrow> nat \<Rightarrow> ratchet_error + bytes" where
  "hkdfExpand module prk info outLen =
     (if length prk > 64 then Inl StagedBufferRange
      else case hkdf_sha512_expand module outLen prk info of
        None \<Rightarrow> Inl HkdfExpandFailed | Some okm \<Rightarrow> Inr okm)"

definition x25519Keypair :: "'r libcrypto \<Rightarrow> 'r \<Rightarrow> (ratchet_error + bytes \<times> bytes) \<times> 'r" where
  "x25519Keypair module rng =
     (case x25519_keypair module rng of
        (None, rng') \<Rightarrow> (Inl KeypairFailed, rng')
      | (Some kp, rng') \<Rightarrow> (Inr kp, rng'))"

definition x25519Dh :: "'r libcrypto \<Rightarrow> bytes \<Rightarrow> bytes \<Rightarrow> ratchet_error + bytes" where
  "x25519Dh module secretKey publicKey =
     (if length secretKey > 32 \<or> length publicKey > 32 then Inl StagedBufferRange
      else case x25519_dh module secretKey publicKey of
        None \<Rightarrow> Inl DhFailed | Some shared \<Rightarrow> Inr shared)"

section \<open>State\<close>

record ratchet_state =
  rootSuite :: string
  rootKey :: bytes
  sendingChainKey :: "bytes option"
  receivingChainKey :: "bytes option"
  dhSelfPub :: bytes
  dhSelfSec :: bytes
  dhRemotePub :: "bytes option"
  sNs :: int
  sNr :: int
  sPN :: int
  skipped :: "(string \<times> bytes) list"

definition ascii :: "string \<Rightarrow> bytes" where "ascii s = map of_char s"
definition RK_INFO :: bytes where "RK_INFO = ascii ''p2party-rk-v1''"
definition CK_INFO :: bytes where "CK_INFO = ascii ''p2party-ck-v1''"
definition MK_INFO :: bytes where "MK_INFO = ascii ''p2party-mk-v1''"

text \<open>\<^verbatim>\<open>b.toString(16).padStart(2, "0")\<close> joined over the array.\<close>

definition to_string16 :: "nat \<Rightarrow> string" where
  "to_string16 n = (if n < 16 then [HEX ! n] else [HEX ! (n div 16), HEX ! (n mod 16)])"

definition padStart2 :: "string \<Rightarrow> string" where
  "padStart2 s = replicate (2 - length s) (CHR ''0'') @ s"

definition toHex :: "bytes \<Rightarrow> string" where
  "toHex u8 = concat (map (\<lambda>b. padStart2 (to_string16 (unat b))) u8)"

definition fromHex :: "string \<Rightarrow> bytes" where
  "fromHex hex = hex_pairs hex"

definition skip_key :: "bytes \<Rightarrow> int \<Rightarrow> string" where
  "skip_key dh n = toHex dh @ [CHR '':''] @ nat_to_dec (nat n)"

definition bytesEqual :: "bytes \<Rightarrow> bytes \<Rightarrow> bool" where
  "bytesEqual a b = (if length a \<noteq> length b then False else xor_diff 0 a b = 0)"

lemma bytesEqual_iff: "bytesEqual a b \<longleftrightarrow> a = b"
  by (auto simp: bytesEqual_def xor_diff_zero_iff)

section \<open>Key derivation\<close>

definition kdfRk :: "'r libcrypto \<Rightarrow> bytes \<Rightarrow> bytes \<Rightarrow> ratchet_error + bytes \<times> bytes" where
  "kdfRk module root dhOut =
     rbind (hkdfExtract module root dhOut) (\<lambda>prk.
     rbind (hkdfExpand module prk RK_INFO 64) (\<lambda>okm.
     Inr (sub okm 0 32, sub okm 32 64)))"

definition kdfCk :: "'r libcrypto \<Rightarrow> bytes \<Rightarrow> ratchet_error + bytes \<times> bytes" where
  "kdfCk module chainKey =
     rbind (hkdfExtract module chainKey MK_INFO) (\<lambda>mkFull.
     rbind (hkdfExtract module chainKey CK_INFO) (\<lambda>ckFull.
     Inr (sub ckFull 0 32, sub mkFull 0 32)))"

section \<open>Operations\<close>

definition initRatchet ::
    "bytes \<Rightarrow> bool \<Rightarrow> bytes option \<Rightarrow> 'r libcrypto \<Rightarrow> string \<Rightarrow> 'r \<Rightarrow>
     (ratchet_error + ratchet_state) \<times> 'r" where
  "initRatchet rootSeed amInitiator remoteDhPub module suite rng =
     (case x25519Keypair module rng of
        (Inl e, rng') \<Rightarrow> (Inl e, rng')
      | (Inr (pk, sk), rng') \<Rightarrow>
          (let state = \<lparr>rootSuite = suite, rootKey = rootSeed, sendingChainKey = None,
                        receivingChainKey = None, dhSelfPub = pk, dhSelfSec = sk,
                        dhRemotePub = None, sNs = 0, sNr = 0, sPN = 0, skipped = []\<rparr>
           in if amInitiator then
                (case remoteDhPub of
                   None \<Rightarrow> (Inl InitiatorRequiresRemote, rng')
                 | Some remote \<Rightarrow>
                     (rbind (x25519Dh module sk remote) (\<lambda>dhOut.
                      rbind (kdfRk module rootSeed dhOut) (\<lambda>(root', ck).
                      Inr (state\<lparr>dhRemotePub := Some remote, rootKey := root',
                                 sendingChainKey := Some ck\<rparr>))), rng'))
              else (Inr state, rng')))"

definition ratchetEncrypt ::
    "ratchet_state \<Rightarrow> 'r libcrypto \<Rightarrow> (ratchet_error + bytes \<times> ratchet_header) \<times> ratchet_state" where
  "ratchetEncrypt state module =
     (case sendingChainKey state of
        None \<Rightarrow> (Inl NoSendingChain, state)
      | Some chain \<Rightarrow>
          (case kdfCk module chain of
             Inl e \<Rightarrow> (Inl e, state)
           | Inr (chainKey, messageKey) \<Rightarrow>
               (Inr (messageKey, \<lparr>dhPub = dhSelfPub state, N = sNs state, PN = sPN state\<rparr>),
                state\<lparr>sendingChainKey := Some chainKey, sNs := sNs state + 1\<rparr>)))"

definition trySkipped :: "ratchet_state \<Rightarrow> ratchet_header \<Rightarrow> bytes option \<times> ratchet_state" where
  "trySkipped state header =
     (let key = skip_key (dhPub header) (N header)
      in case map_of (skipped state) key of
           Some mk \<Rightarrow> (Some mk, state\<lparr>skipped := AList.delete key (skipped state)\<rparr>)
         | None \<Rightarrow> (None, state))"

function skip_loop :: "'r libcrypto \<Rightarrow> int \<Rightarrow> bytes \<Rightarrow> ratchet_state \<Rightarrow> (ratchet_error + unit) \<times> ratchet_state" where
  "skip_loop module until chain state =
     (if sNr state < until then
        (case kdfCk module chain of
           Inl e \<Rightarrow> (Inl e, state)
         | Inr (chainKey, messageKey) \<Rightarrow>
             (let state = state\<lparr>receivingChainKey := Some chainKey\<rparr>
              in case dhRemotePub state of
                   None \<Rightarrow> (Inl NullReference, state)
                 | Some remote \<Rightarrow>
                     skip_loop module until chainKey
                       (state\<lparr>skipped := AList.update (skip_key remote (sNr state)) messageKey (skipped state),
                              sNr := sNr state + 1\<rparr>)))
      else (Inr (), state))"
  by pat_completeness auto
termination
  by (relation "measure (\<lambda>(module, until, chain, state). nat (until - sNr state))") auto

declare skip_loop.simps [simp del]

fun evict_oldest :: "(string \<times> bytes) list \<Rightarrow> (string \<times> bytes) list" where
  "evict_oldest [] = []"
| "evict_oldest (kv # rest) =
     (if length (kv # rest) > MAX_SKIP_SESSION then evict_oldest rest else kv # rest)"

definition skipMessageKeys ::
    "ratchet_state \<Rightarrow> int \<Rightarrow> 'r libcrypto \<Rightarrow> (ratchet_error + unit) \<times> ratchet_state" where
  "skipMessageKeys state until module =
     (if sNr state + MAX_SKIP < until then (Inl MaxSkipExceeded, state)
      else case receivingChainKey state of
        None \<Rightarrow> (Inr (), state)
      | Some chain \<Rightarrow>
          (case skip_loop module until chain state of
             (Inl e, state) \<Rightarrow> (Inl e, state)
           | (Inr _, state) \<Rightarrow>
               (Inr (), if length (skipped state) > MAX_SKIP_SESSION
                        then state\<lparr>skipped := evict_oldest (skipped state)\<rparr> else state)))"

definition dhRatchet ::
    "ratchet_state \<Rightarrow> ratchet_header \<Rightarrow> 'r libcrypto \<Rightarrow> 'r \<Rightarrow>
     (ratchet_error + unit) \<times> ratchet_state \<times> 'r" where
  "dhRatchet state header module rng =
     (let state = state\<lparr>sPN := sNs state, sNs := 0, sNr := 0, dhRemotePub := Some (dhPub header)\<rparr>
      in case rbind (x25519Dh module (dhSelfSec state) (dhPub header)) (kdfRk module (rootKey state)) of
           Inl e \<Rightarrow> (Inl e, state, rng)
         | Inr (root1, chain1) \<Rightarrow>
             (let state = state\<lparr>rootKey := root1, receivingChainKey := Some chain1\<rparr>
              in case x25519Keypair module rng of
                   (Inl e, rng') \<Rightarrow> (Inl e, state, rng')
                 | (Inr (pk, sk), rng') \<Rightarrow>
                     (let state = state\<lparr>dhSelfPub := pk, dhSelfSec := sk\<rparr>
                      in case rbind (x25519Dh module sk (dhPub header)) (kdfRk module root1) of
                           Inl e \<Rightarrow> (Inl e, state, rng')
                         | Inr (root2, chain2) \<Rightarrow>
                             (Inr (), state\<lparr>rootKey := root2, sendingChainKey := Some chain2\<rparr>, rng'))))"

definition primeResponderRatchet ::
    "ratchet_state \<Rightarrow> bytes \<Rightarrow> 'r libcrypto \<Rightarrow> 'r \<Rightarrow> (ratchet_error + unit) \<times> ratchet_state \<times> 'r" where
  "primeResponderRatchet state initiatorDhPub module rng =
     (if length initiatorDhPub \<noteq> RATCHET_DHPUB_LEN then (Inl InvalidInitiatorDh, state, rng)
      else if sendingChainKey state \<noteq> None \<or> receivingChainKey state \<noteq> None \<or>
              dhRemotePub state \<noteq> None \<or> sNs state \<noteq> 0 \<or> sNr state \<noteq> 0 \<or> sPN state \<noteq> 0 \<or>
              length (skipped state) \<noteq> 0
      then (Inl NotPristine, state, rng)
      else dhRatchet state \<lparr>dhPub = initiatorDhPub, N = 0, PN = 0\<rparr> module rng)"

text \<open>The last part of \<^verbatim>\<open>ratchetDecrypt\<close>: after the chain is the header's.\<close>

definition decrypt_in_chain ::
    "ratchet_state \<Rightarrow> ratchet_header \<Rightarrow> 'r libcrypto \<Rightarrow> (ratchet_error + bytes) \<times> ratchet_state" where
  "decrypt_in_chain state header module =
     (if N header < sNr state then (Inl AlreadyConsumed, state)
      else case skipMessageKeys state (N header) module of
        (Inl e, state) \<Rightarrow> (Inl e, state)
      | (Inr _, state) \<Rightarrow>
          (case receivingChainKey state of
             None \<Rightarrow> (Inl NullReference, state)
           | Some chain \<Rightarrow>
               (case kdfCk module chain of
                  Inl e \<Rightarrow> (Inl e, state)
                | Inr (chainKey, messageKey) \<Rightarrow>
                    (Inr messageKey,
                     state\<lparr>receivingChainKey := Some chainKey, sNr := sNr state + 1\<rparr>))))"

definition ratchetDecrypt ::
    "ratchet_state \<Rightarrow> ratchet_header \<Rightarrow> 'r libcrypto \<Rightarrow> 'r \<Rightarrow>
     (ratchet_error + bytes) \<times> ratchet_state \<times> 'r" where
  "ratchetDecrypt state header module rng =
     (if N header < 0 \<or> PN header < 0 then (Inl InvalidHeader, state, rng)
      else case trySkipped state header of
        (Some mk, state) \<Rightarrow> (Inr mk, state, rng)
      | (None, state) \<Rightarrow>
          (let isNewDh = (case dhRemotePub state of
                            None \<Rightarrow> True | Some remote \<Rightarrow> \<not> bytesEqual (dhPub header) remote)
           in if isNewDh then
                (case skipMessageKeys state (PN header) module of
                   (Inl e, state) \<Rightarrow> (Inl e, state, rng)
                 | (Inr _, state) \<Rightarrow>
                     (case dhRatchet state header module rng of
                        (Inl e, state, rng) \<Rightarrow> (Inl e, state, rng)
                      | (Inr _, state, rng) \<Rightarrow>
                          (let (r, state) = decrypt_in_chain state header module in (r, state, rng))))
              else (let (r, state) = decrypt_in_chain state header module in (r, state, rng))))"

section \<open>Snapshots\<close>

record skipped_entry =
  se_dhPub :: bytes
  se_n :: int
  se_messageKey :: bytes

record ratchet_secrets =
  x_rootSuite :: string
  x_rootKey :: bytes
  x_sendingChainKey :: "bytes option"
  x_receivingChainKey :: "bytes option"
  x_dhSelfPub :: bytes
  x_dhSelfSec :: bytes
  x_dhRemotePub :: "bytes option"
  x_Ns :: int
  x_Nr :: int
  x_PN :: int
  skippedMessageKeys :: "skipped_entry list"

text \<open>
  \<^verbatim>\<open>k.lastIndexOf(":")\<close>, \<^verbatim>\<open>k.slice(0, idx)\<close> and \<^verbatim>\<open>Number(k.slice(idx + 1))\<close>; without a colon the
  index is \<open>-1\<close> and \<^verbatim>\<open>slice(0, -1)\<close> drops the last character.
\<close>

definition serialize_entry :: "string \<times> bytes \<Rightarrow> skipped_entry" where
  "serialize_entry e =
     (let k = fst e
      in case find_last_index (\<lambda>c. c = CHR '':'') k of
           Some idx \<Rightarrow> \<lparr>se_dhPub = fromHex (take idx k), se_n = int (dec_to_nat (drop (Suc idx) k)),
                        se_messageKey = snd e\<rparr>
         | None \<Rightarrow> \<lparr>se_dhPub = fromHex (butlast k), se_n = int (dec_to_nat k), se_messageKey = snd e\<rparr>)"

definition serializeRatchet :: "ratchet_state \<Rightarrow> ratchet_secrets" where
  "serializeRatchet state =
     \<lparr>x_rootSuite = rootSuite state, x_rootKey = rootKey state,
      x_sendingChainKey = sendingChainKey state, x_receivingChainKey = receivingChainKey state,
      x_dhSelfPub = dhSelfPub state, x_dhSelfSec = dhSelfSec state, x_dhRemotePub = dhRemotePub state,
      x_Ns = sNs state, x_Nr = sNr state, x_PN = sPN state,
      skippedMessageKeys = map serialize_entry (skipped state)\<rparr>"

definition deserializeRatchet :: "ratchet_secrets \<Rightarrow> ratchet_state" where
  "deserializeRatchet s =
     \<lparr>rootSuite = x_rootSuite s, rootKey = x_rootKey s,
      sendingChainKey = x_sendingChainKey s, receivingChainKey = x_receivingChainKey s,
      dhSelfPub = x_dhSelfPub s, dhSelfSec = x_dhSelfSec s, dhRemotePub = x_dhRemotePub s,
      sNs = x_Ns s, sNr = x_Nr s, sPN = x_PN s,
      skipped = fold (\<lambda>e m. AList.update (skip_key (se_dhPub e) (se_n e)) (se_messageKey e) m)
                  (skippedMessageKeys s) []\<rparr>"

definition cloneRatchet :: "ratchet_state \<Rightarrow> ratchet_state" where
  "cloneRatchet state = deserializeRatchet (serializeRatchet state)"

definition wipe :: "bytes \<Rightarrow> bytes" where "wipe b = zeros (length b)"

definition wipeRatchet :: "ratchet_state \<Rightarrow> ratchet_state" where
  "wipeRatchet state =
     state\<lparr>rootKey := wipe (rootKey state),
           sendingChainKey := map_option wipe (sendingChainKey state),
           receivingChainKey := map_option wipe (receivingChainKey state),
           dhSelfSec := wipe (dhSelfSec state),
           skipped := map (\<lambda>(k, mk). (k, wipe mk)) (skipped state)\<rparr>"

definition adoptRatchet :: "ratchet_state \<Rightarrow> ratchet_state \<Rightarrow> (ratchet_error + unit) \<times> ratchet_state" where
  "adoptRatchet live next_state =
     (if rootSuite live \<noteq> rootSuite next_state then (Inl DifferentRootSuite, live)
      else let live = wipeRatchet live
           in (Inr (), live\<lparr>rootSuite := rootSuite next_state, rootKey := rootKey next_state,
                 sendingChainKey := sendingChainKey next_state, receivingChainKey := receivingChainKey next_state,
                 dhSelfPub := dhSelfPub next_state, dhSelfSec := dhSelfSec next_state,
                 dhRemotePub := dhRemotePub next_state, sNs := sNs next_state, sNr := sNr next_state,
                 sPN := sPN next_state, skipped := skipped next_state\<rparr>))"

end
