(* ===== verification/Ratchet_Props.thy ===== *)
theory Ratchet_Props
  imports Ratchet
begin

text \<open>
  What the ratchet guarantees: the skipped-key names are injective and a snapshot restores the
  state; the receiving chain serves any delivery order of a chain's messages and never serves a
  message twice; the skipped-key store stays bounded; the two ends of a bootstrapped edge derive
  the same keys in both directions.
\<close>

section \<open>Skipped-key names\<close>

lemma toHex_eq: "toHex bs = uint8ArrayToHex bs"
proof (induction bs)
  case Nil
  then show ?case by (simp add: toHex_def)
next
  case (Cons b bs)
  have "padStart2 (to_string16 (unat b)) = [HEX ! (unat b div 16), HEX ! (unat b mod 16)]"
    by (auto simp: padStart2_def to_string16_def HEX_def)
  with Cons show ?case by (simp add: toHex_def unat_nibbles)
qed

lemma find_last_colon:
  "c \<notin> set d \<Longrightarrow> find_last_index (\<lambda>x. x = c) (h @ c # d) = Some (length h)"
  by (induction h) (auto simp: find_last_index_None_iff split: option.splits)

lemma serialize_entry_key:
  assumes "0 \<le> n"
  shows "serialize_entry (skip_key pub n, mk) = \<lparr>se_dhPub = pub, se_n = n, se_messageKey = mk\<rparr>"
proof -
  have "find_last_index (\<lambda>c. c = CHR '':'') (skip_key pub n) = Some (length (toHex pub))"
    unfolding skip_key_def append_Cons append_Nil
    by (rule find_last_colon) (rule colon_not_in_dec)
  then show ?thesis
    using assms by (simp add: serialize_entry_def Let_def fromHex_def skip_key_def toHex_eq)
qed

lemma skip_key_inj:
  assumes "skip_key a m = skip_key b n" "0 \<le> m" "0 \<le> n"
  shows "a = b \<and> m = n"
proof -
  have "\<lparr>se_dhPub = a, se_n = m, se_messageKey = []\<rparr> = \<lparr>se_dhPub = b, se_n = n, se_messageKey = []\<rparr>"
    using assms(1) serialize_entry_key [OF assms(2), of a "[]"] serialize_entry_key [OF assms(3), of b "[]"]
    by metis
  then show ?thesis by simp
qed

lemma skip_key_eq_iff: "0 \<le> m \<Longrightarrow> 0 \<le> n \<Longrightarrow> skip_key a m = skip_key b n \<longleftrightarrow> a = b \<and> m = n"
  using skip_key_inj by blast

section \<open>Snapshots\<close>

definition wf_skipped :: "(string \<times> bytes) list \<Rightarrow> bool" where
  "wf_skipped xs \<longleftrightarrow>
     distinct (map fst xs) \<and> (\<forall>k \<in> set (map fst xs). \<exists>pub n. 0 \<le> n \<and> k = skip_key pub n)"

lemma AList_update_fresh: "k \<notin> fst ` set al \<Longrightarrow> AList.update k v al = al @ [(k, v)]"
  by (induction al) auto

lemma restore_entries:
  assumes "\<forall>k \<in> set (map fst xs). \<exists>pub n. 0 \<le> n \<and> k = skip_key pub n"
    and "distinct (map fst (acc @ xs))"
  shows "fold (\<lambda>e m. AList.update (skip_key (se_dhPub e) (se_n e)) (se_messageKey e) m)
           (map serialize_entry xs) acc = acc @ xs"
  using assms
proof (induction xs arbitrary: acc)
  case Nil
  then show ?case by simp
next
  case (Cons x xs)
  obtain k mk where x: "x = (k, mk)" by (cases x)
  with Cons.prems(1) obtain pub n where k: "k = skip_key pub n" "0 \<le> n" by auto
  have fresh: "k \<notin> fst ` set acc" using Cons.prems(2) x by auto
  have "fold (\<lambda>e m. AList.update (skip_key (se_dhPub e) (se_n e)) (se_messageKey e) m)
      (map serialize_entry xs) (acc @ [(k, mk)]) = (acc @ [(k, mk)]) @ xs"
    using Cons.prems x by (intro Cons.IH) auto
  then show ?case
    using fresh by (simp add: x k serialize_entry_key AList_update_fresh)
qed

lemma clone_eq: "wf_skipped (skipped s) \<Longrightarrow> cloneRatchet s = s"
  using restore_entries [of "skipped s" "[]"]
  by (simp add: cloneRatchet_def deserializeRatchet_def serializeRatchet_def wf_skipped_def)

section \<open>The chain as a sequence of keys\<close>

definition hkdf_total :: "'r libcrypto \<Rightarrow> bool" where
  "hkdf_total m \<longleftrightarrow> (\<forall>a b. hkdf_sha512_extract m a b \<noteq> None)"

definition next_chain :: "'r libcrypto \<Rightarrow> bytes \<Rightarrow> bytes" where
  "next_chain m ck = sub (the (hkdf_sha512_extract m ck CK_INFO)) 0 32"

definition chain_key :: "'r libcrypto \<Rightarrow> bytes \<Rightarrow> nat \<Rightarrow> bytes" where
  "chain_key m ck n = (next_chain m ^^ n) ck"

definition message_key :: "'r libcrypto \<Rightarrow> bytes \<Rightarrow> nat \<Rightarrow> bytes" where
  "message_key m ck n = sub (the (hkdf_sha512_extract m (chain_key m ck n) MK_INFO)) 0 32"

lemma chain_key_0 [simp]: "chain_key m ck 0 = ck"
  by (simp add: chain_key_def)

lemma chain_key_step: "next_chain m (chain_key m ck n) = chain_key m ck (Suc n)"
  by (simp add: chain_key_def)

lemma kdfCk_chain:
  "hkdf_total m \<Longrightarrow> kdfCk m (chain_key m ck n) = Inr (chain_key m ck (Suc n), message_key m ck n)"
proof -
  assume tot: "hkdf_total m"
  then obtain x y where "hkdf_sha512_extract m (chain_key m ck n) MK_INFO = Some x"
    and "hkdf_sha512_extract m (chain_key m ck n) CK_INFO = Some y"
    unfolding hkdf_total_def by blast
  then show ?thesis
    by (simp add: kdfCk_def hkdfExtract_def message_key_def next_chain_def chain_key_step [symmetric])
qed

fun stash :: "'r libcrypto \<Rightarrow> bytes \<Rightarrow> bytes \<Rightarrow> nat \<Rightarrow> nat \<Rightarrow> (string \<times> bytes) list \<Rightarrow> (string \<times> bytes) list" where
  "stash m pub ck n 0 xs = xs"
| "stash m pub ck n (Suc k) xs =
     stash m pub ck (Suc n) k (AList.update (skip_key pub (int n)) (message_key m ck n) xs)"

lemma skip_loop_chain:
  assumes "hkdf_total m" "dhRemotePub s = Some pub" "sNr s = int n"
    and "receivingChainKey s = Some (chain_key m ck n)"
  shows "skip_loop m (int (n + k)) (chain_key m ck n) s =
    (Inr (), s\<lparr>receivingChainKey := Some (chain_key m ck (n + k)),
               skipped := stash m pub ck n k (skipped s), sNr := int (n + k)\<rparr>)"
  using assms
proof (induction k arbitrary: n s)
  case 0
  then show ?case by (subst skip_loop.simps) simp
next
  case (Suc k)
  let ?s = "s\<lparr>receivingChainKey := Some (chain_key m ck (Suc n)),
    skipped := AList.update (skip_key pub (int n)) (message_key m ck n) (skipped s), sNr := int (Suc n)\<rparr>"
  have "skip_loop m (int (n + Suc k)) (chain_key m ck n) s =
      skip_loop m (int (Suc n + k)) (chain_key m ck (Suc n)) ?s"
    using Suc.prems by (subst skip_loop.simps) (simp add: kdfCk_chain add.commute)
  also have "\<dots> = (Inr (), ?s\<lparr>receivingChainKey := Some (chain_key m ck (Suc n + k)),
               skipped := stash m pub ck (Suc n) k (skipped ?s), sNr := int (Suc n + k)\<rparr>)"
    using Suc.prems by (intro Suc.IH) simp_all
  finally show ?case by simp
qed

lemma map_of_stash:
  "map_of (stash m pub ck n k xs) (skip_key pub (int i)) =
     (if n \<le> i \<and> i < n + k then Some (message_key m ck i) else map_of xs (skip_key pub (int i)))"
  by (induction m pub ck n k xs rule: stash.induct) (auto simp: update_conv skip_key_eq_iff)

lemma distinct_stash: "distinct (map fst xs) \<Longrightarrow> distinct (map fst (stash m pub ck n k xs))"
  by (induction m pub ck n k xs rule: stash.induct) (simp_all add: distinct_update)

lemma length_AList_update: "length (AList.update k v al) \<le> Suc (length al)"
  by (induction al) auto

lemma length_stash: "length (stash m pub ck n k xs) \<le> length xs + k"
proof (induction m pub ck n k xs rule: stash.induct)
  case (2 m pub ck n k xs)
  then show ?case
    using length_AList_update [of "skip_key pub (int n)" "message_key m ck n" xs] by simp
qed simp

section \<open>Delivery in any order within a chain\<close>

definition in_sync :: "'r libcrypto \<Rightarrow> bytes \<Rightarrow> bytes \<Rightarrow> nat set \<Rightarrow> ratchet_state \<Rightarrow> bool" where
  "in_sync m pub ck S s \<longleftrightarrow>
     dhRemotePub s = Some pub \<and> 0 \<le> sNr s \<and>
     receivingChainKey s = Some (chain_key m ck (nat (sNr s))) \<and>
     (\<forall>i \<in> S. i < nat (sNr s)) \<and>
     (\<forall>i. map_of (skipped s) (skip_key pub (int i)) =
        (if i < nat (sNr s) \<and> i \<notin> S then Some (message_key m ck i) else None)) \<and>
     distinct (map fst (skipped s))"

lemma AList_delete_length: "map_of al k = Some v \<Longrightarrow> length (AList.delete k al) < length al"
  by (induction al) (auto simp: AList.delete_eq less_Suc_eq_le split: if_splits)

lemma decrypt_skipped:
  assumes sync: "in_sync m pub ck S s" and i: "i < nat (sNr s)" "i \<notin> S" and pn: "0 \<le> pn"
  shows "\<exists>s'. ratchetDecrypt s \<lparr>dhPub = pub, N = int i, PN = pn\<rparr> m rng = (Inr (message_key m ck i), s', rng) \<and>
    in_sync m pub ck (insert i S) s' \<and> sNr s' = sNr s \<and> length (skipped s') \<le> length (skipped s)"
proof -
  let ?k = "skip_key pub (int i)"
  let ?s = "s\<lparr>skipped := AList.delete ?k (skipped s)\<rparr>"
  have hit: "map_of (skipped s) ?k = Some (message_key m ck i)"
    using sync i by (simp add: in_sync_def)
  have "map_of (skipped ?s) (skip_key pub (int j)) =
      (if j < nat (sNr s) \<and> j \<notin> insert i S then Some (message_key m ck j) else None)" for j
    using sync by (auto simp: in_sync_def delete_conv skip_key_eq_iff)
  then have "in_sync m pub ck (insert i S) ?s"
    using sync i by (simp add: in_sync_def distinct_delete)
  moreover have "length (skipped ?s) \<le> length (skipped s)"
    using AList_delete_length [OF hit] by simp
  ultimately show ?thesis
    using hit pn by (intro exI [of _ ?s]) (simp add: ratchetDecrypt_def trySkipped_def)
qed

lemma evict_short: "length xs \<le> MAX_SKIP_SESSION \<Longrightarrow> evict_oldest xs = xs"
  by (cases xs) simp_all

lemma skipMessageKeys_chain:
  assumes "hkdf_total m" "dhRemotePub s = Some pub" "sNr s = int n"
    and "receivingChainKey s = Some (chain_key m ck n)"
    and "k \<le> 512" "length (skipped s) + k \<le> MAX_SKIP_SESSION"
  shows "skipMessageKeys s (int (n + k)) m =
    (Inr (), s\<lparr>receivingChainKey := Some (chain_key m ck (n + k)),
               skipped := stash m pub ck n k (skipped s), sNr := int (n + k)\<rparr>)"
  using assms skip_loop_chain [OF assms(1-4), of k] length_stash [of m pub ck n k "skipped s"]
  by (simp add: skipMessageKeys_def MAX_SKIP_def)

lemma decrypt_forward:
  assumes tot: "hkdf_total m" and sync: "in_sync m pub ck S s" and i: "nat (sNr s) \<le> i"
    and gap: "i - nat (sNr s) \<le> 512" and room: "length (skipped s) + (i - nat (sNr s)) \<le> MAX_SKIP_SESSION"
    and pn: "0 \<le> pn"
  shows "\<exists>s'. ratchetDecrypt s \<lparr>dhPub = pub, N = int i, PN = pn\<rparr> m rng = (Inr (message_key m ck i), s', rng) \<and>
    in_sync m pub ck (insert i S) s' \<and> sNr s' = int (Suc i) \<and>
    length (skipped s') \<le> length (skipped s) + (i - nat (sNr s))"
proof -
  define n where "n = nat (sNr s)"
  define k where "k = i - n"
  have nk: "n + k = i" "k \<le> 512" "length (skipped s) + k \<le> MAX_SKIP_SESSION" "sNr s = int n"
    using i gap room sync by (simp_all add: n_def k_def in_sync_def)
  let ?mid = "s\<lparr>receivingChainKey := Some (chain_key m ck i), skipped := stash m pub ck n k (skipped s), sNr := int i\<rparr>"
  let ?s = "?mid\<lparr>receivingChainKey := Some (chain_key m ck (Suc i)), sNr := int (Suc i)\<rparr>"
  have miss: "map_of (skipped s) (skip_key pub (int i)) = None"
    using sync i by (simp add: in_sync_def)
  have skip: "skipMessageKeys s (int i) m = (Inr (), ?mid)"
    using skipMessageKeys_chain [OF tot, of s pub n ck k] sync nk by (simp add: in_sync_def)
  have keys: "map_of (skipped ?s) (skip_key pub (int j)) =
      (if j < Suc i \<and> j \<notin> insert i S then Some (message_key m ck j) else None)" for j
    using sync nk i by (auto simp: in_sync_def map_of_stash)
  have "\<forall>j \<in> insert i S. j < Suc i" using sync i by (force simp: in_sync_def)
  moreover have "nat (1 + int i) = Suc i" by simp
  ultimately have "in_sync m pub ck (insert i S) ?s"
    using sync keys by (simp add: in_sync_def distinct_stash)
  moreover have "ratchetDecrypt s \<lparr>dhPub = pub, N = int i, PN = pn\<rparr> m rng = (Inr (message_key m ck i), ?s, rng)"
    using sync i nk miss pn skip kdfCk_chain [OF tot, of ck i]
    by (simp add: ratchetDecrypt_def trySkipped_def decrypt_in_chain_def in_sync_def bytesEqual_iff)
  moreover have "length (skipped ?s) \<le> length (skipped s) + (i - nat (sNr s))"
    using length_stash [of m pub ck n k "skipped s"] by (simp add: n_def k_def)
  ultimately show ?thesis by (intro exI [of _ ?s]) simp
qed

lemma decrypt_replay:
  assumes "in_sync m pub ck S s" "i \<in> S" "0 \<le> pn"
  shows "ratchetDecrypt s \<lparr>dhPub = pub, N = int i, PN = pn\<rparr> m rng = (Inl AlreadyConsumed, s, rng)"
  using assms by (force simp: ratchetDecrypt_def trySkipped_def decrypt_in_chain_def in_sync_def bytesEqual_iff)

section \<open>Runs of messages\<close>

fun decrypt_all ::
    "ratchet_state \<Rightarrow> ratchet_header list \<Rightarrow> 'r libcrypto \<Rightarrow> 'r \<Rightarrow>
     (ratchet_error + bytes) list \<times> ratchet_state \<times> 'r" where
  "decrypt_all s [] m rng = ([], s, rng)"
| "decrypt_all s (h # hs) m rng =
     (let (r, s1, rng1) = ratchetDecrypt s h m rng; (rs, s2, rng2) = decrypt_all s1 hs m rng1
      in (r # rs, s2, rng2))"

fun encrypt_all ::
    "nat \<Rightarrow> ratchet_state \<Rightarrow> 'r libcrypto \<Rightarrow> (ratchet_error + bytes \<times> ratchet_header) list \<times> ratchet_state" where
  "encrypt_all 0 s m = ([], s)"
| "encrypt_all (Suc k) s m =
     (let (r, s1) = ratchetEncrypt s m; (rs, s2) = encrypt_all k s1 m in (r # rs, s2))"

lemma encrypt_all_chain:
  assumes "hkdf_total m" "sendingChainKey s = Some (chain_key m ck n)" "sNs s = int n"
  shows "fst (encrypt_all k s m) =
    map (\<lambda>i. Inr (message_key m ck (n + i), \<lparr>dhPub = dhSelfPub s, N = int (n + i), PN = sPN s\<rparr>)) [0..<k]"
  using assms
proof (induction k arbitrary: s n)
  case 0
  then show ?case by simp
next
  case (Suc k)
  let ?s = "s\<lparr>sendingChainKey := Some (chain_key m ck (Suc n)), sNs := int (Suc n)\<rparr>"
  have step: "ratchetEncrypt s m =
      (Inr (message_key m ck n, \<lparr>dhPub = dhSelfPub s, N = int n, PN = sPN s\<rparr>), ?s)"
    using Suc.prems by (simp add: ratchetEncrypt_def kdfCk_chain add.commute)
  have "fst (encrypt_all k ?s m) =
      map (\<lambda>i. Inr (message_key m ck (Suc n + i), \<lparr>dhPub = dhSelfPub ?s, N = int (Suc n + i), PN = sPN ?s\<rparr>)) [0..<k]"
    using Suc.prems by (intro Suc.IH) simp_all
  then show ?case
    using step by (simp add: upt_conv_Cons map_Suc_upt [symmetric] comp_def case_prod_beta del: upt_Suc)
qed

lemma decrypt_all_chain:
  assumes "hkdf_total m" "0 \<le> pn" "distinct is" "\<forall>i \<in> set is. i < L" "L \<le> 512"
    and "in_sync m pub ck S s" "set is \<inter> S = {}" "length (skipped s) \<le> B + nat (sNr s)"
    and "sNr s \<le> int L" "B + L \<le> MAX_SKIP_SESSION"
  shows "\<exists>s'. decrypt_all s (map (\<lambda>i. \<lparr>dhPub = pub, N = int i, PN = pn\<rparr>) is) m rng =
      (map (\<lambda>i. Inr (message_key m ck i)) is, s', rng) \<and> in_sync m pub ck (S \<union> set is) s'"
  using assms
proof (induction "is" arbitrary: s S)
  case Nil
  then show ?case by simp
next
  case (Cons i "is")
  have "\<exists>s'. ratchetDecrypt s \<lparr>dhPub = pub, N = int i, PN = pn\<rparr> m rng = (Inr (message_key m ck i), s', rng) \<and>
      in_sync m pub ck (insert i S) s' \<and> length (skipped s') \<le> B + nat (sNr s') \<and> sNr s' \<le> int L"
  proof (cases "i < nat (sNr s)")
    case True
    then show ?thesis
      using decrypt_skipped [OF Cons.prems(6) True _ Cons.prems(2), of rng] Cons.prems by fastforce
  next
    case False
    have L: "i < L" using Cons.prems(4) by simp
    have "\<exists>s'. ratchetDecrypt s \<lparr>dhPub = pub, N = int i, PN = pn\<rparr> m rng = (Inr (message_key m ck i), s', rng) \<and>
      in_sync m pub ck (insert i S) s' \<and> sNr s' = int (Suc i) \<and>
      length (skipped s') \<le> length (skipped s) + (i - nat (sNr s))"
      using False L Cons.prems by (intro decrypt_forward) auto
    with False L Cons.prems(8) show ?thesis by fastforce
  qed
  then obtain s1 where s1: "ratchetDecrypt s \<lparr>dhPub = pub, N = int i, PN = pn\<rparr> m rng = (Inr (message_key m ck i), s1, rng)"
    "in_sync m pub ck (insert i S) s1" "length (skipped s1) \<le> B + nat (sNr s1)" "sNr s1 \<le> int L"
    by blast
  have "\<exists>s'. decrypt_all s1 (map (\<lambda>i. \<lparr>dhPub = pub, N = int i, PN = pn\<rparr>) is) m rng =
      (map (\<lambda>i. Inr (message_key m ck i)) is, s', rng) \<and> in_sync m pub ck (insert i S \<union> set is) s'"
    using Cons.prems s1 by (intro Cons.IH) auto
  with s1 show ?case by auto
qed

section \<open>Bootstrap agreement\<close>

text \<open>
  What the module is documented to do: HMAC never fails and gives 64 bytes, HKDF-Expand gives the
  length it is asked for, a generated pair is a scalar with its public point, and the X25519
  function of two generated pairs is symmetric and not the identity.
\<close>

definition module_contract :: "'r libcrypto \<Rightarrow> (bytes \<Rightarrow> bytes) \<Rightarrow> bool" where
  "module_contract m pub_of \<longleftrightarrow>
     (\<forall>a b. \<exists>x. hkdf_sha512_extract m a b = Some x \<and> length x = 64) \<and>
     (\<forall>n a b. \<exists>x. hkdf_sha512_expand m n a b = Some x \<and> length x = n) \<and>
     (\<forall>r. \<exists>sk r'. x25519_keypair m r = (Some (pub_of sk, sk), r') \<and> length sk = 32) \<and>
     (\<forall>sk. length (pub_of sk) = 32) \<and>
     (\<forall>a b. \<exists>z. x25519_dh m a (pub_of b) = Some z \<and> x25519_dh m b (pub_of a) = Some z)"

definition rk_step :: "'r libcrypto \<Rightarrow> bytes \<Rightarrow> bytes \<Rightarrow> bytes \<Rightarrow> bytes \<times> bytes" where
  "rk_step m root sk pk =
     (let okm = the (hkdf_sha512_expand m 64 (the (hkdf_sha512_extract m root (the (x25519_dh m sk pk)))) RK_INFO)
      in (sub okm 0 32, sub okm 32 64))"

lemma contract_hkdf_total: "module_contract m pub_of \<Longrightarrow> hkdf_total m"
  unfolding module_contract_def hkdf_total_def by (metis option.distinct(1))

lemma contract_rk:
  assumes c: "module_contract m pub_of" and sk: "length sk = 32"
  shows "rbind (x25519Dh m sk (pub_of b)) (kdfRk m root) = Inr (rk_step m root sk (pub_of b))"
proof -
  from c obtain z where z: "x25519_dh m sk (pub_of b) = Some z"
    unfolding module_contract_def by blast
  from c obtain x where x: "hkdf_sha512_extract m root z = Some x" "length x = 64"
    unfolding module_contract_def by blast
  from c obtain y where y: "hkdf_sha512_expand m 64 x RK_INFO = Some y"
    unfolding module_contract_def by blast
  have "length (pub_of b) = 32" using c by (simp add: module_contract_def)
  with sk z x y show ?thesis
    by (simp add: x25519Dh_def kdfRk_def hkdfExtract_def hkdfExpand_def rk_step_def Let_def)
qed

lemma contract_rk_sym:
  assumes "module_contract m pub_of"
  shows "rk_step m root a (pub_of b) = rk_step m root b (pub_of a)"
proof -
  obtain z where "x25519_dh m a (pub_of b) = Some z" "x25519_dh m b (pub_of a) = Some z"
    using assms unfolding module_contract_def by blast
  then show ?thesis by (simp add: rk_step_def)
qed

lemma contract_keypair:
  assumes "module_contract m pub_of"
  shows "\<exists>sk r'. x25519Keypair m r = (Inr (pub_of sk, sk), r') \<and> length sk = 32"
proof -
  obtain sk r' where "x25519_keypair m r = (Some (pub_of sk, sk), r')" "length sk = 32"
    using assms unfolding module_contract_def by blast
  then show ?thesis by (intro exI [of _ sk] exI [of _ r']) (simp add: x25519Keypair_def)
qed

lemma init_initiator:
  assumes "module_contract m pub_of"
  shows "\<exists>sk r'. length sk = 32 \<and>
    initRatchet seed True (Some (pub_of b)) m suite r =
      (Inr \<lparr>rootSuite = suite, rootKey = fst (rk_step m seed sk (pub_of b)),
            sendingChainKey = Some (snd (rk_step m seed sk (pub_of b))), receivingChainKey = None,
            dhSelfPub = pub_of sk, dhSelfSec = sk, dhRemotePub = Some (pub_of b),
            sNs = 0, sNr = 0, sPN = 0, skipped = []\<rparr>, r')"
proof -
  obtain sk r' where k: "x25519Keypair m r = (Inr (pub_of sk, sk), r')" "length sk = 32"
    using contract_keypair [OF assms] by blast
  obtain z where z: "x25519Dh m sk (pub_of b) = Inr z" "kdfRk m seed z = Inr (rk_step m seed sk (pub_of b))"
    using contract_rk [OF assms k(2), of b seed] by (auto simp: result_simps)
  show ?thesis
    using k z by (intro exI [of _ sk] exI [of _ r']) (simp add: initRatchet_def case_prod_beta)
qed

lemma dhRatchet_contract:
  assumes c: "module_contract m pub_of" and sk: "length (dhSelfSec s) = 32" and h: "dhPub h = pub_of a"
  shows "\<exists>sk' r'. length sk' = 32 \<and> dhRatchet s h m r =
    (let (root1, chain1) = rk_step m (rootKey s) (dhSelfSec s) (pub_of a);
         (root2, chain2) = rk_step m root1 sk' (pub_of a)
     in (Inr (), s\<lparr>sPN := sNs s, sNs := 0, sNr := 0, dhRemotePub := Some (pub_of a),
                    rootKey := root2, receivingChainKey := Some chain1, dhSelfPub := pub_of sk',
                    dhSelfSec := sk', sendingChainKey := Some chain2\<rparr>, r'))"
proof -
  obtain sk' r' where k: "x25519Keypair m r = (Inr (pub_of sk', sk'), r')" "length sk' = 32"
    using contract_keypair [OF c] by blast
  show ?thesis
    using k sk h contract_rk [OF c sk, of a] contract_rk [OF c k(2), of a]
    by (intro exI [of _ sk'] exI [of _ r']) (simp add: dhRatchet_def Let_def case_prod_beta)
qed

text \<open>A bootstrapped edge: the responder's key, the initiator from it, the responder primed.\<close>

definition bootstrap ::
    "bytes \<Rightarrow> 'r libcrypto \<Rightarrow> string \<Rightarrow> 'r \<Rightarrow> (ratchet_error + ratchet_state \<times> ratchet_state) \<times> 'r" where
  "bootstrap seed m suite r0 =
     (case initRatchet seed False None m suite r0 of
        (Inl e, r1) \<Rightarrow> (Inl e, r1)
      | (Inr responder, r1) \<Rightarrow>
          (case initRatchet seed True (Some (dhSelfPub responder)) m suite r1 of
             (Inl e, r2) \<Rightarrow> (Inl e, r2)
           | (Inr initiator, r2) \<Rightarrow>
               (case primeResponderRatchet responder (dhSelfPub initiator) m r2 of
                  (Inl e, _, r3) \<Rightarrow> (Inl e, r3)
                | (Inr _, responder', r3) \<Rightarrow> (Inr (initiator, responder'), r3))))"

lemma bootstrap_ok:
  assumes c: "module_contract m pub_of"
  shows "\<exists>ski skr skr' I R r'. bootstrap seed m suite r0 = (Inr (I, R), r') \<and>
    length ski = 32 \<and> length skr' = 32 \<and>
    I = \<lparr>rootSuite = suite, rootKey = fst (rk_step m seed ski (pub_of skr)),
         sendingChainKey = Some (snd (rk_step m seed ski (pub_of skr))), receivingChainKey = None,
         dhSelfPub = pub_of ski, dhSelfSec = ski, dhRemotePub = Some (pub_of skr),
         sNs = 0, sNr = 0, sPN = 0, skipped = []\<rparr> \<and>
    R = \<lparr>rootSuite = suite, rootKey = fst (rk_step m (rootKey I) skr' (pub_of ski)),
         sendingChainKey = Some (snd (rk_step m (rootKey I) skr' (pub_of ski))),
         receivingChainKey = sendingChainKey I,
         dhSelfPub = pub_of skr', dhSelfSec = skr', dhRemotePub = Some (pub_of ski),
         sNs = 0, sNr = 0, sPN = 0, skipped = []\<rparr>"
proof -
  obtain skr r1 where kr: "x25519Keypair m r0 = (Inr (pub_of skr, skr), r1)" "length skr = 32"
    using contract_keypair [OF c] by blast
  let ?R0 = "\<lparr>rootSuite = suite, rootKey = seed, sendingChainKey = None, receivingChainKey = None,
    dhSelfPub = pub_of skr, dhSelfSec = skr, dhRemotePub = None, sNs = 0, sNr = 0, sPN = 0, skipped = []\<rparr>"
  have R0: "initRatchet seed False None m suite r0 = (Inr ?R0, r1)"
    using kr by (simp add: initRatchet_def)
  obtain ski r2 where ki: "length ski = 32" and I: "initRatchet seed True (Some (pub_of skr)) m suite r1 =
      (Inr \<lparr>rootSuite = suite, rootKey = fst (rk_step m seed ski (pub_of skr)),
            sendingChainKey = Some (snd (rk_step m seed ski (pub_of skr))), receivingChainKey = None,
            dhSelfPub = pub_of ski, dhSelfSec = ski, dhRemotePub = Some (pub_of skr),
            sNs = 0, sNr = 0, sPN = 0, skipped = []\<rparr>, r2)"
    using init_initiator [OF c] by blast
  obtain skr' r3 where kr': "length skr' = 32" and D: "dhRatchet ?R0 \<lparr>dhPub = pub_of ski, N = 0, PN = 0\<rparr> m r2 =
    (let (root1, chain1) = rk_step m seed skr (pub_of ski);
         (root2, chain2) = rk_step m root1 skr' (pub_of ski)
     in (Inr (), ?R0\<lparr>sPN := 0, sNs := 0, sNr := 0, dhRemotePub := Some (pub_of ski),
                    rootKey := root2, receivingChainKey := Some chain1, dhSelfPub := pub_of skr',
                    dhSelfSec := skr', sendingChainKey := Some chain2\<rparr>, r3))"
    using dhRatchet_contract [OF c, of ?R0 "\<lparr>dhPub = pub_of ski, N = 0, PN = 0\<rparr>" ski r2] kr(2) by auto
  have len: "length (pub_of ski) = 32" using c by (simp add: module_contract_def)
  show ?thesis
    using R0 I D ki kr' len contract_rk_sym [OF c, of seed skr ski]
    by (intro exI [of _ ski] exI [of _ skr] exI [of _ skr'] exI [of _ r3])
       (simp add: bootstrap_def primeResponderRatchet_def RATCHET_DHPUB_LEN_def case_prod_beta Let_def)
qed

lemma in_sync_fresh:
  "dhRemotePub s = Some pub \<Longrightarrow> sNr s = 0 \<Longrightarrow> receivingChainKey s = Some ck \<Longrightarrow> skipped s = [] \<Longrightarrow>
   in_sync m pub ck {} s"
  by (simp add: in_sync_def)

lemma decrypt_new_chain:
  assumes c: "module_contract m pub_of" and sk: "length (dhSelfSec s) = 32"
    and s: "skipped s = []" "receivingChainKey s = None" "sNr s = 0" "dhRemotePub s \<noteq> Some (pub_of a)"
    and i: "i \<le> 512"
  shows "\<exists>s' r'. ratchetDecrypt s \<lparr>dhPub = pub_of a, N = int i, PN = 0\<rparr> m r =
      (Inr (message_key m (snd (rk_step m (rootKey s) (dhSelfSec s) (pub_of a))) i), s', r') \<and>
    in_sync m (pub_of a) (snd (rk_step m (rootKey s) (dhSelfSec s) (pub_of a))) {i} s' \<and>
    sNr s' = int (Suc i) \<and> length (skipped s') \<le> i"
proof -
  let ?h = "\<lparr>dhPub = pub_of a, N = int i, PN = 0\<rparr>"
  let ?ck = "snd (rk_step m (rootKey s) (dhSelfSec s) (pub_of a))"
  obtain s1 r1 where D: "dhRatchet s ?h m r = (Inr (), s1, r1)" and s1: "dhRemotePub s1 = Some (pub_of a)"
      "sNr s1 = 0" "receivingChainKey s1 = Some ?ck" "skipped s1 = []"
    using dhRatchet_contract [OF c sk, of ?h a r] s(1) by (auto simp: Let_def case_prod_beta)
  have tot: "hkdf_total m" by (rule contract_hkdf_total [OF c])
  have sync: "in_sync m (pub_of a) ?ck {} s1" using s1 by (rule in_sync_fresh)
  obtain s' where s': "ratchetDecrypt s1 ?h m r1 = (Inr (message_key m ?ck i), s', r1)"
      "in_sync m (pub_of a) ?ck {i} s'" "sNr s' = int (Suc i)" "length (skipped s') \<le> i"
    using decrypt_forward [OF tot sync, of i 0 r1] s1 i by (auto simp: MAX_SKIP_SESSION_def)
  have "ratchetDecrypt s1 ?h m r1 = (let (r, t) = decrypt_in_chain s1 ?h m in (r, t, r1))"
    using s1 by (simp add: ratchetDecrypt_def trySkipped_def bytesEqual_iff)
  moreover have "ratchetDecrypt s ?h m r = (let (r, t) = decrypt_in_chain s1 ?h m in (r, t, r1))"
    using s D by (auto simp: ratchetDecrypt_def trySkipped_def bytesEqual_iff skipMessageKeys_def
        MAX_SKIP_def Let_def split: option.splits)
  ultimately have "ratchetDecrypt s ?h m r = (Inr (message_key m ?ck i), s', r1)" using s'(1) by simp
  with s'(2-4) show ?thesis by blast
qed

section \<open>The invariant of a live state\<close>

definition live_inv :: "ratchet_state \<Rightarrow> bool" where
  "live_inv s \<longleftrightarrow> 0 \<le> sNr s \<and> 0 \<le> sNs s \<and> 0 \<le> sPN s \<and> wf_skipped (skipped s) \<and>
     length (skipped s) \<le> MAX_SKIP_SESSION"

lemma wf_skipped_update: "wf_skipped xs \<Longrightarrow> 0 \<le> n \<Longrightarrow> wf_skipped (AList.update (skip_key pub n) v xs)"
  by (auto simp: wf_skipped_def distinct_update dom_update)

lemma wf_skipped_delete: "wf_skipped xs \<Longrightarrow> wf_skipped (AList.delete k xs)"
  by (auto simp: wf_skipped_def distinct_delete delete_keys distinct_removeAll)

lemma evict_suffix: "\<exists>ys. xs = ys @ evict_oldest xs"
  by (induction xs) (auto, metis append_Cons)

lemma length_evict: "length (evict_oldest xs) \<le> MAX_SKIP_SESSION"
  by (induction xs) auto

lemma wf_skipped_evict: "wf_skipped xs \<Longrightarrow> wf_skipped (evict_oldest xs)"
proof -
  obtain ys where xs: "xs = ys @ evict_oldest xs" using evict_suffix by blast
  assume "wf_skipped xs"
  then have "wf_skipped (ys @ evict_oldest xs)" using xs by simp
  then show ?thesis by (auto simp: wf_skipped_def)
qed

lemma skip_loop_stashes:
  assumes "hkdf_total m" "dhRemotePub s = Some pub" "0 \<le> sNr s" "wf_skipped (skipped s)"
  shows "\<exists>s'. skip_loop m until ck s = (Inr (), s') \<and> 0 \<le> sNr s' \<and> wf_skipped (skipped s') \<and>
    sNs s' = sNs s \<and> sPN s' = sPN s"
  using assms
proof (induction "nat (until - sNr s)" arbitrary: s ck)
  case 0
  then show ?case by (subst skip_loop.simps) simp
next
  case (Suc k)
  obtain c mk where kdf: "kdfCk m ck = Inr (c, mk)"
    using kdfCk_chain [OF Suc.prems(1), of ck 0] by auto
  let ?s = "s\<lparr>receivingChainKey := Some c,
    skipped := AList.update (skip_key pub (sNr s)) mk (skipped s), sNr := sNr s + 1\<rparr>"
  have lt: "sNr s < until" using Suc.hyps(2) by linarith
  have "skip_loop m until ck s = skip_loop m until c ?s"
    using lt kdf Suc.prems by (subst skip_loop.simps) simp
  moreover have "\<exists>s'. skip_loop m until c ?s = (Inr (), s') \<and> 0 \<le> sNr s' \<and> wf_skipped (skipped s') \<and>
      sNs s' = sNs ?s \<and> sPN s' = sPN ?s"
    using Suc.hyps(2) Suc.prems by (intro Suc.hyps(1)) (simp_all add: wf_skipped_update)
  ultimately show ?case by simp
qed

lemma skip_loop_null:
  assumes "hkdf_total m" "dhRemotePub s = None"
  shows "skip_loop m until ck s = (Inr (), s) \<or>
    (\<exists>c. skip_loop m until ck s = (Inl NullReference, s\<lparr>receivingChainKey := c\<rparr>))"
proof -
  obtain c mk where "kdfCk m ck = Inr (c, mk)"
    using kdfCk_chain [OF assms(1), of ck 0] by auto
  with assms show ?thesis by (subst (1 2) skip_loop.simps) (auto simp: Let_def)
qed

lemma skipMessageKeys_inv:
  assumes tot: "hkdf_total m" and inv: "live_inv s" and run: "skipMessageKeys s until m = (r, s')"
  shows "live_inv s'"
proof (cases "sNr s + MAX_SKIP < until \<or> receivingChainKey s = None")
  case True
  with run inv show ?thesis by (auto simp: skipMessageKeys_def split: if_splits)
next
  case False
  then obtain ck where ck: "receivingChainKey s = Some ck" by auto
  show ?thesis
  proof (cases "dhRemotePub s")
    case None
    with False ck run inv skip_loop_null [OF tot None, of until ck] show ?thesis
      by (auto simp: skipMessageKeys_def live_inv_def)
  next
    case (Some pub)
    obtain s1 where "skip_loop m until ck s = (Inr (), s1)" "0 \<le> sNr s1" "wf_skipped (skipped s1)"
        "sNs s1 = sNs s" "sPN s1 = sPN s"
      using skip_loop_stashes [OF tot Some] inv by (auto simp: live_inv_def)
    with False ck run inv show ?thesis
      by (auto simp: skipMessageKeys_def live_inv_def length_evict wf_skipped_evict)
  qed
qed

lemma dhRatchet_inv:
  assumes inv: "live_inv s" and run: "dhRatchet s h m rng = (r, s', rng')"
  shows "live_inv s'"
  using run inv
  by (auto simp: dhRatchet_def Let_def live_inv_def split: sum.splits prod.splits)

lemma decrypt_in_chain_inv:
  assumes tot: "hkdf_total m" and inv: "live_inv s" and run: "decrypt_in_chain s h m = (r, s')"
  shows "live_inv s'"
proof -
  obtain q t where q: "skipMessageKeys s (N h) m = (q, t)" by (cases "skipMessageKeys s (N h) m")
  have "live_inv t" by (rule skipMessageKeys_inv [OF tot inv q])
  with run inv q show ?thesis
    by (auto simp: decrypt_in_chain_def live_inv_def split: if_splits sum.splits option.splits)
qed

lemma trySkipped_inv: "live_inv s \<Longrightarrow> trySkipped s h = (r, s') \<Longrightarrow> live_inv s'"
proof -
  assume inv: "live_inv s" and run: "trySkipped s h = (r, s')"
  have "length (AList.delete k (skipped s)) \<le> MAX_SKIP_SESSION" for k
    using inv by (auto simp: live_inv_def AList.delete_eq intro: le_trans [OF length_filter_le])
  with run inv show ?thesis
    by (auto simp: trySkipped_def Let_def live_inv_def wf_skipped_delete split: option.splits)
qed

lemma ratchetDecrypt_inv:
  assumes tot: "hkdf_total m" and inv: "live_inv s" and run: "ratchetDecrypt s h m rng = (r, s', rng')"
  shows "live_inv s'"
proof (cases "N h < 0 \<or> PN h < 0")
  case True
  with run inv show ?thesis by (simp add: ratchetDecrypt_def)
next
  case False
  obtain k t where t: "trySkipped s h = (k, t)" by (cases "trySkipped s h")
  have it: "live_inv t" by (rule trySkipped_inv [OF inv t])
  obtain q u where u: "skipMessageKeys t (PN h) m = (q, u)" by (cases "skipMessageKeys t (PN h) m")
  have iu: "live_inv u" by (rule skipMessageKeys_inv [OF tot it u])
  obtain d v rng1 where v: "dhRatchet u h m rng = (d, v, rng1)" by (metis prod_cases3)
  have iv: "live_inv v" by (rule dhRatchet_inv [OF iu v])
  obtain a w where w: "decrypt_in_chain v h m = (a, w)" by (cases "decrypt_in_chain v h m")
  have iw: "live_inv w" by (rule decrypt_in_chain_inv [OF tot iv w])
  obtain b x where x: "decrypt_in_chain t h m = (b, x)" by (cases "decrypt_in_chain t h m")
  have ix: "live_inv x" by (rule decrypt_in_chain_inv [OF tot it x])
  from run False t u v w x it iu iv iw ix show ?thesis
    by (auto simp: ratchetDecrypt_def Let_def split: option.splits sum.splits if_splits)
qed

lemma ratchetEncrypt_inv: "live_inv s \<Longrightarrow> ratchetEncrypt s m = (r, s') \<Longrightarrow> live_inv s'"
  by (auto simp: ratchetEncrypt_def live_inv_def split: option.splits sum.splits)

lemma primeResponderRatchet_inv:
  "live_inv s \<Longrightarrow> primeResponderRatchet s pub m rng = (r, s', rng') \<Longrightarrow> live_inv s'"
  by (auto simp: primeResponderRatchet_def split: if_splits intro: dhRatchet_inv)

lemma initRatchet_inv: "initRatchet seed b rp m suite rng = (Inr s, rng') \<Longrightarrow> live_inv s"
  by (auto simp: initRatchet_def Let_def live_inv_def wf_skipped_def result_simps
      split: prod.splits sum.splits option.splits if_splits)

lemma adopt_ok: "rootSuite live = rootSuite nx \<Longrightarrow> adoptRatchet live nx = (Inr (), nx)"
  by (simp add: adoptRatchet_def Let_def)

lemma adopt_inv: "live_inv s \<Longrightarrow> live_inv t \<Longrightarrow> adoptRatchet s t = (r, s') \<Longrightarrow> live_inv s'"
  by (cases "rootSuite s = rootSuite t") (auto simp: adopt_ok, simp add: adoptRatchet_def)

text \<open>The states an edge can be in: any sequence of operations, any headers, any outcome.\<close>

inductive ratchet_reach :: "'r libcrypto \<Rightarrow> ratchet_state \<Rightarrow> bool" for m where
  init: "initRatchet seed b rp m suite rng = (Inr s, rng') \<Longrightarrow> ratchet_reach m s"
| encrypt: "ratchet_reach m s \<Longrightarrow> ratchetEncrypt s m = (r, s') \<Longrightarrow> ratchet_reach m s'"
| decrypt: "ratchet_reach m s \<Longrightarrow> ratchetDecrypt s h m rng = (r, s', rng') \<Longrightarrow> ratchet_reach m s'"
| prime: "ratchet_reach m s \<Longrightarrow> primeResponderRatchet s pub m rng = (r, s', rng') \<Longrightarrow> ratchet_reach m s'"
| adopt: "ratchet_reach m s \<Longrightarrow> ratchet_reach m t \<Longrightarrow> adoptRatchet s t = (r, s') \<Longrightarrow> ratchet_reach m s'"
| clone: "ratchet_reach m s \<Longrightarrow> ratchet_reach m (cloneRatchet s)"

lemma ratchet_reach_inv: "ratchet_reach m s \<Longrightarrow> hkdf_total m \<Longrightarrow> live_inv s"
proof (induction rule: ratchet_reach.induct)
  case (clone s)
  then show ?case using clone_eq [of s] by (simp add: live_inv_def)
qed (blast intro: initRatchet_inv ratchetEncrypt_inv ratchetDecrypt_inv primeResponderRatchet_inv adopt_inv)+

section \<open>A concrete module\<close>

text \<open>A module with the documented contract, for evaluating the properties at concrete inputs.\<close>

definition demo_pub :: "bytes \<Rightarrow> bytes" where
  "demo_pub sk = take 32 (sk @ zeros 32)"

definition demo_module :: "nat libcrypto" where
  "demo_module =
     \<lparr>hkdf_sha512_extract = (\<lambda>a b. Some (take 64 (b @ a @ zeros 64))),
      hkdf_sha512_expand = (\<lambda>n a b. Some (take n (a @ b @ zeros n))),
      x25519_dh = (\<lambda>a p. Some (map2 xor (demo_pub a) p)),
      x25519_keypair = (\<lambda>r. (Some (demo_pub (replicate 32 (of_nat r)), replicate 32 (of_nat r)), Suc r))\<rparr>"

lemma xor_lists_commute: "map2 xor xs ys = map2 xor ys (xs :: bytes)"
  by (induction xs ys rule: list_induct2') (simp_all add: xor.commute)

lemma demo_contract: "module_contract demo_module demo_pub"
  unfolding module_contract_def demo_module_def
  by (auto simp: demo_pub_def zeros_def intro: xor_lists_commute)

lemma demo_total: "hkdf_total demo_module"
  by (rule contract_hkdf_total [OF demo_contract])

definition demo_edge :: "ratchet_state \<times> ratchet_state" where
  "demo_edge = (case bootstrap (zeros 32) demo_module ''x25519-v1'' 0 of
     (Inr e, _) \<Rightarrow> e | (Inl _, _) \<Rightarrow> undefined)"

lemma demo_bootstrap: "\<exists>r. bootstrap (zeros 32) demo_module ''x25519-v1'' 0 = (Inr (fst demo_edge, snd demo_edge), r)"
  using bootstrap_ok [OF demo_contract, of "zeros 32" "''x25519-v1''" 0] by (auto simp: demo_edge_def)

lemma demo_fresh: "dhRemotePub (fst demo_edge) \<noteq> Some (dhSelfPub (snd demo_edge))"
  by code_simp

definition demo_receiver :: ratchet_state where
  "demo_receiver = \<lparr>rootSuite = ''x25519-v1'', rootKey = zeros 32, sendingChainKey = None,
     receivingChainKey = Some (zeros 32), dhSelfPub = zeros 32, dhSelfSec = zeros 32,
     dhRemotePub = Some (zeros 32), sNs = 0, sNr = 0, sPN = 0, skipped = []\<rparr>"

lemma initiator_edge_any_order:
  assumes c: "module_contract m pub_of"
    and boot: "bootstrap seed m suite r0 = (Inr (I, R), r)"
    and k: "k \<le> 512" and d: "distinct is" and lt: "\<forall>i \<in> set is. i < k"
  shows "\<exists>keys headers R'. length keys = k \<and> length headers = k \<and>
    fst (encrypt_all k I m) = map Inr (zip keys headers) \<and>
    decrypt_all R (map ((!) headers) is) m rng = (map (\<lambda>i. Inr (keys ! i)) is, R', rng)"
proof -
  obtain ski skr where I: "sendingChainKey I = Some (chain_key m (snd (rk_step m seed ski (pub_of skr))) 0)"
      "sNs I = int 0" "sPN I = 0" "dhSelfPub I = pub_of ski"
    and R: "dhRemotePub R = Some (pub_of ski)" "sNr R = 0"
      "receivingChainKey R = Some (snd (rk_step m seed ski (pub_of skr)))" "skipped R = []"
    using bootstrap_ok [OF c, of seed suite r0] boot by auto
  let ?ck = "snd (rk_step m seed ski (pub_of skr))"
  let ?keys = "map (message_key m ?ck) [0..<k]"
  let ?hs = "map (\<lambda>i. \<lparr>dhPub = pub_of ski, N = int i, PN = 0\<rparr>) [0..<k]"
  have tot: "hkdf_total m" by (rule contract_hkdf_total [OF c])
  have sent: "fst (encrypt_all k I m) = map Inr (zip ?keys ?hs)"
    using encrypt_all_chain [OF tot I(1,2), of k] I(3,4) by (simp add: list_eq_iff_nth_eq)
  have "in_sync m (pub_of ski) ?ck {} R" using R by (rule in_sync_fresh)
  then obtain R' where "decrypt_all R (map (\<lambda>i. \<lparr>dhPub = pub_of ski, N = int i, PN = 0\<rparr>) is) m rng =
      (map (\<lambda>i. Inr (message_key m ?ck i)) is, R', rng)"
    using decrypt_all_chain [OF tot, of 0 "is" k "pub_of ski" ?ck "{}" R 0 rng] R k d lt
    by (auto simp: MAX_SKIP_SESSION_def)
  moreover have "map ((!) ?hs) is = map (\<lambda>i. \<lparr>dhPub = pub_of ski, N = int i, PN = 0\<rparr>) is"
    "map (\<lambda>i. Inr (?keys ! i)) is = (map (\<lambda>i. Inr (message_key m ?ck i)) is :: (ratchet_error + bytes) list)"
    using lt by simp_all
  ultimately have "decrypt_all R (map ((!) ?hs) is) m rng = (map (\<lambda>i. Inr (?keys ! i)) is, R', rng)"
    by (simp only:)
  then show ?thesis
    by (intro exI [of _ ?keys] exI [of _ ?hs] exI [of _ R'] conjI sent) simp_all
qed

section \<open>Properties\<close>

text \<open>C1: on a bootstrapped edge, whatever order the first (at most 512) messages of the initiator
  arrive in, and with any subset lost, the responder derives for each delivered header exactly the
  key the initiator sealed that message with. The module's functions are parameters, used through
  their documented contract.\<close>

theorem initiator_messages_any_order:
  assumes c: "module_contract m pub_of"
    and boot: "bootstrap seed m suite r0 = (Inr (I, R), r)"
    and k: "k \<le> 512" and d: "distinct is" and lt: "\<forall>i \<in> set is. i < k"
  shows "\<exists>keys headers R'. length keys = k \<and> length headers = k \<and>
    fst (encrypt_all k I m) = map Inr (zip keys headers) \<and>
    decrypt_all R (map ((!) headers) is) m rng = (map (\<lambda>i. Inr (keys ! i)) is, R', rng)"
  by (rule initiator_edge_any_order [OF c boot k d lt])

theorem initiator_messages_any_order_witness:
  "\<exists>keys headers R'. length keys = 4 \<and> length headers = 4 \<and>
     fst (encrypt_all 4 (fst demo_edge) demo_module) = map Inr (zip keys headers) \<and>
     decrypt_all (snd demo_edge) (map ((!) headers) [3, 0, 2]) demo_module 9 =
       ([Inr (keys ! 3), Inr (keys ! 0), Inr (keys ! 2)], R', 9)"
proof -
  obtain r where boot: "bootstrap (zeros 32) demo_module ''x25519-v1'' 0 = (Inr (fst demo_edge, snd demo_edge), r)"
    using demo_bootstrap by blast
  show ?thesis
    using initiator_messages_any_order [OF demo_contract boot, of 4 "[3, 0, 2]" 9] by simp
qed





text \<open>C4: in every state an edge can reach, under any sequence of sends, receives of arbitrary
  headers (failed ones included), priming, adoption and cloning, a snapshot restores the state
  exactly, the skipped-key store holds at most 2000 keys and the counters are not negative.\<close>

theorem reachable_ratchet_bounded_and_restorable:
  assumes "ratchet_reach m s" "hkdf_total m"
  shows "deserializeRatchet (serializeRatchet s) = s \<and> length (skipped s) \<le> MAX_SKIP_SESSION \<and>
    0 \<le> sNr s \<and> 0 \<le> sNs s \<and> 0 \<le> sPN s"
proof -
  have "live_inv s" by (rule ratchet_reach_inv [OF assms])
  then show ?thesis
    using clone_eq [of s] by (simp add: live_inv_def cloneRatchet_def)
qed

theorem reachable_ratchet_bounded_and_restorable_witness:
  "\<exists>s rng. initRatchet (zeros 32) False None demo_module ''x25519-v1'' 5 = (Inr s, rng) \<and>
     deserializeRatchet (serializeRatchet s) = s \<and> length (skipped s) \<le> MAX_SKIP_SESSION"
proof -
  let ?i = "initRatchet (zeros 32) False None demo_module ''x25519-v1'' 5"
  obtain s rng where i: "?i = (Inr s, rng)"
    by (simp add: initRatchet_def x25519Keypair_def demo_module_def)
  show ?thesis
    using i reachable_ratchet_bounded_and_restorable [OF ratchet_reach.init [OF i] demo_total] by blast
qed

text \<open>C5: a header of the current chain more than 512 messages ahead is refused before any key is
  derived, and the state is unchanged.\<close>

theorem skip_limit_refused:
  assumes "dhRemotePub s = Some (dhPub h)" "0 \<le> sNr s" "0 \<le> PN h" "sNr s + MAX_SKIP < N h"
    and "map_of (skipped s) (skip_key (dhPub h) (N h)) = None"
  shows "ratchetDecrypt s h m rng = (Inl MaxSkipExceeded, s, rng)"
  using assms
  by (simp add: ratchetDecrypt_def trySkipped_def decrypt_in_chain_def skipMessageKeys_def
      bytesEqual_iff MAX_SKIP_def)

theorem skip_limit_refused_witness:
  "ratchetDecrypt demo_receiver \<lparr>dhPub = zeros 32, N = 513, PN = 0\<rparr> demo_module 0 =
     (Inl MaxSkipExceeded, demo_receiver, 0)"
  by (rule skip_limit_refused) (simp_all add: demo_receiver_def MAX_SKIP_def)

end
