(* ===== verification/Cover_Scheduler.thy ===== *)
theory Cover_Scheduler
  imports Room_Policy
begin

text \<open>
  The cover traffic scheduler of \<^verbatim>\<open>src/src/handlers/coverScheduler.ts\<close>, one definition per method.

  Objects the source mutates through aliases are references: a job runtime is its sequence number
  in \<open>heap\<close>, the mutable \<open>job\<close> field of a lane is \<open>lane_job\<close> at the lane's identity (the number of
  its cycle and its index), and a cycle carries its number \<open>cy_id\<close>, so that \<^verbatim>\<open>this.cycle !== cycle\<close>
  is a comparison of numbers. Clock readings are whole milliseconds; one reading serves a
  synchronous run. What the surroundings decide (the clock, whether a lane opens or closes, what a
  producer or a transport answers) is an argument: the record \<open>cover_env\<close> and the outcome types.

  The asynchronous \<^verbatim>\<open>sendSlot\<close> is split at its awaits: what it waits for is an entry of \<open>pending\<close>, to be
  resumed at any later moment, in any order. Everything the scheduler tells the outside (status
  changes, job results, interruptions, lanes opened and closed, cells sent) is appended to \<open>trace\<close>.
  The one re-entrant use the program makes of a notification is modelled: the observer of a job's
  result may enqueue jobs (\<open>on_result\<close>); observers do nothing else to the scheduler.
\<close>

section \<open>Data\<close>

datatype cover_status = Starting | Active | Degraded | Suspended | Stopped
datatype cover_job_kind = RealJob | ControlJob
datatype cover_cell_source = JobCell cover_job_kind | CancelCell | DummyCell
datatype cover_job_outcome = Completed | CancelledBeforeAdmission | Cancelled | Failed
datatype cover_cancel_result = NotFound | WasCancelledBeforeAdmission | CancelPending
datatype cover_job_state = JQueued | JAdmitted | JTerminal

record cover_schedule =
  phaseOffsetMs :: int
  cs_coverCadenceMs :: int
  cs_coverLanes :: int
  cs_coverFramesPerCell :: int
  cs_coverDurationEpochs :: int

record cover_slot =
  deadlineMs :: int
  sl_cycleIndex :: int
  sl_cycleStartMs :: int
  sl_cycleEndMs :: int
  epochIndex :: int
  epochInCycle :: int
  sl_laneIndex :: int
  frameIndex :: int
  laneSlotIndex :: int

record cover_job_slot = cover_slot +
  js_jobId :: string
  js_jobKind :: cover_job_kind
  js_jobCellIndex :: int

record cover_job =
  cj_id :: string
  cj_kind :: cover_job_kind
  declaredCellCount :: int
  cj_priority :: "int option"
  has_cancelCell :: bool

record cover_job_summary =
  su_id :: string
  su_kind :: cover_job_kind
  su_declaredCellCount :: int

record cover_lane_open_context =
  lc_cycleIndex :: int
  lc_cycleStartMs :: int
  lc_cycleEndMs :: int
  lc_laneIndex :: int
  lc_job :: "cover_job_summary option"

record cover_send_request =
  rq_cell :: bytes
  rq_source :: cover_cell_source
  rq_slot :: cover_slot
  rq_jobId :: "string option"
  rq_jobCellIndex :: "int option"

record job_runtime =
  job :: cover_job
  jr_sequence :: nat
  jr_state :: cover_job_state
  everAdmitted :: bool
  sentCells :: int
  cancelRequested :: bool
  cancelSent :: bool
  completed :: bool
  settled :: bool
  pendingCell :: "bytes option"
  pendingCancelCell :: "bytes option"

type_synonym job_ref = nat
datatype lane_id = LaneId nat int

record lane_runtime =
  laneIndex :: int
  openContext :: cover_lane_open_context
  lane_ref :: lane_id

record cycle_runtime =
  cy_index :: int
  startMs :: int
  endMs :: int
  lanes :: "lane_runtime list"
  nextSlotOrdinal :: int
  cy_id :: nat

datatype timer_kind = OpenBoundary | CycleBoundary | SlotTimer cover_slot

record armed_timer =
  t_deadlineMs :: int
  t_kind :: timer_kind
  t_generation :: nat
  t_delayMs :: int

datatype cover_output =
    StatusChange cover_status cover_status "string option"
  | JobResult job_ref string cover_job_outcome "string option"
  | JobInterrupted job_ref string string
  | LaneOpened cover_lane_open_context
  | LaneClosed cover_lane_open_context string
  | CellSent int lane_id cover_send_request

text \<open>What a suspended \<^verbatim>\<open>sendSlot\<close> has in its closure, and what it waits for.\<close>

record slot_flight =
  f_slot :: cover_slot
  f_generation :: nat
  f_cycle :: nat
  f_lane :: lane_runtime

datatype slot_await =
    AwaitCancelCell job_ref cover_job_slot
  | AwaitNextCell job_ref cover_job_slot
  | AwaitDummy "job_ref option"
  | AwaitRequest cover_send_request
  | AwaitSend cover_send_request

datatype cell_answer = Produced bytes | ProducedNull | ProducerThrew
datatype send_answer = SendAccepted | SendRefused | SendThrew

record scheduler =
  status :: cover_status
  running :: bool
  sequence :: nat
  generation :: nat
  timer :: "armed_timer option"
  cycle :: "cycle_runtime option"
  queued :: "job_ref list"
  jobs :: "(string \<times> job_ref) list"
  heap :: "job_ref \<Rightarrow> job_runtime"
  lane_job :: "lane_id \<Rightarrow> job_ref option"
  cycles_made :: nat
  pending :: "(slot_flight \<times> slot_await) list"
  trace :: "cover_output list"

record cover_config =
  schedule :: cover_schedule
  maxTimerDriftMs :: int

record cover_env =
  now :: int
  opens :: "int \<Rightarrow> bool"
  closes :: "int \<Rightarrow> bool"
  on_result :: "string \<Rightarrow> cover_job list"

datatype cover_error =
    NotSafeInteger string
  | CadenceNotPositive
  | LanesOutOfRange
  | FramesNotPositive
  | DurationNotPositive
  | GeometryOutOfRange
  | SlotTooShort
  | DriftOutOfRange
  | EmptyJobId
  | DuplicateJobId
  | CapacityExceeded
  | NoCancelCell
  | BoundaryOutOfRange
  | CycleEndOutOfRange

section \<open>Schedule geometry\<close>

definition SCHED_MAX_COVER_LANES :: int where [const_defs]: "SCHED_MAX_COVER_LANES = 16"
definition SCHED_MIN_COVER_SLOT_MS :: int where [const_defs]: "SCHED_MIN_COVER_SLOT_MS = 25"
definition MAX_TIMER_DELAY_MS :: int where [const_defs]: "MAX_TIMER_DELAY_MS = 0x7fffffff"

definition assertSafeInteger :: "string \<Rightarrow> int \<Rightarrow> cover_error + unit" where
  "assertSafeInteger name value = ensure (is_safe_integer value) (NotSafeInteger name)"

definition cycleDurationMs :: "cover_schedule \<Rightarrow> int" where
  "cycleDurationMs s = cs_coverCadenceMs s * cs_coverDurationEpochs s"
definition slotsPerEpoch :: "cover_schedule \<Rightarrow> int" where
  "slotsPerEpoch s = cs_coverLanes s * cs_coverFramesPerCell s"
definition slotsPerLane :: "cover_schedule \<Rightarrow> int" where
  "slotsPerLane s = cs_coverFramesPerCell s * cs_coverDurationEpochs s"

text \<open>
  \<^verbatim>\<open>coverSlotSpacingMs\<close> is the quotient of two positive safe integers; both places that use it
  compare it with an integer, and \<open>q < n\<close> for the quotient is \<open>cadence < n * slots\<close>.
\<close>

definition spacing_less :: "cover_schedule \<Rightarrow> int \<Rightarrow> bool" where
  "spacing_less s n \<longleftrightarrow> cs_coverCadenceMs s < n * (cs_coverLanes s * cs_coverFramesPerCell s)"

definition validateCoverSchedule :: "cover_schedule \<Rightarrow> cover_error + unit" where
  "validateCoverSchedule s =
     rbind (assertSafeInteger ''phase offset'' (phaseOffsetMs s)) (\<lambda>_.
     rbind (assertSafeInteger ''cover cadence'' (cs_coverCadenceMs s)) (\<lambda>_.
     rbind (assertSafeInteger ''cover lanes'' (cs_coverLanes s)) (\<lambda>_.
     rbind (assertSafeInteger ''cover frames per cell'' (cs_coverFramesPerCell s)) (\<lambda>_.
     rbind (assertSafeInteger ''cover duration epochs'' (cs_coverDurationEpochs s)) (\<lambda>_.
     rbind (ensure (\<not> cs_coverCadenceMs s < 1) CadenceNotPositive) (\<lambda>_.
     rbind (ensure (\<not> (cs_coverLanes s < 1 \<or> cs_coverLanes s > SCHED_MAX_COVER_LANES)) LanesOutOfRange) (\<lambda>_.
     rbind (ensure (\<not> cs_coverFramesPerCell s < 1) FramesNotPositive) (\<lambda>_.
     rbind (ensure (\<not> cs_coverDurationEpochs s < 1) DurationNotPositive) (\<lambda>_.
     rbind (ensure (is_safe_integer (slotsPerEpoch s) \<and> is_safe_integer (slotsPerLane s) \<and>
                    is_safe_integer (cycleDurationMs s)) GeometryOutOfRange) (\<lambda>_.
     ensure (\<not> spacing_less s SCHED_MIN_COVER_SLOT_MS) SlotTooShort))))))))))"

text \<open>The heap cell of a sequence number not yet given out; no operation reads it.\<close>

definition no_runtime :: job_runtime where
  "no_runtime =
     \<lparr>job = \<lparr>cj_id = [], cj_kind = RealJob, declaredCellCount = 0, cj_priority = None, has_cancelCell = False\<rparr>,
      jr_sequence = 0, jr_state = JTerminal, everAdmitted = False, sentCells = 0, cancelRequested = False,
      cancelSent = False, completed = False, settled = True, pendingCell = None, pendingCancelCell = None\<rparr>"

definition initial_scheduler :: scheduler where
  "initial_scheduler =
     \<lparr>status = Stopped, running = False, sequence = 0, generation = 0, timer = None, cycle = None,
      queued = [], jobs = [], heap = (\<lambda>_. no_runtime), lane_job = (\<lambda>_. None), cycles_made = 0,
      pending = [], trace = []\<rparr>"

definition createCoverScheduler :: "cover_schedule \<Rightarrow> int option \<Rightarrow> cover_error + cover_config \<times> scheduler" where
  "createCoverScheduler sched drift =
     rbind (validateCoverSchedule sched) (\<lambda>_.
     let maxDrift = (case drift of None \<Rightarrow> 0 | Some d \<Rightarrow> d)
     in rbind (ensure (\<not> (maxDrift < 0 \<or> maxDrift * slotsPerEpoch sched \<ge> cs_coverCadenceMs sched)) DriftOutOfRange) (\<lambda>_.
     Inr (\<lparr>schedule = sched, maxTimerDriftMs = maxDrift\<rparr>, initial_scheduler)))"

definition slotAt :: "cover_schedule \<Rightarrow> cycle_runtime \<Rightarrow> int \<Rightarrow> cover_slot" where
  "slotAt s cyc ordinal =
     (let epoch = ordinal div slotsPerEpoch s;
          withinEpoch = ordinal mod slotsPerEpoch s;
          frame = withinEpoch div cs_coverLanes s;
          lane = withinEpoch mod cs_coverLanes s;
          epochStartMs = startMs cyc + epoch * cs_coverCadenceMs s;
          numerator = (2 * withinEpoch + 1) * cs_coverCadenceMs s
      in \<lparr>deadlineMs = epochStartMs + numerator div (2 * slotsPerEpoch s),
          sl_cycleIndex = cy_index cyc, sl_cycleStartMs = startMs cyc, sl_cycleEndMs = endMs cyc,
          epochIndex = cy_index cyc * cs_coverDurationEpochs s + epoch,
          epochInCycle = epoch, sl_laneIndex = lane, frameIndex = frame,
          laneSlotIndex = epoch * cs_coverFramesPerCell s + frame\<rparr>)"

definition nextCycleBoundary :: "cover_schedule \<Rightarrow> int \<Rightarrow> bool \<Rightarrow> cover_error + int" where
  "nextCycleBoundary s nowMs inclusive =
     (let cycleIndex = ceil_div (nowMs - phaseOffsetMs s) (cycleDurationMs s);
          boundary = phaseOffsetMs s + cycleIndex * cycleDurationMs s;
          boundary = (if \<not> inclusive \<and> boundary \<le> nowMs
                      then phaseOffsetMs s + (cycleIndex + 1) * cycleDurationMs s else boundary)
      in if \<not> is_safe_integer boundary then Inl BoundaryOutOfRange else Inr boundary)"

text \<open>\<^verbatim>\<open>Math.round\<close> of a quotient: the floor of the quotient plus one half.\<close>

definition cycleIndexAtBoundary :: "cover_schedule \<Rightarrow> int \<Rightarrow> cover_error + int" where
  "cycleIndexAtBoundary s boundaryMs =
     (let d = cycleDurationMs s;
          cycleIndex = (2 * (boundaryMs - phaseOffsetMs s) + d) div (2 * d)
      in rbind (assertSafeInteger ''cycle index'' cycleIndex) (\<lambda>_. Inr cycleIndex))"

section \<open>The queue\<close>

definition jobTier :: "job_runtime \<Rightarrow> int" where
  "jobTier rt = (if cancelRequested rt then 0 else if cj_kind (job rt) = ControlJob then 1 else 2)"

definition priority_of :: "job_runtime \<Rightarrow> int" where
  "priority_of rt = (case cj_priority (job rt) of None \<Rightarrow> 0 | Some p \<Rightarrow> p)"

definition compareQueuedJobs :: "job_runtime \<Rightarrow> job_runtime \<Rightarrow> int" where
  "compareQueuedJobs left right =
     (let tierDifference = jobTier left - jobTier right
      in if tierDifference \<noteq> 0 then tierDifference
         else let priorityDifference = priority_of right - priority_of left
              in if priorityDifference \<noteq> 0 then priorityDifference
                 else int (jr_sequence left) - int (jr_sequence right))"

definition jobSummary :: "job_runtime \<Rightarrow> cover_job_summary" where
  "jobSummary rt = \<lparr>su_id = cj_id (job rt), su_kind = cj_kind (job rt),
                    su_declaredCellCount = declaredCellCount (job rt)\<rparr>"

definition upd_job :: "job_ref \<Rightarrow> (job_runtime \<Rightarrow> job_runtime) \<Rightarrow> scheduler \<Rightarrow> scheduler" where
  "upd_job r f s = s\<lparr>heap := (heap s)(r := f (heap s r))\<rparr>"

definition notify :: "cover_output \<Rightarrow> scheduler \<Rightarrow> scheduler" where
  "notify out s = s\<lparr>trace := trace s @ [out]\<rparr>"

definition sortQueue :: "scheduler \<Rightarrow> scheduler" where
  "sortQueue s = s\<lparr>queued := sort_cmp (\<lambda>a b. compareQueuedJobs (heap s a) (heap s b)) (queued s)\<rparr>"

definition getQueuedJobIds :: "scheduler \<Rightarrow> string list" where
  "getQueuedJobIds s =
     map (\<lambda>r. cj_id (job (heap s r))) (sort_cmp (\<lambda>a b. compareQueuedJobs (heap s a) (heap s b)) (queued s))"

definition removeQueued :: "job_ref \<Rightarrow> scheduler \<Rightarrow> scheduler" where
  "removeQueued r s =
     (case find_index (\<lambda>x. x = r) (queued s) of
        None \<Rightarrow> s | Some i \<Rightarrow> s\<lparr>queued := remove_nth i (queued s)\<rparr>)"

definition dequeue :: "scheduler \<Rightarrow> job_ref option \<times> scheduler" where
  "dequeue s =
     (let s = sortQueue s
      in case queued s of [] \<Rightarrow> (None, s) | r # rest \<Rightarrow> (Some r, s\<lparr>queued := rest\<rparr>))"

definition requeue :: "job_ref \<Rightarrow> string \<Rightarrow> scheduler \<Rightarrow> scheduler" where
  "requeue r reason s =
     (if settled (heap s r) \<or> completed (heap s r) \<or> cancelSent (heap s r) then s
      else let s = upd_job r (jr_state_update (\<lambda>_. JQueued)) s;
               s = (if r \<in> set (queued s) then s else s\<lparr>queued := queued s @ [r]\<rparr>)
           in notify (JobInterrupted r (cj_id (job (heap s r))) reason) (sortQueue s))"

definition enqueue :: "cover_config \<Rightarrow> cover_job \<Rightarrow> scheduler \<Rightarrow> (cover_error + unit) \<times> scheduler" where
  "enqueue k jb s =
     (if length (cj_id jb) = 0 then (Inl EmptyJobId, s)
      else if map_of (jobs s) (cj_id jb) \<noteq> None then (Inl DuplicateJobId, s)
      else if \<not> is_safe_integer (declaredCellCount jb) then (Inl (NotSafeInteger ''declared cell count''), s)
      else if declaredCellCount jb < 1 \<or> declaredCellCount jb > slotsPerLane (schedule k)
      then (Inl CapacityExceeded, s)
      else if (case cj_priority jb of None \<Rightarrow> False | Some p \<Rightarrow> \<not> is_safe_integer p)
      then (Inl (NotSafeInteger ''job priority''), s)
      else let r = sequence s;
               rt = \<lparr>job = jb, jr_sequence = r, jr_state = JQueued, everAdmitted = False, sentCells = 0,
                     cancelRequested = False, cancelSent = False, completed = False, settled = False,
                     pendingCell = None, pendingCancelCell = None\<rparr>
           in (Inr (), sortQueue (s\<lparr>sequence := r + 1, heap := (heap s)(r := rt),
                         jobs := AList.update (cj_id jb) r (jobs s), queued := queued s @ [r]\<rparr>)))"

text \<open>A settled job is reported once; the observer may enqueue further jobs from inside the notification.\<close>

definition settle ::
    "cover_config \<Rightarrow> cover_env \<Rightarrow> job_ref \<Rightarrow> string \<Rightarrow> cover_job_outcome \<Rightarrow> string option \<Rightarrow>
     scheduler \<Rightarrow> scheduler" where
  "settle k env r jobId outcome reason s =
     (if settled (heap s r) then s
      else let s = upd_job r (settled_update (\<lambda>_. True) \<circ> jr_state_update (\<lambda>_. JTerminal)) s;
               s = removeQueued r s;
               i = cj_id (job (heap s r));
               s = (if map_of (jobs s) i = Some r then s\<lparr>jobs := AList.delete i (jobs s)\<rparr> else s)
           in fold (\<lambda>jb s. snd (enqueue k jb s)) (on_result env jobId)
                (notify (JobResult r jobId outcome reason) s))"

definition setStatus :: "cover_status \<Rightarrow> string option \<Rightarrow> scheduler \<Rightarrow> scheduler" where
  "setStatus st reason s =
     (if status s = st then s
      else notify (StatusChange (status s) st reason) (s\<lparr>status := st\<rparr>))"

section \<open>Timers\<close>

definition disarm :: "scheduler \<Rightarrow> scheduler" where
  "disarm s = s\<lparr>generation := generation s + 1, timer := None\<rparr>"

definition armRemaining :: "int \<Rightarrow> timer_kind \<Rightarrow> cover_env \<Rightarrow> scheduler \<Rightarrow> scheduler" where
  "armRemaining deadline kind env s =
     s\<lparr>timer := Some \<lparr>t_deadlineMs = deadline, t_kind = kind, t_generation = generation s,
                      t_delayMs = min MAX_TIMER_DELAY_MS (max 0 (deadline - now env))\<rparr>\<rparr>"

definition arm :: "int \<Rightarrow> timer_kind \<Rightarrow> cover_env \<Rightarrow> scheduler \<Rightarrow> scheduler" where
  "arm deadline kind env s = armRemaining deadline kind env (disarm s)"

definition armOpenBoundary :: "int \<Rightarrow> cover_env \<Rightarrow> scheduler \<Rightarrow> scheduler" where
  "armOpenBoundary deadline env s = arm deadline OpenBoundary env s"

definition armCycleBoundary :: "int \<Rightarrow> cover_env \<Rightarrow> scheduler \<Rightarrow> scheduler" where
  "armCycleBoundary deadline env s = arm deadline CycleBoundary env s"

definition armSlot :: "cover_config \<Rightarrow> cycle_runtime \<Rightarrow> cover_env \<Rightarrow> scheduler \<Rightarrow> scheduler" where
  "armSlot k cyc env s =
     (let slot = slotAt (schedule k) cyc (nextSlotOrdinal cyc)
      in arm (deadlineMs slot) (SlotTimer slot) env s)"

section \<open>The jobs of a cycle\<close>

definition detach :: "lane_runtime \<Rightarrow> scheduler \<Rightarrow> scheduler" where
  "detach lane s = s\<lparr>lane_job := (lane_job s)(lane_ref lane := None)\<rparr>"

definition interrupt_lane :: "string \<Rightarrow> lane_runtime \<Rightarrow> scheduler \<Rightarrow> scheduler" where
  "interrupt_lane reason lane s =
     (let s' = detach lane s
      in case lane_job s (lane_ref lane) of None \<Rightarrow> s' | Some r \<Rightarrow> requeue r reason s')"

definition interruptCycle :: "string \<Rightarrow> scheduler \<Rightarrow> scheduler" where
  "interruptCycle reason s =
     (case cycle s of None \<Rightarrow> s | Some cyc \<Rightarrow> fold (interrupt_lane reason) (lanes cyc) s)"

definition finalize_lane :: "cover_config \<Rightarrow> cover_env \<Rightarrow> lane_runtime \<Rightarrow> scheduler \<Rightarrow> scheduler" where
  "finalize_lane k env lane s =
     (let s' = detach lane s
      in case lane_job s (lane_ref lane) of
           None \<Rightarrow> s'
         | Some r \<Rightarrow>
             if settled (heap s' r) then s'
             else if cancelRequested (heap s' r) \<and> \<not> cancelSent (heap s' r)
             then requeue r ''missed-deadline'' s'
             else settle k env r (cj_id (job (heap s' r))) Failed (Some ''capacity-exhausted'') s')"

definition finalizeCycleJobs :: "cover_config \<Rightarrow> cover_env \<Rightarrow> scheduler \<Rightarrow> scheduler" where
  "finalizeCycleJobs k env s =
     (case cycle s of None \<Rightarrow> s | Some cyc \<Rightarrow> fold (finalize_lane k env) (lanes cyc) s)"

definition closeCurrentCycle :: "string \<Rightarrow> cover_env \<Rightarrow> scheduler \<Rightarrow> bool \<times> scheduler" where
  "closeCurrentCycle reason env s =
     (case cycle s of
        None \<Rightarrow> (True, s)
      | Some cyc \<Rightarrow>
          (let ordered = sort_cmp (\<lambda>a b. laneIndex a - laneIndex b) (lanes cyc)
           in (list_all (\<lambda>lane. closes env (laneIndex lane)) ordered,
               (fold (\<lambda>lane. notify (LaneClosed (openContext lane) reason)) ordered s)\<lparr>cycle := None\<rparr>)))"

section \<open>Requests made by the owner\<close>

definition cancel :: "cover_config \<Rightarrow> cover_env \<Rightarrow> string \<Rightarrow> scheduler \<Rightarrow> (cover_error + cover_cancel_result) \<times> scheduler" where
  "cancel k env jobId s =
     (case map_of (jobs s) jobId of
        None \<Rightarrow> (Inr NotFound, s)
      | Some r \<Rightarrow>
          if settled (heap s r) then (Inr NotFound, s)
          else if \<not> everAdmitted (heap s r) then
            (Inr WasCancelledBeforeAdmission, settle k env r jobId CancelledBeforeAdmission None (removeQueued r s))
          else if \<not> has_cancelCell (job (heap s r)) then (Inl NoCancelCell, s)
          else (Inr CancelPending,
                sortQueue (upd_job r (cancelRequested_update (\<lambda>_. True) \<circ> completed_update (\<lambda>_. False)) s)))"

definition complete :: "cover_config \<Rightarrow> cover_env \<Rightarrow> string \<Rightarrow> scheduler \<Rightarrow> bool \<times> scheduler" where
  "complete k env jobId s =
     (case map_of (jobs s) jobId of
        None \<Rightarrow> (False, s)
      | Some r \<Rightarrow>
          if settled (heap s r) then (False, s)
          else (True, settle k env r jobId Completed None
                  (upd_job r (completed_update (\<lambda>_. True) \<circ> pendingCell_update (\<lambda>_. None)) (removeQueued r s))))"

definition start :: "cover_config \<Rightarrow> cover_env \<Rightarrow> scheduler \<Rightarrow> (cover_error + bool) \<times> scheduler" where
  "start k env s =
     (if status s \<noteq> Stopped then (Inr False, s)
      else let s = setStatus Starting None (s\<lparr>running := True\<rparr>)
           in case cycle s of
                Some cyc \<Rightarrow> (Inr True, armCycleBoundary (endMs cyc) env s)
              | None \<Rightarrow>
                  (case nextCycleBoundary (schedule k) (now env) True of
                     Inl e \<Rightarrow> (Inl e, s)
                   | Inr b \<Rightarrow> (Inr True, armOpenBoundary b env s)))"

text \<open>The tail shared by \<^verbatim>\<open>suspend\<close>, \<^verbatim>\<open>stop\<close> and \<^verbatim>\<open>degrade\<close>: an open cycle is closed at its boundary, or
  at once if that has passed.\<close>

definition close_at_boundary :: "cover_env \<Rightarrow> scheduler \<Rightarrow> scheduler" where
  "close_at_boundary env s =
     (case cycle s of
        None \<Rightarrow> s
      | Some cyc \<Rightarrow> if now env \<le> endMs cyc then armCycleBoundary (endMs cyc) env s
                    else snd (closeCurrentCycle ''late-cleanup'' env s))"

definition suspend :: "string \<Rightarrow> cover_env \<Rightarrow> scheduler \<Rightarrow> bool \<times> scheduler" where
  "suspend reason env s =
     (if status s = Stopped \<or> status s = Suspended then (False, s)
      else (True, close_at_boundary env
             (interruptCycle ''suspended'' (setStatus Suspended (Some reason) (disarm s)))))"

definition resume :: "cover_config \<Rightarrow> cover_env \<Rightarrow> scheduler \<Rightarrow> (cover_error + bool) \<times> scheduler" where
  "resume k env s =
     (if status s \<noteq> Suspended then (Inr False, s)
      else let s = setStatus Starting None (disarm (s\<lparr>running := True\<rparr>));
               open_next = (\<lambda>s. case nextCycleBoundary (schedule k) (now env) False of
                                  Inl e \<Rightarrow> (Inl e, s)
                                | Inr b \<Rightarrow> (Inr True, armOpenBoundary b env s))
           in case cycle s of
                Some cyc \<Rightarrow> if now env < endMs cyc then (Inr True, armCycleBoundary (endMs cyc) env s)
                            else open_next (snd (closeCurrentCycle ''late-cleanup'' env s))
              | None \<Rightarrow> open_next s)"

definition stop :: "cover_config \<Rightarrow> cover_env \<Rightarrow> scheduler \<Rightarrow> bool \<times> scheduler" where
  "stop k env s =
     (if status s = Stopped \<and> cycle s = None then (False, s)
      else let s = setStatus Stopped None (disarm (s\<lparr>running := False\<rparr>));
               s = fold (\<lambda>r s. settle k env r (cj_id (job (heap s r))) Failed (Some ''stopped'') (removeQueued r s))
                     (map snd (jobs s)) s;
               s = (case cycle s of None \<Rightarrow> s | Some cyc \<Rightarrow> fold detach (lanes cyc) s)
           in (True, close_at_boundary env s))"

section \<open>Degrading and late timers\<close>

definition degrade :: "cover_config \<Rightarrow> string \<Rightarrow> cover_env \<Rightarrow> scheduler \<Rightarrow> (cover_error + unit) \<times> scheduler" where
  "degrade k reason env s =
     (if status s = Stopped \<or> status s = Suspended then (Inr (), s)
      else let s = interruptCycle reason (setStatus Degraded (Some reason) (disarm s));
               s' = close_at_boundary env s
           in if cycle s' \<noteq> None \<or> \<not> running s' then (Inr (), s')
              else case nextCycleBoundary (schedule k) (now env) False of
                     Inl e \<Rightarrow> (Inl e, s') | Inr b \<Rightarrow> (Inr (), armOpenBoundary b env s'))"

definition handleLateTimer ::
    "cover_config \<Rightarrow> timer_kind \<Rightarrow> cover_env \<Rightarrow> scheduler \<Rightarrow> (cover_error + unit) \<times> scheduler" where
  "handleLateTimer k kind env s =
     (case kind of
        SlotTimer _ \<Rightarrow> degrade k ''missed-deadline'' env s
      | _ \<Rightarrow>
          (let s = (if cycle s = None then s
                    else snd (closeCurrentCycle ''late-cleanup'' env (interruptCycle ''suspended'' s)))
           in (Inr (), if status s \<noteq> Stopped then setStatus Suspended (Some ''timer-drift'') s else s)))"

section \<open>Opening a cycle\<close>

fun dequeue_many :: "nat \<Rightarrow> scheduler \<Rightarrow> job_ref option list \<times> scheduler" where
  "dequeue_many 0 s = ([], s)"
| "dequeue_many (Suc n) s =
     (let (r, s1) = dequeue s; (rs, s2) = dequeue_many n s1 in (r # rs, s2))"

definition admit :: "job_ref option \<Rightarrow> scheduler \<Rightarrow> scheduler" where
  "admit r s = (case r of None \<Rightarrow> s
     | Some r \<Rightarrow> upd_job r (jr_state_update (\<lambda>_. JAdmitted) \<circ> everAdmitted_update (\<lambda>_. True)) s)"

definition lane_context :: "int \<Rightarrow> int \<Rightarrow> int \<Rightarrow> scheduler \<Rightarrow> int \<times> job_ref option \<Rightarrow> cover_lane_open_context" where
  "lane_context idx startAt endAt s lr =
     \<lparr>lc_cycleIndex = idx, lc_cycleStartMs = startAt, lc_cycleEndMs = endAt, lc_laneIndex = fst lr,
      lc_job = map_option (\<lambda>r. jobSummary (heap s r)) (snd lr)\<rparr>"

text \<open>One iteration of the loop that opens the lanes: the factory is called with the context; a lane
  it returns is recorded with its job.\<close>

definition open_lane ::
    "int \<Rightarrow> int \<Rightarrow> int \<Rightarrow> cover_env \<Rightarrow> int \<times> job_ref option \<Rightarrow> lane_runtime list \<times> bool \<times> scheduler \<Rightarrow>
     lane_runtime list \<times> bool \<times> scheduler" where
  "open_lane idx startAt endAt env lr acc =
     (case acc of (ls, openFailed, s) \<Rightarrow>
        if opens env (fst lr) then
          (let ctx = lane_context idx startAt endAt s lr;
               lane = \<lparr>laneIndex = fst lr, openContext = ctx, lane_ref = LaneId (cycles_made s) (fst lr)\<rparr>
           in (ls @ [lane], openFailed,
               notify (LaneOpened ctx) (s\<lparr>lane_job := (lane_job s)(lane_ref lane := snd lr)\<rparr>)))
        else (ls, True, s))"

definition openCycle ::
    "cover_config \<Rightarrow> int \<Rightarrow> nat \<Rightarrow> cover_env \<Rightarrow> scheduler \<Rightarrow> (cover_error + unit) \<times> scheduler" where
  "openCycle k boundaryMs gen env s =
     (if gen \<noteq> generation s \<or> \<not> running s \<or> status s = Stopped \<or> status s = Suspended then (Inr (), s)
      else case cycleIndexAtBoundary (schedule k) boundaryMs of
        Inl e \<Rightarrow> (Inl e, s)
      | Inr idx \<Rightarrow>
          (let cycleEndMs = boundaryMs + cycleDurationMs (schedule k)
           in if \<not> is_safe_integer cycleEndMs then (Inl CycleEndOutOfRange, s)
              else
                let (selected, s) = dequeue_many (nat (cs_coverLanes (schedule k))) s;
                    s = fold admit selected s;
                    (ls, openFailed, s) =
                      fold (open_lane idx boundaryMs cycleEndMs env)
                        (zip (map int [0..<nat (cs_coverLanes (schedule k))]) selected) ([], False, s);
                    cyc = \<lparr>cy_index = idx, startMs = boundaryMs, endMs = cycleEndMs, lanes = ls,
                           nextSlotOrdinal = 0, cy_id = cycles_made s\<rparr>;
                    s = s\<lparr>cycle := Some cyc, cycles_made := cycles_made s + 1\<rparr>
                in if openFailed then
                     (let s = setStatus Degraded (Some ''lane-open-failed'') s;
                          s = fold detach ls s;
                          s = fold (\<lambda>r s. case r of None \<Rightarrow> s | Some r \<Rightarrow> requeue r ''lane-open-failed'' s) selected s
                      in (Inr (), armCycleBoundary cycleEndMs env s))
                   else
                     let s = setStatus Active None s
                     in if gen \<noteq> generation s \<or> status s \<noteq> Active \<or> map_option cy_index (cycle s) \<noteq> Some idx
                        then (Inr (), s) else (Inr (), armSlot k cyc env s)))"

definition handleCycleBoundary ::
    "cover_config \<Rightarrow> int \<Rightarrow> cover_env \<Rightarrow> scheduler \<Rightarrow> (cover_error + unit) \<times> scheduler" where
  "handleCycleBoundary k boundaryMs env s =
     (case cycle s of
        None \<Rightarrow> (Inr (), s)
      | Some cyc \<Rightarrow>
          if endMs cyc \<noteq> boundaryMs then (Inr (), s)
          else case closeCurrentCycle ''boundary'' env (finalizeCycleJobs k env s) of
            (closedCleanly, s) \<Rightarrow>
              if \<not> closedCleanly then
                (let s = (if status s \<noteq> Stopped then setStatus Degraded (Some ''lane-close-failed'') s else s)
                 in if running s then
                      (case nextCycleBoundary (schedule k) (now env) False of
                         Inl e \<Rightarrow> (Inl e, s) | Inr b \<Rightarrow> (Inr (), armOpenBoundary b env s))
                    else (Inr (), s))
              else if \<not> running s \<or> status s = Stopped \<or> status s = Suspended then (Inr (), s)
              else case openCycle k boundaryMs (generation s) env s of
                (Inl _, s) \<Rightarrow> (Inr (), snd (suspend ''boundary-handler-failed'' env s))
              | (Inr _, s) \<Rightarrow> (Inr (), s))"

section \<open>Sending a slot\<close>

definition jobSlot :: "job_runtime \<Rightarrow> cover_slot \<Rightarrow> cover_job_slot" where
  "jobSlot rt slot =
     cover_slot.extend slot
       \<lparr>js_jobId = cj_id (job rt), js_jobKind = cj_kind (job rt), js_jobCellIndex = sentCells rt\<rparr>"

definition request_of :: "bytes \<Rightarrow> cover_cell_source \<Rightarrow> cover_slot \<Rightarrow> job_runtime \<Rightarrow> cover_send_request" where
  "request_of cell source slot rt =
     \<lparr>rq_cell = cell, rq_source = source, rq_slot = slot, rq_jobId = Some (cj_id (job rt)),
      rq_jobCellIndex = Some (sentCells rt)\<rparr>"

definition dummy_request :: "bytes \<Rightarrow> cover_slot \<Rightarrow> job_runtime option \<Rightarrow> cover_send_request" where
  "dummy_request cell slot rt =
     \<lparr>rq_cell = cell, rq_source = DummyCell, rq_slot = slot, rq_jobId = map_option (\<lambda>rt. cj_id (job rt)) rt,
      rq_jobCellIndex = None\<rparr>"

text \<open>\<^verbatim>\<open>requestForSlot\<close> up to its first await: what the slot waits for.\<close>

definition requestForSlot :: "lane_runtime \<Rightarrow> cover_slot \<Rightarrow> scheduler \<Rightarrow> slot_await" where
  "requestForSlot lane slot s =
     (case lane_job s (lane_ref lane) of
        None \<Rightarrow> AwaitDummy None
      | Some r \<Rightarrow>
          let rt = heap s r
          in if settled rt then AwaitDummy (Some r)
             else if cancelRequested rt \<and> \<not> cancelSent rt then
               (case pendingCancelCell rt of
                  Some cell \<Rightarrow> AwaitRequest (request_of cell CancelCell slot rt)
                | None \<Rightarrow> AwaitCancelCell r (jobSlot rt slot))
             else if \<not> completed rt \<and> sentCells rt < declaredCellCount (job rt) then
               (case pendingCell rt of
                  Some cell \<Rightarrow> AwaitRequest (request_of cell (JobCell (cj_kind (job rt))) slot rt)
                | None \<Rightarrow> AwaitNextCell r (jobSlot rt slot))
             else AwaitDummy (Some r))"

definition cacheUnsent :: "lane_runtime \<Rightarrow> cover_send_request \<Rightarrow> scheduler \<Rightarrow> scheduler" where
  "cacheUnsent lane req s =
     (let byId = (case rq_jobId req of
                    None \<Rightarrow> None | Some i \<Rightarrow> if i = [] then None else map_of (jobs s) i);
          rt = (case byId of Some r \<Rightarrow> Some r | None \<Rightarrow> lane_job s (lane_ref lane))
      in case rt of
           None \<Rightarrow> s
         | Some r \<Rightarrow>
             if settled (heap s r) then s
             else case rq_source req of
               CancelCell \<Rightarrow> upd_job r (pendingCancelCell_update (\<lambda>_. Some (rq_cell req))) s
             | JobCell _ \<Rightarrow> upd_job r (pendingCell_update (\<lambda>_. Some (rq_cell req))) s
             | DummyCell \<Rightarrow> s)"

definition acceptSent :: "cover_config \<Rightarrow> cover_env \<Rightarrow> lane_runtime \<Rightarrow> cover_send_request \<Rightarrow> scheduler \<Rightarrow> scheduler" where
  "acceptSent k env lane req s =
     (case lane_job s (lane_ref lane) of
        None \<Rightarrow> s
      | Some r \<Rightarrow>
          if settled (heap s r) then s
          else case rq_source req of
            CancelCell \<Rightarrow>
              settle k env r (cj_id (job (heap s r))) Cancelled None
                (upd_job r (pendingCancelCell_update (\<lambda>_. None) \<circ> cancelSent_update (\<lambda>_. True)) s)
          | DummyCell \<Rightarrow> s
          | JobCell _ \<Rightarrow>
              (let s = upd_job r (\<lambda>rt. rt\<lparr>pendingCell := None, sentCells := sentCells rt + 1\<rparr>) s
               in if sentCells (heap s r) = declaredCellCount (job (heap s r)) then
                    settle k env r (cj_id (job (heap s r))) Completed None (upd_job r (completed_update (\<lambda>_. True)) s)
                  else s))"

text \<open>A rejection of the slot handler is caught by the timer callback, which degrades again.\<close>

definition slot_catch ::
    "cover_config \<Rightarrow> cover_env \<Rightarrow> (cover_error + unit) \<times> scheduler \<Rightarrow> (cover_error + unit) \<times> scheduler" where
  "slot_catch k env rs =
     (case rs of (Inl _, s) \<Rightarrow> degrade k ''cell-production-failed'' env s | (Inr _, s) \<Rightarrow> (Inr (), s))"

definition await_slot :: "slot_flight \<Rightarrow> slot_await \<Rightarrow> scheduler \<Rightarrow> scheduler" where
  "await_slot fl aw s = s\<lparr>pending := pending s @ [(fl, aw)]\<rparr>"

definition sendSlot ::
    "cover_config \<Rightarrow> cover_slot \<Rightarrow> nat \<Rightarrow> cover_env \<Rightarrow> scheduler \<Rightarrow> (cover_error + unit) \<times> scheduler" where
  "sendSlot k slot gen env s =
     (case cycle s of
        None \<Rightarrow> (Inr (), s)
      | Some cyc \<Rightarrow>
          if gen \<noteq> generation s \<or> status s \<noteq> Active then (Inr (), s)
          else case find (\<lambda>lane. laneIndex lane = sl_laneIndex slot) (lanes cyc) of
            None \<Rightarrow> slot_catch k env (degrade k ''lane-open-failed'' env s)
          | Some lane \<Rightarrow>
              (Inr (), await_slot \<lparr>f_slot = slot, f_generation = gen, f_cycle = cy_id cyc, f_lane = lane\<rparr>
                         (requestForSlot lane slot s) s))"

text \<open>The producer answers: the rest of \<^verbatim>\<open>requestForSlot\<close>.\<close>

definition cell_arrived ::
    "cover_config \<Rightarrow> slot_flight \<Rightarrow> slot_await \<Rightarrow> cell_answer \<Rightarrow> cover_env \<Rightarrow> scheduler \<Rightarrow>
     (cover_error + unit) \<times> scheduler" where
  "cell_arrived k fl aw ans env s =
     (case (aw, ans) of
        (AwaitCancelCell r _, Produced cell) \<Rightarrow>
          (Inr (), await_slot fl (AwaitRequest (request_of cell CancelCell (f_slot fl) (heap s r))) s)
      | (AwaitNextCell r _, Produced cell) \<Rightarrow>
          (Inr (), await_slot fl
             (AwaitRequest (request_of cell (JobCell (cj_kind (job (heap s r)))) (f_slot fl) (heap s r))) s)
      | (AwaitNextCell r _, ProducedNull) \<Rightarrow> (Inr (), await_slot fl (AwaitDummy (Some r)) s)
      | (AwaitDummy r, Produced cell) \<Rightarrow>
          (Inr (), await_slot fl (AwaitRequest (dummy_request cell (f_slot fl) (map_option (heap s) r))) s)
      | _ \<Rightarrow> slot_catch k env (degrade k ''cell-production-failed'' env s))"

text \<open>The request is ready: the part of \<^verbatim>\<open>sendSlot\<close> from its checks to the transport call.\<close>

definition request_ready ::
    "cover_config \<Rightarrow> slot_flight \<Rightarrow> cover_send_request \<Rightarrow> cover_env \<Rightarrow> scheduler \<Rightarrow> (cover_error + unit) \<times> scheduler" where
  "request_ready k fl req env s =
     (if f_generation fl \<noteq> generation s then (Inr (), cacheUnsent (f_lane fl) req s)
      else if now env > deadlineMs (f_slot fl) + maxTimerDriftMs k
      then slot_catch k env (degrade k ''missed-deadline'' env (cacheUnsent (f_lane fl) req s))
      else (Inr (), await_slot fl (AwaitSend req) (notify (CellSent (now env) (lane_ref (f_lane fl)) req) s)))"

text \<open>The transport answers: the rest of \<^verbatim>\<open>sendSlot\<close>.\<close>

definition send_answered ::
    "cover_config \<Rightarrow> slot_flight \<Rightarrow> cover_send_request \<Rightarrow> send_answer \<Rightarrow> cover_env \<Rightarrow> scheduler \<Rightarrow>
     (cover_error + unit) \<times> scheduler" where
  "send_answered k fl req ans env s =
     (case ans of
        SendThrew \<Rightarrow> slot_catch k env (degrade k ''send-failed'' env (cacheUnsent (f_lane fl) req s))
      | SendRefused \<Rightarrow> slot_catch k env (degrade k ''backpressure'' env (cacheUnsent (f_lane fl) req s))
      | SendAccepted \<Rightarrow>
          (let s = acceptSent k env (f_lane fl) req s
           in case cycle s of
                None \<Rightarrow> (Inr (), s)
              | Some cyc \<Rightarrow>
                  if f_generation fl \<noteq> generation s \<or> cy_id cyc \<noteq> f_cycle fl then (Inr (), s)
                  else let cyc = cyc\<lparr>nextSlotOrdinal := nextSlotOrdinal cyc + 1\<rparr>;
                           s = s\<lparr>cycle := Some cyc\<rparr>
                       in if nextSlotOrdinal cyc < slotsPerEpoch (schedule k) * cs_coverDurationEpochs (schedule k)
                          then (Inr (), armSlot k cyc env s)
                          else (Inr (), armCycleBoundary (endMs cyc) env s)))"

section \<open>The timer callback and the step function\<close>

definition timer_fired :: "cover_config \<Rightarrow> cover_env \<Rightarrow> scheduler \<Rightarrow> (cover_error + unit) \<times> scheduler" where
  "timer_fired k env s =
     (case timer s of
        None \<Rightarrow> (Inr (), s)
      | Some t \<Rightarrow>
          if t_generation t \<noteq> generation s then (Inr (), s)
          else
            let s = s\<lparr>timer := None\<rparr>
            in if now env < t_deadlineMs t then (Inr (), armRemaining (t_deadlineMs t) (t_kind t) env s)
               else if now env > t_deadlineMs t + maxTimerDriftMs k then handleLateTimer k (t_kind t) env s
               else case t_kind t of
                 OpenBoundary \<Rightarrow>
                   (case openCycle k (t_deadlineMs t) (t_generation t) env s of
                      (Inl _, s) \<Rightarrow> (Inr (), snd (suspend ''boundary-handler-failed'' env s))
                    | (Inr _, s) \<Rightarrow> (Inr (), s))
               | CycleBoundary \<Rightarrow> handleCycleBoundary k (t_deadlineMs t) env s
               | SlotTimer slot \<Rightarrow> sendSlot k slot (t_generation t) env s)"

datatype cover_event =
    Enqueue cover_job
  | Cancel string
  | Complete string
  | Start
  | Suspend string
  | Resume
  | Stop
  | TimerFires
  | CellArrives nat cell_answer
  | RequestReady nat
  | SendAnswers nat send_answer

definition settle_pending ::
    "nat \<Rightarrow> (slot_flight \<times> slot_await \<Rightarrow> scheduler \<Rightarrow> (cover_error + unit) \<times> scheduler) \<Rightarrow> scheduler \<Rightarrow>
     (cover_error + unit) \<times> scheduler" where
  "settle_pending i f s =
     (if i < length (pending s) then f (pending s ! i) (s\<lparr>pending := remove_nth i (pending s)\<rparr>) else (Inr (), s))"

definition ignore_value :: "(cover_error + 'a) \<times> scheduler \<Rightarrow> (cover_error + unit) \<times> scheduler" where
  "ignore_value rs = (rbind (fst rs) (\<lambda>_. Inr ()), snd rs)"

definition cover_step :: "cover_config \<Rightarrow> cover_env \<Rightarrow> cover_event \<Rightarrow> scheduler \<Rightarrow> (cover_error + unit) \<times> scheduler" where
  "cover_step k env ev s =
     (case ev of
        Enqueue jb \<Rightarrow> enqueue k jb s
      | Cancel i \<Rightarrow> ignore_value (cancel k env i s)
      | Complete i \<Rightarrow> (Inr (), snd (complete k env i s))
      | Start \<Rightarrow> ignore_value (start k env s)
      | Suspend reason \<Rightarrow> (Inr (), snd (suspend reason env s))
      | Resume \<Rightarrow> ignore_value (resume k env s)
      | Stop \<Rightarrow> (Inr (), snd (stop k env s))
      | TimerFires \<Rightarrow> timer_fired k env s
      | CellArrives i ans \<Rightarrow>
          settle_pending i (\<lambda>(fl, aw) s'. case aw of
              AwaitRequest _ \<Rightarrow> (Inr (), s) | AwaitSend _ \<Rightarrow> (Inr (), s)
            | _ \<Rightarrow> cell_arrived k fl aw ans env s') s
      | RequestReady i \<Rightarrow>
          settle_pending i (\<lambda>(fl, aw) s'. case aw of
              AwaitRequest req \<Rightarrow> request_ready k fl req env s' | _ \<Rightarrow> (Inr (), s)) s
      | SendAnswers i ans \<Rightarrow>
          settle_pending i (\<lambda>(fl, aw) s'. case aw of
              AwaitSend req \<Rightarrow> send_answered k fl req ans env s' | _ \<Rightarrow> (Inr (), s)) s)"

end
