(* ===== verification/Cover_Slots.thy ===== *)
theory Cover_Slots
  imports Cover_Scheduler
begin

text \<open>
  The arithmetic of the cover schedule: within a cycle the slots come at strictly increasing
  deadlines at least 25 ms apart and inside the cycle, every lane is given every one of its slots
  exactly once, cycle boundaries are the multiples of the cycle duration, and a room policy with
  scheduled cover always gives a schedule the scheduler accepts.
\<close>

definition valid_schedule :: "cover_schedule \<Rightarrow> bool" where
  "valid_schedule s \<longleftrightarrow> validateCoverSchedule s = Inr ()"

lemma valid_scheduleD:
  assumes "valid_schedule s"
  shows "1 \<le> cs_coverCadenceMs s" "1 \<le> cs_coverLanes s" "cs_coverLanes s \<le> 16"
    "1 \<le> cs_coverFramesPerCell s" "1 \<le> cs_coverDurationEpochs s"
    "25 * slotsPerEpoch s \<le> cs_coverCadenceMs s"
  using assms
  by (auto simp: valid_schedule_def validateCoverSchedule_def result_simps const_defs spacing_less_def
      slotsPerEpoch_def)

lemma slotsPerEpoch_pos: "valid_schedule s \<Longrightarrow> 0 < slotsPerEpoch s"
  using valid_scheduleD [of s] by (simp add: slotsPerEpoch_def)

lemma cycleDuration_pos: "valid_schedule s \<Longrightarrow> 0 < cycleDurationMs s"
  using valid_scheduleD [of s] by (simp add: cycleDurationMs_def)

definition total_slots :: "cover_schedule \<Rightarrow> int" where
  "total_slots s = slotsPerEpoch s * cs_coverDurationEpochs s"

lemma slot_deadline:
  assumes "0 < slotsPerEpoch s"
  shows "deadlineMs (slotAt s cyc i) = startMs cyc + ((2 * i + 1) * cs_coverCadenceMs s) div (2 * slotsPerEpoch s)"
proof -
  let ?n = "slotsPerEpoch s" and ?c = "cs_coverCadenceMs s"
  have i: "i = i div ?n * ?n + i mod ?n" by simp
  have "(2 * i + 1) * ?c = (2 * (i mod ?n) + 1) * ?c + (i div ?n * ?c) * (2 * ?n)"
    by (subst i) (simp only: algebra_simps)
  then have "((2 * i + 1) * ?c) div (2 * ?n) = i div ?n * ?c + ((2 * (i mod ?n) + 1) * ?c) div (2 * ?n)"
    using assms by simp
  then show ?thesis by (simp add: slotAt_def Let_def)
qed

lemma div_add_ge:
  fixes a b n :: int
  assumes "0 < n" "m * n \<le> b"
  shows "a div n + m \<le> (a + b) div n"
proof -
  have "(a + m * n) div n \<le> (a + b) div n" using assms by (intro zdiv_mono1) simp_all
  then show ?thesis using assms by simp
qed

lemma div_less_of_mult:
  fixes a b m :: int
  assumes "0 < m" "a < m * b"
  shows "a div m < b"
proof (rule ccontr)
  assume "\<not> a div m < b"
  then have "m * b \<le> m * (a div m)" using assms(1) by (intro mult_left_mono) simp_all
  also have "\<dots> \<le> a" using assms(1) by (simp add: minus_mod_eq_mult_div [symmetric])
  finally show False using assms(2) by simp
qed

lemma deadline_step:
  assumes "valid_schedule s"
  shows "deadlineMs (slotAt s cyc i) + 25 \<le> deadlineMs (slotAt s cyc (i + 1))"
proof -
  let ?n = "slotsPerEpoch s" and ?c = "cs_coverCadenceMs s"
  have n: "0 < ?n" by (rule slotsPerEpoch_pos [OF assms])
  have "(2 * i + 1) * ?c div (2 * ?n) + 25 \<le> ((2 * i + 1) * ?c + 2 * ?c) div (2 * ?n)"
    using n valid_scheduleD(6) [OF assms] by (intro div_add_ge) simp_all
  moreover have "(2 * i + 1) * ?c + 2 * ?c = (2 * (i + 1) + 1) * ?c" by (simp add: algebra_simps)
  ultimately show ?thesis by (simp add: slot_deadline [OF n])
qed

lemma deadline_gap:
  assumes "valid_schedule s"
  shows "deadlineMs (slotAt s cyc i) + 25 * int k \<le> deadlineMs (slotAt s cyc (i + int k))"
proof (induction k)
  case (Suc k)
  with deadline_step [OF assms, of cyc "i + int k"] show ?case by (simp add: algebra_simps)
qed simp

lemma deadline_inside:
  assumes v: "valid_schedule s" and i: "0 \<le> i" "i < total_slots s"
  shows "startMs cyc \<le> deadlineMs (slotAt s cyc i)" "deadlineMs (slotAt s cyc i) < startMs cyc + cycleDurationMs s"
proof -
  let ?n = "slotsPerEpoch s" and ?c = "cs_coverCadenceMs s" and ?d = "cs_coverDurationEpochs s"
  have n: "0 < ?n" by (rule slotsPerEpoch_pos [OF v])
  have c: "1 \<le> ?c" by (rule valid_scheduleD(1) [OF v])
  have "0 \<le> ((2 * i + 1) * ?c) div (2 * ?n)" using n c i by (simp add: pos_imp_zdiv_nonneg_iff)
  then show "startMs cyc \<le> deadlineMs (slotAt s cyc i)" by (simp add: slot_deadline [OF n])
  have "2 * i + 1 < 2 * (?n * ?d)" using i by (simp add: total_slots_def)
  then have "(2 * i + 1) * ?c < 2 * (?n * ?d) * ?c" using c by (intro mult_strict_right_mono) simp_all
  then have "(2 * i + 1) * ?c < (2 * ?n) * (?c * ?d)" by (simp add: algebra_simps)
  then have "((2 * i + 1) * ?c) div (2 * ?n) < ?c * ?d"
    using n by (intro div_less_of_mult) simp_all
  then show "deadlineMs (slotAt s cyc i) < startMs cyc + cycleDurationMs s"
    by (simp add: slot_deadline [OF n] cycleDurationMs_def)
qed

section \<open>The lanes' shares\<close>

lemma slot_lane:
  assumes "valid_schedule s"
  shows "sl_laneIndex (slotAt s cyc i) = i mod cs_coverLanes s"
    "laneSlotIndex (slotAt s cyc i) = i div cs_coverLanes s"
proof -
  let ?l = "cs_coverLanes s" and ?f = "cs_coverFramesPerCell s"
  have l: "0 < ?l" "0 < ?f" using valid_scheduleD [OF assms] by simp_all
  have "i mod (?l * ?f) = ?l * (i div ?l mod ?f) + i mod ?l" using l by (simp add: zmod_zmult2_eq)
  moreover have "i div (?l * ?f) = i div ?l div ?f" using l by (simp add: zdiv_zmult2_eq)
  ultimately show "sl_laneIndex (slotAt s cyc i) = i mod ?l"
    "laneSlotIndex (slotAt s cyc i) = i div ?l"
    using l by (simp_all add: slotAt_def Let_def slotsPerEpoch_def)
qed

lemma total_slots_lanes: "total_slots s = cs_coverLanes s * slotsPerLane s"
  by (simp add: total_slots_def slotsPerEpoch_def slotsPerLane_def)

section \<open>Boundaries\<close>

lemma nextCycleBoundary_ok:
  assumes v: "valid_schedule s" and b: "nextCycleBoundary s t incl = Inr b"
  shows "(\<exists>i. b = phaseOffsetMs s + i * cycleDurationMs s) \<and> (if incl then t \<le> b else t < b) \<and>
    b \<le> t + cycleDurationMs s"
proof -
  let ?d = "cycleDurationMs s" and ?k = "ceil_div (t - phaseOffsetMs s) (cycleDurationMs s)"
  have d: "0 < ?d" by (rule cycleDuration_pos [OF v])
  have k: "t - phaseOffsetMs s \<le> ?k * ?d" "?k * ?d < t - phaseOffsetMs s + ?d"
    using ceil_div_bounds [OF d, of "t - phaseOffsetMs s"] by (simp_all add: algebra_simps)
  show ?thesis
  proof (cases "\<not> incl \<and> phaseOffsetMs s + ?k * ?d \<le> t")
    case True
    then have "b = phaseOffsetMs s + (?k + 1) * ?d"
      using b by (auto simp: nextCycleBoundary_def Let_def split: if_splits)
    with True k d show ?thesis
      by (intro conjI exI [of _ "?k + 1"]) (auto simp: algebra_simps)
  next
    case False
    then have "b = phaseOffsetMs s + ?k * ?d"
      using b by (auto simp: nextCycleBoundary_def Let_def split: if_splits)
    with False k d show ?thesis by auto
  qed
qed

lemma cycleIndexAtBoundary_exact:
  assumes "valid_schedule s" "cycleIndexAtBoundary s (phaseOffsetMs s + i * cycleDurationMs s) = Inr j"
  shows "j = i"
proof -
  let ?d = "cycleDurationMs s"
  have d: "0 < ?d" by (rule cycleDuration_pos [OF assms(1)])
  have "(2 * (i * ?d) + ?d) div (2 * ?d) = i" using d by (intro int_div_pos_eq [of _ _ _ ?d]) simp_all
  then show ?thesis
    using assms(2) by (auto simp: cycleIndexAtBoundary_def Let_def result_simps)
qed

section \<open>Schedules from room policies\<close>

text \<open>The schedule a room's cover runtime builds from the policy's four cover fields and a phase.\<close>

definition policy_schedule :: "room_policy \<Rightarrow> int \<Rightarrow> cover_schedule" where
  "policy_schedule p phase =
     \<lparr>phaseOffsetMs = phase, cs_coverCadenceMs = coverCadenceMs p, cs_coverLanes = coverLanes p,
      cs_coverFramesPerCell = coverFramesPerCell p, cs_coverDurationEpochs = coverDurationEpochs p\<rparr>"

lemma policy_schedule_valid:
  assumes "validateRoomPolicyV1 p = Inr ()" "coverMode p = ''scheduled''" "is_safe_integer phase"
  shows "valid_schedule (policy_schedule p phase)"
proof -
  have r: "1000 \<le> coverCadenceMs p" "coverCadenceMs p \<le> 3600000" "1 \<le> coverLanes p" "coverLanes p \<le> 16"
    "1 \<le> coverFramesPerCell p" "coverFramesPerCell p \<le> 1024" "1 \<le> coverDurationEpochs p"
    "coverDurationEpochs p \<le> 0xffff" "25 * (coverLanes p * coverFramesPerCell p) \<le> coverCadenceMs p"
    using assms(1,2) by (auto simp: validate_simps split: if_splits)
  have safe: "is_safe_integer (x * y)" if "0 \<le> x" "x \<le> 3600000" "0 \<le> y" "y \<le> 0xffff" for x y :: int
  proof -
    have "0 \<le> x * y" using that by (intro mult_nonneg_nonneg)
    moreover have "x * y \<le> 3600000 * 0xffff" using that by (intro mult_mono) simp_all
    ultimately show ?thesis unfolding is_safe_integer_def MAX_SAFE_INTEGER_def by linarith
  qed
  have geo: "is_safe_integer (slotsPerEpoch (policy_schedule p phase))" "is_safe_integer (slotsPerLane (policy_schedule p phase))"
    "is_safe_integer (cycleDurationMs (policy_schedule p phase))"
    using r by (auto simp: slotsPerEpoch_def slotsPerLane_def cycleDurationMs_def policy_schedule_def intro!: safe)
  have "is_safe_integer x" if "0 \<le> x" "x \<le> 3600000" for x
    using that by (simp add: is_safe_integer_def MAX_SAFE_INTEGER_def)
  with r geo assms(3) show ?thesis
    by (simp add: valid_schedule_def validateCoverSchedule_def assertSafeInteger_def const_defs spacing_less_def)
      (simp add: policy_schedule_def)
qed

section \<open>Properties\<close>


definition small_schedule :: cover_schedule where
  "small_schedule = \<lparr>phaseOffsetMs = 3, cs_coverCadenceMs = 1000, cs_coverLanes = 4, cs_coverFramesPerCell = 3,
     cs_coverDurationEpochs = 2\<rparr>"

definition small_cycle :: cycle_runtime where
  "small_cycle = \<lparr>cy_index = 1, startMs = 2003, endMs = 4003, lanes = [], nextSlotOrdinal = 0, cy_id = 0\<rparr>"

lemma small_schedule_ok: "validateCoverSchedule small_schedule = Inr ()"
  by (simp add: validateCoverSchedule_def small_schedule_def assertSafeInteger_def is_safe_integer_def const_defs
      slotsPerEpoch_def slotsPerLane_def cycleDurationMs_def spacing_less_def)

lemma small_total: "total_slots small_schedule = 24"
  by (simp add: total_slots_def slotsPerEpoch_def small_schedule_def)


text \<open>Over a cycle every lane gets each of its frames-times-epochs slots exactly once, whatever job it
  carries: the slots of a cycle are in bijection with the pairs of a lane and a slot of that lane.\<close>

theorem cover_lane_shares:
  assumes "validateCoverSchedule s = Inr ()"
  shows "bij_betw (\<lambda>i. (sl_laneIndex (slotAt s cyc i), laneSlotIndex (slotAt s cyc i))) {0..<total_slots s}
    ({0..<cs_coverLanes s} \<times> {0..<slotsPerLane s})"
proof -
  have v: "valid_schedule s" using assms by (simp add: valid_schedule_def)
  let ?l = "cs_coverLanes s"
  have l: "0 < ?l" using valid_scheduleD(2) [OF v] by simp
  show ?thesis
    unfolding slot_lane [OF v] total_slots_lanes
  proof (rule bij_betw_byWitness [where f' = "\<lambda>(a, b). b * ?l + a"])
    show "\<forall>i \<in> {0..<?l * slotsPerLane s}. (case (i mod ?l, i div ?l) of (a, b) \<Rightarrow> b * ?l + a) = i" by simp
    show "\<forall>p \<in> {0..<?l} \<times> {0..<slotsPerLane s}. ((case p of (a, b) \<Rightarrow> b * ?l + a) mod ?l,
        (case p of (a, b) \<Rightarrow> b * ?l + a) div ?l) = p"
      using l by auto
    show "(\<lambda>i. (i mod ?l, i div ?l)) ` {0..<?l * slotsPerLane s} \<subseteq> {0..<?l} \<times> {0..<slotsPerLane s}"
      using l by (auto simp: pos_imp_zdiv_nonneg_iff intro: div_less_of_mult)
    show "(\<lambda>(a, b). b * ?l + a) ` ({0..<?l} \<times> {0..<slotsPerLane s}) \<subseteq> {0..<?l * slotsPerLane s}"
    proof
      fix i
      assume "i \<in> (\<lambda>(a, b). b * ?l + a) ` ({0..<?l} \<times> {0..<slotsPerLane s})"
      then obtain a b where i: "i = b * ?l + a" "0 \<le> a" "a < ?l" "0 \<le> b" "b < slotsPerLane s" by auto
      have "i < (b + 1) * ?l" using i by (simp add: algebra_simps)
      also have "\<dots> \<le> slotsPerLane s * ?l" using i l by (intro mult_right_mono) simp_all
      finally show "i \<in> {0..<?l * slotsPerLane s}" using i l by (simp add: mult.commute)
    qed
  qed
qed

theorem cover_lane_shares_witness:
  "bij_betw (\<lambda>i. (sl_laneIndex (slotAt small_schedule small_cycle i), laneSlotIndex (slotAt small_schedule small_cycle i)))
     {0..<24} ({0..<4} \<times> {0..<6})"
  using cover_lane_shares [OF small_schedule_ok, of small_cycle]
  by (simp add: small_total slotsPerLane_def) (simp add: small_schedule_def)

end
