(* ===== verification/Cover_Jobs.thy ===== *)
theory Cover_Jobs
  imports Cover_Slots
begin

text \<open>
  The job bookkeeping of the cover scheduler. Every job ever enqueued is in exactly one place until
  it settles (the queue, or one lane of the open cycle), the index by id holds exactly the
  unsettled jobs, and every job is reported to the observer at most once, when it settles.

  The invariants are stated with two parameters so that they also hold in the middle of an
  operation: \<open>R\<close>, jobs whose runtime is being updated, and \<open>X\<close>, jobs that are momentarily neither
  queued nor on a lane; \<open>L\<close> is the set of lanes in use.
\<close>

section \<open>What the outside is told\<close>

fun result_ref :: "cover_output \<Rightarrow> job_ref option" where
  "result_ref (JobResult r _ _ _) = Some r"
| "result_ref _ = None"

definition results :: "cover_output list \<Rightarrow> job_ref list" where
  "results tr = List.map_filter result_ref tr"

lemma results_append [simp]: "results (xs @ ys) = results xs @ results ys"
  by (simp add: results_def map_filter_def)

lemma results_simps [simp]:
  "results [] = []" "results [JobResult r i out why] = [r]" "results [StatusChange a b c] = []"
  "results [JobInterrupted r i int_why] = []" "results [LaneOpened ctx] = []"
  "results [LaneClosed ctx close_why] = []" "results [CellSent t l req] = []"
  by (simp_all add: results_def map_filter_def)

fun sent_cell :: "cover_output \<Rightarrow> (int \<times> lane_id \<times> cover_send_request) option" where
  "sent_cell (CellSent t l req) = Some (t, l, req)"
| "sent_cell _ = None"

definition cells_sent :: "cover_output list \<Rightarrow> (int \<times> lane_id \<times> cover_send_request) list" where
  "cells_sent tr = List.map_filter sent_cell tr"

lemma cells_sent_append [simp]: "cells_sent (xs @ ys) = cells_sent xs @ cells_sent ys"
  by (simp add: cells_sent_def map_filter_def)

lemma cells_sent_simps [simp]:
  "cells_sent [] = []" "cells_sent [CellSent t l req] = [(t, l, req)]"
  "cells_sent [JobResult r i out why] = []" "cells_sent [StatusChange a b c] = []"
  "cells_sent [JobInterrupted r i int_why] = []" "cells_sent [LaneOpened ctx] = []"
  "cells_sent [LaneClosed ctx close_why] = []"
  by (simp_all add: cells_sent_def map_filter_def)

section \<open>What the helpers leave alone\<close>

lemma upd_job_frame [simp]:
  "status (upd_job r f s) = status s" "running (upd_job r f s) = running s"
  "sequence (upd_job r f s) = sequence s" "generation (upd_job r f s) = generation s"
  "timer (upd_job r f s) = timer s" "cycle (upd_job r f s) = cycle s"
  "queued (upd_job r f s) = queued s" "jobs (upd_job r f s) = jobs s"
  "heap (upd_job r f s) = (heap s)(r := f (heap s r))" "lane_job (upd_job r f s) = lane_job s"
  "cycles_made (upd_job r f s) = cycles_made s" "pending (upd_job r f s) = pending s"
  "trace (upd_job r f s) = trace s"
  by (simp_all add: upd_job_def)

lemma notify_frame [simp]:
  "status (notify out s) = status s" "running (notify out s) = running s"
  "sequence (notify out s) = sequence s" "generation (notify out s) = generation s"
  "timer (notify out s) = timer s" "cycle (notify out s) = cycle s"
  "queued (notify out s) = queued s" "jobs (notify out s) = jobs s"
  "heap (notify out s) = heap s" "lane_job (notify out s) = lane_job s"
  "cycles_made (notify out s) = cycles_made s" "pending (notify out s) = pending s"
  "trace (notify out s) = trace s @ [out]"
  by (simp_all add: notify_def)

lemma sortQueue_frame [simp]:
  "status (sortQueue s) = status s" "running (sortQueue s) = running s"
  "sequence (sortQueue s) = sequence s" "generation (sortQueue s) = generation s"
  "timer (sortQueue s) = timer s" "cycle (sortQueue s) = cycle s"
  "set (queued (sortQueue s)) = set (queued s)" "distinct (queued (sortQueue s)) = distinct (queued s)"
  "jobs (sortQueue s) = jobs s" "heap (sortQueue s) = heap s" "lane_job (sortQueue s) = lane_job s"
  "cycles_made (sortQueue s) = cycles_made s" "pending (sortQueue s) = pending s"
  "trace (sortQueue s) = trace s"
  by (simp_all add: sortQueue_def)

lemma remove_nth_find_index:
  assumes "distinct xs" "find_index (\<lambda>x. x = r) xs = Some i"
  shows "set (remove_nth i xs) = set xs - {r}"
proof -
  have i: "i < length xs" "xs ! i = r" using find_index_SomeD [OF assms(2)] by simp_all
  have xs: "xs = take i xs @ r # drop (Suc i) xs" using i id_take_nth_drop by metis
  have "distinct (take i xs @ r # drop (Suc i) xs)" using xs assms(1) by simp
  moreover have "set xs = set (take i xs) \<union> insert r (set (drop (Suc i) xs))"
    by (subst xs) (simp del: append_take_drop_id)
  ultimately show ?thesis by (auto simp: remove_nth_def)
qed

lemma removeQueued_frame [simp]:
  "status (removeQueued r s) = status s" "running (removeQueued r s) = running s"
  "sequence (removeQueued r s) = sequence s" "generation (removeQueued r s) = generation s"
  "timer (removeQueued r s) = timer s" "cycle (removeQueued r s) = cycle s"
  "jobs (removeQueued r s) = jobs s" "heap (removeQueued r s) = heap s"
  "lane_job (removeQueued r s) = lane_job s"
  "cycles_made (removeQueued r s) = cycles_made s" "pending (removeQueued r s) = pending s"
  "trace (removeQueued r s) = trace s"
  by (simp_all add: removeQueued_def split: option.splits)

lemma removeQueued_queue [simp]:
  "distinct (queued s) \<Longrightarrow> set (queued (removeQueued r s)) = set (queued s) - {r}"
  "distinct (queued s) \<Longrightarrow> distinct (queued (removeQueued r s))"
  by (auto simp: removeQueued_def remove_nth_find_index distinct_remove_nth find_index_None_iff
      split: option.splits)

lemma detach_frame [simp]:
  "status (detach l s) = status s" "running (detach l s) = running s"
  "sequence (detach l s) = sequence s" "generation (detach l s) = generation s"
  "timer (detach l s) = timer s" "cycle (detach l s) = cycle s"
  "queued (detach l s) = queued s" "jobs (detach l s) = jobs s" "heap (detach l s) = heap s"
  "lane_job (detach l s) = (lane_job s)(lane_ref l := None)"
  "cycles_made (detach l s) = cycles_made s" "pending (detach l s) = pending s"
  "trace (detach l s) = trace s"
  by (simp_all add: detach_def)

lemma enqueue_frame [simp]:
  "status (snd (enqueue k jb s)) = status s" "running (snd (enqueue k jb s)) = running s"
  "generation (snd (enqueue k jb s)) = generation s" "timer (snd (enqueue k jb s)) = timer s"
  "cycle (snd (enqueue k jb s)) = cycle s" "lane_job (snd (enqueue k jb s)) = lane_job s"
  "cycles_made (snd (enqueue k jb s)) = cycles_made s" "pending (snd (enqueue k jb s)) = pending s"
  "trace (snd (enqueue k jb s)) = trace s"
  by (simp_all add: enqueue_def Let_def)

lemma enqueue_all_frame [simp]:
  "status (fold (\<lambda>jb s. snd (enqueue k jb s)) js s) = status s"
  "running (fold (\<lambda>jb s. snd (enqueue k jb s)) js s) = running s"
  "generation (fold (\<lambda>jb s. snd (enqueue k jb s)) js s) = generation s"
  "timer (fold (\<lambda>jb s. snd (enqueue k jb s)) js s) = timer s"
  "cycle (fold (\<lambda>jb s. snd (enqueue k jb s)) js s) = cycle s"
  "lane_job (fold (\<lambda>jb s. snd (enqueue k jb s)) js s) = lane_job s"
  "cycles_made (fold (\<lambda>jb s. snd (enqueue k jb s)) js s) = cycles_made s"
  "pending (fold (\<lambda>jb s. snd (enqueue k jb s)) js s) = pending s"
  "trace (fold (\<lambda>jb s. snd (enqueue k jb s)) js s) = trace s"
  by (induction js arbitrary: s) simp_all

lemma settle_frame [simp]:
  "status (settle k env r i out why s) = status s" "running (settle k env r i out why s) = running s"
  "generation (settle k env r i out why s) = generation s" "timer (settle k env r i out why s) = timer s"
  "cycle (settle k env r i out why s) = cycle s" "lane_job (settle k env r i out why s) = lane_job s"
  "cycles_made (settle k env r i out why s) = cycles_made s" "pending (settle k env r i out why s) = pending s"
  "cells_sent (trace (settle k env r i out why s)) = cells_sent (trace s)"
  by (simp_all add: settle_def Let_def)

lemma requeue_frame [simp]:
  "status (requeue r why s) = status s" "running (requeue r why s) = running s"
  "sequence (requeue r why s) = sequence s" "generation (requeue r why s) = generation s"
  "timer (requeue r why s) = timer s" "cycle (requeue r why s) = cycle s"
  "lane_job (requeue r why s) = lane_job s" "jobs (requeue r why s) = jobs s"
  "cycles_made (requeue r why s) = cycles_made s" "pending (requeue r why s) = pending s"
  "cells_sent (trace (requeue r why s)) = cells_sent (trace s)"
  by (simp_all add: requeue_def Let_def)

section \<open>Invariants\<close>

definition runtime_ok :: "cover_config \<Rightarrow> job_ref \<Rightarrow> job_runtime \<Rightarrow> bool" where
  "runtime_ok k r rt \<longleftrightarrow>
     jr_sequence rt = r \<and> 1 \<le> declaredCellCount (job rt) \<and>
     declaredCellCount (job rt) \<le> slotsPerLane (schedule k) \<and>
     0 \<le> sentCells rt \<and> sentCells rt \<le> declaredCellCount (job rt) \<and>
     (\<not> everAdmitted rt \<longrightarrow> sentCells rt = 0 \<and> \<not> cancelRequested rt)"

definition runtime_live :: "job_runtime \<Rightarrow> bool" where
  "runtime_live rt \<longleftrightarrow> \<not> completed rt \<and> \<not> cancelSent rt \<and> sentCells rt < declaredCellCount (job rt)"

definition jobs_inv :: "cover_config \<Rightarrow> job_ref set \<Rightarrow> scheduler \<Rightarrow> bool" where
  "jobs_inv k R s \<longleftrightarrow>
     (\<forall>r < sequence s. runtime_ok k r (heap s r)) \<and>
     (\<forall>r < sequence s. r \<notin> R \<longrightarrow> \<not> settled (heap s r) \<longrightarrow> runtime_live (heap s r)) \<and>
     (\<forall>i r. map_of (jobs s) i = Some r \<longleftrightarrow>
        r < sequence s \<and> \<not> settled (heap s r) \<and> cj_id (job (heap s r)) = i) \<and>
     distinct (map fst (jobs s)) \<and> distinct (queued s) \<and>
     (\<forall>r \<in> set (queued s). r < sequence s \<and> \<not> settled (heap s r)) \<and>
     distinct (results (trace s)) \<and> set (results (trace s)) = {r. r < sequence s \<and> settled (heap s r)}"

definition own_inv :: "lane_id set \<Rightarrow> job_ref set \<Rightarrow> scheduler \<Rightarrow> bool" where
  "own_inv L X s \<longleftrightarrow>
     (\<forall>r < sequence s. \<not> settled (heap s r) \<longrightarrow>
        r \<in> set (queued s) \<or> (\<exists>l \<in> L. lane_job s l = Some r) \<or> r \<in> X) \<and>
     (\<forall>r \<in> X. r < sequence s \<and> r \<notin> set (queued s) \<and> (\<forall>l. lane_job s l \<noteq> Some r)) \<and>
     (\<forall>l r. lane_job s l = Some r \<longrightarrow>
        l \<in> L \<and> r < sequence s \<and> everAdmitted (heap s r) \<and> r \<notin> set (queued s)) \<and>
     (\<forall>l l' r. lane_job s l = Some r \<longrightarrow> lane_job s l' = Some r \<longrightarrow> l = l')"

lemma jobs_inv_known: "jobs_inv k R s \<Longrightarrow> map_of (jobs s) i = Some r \<Longrightarrow>
    r < sequence s \<and> \<not> settled (heap s r) \<and> cj_id (job (heap s r)) = i"
  by (simp add: jobs_inv_def)

lemma own_place:
  "own_inv L X s \<Longrightarrow> r < sequence s \<Longrightarrow> \<not> settled (heap s r) \<Longrightarrow>
   r \<in> set (queued s) \<or> (\<exists>l \<in> L. lane_job s l = Some r) \<or> r \<in> X"
  by (simp add: own_inv_def)

lemma own_loose:
  "own_inv L X s \<Longrightarrow> r \<in> X \<Longrightarrow> r < sequence s \<and> r \<notin> set (queued s) \<and> (\<forall>l. lane_job s l \<noteq> Some r)"
  by (simp add: own_inv_def)

lemma own_lane:
  "own_inv L X s \<Longrightarrow> lane_job s l = Some r \<Longrightarrow>
   l \<in> L \<and> r < sequence s \<and> everAdmitted (heap s r) \<and> r \<notin> set (queued s)"
  by (simp add: own_inv_def)

lemma own_unique: "own_inv L X s \<Longrightarrow> lane_job s l = Some r \<Longrightarrow> lane_job s l' = Some r \<Longrightarrow> l = l'"
  by (simp add: own_inv_def)

lemma own_invI:
  assumes "\<And>r. r < sequence s \<Longrightarrow> \<not> settled (heap s r) \<Longrightarrow>
      r \<in> set (queued s) \<or> (\<exists>l \<in> L. lane_job s l = Some r) \<or> r \<in> X"
    and "\<And>r. r \<in> X \<Longrightarrow> r < sequence s \<and> r \<notin> set (queued s) \<and> (\<forall>l. lane_job s l \<noteq> Some r)"
    and "\<And>l r. lane_job s l = Some r \<Longrightarrow>
      l \<in> L \<and> r < sequence s \<and> everAdmitted (heap s r) \<and> r \<notin> set (queued s)"
    and "\<And>l l' r. lane_job s l = Some r \<Longrightarrow> lane_job s l' = Some r \<Longrightarrow> l = l'"
  shows "own_inv L X s"
  using assms unfolding own_inv_def by blast

lemma own_drop_settled: "own_inv L X s \<Longrightarrow> settled (heap s r) \<Longrightarrow> own_inv L (X - {r}) s"
  by (rule own_invI) (use own_place own_loose own_lane own_unique in blast)+

section \<open>Preservation by the helpers\<close>

lemma sortQueue_inv [simp]:
  "jobs_inv k R (sortQueue s) = jobs_inv k R s" "own_inv L X (sortQueue s) = own_inv L X s"
  by (simp_all add: jobs_inv_def own_inv_def)

lemma notify_inv [simp]:
  "result_ref out = None \<Longrightarrow> jobs_inv k R (notify out s) = jobs_inv k R s"
  "own_inv L X (notify out s) = own_inv L X s"
  by (cases out; simp add: jobs_inv_def) (simp add: own_inv_def)

lemma jobs_inv_mono: "jobs_inv k R s \<Longrightarrow> R \<subseteq> R' \<Longrightarrow> jobs_inv k R' s"
  by (auto simp: jobs_inv_def)

lemma enqueue_jobs_inv: "jobs_inv k R s \<Longrightarrow> jobs_inv k R (snd (enqueue k jb s))"
proof -
  assume inv: "jobs_inv k R s"
  have fresh: "sequence s \<notin> set (queued s)" "sequence s \<notin> set (results (trace s))"
    using inv by (auto simp: jobs_inv_def)
  show ?thesis
    using inv fresh
    by (simp add: enqueue_def Let_def, intro impI)
      (auto simp: jobs_inv_def update_conv' distinct_update runtime_ok_def runtime_live_def less_Suc_eq)
qed

lemma enqueue_own_inv: "own_inv L X s \<Longrightarrow> own_inv L X (snd (enqueue k jb s))"
proof -
  assume inv: "own_inv L X s"
  then have "lane_job s l \<noteq> Some (sequence s)" for l by (auto simp: own_inv_def)
  with inv show ?thesis by (auto simp: enqueue_def Let_def own_inv_def less_Suc_eq)
qed

lemma enqueue_heap: "r < sequence s \<Longrightarrow> heap (snd (enqueue k jb s)) r = heap s r"
  by (simp add: enqueue_def Let_def)

lemma enqueue_sequence: "sequence s \<le> sequence (snd (enqueue k jb s))"
  by (simp add: enqueue_def Let_def)

lemma enqueue_all:
  "jobs_inv k R s \<Longrightarrow> jobs_inv k R (fold (\<lambda>jb s. snd (enqueue k jb s)) js s)"
  "own_inv L X s \<Longrightarrow> own_inv L X (fold (\<lambda>jb s. snd (enqueue k jb s)) js s)"
  "sequence s \<le> sequence (fold (\<lambda>jb s. snd (enqueue k jb s)) js s)"
  "r < sequence s \<Longrightarrow> heap (fold (\<lambda>jb s. snd (enqueue k jb s)) js s) r = heap s r"
proof (induction js arbitrary: s)
  case (Cons jb js)
  { case 1 with Cons show ?case by (simp add: enqueue_jobs_inv) }
  { case 2 with Cons show ?case by (simp add: enqueue_own_inv) }
  { case 3 with Cons(3) [of "snd (enqueue k jb s)"] show ?case
      using enqueue_sequence [of s k jb] by simp }
  { case 4 with Cons(4) [of "snd (enqueue k jb s)"] show ?case
      using enqueue_sequence [of s k jb] by (simp add: enqueue_heap) }
qed simp_all

text \<open>The state \<^verbatim>\<open>settle\<close> reaches before it notifies the observer.\<close>

definition retire :: "job_ref \<Rightarrow> scheduler \<Rightarrow> scheduler" where
  "retire r s =
     (let s = removeQueued r (upd_job r (settled_update (\<lambda>_. True) \<circ> jr_state_update (\<lambda>_. JTerminal)) s);
          i = cj_id (job (heap s r))
      in if map_of (jobs s) i = Some r then s\<lparr>jobs := AList.delete i (jobs s)\<rparr> else s)"

lemma settle_retire:
  "\<not> settled (heap s r) \<Longrightarrow> settle k env r i out why s =
     fold (\<lambda>jb s. snd (enqueue k jb s)) (on_result env i) (notify (JobResult r i out why) (retire r s))"
  by (simp add: settle_def retire_def Let_def)

lemma retire_fields [simp]:
  "sequence (retire r s) = sequence s" "trace (retire r s) = trace s" "lane_job (retire r s) = lane_job s"
  "heap (retire r s) = (heap s)(r := (heap s r)\<lparr>jr_state := JTerminal, settled := True\<rparr>)"
  by (simp_all add: retire_def Let_def)

lemma retire_queue:
  "distinct (queued s) \<Longrightarrow> set (queued (retire r s)) = set (queued s) - {r} \<and> distinct (queued (retire r s))"
proof -
  assume "distinct (queued s)"
  then have "distinct (queued (upd_job r (settled_update (\<lambda>_. True) \<circ> jr_state_update (\<lambda>_. JTerminal)) s))"
    by simp
  then show ?thesis by (simp add: retire_def Let_def)
qed

lemma retire_jobs:
  assumes "jobs_inv k R s" "\<not> settled (heap s r)" "r < sequence s"
  shows "jobs (retire r s) = AList.delete (cj_id (job (heap s r))) (jobs s)"
  using assms by (simp add: jobs_inv_def retire_def Let_def)

lemma retire_jobs_inv:
  assumes inv: "jobs_inv k (insert r R) s" and live: "\<not> settled (heap s r)" "r < sequence s"
  shows "jobs_inv k R (notify (JobResult r i out why) (retire r s))"
proof -
  have q: "set (queued (retire r s)) = set (queued s) - {r}" "distinct (queued (retire r s))"
    using inv retire_queue [of s r] by (simp_all add: jobs_inv_def)
  have un: "r' = r" if "r' < sequence s" "\<not> settled (heap s r')" "cj_id (job (heap s r')) = cj_id (job (heap s r))" for r'
    using inv live that unfolding jobs_inv_def by (metis option.inject)
  have "r \<notin> set (results (trace s))" using inv live by (simp add: jobs_inv_def)
  with inv live q show ?thesis
    unfolding jobs_inv_def
    by (auto simp: retire_jobs [OF inv live] delete_conv' distinct_delete runtime_ok_def dest: un)
qed

lemma settle_jobs_inv:
  assumes "jobs_inv k (insert r R) s" "r < sequence s"
  shows "jobs_inv k R (settle k env r i out why s)"
proof (cases "settled (heap s r)")
  case True
  with assms show ?thesis by (auto simp: settle_def jobs_inv_def)
next
  case False
  then have "jobs_inv k R (notify (JobResult r i out why) (retire r s))"
    using assms by (intro retire_jobs_inv)
  then show ?thesis unfolding settle_retire [OF False] by (rule enqueue_all)
qed

lemma settle_own_inv:
  assumes "own_inv L X s" "distinct (queued s)"
  shows "own_inv L (X - {r}) (settle k env r i out why s)"
proof (cases "settled (heap s r)")
  case True
  with assms show ?thesis by (auto simp: settle_def own_inv_def)
next
  case False
  have "own_inv L (X - {r}) (notify (JobResult r i out why) (retire r s))"
    using assms retire_queue [of s r] by (simp add: own_inv_def)
  then show ?thesis unfolding settle_retire [OF False] by (rule enqueue_all)
qed

lemma settle_monotone:
  "sequence s \<le> sequence (settle k env r i out why s)"
  "r' < sequence s \<Longrightarrow> r' \<noteq> r \<Longrightarrow> heap (settle k env r i out why s) r' = heap s r'"
  "r < sequence s \<Longrightarrow> settled (heap (settle k env r i out why s) r)"
proof -
  let ?t = "notify (JobResult r i out why) (retire r s)"
  show "sequence s \<le> sequence (settle k env r i out why s)"
    using enqueue_all(3) [of ?t k "on_result env i"]
    by (cases "settled (heap s r)") (simp add: settle_def, simp add: settle_retire)
  show "r' < sequence s \<Longrightarrow> r' \<noteq> r \<Longrightarrow> heap (settle k env r i out why s) r' = heap s r'"
    using enqueue_all(4) [of r' ?t k "on_result env i"]
    by (cases "settled (heap s r)") (simp add: settle_def, simp add: settle_retire)
  show "r < sequence s \<Longrightarrow> settled (heap (settle k env r i out why s) r)"
    using enqueue_all(4) [of r ?t k "on_result env i"]
    by (cases "settled (heap s r)") (simp add: settle_def, simp add: settle_retire)
qed

lemma requeue_jobs_inv:
  assumes "jobs_inv k R s" "r < sequence s"
  shows "jobs_inv k R (requeue r why s)"
proof (cases "settled (heap s r) \<or> completed (heap s r) \<or> cancelSent (heap s r)")
  case True
  with assms show ?thesis by (simp add: requeue_def)
next
  case False
  let ?t = "upd_job r (jr_state_update (\<lambda>_. JQueued)) s"
  let ?u = "if r \<in> set (queued ?t) then ?t else ?t\<lparr>queued := queued ?t @ [r]\<rparr>"
  have "jobs_inv k R ?u"
    using assms False by (auto simp: jobs_inv_def runtime_ok_def runtime_live_def)
  with False show ?thesis by (simp add: requeue_def Let_def)
qed

lemma requeue_own_inv:
  assumes "jobs_inv k {} s" "own_inv L X s" "r < sequence s" "\<forall>l. lane_job s l \<noteq> Some r"
  shows "own_inv L (X - {r}) (requeue r why s)"
proof (cases "settled (heap s r)")
  case True
  with assms show ?thesis by (auto simp: requeue_def own_inv_def)
next
  case False
  let ?t = "upd_job r (jr_state_update (\<lambda>_. JQueued)) s"
  let ?u = "if r \<in> set (queued ?t) then ?t else ?t\<lparr>queued := queued ?t @ [r]\<rparr>"
  have live: "\<not> completed (heap s r)" "\<not> cancelSent (heap s r)"
    using assms(1,3) False by (simp_all add: jobs_inv_def runtime_live_def)
  have "own_inv L (X - {r}) ?u"
    using assms(2,4) by (auto simp: own_inv_def)
  with False live show ?thesis by (simp add: requeue_def Let_def)
qed

lemma requeue_heap:
  "settled (heap (requeue r why s) r') = settled (heap s r')"
  by (simp add: requeue_def Let_def)

lemma detach_jobs_inv [simp]: "jobs_inv k R (detach l s) = jobs_inv k R s"
  by (simp add: jobs_inv_def)

lemma detach_own_inv:
  assumes inv: "own_inv L X s"
  shows "own_inv L (X \<union> set_option (lane_job s (lane_ref l))) (detach l s)"
proof (rule own_invI)
  fix r
  assume "r < sequence (detach l s)" "\<not> settled (heap (detach l s) r)"
  then show "r \<in> set (queued (detach l s)) \<or> (\<exists>l' \<in> L. lane_job (detach l s) l' = Some r) \<or>
      r \<in> X \<union> set_option (lane_job s (lane_ref l))"
    using own_place [OF inv, of r] by (cases "lane_job s (lane_ref l) = Some r") (auto, metis)
next
  fix r
  assume "r \<in> X \<union> set_option (lane_job s (lane_ref l))"
  then show "r < sequence (detach l s) \<and> r \<notin> set (queued (detach l s)) \<and> (\<forall>l'. lane_job (detach l s) l' \<noteq> Some r)"
    using own_loose [OF inv, of r] own_lane [OF inv, of "lane_ref l" r] own_unique [OF inv, of "lane_ref l" r]
    by auto
next
  fix l' r
  assume "lane_job (detach l s) l' = Some r"
  then show "l' \<in> L \<and> r < sequence (detach l s) \<and> everAdmitted (heap (detach l s) r) \<and> r \<notin> set (queued (detach l s))"
    using own_lane [OF inv, of l' r] by (simp split: if_splits)
next
  fix l1 l2 r
  assume "lane_job (detach l s) l1 = Some r" "lane_job (detach l s) l2 = Some r"
  then show "l1 = l2" using own_unique [OF inv, of l1 r l2] by (simp split: if_splits)
qed

text \<open>The core of \<^verbatim>\<open>interruptCycle\<close> and \<^verbatim>\<open>finalizeCycleJobs\<close>: a lane lets go of its job and the job is
  queued again or settled.\<close>

definition lane_released :: "lane_id set \<Rightarrow> cover_config \<Rightarrow> lane_runtime \<Rightarrow> scheduler \<Rightarrow> scheduler \<Rightarrow> bool" where
  "lane_released L k l s s' \<longleftrightarrow>
     jobs_inv k {} s' \<and> own_inv L {} s' \<and> lane_job s' = (lane_job s)(lane_ref l := None) \<and>
     status s' = status s \<and> running s' = running s \<and> generation s' = generation s \<and> timer s' = timer s \<and>
     cycle s' = cycle s \<and> cycles_made s' = cycles_made s \<and> pending s' = pending s \<and>
     cells_sent (trace s') = cells_sent (trace s)"

lemma detached_job:
  assumes inv: "jobs_inv k {} s" "own_inv L {} s" and held: "lane_job s (lane_ref l) = Some r"
  shows "jobs_inv k {} (detach l s)" "own_inv L {r} (detach l s)" "r < sequence (detach l s)"
    "\<forall>l'. lane_job (detach l s) l' \<noteq> Some r" "distinct (queued (detach l s))"
proof -
  show own: "own_inv L {r} (detach l s)" using detach_own_inv [OF inv(2), of l] held by simp
  show "r < sequence (detach l s)" "\<forall>l'. lane_job (detach l s) l' \<noteq> Some r"
    using own_loose [OF own, of r] by simp_all
  show "jobs_inv k {} (detach l s)" "distinct (queued (detach l s))"
    using inv by simp (simp add: inv(1) [unfolded jobs_inv_def])
qed

lemma interrupt_lane_released:
  assumes inv: "jobs_inv k {} s" "own_inv L {} s"
  shows "lane_released L k l s (interrupt_lane why l s)"
proof (cases "lane_job s (lane_ref l)")
  case None
  with inv detach_own_inv [OF inv(2), of l] show ?thesis
    by (simp add: lane_released_def interrupt_lane_def)
next
  case (Some r)
  note d = detached_job [OF inv Some]
  have "jobs_inv k {} (requeue r why (detach l s))" by (rule requeue_jobs_inv [OF d(1,3)])
  moreover have "own_inv L {} (requeue r why (detach l s))"
    using requeue_own_inv [OF d(1,2,3,4), of why] by simp
  ultimately show ?thesis
    using Some by (simp add: lane_released_def interrupt_lane_def Let_def)
qed

lemma finalize_frame:
  "lane_job (finalize_lane k env l s) = (lane_job s)(lane_ref l := None)"
  "status (finalize_lane k env l s) = status s" "running (finalize_lane k env l s) = running s"
  "generation (finalize_lane k env l s) = generation s" "timer (finalize_lane k env l s) = timer s"
  "cycle (finalize_lane k env l s) = cycle s" "cycles_made (finalize_lane k env l s) = cycles_made s"
  "pending (finalize_lane k env l s) = pending s"
  "cells_sent (trace (finalize_lane k env l s)) = cells_sent (trace s)"
  by (simp_all add: finalize_lane_def Let_def split: option.split)

lemma finalize_lane_released:
  assumes inv: "jobs_inv k {} s" "own_inv L {} s"
  shows "lane_released L k l s (finalize_lane k env l s)"
proof (cases "lane_job s (lane_ref l)")
  case None
  with inv detach_own_inv [OF inv(2), of l] show ?thesis
    by (simp add: lane_released_def finalize_lane_def)
next
  case (Some r)
  note d = detached_job [OF inv Some]
  let ?s = "detach l s"
  let ?id = "cj_id (job (heap ?s r))"
  have "jobs_inv k {} (finalize_lane k env l s) \<and> own_inv L {} (finalize_lane k env l s)"
  proof (cases "settled (heap ?s r)")
    case True
    then have "own_inv L {} ?s" using own_drop_settled [OF d(2), of r] by simp
    with True Some d(1) show ?thesis by (simp add: finalize_lane_def)
  next
    case False
    show ?thesis
    proof (cases "cancelRequested (heap ?s r) \<and> \<not> cancelSent (heap ?s r)")
      case True
      then have "finalize_lane k env l s = requeue r ''missed-deadline'' ?s"
        using False Some by (simp add: finalize_lane_def)
      then show ?thesis
        using requeue_own_inv [OF d(1,2,3,4)] requeue_jobs_inv [OF d(1,3)] by simp
    next
      case notCancel: False
      then have "finalize_lane k env l s = settle k env r ?id Failed (Some ''capacity-exhausted'') ?s"
        using False Some by (auto simp: finalize_lane_def)
      then show ?thesis
        using settle_own_inv [OF d(2,5), of r] settle_jobs_inv [OF jobs_inv_mono [OF d(1)] d(3)] by simp
    qed
  qed
  with Some show ?thesis unfolding lane_released_def by (simp add: finalize_frame)
qed

text \<open>A whole cycle lets go of its jobs.\<close>

definition all_released :: "lane_id set \<Rightarrow> cover_config \<Rightarrow> lane_runtime list \<Rightarrow> scheduler \<Rightarrow> scheduler \<Rightarrow> bool" where
  "all_released L k ls s s' \<longleftrightarrow>
     jobs_inv k {} s' \<and> own_inv L {} s' \<and>
     lane_job s' = (\<lambda>i. if i \<in> lane_ref ` set ls then None else lane_job s i) \<and>
     status s' = status s \<and> running s' = running s \<and> generation s' = generation s \<and> timer s' = timer s \<and>
     cycle s' = cycle s \<and> cycles_made s' = cycles_made s \<and> pending s' = pending s \<and>
     cells_sent (trace s') = cells_sent (trace s)"

lemma fold_released:
  assumes step: "\<And>l s. jobs_inv k {} s \<Longrightarrow> own_inv L {} s \<Longrightarrow> lane_released L k l s (f l s)"
    and "jobs_inv k {} s" "own_inv L {} s"
  shows "all_released L k ls s (fold f ls s)"
  using assms(2,3)
proof (induction ls arbitrary: s)
  case Nil
  then show ?case by (simp add: all_released_def)
next
  case (Cons l ls)
  note r = step [OF Cons.prems, of l, unfolded lane_released_def]
  have "all_released L k ls (f l s) (fold f ls (f l s))" using r by (intro Cons.IH) simp_all
  with r show ?case by (auto simp: all_released_def fun_eq_iff)
qed

lemmas interrupt_released = fold_released [OF interrupt_lane_released]
lemmas finalize_released = fold_released [OF finalize_lane_released]

section \<open>The order of the queue\<close>

text \<open>The order the queue is served in: cancellations, then control jobs, then data; within a tier by
  priority, then first come first served.\<close>

definition served_before :: "job_runtime \<Rightarrow> job_runtime \<Rightarrow> bool" where
  "served_before a b \<longleftrightarrow>
     jobTier a < jobTier b \<or> jobTier a = jobTier b \<and>
       (priority_of b < priority_of a \<or> priority_of a = priority_of b \<and> jr_sequence a \<le> jr_sequence b)"

lemma compare_served: "compareQueuedJobs a b \<le> 0 \<longleftrightarrow> served_before a b"
  by (auto simp: compareQueuedJobs_def served_before_def Let_def)

interpretation queue_order: js_comparator compareQueuedJobs
  by unfold_locales (auto simp: compare_served served_before_def)

interpretation lane_order: js_comparator "\<lambda>a b. laneIndex a - laneIndex b"
  by unfold_locales auto

lemma dequeue_Some:
  assumes "dequeue s = (Some r, s')"
  shows "sort_cmp (\<lambda>a b. compareQueuedJobs (heap s a) (heap s b)) (queued s) = r # queued s'"
  using assms by (auto simp: dequeue_def sortQueue_def Let_def split: list.splits)

text \<open>The job taken for a lane is the first of the queue in the documented order: no waiting job
  of a higher tier, of the same tier and a higher priority, or of both the same and enqueued
  earlier is passed over; exactly that job leaves the queue.\<close>

theorem dequeue_serves_first:
  assumes "dequeue s = (Some r, s')"
  shows "mset (queued s) = add_mset r (mset (queued s')) \<and>
    (\<forall>r' \<in> set (queued s). served_before (heap s r) (heap s r'))"
proof -
  note srt = dequeue_Some [OF assms]
  have "mset (queued s) = mset (r # queued s')" using srt mset_sort_cmp by metis
  moreover have "compareQueuedJobs (heap s r) (heap s r') \<le> 0" if "r' \<in> set (queued s)" for r'
    using js_comparator.sort_cmp_first [OF queue_order.lifted srt that] .
  ultimately show ?thesis by (simp add: compare_served)
qed

definition two_jobs :: scheduler where
  "two_jobs = initial_scheduler\<lparr>sequence := 2, queued := [0, 1],
     heap := (heap initial_scheduler)(1 := no_runtime\<lparr>jr_sequence := 1, cancelRequested := True\<rparr>)\<rparr>"

theorem dequeue_serves_first_witness:
  "\<exists>s'. dequeue two_jobs = (Some 1, s') \<and> mset (queued two_jobs) = add_mset 1 (mset (queued s'))"
proof -
  have "fst (dequeue two_jobs) = Some 1" by code_simp
  then have d: "dequeue two_jobs = (Some 1, snd (dequeue two_jobs))" by (cases "dequeue two_jobs") simp
  with dequeue_serves_first [OF d] show ?thesis by blast
qed

end
