(* ===== verification/Cover_Control.thy ===== *)
theory Cover_Control
  imports Cover_Jobs
begin

text \<open>
  The control state of the cover scheduler: at any moment there is at most one live timer or one
  live slot in flight, what is live belongs to the open cycle and its next slot, jobs sit on lanes
  only while the scheduler is active, and every slot of every cycle is handed to the transport at
  most once.
\<close>

section \<open>The invariant\<close>

definition lane_refs :: "scheduler \<Rightarrow> lane_id set" where
  "lane_refs s = (case cycle s of None \<Rightarrow> {} | Some c \<Rightarrow> lane_ref ` set (lanes c))"

definition idle :: "scheduler \<Rightarrow> bool" where
  "idle s \<longleftrightarrow> (\<forall>l. lane_job s l = None)"

definition cycle_ok :: "cover_config \<Rightarrow> nat \<Rightarrow> cycle_runtime \<Rightarrow> bool" where
  "cycle_ok k n c \<longleftrightarrow>
     distinct (map laneIndex (lanes c)) \<and> (\<forall>l \<in> set (lanes c). lane_ref l = LaneId (cy_id c) (laneIndex l)) \<and>
     cy_id c < n \<and> endMs c = startMs c + cycleDurationMs (schedule k) \<and> 0 \<le> nextSlotOrdinal c"

definition at_slot :: "cover_config \<Rightarrow> scheduler \<Rightarrow> cover_slot \<Rightarrow> cycle_runtime \<Rightarrow> bool" where
  "at_slot k s slot c \<longleftrightarrow>
     status s = Active \<and> cycle s = Some c \<and> slot = slotAt (schedule k) c (nextSlotOrdinal c) \<and>
     nextSlotOrdinal c < total_slots (schedule k)"

definition timer_ok :: "cover_config \<Rightarrow> scheduler \<Rightarrow> armed_timer \<Rightarrow> bool" where
  "timer_ok k s t \<longleftrightarrow>
     t_generation t = generation s \<and>
     (case t_kind t of
        OpenBoundary \<Rightarrow> cycle s = None
      | CycleBoundary \<Rightarrow> (\<exists>c. cycle s = Some c \<and> endMs c = t_deadlineMs t)
      | SlotTimer slot \<Rightarrow> t_deadlineMs t = deadlineMs slot \<and> (\<exists>c. at_slot k s slot c))"

fun await_ok :: "slot_flight \<times> slot_await \<Rightarrow> bool" where
  "await_ok (fl, AwaitRequest req) = (rq_slot req = f_slot fl)"
| "await_ok (fl, AwaitSend req) = (rq_slot req = f_slot fl)"
| "await_ok _ = True"

definition flight_ok :: "cover_config \<Rightarrow> scheduler \<Rightarrow> slot_flight \<times> slot_await \<Rightarrow> bool" where
  "flight_ok k s p \<longleftrightarrow>
     await_ok p \<and> f_generation (fst p) \<le> generation s \<and>
     (f_generation (fst p) = generation s \<longrightarrow> timer s = None \<and>
        (\<exists>c. at_slot k s (f_slot (fst p)) c \<and> cy_id c = f_cycle (fst p) \<and> f_lane (fst p) \<in> set (lanes c)))"

definition live_flights :: "scheduler \<Rightarrow> (slot_flight \<times> slot_await) list" where
  "live_flights s = filter (\<lambda>p. f_generation (fst p) = generation s) (pending s)"

text \<open>The slots already handed to the transport: cycle number and deadline.\<close>

fun sent_key :: "int \<times> lane_id \<times> cover_send_request \<Rightarrow> nat \<times> int" where
  "sent_key (t, LaneId n i, req) = (n, deadlineMs (rq_slot req))"

definition sent_keys :: "cover_output list \<Rightarrow> (nat \<times> int) list" where
  "sent_keys tr = map sent_key (cells_sent tr)"

fun is_sending :: "slot_flight \<times> slot_await \<Rightarrow> bool" where
  "is_sending (fl, AwaitSend req) = True"
| "is_sending _ = False"

text \<open>The next slot of the open cycle is not overtaken, and unsent while a timer or a flight may
  still send it.\<close>

definition unsent_next :: "cover_config \<Rightarrow> scheduler \<Rightarrow> bool" where
  "unsent_next k s \<longleftrightarrow>
     (\<forall>c d. cycle s = Some c \<longrightarrow> status s = Active \<longrightarrow> nextSlotOrdinal c < total_slots (schedule k) \<longrightarrow>
        (cy_id c, d) \<in> set (sent_keys (trace s)) \<longrightarrow>
        d \<le> deadlineMs (slotAt (schedule k) c (nextSlotOrdinal c)) \<and>
        (timer s \<noteq> None \<or> (\<exists>p \<in> set (live_flights s). \<not> is_sending p) \<longrightarrow>
           d < deadlineMs (slotAt (schedule k) c (nextSlotOrdinal c))))"

definition sends_inv :: "cover_config \<Rightarrow> scheduler \<Rightarrow> bool" where
  "sends_inv k s \<longleftrightarrow>
     distinct (sent_keys (trace s)) \<and> (\<forall>(n, d) \<in> set (sent_keys (trace s)). n < cycles_made s) \<and>
     (\<forall>(t, l, req) \<in> set (cells_sent (trace s)). t \<le> deadlineMs (rq_slot req) + maxTimerDriftMs k)"

definition base_inv :: "cover_config \<Rightarrow> scheduler \<Rightarrow> bool" where
  "base_inv k s \<longleftrightarrow>
     jobs_inv k {} s \<and> own_inv (lane_refs s) {} s \<and> (\<forall>c. cycle s = Some c \<longrightarrow> cycle_ok k (cycles_made s) c) \<and>
     (status s = Stopped \<longleftrightarrow> \<not> running s) \<and> (\<forall>p \<in> set (pending s). await_ok p) \<and> sends_inv k s"

definition quiet :: "scheduler \<Rightarrow> bool" where
  "quiet s \<longleftrightarrow> timer s = None \<and> (\<forall>p \<in> set (pending s). f_generation (fst p) < generation s)"

definition control_inv :: "cover_config \<Rightarrow> scheduler \<Rightarrow> bool" where
  "control_inv k s \<longleftrightarrow>
     (status s \<noteq> Active \<longrightarrow> idle s) \<and> (\<forall>t. timer s = Some t \<longrightarrow> timer_ok k s t) \<and>
     (\<forall>p \<in> set (pending s). flight_ok k s p) \<and> length (live_flights s) \<le> 1 \<and> unsent_next k s"

definition sched_inv :: "cover_config \<Rightarrow> scheduler \<Rightarrow> bool" where
  "sched_inv k s \<longleftrightarrow> base_inv k s \<and> control_inv k s \<and> (status s = Active \<longrightarrow> cycle s \<noteq> None)"

section \<open>Frames\<close>

lemmas base_defs = base_inv_def jobs_inv_def own_inv_def lane_refs_def sends_inv_def sent_keys_def

lemma setStatus_frame [simp]:
  "status (setStatus st w s) = st" "running (setStatus st w s) = running s"
  "sequence (setStatus st w s) = sequence s" "generation (setStatus st w s) = generation s"
  "timer (setStatus st w s) = timer s" "cycle (setStatus st w s) = cycle s"
  "queued (setStatus st w s) = queued s" "jobs (setStatus st w s) = jobs s" "heap (setStatus st w s) = heap s"
  "lane_job (setStatus st w s) = lane_job s" "cycles_made (setStatus st w s) = cycles_made s"
  "pending (setStatus st w s) = pending s" "results (trace (setStatus st w s)) = results (trace s)"
  "cells_sent (trace (setStatus st w s)) = cells_sent (trace s)"
  by (simp_all add: setStatus_def)

lemma disarm_frame [simp]:
  "status (disarm s) = status s" "running (disarm s) = running s" "sequence (disarm s) = sequence s"
  "generation (disarm s) = Suc (generation s)" "timer (disarm s) = None" "cycle (disarm s) = cycle s"
  "queued (disarm s) = queued s" "jobs (disarm s) = jobs s" "heap (disarm s) = heap s"
  "lane_job (disarm s) = lane_job s" "cycles_made (disarm s) = cycles_made s"
  "pending (disarm s) = pending s" "trace (disarm s) = trace s"
  by (simp_all add: disarm_def)

lemma arm_frame [simp]:
  "status (arm d kd env s) = status s" "running (arm d kd env s) = running s"
  "sequence (arm d kd env s) = sequence s" "generation (arm d kd env s) = Suc (generation s)"
  "cycle (arm d kd env s) = cycle s" "queued (arm d kd env s) = queued s" "jobs (arm d kd env s) = jobs s"
  "heap (arm d kd env s) = heap s" "lane_job (arm d kd env s) = lane_job s"
  "cycles_made (arm d kd env s) = cycles_made s" "pending (arm d kd env s) = pending s"
  "trace (arm d kd env s) = trace s"
  "timer (arm d kd env s) = Some \<lparr>t_deadlineMs = d, t_kind = kd, t_generation = Suc (generation s),
     t_delayMs = min MAX_TIMER_DELAY_MS (max 0 (d - now env))\<rparr>"
  by (simp_all add: arm_def armRemaining_def)

lemma base_cong [simp]:
  "base_inv k (disarm s) = base_inv k s" "base_inv k (s\<lparr>timer := t\<rparr>) = base_inv k s"
  "base_inv k (arm d kd env s) = base_inv k s"
  by (simp_all add: base_defs)

lemma base_setStatus: "base_inv k s \<Longrightarrow> (st = Stopped \<longleftrightarrow> \<not> running s) \<Longrightarrow> base_inv k (setStatus st w s)"
  by (simp add: base_defs)

lemma idle_cong [simp]:
  "idle (disarm s) = idle s" "idle (s\<lparr>timer := t\<rparr>) = idle s" "idle (arm d kd env s) = idle s"
  "idle (setStatus st w s) = idle s"
  by (simp_all add: idle_def)

lemma quiet_setStatus [simp]: "quiet (setStatus st w s) = quiet s"
  by (simp add: quiet_def)

lemma quiet_disarm: "control_inv k s \<Longrightarrow> quiet (disarm s)"
  by (auto simp: quiet_def control_inv_def flight_ok_def le_imp_less_Suc)

lemma live_flights_quiet: "quiet s \<Longrightarrow> live_flights s = []"
  by (auto simp: live_flights_def quiet_def filter_empty_conv)

text \<open>How operations end: with nothing live, or with a timer freshly armed.\<close>

lemma end_quiet:
  assumes "base_inv k s" "quiet s" "status s \<noteq> Active" "idle s"
  shows "sched_inv k s"
  using assms live_flights_quiet [OF assms(2)]
  by (auto simp: sched_inv_def control_inv_def unsent_next_def quiet_def flight_ok_def base_inv_def)

lemma end_armed:
  assumes base: "base_inv k s" and stale: "\<forall>p \<in> set (pending s). f_generation (fst p) \<le> generation s"
    and "status s \<noteq> Active \<longrightarrow> idle s" "status s = Active \<longrightarrow> cycle s \<noteq> None"
    and kind: "case kd of OpenBoundary \<Rightarrow> cycle s = None
      | CycleBoundary \<Rightarrow> (\<exists>c. cycle s = Some c \<and> endMs c = d)
      | SlotTimer slot \<Rightarrow> d = deadlineMs slot \<and> (\<exists>c. at_slot k s slot c)"
    and unsent: "\<forall>c d. cycle s = Some c \<longrightarrow> status s = Active \<longrightarrow> nextSlotOrdinal c < total_slots (schedule k) \<longrightarrow>
      (cy_id c, d) \<in> set (sent_keys (trace s)) \<longrightarrow> d < deadlineMs (slotAt (schedule k) c (nextSlotOrdinal c))"
  shows "sched_inv k (arm d kd env s)"
proof -
  have old: "\<forall>p \<in> set (pending s). f_generation (fst p) < Suc (generation s)"
    using stale by (simp add: less_Suc_eq_le)
  then have none: "live_flights (arm d kd env s) = []"
    by (auto simp: live_flights_def filter_empty_conv)
  have "timer_ok k (arm d kd env s) t" if "timer (arm d kd env s) = Some t" for t
    using that kind by (auto simp: timer_ok_def at_slot_def split: timer_kind.splits)
  moreover have "flight_ok k (arm d kd env s) p" if "p \<in> set (pending s)" for p
    using that old base by (auto simp: flight_ok_def base_inv_def)
  moreover have "unsent_next k (arm d kd env s)"
    using unsent by (force simp: unsent_next_def none)
  ultimately show ?thesis
    using assms none by (simp add: sched_inv_def control_inv_def)
qed

section \<open>Interrupting and closing the cycle\<close>

definition released :: "cover_config \<Rightarrow> scheduler \<Rightarrow> scheduler \<Rightarrow> bool" where
  "released k s s' \<longleftrightarrow>
     base_inv k s' \<and> idle s' \<and> status s' = status s \<and> running s' = running s \<and>
     generation s' = generation s \<and> timer s' = timer s \<and> cycle s' = cycle s \<and>
     cycles_made s' = cycles_made s \<and> pending s' = pending s \<and> cells_sent (trace s') = cells_sent (trace s)"

lemma idle_no_cycle: "base_inv k s \<Longrightarrow> cycle s = None \<Longrightarrow> idle s"
proof -
  assume "base_inv k s" "cycle s = None"
  then have own: "own_inv {} {} s" by (simp add: base_inv_def lane_refs_def)
  have "lane_job s l = None" for l using own_lane [OF own, of l] by (cases "lane_job s l") auto
  then show ?thesis by (simp add: idle_def)
qed

lemma base_running: "base_inv k s \<Longrightarrow> (status s = Stopped) = (\<not> running s)"
  by (simp add: base_inv_def)

lemma all_released_base:
  assumes base: "base_inv k s" and c: "cycle s = Some c"
    and rel: "all_released (lane_refs s) k (lanes c) s s'"
  shows "released k s s'"
proof -
  have own: "own_inv (lane_refs s) {} s" using base by (simp add: base_inv_def)
  have "lane_job s' l = None" for l
  proof (cases "lane_job s l")
    case None
    with rel show ?thesis by (simp add: all_released_def)
  next
    case (Some r)
    with own_lane [OF own Some] c have "l \<in> lane_ref ` set (lanes c)" by (simp add: lane_refs_def)
    with rel show ?thesis by (simp add: all_released_def)
  qed
  then have "idle s'" by (simp add: idle_def)
  moreover have "lane_refs s' = lane_refs s" using rel by (simp add: lane_refs_def all_released_def)
  ultimately show ?thesis
    using rel base by (simp add: released_def all_released_def base_inv_def sends_inv_def sent_keys_def)
qed

lemma interruptCycle_released: "base_inv k s \<Longrightarrow> released k s (interruptCycle w s)"
proof (cases "cycle s")
  case None
  assume "base_inv k s"
  then show ?thesis using None idle_no_cycle [of k s] by (simp add: released_def interruptCycle_def)
next
  case (Some c)
  assume base: "base_inv k s"
  then have "all_released (lane_refs s) k (lanes c) s (fold (interrupt_lane w) (lanes c) s)"
    by (intro interrupt_released) (simp_all add: base_inv_def)
  with all_released_base [OF base Some] Some show ?thesis by (simp add: interruptCycle_def)
qed

lemma finalizeCycleJobs_released: "base_inv k s \<Longrightarrow> released k s (finalizeCycleJobs k env s)"
proof (cases "cycle s")
  case None
  assume "base_inv k s"
  then show ?thesis using None idle_no_cycle [of k s] by (simp add: released_def finalizeCycleJobs_def)
next
  case (Some c)
  assume base: "base_inv k s"
  then have "all_released (lane_refs s) k (lanes c) s (fold (finalize_lane k env) (lanes c) s)"
    by (intro finalize_released) (simp_all add: base_inv_def)
  with all_released_base [OF base Some] Some show ?thesis by (simp add: finalizeCycleJobs_def)
qed

lemma close_fold_frame:
  "let s' = fold (\<lambda>lane. notify (LaneClosed (openContext lane) w)) ls s
   in status s' = status s \<and> running s' = running s \<and> sequence s' = sequence s \<and> generation s' = generation s \<and>
      timer s' = timer s \<and> cycle s' = cycle s \<and> queued s' = queued s \<and> jobs s' = jobs s \<and> heap s' = heap s \<and>
      lane_job s' = lane_job s \<and> cycles_made s' = cycles_made s \<and> pending s' = pending s \<and>
      results (trace s') = results (trace s) \<and> cells_sent (trace s') = cells_sent (trace s)"
  by (induction ls arbitrary: s) (simp_all add: Let_def)

lemma closeCurrentCycle_frame [simp]:
  "status (snd (closeCurrentCycle w env s)) = status s" "running (snd (closeCurrentCycle w env s)) = running s"
  "generation (snd (closeCurrentCycle w env s)) = generation s" "timer (snd (closeCurrentCycle w env s)) = timer s"
  "cycle (snd (closeCurrentCycle w env s)) = None" "lane_job (snd (closeCurrentCycle w env s)) = lane_job s"
  "pending (snd (closeCurrentCycle w env s)) = pending s"
  "cycles_made (snd (closeCurrentCycle w env s)) = cycles_made s"
  "cells_sent (trace (snd (closeCurrentCycle w env s))) = cells_sent (trace s)"
  using close_fold_frame [of w _ s]
  by (auto simp: closeCurrentCycle_def Let_def split: option.splits)

lemma own_idle: "own_inv L X s \<Longrightarrow> idle s \<Longrightarrow> own_inv L' X s"
  by (simp add: own_inv_def idle_def)

lemma base_no_cycle:
  assumes base: "base_inv k s" and idle: "idle s"
    and same: "sequence s' = sequence s" "heap s' = heap s" "queued s' = queued s" "jobs s' = jobs s"
      "lane_job s' = lane_job s" "cycles_made s' = cycles_made s" "pending s' = pending s"
      "status s' = status s" "running s' = running s" "results (trace s') = results (trace s)"
      "cells_sent (trace s') = cells_sent (trace s)" and none: "cycle s' = None"
  shows "base_inv k s'"
proof -
  have "jobs_inv k {} s'" using base same by (simp add: base_inv_def jobs_inv_def)
  moreover have "own_inv {} {} s" using own_idle [of "lane_refs s" "{}" s] base idle by (simp add: base_inv_def)
  then have "own_inv (lane_refs s') {} s'" using same none by (simp add: own_inv_def lane_refs_def)
  moreover have "sends_inv k s'" using base same by (simp add: base_inv_def sends_inv_def sent_keys_def)
  ultimately show ?thesis using base same none by (simp add: base_inv_def)
qed

lemma closeCurrentCycle_base:
  assumes "base_inv k s" "idle s"
  shows "base_inv k (snd (closeCurrentCycle w env s))" "idle (snd (closeCurrentCycle w env s))"
proof -
  show "idle (snd (closeCurrentCycle w env s))" using assms(2) by (simp add: idle_def)
  show "base_inv k (snd (closeCurrentCycle w env s))"
  proof (cases "cycle s")
    case None
    with assms show ?thesis by (simp add: closeCurrentCycle_def)
  next
    case (Some c)
    show ?thesis
      using close_fold_frame [of w "sort_cmp (\<lambda>a b. laneIndex a - laneIndex b) (lanes c)" s] Some
      by (intro base_no_cycle [OF assms]) (simp_all add: closeCurrentCycle_def Let_def)
  qed
qed

lemma quiet_close [simp]: "quiet (snd (closeCurrentCycle w env s)) = quiet s"
  by (simp add: quiet_def)

lemma close_at_boundary_ok:
  assumes "base_inv k s" "quiet s" "status s \<noteq> Active" "idle s"
  shows "sched_inv k (close_at_boundary env s)"
proof (cases "cycle s")
  case None
  with assms show ?thesis by (simp add: close_at_boundary_def end_quiet)
next
  case (Some c)
  show ?thesis
  proof (cases "now env \<le> endMs c")
    case True
    with Some assms show ?thesis
      by (auto simp: close_at_boundary_def armCycleBoundary_def quiet_def less_imp_le intro!: end_armed)
  next
    case False
    with Some assms show ?thesis
      using closeCurrentCycle_base [OF assms(1,4)]
      by (auto simp: close_at_boundary_def intro!: end_quiet)
  qed
qed

lemma close_at_boundary_frame:
  "status (close_at_boundary env s) = status s" "running (close_at_boundary env s) = running s"
  "pending (close_at_boundary env s) = pending s" "lane_job (close_at_boundary env s) = lane_job s"
  "cells_sent (trace (close_at_boundary env s)) = cells_sent (trace s)"
  "cycles_made (close_at_boundary env s) = cycles_made s"
  "generation s \<le> generation (close_at_boundary env s)"
  "cycle (close_at_boundary env s) \<noteq> None \<Longrightarrow> timer (close_at_boundary env s) \<noteq> None"
  by (simp_all add: close_at_boundary_def armCycleBoundary_def split: option.splits if_splits)

section \<open>The operations of the owner\<close>

lemma suspend_inv:
  assumes "base_inv k s" "control_inv k s"
  shows "sched_inv k (snd (suspend w env s))"
proof (cases "status s = Stopped \<or> status s = Suspended")
  case True
  with assms show ?thesis by (auto simp: suspend_def sched_inv_def)
next
  case False
  let ?d = "setStatus Suspended (Some w) (disarm s)"
  have "base_inv k ?d"
    using assms(1) False base_running [OF assms(1)] by (intro base_setStatus) auto
  then have rel: "released k ?d (interruptCycle ''suspended'' ?d)" by (rule interruptCycle_released)
  moreover have "quiet ?d" using quiet_disarm [OF assms(2)] by simp
  ultimately have "sched_inv k (close_at_boundary env (interruptCycle ''suspended'' ?d))"
    by (intro close_at_boundary_ok) (simp_all add: released_def quiet_def)
  with False show ?thesis by (simp add: suspend_def)
qed

lemma arm_open_ok:
  assumes "base_inv k s" "quiet s" "status s \<noteq> Active" "cycle s = None"
  shows "sched_inv k (armOpenBoundary b env s)"
  using assms idle_no_cycle [of k s]
  by (auto simp: armOpenBoundary_def quiet_def less_imp_le intro!: end_armed)

lemma degrade_inv:
  assumes "base_inv k s" "control_inv k s"
  shows "sched_inv k (snd (degrade k w env s))"
proof (cases "status s = Stopped \<or> status s = Suspended")
  case True
  with assms show ?thesis by (auto simp: degrade_def sched_inv_def)
next
  case False
  let ?d = "setStatus Degraded (Some w) (disarm s)"
  let ?i = "interruptCycle w ?d"
  have "base_inv k ?d"
    using assms(1) False base_running [OF assms(1)] by (intro base_setStatus) auto
  then have rel: "released k ?d ?i" by (rule interruptCycle_released)
  have q: "quiet ?d" using quiet_disarm [OF assms(2)] by simp
  have ok: "base_inv k ?i" "quiet ?i" "status ?i \<noteq> Active" "idle ?i" "running ?i"
    using rel q False base_running [OF assms(1)] by (auto simp: released_def quiet_def)
  note closed = close_at_boundary_ok [OF ok(1-4), of env]
  show ?thesis
  proof (cases "cycle (close_at_boundary env ?i) \<noteq> None")
    case True
    with False closed show ?thesis by (simp add: degrade_def)
  next
    case noCycle: False
    have "quiet (close_at_boundary env ?i)"
      using noCycle ok(2) by (auto simp: close_at_boundary_def armCycleBoundary_def split: option.splits if_splits)
    then have "sched_inv k (armOpenBoundary b env (close_at_boundary env ?i))" for b
      using noCycle closed ok(3) by (intro arm_open_ok) (auto simp: sched_inv_def close_at_boundary_frame)
    with False noCycle closed ok(5) show ?thesis
      by (auto simp: degrade_def Let_def close_at_boundary_frame split: sum.splits)
  qed
qed

definition same_control :: "scheduler \<Rightarrow> scheduler \<Rightarrow> bool" where
  "same_control s s' \<longleftrightarrow>
     status s' = status s \<and> running s' = running s \<and> generation s' = generation s \<and> timer s' = timer s \<and>
     cycle s' = cycle s \<and> lane_job s' = lane_job s \<and> cycles_made s' = cycles_made s \<and>
     pending s' = pending s \<and> cells_sent (trace s') = cells_sent (trace s)"

lemma same_control_control: "same_control s s' \<Longrightarrow> control_inv k s' = control_inv k s"
  by (simp add: same_control_def control_inv_def idle_def timer_ok_def flight_ok_def at_slot_def
      live_flights_def unsent_next_def sent_keys_def cong: timer_kind.case_cong)

lemma same_control_base:
  assumes "base_inv k s" "same_control s s'" "jobs_inv k {} s'" "own_inv (lane_refs s) {} s'"
  shows "base_inv k s'"
  using assms by (simp add: base_inv_def same_control_def lane_refs_def sends_inv_def sent_keys_def)

lemma job_operation_inv:
  assumes "sched_inv k s" "same_control s s'" "jobs_inv k {} s'" "own_inv (lane_refs s) {} s'"
  shows "sched_inv k s'"
  using assms same_control_control [OF assms(2)] same_control_base [of k s s']
  by (simp add: sched_inv_def same_control_def)

lemma sched_jobs: "sched_inv k s \<Longrightarrow> jobs_inv k {} s" "sched_inv k s \<Longrightarrow> own_inv (lane_refs s) {} s"
  "sched_inv k s \<Longrightarrow> distinct (queued s)"
  by (simp_all add: sched_inv_def base_inv_def jobs_inv_def)

lemma enqueue_inv: "sched_inv k s \<Longrightarrow> sched_inv k (snd (enqueue k jb s))"
  by (rule job_operation_inv)
     (auto simp: same_control_def enqueue_jobs_inv sched_jobs intro: enqueue_own_inv dest: sched_jobs(2))

lemma removeQueued_inv:
  assumes "jobs_inv k R s" "own_inv L X s" "r < sequence s" "\<forall>l. lane_job s l \<noteq> Some r"
  shows "jobs_inv k R (removeQueued r s)" "own_inv L (insert r X) (removeQueued r s)"
proof -
  have "distinct (queued s)" using assms(1) by (simp add: jobs_inv_def)
  then show "jobs_inv k R (removeQueued r s)" "own_inv L (insert r X) (removeQueued r s)"
    using assms by (auto simp: jobs_inv_def) (auto simp: own_inv_def)
qed

text \<open>Updates that keep what the invariants read of a runtime.\<close>

lemma upd_job_inv:
  assumes "jobs_inv k R s"
    and "\<And>rt. runtime_ok k r rt \<Longrightarrow> rt = heap s r \<Longrightarrow> runtime_ok k r (f rt)"
    and "\<And>rt. runtime_live rt \<Longrightarrow> r \<notin> R' \<Longrightarrow> rt = heap s r \<Longrightarrow> runtime_live (f rt)"
    and "job (f (heap s r)) = job (heap s r)" "settled (f (heap s r)) = settled (heap s r)" "R \<subseteq> R'"
  shows "jobs_inv k R' (upd_job r f s)"
  using assms unfolding jobs_inv_def by auto

lemma upd_job_own_inv:
  assumes "own_inv L X s" "settled (f (heap s r)) = settled (heap s r)"
    and "everAdmitted (heap s r) \<longrightarrow> everAdmitted (f (heap s r))"
  shows "own_inv L X (upd_job r f s)"
  using assms unfolding own_inv_def by auto

lemma settle_inv:
  assumes "sched_inv k s" and "same_control s s1" and "jobs_inv k {r} s1" "own_inv (lane_refs s) X s1"
    and "X \<subseteq> {r}" "r < sequence s1"
  shows "sched_inv k (settle k env r i out why s1)"
proof (rule job_operation_inv [OF assms(1)])
  show "same_control s (settle k env r i out why s1)" using assms(2) by (simp add: same_control_def)
  show "jobs_inv k {} (settle k env r i out why s1)" using assms by (intro settle_jobs_inv) simp_all
  have "own_inv (lane_refs s) (X - {r}) (settle k env r i out why s1)"
    using assms by (intro settle_own_inv) (simp_all add: jobs_inv_def)
  moreover have "X - {r} = {}" using assms(5) by blast
  ultimately show "own_inv (lane_refs s) {} (settle k env r i out why s1)" by simp
qed

lemma same_control_trans: "same_control s t \<Longrightarrow> same_control t u \<Longrightarrow> same_control s u"
  by (simp add: same_control_def)

lemma cancel_inv: "sched_inv k s \<Longrightarrow> sched_inv k (snd (cancel k env i s))"
proof -
  assume inv: "sched_inv k s"
  show ?thesis
  proof (cases "map_of (jobs s) i")
    case None
    with inv show ?thesis by (simp add: cancel_def)
  next
    case (Some r)
    note r = jobs_inv_known [OF sched_jobs(1) [OF inv] Some]
    show ?thesis
    proof (cases "everAdmitted (heap s r)")
      case False
      then have free: "\<forall>l. lane_job s l \<noteq> Some r" using own_lane [OF sched_jobs(2) [OF inv]] by blast
      note rq = removeQueued_inv [OF sched_jobs(1,2) [OF inv] conjunct1 [OF r] free]
      have "sched_inv k (settle k env r i CancelledBeforeAdmission None (removeQueued r s))"
        using rq r jobs_inv_mono [OF rq(1), of "{r}"]
        by (intro settle_inv [OF inv]) (auto simp: same_control_def)
      with Some r False show ?thesis by (simp add: cancel_def)
    next
      case True
      let ?s = "upd_job r (cancelRequested_update (\<lambda>_. True) \<circ> completed_update (\<lambda>_. False)) s"
      have "jobs_inv k {} ?s"
        by (rule upd_job_inv [OF sched_jobs(1) [OF inv]])
           (use True in \<open>auto simp: runtime_ok_def runtime_live_def\<close>)
      moreover have "own_inv (lane_refs s) {} ?s"
        by (rule upd_job_own_inv [OF sched_jobs(2) [OF inv]]) simp_all
      ultimately have "sched_inv k (sortQueue ?s)"
        by (intro job_operation_inv [OF inv]) (simp_all add: same_control_def)
      with Some r True inv show ?thesis by (simp add: cancel_def)
    qed
  qed
qed

lemma complete_inv: "sched_inv k s \<Longrightarrow> sched_inv k (snd (complete k env i s))"
proof -
  assume inv: "sched_inv k s"
  show ?thesis
  proof (cases "map_of (jobs s) i")
    case None
    with inv show ?thesis by (simp add: complete_def)
  next
    case (Some r)
    note r = jobs_inv_known [OF sched_jobs(1) [OF inv] Some]
    let ?q = "removeQueued r s"
    let ?s = "upd_job r (completed_update (\<lambda>_. True) \<circ> pendingCell_update (\<lambda>_. None)) ?q"
    have d: "distinct (queued s)" by (rule sched_jobs(3) [OF inv])
    have jq: "jobs_inv k {} ?q" using sched_jobs(1) [OF inv] d by (auto simp: jobs_inv_def)
    have "jobs_inv k {r} ?s"
      by (rule upd_job_inv [OF jq]) (auto simp: runtime_ok_def)
    moreover have "own_inv (lane_refs s) (if \<exists>l. lane_job s l = Some r then {} else {r}) ?q"
      using sched_jobs(2) [OF inv] d r by (auto simp: own_inv_def)
    then have "own_inv (lane_refs s) (if \<exists>l. lane_job s l = Some r then {} else {r}) ?s"
      by (rule upd_job_own_inv) simp_all
    ultimately have "sched_inv k (settle k env r i Completed None ?s)"
      using r by (intro settle_inv [OF inv]) (auto simp: same_control_def split: if_splits)
    with Some r show ?thesis by (simp add: complete_def)
  qed
qed

lemma control_stale: "control_inv k s \<Longrightarrow> \<forall>p \<in> set (pending s). f_generation (fst p) \<le> generation s"
  by (auto simp: control_inv_def flight_ok_def)

lemma base_running_update:
  "base_inv k s \<Longrightarrow> (st = Stopped \<longleftrightarrow> \<not> b) \<Longrightarrow> base_inv k (setStatus st w (s\<lparr>running := b\<rparr>))"
  "base_inv k s \<Longrightarrow> (st = Stopped \<longleftrightarrow> \<not> b) \<Longrightarrow> base_inv k (setStatus st w (disarm (s\<lparr>running := b\<rparr>)))"
  by (simp_all add: base_defs)

lemma start_inv: "sched_inv k s \<Longrightarrow> sched_inv k (snd (start k env s))"
proof (cases "status s = Stopped")
  case False
  assume "sched_inv k s"
  with False show ?thesis by (simp add: start_def)
next
  case True
  assume inv: "sched_inv k s"
  let ?s = "setStatus Starting None (s\<lparr>running := True\<rparr>)"
  have base: "base_inv k ?s" using inv by (intro base_running_update) (simp_all add: sched_inv_def)
  have idle: "idle ?s" using inv True by (simp add: sched_inv_def control_inv_def idle_def)
  have stale: "\<forall>p \<in> set (pending ?s). f_generation (fst p) \<le> generation ?s"
    using control_stale [of k s] inv by (simp add: sched_inv_def)
  have "sched_inv k (armCycleBoundary (endMs c) env ?s)" if "cycle s = Some c" for c
    unfolding armCycleBoundary_def using base idle stale that by (intro end_armed) simp_all
  moreover have "sched_inv k (armOpenBoundary b env ?s)" if "cycle s = None" for b
    unfolding armOpenBoundary_def using base idle stale that by (intro end_armed) simp_all
  moreover have "sched_inv k ?s" if none: "cycle s = None"
  proof -
    have "\<forall>p \<in> set (pending s). f_generation (fst p) < generation s"
      using inv none by (auto simp: sched_inv_def control_inv_def flight_ok_def at_slot_def le_neq_implies_less)
    moreover have "control_inv k ?s"
      using inv True none base idle calculation
      by (auto simp: sched_inv_def control_inv_def flight_ok_def timer_ok_def at_slot_def unsent_next_def
          live_flights_def filter_empty_conv base_inv_def split: timer_kind.splits)
    ultimately show ?thesis using base by (simp add: sched_inv_def)
  qed
  ultimately show ?thesis using True by (auto simp: start_def Let_def split: option.splits sum.splits)
qed

lemma resume_inv: "sched_inv k s \<Longrightarrow> sched_inv k (snd (resume k env s))"
proof (cases "status s = Suspended")
  case False
  assume "sched_inv k s"
  with False show ?thesis by (simp add: resume_def)
next
  case True
  assume inv: "sched_inv k s"
  let ?s = "setStatus Starting None (disarm (s\<lparr>running := True\<rparr>))"
  let ?c = "snd (closeCurrentCycle ''late-cleanup'' env ?s)"
  have base: "base_inv k ?s" using inv by (intro base_running_update) (simp_all add: sched_inv_def)
  have idle: "idle ?s" using inv True by (simp add: sched_inv_def control_inv_def idle_def)
  have q: "quiet ?s"
    using control_stale [of k s] inv by (auto simp: sched_inv_def quiet_def le_imp_less_Suc)
  note closed = closeCurrentCycle_base [OF base idle, of "''late-cleanup''" env]
  have "sched_inv k (armCycleBoundary (endMs c) env ?s)" if "cycle s = Some c" for c
    unfolding armCycleBoundary_def using base idle q that by (intro end_armed) (simp_all add: quiet_def less_imp_le)
  moreover have "sched_inv k (armOpenBoundary b env ?s)" if "cycle s = None" for b
    using base q that by (intro arm_open_ok) simp_all
  moreover have "sched_inv k ?s" using base q idle by (intro end_quiet) simp_all
  moreover have "sched_inv k (armOpenBoundary b env ?c)" for b
    using closed q by (intro arm_open_ok) simp_all
  moreover have "sched_inv k ?c" using closed q by (intro end_quiet) simp_all
  ultimately show ?thesis using True by (auto simp: resume_def Let_def split: option.splits sum.splits)
qed

lemma cacheUnsent_inv: "sched_inv k s \<Longrightarrow> sched_inv k (cacheUnsent l req s)"
proof -
  assume inv: "sched_inv k s"
  have upd: "sched_inv k (upd_job r f s)"
    if "\<And>rt. f rt = rt\<lparr>pendingCell := x\<rparr> \<or> f rt = rt\<lparr>pendingCancelCell := x\<rparr>" for r f x
  proof (rule job_operation_inv [OF inv])
    have f: "f (heap s r) = (heap s r)\<lparr>pendingCell := x\<rparr> \<or> f (heap s r) = (heap s r)\<lparr>pendingCancelCell := x\<rparr>"
      by (rule that)
    show "same_control s (upd_job r f s)" by (simp add: same_control_def)
    show "jobs_inv k {} (upd_job r f s)"
      by (rule upd_job_inv [OF sched_jobs(1) [OF inv]]) (use f in \<open>auto simp: runtime_ok_def runtime_live_def\<close>)
    show "own_inv (lane_refs s) {} (upd_job r f s)"
      by (rule upd_job_own_inv [OF sched_jobs(2) [OF inv]]) (use f in auto)
  qed
  show ?thesis
    unfolding cacheUnsent_def Let_def using inv
    by (auto split: option.splits cover_cell_source.splits intro: upd)
qed

lemma acceptSent_inv: "sched_inv k s \<Longrightarrow> sched_inv k (acceptSent k env l req s)"
proof -
  assume inv: "sched_inv k s"
  show ?thesis
  proof (cases "lane_job s (lane_ref l)")
    case None
    with inv show ?thesis by (simp add: acceptSent_def)
  next
    case (Some r)
    have r: "r < sequence s" "everAdmitted (heap s r)"
      using own_lane [OF sched_jobs(2) [OF inv] Some] by simp_all
    show ?thesis
    proof (cases "settled (heap s r)")
      case True
      with inv Some show ?thesis by (simp add: acceptSent_def)
    next
      case False
      then have live: "runtime_live (heap s r)"
        using sched_jobs(1) [OF inv] r by (simp add: jobs_inv_def)
      have settled_upd: "sched_inv k (settle k env r i out why (upd_job r f s))"
        if "runtime_ok k r (heap s r) \<Longrightarrow> runtime_ok k r (f (heap s r))" "job (f (heap s r)) = job (heap s r)"
          "settled (f (heap s r)) = settled (heap s r)" "everAdmitted (f (heap s r)) = everAdmitted (heap s r)"
        for i out why f
        using r that
        by (intro settle_inv [OF inv, where X = "{}"] upd_job_inv [OF sched_jobs(1) [OF inv]]
              upd_job_own_inv [OF sched_jobs(2) [OF inv]])
           (simp_all add: same_control_def)
      let ?f = "\<lambda>rt. rt\<lparr>pendingCell := None, sentCells := sentCells rt + 1\<rparr>"
      have ok: "runtime_ok k r (heap s r) \<Longrightarrow> runtime_ok k r (?f (heap s r))"
        using live r by (auto simp: runtime_ok_def runtime_live_def)
      have last: "sched_inv k (settle k env r i Completed None (upd_job r (completed_update (\<lambda>_. True)) (upd_job r ?f s)))" for i
      proof -
        have eq: "upd_job r (completed_update (\<lambda>_. True)) (upd_job r ?f s) = upd_job r (completed_update (\<lambda>_. True) \<circ> ?f) s"
          by (simp add: upd_job_def)
        show ?thesis unfolding eq by (rule settled_upd) (use ok in \<open>simp_all add: runtime_ok_def\<close>)
      qed
      have more: "sched_inv k (upd_job r ?f s)" if "sentCells (heap s r) + 1 \<noteq> declaredCellCount (job (heap s r))"
      proof (rule job_operation_inv [OF inv])
        show "same_control s (upd_job r ?f s)" by (simp add: same_control_def)
        show "jobs_inv k {} (upd_job r ?f s)"
          by (rule upd_job_inv [OF sched_jobs(1) [OF inv]])
             (use ok live that in \<open>auto simp: runtime_live_def runtime_ok_def\<close>)
        show "own_inv (lane_refs s) {} (upd_job r ?f s)"
          by (rule upd_job_own_inv [OF sched_jobs(2) [OF inv]]) simp_all
      qed
      show ?thesis
        using Some False inv last more
          settled_upd [of "pendingCancelCell_update (\<lambda>_. None) \<circ> cancelSent_update (\<lambda>_. True)"]
        by (auto simp: acceptSent_def Let_def runtime_ok_def split: cover_cell_source.splits)
    qed
  qed
qed

section \<open>Stopping\<close>

text \<open>One iteration of the loop of \<^verbatim>\<open>stop\<close>.\<close>

abbreviation fail_stopped :: "cover_config \<Rightarrow> cover_env \<Rightarrow> job_ref \<Rightarrow> scheduler \<Rightarrow> scheduler" where
  "fail_stopped k env r s \<equiv> settle k env r (cj_id (job (heap s r))) Failed (Some ''stopped'') (removeQueued r s)"

lemma fail_stopped_step:
  assumes inv: "jobs_inv k {} s" "own_inv L {} s" and r: "r < sequence s"
  shows "jobs_inv k {} (fail_stopped k env r s)" "own_inv L {} (fail_stopped k env r s)"
    "sequence s \<le> sequence (fail_stopped k env r s)" "settled (heap (fail_stopped k env r s) r)"
    "\<And>r'. r' < sequence s \<Longrightarrow> settled (heap s r') \<Longrightarrow> settled (heap (fail_stopped k env r s) r')"
proof -
  let ?q = "removeQueued r s"
  have d: "distinct (queued s)" using inv(1) by (simp add: jobs_inv_def)
  have jq: "jobs_inv k {} ?q" using inv(1) d by (auto simp: jobs_inv_def)
  have "own_inv L (if \<exists>l. lane_job s l = Some r then {} else {r}) ?q"
    using inv(2) d r by (auto simp: own_inv_def)
  then have "own_inv L ((if \<exists>l. lane_job s l = Some r then {} else {r}) - {r}) (fail_stopped k env r s)"
    using d by (intro settle_own_inv) simp_all
  moreover have "(if \<exists>l. lane_job s l = Some r then {} else {r}) - {r} = {}" by auto
  ultimately show "own_inv L {} (fail_stopped k env r s)" by metis
  show "jobs_inv k {} (fail_stopped k env r s)"
    using r by (intro settle_jobs_inv jobs_inv_mono [OF jq]) simp_all
  show "sequence s \<le> sequence (fail_stopped k env r s)" "settled (heap (fail_stopped k env r s) r)"
    using settle_monotone(1,3) [where s = ?q] r by simp_all
  show "settled (heap (fail_stopped k env r s) r')" if "r' < sequence s" "settled (heap s r')" for r'
    using settle_monotone(2,3) [where s = ?q] that r by (cases "r' = r") simp_all
qed

lemma fail_stopped_all:
  assumes "jobs_inv k {} s" "own_inv L {} s" "\<forall>r \<in> set rs. r < sequence s"
  shows "jobs_inv k {} (fold (fail_stopped k env) rs s) \<and> own_inv L {} (fold (fail_stopped k env) rs s) \<and>
    (\<forall>r < sequence s. r \<in> set rs \<or> settled (heap s r) \<longrightarrow> settled (heap (fold (fail_stopped k env) rs s) r)) \<and>
    (let s' = fold (fail_stopped k env) rs s
     in status s' = status s \<and> running s' = running s \<and> generation s' = generation s \<and> timer s' = timer s \<and>
        cycle s' = cycle s \<and> lane_job s' = lane_job s \<and> cycles_made s' = cycles_made s \<and> pending s' = pending s \<and>
        cells_sent (trace s') = cells_sent (trace s))"
  using assms
proof (induction rs arbitrary: s)
  case Nil
  then show ?case by simp
next
  case (Cons r rs)
  have r: "r < sequence s" using Cons.prems(3) by simp
  note f = fail_stopped_step [OF Cons.prems(1,2) r, where env = env]
  have "\<forall>r' \<in> set rs. r' < sequence (fail_stopped k env r s)"
    using f(3) Cons.prems(3) by (auto intro: order_less_le_trans)
  note IH = Cons.IH [OF f(1,2) this]
  show ?case using IH f Cons.prems(3) by (auto simp: Let_def)
qed

lemma jobs_indexed:
  assumes "jobs_inv k R s"
  shows "r \<in> snd ` set (jobs s) \<longleftrightarrow> r < sequence s \<and> \<not> settled (heap s r)"
proof -
  have dist: "distinct (map fst (jobs s))" using assms by (simp add: jobs_inv_def)
  have "(i, r) \<in> set (jobs s) \<longleftrightarrow> map_of (jobs s) i = Some r" for i
    by (simp add: map_of_eq_Some_iff [OF dist])
  moreover have "map_of (jobs s) i = Some r \<longleftrightarrow>
      r < sequence s \<and> \<not> settled (heap s r) \<and> cj_id (job (heap s r)) = i" for i
    using assms unfolding jobs_inv_def by blast
  ultimately have "(i, r) \<in> set (jobs s) \<longleftrightarrow>
      r < sequence s \<and> \<not> settled (heap s r) \<and> cj_id (job (heap s r)) = i" for i by blast
  then have "(\<exists>i. (i, r) \<in> set (jobs s)) \<longleftrightarrow> r < sequence s \<and> \<not> settled (heap s r)" by simp
  moreover have "r \<in> snd ` set (jobs s) \<longleftrightarrow> (\<exists>i. (i, r) \<in> set (jobs s))"
    by (auto simp: image_iff) (metis snd_conv)
  ultimately show ?thesis by simp
qed

lemma detach_all:
  "lane_job (fold detach ls s) = (\<lambda>i. if i \<in> lane_ref ` set ls then None else lane_job s i)"
  "status (fold detach ls s) = status s" "running (fold detach ls s) = running s"
  "sequence (fold detach ls s) = sequence s" "generation (fold detach ls s) = generation s"
  "timer (fold detach ls s) = timer s" "cycle (fold detach ls s) = cycle s"
  "queued (fold detach ls s) = queued s" "jobs (fold detach ls s) = jobs s" "heap (fold detach ls s) = heap s"
  "cycles_made (fold detach ls s) = cycles_made s" "pending (fold detach ls s) = pending s"
  "trace (fold detach ls s) = trace s"
  by (induction ls arbitrary: s) (auto simp: fun_eq_iff)

lemma own_all_settled:
  assumes "own_inv L {} s" "\<And>l r. lane_job s l = Some r \<Longrightarrow> settled (heap s r)"
    and "sequence s' = sequence s" "heap s' = heap s" "queued s' = queued s" "idle s'"
  shows "own_inv L' {} s'"
proof (rule own_invI)
  fix r
  assume "r < sequence s'" "\<not> settled (heap s' r)"
  then show "r \<in> set (queued s') \<or> (\<exists>l \<in> L'. lane_job s' l = Some r) \<or> r \<in> {}"
    using own_place [OF assms(1), of r] assms by auto
qed (use assms in \<open>auto simp: idle_def\<close>)

text \<open>The second half of \<^verbatim>\<open>stop\<close>: the lanes drop their jobs, which are all settled by then.\<close>

lemma detach_settled:
  assumes base: "base_inv k f" and c: "cycle f = Some c"
    and fin: "\<And>l r. lane_job f l = Some r \<Longrightarrow> settled (heap f r)"
  shows "base_inv k (fold detach (lanes c) f)" "idle (fold detach (lanes c) f)"
proof -
  let ?s = "fold detach (lanes c) f"
  have own: "own_inv (lane_refs f) {} f" using base by (simp add: base_inv_def)
  have "lane_job ?s l = None" for l
  proof (cases "lane_job f l")
    case None
    then show ?thesis unfolding detach_all by simp
  next
    case (Some r)
    then have "l \<in> lane_ref ` set (lanes c)" using own_lane [OF own Some] c by (simp add: lane_refs_def)
    then show ?thesis unfolding detach_all by simp
  qed
  then show idle: "idle ?s" by (simp add: idle_def)
  have "own_inv (lane_refs ?s) {} ?s"
    using idle by (intro own_all_settled [OF own fin]) (simp_all add: detach_all)
  moreover have "jobs_inv k {} ?s" using base by (simp add: base_inv_def jobs_inv_def detach_all)
  ultimately show "base_inv k ?s"
    using base by (simp add: base_inv_def detach_all sends_inv_def)
qed

lemma stop_inv: "sched_inv k s \<Longrightarrow> sched_inv k (snd (stop k env s))"
proof (cases "status s = Stopped \<and> cycle s = None")
  case True
  assume "sched_inv k s"
  with True show ?thesis by (simp add: stop_def)
next
  case False
  assume inv: "sched_inv k s"
  define d where "d = setStatus Stopped None (disarm (s\<lparr>running := False\<rparr>))"
  define f where "f = fold (fail_stopped k env) (map snd (jobs d)) d"
  have base: "base_inv k d" unfolding d_def using inv by (intro base_running_update) (simp_all add: sched_inv_def)
  have q: "quiet d" using control_stale [of k s] inv by (auto simp: sched_inv_def quiet_def le_imp_less_Suc d_def)
  have st: "status d = Stopped" by (simp add: d_def)
  have dj: "jobs_inv k {} d" "own_inv (lane_refs d) {} d" using base by (simp_all add: base_inv_def)
  have "\<forall>r \<in> set (map snd (jobs d)). r < sequence d" using jobs_indexed [OF dj(1)] by simp
  note all = fail_stopped_all [OF dj this, where env = env, unfolded Let_def, folded f_def]
  have same: "same_control d f" using all by (simp add: same_control_def)
  have fbase: "base_inv k f" using same_control_base [OF base same] all by simp
  have fin: "settled (heap f r)" if "lane_job f l = Some r" for l r
  proof -
    have "r < sequence d" using own_lane [OF dj(2), of l r] that all by simp
    with jobs_indexed [OF dj(1), of r] all show ?thesis by (metis set_map)
  qed
  have ok: "sched_inv k (close_at_boundary env t)"
    if "base_inv k t" "idle t" "status t = status d" "timer t = timer d" "pending t = pending d"
      "generation t = generation d" for t
    using that q st by (intro close_at_boundary_ok) (simp_all add: quiet_def)
  have "sched_inv k (close_at_boundary env (case cycle f of None \<Rightarrow> f | Some c \<Rightarrow> fold detach (lanes c) f))"
  proof (cases "cycle f")
    case None
    with fbase idle_no_cycle [OF fbase] same show ?thesis
      by (auto simp: same_control_def intro!: ok)
  next
    case (Some c)
    have "sched_inv k (close_at_boundary env (fold detach (lanes c) f))"
      using detach_settled [OF fbase Some fin] same
      by (intro ok) (simp_all add: same_control_def detach_all)
    with Some show ?thesis by simp
  qed
  moreover have "stop k env s =
      (True, close_at_boundary env (case cycle f of None \<Rightarrow> f | Some c \<Rightarrow> fold detach (lanes c) f))"
    using False unfolding stop_def Let_def d_def f_def by simp
  ultimately show ?thesis by simp
qed

end
