(* ===== verification/Cover_Cycle.thy ===== *)
theory Cover_Cycle
  imports Cover_Control
begin

text \<open>
  Opening and closing cycles, slots in flight and the timer callback keep the scheduler's
  invariant; so does every step, whatever the surroundings answer and whenever they answer.
\<close>

section \<open>Selecting the jobs of a cycle\<close>

definition somes :: "'a option list \<Rightarrow> 'a list" where
  "somes xs = List.map_filter id xs"

lemma somes_simps [simp]: "somes [] = []" "somes (None # xs) = somes xs" "somes (Some x # xs) = x # somes xs"
  by (simp_all add: somes_def map_filter_simps)

lemma set_somes: "r \<in> set (somes xs) \<longleftrightarrow> Some r \<in> set xs"
proof (induction xs)
  case (Cons x xs)
  then show ?case by (cases x) auto
qed simp

lemma dequeue_cases:
  assumes "jobs_inv k R s" "own_inv L X s"
  obtains "dequeue s = (None, sortQueue s)"
  | r s' where "dequeue s = (Some r, s')" "jobs_inv k R s'" "own_inv L (insert r X) s'" "r \<notin> X"
      "r < sequence s" "s' = s\<lparr>queued := queued s'\<rparr>"
proof (cases "queued (sortQueue s)")
  case Nil
  then show ?thesis using that(1) by (simp add: dequeue_def)
next
  case (Cons r rest)
  let ?s = "(sortQueue s)\<lparr>queued := rest\<rparr>"
  have d: "distinct (r # rest)" and qs: "set (queued s) = insert r (set rest)"
    using Cons assms(1) sortQueue_frame(7,8) [of s] by (simp_all add: jobs_inv_def)
  have q: "r \<in> set (queued s)" using qs by simp
  have "jobs_inv k R ?s" using assms(1) d qs by (simp add: jobs_inv_def)
  moreover have "own_inv L (insert r X) ?s"
    using assms d qs by (auto simp: own_inv_def jobs_inv_def)
  moreover have "r \<notin> X" using own_loose [OF assms(2)] q by blast
  moreover have "r < sequence s" using assms(1) q by (simp add: jobs_inv_def)
  ultimately show ?thesis
    using that(2) [of r ?s] Cons by (simp add: dequeue_def sortQueue_def)
qed

lemma dequeue_many_inv:
  assumes "jobs_inv k R s" "own_inv L X s" "dequeue_many n s = (sel, s')"
  shows "jobs_inv k R s' \<and> own_inv L (X \<union> set (somes sel)) s' \<and> distinct (somes sel) \<and>
    set (somes sel) \<inter> X = {} \<and> length sel = n \<and> s' = s\<lparr>queued := queued s'\<rparr>"
  using assms
proof (induction n arbitrary: s X sel s')
  case 0
  then show ?case by simp
next
  case (Suc n)
  obtain r0 s1 where d: "dequeue s = (r0, s1)" by (cases "dequeue s")
  obtain sel' s2 where m: "dequeue_many n s1 = (sel', s2)" by (cases "dequeue_many n s1")
  have res: "sel = r0 # sel'" "s' = s2" using Suc.prems(3) d m by simp_all
  from Suc.prems(1,2) show ?case
  proof (cases rule: dequeue_cases)
    case 1
    then have s1: "s1 = sortQueue s" "r0 = None" using d by simp_all
    have "jobs_inv k R s2 \<and> own_inv L (X \<union> set (somes sel')) s2 \<and> distinct (somes sel') \<and>
        set (somes sel') \<inter> X = {} \<and> length sel' = n \<and> s2 = s1\<lparr>queued := queued s2\<rparr>"
      using Suc.prems s1 by (intro Suc.IH [OF _ _ m]) simp_all
    then show ?thesis using res s1 by (simp add: sortQueue_def)
  next
    case (2 r t)
    then have s1: "s1 = t" "r0 = Some r" using d by simp_all
    have IH: "jobs_inv k R s2 \<and> own_inv L (insert r X \<union> set (somes sel')) s2 \<and> distinct (somes sel') \<and>
        set (somes sel') \<inter> insert r X = {} \<and> length sel' = n \<and> s2 = s1\<lparr>queued := queued s2\<rparr>"
      using 2 s1 by (intro Suc.IH [OF _ _ m]) simp_all
    moreover have "s2 = s\<lparr>queued := queued s2\<rparr>" using IH 2(6) s1 by (metis scheduler.update_convs(7) scheduler.surjective scheduler.ext_inject)
    ultimately show ?thesis using res s1 2(4) by auto
  qed
qed

lemma admit_simps [simp]:
  "admit None s = s"
  "admit (Some r) s = upd_job r (jr_state_update (\<lambda>_. JAdmitted) \<circ> everAdmitted_update (\<lambda>_. True)) s"
  by (simp_all add: admit_def)

lemma admit_inv:
  assumes "jobs_inv k R s" "own_inv L X s" "\<forall>r. Some r \<in> set sel \<longrightarrow> r < sequence s"
  shows "jobs_inv k R (fold admit sel s) \<and> own_inv L X (fold admit sel s) \<and>
    (\<forall>r. Some r \<in> set sel \<or> everAdmitted (heap s r) \<longrightarrow> everAdmitted (heap (fold admit sel s) r)) \<and>
    fold admit sel s = s\<lparr>heap := heap (fold admit sel s)\<rparr>"
  using assms
proof (induction sel arbitrary: s)
  case Nil
  then show ?case by simp
next
  case (Cons x sel)
  show ?case
  proof (cases x)
    case None
    have "jobs_inv k R (fold admit sel s) \<and> own_inv L X (fold admit sel s) \<and>
        (\<forall>r. Some r \<in> set sel \<or> everAdmitted (heap s r) \<longrightarrow> everAdmitted (heap (fold admit sel s) r)) \<and>
        fold admit sel s = s\<lparr>heap := heap (fold admit sel s)\<rparr>"
      using Cons.prems by (intro Cons.IH) simp_all
    with None show ?thesis by simp
  next
    case (Some r)
    let ?f = "jr_state_update (\<lambda>_. JAdmitted) \<circ> everAdmitted_update (\<lambda>_. True)"
    let ?s = "upd_job r ?f s"
    have j: "jobs_inv k R ?s"
      by (rule upd_job_inv [OF Cons.prems(1)]) (auto simp: runtime_ok_def runtime_live_def)
    have o: "own_inv L X ?s" by (rule upd_job_own_inv [OF Cons.prems(2)]) simp_all
    have "jobs_inv k R (fold admit sel ?s) \<and> own_inv L X (fold admit sel ?s) \<and>
        (\<forall>r. Some r \<in> set sel \<or> everAdmitted (heap ?s r) \<longrightarrow> everAdmitted (heap (fold admit sel ?s) r)) \<and>
        fold admit sel ?s = ?s\<lparr>heap := heap (fold admit sel ?s)\<rparr>"
      using Cons.prems(3) j o by (intro Cons.IH) simp_all
    moreover have "?s\<lparr>heap := h\<rparr> = s\<lparr>heap := h\<rparr>" for h by (simp add: upd_job_def)
    ultimately show ?thesis using Some by auto
  qed
qed

section \<open>Opening the lanes\<close>

lemma attach_inv:
  assumes own: "own_inv L X s" and fresh: "l \<notin> L" and ro: "set_option ro \<subseteq> X"
    and adm: "\<forall>r \<in> set_option ro. everAdmitted (heap s r)"
  shows "own_inv (insert l L) (X - set_option ro) (s\<lparr>lane_job := (lane_job s)(l := ro)\<rparr>)"
proof (rule own_invI)
  let ?s = "s\<lparr>lane_job := (lane_job s)(l := ro)\<rparr>"
  fix r
  assume "r < sequence ?s" "\<not> settled (heap ?s r)"
  then have "r \<in> set (queued s) \<or> (\<exists>l' \<in> L. lane_job s l' = Some r) \<or> r \<in> X"
    using own_place [OF own, of r] by simp
  then show "r \<in> set (queued ?s) \<or> (\<exists>l' \<in> insert l L. lane_job ?s l' = Some r) \<or> r \<in> X - set_option ro"
    using fresh by (cases "ro = Some r") auto
next
  let ?s = "s\<lparr>lane_job := (lane_job s)(l := ro)\<rparr>"
  fix r
  assume "r \<in> X - set_option ro"
  then show "r < sequence ?s \<and> r \<notin> set (queued ?s) \<and> (\<forall>l'. lane_job ?s l' \<noteq> Some r)"
    using own_loose [OF own, of r] by auto
next
  let ?s = "s\<lparr>lane_job := (lane_job s)(l := ro)\<rparr>"
  fix l' r
  assume a: "lane_job ?s l' = Some r"
  show "l' \<in> insert l L \<and> r < sequence ?s \<and> everAdmitted (heap ?s r) \<and> r \<notin> set (queued ?s)"
  proof (cases "l' = l")
    case True
    with a ro adm own_loose [OF own, of r] show ?thesis by auto
  next
    case False
    with a own_lane [OF own, of l' r] show ?thesis by auto
  qed
next
  let ?s = "s\<lparr>lane_job := (lane_job s)(l := ro)\<rparr>"
  fix l1 l2 r
  assume "lane_job ?s l1 = Some r" "lane_job ?s l2 = Some r"
  then show "l1 = l2"
    using own_unique [OF own, of l1 r l2] own_loose [OF own, of r] ro by (auto split: if_splits)
qed

definition lanes_open :: "cover_config \<Rightarrow> lane_runtime list \<Rightarrow> job_ref set \<Rightarrow> scheduler \<Rightarrow> bool" where
  "lanes_open k ls X s \<longleftrightarrow>
     jobs_inv k {} s \<and> own_inv (lane_ref ` set ls) X s \<and> distinct (map laneIndex ls) \<and>
     (\<forall>l \<in> set ls. lane_ref l = LaneId (cycles_made s) (laneIndex l))"

lemma lanes_openD:
  "lanes_open k ls X s \<Longrightarrow> jobs_inv k {} s" "lanes_open k ls X s \<Longrightarrow> own_inv (lane_ref ` set ls) X s"
  by (simp_all only: lanes_open_def)

definition same_world :: "scheduler \<Rightarrow> scheduler \<Rightarrow> bool" where
  "same_world s s' \<longleftrightarrow>
     status s' = status s \<and> running s' = running s \<and> generation s' = generation s \<and> timer s' = timer s \<and>
     cycle s' = cycle s \<and> cycles_made s' = cycles_made s \<and> pending s' = pending s \<and>
     cells_sent (trace s') = cells_sent (trace s) \<and> sequence s' = sequence s"

lemma open_lane_cases:
  "\<not> opens env i \<Longrightarrow> open_lane idx a b env (i, ro) (ls, fl, s) = (ls, True, s)"
  "opens env i \<Longrightarrow> open_lane idx a b env (i, ro) (ls, fl, s) =
     (ls @ [\<lparr>laneIndex = i, openContext = lane_context idx a b s (i, ro), lane_ref = LaneId (cycles_made s) i\<rparr>], fl,
      notify (LaneOpened (lane_context idx a b s (i, ro)))
        (s\<lparr>lane_job := (lane_job s)(LaneId (cycles_made s) i := ro)\<rparr>))"
  by (simp_all add: open_lane_def Let_def)

lemma open_lanes_inv:
  assumes "lanes_open k ls X s" "distinct (map fst xs)" "\<forall>l \<in> set ls. laneIndex l \<notin> fst ` set xs"
    and "distinct (somes (map snd xs))" "\<forall>r \<in> set (somes (map snd xs)). r \<in> X \<and> everAdmitted (heap s r)"
    and "fold (open_lane idx a b env) xs (ls, fl, s) = (ls', fl', s')"
  shows "\<exists>X' \<subseteq> X. lanes_open k ls' X' s' \<and> same_world s s' \<and>
    (\<forall>l r. lane_job s' l = Some r \<longrightarrow> lane_job s l = Some r \<or> r \<in> set (somes (map snd xs))) \<and>
    (\<not> fl' \<longrightarrow> \<not> fl \<and> X' = X - set (somes (map snd xs)) \<and> map laneIndex ls' = map laneIndex ls @ map fst xs)"
  using assms
proof (induction xs arbitrary: ls X s fl)
  case Nil
  then show ?case by (auto simp: same_world_def intro!: exI [of _ X])
next
  case (Cons x xs)
  obtain i ro where x: "x = (i, ro)" by (cases x)
  show ?case
  proof (cases "opens env i")
    case False
    then have run: "fold (open_lane idx a b env) xs (ls, True, s) = (ls', fl', s')"
      using Cons.prems(6) x by (simp add: open_lane_cases)
    have rest: "distinct (map fst xs)" "\<forall>l \<in> set ls. laneIndex l \<notin> fst ` set xs"
      using Cons.prems(2,3) by simp_all
    have tail: "distinct (somes (map snd xs))" "\<forall>r \<in> set (somes (map snd xs)). r \<in> X \<and> everAdmitted (heap s r)"
      using Cons.prems(4,5) x by (cases ro; simp)+
    obtain X' where X': "X' \<subseteq> X" "lanes_open k ls' X' s'" "same_world s s'" "fl'"
      "\<forall>l r. lane_job s' l = Some r \<longrightarrow> lane_job s l = Some r \<or> r \<in> set (somes (map snd xs))"
      using Cons.IH [OF Cons.prems(1) rest tail run] by blast
    moreover have "set (somes (map snd xs)) \<subseteq> set (somes (map snd (x # xs)))" using x by (cases ro) auto
    ultimately show ?thesis by blast
  next
    case True
    define ctx where "ctx = lane_context idx a b s (i, ro)"
    define lane where "lane = \<lparr>laneIndex = i, openContext = ctx, lane_ref = LaneId (cycles_made s) i\<rparr>"
    define t where "t = notify (LaneOpened ctx) (s\<lparr>lane_job := (lane_job s)(lane_ref lane := ro)\<rparr>)"
    have run: "fold (open_lane idx a b env) xs (ls @ [lane], fl, t) = (ls', fl', s')"
      using Cons.prems(6) x True by (simp add: open_lane_cases lane_def ctx_def t_def)
    have ro: "set_option ro \<subseteq> X" "\<forall>r \<in> set_option ro. everAdmitted (heap s r)"
      using Cons.prems(5) x by (cases ro; simp)+
    have rest: "distinct (somes (map snd xs))" "set (somes (map snd xs)) \<inter> set_option ro = {}"
      using Cons.prems(4) x by (cases ro; auto)+
    have tail: "\<forall>r \<in> set (somes (map snd xs)). r \<in> X \<and> everAdmitted (heap s r)"
      using Cons.prems(5) x by (cases ro) simp_all
    have fresh: "lane_ref lane \<notin> lane_ref ` set ls"
      using Cons.prems(1,3) x by (auto simp: lanes_open_def lane_def)
    have "own_inv (insert (lane_ref lane) (lane_ref ` set ls)) (X - set_option ro) t"
      using attach_inv [OF _ fresh ro] Cons.prems(1) unfolding t_def lanes_open_def notify_inv by blast
    then have open': "lanes_open k (ls @ [lane]) (X - set_option ro) t"
      using Cons.prems(1,3) x by (auto simp: lanes_open_def jobs_inv_def t_def lane_def)
    have "\<exists>X' \<subseteq> X - set_option ro. lanes_open k ls' X' s' \<and> same_world t s' \<and>
      (\<forall>l r. lane_job s' l = Some r \<longrightarrow> lane_job t l = Some r \<or> r \<in> set (somes (map snd xs))) \<and>
      (\<not> fl' \<longrightarrow> \<not> fl \<and> X' = X - set_option ro - set (somes (map snd xs)) \<and>
         map laneIndex ls' = map laneIndex (ls @ [lane]) @ map fst xs)"
      using Cons.prems(2,3) rest tail x
      by (intro Cons.IH [OF open' _ _ _ _ run]) (auto simp: lane_def t_def)
    then obtain X' where X': "X' \<subseteq> X - set_option ro" "lanes_open k ls' X' s'" "same_world t s'"
      "\<forall>l r. lane_job s' l = Some r \<longrightarrow> lane_job t l = Some r \<or> r \<in> set (somes (map snd xs))"
      "\<not> fl' \<longrightarrow> \<not> fl \<and> X' = X - set_option ro - set (somes (map snd xs)) \<and>
         map laneIndex ls' = map laneIndex (ls @ [lane]) @ map fst xs" by blast
    moreover have "same_world s t" by (simp add: same_world_def t_def)
    moreover have "X - set_option ro - set (somes (map snd xs)) = X - set (somes (map snd (x # xs)))"
      using x by (cases ro) auto
    moreover have "lane_job s l = Some r \<or> r \<in> set (somes (map snd (x # xs)))" if "lane_job s' l = Some r" for l r
      using X'(4) that x by (cases ro) (auto simp: t_def split: if_splits)
    ultimately show ?thesis
      using x by (intro exI [of _ X']) (auto simp: same_world_def lane_def)
  qed
qed

section \<open>Opening a cycle\<close>

lemma fold_requeue:
  assumes "jobs_inv k {} s" "own_inv L X s" "X \<subseteq> set (somes sel)"
    and "\<forall>r \<in> set (somes sel). r < sequence s" "idle s"
  shows "let s' = fold (\<lambda>r s. case r of None \<Rightarrow> s | Some r \<Rightarrow> requeue r w s) sel s
    in jobs_inv k {} s' \<and> own_inv L {} s' \<and> idle s' \<and> status s' = status s \<and> running s' = running s \<and>
       generation s' = generation s \<and> timer s' = timer s \<and> cycle s' = cycle s \<and> cycles_made s' = cycles_made s \<and>
       pending s' = pending s \<and> cells_sent (trace s') = cells_sent (trace s)"
  using assms
proof (induction sel arbitrary: s X)
  case Nil
  then show ?case by simp
next
  case (Cons x sel)
  show ?case
  proof (cases x)
    case None
    with Cons show ?thesis by simp
  next
    case (Some r)
    let ?s = "requeue r w s"
    have r: "r < sequence s" using Cons.prems(4) Some by simp
    have j: "jobs_inv k {} ?s" by (rule requeue_jobs_inv [OF Cons.prems(1) r])
    have free: "\<forall>l. lane_job s l \<noteq> Some r" using Cons.prems(5) by (simp add: idle_def)
    have "own_inv L (X - {r}) ?s" by (rule requeue_own_inv [OF Cons.prems(1,2) r free])
    then show ?thesis
      using Cons.IH [of ?s "X - {r}"] j Cons.prems(3-5) Some by (auto simp: Let_def idle_def)
  qed
qed

lemma detach_list_own:
  assumes "own_inv L X s"
  shows "own_inv L (X \<union> {r. \<exists>l \<in> set ls. lane_job s (lane_ref l) = Some r}) (fold detach ls s)"
  using assms
proof (induction ls arbitrary: s X)
  case Nil
  then show ?case by simp
next
  case (Cons l ls)
  have "own_inv L (X \<union> set_option (lane_job s (lane_ref l)) \<union>
      {r. \<exists>l' \<in> set ls. lane_job (detach l s) (lane_ref l') = Some r}) (fold detach ls (detach l s))"
    by (rule Cons.IH) (rule detach_own_inv [OF Cons.prems])
  moreover have "set_option (lane_job s (lane_ref l)) \<union>
      {r. \<exists>l' \<in> set ls. lane_job (detach l s) (lane_ref l') = Some r} =
      {r. \<exists>l' \<in> set (l # ls). lane_job s (lane_ref l') = Some r}"
    by (auto split: if_splits) metis
  ultimately show ?case by (simp add: Un_assoc)
qed

definition opens_well :: "cover_config \<Rightarrow> scheduler \<Rightarrow> (cover_error + unit) \<times> scheduler \<Rightarrow> bool" where
  "opens_well k s rs \<longleftrightarrow> snd rs = s \<and> (is_ok (fst rs) \<longrightarrow> \<not> running s \<or> status s = Stopped \<or> status s = Suspended) \<or>
     sched_inv k (snd rs) \<and> is_ok (fst rs) \<and> timer (snd rs) \<noteq> None"

lemma opened_base:
  assumes base: "base_inv k s" and w: "same_world s t" and j: "jobs_inv k {} t"
    and o: "own_inv (lane_ref ` set ls) {} t" and ok: "lanes_open k ls X u" "cycles_made u = cycles_made s"
    and cyc: "cyc = \<lparr>cy_index = idx, startMs = b, endMs = b + cycleDurationMs (schedule k), lanes = ls,
      nextSlotOrdinal = 0, cy_id = cycles_made s\<rparr>" and st: "st \<noteq> Stopped" "running s"
    and t': "t' = t\<lparr>status := st, cycle := Some cyc, cycles_made := Suc (cycles_made s), trace := tr\<rparr>"
      "results tr = results (trace t)" "cells_sent tr = cells_sent (trace t)"
  shows "base_inv k t'"
proof -
  have "jobs_inv k {} t'" using j t' by (simp add: jobs_inv_def)
  moreover have "own_inv (lane_refs t') {} t'" using o t' cyc by (simp add: own_inv_def lane_refs_def)
  moreover have "cycle_ok k (Suc (cycles_made s)) cyc" using ok cyc by (simp add: cycle_ok_def lanes_open_def)
  moreover have "sends_inv k t'"
    using base w t' by (auto simp: base_inv_def sends_inv_def sent_keys_def same_world_def)
  ultimately show ?thesis using base w st t' by (simp add: base_inv_def same_world_def)
qed

text \<open>The two outcomes of opening the lanes, as states: all lanes open, or some failed.\<close>

lemma open_active:
  assumes v: "valid_schedule (schedule k)" and base: "base_inv k s" and w: "same_world s t"
    and stale: "\<forall>p \<in> set (pending s). f_generation (fst p) \<le> generation s"
    and ok: "lanes_open k ls {} t" and run: "running s"
    and cyc: "cyc = \<lparr>cy_index = idx, startMs = b, endMs = b + cycleDurationMs (schedule k), lanes = ls,
      nextSlotOrdinal = 0, cy_id = cycles_made s\<rparr>"
  shows "sched_inv k (armSlot k cyc env (setStatus Active None (t\<lparr>cycle := Some cyc, cycles_made := Suc (cycles_made s)\<rparr>)))"
proof -
  let ?t = "t\<lparr>cycle := Some cyc, cycles_made := Suc (cycles_made s)\<rparr>"
  let ?u = "setStatus Active None ?t"
  have u: "?u = t\<lparr>status := Active, cycle := Some cyc, cycles_made := Suc (cycles_made s), trace := trace ?u\<rparr>"
    by (simp add: setStatus_def notify_def)
  have b: "base_inv k ?u"
    using lanes_openD [OF ok] w by (intro opened_base [OF base w _ _ ok _ cyc _ run u])
      (simp_all add: same_world_def)
  have "n < cycles_made s" if "(n, d) \<in> set (sent_keys (trace s))" for n d
    using base that by (auto simp: base_inv_def sends_inv_def)
  then have fresh: "(cycles_made s, d) \<notin> set (sent_keys (trace ?u))" for d
    using w by (auto simp: sent_keys_def same_world_def)
  have "0 < total_slots (schedule k)"
    using slotsPerEpoch_pos [OF v] valid_scheduleD(5) [OF v] by (simp add: total_slots_def)
  then have "at_slot k ?u (slotAt (schedule k) cyc 0) cyc" using cyc by (simp add: at_slot_def)
  then have "sched_inv k (arm (deadlineMs (slotAt (schedule k) cyc 0)) (SlotTimer (slotAt (schedule k) cyc 0)) env ?u)"
    using b stale w fresh cyc by (intro end_armed) (auto simp: same_world_def)
  then show ?thesis using cyc by (simp add: armSlot_def Let_def)
qed

lemma open_failed:
  assumes base: "base_inv k s" and w: "same_world s t"
    and stale: "\<forall>p \<in> set (pending s). f_generation (fst p) \<le> generation s"
    and ok: "lanes_open k ls X t" "X \<subseteq> set (somes sel)" and run: "running s"
    and sel: "\<forall>r \<in> set (somes sel). r < sequence s" "\<forall>l r. lane_job t l = Some r \<longrightarrow> r \<in> set (somes sel)"
    and cyc: "cyc = \<lparr>cy_index = idx, startMs = b, endMs = b + cycleDurationMs (schedule k), lanes = ls,
      nextSlotOrdinal = 0, cy_id = cycles_made s\<rparr>"
  shows "sched_inv k (armCycleBoundary (b + cycleDurationMs (schedule k)) env
    (fold (\<lambda>r s. case r of None \<Rightarrow> s | Some r \<Rightarrow> requeue r w' s) sel
      (fold detach ls (setStatus Degraded why (t\<lparr>cycle := Some cyc, cycles_made := Suc (cycles_made s)\<rparr>)))))"
proof -
  let ?t = "t\<lparr>cycle := Some cyc, cycles_made := Suc (cycles_made s)\<rparr>"
  define u where "u = setStatus Degraded why ?t"
  define d where "d = fold detach ls u"
  define r where "r = fold (\<lambda>r s. case r of None \<Rightarrow> s | Some r \<Rightarrow> requeue r w' s) sel d"
  have tu: "jobs_inv k {} u" "own_inv (lane_ref ` set ls) X u"
    using lanes_openD [OF ok(1)] by (simp_all add: u_def jobs_inv_def own_inv_def)
  have out: "lane_job u l = None" if "l \<notin> lane_ref ` set ls" for l
    using own_lane [OF tu(2), of l] that by (cases "lane_job u l") auto
  have idle: "idle d" unfolding idle_def d_def detach_all using out by auto
  have own: "own_inv (lane_ref ` set ls) (X \<union> {r. \<exists>l \<in> set ls. lane_job u (lane_ref l) = Some r}) d"
    unfolding d_def by (rule detach_list_own [OF tu(2)])
  have sub: "X \<union> {r. \<exists>l \<in> set ls. lane_job u (lane_ref l) = Some r} \<subseteq> set (somes sel)"
    using ok(2) sel(2) by (auto simp: u_def)
  have jd: "jobs_inv k {} d" using tu(1) by (simp add: d_def jobs_inv_def detach_all)
  have "\<forall>r \<in> set (somes sel). r < sequence d" using sel(1) w by (simp add: d_def detach_all u_def same_world_def)
  note fr = fold_requeue [OF jd own sub this idle, of w', unfolded Let_def, folded r_def]
  have f: "status r = Degraded" "running r" "generation r = generation s" "timer r = timer s" "cycle r = Some cyc"
      "cycles_made r = Suc (cycles_made s)" "pending r = pending s" "cells_sent (trace r) = cells_sent (trace s)"
    using fr w run by (simp_all add: d_def detach_all u_def same_world_def)
  have "cycle_ok k (Suc (cycles_made s)) cyc" using ok cyc w by (simp add: cycle_ok_def lanes_open_def same_world_def)
  moreover have "lane_refs r = lane_ref ` set ls" using f(5) cyc by (simp add: lane_refs_def)
  moreover have "sends_inv k r" using base f by (auto simp: base_inv_def sends_inv_def sent_keys_def)
  moreover have inv: "jobs_inv k {} r" "own_inv (lane_ref ` set ls) {} r" "idle r" using fr by blast+
  ultimately have "base_inv k r" using f base by (simp add: base_inv_def)
  then have "sched_inv k (armCycleBoundary (b + cycleDurationMs (schedule k)) env r)"
    unfolding armCycleBoundary_def using inv f stale cyc by (intro end_armed) simp_all
  then show ?thesis by (simp add: r_def d_def u_def)
qed

lemma openCycle_well:
  assumes v: "valid_schedule (schedule k)" and base: "base_inv k s" and none: "cycle s = None"
    and stale: "\<forall>p \<in> set (pending s). f_generation (fst p) \<le> generation s"
  shows "opens_well k s (openCycle k b (generation s) env s)"
proof (cases "\<not> running s \<or> status s = Stopped \<or> status s = Suspended")
  case True
  then show ?thesis by (auto simp: opens_well_def openCycle_def)
next
  case guard: False
  let ?n = "nat (cs_coverLanes (schedule k))" and ?fin = "b + cycleDurationMs (schedule k)"
  show ?thesis
  proof (cases "\<exists>idx. cycleIndexAtBoundary (schedule k) b = Inr idx \<and> is_safe_integer ?fin")
    case False
    then show ?thesis
      using guard by (cases "cycleIndexAtBoundary (schedule k) b") (auto simp: opens_well_def openCycle_def)
  next
    case True
    then obtain idx where idx: "cycleIndexAtBoundary (schedule k) b = Inr idx" "is_safe_integer ?fin" by blast
    obtain sel s1 where dq: "dequeue_many ?n s = (sel, s1)" by (cases "dequeue_many ?n s")
    let ?s2 = "fold admit sel s1"
    obtain ls fl t where op: "fold (open_lane idx b ?fin env) (zip (map int [0..<?n]) sel) ([], False, ?s2) = (ls, fl, t)"
      by (metis prod_cases3)
    have s: "jobs_inv k {} s" "own_inv {} {} s" using base none by (simp_all add: base_inv_def lane_refs_def)
    have d: "jobs_inv k {} s1" "own_inv {} (set (somes sel)) s1" "distinct (somes sel)" "length sel = ?n"
        "s1 = s\<lparr>queued := queued s1\<rparr>"
      using dequeue_many_inv [OF s dq] by simp_all
    have lt: "\<forall>r \<in> set (somes sel). r < sequence s1" using own_loose [OF d(2)] by blast
    have a: "jobs_inv k {} ?s2" "own_inv {} (set (somes sel)) ?s2"
        "\<forall>r. Some r \<in> set sel \<longrightarrow> everAdmitted (heap ?s2 r)" "?s2 = s1\<lparr>heap := heap ?s2\<rparr>"
      using admit_inv [OF d(1,2), of sel] lt by (simp_all add: set_somes)
    have zip: "map fst (zip (map int [0..<?n]) sel) = map int [0..<?n]" "map snd (zip (map int [0..<?n]) sel) = sel"
      using d(4) by simp_all
    have lo: "lanes_open k [] (set (somes sel)) ?s2" using a(1,2) by (simp add: lanes_open_def)
    have "\<exists>X' \<subseteq> set (somes sel). lanes_open k ls X' t \<and> same_world ?s2 t \<and>
        (\<forall>l r. lane_job t l = Some r \<longrightarrow> lane_job ?s2 l = Some r \<or> r \<in> set (somes sel)) \<and>
        (\<not> fl \<longrightarrow> \<not> False \<and> X' = set (somes sel) - set (somes sel) \<and> map laneIndex ls = map laneIndex [] @ map int [0..<?n])"
      using open_lanes_inv [OF lo _ _ _ _ op] d(3) a(3) unfolding zip
      by (simp add: set_somes distinct_map inj_on_def)
    then obtain X where X: "X \<subseteq> set (somes sel)" "lanes_open k ls X t" "same_world ?s2 t"
        "\<forall>l r. lane_job t l = Some r \<longrightarrow> lane_job ?s2 l = Some r \<or> r \<in> set (somes sel)" "\<not> fl \<longrightarrow> X = {}"
      by auto
    obtain q where q: "s1 = s\<lparr>queued := q\<rparr>" using d(5) by blast
    obtain h where h: "?s2 = s1\<lparr>heap := h\<rparr>" using a(4) by blast
    have s2: "?s2 = s\<lparr>queued := q, heap := h\<rparr>" by (subst h) (simp only: q)
    have w: "same_world s t" using X(3) unfolding s2 by (simp add: same_world_def)
    have "lane_job ?s2 = lane_job s" unfolding s2 by simp
    then have on: "\<forall>l r. lane_job t l = Some r \<longrightarrow> r \<in> set (somes sel)"
      using X(4) idle_no_cycle [OF base none] by (simp add: idle_def)
    have lt': "\<forall>r \<in> set (somes sel). r < sequence s" using lt q by simp
    let ?cyc = "\<lparr>cy_index = idx, startMs = b, endMs = ?fin, lanes = ls, nextSlotOrdinal = 0, cy_id = cycles_made s\<rparr>"
    let ?t = "t\<lparr>cycle := Some ?cyc, cycles_made := Suc (cycles_made s)\<rparr>"
    have made: "cycles_made t = cycles_made s" "generation t = generation s" using w by (simp_all add: same_world_def)
    have run: "running s" using guard by simp
    show ?thesis
    proof (cases fl)
      case True
      have "openCycle k b (generation s) env s = (Inr (), armCycleBoundary ?fin env
          (fold (\<lambda>r s. case r of None \<Rightarrow> s | Some r \<Rightarrow> requeue r ''lane-open-failed'' s) sel
            (fold detach ls (setStatus Degraded (Some ''lane-open-failed'') ?t))))"
        using guard idx dq op True made by (simp add: openCycle_def Let_def)
      then show ?thesis
        using open_failed [OF base w stale X(2,1) run lt' on refl] by (simp add: opens_well_def armCycleBoundary_def)
    next
      case False
      have "openCycle k b (generation s) env s = (Inr (), armSlot k ?cyc env (setStatus Active None ?t))"
        using guard idx dq op False made by (simp add: openCycle_def Let_def)
      then show ?thesis
        using open_active [OF v base w stale _ run refl] X(2,5) False
        by (simp add: opens_well_def armSlot_def Let_def)
    qed
  qed
qed

section \<open>Boundaries and late timers\<close>

lemma quiet_control:
  "base_inv k s \<Longrightarrow> quiet s \<Longrightarrow> idle s \<Longrightarrow> cycle s = None \<Longrightarrow> control_inv k s"
  using live_flights_quiet [of s]
  by (auto simp: control_inv_def quiet_def flight_ok_def unsent_next_def base_inv_def)

lemma suspended_or_stopped:
  assumes "base_inv k s" "quiet s" "idle s" "status s = Active \<longrightarrow> cycle s = None"
  shows "sched_inv k (if status s \<noteq> Stopped then setStatus Suspended w s else s)"
  using assms base_running [OF assms(1)] by (auto intro!: end_quiet base_setStatus)

lemma handleLateTimer_inv:
  assumes inv: "sched_inv k s" and q: "quiet s"
  shows "sched_inv k (snd (handleLateTimer k kd env s))"
proof (cases "\<exists>slot. kd = SlotTimer slot")
  case True
  with inv degrade_inv [of k s] show ?thesis by (auto simp: handleLateTimer_def sched_inv_def)
next
  case False
  let ?i = "interruptCycle ''suspended'' s"
  let ?t = "if cycle s = None then s else snd (closeCurrentCycle ''late-cleanup'' env ?i)"
  have base: "base_inv k s" using inv by (simp add: sched_inv_def)
  note rel = interruptCycle_released [OF base, of "''suspended''", unfolded released_def]
  have "base_inv k ?t" "idle ?t"
    using base rel closeCurrentCycle_base [of k ?i] idle_no_cycle [OF base] by simp_all
  moreover have "quiet ?t" using q rel by (simp add: quiet_def)
  moreover have "cycle ?t = None" by simp
  ultimately have "sched_inv k (if status ?t \<noteq> Stopped then setStatus Suspended (Some ''timer-drift'') ?t else ?t)"
    by (intro suspended_or_stopped) simp_all
  moreover have "snd (handleLateTimer k kd env s) =
      (if status ?t \<noteq> Stopped then setStatus Suspended (Some ''timer-drift'') ?t else ?t)"
    using False by (cases kd) (simp_all add: handleLateTimer_def Let_def)
  ultimately show ?thesis by simp
qed

lemma handleCycleBoundary_inv:
  assumes v: "valid_schedule (schedule k)" and inv: "sched_inv k s" and q: "quiet s"
  shows "sched_inv k (snd (handleCycleBoundary k b env s))"
proof (cases "\<exists>c. cycle s = Some c \<and> endMs c = b")
  case False
  with inv show ?thesis by (auto simp: handleCycleBoundary_def split: option.splits)
next
  case True
  then obtain c where c: "cycle s = Some c" "endMs c = b" by blast
  have base: "base_inv k s" using inv by (simp add: sched_inv_def)
  note rel = finalizeCycleJobs_released [OF base, of env, unfolded released_def]
  obtain clean t where t: "closeCurrentCycle ''boundary'' env (finalizeCycleJobs k env s) = (clean, t)"
    by (cases "closeCurrentCycle ''boundary'' env (finalizeCycleJobs k env s)")
  have snd_t: "t = snd (closeCurrentCycle ''boundary'' env (finalizeCycleJobs k env s))" using t by simp
  have tb: "base_inv k t" "idle t" "cycle t = None" "quiet t"
    using rel closeCurrentCycle_base [of k "finalizeCycleJobs k env s"] q by (simp_all add: snd_t quiet_def)
  note run = base_running [OF tb(1)]
  show ?thesis
  proof (cases clean)
    case False
    let ?u = "if status t \<noteq> Stopped then setStatus Degraded (Some ''lane-close-failed'') t else t"
    have u: "base_inv k ?u" "quiet ?u" "status ?u \<noteq> Active" "cycle ?u = None" "idle ?u"
      using tb run by (auto simp: base_setStatus)
    have "sched_inv k ?u" by (rule end_quiet [OF u(1-3,5)])
    moreover have "sched_inv k (armOpenBoundary x env ?u)" for x by (rule arm_open_ok [OF u(1-4)])
    ultimately show ?thesis
      using c t False by (auto simp: handleCycleBoundary_def Let_def split: sum.splits)
  next
    case clean: True
    show ?thesis
    proof (cases "\<not> running t \<or> status t = Stopped \<or> status t = Suspended")
      case True
      then have "sched_inv k t" using tb run by (intro end_quiet) auto
      with True c t clean show ?thesis by (simp add: handleCycleBoundary_def)
    next
      case False
      obtain r u where u: "openCycle k b (generation t) env t = (r, u)" by (cases "openCycle k b (generation t) env t")
      have "opens_well k t (openCycle k b (generation t) env t)"
        using v tb by (intro openCycle_well) (auto simp: quiet_def less_imp_le)
      with u False have "(u = t \<and> \<not> is_ok r) \<or> (sched_inv k u \<and> is_ok r)" by (auto simp: opens_well_def)
      moreover have "sched_inv k (snd (suspend w env t))" for w
        using tb by (intro suspend_inv quiet_control)
      ultimately show ?thesis
        using c t clean False u by (cases r) (auto simp: handleCycleBoundary_def)
    qed
  qed
qed

section \<open>Slots in flight\<close>

lemma slot_catch_inv: "sched_inv k (snd rs) \<Longrightarrow> sched_inv k (snd (slot_catch k env rs))"
proof -
  assume inv: "sched_inv k (snd rs)"
  then have "sched_inv k (snd (degrade k w env (snd rs)))" for w
    by (intro degrade_inv) (simp_all add: sched_inv_def)
  with inv show ?thesis by (cases rs; cases "fst rs") (simp_all add: slot_catch_def)
qed

lemma degrade_caught: "sched_inv k s \<Longrightarrow> sched_inv k (snd (slot_catch k env (degrade k w env s)))"
  by (intro slot_catch_inv degrade_inv) (simp_all add: sched_inv_def)

lemma timer_ok_pending [simp]: "timer_ok k (s\<lparr>pending := ps\<rparr>) t = timer_ok k s t"
  by (simp add: timer_ok_def at_slot_def cong: timer_kind.case_cong)

lemma pending_remove_inv:
  assumes inv: "sched_inv k s"
  shows "sched_inv k (s\<lparr>pending := remove_nth i (pending s)\<rparr>)"
proof -
  let ?s = "s\<lparr>pending := remove_nth i (pending s)\<rparr>"
  have sub: "set (pending ?s) \<subseteq> set (pending s)" by (simp add: set_remove_nth_subset)
  have live: "set (live_flights ?s) \<subseteq> set (live_flights s)" using sub by (auto simp: live_flights_def)
  have "length (live_flights ?s) \<le> length (live_flights s)"
  proof -
    have "pending s = take i (pending s) @ drop i (pending s)" by simp
    then have "live_flights s = filter (\<lambda>p. f_generation (fst p) = generation s) (take i (pending s)) @
        filter (\<lambda>p. f_generation (fst p) = generation s) (drop i (pending s))"
      unfolding live_flights_def by (metis filter_append)
    moreover have "length (filter P (drop (Suc i) xs)) \<le> length (filter P (drop i xs))"
      for P and xs :: "(slot_flight \<times> slot_await) list"
      by (cases "drop i xs") (simp_all add: drop_Suc tl_drop [symmetric])
    ultimately show ?thesis by (simp add: live_flights_def remove_nth_def)
  qed
  moreover have "base_inv k ?s" using inv sub by (auto simp: sched_inv_def base_defs)
  moreover have "unsent_next k ?s"
    using inv live unfolding sched_inv_def control_inv_def unsent_next_def by (simp, blast)
  moreover have "\<forall>p \<in> set (pending ?s). flight_ok k ?s p"
    using inv sub by (auto simp: sched_inv_def control_inv_def flight_ok_def at_slot_def)
  ultimately show ?thesis
    using inv by (simp add: sched_inv_def control_inv_def idle_def)
qed

lemma live_flight_only:
  assumes "sched_inv k s" "p \<in> set (pending s)" "f_generation (fst p) = generation s"
  shows "live_flights s = [p]"
proof -
  have "p \<in> set (live_flights s)" using assms(2,3) by (simp add: live_flights_def)
  moreover have "length (live_flights s) \<le> 1" using assms(1) by (simp add: sched_inv_def control_inv_def)
  ultimately show ?thesis by (cases "live_flights s") auto
qed

text \<open>A flight whose entry was just taken from \<open>pending\<close>: either it is stale, or nothing else is live.\<close>

definition taken :: "cover_config \<Rightarrow> scheduler \<Rightarrow> slot_flight \<Rightarrow> slot_await \<Rightarrow> bool" where
  "taken k s fl aw \<longleftrightarrow>
     sched_inv k s \<and> await_ok (fl, aw) \<and> f_generation fl \<le> generation s \<and>
     (f_generation fl = generation s \<longrightarrow> quiet s \<and>
        (\<exists>c. at_slot k s (f_slot fl) c \<and> cy_id c = f_cycle fl \<and> f_lane fl \<in> set (lanes c) \<and>
           (\<forall>d. (cy_id c, d) \<in> set (sent_keys (trace s)) \<longrightarrow>
              d \<le> deadlineMs (f_slot fl) \<and> (\<not> is_sending (fl, aw) \<longrightarrow> d < deadlineMs (f_slot fl)))))"

lemma live_after_remove:
  assumes "live_flights s = [p]" "i < length (pending s)" "pending s ! i = p" "f_generation (fst p) = generation s"
    and "q \<in> set (remove_nth i (pending s))"
  shows "f_generation (fst q) \<noteq> generation s"
proof -
  let ?P = "\<lambda>p. f_generation (fst p) = generation s"
  have "pending s = take i (pending s) @ p # drop (Suc i) (pending s)" using assms(2,3) id_take_nth_drop by metis
  then have "live_flights s = filter ?P (take i (pending s)) @ p # filter ?P (drop (Suc i) (pending s))"
    unfolding live_flights_def using assms(4) by (metis (mono_tags, lifting) filter.simps(2) filter_append)
  then have "filter ?P (take i (pending s)) = []" "filter ?P (drop (Suc i) (pending s)) = []"
    using assms(1) by (cases "filter ?P (take i (pending s))"; simp)+
  with assms(5) show ?thesis by (auto simp: remove_nth_def filter_empty_conv)
qed

lemma take_pending:
  assumes inv: "sched_inv k s" and i: "i < length (pending s)" "pending s ! i = (fl, aw)"
  shows "taken k (s\<lparr>pending := remove_nth i (pending s)\<rparr>) fl aw"
proof -
  let ?s = "s\<lparr>pending := remove_nth i (pending s)\<rparr>"
  have p: "(fl, aw) \<in> set (pending s)" using i nth_mem by metis
  have fok: "flight_ok k s (fl, aw)" using inv p by (simp add: sched_inv_def control_inv_def)
  have cur: "quiet ?s \<and> (\<exists>c. at_slot k ?s (f_slot fl) c \<and> cy_id c = f_cycle fl \<and> f_lane fl \<in> set (lanes c) \<and>
      (\<forall>d. (cy_id c, d) \<in> set (sent_keys (trace ?s)) \<longrightarrow>
         d \<le> deadlineMs (f_slot fl) \<and> (\<not> is_sending (fl, aw) \<longrightarrow> d < deadlineMs (f_slot fl))))"
    if g: "f_generation fl = generation s"
  proof -
    obtain c where c: "timer s = None" "at_slot k s (f_slot fl) c" "cy_id c = f_cycle fl" "f_lane fl \<in> set (lanes c)"
      using fok g by (auto simp: flight_ok_def)
    have live: "live_flights s = [(fl, aw)]" using live_flight_only [OF inv p] g by simp
    have "f_generation (fst q) < generation s" if "q \<in> set (remove_nth i (pending s))" for q
    proof -
      have "f_generation (fst q) \<noteq> generation s"
        using live_after_remove [OF live i _ that] g by simp
      moreover have "f_generation (fst q) \<le> generation s"
        using control_stale [of k s] inv that set_remove_nth_subset by (fastforce simp: sched_inv_def)
      ultimately show ?thesis by simp
    qed
    then have "quiet ?s" using c(1) by (simp add: quiet_def)
    moreover have "d \<le> deadlineMs (f_slot fl) \<and> (\<not> is_sending (fl, aw) \<longrightarrow> d < deadlineMs (f_slot fl))"
      if "(cy_id c, d) \<in> set (sent_keys (trace s))" for d
      using inv c(2) that live by (auto simp: sched_inv_def control_inv_def unsent_next_def at_slot_def)
    ultimately show ?thesis using c by (intro conjI exI [of _ c]) (auto simp: at_slot_def)
  qed
  show ?thesis
    using pending_remove_inv [OF inv, of i] fok cur by (simp add: taken_def flight_ok_def)
qed

text \<open>Putting a flight back with a new wait.\<close>

lemma await_slot_inv:
  assumes t: "taken k s fl aw" and ok: "await_ok (fl, aw')" and ns: "\<not> is_sending (fl, aw)" "\<not> is_sending (fl, aw')"
  shows "sched_inv k (await_slot fl aw' s)"
proof -
  let ?s = "await_slot fl aw' s"
  have inv: "sched_inv k s" and g: "f_generation fl \<le> generation s" using t by (simp_all add: taken_def)
  have base: "base_inv k ?s" using inv ok by (simp add: sched_inv_def base_defs await_slot_def)
  have flights: "\<forall>p \<in> set (pending ?s). flight_ok k ?s p"
    using inv t ok by (auto simp: sched_inv_def control_inv_def flight_ok_def at_slot_def await_slot_def taken_def quiet_def)
  have len: "length (live_flights ?s) \<le> 1"
  proof (cases "f_generation fl = generation s")
    case True
    then have "live_flights s = []" using t live_flights_quiet by (simp add: taken_def)
    then show ?thesis by (simp add: live_flights_def await_slot_def)
  next
    case False
    then show ?thesis using inv by (simp add: sched_inv_def control_inv_def live_flights_def await_slot_def)
  qed
  have "unsent_next k ?s"
  proof (cases "f_generation fl = generation s")
    case True
    then obtain c where c: "at_slot k s (f_slot fl) c"
        "\<forall>d. (cy_id c, d) \<in> set (sent_keys (trace s)) \<longrightarrow> d < deadlineMs (f_slot fl)"
      using t ns(1) by (auto simp: taken_def)
    then show ?thesis by (auto simp: unsent_next_def at_slot_def await_slot_def)
  next
    case False
    then have "live_flights ?s = live_flights s" by (simp add: live_flights_def await_slot_def)
    then show ?thesis using inv by (simp add: sched_inv_def control_inv_def unsent_next_def await_slot_def)
  qed
  with inv base flights len show ?thesis
    by (simp add: sched_inv_def control_inv_def idle_def await_slot_def)
qed

lemma cell_arrived_inv:
  assumes t: "taken k s fl aw" and ns: "\<not> is_sending (fl, aw)"
  shows "sched_inv k (snd (cell_arrived k fl aw ans env s))"
proof -
  have again: "sched_inv k (await_slot fl aw' s)" if "await_ok (fl, aw')" "\<not> is_sending (fl, aw')" for aw'
    by (rule await_slot_inv [OF t that(1) ns that(2)])
  have "sched_inv k (snd (slot_catch k env (degrade k ''cell-production-failed'' env s)))"
    using t by (intro degrade_caught) (simp add: taken_def)
  then show ?thesis
    by (cases aw; cases ans) (auto simp: cell_arrived_def request_of_def dummy_request_def intro: again)
qed

lemma sent_slot_inv:
  assumes t: "taken k s fl (AwaitRequest req)" and g: "f_generation fl = generation s"
    and time: "now env \<le> deadlineMs (f_slot fl) + maxTimerDriftMs k"
  shows "sched_inv k (await_slot fl (AwaitSend req) (notify (CellSent (now env) (lane_ref (f_lane fl)) req) s))"
proof -
  let ?s = "await_slot fl (AwaitSend req) (notify (CellSent (now env) (lane_ref (f_lane fl)) req) s)"
  have inv: "sched_inv k s" and slot: "rq_slot req = f_slot fl" using t by (simp_all add: taken_def)
  obtain c where c: "at_slot k s (f_slot fl) c" "cy_id c = f_cycle fl" "f_lane fl \<in> set (lanes c)"
      "\<forall>d. (cy_id c, d) \<in> set (sent_keys (trace s)) \<longrightarrow> d < deadlineMs (f_slot fl)" and q: "quiet s"
    using t g by (auto simp: taken_def)
  have cok: "cycle_ok k (cycles_made s) c" using inv c(1) by (simp add: sched_inv_def base_inv_def at_slot_def)
  then have ref: "lane_ref (f_lane fl) = LaneId (cy_id c) (laneIndex (f_lane fl))" "cy_id c < cycles_made s"
    using c(3) by (simp_all add: cycle_ok_def)
  have keys: "sent_keys (trace ?s) = sent_keys (trace s) @ [(cy_id c, deadlineMs (f_slot fl))]"
    by (simp add: sent_keys_def await_slot_def ref slot)
  have "sends_inv k ?s"
    using inv c(4) ref(2) time slot unfolding sends_inv_def keys
    by (auto simp: sched_inv_def base_inv_def sends_inv_def await_slot_def)
  moreover have "jobs_inv k {} ?s" "own_inv (lane_refs ?s) {} ?s"
    using sched_jobs [OF inv] by (simp_all add: jobs_inv_def own_inv_def lane_refs_def await_slot_def)
  ultimately have base: "base_inv k ?s"
    using inv slot by (simp add: sched_inv_def base_inv_def await_slot_def)
  have live: "live_flights ?s = [(fl, AwaitSend req)]"
    using live_flights_quiet [OF q] g by (simp add: live_flights_def await_slot_def)
  have "\<forall>p \<in> set (pending ?s). flight_ok k ?s p"
    using inv c g q slot by (auto simp: sched_inv_def control_inv_def flight_ok_def at_slot_def await_slot_def quiet_def)
  moreover have "unsent_next k ?s"
    using c(1,4) q unfolding unsent_next_def keys live
    by (auto simp: at_slot_def await_slot_def quiet_def less_imp_le)
  ultimately show ?thesis
    using inv base live q by (simp add: sched_inv_def control_inv_def idle_def await_slot_def quiet_def)
qed

lemma request_ready_inv:
  assumes t: "taken k s fl (AwaitRequest req)"
  shows "sched_inv k (snd (request_ready k fl req env s))"
proof -
  have inv: "sched_inv k s" using t by (simp add: taken_def)
  show ?thesis
    using cacheUnsent_inv [OF inv] degrade_caught [OF cacheUnsent_inv [OF inv]] sent_slot_inv [OF t]
    by (auto simp: request_ready_def not_less)
qed

lemma acceptSent_same: "same_control s (acceptSent k env l req s)"
  by (auto simp: acceptSent_def same_control_def Let_def split: option.splits cover_cell_source.splits)

lemma send_answered_inv:
  assumes v: "valid_schedule (schedule k)" and t: "taken k s fl (AwaitSend req)"
  shows "sched_inv k (snd (send_answered k fl req ans env s))"
proof -
  have inv: "sched_inv k s" using t by (simp add: taken_def)
  note cached = degrade_caught [OF cacheUnsent_inv [OF inv]]
  let ?a = "acceptSent k env (f_lane fl) req s"
  have ainv: "sched_inv k ?a" by (rule acceptSent_inv [OF inv])
  note same = acceptSent_same [of s k env "f_lane fl" req, unfolded same_control_def]
  have adv: "sched_inv k (if nextSlotOrdinal c + 1 < total_slots (schedule k)
      then armSlot k (c\<lparr>nextSlotOrdinal := nextSlotOrdinal c + 1\<rparr>) env (?a\<lparr>cycle := Some (c\<lparr>nextSlotOrdinal := nextSlotOrdinal c + 1\<rparr>)\<rparr>)
      else armCycleBoundary (endMs c) env (?a\<lparr>cycle := Some (c\<lparr>nextSlotOrdinal := nextSlotOrdinal c + 1\<rparr>)\<rparr>))"
    if c: "cycle ?a = Some c" and g: "f_generation fl = generation ?a" for c
  proof -
    let ?c = "c\<lparr>nextSlotOrdinal := nextSlotOrdinal c + 1\<rparr>"
    let ?u = "?a\<lparr>cycle := Some ?c\<rparr>"
    have q: "quiet ?u" and act: "status ?u = Active"
      and le: "\<forall>d. (cy_id c, d) \<in> set (sent_keys (trace ?u)) \<longrightarrow> d \<le> deadlineMs (slotAt (schedule k) c (nextSlotOrdinal c))"
      using t g c same by (auto simp: taken_def quiet_def at_slot_def sent_keys_def)
    have "slotAt (schedule k) ?c i = slotAt (schedule k) c i" for i by (simp add: slotAt_def Let_def)
    then have unsent: "d < deadlineMs (slotAt (schedule k) ?c (nextSlotOrdinal c + 1))"
      if "(cy_id c, d) \<in> set (sent_keys (trace ?u))" for d
      using le that deadline_step [OF v, of c "nextSlotOrdinal c"] by fastforce
    have "cycle_ok k (cycles_made ?a) ?c"
      using ainv c by (auto simp: sched_inv_def base_inv_def cycle_ok_def)
    moreover have "lane_refs ?u = lane_refs ?a" using c by (simp add: lane_refs_def)
    ultimately have base: "base_inv k ?u"
      using ainv by (simp add: sched_inv_def base_inv_def jobs_inv_def own_inv_def sends_inv_def)
    have stale: "\<forall>p \<in> set (pending ?u). f_generation (fst p) \<le> generation ?u"
      using q by (auto simp: quiet_def)
    have slot: "at_slot k ?u (slotAt (schedule k) ?c (nextSlotOrdinal c + 1)) ?c"
      if "nextSlotOrdinal c + 1 < total_slots (schedule k)"
      using act that by (simp add: at_slot_def)
    have "sched_inv k (armSlot k ?c env ?u)" if "nextSlotOrdinal c + 1 < total_slots (schedule k)"
      unfolding armSlot_def Let_def using base stale act unsent slot [OF that]
      by (intro end_armed) auto
    moreover have "sched_inv k (armCycleBoundary (endMs c) env ?u)"
      unfolding armCycleBoundary_def using base stale act unsent by (intro end_armed) auto
    ultimately show ?thesis by simp
  qed
  show ?thesis
    using cached ainv adv
    by (cases ans) (auto simp: send_answered_def Let_def total_slots_def split: option.splits)
qed

text \<open>The fired timer is cleared before its handler runs; re-arming it keeps the generation.\<close>

lemma timer_cleared:
  assumes inv: "sched_inv k s" and t: "timer s = Some t"
  shows "sched_inv k (s\<lparr>timer := None\<rparr>)" "quiet (s\<lparr>timer := None\<rparr>)"
proof -
  let ?s = "s\<lparr>timer := None\<rparr>"
  have stale: "\<forall>p \<in> set (pending s). f_generation (fst p) < generation s"
    using inv t by (auto simp: sched_inv_def control_inv_def flight_ok_def le_neq_implies_less)
  then show q: "quiet ?s" by (simp add: quiet_def)
  have "\<forall>p \<in> set (pending s). flight_ok k ?s p"
    using stale inv by (auto simp: sched_inv_def base_inv_def flight_ok_def)
  moreover have "unsent_next k ?s"
    using inv live_flights_quiet [OF q] by (auto simp: sched_inv_def control_inv_def unsent_next_def)
  ultimately show "sched_inv k ?s"
    using inv live_flights_quiet [OF q] by (simp add: sched_inv_def control_inv_def)
qed

lemma rearm_inv:
  assumes inv: "sched_inv k s" and t: "timer s = Some t"
  shows "sched_inv k (armRemaining (t_deadlineMs t) (t_kind t) env (s\<lparr>timer := None\<rparr>))"
proof -
  let ?s = "armRemaining (t_deadlineMs t) (t_kind t) env (s\<lparr>timer := None\<rparr>)"
  have stale: "\<forall>p \<in> set (pending s). f_generation (fst p) < generation s"
    using timer_cleared(2) [OF assms] by (simp add: quiet_def)
  have tok: "timer_ok k s t" using inv t by (simp add: sched_inv_def control_inv_def)
  have live: "live_flights ?s = live_flights s" by (simp add: live_flights_def armRemaining_def)
  have "timer_ok k ?s u" if "timer ?s = Some u" for u
    using tok that by (auto simp: timer_ok_def at_slot_def armRemaining_def split: timer_kind.splits)
  moreover have "\<forall>p \<in> set (pending s). flight_ok k ?s p"
    using stale inv by (auto simp: sched_inv_def base_inv_def flight_ok_def armRemaining_def)
  moreover have "unsent_next k ?s"
    using inv t unfolding sched_inv_def control_inv_def unsent_next_def live by (simp add: armRemaining_def)
  moreover have "base_inv k ?s" using inv by (simp add: sched_inv_def armRemaining_def)
  ultimately show ?thesis
    using inv live by (simp add: sched_inv_def control_inv_def armRemaining_def idle_def)
qed

lemma sendSlot_inv:
  assumes inv: "sched_inv k s" and t: "timer s = Some t" "t_kind t = SlotTimer slot" "t_generation t = generation s"
  shows "sched_inv k (snd (sendSlot k slot (generation s) env (s\<lparr>timer := None\<rparr>)))"
proof -
  let ?s = "s\<lparr>timer := None\<rparr>"
  have tok: "timer_ok k s t" using inv t(1) by (simp add: sched_inv_def control_inv_def)
  then obtain c where c: "at_slot k s slot c" using t(2) by (auto simp: timer_ok_def)
  note s0 = timer_cleared [OF inv t(1)]
  have strict: "\<forall>d. (cy_id c, d) \<in> set (sent_keys (trace s)) \<longrightarrow> d < deadlineMs slot"
    using inv c t(1) by (auto simp: sched_inv_def control_inv_def unsent_next_def at_slot_def)
  show ?thesis
  proof (cases "find (\<lambda>lane. laneIndex lane = sl_laneIndex slot) (lanes c)")
    case None
    then show ?thesis
      using degrade_caught [OF s0(1)] c by (simp add: sendSlot_def at_slot_def)
  next
    case (Some lane)
    let ?fl = "\<lparr>f_slot = slot, f_generation = generation s, f_cycle = cy_id c, f_lane = lane\<rparr>"
    let ?aw = "requestForSlot lane slot ?s"
    have lane: "lane \<in> set (lanes c)" using Some by (auto simp: find_Some_iff)
    have "await_ok (?fl, ?aw)" "\<not> is_sending (?fl, ?aw)"
      by (auto simp: requestForSlot_def Let_def request_of_def split: option.splits)
    moreover have "taken k ?s ?fl (AwaitDummy None)"
      using s0 c strict lane by (auto simp: taken_def at_slot_def)
    ultimately have "sched_inv k (await_slot ?fl ?aw ?s)"
      by (intro await_slot_inv [where aw = "AwaitDummy None"]) simp_all
    with Some c show ?thesis by (simp add: sendSlot_def at_slot_def)
  qed
qed

section \<open>Steps\<close>

lemma timer_fired_inv:
  assumes v: "valid_schedule (schedule k)" and inv: "sched_inv k s"
  shows "sched_inv k (snd (timer_fired k env s))"
proof (cases "timer s")
  case None
  with inv show ?thesis by (simp add: timer_fired_def)
next
  case (Some t)
  let ?s = "s\<lparr>timer := None\<rparr>"
  have tok: "timer_ok k s t" using inv Some by (simp add: sched_inv_def control_inv_def)
  then have g: "t_generation t = generation s" by (simp add: timer_ok_def)
  note s0 = timer_cleared [OF inv Some]
  consider "now env < t_deadlineMs t" | "t_deadlineMs t + maxTimerDriftMs k < now env" "\<not> now env < t_deadlineMs t"
    | "\<not> now env < t_deadlineMs t" "\<not> t_deadlineMs t + maxTimerDriftMs k < now env" by blast
  then show ?thesis
  proof cases
    case 1
    with rearm_inv [OF inv Some] Some g show ?thesis by (simp add: timer_fired_def)
  next
    case 2
    with handleLateTimer_inv [OF s0] Some g show ?thesis by (simp add: timer_fired_def)
  next
    case 3
    show ?thesis
    proof (cases "t_kind t")
      case OpenBoundary
      then have none: "cycle ?s = None" using tok by (simp add: timer_ok_def)
      have base: "base_inv k ?s" using s0 by (simp add: sched_inv_def)
      obtain r u where u: "openCycle k (t_deadlineMs t) (generation s) env ?s = (r, u)"
        by (cases "openCycle k (t_deadlineMs t) (generation s) env ?s")
      have "opens_well k ?s (openCycle k (t_deadlineMs t) (generation ?s) env ?s)"
        using s0(2) by (intro openCycle_well [OF v base none]) (auto simp: quiet_def less_imp_le)
      then have "sched_inv k u" using u s0(1) by (auto simp: opens_well_def)
      moreover from this have "sched_inv k (snd (suspend w env u))" for w
        by (intro suspend_inv) (simp_all add: sched_inv_def)
      ultimately show ?thesis
        using OpenBoundary 3 Some g u by (cases r) (simp_all add: timer_fired_def)
    next
      case CycleBoundary
      with handleCycleBoundary_inv [OF v s0] 3 Some g show ?thesis by (simp add: timer_fired_def)
    next
      case (SlotTimer slot)
      with sendSlot_inv [OF inv Some SlotTimer g] 3 Some g show ?thesis by (simp add: timer_fired_def)
    qed
  qed
qed

lemma settle_pending_inv:
  assumes "sched_inv k s"
    and "\<And>fl aw. taken k (s\<lparr>pending := remove_nth i (pending s)\<rparr>) fl aw \<Longrightarrow>
      sched_inv k (snd (f (fl, aw) (s\<lparr>pending := remove_nth i (pending s)\<rparr>)))"
  shows "sched_inv k (snd (settle_pending i f s))"
proof (cases "i < length (pending s)")
  case True
  obtain fl aw where p: "pending s ! i = (fl, aw)" by (cases "pending s ! i")
  then show ?thesis using assms(2) [OF take_pending [OF assms(1) True p]] True by (simp add: settle_pending_def)
next
  case False
  with assms(1) show ?thesis by (simp add: settle_pending_def)
qed

lemma suspend_sched: "sched_inv k s \<Longrightarrow> sched_inv k (snd (suspend w env s))"
  by (intro suspend_inv) (simp_all add: sched_inv_def)

lemma cover_step_inv:
  assumes v: "valid_schedule (schedule k)" and inv: "sched_inv k s"
  shows "sched_inv k (snd (cover_step k env ev s))"
proof (cases ev)
  case (CellArrives i ans)
  have "sched_inv k (snd (settle_pending i (\<lambda>(fl, aw) s'. case aw of
      AwaitRequest _ \<Rightarrow> (Inr (), s) | AwaitSend _ \<Rightarrow> (Inr (), s) | _ \<Rightarrow> cell_arrived k fl aw ans env s') s))"
    by (rule settle_pending_inv [OF inv])
       (auto simp: inv intro: cell_arrived_inv split: slot_await.split)
  with CellArrives show ?thesis by (simp add: cover_step_def)
next
  case (RequestReady i)
  have "sched_inv k (snd (settle_pending i (\<lambda>(fl, aw) s'. case aw of
      AwaitRequest req \<Rightarrow> request_ready k fl req env s' | _ \<Rightarrow> (Inr (), s)) s))"
    by (rule settle_pending_inv [OF inv])
       (auto simp: inv intro: request_ready_inv split: slot_await.split)
  with RequestReady show ?thesis by (simp add: cover_step_def)
next
  case (SendAnswers i ans)
  have "sched_inv k (snd (settle_pending i (\<lambda>(fl, aw) s'. case aw of
      AwaitSend req \<Rightarrow> send_answered k fl req ans env s' | _ \<Rightarrow> (Inr (), s)) s))"
    by (rule settle_pending_inv [OF inv])
       (auto simp: inv intro: send_answered_inv [OF v] split: slot_await.split)
  with SendAnswers show ?thesis by (simp add: cover_step_def)
qed (use inv v in \<open>auto simp: cover_step_def ignore_value_def intro: enqueue_inv cancel_inv complete_inv
      start_inv resume_inv stop_inv timer_fired_inv suspend_sched\<close>)

end
