(* ===== verification/Cover_Progress.thy ===== *)
theory Cover_Progress
  imports Cover_Cycle
begin

text \<open>
  The scheduler never stalls: while it is neither stopped nor suspended, a timer is armed or a slot
  is in flight. The only way out is an error of the clock range, which a step then reports.
\<close>

definition progress :: "scheduler \<Rightarrow> bool" where
  "progress s \<longleftrightarrow> status s = Stopped \<or> status s = Suspended \<or> timer s \<noteq> None \<or> live_flights s \<noteq> []"

lemma progress_same: "same_control s s' \<Longrightarrow> progress s' = progress s"
  by (simp add: progress_def same_control_def live_flights_def)

lemma progress_arm [simp]:
  "progress (arm d kd env s)" "progress (armOpenBoundary d env s)" "progress (armCycleBoundary d env s)"
  "progress (armSlot k c env s)"
  by (simp_all add: progress_def armOpenBoundary_def armCycleBoundary_def armSlot_def Let_def)

lemma progress_status: "status s = Stopped \<or> status s = Suspended \<Longrightarrow> progress s"
  by (auto simp: progress_def)

lemma suspend_progress: "base_inv k s \<Longrightarrow> progress (snd (suspend w env s))"
proof (cases "status s = Stopped \<or> status s = Suspended")
  case True
  then show ?thesis by (auto simp: suspend_def progress_def)
next
  case False
  assume base: "base_inv k s"
  let ?d = "setStatus Suspended (Some w) (disarm s)"
  have "base_inv k ?d" using base False base_running [OF base] by (intro base_setStatus) auto
  then have "status (interruptCycle ''suspended'' ?d) = Suspended"
    using interruptCycle_released [of k ?d "''suspended''"] by (simp add: released_def)
  then show ?thesis using False by (simp add: suspend_def progress_status close_at_boundary_frame)
qed

lemma degrade_progress:
  assumes base: "base_inv k s" and ok: "is_ok (fst (degrade k w env s))"
  shows "progress (snd (degrade k w env s))"
proof (cases "status s = Stopped \<or> status s = Suspended")
  case True
  then show ?thesis by (auto simp: degrade_def progress_def)
next
  case False
  let ?d = "setStatus Degraded (Some w) (disarm s)"
  let ?c = "close_at_boundary env (interruptCycle w ?d)"
  have "base_inv k ?d" using base False base_running [OF base] by (intro base_setStatus) auto
  then have "running (interruptCycle w ?d)"
    using interruptCycle_released [of k ?d w] False base_running [OF base] by (simp add: released_def)
  then have run: "running ?c" by (simp add: close_at_boundary_frame)
  show ?thesis
  proof (cases "cycle ?c = None")
    case True
    with False run ok show ?thesis by (auto simp: degrade_def Let_def split: sum.splits)
  next
    case cyc: False
    then have "timer ?c \<noteq> None" by (rule close_at_boundary_frame)
    with False cyc show ?thesis by (simp add: degrade_def Let_def progress_def)
  qed
qed

lemma caught_progress:
  assumes "sched_inv k s" "is_ok (fst (slot_catch k env (degrade k w env s)))"
  shows "progress (snd (slot_catch k env (degrade k w env s)))"
proof -
  have base: "base_inv k s" using assms(1) by (simp add: sched_inv_def)
  have "sched_inv k (snd (degrade k w env s))" using assms(1) by (intro degrade_inv) (simp_all add: sched_inv_def)
  then have base': "base_inv k (snd (degrade k w env s))" by (simp add: sched_inv_def)
  obtain r t where d: "degrade k w env s = (r, t)" by (cases "degrade k w env s")
  show ?thesis
    using assms(2) d degrade_progress [OF base, of w env] degrade_progress [of k t _ env] base'
    by (cases r) (simp_all add: slot_catch_def)
qed

lemma late_progress:
  assumes "base_inv k s" "is_ok (fst (handleLateTimer k kd env s))"
  shows "progress (snd (handleLateTimer k kd env s))"
  using assms degrade_progress [OF assms(1)]
  by (cases kd) (auto simp: handleLateTimer_def Let_def progress_status)

lemma handleCycleBoundary_progress:
  assumes v: "valid_schedule (schedule k)" and inv: "sched_inv k s" and q: "quiet s"
    and c: "cycle s = Some c" "endMs c = b" and ok: "is_ok (fst (handleCycleBoundary k b env s))"
  shows "progress (snd (handleCycleBoundary k b env s))"
proof -
  have base: "base_inv k s" using inv by (simp add: sched_inv_def)
  note rel = finalizeCycleJobs_released [OF base, of env, unfolded released_def]
  obtain clean t where t: "closeCurrentCycle ''boundary'' env (finalizeCycleJobs k env s) = (clean, t)"
    by (cases "closeCurrentCycle ''boundary'' env (finalizeCycleJobs k env s)")
  have snd_t: "t = snd (closeCurrentCycle ''boundary'' env (finalizeCycleJobs k env s))" using t by simp
  have tb: "base_inv k t" "idle t" "cycle t = None" "quiet t"
    using rel closeCurrentCycle_base [of k "finalizeCycleJobs k env s"] q by (simp_all add: snd_t quiet_def)
  note run = base_running [OF tb(1)]
  show ?thesis
  proof (cases "clean \<and> running t \<and> status t \<noteq> Stopped \<and> status t \<noteq> Suspended")
    case False
    then show ?thesis
      using c t ok run by (cases clean) (auto simp: handleCycleBoundary_def Let_def progress_status split: sum.splits if_splits)
  next
    case True
    obtain r u where u: "openCycle k b (generation t) env t = (r, u)" by (cases "openCycle k b (generation t) env t")
    have "opens_well k t (openCycle k b (generation t) env t)"
      using v tb by (intro openCycle_well) (auto simp: quiet_def less_imp_le)
    with u True have "(u = t \<and> \<not> is_ok r) \<or> (timer u \<noteq> None \<and> is_ok r)" by (auto simp: opens_well_def)
    then show ?thesis
      using c t True u suspend_progress [OF tb(1)]
      by (cases r) (auto simp: handleCycleBoundary_def progress_def)
  qed
qed

lemma live_await: "f_generation fl = generation s \<Longrightarrow> progress (await_slot fl aw s)"
  by (simp add: progress_def live_flights_def await_slot_def)

lemma await_progress: "progress s \<Longrightarrow> progress (await_slot fl aw s)"
  by (auto simp: progress_def live_flights_def await_slot_def)

lemma sendSlot_progress:
  assumes inv: "sched_inv k s" and slot: "at_slot k s sl c" and ok: "is_ok (fst (sendSlot k sl (generation s) env s))"
  shows "progress (snd (sendSlot k sl (generation s) env s))"
  using assms caught_progress [OF inv, of env "''lane-open-failed''"]
  by (cases "find (\<lambda>lane. laneIndex lane = sl_laneIndex sl) (lanes c)")
     (simp_all add: sendSlot_def at_slot_def live_await)

lemma timer_fired_progress:
  assumes v: "valid_schedule (schedule k)" and inv: "sched_inv k s" and prog: "progress s"
    and ok: "is_ok (fst (timer_fired k env s))"
  shows "progress (snd (timer_fired k env s))"
proof (cases "timer s")
  case None
  with prog show ?thesis by (simp add: timer_fired_def)
next
  case (Some t)
  let ?s = "s\<lparr>timer := None\<rparr>"
  have tok: "timer_ok k s t" using inv Some by (simp add: sched_inv_def control_inv_def)
  then have g: "t_generation t = generation s" by (simp add: timer_ok_def)
  note s0 = timer_cleared [OF inv Some]
  have base: "base_inv k ?s" using s0 by (simp add: sched_inv_def)
  consider "now env < t_deadlineMs t" | "t_deadlineMs t + maxTimerDriftMs k < now env" "\<not> now env < t_deadlineMs t"
    | "\<not> now env < t_deadlineMs t" "\<not> t_deadlineMs t + maxTimerDriftMs k < now env" by blast
  then show ?thesis
  proof cases
    case 1
    with Some g show ?thesis by (simp add: timer_fired_def armRemaining_def progress_def)
  next
    case 2
    with late_progress [OF base, of "t_kind t" env] ok Some g show ?thesis by (simp add: timer_fired_def)
  next
    case 3
    show ?thesis
    proof (cases "t_kind t")
      case OpenBoundary
      then have none: "cycle ?s = None" using tok by (simp add: timer_ok_def)
      obtain r u where u: "openCycle k (t_deadlineMs t) (generation s) env ?s = (r, u)"
        by (cases "openCycle k (t_deadlineMs t) (generation s) env ?s")
      have "opens_well k ?s (openCycle k (t_deadlineMs t) (generation ?s) env ?s)"
        using s0(2) by (intro openCycle_well [OF v base none]) (auto simp: quiet_def less_imp_le)
      then have "(u = ?s \<and> (is_ok r \<longrightarrow> \<not> running s \<or> status s = Stopped \<or> status s = Suspended)) \<or>
          (timer u \<noteq> None \<and> is_ok r)"
        using u by (auto simp: opens_well_def)
      moreover have "progress ?s" if "\<not> running s \<or> status s = Stopped \<or> status s = Suspended"
        using that base_running [OF base] by (auto simp: progress_def)
      ultimately show ?thesis
        using OpenBoundary 3 Some g u suspend_progress [OF base]
        by (cases r) (auto simp: timer_fired_def progress_def)
    next
      case CycleBoundary
      then obtain c where "cycle ?s = Some c" "endMs c = t_deadlineMs t" using tok by (auto simp: timer_ok_def)
      with handleCycleBoundary_progress [OF v s0, of c] CycleBoundary 3 Some g ok show ?thesis
        by (simp add: timer_fired_def)
    next
      case (SlotTimer slot)
      then obtain c where "at_slot k ?s slot c" using tok by (auto simp: timer_ok_def at_slot_def)
      with sendSlot_progress [OF s0(1)] SlotTimer 3 Some g ok show ?thesis by (simp add: timer_fired_def)
    qed
  qed
qed

section \<open>Flights\<close>

definition live_or_progress :: "scheduler \<Rightarrow> slot_flight \<Rightarrow> bool" where
  "live_or_progress s fl \<longleftrightarrow> f_generation fl = generation s \<or> progress s"

lemma removed_progress:
  assumes prog: "progress s" and i: "i < length (pending s)" "pending s ! i = (fl, aw)"
  shows "live_or_progress (s\<lparr>pending := remove_nth i (pending s)\<rparr>) fl"
proof (cases "f_generation fl = generation s")
  case True
  then show ?thesis by (simp add: live_or_progress_def)
next
  case False
  let ?P = "\<lambda>p. f_generation (fst p) = generation s"
  have "pending s = take i (pending s) @ (fl, aw) # drop (Suc i) (pending s)" using i id_take_nth_drop by metis
  then have "filter ?P (pending s) = filter ?P (take i (pending s)) @ filter ?P (drop (Suc i) (pending s))"
    using False by (metis (mono_tags, lifting) filter.simps(2) filter_append fst_conv)
  then have "live_flights (s\<lparr>pending := remove_nth i (pending s)\<rparr>) = live_flights s"
    by (simp add: live_flights_def remove_nth_def)
  with prog show ?thesis by (simp add: live_or_progress_def progress_def)
qed

lemma await_again: "live_or_progress s fl \<Longrightarrow> progress (await_slot fl aw s)"
  unfolding live_or_progress_def using live_await await_progress by blast

lemma cell_arrived_progress:
  assumes t: "taken k s fl aw" and lp: "live_or_progress s fl" and ok: "is_ok (fst (cell_arrived k fl aw ans env s))"
  shows "progress (snd (cell_arrived k fl aw ans env s))"
proof -
  have inv: "sched_inv k s" using t by (simp add: taken_def)
  show ?thesis
    using ok caught_progress [OF inv, of env "''cell-production-failed''"] await_again [OF lp]
    by (cases aw; cases ans) (simp_all add: cell_arrived_def)
qed

lemma cacheUnsent_same: "same_control s (cacheUnsent l req s)"
  by (auto simp: cacheUnsent_def same_control_def Let_def split: option.splits cover_cell_source.splits)

lemma request_ready_progress:
  assumes t: "taken k s fl (AwaitRequest req)" and lp: "live_or_progress s fl"
    and ok: "is_ok (fst (request_ready k fl req env s))"
  shows "progress (snd (request_ready k fl req env s))"
proof -
  have inv: "sched_inv k s" using t by (simp add: taken_def)
  let ?c = "cacheUnsent (f_lane fl) req s"
  have stale: "progress ?c" if "f_generation fl \<noteq> generation s"
    using lp that progress_same [OF cacheUnsent_same] by (simp add: live_or_progress_def)
  have "progress (await_slot fl (AwaitSend req) (notify (CellSent (now env) (lane_ref (f_lane fl)) req) s))"
    if "f_generation fl = generation s"
    using that by (intro live_await) simp
  then show ?thesis
    using ok stale caught_progress [OF cacheUnsent_inv [OF inv], of env "''missed-deadline''"]
    by (auto simp: request_ready_def)
qed

lemma send_answered_progress:
  assumes t: "taken k s fl (AwaitSend req)" and lp: "live_or_progress s fl"
    and ok: "is_ok (fst (send_answered k fl req ans env s))"
  shows "progress (snd (send_answered k fl req ans env s))"
proof -
  have inv: "sched_inv k s" using t by (simp add: taken_def)
  let ?a = "acceptSent k env (f_lane fl) req s"
  note same = acceptSent_same [of s k env "f_lane fl" req]
  have stale: "progress ?a" if "f_generation fl \<noteq> generation ?a"
    using lp that progress_same [OF same] same by (simp add: live_or_progress_def same_control_def)
  have cur: "\<exists>c. cycle ?a = Some c \<and> cy_id c = f_cycle fl" if "f_generation fl = generation ?a"
    using t that same by (auto simp: taken_def same_control_def at_slot_def)
  show ?thesis
    using ok caught_progress [OF cacheUnsent_inv [OF inv], of env] stale cur
    by (cases ans) (auto simp: send_answered_def Let_def split: option.splits)
qed

lemma settle_pending_progress:
  assumes inv: "sched_inv k s" and prog: "progress s" and ok: "is_ok (fst (settle_pending i f s))"
    and step: "\<And>fl aw t. taken k t fl aw \<Longrightarrow> live_or_progress t fl \<Longrightarrow> is_ok (fst (f (fl, aw) t)) \<Longrightarrow> progress (snd (f (fl, aw) t))"
  shows "progress (snd (settle_pending i f s))"
proof (cases "i < length (pending s)")
  case True
  obtain fl aw where p: "pending s ! i = (fl, aw)" by (cases "pending s ! i")
  show ?thesis
    using step [OF take_pending [OF inv True p] removed_progress [OF prog True p]] ok True p
    by (simp add: settle_pending_def)
next
  case False
  with prog show ?thesis by (simp add: settle_pending_def)
qed

section \<open>Steps\<close>

lemma settle_same: "same_control s1 s2 \<Longrightarrow> same_control s1 (settle k env r i out why s2)"
  by (simp add: same_control_def)

lemma owner_same:
  "same_control s (snd (enqueue k jb s))" "same_control s (snd (cancel k env i s))"
  "same_control s (snd (complete k env i s))"
  by (auto simp: cancel_def complete_def same_control_def split: option.splits)

lemma start_progress: "progress s \<Longrightarrow> is_ok (fst (start k env s)) \<Longrightarrow> progress (snd (start k env s))"
  by (auto simp: start_def Let_def split: option.splits sum.splits)

lemma resume_progress: "progress s \<Longrightarrow> is_ok (fst (resume k env s)) \<Longrightarrow> progress (snd (resume k env s))"
  by (auto simp: resume_def Let_def split: option.splits sum.splits if_splits)

lemma stop_progress: "sched_inv k s \<Longrightarrow> progress (snd (stop k env s))"
proof (cases "status s = Stopped \<and> cycle s = None")
  case True
  then show ?thesis by (simp add: stop_def progress_status)
next
  case False
  have set1: "status (fold (fail_stopped k env) rs t) = status t" for rs t
    by (induction rs arbitrary: t) simp_all
  show ?thesis
    using False by (intro progress_status)
      (simp add: stop_def Let_def close_at_boundary_frame detach_all set1 split: option.splits)
qed

lemma cover_step_progress:
  assumes v: "valid_schedule (schedule k)" and inv: "sched_inv k s" and prog: "progress s"
    and ok: "is_ok (fst (cover_step k env ev s))"
  shows "progress (snd (cover_step k env ev s))"
proof (cases ev)
  case (CellArrives i ans)
  let ?f = "\<lambda>(fl, aw) s'. case aw of AwaitRequest _ \<Rightarrow> (Inr (), s) | AwaitSend _ \<Rightarrow> (Inr (), s)
      | _ \<Rightarrow> cell_arrived k fl aw ans env s'"
  have "progress (snd (settle_pending i ?f s))"
    using ok CellArrives
    by (intro settle_pending_progress [OF inv prog])
       (auto simp: cover_step_def prog intro: cell_arrived_progress split: slot_await.splits)
  with CellArrives show ?thesis by (simp add: cover_step_def)
next
  case (RequestReady i)
  let ?f = "\<lambda>(fl, aw) s'. case aw of AwaitRequest req \<Rightarrow> request_ready k fl req env s' | _ \<Rightarrow> (Inr (), s)"
  have "progress (snd (settle_pending i ?f s))"
    using ok RequestReady
    by (intro settle_pending_progress [OF inv prog])
       (auto simp: cover_step_def prog intro: request_ready_progress split: slot_await.splits)
  with RequestReady show ?thesis by (simp add: cover_step_def)
next
  case (SendAnswers i ans)
  let ?f = "\<lambda>(fl, aw) s'. case aw of AwaitSend req \<Rightarrow> send_answered k fl req ans env s' | _ \<Rightarrow> (Inr (), s)"
  have "progress (snd (settle_pending i ?f s))"
    using ok SendAnswers
    by (intro settle_pending_progress [OF inv prog])
       (auto simp: cover_step_def prog intro: send_answered_progress split: slot_await.splits)
  with SendAnswers show ?thesis by (simp add: cover_step_def)
next
  case TimerFires
  with ok timer_fired_progress [OF v inv prog, of env] show ?thesis by (simp add: cover_step_def)
next
  case Start
  with ok start_progress [OF prog, of k env] show ?thesis
    by (cases "fst (start k env s)") (simp_all add: cover_step_def ignore_value_def)
next
  case Resume
  with ok resume_progress [OF prog, of k env] show ?thesis
    by (cases "fst (resume k env s)") (simp_all add: cover_step_def ignore_value_def)
next
  case Stop
  with stop_progress [OF inv] show ?thesis by (simp add: cover_step_def)
next
  case (Suspend w)
  with suspend_progress [of k s w env] inv show ?thesis by (simp add: cover_step_def sched_inv_def)
qed (use prog progress_same [OF owner_same(1)] progress_same [OF owner_same(2)] progress_same [OF owner_same(3)] in
      \<open>simp_all add: cover_step_def ignore_value_def\<close>)

end
