(* ===== verification/Cover_Props.thy ===== *)
theory Cover_Props
  imports Cover_Progress
begin

text \<open>
  The promises of the cover scheduler over all its runs: the runs are the sequences of steps from a
  freshly created scheduler, with every choice left to the surroundings.
\<close>

section \<open>Runs\<close>

text \<open>The flag is true while no step has failed halfway (a clock out of the safe range).\<close>

inductive cover_run :: "cover_config \<Rightarrow> bool \<Rightarrow> scheduler \<Rightarrow> bool" for k where
  created: "createCoverScheduler sched drift = Inr (k, s) \<Longrightarrow> cover_run k True s"
| stepped: "cover_run k b s \<Longrightarrow> cover_step k env ev s = (r, s') \<Longrightarrow> cover_run k (b \<and> (is_ok r \<or> s' = s)) s'"

inductive_cases cover_run_elim: "cover_run k b s"

lemma created_fields:
  assumes "createCoverScheduler sched drift = Inr (k, s)"
  shows "s = initial_scheduler" "valid_schedule (schedule k)" "0 \<le> maxTimerDriftMs k"
  using assms
  by (auto simp: createCoverScheduler_def result_simps valid_schedule_def Let_def split: option.splits)

lemma initial_inv: "sched_inv k initial_scheduler" "progress initial_scheduler"
  by (simp_all add: sched_inv_def base_defs control_inv_def initial_scheduler_def idle_def live_flights_def
      unsent_next_def progress_def)

lemma cover_run_inv: "cover_run k b s \<Longrightarrow> valid_schedule (schedule k) \<and> sched_inv k s \<and> (b \<longrightarrow> progress s)"
proof (induction rule: cover_run.induct)
  case (created sched drift s)
  then show ?case using created_fields [OF created] initial_inv by simp
next
  case (stepped b s env ev r s')
  then have "sched_inv k s'" using cover_step_inv [of k s env ev] by simp
  moreover have "progress s'" if "b" "is_ok r \<or> s' = s"
    using that stepped cover_step_progress [of k s env ev] by auto
  ultimately show ?case using stepped by blast
qed

section \<open>What a step sends\<close>

lemma suspend_cells: "base_inv k s \<Longrightarrow> cells_sent (trace (snd (suspend w env s))) = cells_sent (trace s)"
proof (cases "status s = Stopped \<or> status s = Suspended")
  case False
  assume base: "base_inv k s"
  let ?d = "setStatus Suspended (Some w) (disarm s)"
  have "base_inv k ?d" using base False base_running [OF base] by (intro base_setStatus) auto
  then show ?thesis
    using False interruptCycle_released [of k ?d "''suspended''"]
    by (simp add: suspend_def close_at_boundary_frame released_def)
qed (auto simp: suspend_def)

lemma degrade_cells:
  assumes "base_inv k s"
  shows "cells_sent (trace (snd (degrade k w env s))) = cells_sent (trace s)"
proof (cases "status s = Stopped \<or> status s = Suspended")
  case False
  let ?d = "setStatus Degraded (Some w) (disarm s)"
  have "base_inv k ?d" using assms False base_running [OF assms] by (intro base_setStatus) auto
  then have "cells_sent (trace (close_at_boundary env (interruptCycle w ?d))) = cells_sent (trace s)"
    using interruptCycle_released [of k ?d w] by (simp add: close_at_boundary_frame released_def)
  with False show ?thesis by (auto simp: degrade_def Let_def armOpenBoundary_def split: sum.splits)
qed (auto simp: degrade_def)

lemma caught_cells:
  assumes "sched_inv k s"
  shows "cells_sent (trace (snd (slot_catch k env (degrade k w env s)))) = cells_sent (trace s)"
proof -
  have b: "base_inv k s" using assms by (simp add: sched_inv_def)
  have "sched_inv k (snd (degrade k w env s))" using assms by (intro degrade_inv) (simp_all add: sched_inv_def)
  then have b': "base_inv k (snd (degrade k w env s))" by (simp add: sched_inv_def)
  obtain r t where d: "degrade k w env s = (r, t)" by (cases "degrade k w env s")
  show ?thesis
    using d degrade_cells [OF b, of w env] degrade_cells [OF b', of "''cell-production-failed''" env]
    by (cases r) (simp_all add: slot_catch_def)
qed

lemma dequeue_many_trace: "trace (snd (dequeue_many n s)) = trace s"
proof (induction n arbitrary: s)
  case (Suc n)
  have "trace (snd (dequeue s)) = trace s" by (simp add: dequeue_def Let_def split: list.splits)
  with Suc [of "snd (dequeue s)"] show ?case by (simp add: case_prod_beta Let_def)
qed simp

lemma admit_trace: "trace (fold admit sel s) = trace s"
proof (induction sel arbitrary: s)
  case (Cons x sel)
  then show ?case by (cases x) simp_all
qed simp

lemma open_lanes_cells:
  "cells_sent (trace (snd (snd (fold (open_lane idx a b env) xs (ls, fl, s))))) = cells_sent (trace s)"
proof (induction xs arbitrary: ls fl s)
  case (Cons x xs)
  obtain i ro where "x = (i, ro)" by (cases x)
  then show ?case using Cons by (cases "opens env i") (simp_all add: open_lane_cases)
qed simp

lemma requeue_all_cells:
  "cells_sent (trace (fold (\<lambda>r s. case r of None \<Rightarrow> s | Some r \<Rightarrow> requeue r w s) sel s)) = cells_sent (trace s)"
proof (induction sel arbitrary: s)
  case (Cons x sel)
  then show ?case by (cases x) simp_all
qed simp

lemma openCycle_error: "openCycle k b g env s = (Inl e, u) \<Longrightarrow> u = s"
  by (auto simp: openCycle_def Let_def split: if_splits sum.splits prod.splits)

lemma openCycle_cells: "cells_sent (trace (snd (openCycle k b g env s))) = cells_sent (trace s)"
proof -
  let ?n = "nat (cs_coverLanes (schedule k))"
  obtain sel s1 where dq: "dequeue_many ?n s = (sel, s1)" by (cases "dequeue_many ?n s")
  have s1: "trace s1 = trace s" using dequeue_many_trace [of ?n s] dq by simp
  have op: "cells_sent (trace t) = cells_sent (trace s)"
    if "fold (open_lane i b (b + cycleDurationMs (schedule k)) env) (zip (map int [0..<?n]) sel) ([], False, fold admit sel s1) = (ls, fl, t)"
    for i ls fl t
    using open_lanes_cells [of i b "b + cycleDurationMs (schedule k)" env "zip (map int [0..<?n]) sel" "[]" False "fold admit sel s1"]
      that s1 by (simp add: admit_trace)
  show ?thesis
    by (auto simp: openCycle_def Let_def dq armCycleBoundary_def armSlot_def requeue_all_cells detach_all
        split: sum.splits prod.splits dest: op)
qed

lemma handleCycleBoundary_cells:
  assumes "sched_inv k s"
  shows "cells_sent (trace (snd (handleCycleBoundary k b env s))) = cells_sent (trace s)"
proof -
  have base: "base_inv k s" using assms by (simp add: sched_inv_def)
  note rel = finalizeCycleJobs_released [OF base, of env, unfolded released_def]
  obtain clean t where t: "closeCurrentCycle ''boundary'' env (finalizeCycleJobs k env s) = (clean, t)"
    by (cases "closeCurrentCycle ''boundary'' env (finalizeCycleJobs k env s)")
  have tc: "cells_sent (trace t) = cells_sent (trace s)"
    using rel closeCurrentCycle_frame(9) [of "''boundary''" env "finalizeCycleJobs k env s"] t by simp
  have tb: "base_inv k t"
    using rel closeCurrentCycle_base(1) [of k "finalizeCycleJobs k env s" "''boundary''" env] t by simp
  obtain r u where u: "openCycle k b (generation t) env t = (r, u)" by (cases "openCycle k b (generation t) env t")
  have uc: "cells_sent (trace u) = cells_sent (trace s)" using openCycle_cells [of k b "generation t" env t] u tc by simp
  have "cells_sent (trace (snd (suspend w env u))) = cells_sent (trace s)" if "r = Inl e" for w e
    using openCycle_error [of k b "generation t" env t e u] that u tc suspend_cells [OF tb] by simp
  with uc tc t u show ?thesis
    by (cases r) (auto simp: handleCycleBoundary_def Let_def armOpenBoundary_def split: option.splits sum.splits)
qed

lemma timer_fired_cells:
  assumes inv: "sched_inv k s"
  shows "cells_sent (trace (snd (timer_fired k env s))) = cells_sent (trace s)"
proof (cases "timer s")
  case None
  then show ?thesis by (simp add: timer_fired_def)
next
  case (Some t)
  let ?s = "s\<lparr>timer := None\<rparr>"
  note s0 = timer_cleared [OF inv Some]
  have base: "base_inv k ?s" using s0 by (simp add: sched_inv_def)
  obtain r u where u: "openCycle k (t_deadlineMs t) (t_generation t) env ?s = (r, u)"
    by (cases "openCycle k (t_deadlineMs t) (t_generation t) env ?s")
  have "cells_sent (trace u) = cells_sent (trace s)"
    using openCycle_cells [of k "t_deadlineMs t" "t_generation t" env ?s] u by simp
  moreover have "cells_sent (trace (snd (suspend w env u))) = cells_sent (trace s)" if "r = Inl e" for w e
    using openCycle_error [of k "t_deadlineMs t" "t_generation t" env ?s e u] that u suspend_cells [OF base] by simp
  moreover have "cells_sent (trace (snd (sendSlot k slot g env ?s))) = cells_sent (trace s)" for slot g
    using caught_cells [OF s0(1)] by (simp add: sendSlot_def await_slot_def split: option.splits)
  moreover have "cells_sent (trace (snd (handleLateTimer k kd env ?s))) = cells_sent (trace s)" for kd
    using degrade_cells [OF base] interruptCycle_released [OF base, of "''suspended''"]
    by (cases kd) (simp_all add: handleLateTimer_def Let_def released_def)
  ultimately show ?thesis
    using Some u handleCycleBoundary_cells [OF s0(1)]
    by (cases r) (auto simp: timer_fired_def Let_def armRemaining_def split: timer_kind.splits)
qed

lemma stop_cells: "cells_sent (trace (snd (stop k env s))) = cells_sent (trace s)"
proof -
  have "cells_sent (trace (fold (fail_stopped k env) rs t)) = cells_sent (trace t)" for rs t
    by (induction rs arbitrary: t) simp_all
  then show ?thesis by (simp add: stop_def Let_def close_at_boundary_frame detach_all split: option.splits)
qed

lemma resume_cells: "cells_sent (trace (snd (resume k env s))) = cells_sent (trace s)"
  by (auto simp: resume_def Let_def armOpenBoundary_def armCycleBoundary_def split: option.splits sum.splits)

lemma start_cells: "cells_sent (trace (snd (start k env s))) = cells_sent (trace s)"
  by (auto simp: start_def Let_def armOpenBoundary_def armCycleBoundary_def split: option.splits sum.splits)

lemma send_answered_cells:
  assumes "sched_inv k s"
  shows "cells_sent (trace (snd (send_answered k fl req ans env s))) = cells_sent (trace s)"
proof -
  have "cells_sent (trace (cacheUnsent l q s)) = cells_sent (trace s)" for l q
    using cacheUnsent_same [of s l q] by (simp add: same_control_def)
  moreover have "cells_sent (trace (acceptSent k env l q s)) = cells_sent (trace s)" for l q
    using acceptSent_same [of s k env l q] by (simp add: same_control_def)
  ultimately show ?thesis
    using caught_cells [OF cacheUnsent_inv [OF assms]]
    by (cases ans) (auto simp: send_answered_def Let_def armSlot_def armCycleBoundary_def split: option.splits)
qed

lemma request_ready_cells:
  assumes "sched_inv k s"
  shows "cells_sent (trace (snd (request_ready k fl req env s))) =
    cells_sent (trace s) @ (if f_generation fl = generation s \<and> now env \<le> deadlineMs (f_slot fl) + maxTimerDriftMs k
      then [(now env, lane_ref (f_lane fl), req)] else [])"
proof -
  have "cells_sent (trace (cacheUnsent l q s)) = cells_sent (trace s)" for l q
    using cacheUnsent_same [of s l q] by (simp add: same_control_def)
  then show ?thesis
    using caught_cells [OF cacheUnsent_inv [OF assms]] by (simp add: request_ready_def await_slot_def)
qed

lemma cell_arrived_cells:
  assumes "sched_inv k s"
  shows "cells_sent (trace (snd (cell_arrived k fl aw ans env s))) = cells_sent (trace s)"
  using caught_cells [OF assms]
  by (cases aw; cases ans) (simp_all add: cell_arrived_def await_slot_def)

lemma settle_pending_cells:
  assumes "sched_inv k s"
    and "\<And>p t. sched_inv k t \<Longrightarrow> trace t = trace s \<Longrightarrow> cells_sent (trace (snd (f p t))) = cells_sent (trace s)"
  shows "cells_sent (trace (snd (settle_pending i f s))) = cells_sent (trace s)"
  using assms(2) [of "s\<lparr>pending := remove_nth i (pending s)\<rparr>" "pending s ! i"] pending_remove_inv [OF assms(1), of i]
  by (simp add: settle_pending_def)

lemma other_step_cells:
  assumes inv: "sched_inv k s" and ev: "\<And>i. ev \<noteq> RequestReady i"
  shows "cells_sent (trace (snd (cover_step k env ev s))) = cells_sent (trace s)"
proof (cases ev)
  case (CellArrives i ans)
  show ?thesis
    unfolding CellArrives cover_step_def cover_event.case
    by (intro settle_pending_cells [OF inv]) (auto simp: cell_arrived_cells split: slot_await.split)
next
  case (SendAnswers i ans)
  show ?thesis
    unfolding SendAnswers cover_step_def cover_event.case
    by (intro settle_pending_cells [OF inv]) (auto simp: send_answered_cells split: slot_await.split)
next
  case (Suspend w)
  with suspend_cells [of k s w env] inv show ?thesis by (simp add: cover_step_def sched_inv_def)
qed (use ev owner_same [of s k] timer_fired_cells [OF inv] in
      \<open>simp_all add: cover_step_def ignore_value_def same_control_def start_cells resume_cells stop_cells\<close>)

section \<open>A concrete run\<close>

definition demo_schedule :: cover_schedule where
  "demo_schedule = \<lparr>phaseOffsetMs = 0, cs_coverCadenceMs = 1000, cs_coverLanes = 2, cs_coverFramesPerCell = 2,
     cs_coverDurationEpochs = 2\<rparr>"

definition demo_config :: cover_config where
  "demo_config = \<lparr>schedule = demo_schedule, maxTimerDriftMs = 10\<rparr>"

definition demo_env :: "int \<Rightarrow> cover_env" where
  "demo_env t = \<lparr>now = t, opens = (\<lambda>_. True), closes = (\<lambda>_. True), on_result = (\<lambda>_. [])\<rparr>"

definition demo_job :: cover_job where
  "demo_job = \<lparr>cj_id = ''a'', cj_kind = RealJob, declaredCellCount = 1, cj_priority = None, has_cancelCell = True\<rparr>"

lemma demo_created: "createCoverScheduler demo_schedule (Some 10) = Inr (demo_config, initial_scheduler)"
  by (simp add: createCoverScheduler_def validateCoverSchedule_def demo_schedule_def demo_config_def
      assertSafeInteger_def is_safe_integer_def const_defs slotsPerEpoch_def slotsPerLane_def
      cycleDurationMs_def spacing_less_def)

fun cover_run_from :: "cover_config \<Rightarrow> (cover_env \<times> cover_event) list \<Rightarrow> scheduler \<Rightarrow> bool \<times> scheduler" where
  "cover_run_from k [] s = (True, s)"
| "cover_run_from k ((env, ev) # evs) s =
     (let (r, s1) = cover_step k env ev s; (ok, s2) = cover_run_from k evs s1 in (is_ok r \<and> ok, s2))"

lemma cover_run_from_run:
  "cover_run k b s \<Longrightarrow> fst (cover_run_from k evs s) \<Longrightarrow> cover_run k b (snd (cover_run_from k evs s))"
proof (induction evs arbitrary: s)
  case (Cons e evs)
  obtain env ev where e: "e = (env, ev)" by (cases e)
  obtain r s1 where st: "cover_step k env ev s = (r, s1)" by (cases "cover_step k env ev s")
  obtain ok s2 where re: "cover_run_from k evs s1 = (ok, s2)" by (cases "cover_run_from k evs s1")
  have "is_ok r" "ok" using Cons.prems(2) e st re by simp_all
  with cover_run.stepped [OF Cons.prems(1) st] have "cover_run k b s1" by simp
  with Cons.IH [of s1] re \<open>ok\<close> e st show ?case by simp
qed simp

text \<open>A job enqueued, admitted at the boundary, its only cell produced and sent on time.\<close>

definition demo_events :: "(cover_env \<times> cover_event) list" where
  "demo_events =
     [(demo_env (-5), Enqueue demo_job), (demo_env (-5), Start), (demo_env 0, TimerFires),
      (demo_env 125, TimerFires), (demo_env 126, CellArrives 0 (Produced [7])), (demo_env 126, RequestReady 0)]"

definition demo_state :: scheduler where
  "demo_state = snd (cover_run_from demo_config demo_events initial_scheduler)"

lemma demo_events_ok: "fst (cover_run_from demo_config demo_events initial_scheduler)"
  by code_simp

lemma demo_state_run: "cover_run demo_config True demo_state"
  unfolding demo_state_def by (rule cover_run_from_run [OF cover_run.created [OF demo_created] demo_events_ok])

lemma demo_state_values:
  "sequence demo_state = 1" "status demo_state = Active" "length (cells_sent (trace demo_state)) = 1"
  "settled (heap demo_state 0) = False"
  by code_simp+

section \<open>Properties\<close>

text \<open>C23: whatever happens, no job is lost, duplicated or reported twice. In every reachable state a
  job that was ever enqueued is settled exactly if its result has been reported, results are
  reported at most once per job, an unsettled job is either in the queue once or on exactly one
  lane, and no job has more cells accepted than it declared.\<close>

theorem cover_jobs_accounted:
  assumes "cover_run k b s" "r < sequence s"
  shows "(settled (heap s r) \<longleftrightarrow> r \<in> set (results (trace s))) \<and> distinct (results (trace s)) \<and>
    distinct (queued s) \<and>
    (\<not> settled (heap s r) \<longrightarrow>
       (r \<in> set (queued s) \<and> (\<forall>l. lane_job s l \<noteq> Some r)) \<or> (r \<notin> set (queued s) \<and> (\<exists>!l. lane_job s l = Some r))) \<and>
    0 \<le> sentCells (heap s r) \<and> sentCells (heap s r) \<le> declaredCellCount (job (heap s r))"
proof -
  have inv: "sched_inv k s" using cover_run_inv [OF assms(1)] by blast
  note own = sched_jobs(2) [OF inv]
  have "(r \<in> set (queued s) \<and> (\<forall>l. lane_job s l \<noteq> Some r)) \<or> (r \<notin> set (queued s) \<and> (\<exists>!l. lane_job s l = Some r))"
    if "\<not> settled (heap s r)"
  proof (cases "r \<in> set (queued s)")
    case True
    then show ?thesis using own_lane [OF own, of _ r] by blast
  next
    case False
    with own_place [OF own assms(2) that] obtain l where "lane_job s l = Some r" by blast
    with False own_unique [OF own] show ?thesis by blast
  qed
  with sched_jobs(1) [OF inv] assms(2) show ?thesis by (auto simp: jobs_inv_def runtime_ok_def)
qed

theorem cover_jobs_accounted_witness:
  "distinct (results (trace demo_state)) \<and> (0 \<notin> set (queued demo_state) \<and> (\<exists>!l. lane_job demo_state l = Some 0) \<or>
     0 \<in> set (queued demo_state))"
  using cover_jobs_accounted [OF demo_state_run, of 0] demo_state_values by auto

text \<open>C24: at most one cell is handed to the transport per slot of a cycle, and never later than the
  tolerated drift after the slot's deadline: there is no catch-up burst, whatever was suspended,
  failed, delayed or answered out of order before.\<close>

theorem cover_slot_sent_once:
  assumes "cover_run k b s"
  shows "distinct (sent_keys (trace s)) \<and>
    (\<forall>(t, l, req) \<in> set (cells_sent (trace s)). t \<le> deadlineMs (rq_slot req) + maxTimerDriftMs k)"
proof -
  have "sched_inv k s" using cover_run_inv [OF assms] by blast
  then show ?thesis by (simp add: sched_inv_def base_inv_def sends_inv_def)
qed

theorem cover_slot_sent_once_witness:
  "length (cells_sent (trace demo_state)) = 1 \<and> distinct (sent_keys (trace demo_state))"
  using cover_slot_sent_once [OF demo_state_run] demo_state_values by simp

text \<open>C25: a scheduler that is neither stopped nor suspended never stalls: a timer is armed, or a slot
  of the current generation is in flight and will continue when its producer or transport answers.\<close>

theorem cover_never_stalls:
  assumes "cover_run k True s"
  shows "status s = Stopped \<or> status s = Suspended \<or> timer s \<noteq> None \<or>
    (\<exists>p \<in> set (pending s). f_generation (fst p) = generation s)"
proof -
  have "progress s" using cover_run_inv [OF assms] by blast
  then show ?thesis by (auto simp: progress_def live_flights_def filter_empty_conv)
qed

theorem cover_never_stalls_witness:
  "status demo_state = Active \<and> ((\<exists>t. timer demo_state = Some t) \<or>
     (\<exists>p \<in> set (pending demo_state). f_generation (fst p) = generation demo_state))"
  using cover_never_stalls [OF demo_state_run] demo_state_values by auto

text \<open>C26: a cell leaves only while the scheduler is active, at most one per step, for the next slot of
  the open cycle and on a lane of that cycle; a stopped, suspended, starting or degraded scheduler
  sends nothing.\<close>

theorem cover_sends_only_when_active:
  assumes "cover_run k b s" "cells_sent (trace (snd (cover_step k env ev s))) \<noteq> cells_sent (trace s)"
  shows "\<exists>c l req. status s = Active \<and> cycle s = Some c \<and> l \<in> set (lanes c) \<and>
    rq_slot req = slotAt (schedule k) c (nextSlotOrdinal c) \<and>
    cells_sent (trace (snd (cover_step k env ev s))) = cells_sent (trace s) @ [(now env, lane_ref l, req)]"
proof -
  have inv: "sched_inv k s" using cover_run_inv [OF assms(1)] by blast
  then obtain i where ev: "ev = RequestReady i" using other_step_cells [of k s ev env] assms(2) by blast
  let ?t = "s\<lparr>pending := remove_nth i (pending s)\<rparr>"
  show ?thesis
  proof (cases "\<exists>fl req. i < length (pending s) \<and> pending s ! i = (fl, AwaitRequest req)")
    case False
    then have "cells_sent (trace (snd (cover_step k env ev s))) = cells_sent (trace s)"
      by (auto simp: ev cover_step_def settle_pending_def split: prod.splits slot_await.splits)
    with assms(2) show ?thesis by simp
  next
    case True
    then obtain fl req where p: "i < length (pending s)" "pending s ! i = (fl, AwaitRequest req)" by blast
    have step: "cover_step k env ev s = request_ready k fl req env ?t"
      using p by (simp add: ev cover_step_def settle_pending_def)
    note cells = request_ready_cells [OF pending_remove_inv [OF inv, of i], of fl req env, folded step]
    have g: "f_generation fl = generation s" using assms(2) cells by (auto split: if_splits)
    have t: "taken k ?t fl (AwaitRequest req)" by (rule take_pending [OF inv p])
    then obtain c where "at_slot k ?t (f_slot fl) c" "f_lane fl \<in> set (lanes c)" "rq_slot req = f_slot fl"
      using g by (auto simp: taken_def)
    with cells assms(2) show ?thesis
      by (intro exI [of _ c] exI [of _ "f_lane fl"] exI [of _ req]) (auto simp: at_slot_def split: if_splits)
  qed
qed

definition demo_before :: scheduler where
  "demo_before = snd (cover_run_from demo_config (butlast demo_events) initial_scheduler)"

lemma demo_before_run: "cover_run demo_config True demo_before"
proof -
  have "fst (cover_run_from demo_config (butlast demo_events) initial_scheduler)" by code_simp
  then show ?thesis
    unfolding demo_before_def by (rule cover_run_from_run [OF cover_run.created [OF demo_created]])
qed

theorem cover_sends_only_when_active_witness:
  "\<exists>c l req. status demo_before = Active \<and> cycle demo_before = Some c \<and> l \<in> set (lanes c) \<and>
    rq_slot req = slotAt demo_schedule c (nextSlotOrdinal c) \<and>
    cells_sent (trace (snd (cover_step demo_config (demo_env 126) (RequestReady 0) demo_before))) =
      cells_sent (trace demo_before) @ [(126, lane_ref l, req)]"
proof -
  have "length (cells_sent (trace (snd (cover_step demo_config (demo_env 126) (RequestReady 0) demo_before)))) = 1"
    "length (cells_sent (trace demo_before)) = 0" by code_simp+
  then have "cells_sent (trace (snd (cover_step demo_config (demo_env 126) (RequestReady 0) demo_before))) \<noteq>
      cells_sent (trace demo_before)" by auto
  from cover_sends_only_when_active [OF demo_before_run this] show ?thesis
    by (simp add: demo_config_def demo_env_def)
qed



end
