(* ===== verification/Cover_Runtime.thy ===== *)
theory Cover_Runtime
  imports Cover_Slots
begin

text \<open>
  The cover runtime of one peer edge (\<^verbatim>\<open>handlers/coverRuntime.ts\<close>) around the scheduler: the phase every
  peer derives from the policy hash, the schedule and drift tolerance it creates the scheduler with,
  the checks of a lane before a cell goes out, and the replay window of inbound cover counters.
  \<^verbatim>\<open>handlers/coverEdge.ts\<close> hands it the four cover fields of the room policy.
\<close>

section \<open>Creating the scheduler of an edge\<close>

datatype cover_runtime_error = PolicyHashTooShort | CadenceNotPositiveInteger | SchedulerRefused cover_error

definition deriveCoverPhaseOffsetMs :: "bytes \<Rightarrow> int \<Rightarrow> cover_runtime_error + int" where
  "deriveCoverPhaseOffsetMs policyHash cadence =
     (if length policyHash < 8 then Inl PolicyHashTooShort
      else if \<not> is_safe_integer cadence \<or> cadence \<le> 0 then Inl CadenceNotPositiveInteger
      else Inr (int (be_dec (sub policyHash 0 8)) mod cadence))"

text \<open>The floor of the slot spacing is the integer quotient.\<close>

definition default_drift :: "cover_schedule \<Rightarrow> int" where
  "default_drift s = max 0 (min (cs_coverCadenceMs s div slotsPerEpoch s - 1) 500)"

definition newCoverRuntime ::
    "room_policy \<Rightarrow> bytes \<Rightarrow> int option \<Rightarrow> cover_runtime_error + cover_config \<times> scheduler" where
  "newCoverRuntime policy policyHash driftOption =
     rbind (deriveCoverPhaseOffsetMs policyHash (coverCadenceMs policy)) (\<lambda>phase.
       let sched = policy_schedule policy phase;
           drift = (case driftOption of None \<Rightarrow> default_drift sched | Some d \<Rightarrow> d)
       in case createCoverScheduler sched (Some drift) of
            Inl e \<Rightarrow> Inl (SchedulerRefused e) | Inr ks \<Rightarrow> Inr ks)"

definition cellsPerLanePerCycle :: "cover_schedule \<Rightarrow> int" where
  "cellsPerLanePerCycle s = cs_coverFramesPerCell s * cs_coverDurationEpochs s"

section \<open>The lane's send\<close>

record lane_channel =
  ch_readyState :: string
  ch_bufferedAmount :: nat
  ch_sent :: "bytes list"

datatype lane_send = NonUniformCell | LaneSend bool lane_channel

definition laneSend :: "lane_channel \<Rightarrow> bytes \<Rightarrow> lane_send" where
  "laneSend ch cell =
     (if length cell \<noteq> WIRE_CHUNK_FRAME_LEN then NonUniformCell
      else if ch_readyState ch \<noteq> ''open'' then LaneSend False ch
      else if ch_bufferedAmount ch \<ge> MAX_BUFFERED_AMOUNT then LaneSend False ch
      else LaneSend True (ch\<lparr>ch_sent := ch_sent ch @ [cell]\<rparr>))"

section \<open>The replay window\<close>

record replay_window =
  highestCounter :: "nat option"
  seenCounters :: "nat list"

definition REPLAY_WINDOW :: nat where [const_defs]: "REPLAY_WINDOW = 1024"

definition admitInboundCounter :: "nat \<Rightarrow> replay_window \<Rightarrow> bool \<times> replay_window" where
  "admitInboundCounter counter w =
     (if (case highestCounter w of None \<Rightarrow> False
          | Some h \<Rightarrow> h \<ge> REPLAY_WINDOW \<and> counter \<le> h - REPLAY_WINDOW) then (False, w)
      else if counter \<in> set (seenCounters w) then (False, w)
      else let w' = w\<lparr>seenCounters := seenCounters w @ [counter]\<rparr>
           in if (case highestCounter w of None \<Rightarrow> True | Some h \<Rightarrow> counter > h) then
                (let w' = w'\<lparr>highestCounter := Some counter\<rparr>
                 in if counter \<ge> REPLAY_WINDOW
                    then (True, w'\<lparr>seenCounters := filter (\<lambda>c. \<not> c \<le> counter - REPLAY_WINDOW) (seenCounters w')\<rparr>)
                    else (True, w'))
              else (True, w'))"

text \<open>The specification: the whole history of admitted counters is remembered.\<close>

definition history_admits :: "nat set \<Rightarrow> nat \<Rightarrow> bool" where
  "history_admits A c \<longleftrightarrow> c \<notin> A \<and> (A = {} \<or> Max A < REPLAY_WINDOW \<or> Max A - REPLAY_WINDOW < c)"

fun history_all :: "nat list \<Rightarrow> nat set \<Rightarrow> bool list \<times> nat set" where
  "history_all [] A = ([], A)"
| "history_all (c # cs) A =
     (let b = history_admits A c; (bs, B) = history_all cs (if b then insert c A else A) in (b # bs, B))"

fun admit_all :: "nat list \<Rightarrow> replay_window \<Rightarrow> bool list \<times> replay_window" where
  "admit_all [] w = ([], w)"
| "admit_all (c # cs) w =
     (let (b, w1) = admitInboundCounter c w; (bs, w2) = admit_all cs w1 in (b # bs, w2))"

definition window_of :: "nat set \<Rightarrow> replay_window \<Rightarrow> bool" where
  "window_of A w \<longleftrightarrow>
     finite A \<and> highestCounter w = (if A = {} then None else Some (Max A)) \<and> distinct (seenCounters w) \<and>
     set (seenCounters w) = {c \<in> A. Max A < REPLAY_WINDOW \<or> Max A - REPLAY_WINDOW < c}"

lemma window_empty: "window_of {} \<lparr>highestCounter = None, seenCounters = []\<rparr>"
  by (simp add: window_of_def)

lemma admit_refines:
  assumes w: "window_of A w" and run: "admitInboundCounter c w = (b, w')"
  shows "b = history_admits A c \<and> window_of (if b then insert c A else A) w'"
proof (cases "A = {}")
  case True
  with assms show ?thesis
    by (auto simp: window_of_def admitInboundCounter_def history_admits_def Let_def const_defs split: if_splits)
next
  case False
  have fin: "finite A" and h: "highestCounter w = Some (Max A)" and d: "distinct (seenCounters w)"
    and s: "set (seenCounters w) = {c \<in> A. Max A < REPLAY_WINDOW \<or> Max A - REPLAY_WINDOW < c}"
    using w False by (simp_all add: window_of_def)
  have le: "a \<in> A \<Longrightarrow> a \<le> Max A" for a using fin by simp
  have mx: "Max (insert c A) = max c (Max A)" using fin False by simp
  have "b = (\<not> (REPLAY_WINDOW \<le> Max A \<and> c \<le> Max A - REPLAY_WINDOW) \<and> c \<notin> set (seenCounters w))"
    using run h by (auto simp: admitInboundCounter_def Let_def split: if_splits)
  then have adm: "b = history_admits A c"
    unfolding s history_admits_def using False by (auto simp: not_le)
  show ?thesis
  proof (cases b)
    case False
    then have "w' = w" using run by (auto simp: admitInboundCounter_def Let_def split: if_splits option.splits)
    with False adm w show ?thesis by simp
  next
    case True
    then have c: "c \<notin> A" "Max A < REPLAY_WINDOW \<or> Max A - REPLAY_WINDOW < c"
      using adm \<open>A \<noteq> {}\<close> by (auto simp: history_admits_def)
    show ?thesis
    proof (cases "Max A < c")
      case True
      have w': "w' = \<lparr>highestCounter = Some c, seenCounters =
          (if c \<ge> REPLAY_WINDOW then filter (\<lambda>x. \<not> x \<le> c - REPLAY_WINDOW) (seenCounters w @ [c]) else seenCounters w @ [c])\<rparr>"
        using run \<open>b\<close> h True by (cases w) (auto simp: admitInboundCounter_def Let_def split: if_splits)
      have m: "Max (insert c A) = c" using mx True by simp
      have new: "c \<notin> set (seenCounters w)" using s c by simp
      have in_w: "x \<in> set (seenCounters w) \<longleftrightarrow> x \<in> A \<and> (Max A < REPLAY_WINDOW \<or> Max A - REPLAY_WINDOW < x)" for x
        using s by blast
      have "x \<in> set (seenCounters w') \<longleftrightarrow> x \<in> insert c A \<and> (c < REPLAY_WINDOW \<or> c - REPLAY_WINDOW < x)" for x
      proof (cases "c < REPLAY_WINDOW")
        case below: True
        then have "Max A < REPLAY_WINDOW" using True by linarith
        with below show ?thesis using in_w [of x] by (auto simp: w')
      next
        case False
        then have w'x: "x \<in> set (seenCounters w') \<longleftrightarrow> (x = c \<or> x \<in> set (seenCounters w)) \<and> c - REPLAY_WINDOW < x"
          by (auto simp: w' not_le)
        have "c - REPLAY_WINDOW < x \<Longrightarrow> Max A < REPLAY_WINDOW \<or> Max A - REPLAY_WINDOW < x"
          using True False by linarith
        with False show ?thesis unfolding w'x in_w by blast
      qed
      then have "set (seenCounters w') = {x \<in> insert c A. c < REPLAY_WINDOW \<or> c - REPLAY_WINDOW < x}" by blast
      moreover have "distinct (seenCounters w')" using d new by (simp add: w')
      ultimately have "window_of (insert c A) w'" unfolding window_of_def m using fin by (simp add: w')
      with adm \<open>b\<close> show ?thesis by simp
    next
      case False
      then have "w' = w\<lparr>seenCounters := seenCounters w @ [c]\<rparr>"
        using run \<open>b\<close> h by (auto simp: admitInboundCounter_def Let_def split: if_splits)
      moreover have "max c (Max A) = Max A" using False by simp
      ultimately have "window_of (insert c A) w'"
        using fin mx d s c h \<open>A \<noteq> {}\<close> by (auto simp: window_of_def)
      with adm \<open>b\<close> show ?thesis by simp
    qed
  qed
qed

lemma admit_all_refines:
  "window_of A w \<Longrightarrow> fst (admit_all cs w) = fst (history_all cs A) \<and> window_of (snd (history_all cs A)) (snd (admit_all cs w))"
proof (induction cs arbitrary: A w)
  case (Cons c cs)
  obtain b w1 where st: "admitInboundCounter c w = (b, w1)" by (cases "admitInboundCounter c w")
  have r: "b = history_admits A c" "window_of (if b then insert c A else A) w1"
    using admit_refines [OF Cons.prems st] by blast+
  from Cons.IH [OF r(2)] r(1) st show ?case by (simp add: case_prod_beta Let_def)
qed simp

lemma window_small: "window_of A w \<Longrightarrow> length (seenCounters w) \<le> REPLAY_WINDOW"
proof -
  assume w: "window_of A w"
  let ?m = "Max A"
  have "set (seenCounters w) \<subseteq> {?m + 1 - REPLAY_WINDOW..?m}"
    using w by (auto simp: window_of_def const_defs)
  then have "card (set (seenCounters w)) \<le> card {?m + 1 - REPLAY_WINDOW..?m}" by (intro card_mono) simp_all
  also have "\<dots> \<le> REPLAY_WINDOW" by (simp add: const_defs)
  finally have "card (set (seenCounters w)) \<le> REPLAY_WINDOW" .
  moreover have "distinct (seenCounters w)" using w by (simp add: window_of_def)
  ultimately show ?thesis using distinct_card by metis
qed

lemma history_all_distinct:
  assumes "history_all cs A = (bs, B)"
  shows "distinct (map fst (filter snd (zip cs bs))) \<and> set (map fst (filter snd (zip cs bs))) \<inter> A = {} \<and> length bs = length cs"
  using assms
proof (induction cs arbitrary: A bs B)
  case (Cons c cs)
  obtain bs' B' where h: "history_all cs (if history_admits A c then insert c A else A) = (bs', B')"
    by (cases "history_all cs (if history_admits A c then insert c A else A)")
  with Cons.prems have bs: "bs = history_admits A c # bs'" by (simp add: Let_def)
  from Cons.IH [OF h] bs show ?case by (auto simp: history_admits_def split: if_splits)
qed simp

section \<open>Properties\<close>

text \<open>An edge with a valid scheduled room policy can always start cover: from any policy hash of at
  least eight bytes the runtime's constructor succeeds, with a phase inside one cadence and a drift
  tolerance below one slot.\<close>

theorem scheduled_policy_starts_cover:
  assumes "validateRoomPolicyV1 p = Inr ()" "coverMode p = ''scheduled''" "8 \<le> length policyHash"
  shows "\<exists>k s. newCoverRuntime p policyHash None = Inr (k, s) \<and> validateCoverSchedule (schedule k) = Inr () \<and>
    0 \<le> phaseOffsetMs (schedule k) \<and> phaseOffsetMs (schedule k) < coverCadenceMs p \<and>
    0 \<le> maxTimerDriftMs k \<and> maxTimerDriftMs k * slotsPerEpoch (schedule k) < coverCadenceMs p"
proof -
  have r: "1000 \<le> coverCadenceMs p" "coverCadenceMs p \<le> 3600000"
    using assms(1,2) by (auto simp: validate_simps split: if_splits)
  let ?ph = "int (be_dec (sub policyHash 0 8)) mod coverCadenceMs p"
  let ?s = "policy_schedule p ?ph"
  have ph: "0 \<le> ?ph" "?ph < coverCadenceMs p" using r by simp_all
  have safe: "is_safe_integer ?ph" "is_safe_integer (coverCadenceMs p)"
    unfolding is_safe_integer_def MAX_SAFE_INTEGER_def using ph r by linarith+
  have v: "valid_schedule ?s" by (rule policy_schedule_valid [OF assms(1,2) safe(1)])
  have n: "0 < slotsPerEpoch ?s" by (rule slotsPerEpoch_pos [OF v])
  let ?q = "coverCadenceMs p div slotsPerEpoch ?s"
  have q: "?q * slotsPerEpoch ?s \<le> coverCadenceMs p" using n by (simp add: minus_mod_eq_div_mult [symmetric])
  have q1: "1 \<le> ?q"
  proof -
    have "25 * slotsPerEpoch ?s \<le> coverCadenceMs p" using valid_scheduleD(6) [OF v] by (simp add: policy_schedule_def)
    then have "1 * slotsPerEpoch ?s \<le> coverCadenceMs p" using n by simp
    then show ?thesis using n by (simp add: pos_imp_zdiv_pos_iff int_one_le_iff_zero_less)
  qed
  have drift: "default_drift ?s \<le> ?q - 1" "0 \<le> default_drift ?s"
    using q1 by (simp_all add: default_drift_def policy_schedule_def)
  have "default_drift ?s * slotsPerEpoch ?s \<le> (?q - 1) * slotsPerEpoch ?s"
    using drift n by (intro mult_right_mono) simp_all
  also have "\<dots> < coverCadenceMs p" using q n by (simp add: algebra_simps)
  finally have lt: "default_drift ?s * slotsPerEpoch ?s < coverCadenceMs p" .
  have "newCoverRuntime p policyHash None = Inr (\<lparr>schedule = ?s, maxTimerDriftMs = default_drift ?s\<rparr>, initial_scheduler)"
    using assms(3) safe r v drift lt
    by (simp add: newCoverRuntime_def deriveCoverPhaseOffsetMs_def createCoverScheduler_def valid_schedule_def
        Let_def policy_schedule_def)
  then show ?thesis using ph v drift lt by (simp add: valid_schedule_def policy_schedule_def)
qed

definition demo_policy :: room_policy where
  "demo_policy = DEFAULT_ROOM_POLICY_V1\<lparr>coverMode := ''scheduled'', coverCadenceMs := 1000, coverLanes := 2,
     coverFramesPerCell := 2, coverDurationEpochs := 3\<rparr>"

theorem scheduled_policy_starts_cover_witness:
  "\<exists>k s. newCoverRuntime demo_policy (replicate 32 0xab) None = Inr (k, s) \<and> 0 \<le> phaseOffsetMs (schedule k)"
proof -
  have "validateRoomPolicyV1 demo_policy = Inr ()"
    by (simp add: demo_policy_def DEFAULT_ROOM_POLICY_V1_def validateRoomPolicyV1_def const_defs
        assertUnsignedInteger_def assertKnownStringValue_def is_safe_integer_def mode_tables)
  from scheduled_policy_starts_cover [OF this, of "replicate 32 0xab"] show ?thesis
    by (auto simp: demo_policy_def)
qed

text \<open>C28: the sliding replay window, which keeps at most 1024 counters, decides exactly as if the whole
  history were kept: a counter is admitted if and only if it was never admitted before and is less
  than 1024 behind the highest one. No counter is ever admitted twice.\<close>

theorem replay_window_exact:
  "case admit_all cs \<lparr>highestCounter = None, seenCounters = []\<rparr> of (bs, w) \<Rightarrow>
     bs = fst (history_all cs {}) \<and> distinct (map fst (filter snd (zip cs bs))) \<and>
     length (seenCounters w) \<le> REPLAY_WINDOW"
proof -
  obtain bs w where a: "admit_all cs \<lparr>highestCounter = None, seenCounters = []\<rparr> = (bs, w)"
    by (cases "admit_all cs \<lparr>highestCounter = None, seenCounters = []\<rparr>")
  obtain hs H where h: "history_all cs {} = (hs, H)" by (cases "history_all cs {}")
  have "bs = hs" "window_of H w" using admit_all_refines [OF window_empty, of cs] a h by simp_all
  with history_all_distinct [OF h] window_small a h show ?thesis by simp
qed

end
