(* ===== verification/Message_Types.thy ===== *)
theory Message_Types
  imports Prelude
begin

text \<open>
  The message types of \<^verbatim>\<open>utils/messageTypes.ts\<close>: the numeric type a sender derives from a file name and
  writes into the metadata, and the extension, MIME type and category a receiver derives from it.
  Shown: which file names give a number the metadata check accepts, that the extension of a type
  gives the type back, and that category and MIME type agree.

  A \<^verbatim>\<open>switch\<close> over \<^verbatim>\<open>MessageType\<close> constants is the chain of its cases in source order. A file name is a string of Latin-1 characters.
\<close>

section \<open>The constants\<close>

datatype message_kind =
  MT_Text | MT_ImagePNG | MT_ImageJPEG | MT_ImageJPG | MT_ImageGIF | MT_ImageBMP |
  MT_ImageTIFF | MT_ImageSVG | MT_ImageWEBP | MT_ImageHEIC | MT_DocumentPDF | MT_DocumentDOC |
  MT_DocumentDOCX | MT_DocumentXLS | MT_DocumentXLSX | MT_DocumentPPT | MT_DocumentPPTX |
  MT_DocumentTXT | MT_DocumentRTF | MT_DocumentODT | MT_AudioMP3 | MT_AudioWAV | MT_AudioAAC |
  MT_AudioFLAC | MT_AudioOGG | MT_AudioM4A | MT_VideoMP4 | MT_VideoAVI | MT_VideoMKV |
  MT_VideoMOV | MT_VideoWMV | MT_VideoFLV | MT_VideoWEBM | MT_CompressedZIP | MT_CompressedRAR |
  MT_Compressed7Z | MT_CompressedTAR | MT_CompressedGZ | MT_CodeHTML | MT_CodeCSS | MT_CodeJS |
  MT_CodeJSX | MT_CodeTS | MT_CodeTSX | MT_CodeJSON | MT_CodeXML | MT_CodePY | MT_CodeJAVA |
  MT_CodeC | MT_CodeCPP | MT_CodeCS | MT_CodeRB | MT_CodePHP | MT_CodeSQL | MT_EbookEPUB |
  MT_EbookMOBI | MT_EbookAZW | MT_FontTTF | MT_FontOTF | MT_ImageICO | MT_ExecutableEXE |
  MT_ExecutableDMG | MT_ExecutableAPK | MT_Unknown

primrec MessageType :: "message_kind \<Rightarrow> int" where
  "MessageType MT_Text = 1"
| "MessageType MT_ImagePNG = 2"
| "MessageType MT_ImageJPEG = 3"
| "MessageType MT_ImageJPG = 4"
| "MessageType MT_ImageGIF = 5"
| "MessageType MT_ImageBMP = 6"
| "MessageType MT_ImageTIFF = 7"
| "MessageType MT_ImageSVG = 8"
| "MessageType MT_ImageWEBP = 9"
| "MessageType MT_ImageHEIC = 10"
| "MessageType MT_DocumentPDF = 11"
| "MessageType MT_DocumentDOC = 12"
| "MessageType MT_DocumentDOCX = 13"
| "MessageType MT_DocumentXLS = 14"
| "MessageType MT_DocumentXLSX = 15"
| "MessageType MT_DocumentPPT = 16"
| "MessageType MT_DocumentPPTX = 17"
| "MessageType MT_DocumentTXT = 18"
| "MessageType MT_DocumentRTF = 19"
| "MessageType MT_DocumentODT = 20"
| "MessageType MT_AudioMP3 = 21"
| "MessageType MT_AudioWAV = 22"
| "MessageType MT_AudioAAC = 23"
| "MessageType MT_AudioFLAC = 24"
| "MessageType MT_AudioOGG = 25"
| "MessageType MT_AudioM4A = 26"
| "MessageType MT_VideoMP4 = 27"
| "MessageType MT_VideoAVI = 28"
| "MessageType MT_VideoMKV = 29"
| "MessageType MT_VideoMOV = 30"
| "MessageType MT_VideoWMV = 31"
| "MessageType MT_VideoFLV = 32"
| "MessageType MT_VideoWEBM = 33"
| "MessageType MT_CompressedZIP = 34"
| "MessageType MT_CompressedRAR = 35"
| "MessageType MT_Compressed7Z = 36"
| "MessageType MT_CompressedTAR = 37"
| "MessageType MT_CompressedGZ = 38"
| "MessageType MT_CodeHTML = 39"
| "MessageType MT_CodeCSS = 40"
| "MessageType MT_CodeJS = 41"
| "MessageType MT_CodeJSX = 42"
| "MessageType MT_CodeTS = 43"
| "MessageType MT_CodeTSX = 44"
| "MessageType MT_CodeJSON = 45"
| "MessageType MT_CodeXML = 46"
| "MessageType MT_CodePY = 47"
| "MessageType MT_CodeJAVA = 48"
| "MessageType MT_CodeC = 49"
| "MessageType MT_CodeCPP = 50"
| "MessageType MT_CodeCS = 51"
| "MessageType MT_CodeRB = 52"
| "MessageType MT_CodePHP = 53"
| "MessageType MT_CodeSQL = 54"
| "MessageType MT_EbookEPUB = 55"
| "MessageType MT_EbookMOBI = 56"
| "MessageType MT_EbookAZW = 57"
| "MessageType MT_FontTTF = 58"
| "MessageType MT_FontOTF = 59"
| "MessageType MT_ImageICO = 60"
| "MessageType MT_ExecutableEXE = 61"
| "MessageType MT_ExecutableDMG = 62"
| "MessageType MT_ExecutableAPK = 63"
| "MessageType MT_Unknown = 64"

definition MessageCategory :: "(string \<times> string) list" where
  "MessageCategory =
     [(''Text'', ''Text''), (''Image'', ''Image''), (''Document'', ''Document''),
      (''Audio'', ''Audio''), (''Video'', ''Video''), (''Compressed'', ''Compressed''),
      (''Code'', ''Code''), (''Ebook'', ''Ebook''), (''Font'', ''Font''),
      (''Executable'', ''Executable''), (''Unknown'', ''Unknown'')]"

section \<open>From a file name to a type\<close>

definition extensionToMessageType :: "(string \<times> message_kind) list" where
  "extensionToMessageType =
     [(''png'', MT_ImagePNG), (''jpeg'', MT_ImageJPEG), (''jpg'', MT_ImageJPG), (''gif'', MT_ImageGIF),
      (''bmp'', MT_ImageBMP), (''tiff'', MT_ImageTIFF), (''svg'', MT_ImageSVG),
      (''webp'', MT_ImageWEBP), (''heic'', MT_ImageHEIC), (''pdf'', MT_DocumentPDF),
      (''doc'', MT_DocumentDOC), (''docx'', MT_DocumentDOCX), (''xls'', MT_DocumentXLS),
      (''xlsx'', MT_DocumentXLSX), (''ppt'', MT_DocumentPPT), (''pptx'', MT_DocumentPPTX),
      (''txt'', MT_DocumentTXT), (''rtf'', MT_DocumentRTF), (''odt'', MT_DocumentODT),
      (''mp3'', MT_AudioMP3), (''wav'', MT_AudioWAV), (''aac'', MT_AudioAAC), (''flac'', MT_AudioFLAC),
      (''ogg'', MT_AudioOGG), (''m4a'', MT_AudioM4A), (''mp4'', MT_VideoMP4), (''avi'', MT_VideoAVI),
      (''mkv'', MT_VideoMKV), (''mov'', MT_VideoMOV), (''wmv'', MT_VideoWMV), (''flv'', MT_VideoFLV),
      (''webm'', MT_VideoWEBM), (''zip'', MT_CompressedZIP), (''rar'', MT_CompressedRAR),
      (''7z'', MT_Compressed7Z), (''tar'', MT_CompressedTAR), (''gz'', MT_CompressedGZ),
      (''html'', MT_CodeHTML), (''css'', MT_CodeCSS), (''js'', MT_CodeJS), (''ts'', MT_CodeTS),
      (''jsx'', MT_CodeJSX), (''tsx'', MT_CodeTSX), (''json'', MT_CodeJSON), (''xml'', MT_CodeXML),
      (''py'', MT_CodePY), (''java'', MT_CodeJAVA), (''c'', MT_CodeC), (''cpp'', MT_CodeCPP),
      (''cs'', MT_CodeCS), (''rb'', MT_CodeRB), (''php'', MT_CodePHP), (''sql'', MT_CodeSQL),
      (''epub'', MT_EbookEPUB), (''mobi'', MT_EbookMOBI), (''azw'', MT_EbookAZW),
      (''ttf'', MT_FontTTF), (''otf'', MT_FontOTF), (''ico'', MT_ImageICO),
      (''exe'', MT_ExecutableEXE), (''dmg'', MT_ExecutableDMG), (''apk'', MT_ExecutableAPK)]"

text \<open>
  The table is an object literal, so a missing key is looked up in \<^verbatim>\<open>Object.prototype\<close>. Of its members
  only these two have a name that a lower-cased extension can equal; the value is then not a number.
\<close>

definition prototype_members :: "string list" where
  "prototype_members = [''constructor'', ''__proto__'']"

datatype type_value = TypeNumber int | InheritedMember string

datatype message_data = TextData string | FileData string

fun split_dot :: "string \<Rightarrow> string list" where
  "split_dot [] = [[]]"
| "split_dot (c # cs) =
     (if c = CHR ''.'' then [] # split_dot cs
      else case split_dot cs of w # ws \<Rightarrow> (c # w) # ws | [] \<Rightarrow> [[c]])"

definition toLowerCase_char :: "char \<Rightarrow> char" where
  "toLowerCase_char c =
     (let n = of_char c :: nat
      in if 65 \<le> n \<and> n \<le> 90 \<or> 192 \<le> n \<and> n \<le> 222 \<and> n \<noteq> 215 then char_of (n + 32) else c)"

definition file_extension :: "string \<Rightarrow> string" where
  "file_extension name = map toLowerCase_char (last (split_dot name))"

definition getMessageType :: "message_data \<Rightarrow> type_value" where
  "getMessageType data =
     (case data of
        TextData _ \<Rightarrow> TypeNumber (MessageType MT_Text)
      | FileData name \<Rightarrow>
          (let extension = file_extension name
           in case map_of extensionToMessageType extension of
                Some t \<Rightarrow> TypeNumber (MessageType t)
              | None \<Rightarrow> if extension \<in> set prototype_members then InheritedMember extension
                        else TypeNumber (MessageType MT_Unknown)))"

section \<open>From a type to its presentation\<close>

definition getFileExtension :: "int \<Rightarrow> string" where
  "getFileExtension messageType =
     (if messageType = MessageType MT_ImagePNG then ''png'' else
      if messageType = MessageType MT_ImageJPEG then ''jpeg'' else
      if messageType = MessageType MT_ImageJPG then ''jpg'' else
      if messageType = MessageType MT_ImageGIF then ''gif'' else
      if messageType = MessageType MT_ImageBMP then ''bmp'' else
      if messageType = MessageType MT_ImageTIFF then ''tiff'' else
      if messageType = MessageType MT_ImageSVG then ''svg'' else
      if messageType = MessageType MT_ImageWEBP then ''webp'' else
      if messageType = MessageType MT_ImageHEIC then ''heic'' else
      if messageType = MessageType MT_DocumentPDF then ''pdf'' else
      if messageType = MessageType MT_DocumentDOC then ''doc'' else
      if messageType = MessageType MT_DocumentDOCX then ''docx'' else
      if messageType = MessageType MT_DocumentXLS then ''xls'' else
      if messageType = MessageType MT_DocumentXLSX then ''xlsx'' else
      if messageType = MessageType MT_DocumentPPT then ''ppt'' else
      if messageType = MessageType MT_DocumentPPTX then ''pptx'' else
      if messageType = MessageType MT_DocumentTXT then ''txt'' else
      if messageType = MessageType MT_DocumentRTF then ''rtf'' else
      if messageType = MessageType MT_DocumentODT then ''odt'' else
      if messageType = MessageType MT_AudioMP3 then ''mp3'' else
      if messageType = MessageType MT_AudioWAV then ''wav'' else
      if messageType = MessageType MT_AudioAAC then ''aac'' else
      if messageType = MessageType MT_AudioFLAC then ''flac'' else
      if messageType = MessageType MT_AudioOGG then ''ogg'' else
      if messageType = MessageType MT_AudioM4A then ''m4a'' else
      if messageType = MessageType MT_VideoMP4 then ''mp4'' else
      if messageType = MessageType MT_VideoAVI then ''avi'' else
      if messageType = MessageType MT_VideoMKV then ''mkv'' else
      if messageType = MessageType MT_VideoMOV then ''mov'' else
      if messageType = MessageType MT_VideoWMV then ''wmv'' else
      if messageType = MessageType MT_VideoFLV then ''flv'' else
      if messageType = MessageType MT_VideoWEBM then ''webm'' else
      if messageType = MessageType MT_CompressedZIP then ''zip'' else
      if messageType = MessageType MT_CompressedRAR then ''rar'' else
      if messageType = MessageType MT_Compressed7Z then ''7z'' else
      if messageType = MessageType MT_CompressedTAR then ''tar'' else
      if messageType = MessageType MT_CompressedGZ then ''gz'' else
      if messageType = MessageType MT_CodeHTML then ''html'' else
      if messageType = MessageType MT_CodeCSS then ''css'' else
      if messageType = MessageType MT_CodeJS then ''js'' else
      if messageType = MessageType MT_CodeTS then ''ts'' else
      if messageType = MessageType MT_CodeJSX then ''jsx'' else
      if messageType = MessageType MT_CodeTSX then ''tsx'' else
      if messageType = MessageType MT_CodeJSON then ''json'' else
      if messageType = MessageType MT_CodeXML then ''xml'' else
      if messageType = MessageType MT_CodePY then ''py'' else
      if messageType = MessageType MT_CodeJAVA then ''java'' else
      if messageType = MessageType MT_CodeC then ''c'' else
      if messageType = MessageType MT_CodeCPP then ''cpp'' else
      if messageType = MessageType MT_CodeCS then ''cs'' else
      if messageType = MessageType MT_CodeRB then ''rb'' else
      if messageType = MessageType MT_CodePHP then ''php'' else
      if messageType = MessageType MT_CodeSQL then ''sql'' else
      if messageType = MessageType MT_EbookEPUB then ''epub'' else
      if messageType = MessageType MT_EbookMOBI then ''mobi'' else
      if messageType = MessageType MT_EbookAZW then ''azw'' else
      if messageType = MessageType MT_FontTTF then ''ttf'' else
      if messageType = MessageType MT_FontOTF then ''otf'' else
      if messageType = MessageType MT_ImageICO then ''ico'' else
      if messageType = MessageType MT_ExecutableEXE then ''exe'' else
      if messageType = MessageType MT_ExecutableDMG then ''dmg'' else
      if messageType = MessageType MT_ExecutableAPK then ''apk'' else [])"

definition getMimeType :: "int \<Rightarrow> string" where
  "getMimeType messageType =
     (if messageType = MessageType MT_Text then ''text/plain'' else
      if messageType = MessageType MT_ImagePNG then ''image/png'' else
      if messageType = MessageType MT_ImageJPEG then ''image/jpeg'' else
      if messageType = MessageType MT_ImageJPG then ''image/jpeg'' else
      if messageType = MessageType MT_ImageGIF then ''image/gif'' else
      if messageType = MessageType MT_ImageBMP then ''image/bmp'' else
      if messageType = MessageType MT_ImageTIFF then ''image/tiff'' else
      if messageType = MessageType MT_ImageSVG then ''image/svg+xml'' else
      if messageType = MessageType MT_ImageWEBP then ''image/webp'' else
      if messageType = MessageType MT_ImageHEIC then ''image/heic'' else
      if messageType = MessageType MT_ImageICO then ''image/vnd.microsoft.icon'' else
      if messageType = MessageType MT_DocumentPDF then ''application/pdf'' else
      if messageType = MessageType MT_DocumentDOC then ''application/msword'' else
      if messageType = MessageType MT_DocumentDOCX then ''application/vnd.openxmlformats-officedocument.wordprocessingml.document'' else
      if messageType = MessageType MT_DocumentXLS then ''application/vnd.ms-excel'' else
      if messageType = MessageType MT_DocumentXLSX then ''application/vnd.openxmlformats-officedocument.spreadsheetml.sheet'' else
      if messageType = MessageType MT_DocumentPPT then ''application/vnd.ms-powerpoint'' else
      if messageType = MessageType MT_DocumentPPTX then ''application/vnd.openxmlformats-officedocument.presentationml.presentation'' else
      if messageType = MessageType MT_DocumentTXT then ''text/plain'' else
      if messageType = MessageType MT_DocumentRTF then ''application/rtf'' else
      if messageType = MessageType MT_DocumentODT then ''application/vnd.oasis.opendocument.text'' else
      if messageType = MessageType MT_AudioMP3 then ''audio/mpeg'' else
      if messageType = MessageType MT_AudioWAV then ''audio/wav'' else
      if messageType = MessageType MT_AudioAAC then ''audio/aac'' else
      if messageType = MessageType MT_AudioFLAC then ''audio/flac'' else
      if messageType = MessageType MT_AudioOGG then ''audio/ogg'' else
      if messageType = MessageType MT_AudioM4A then ''audio/mp4'' else
      if messageType = MessageType MT_VideoMP4 then ''video/mp4'' else
      if messageType = MessageType MT_VideoAVI then ''video/x-msvideo'' else
      if messageType = MessageType MT_VideoMKV then ''video/x-matroska'' else
      if messageType = MessageType MT_VideoMOV then ''video/quicktime'' else
      if messageType = MessageType MT_VideoWMV then ''video/x-ms-wmv'' else
      if messageType = MessageType MT_VideoFLV then ''video/x-flv'' else
      if messageType = MessageType MT_VideoWEBM then ''video/webm'' else
      if messageType = MessageType MT_CompressedZIP then ''application/zip'' else
      if messageType = MessageType MT_CompressedRAR then ''application/vnd.rar'' else
      if messageType = MessageType MT_Compressed7Z then ''application/x-7z-compressed'' else
      if messageType = MessageType MT_CompressedTAR then ''application/x-tar'' else
      if messageType = MessageType MT_CompressedGZ then ''application/gzip'' else
      if messageType = MessageType MT_CodeHTML then ''text/html'' else
      if messageType = MessageType MT_CodeCSS then ''text/css'' else
      if messageType = MessageType MT_CodeJS then ''application/javascript'' else
      if messageType = MessageType MT_CodeJSX then ''application/javascript'' else
      if messageType = MessageType MT_CodeTS then ''application/typescript'' else
      if messageType = MessageType MT_CodeTSX then ''application/typescript'' else
      if messageType = MessageType MT_CodeJSON then ''application/json'' else
      if messageType = MessageType MT_CodeXML then ''application/xml'' else
      if messageType = MessageType MT_CodePY then ''text/x-python'' else
      if messageType = MessageType MT_CodeJAVA then ''text/x-java-source'' else
      if messageType = MessageType MT_CodeC then ''text/x-c'' else
      if messageType = MessageType MT_CodeCPP then ''text/x-c++'' else
      if messageType = MessageType MT_CodeCS then ''text/plain'' else
      if messageType = MessageType MT_CodeRB then ''text/x-ruby'' else
      if messageType = MessageType MT_CodePHP then ''application/x-httpd-php'' else
      if messageType = MessageType MT_CodeSQL then ''application/sql'' else
      if messageType = MessageType MT_EbookEPUB then ''application/epub+zip'' else
      if messageType = MessageType MT_EbookMOBI then ''application/x-mobipocket-ebook'' else
      if messageType = MessageType MT_EbookAZW then ''application/vnd.amazon.ebook'' else
      if messageType = MessageType MT_FontTTF then ''font/ttf'' else
      if messageType = MessageType MT_FontOTF then ''font/otf'' else
      if messageType = MessageType MT_ExecutableEXE then ''application/vnd.microsoft.portable-executable'' else
      if messageType = MessageType MT_ExecutableDMG then ''application/x-apple-diskimage'' else
      if messageType = MessageType MT_ExecutableAPK then ''application/vnd.android.package-archive'' else ''application/octet-stream'')"

definition category :: "string \<Rightarrow> string" where
  "category name = the (map_of MessageCategory name)"

definition getMessageCategory :: "int \<Rightarrow> string" where
  "getMessageCategory messageType = category
     (if messageType \<in> set (map MessageType [MT_Text])
       then ''Text'' else
      if messageType \<in> set (map MessageType [MT_ImagePNG, MT_ImageJPEG, MT_ImageJPG, MT_ImageGIF, MT_ImageBMP, MT_ImageTIFF, MT_ImageSVG,
          MT_ImageWEBP, MT_ImageHEIC, MT_ImageICO])
       then ''Image'' else
      if messageType \<in> set (map MessageType [MT_DocumentPDF, MT_DocumentDOC, MT_DocumentDOCX, MT_DocumentXLS, MT_DocumentXLSX,
          MT_DocumentPPT, MT_DocumentPPTX, MT_DocumentTXT, MT_DocumentRTF, MT_DocumentODT])
       then ''Document'' else
      if messageType \<in> set (map MessageType [MT_AudioMP3, MT_AudioWAV, MT_AudioAAC, MT_AudioFLAC, MT_AudioOGG, MT_AudioM4A])
       then ''Audio'' else
      if messageType \<in> set (map MessageType [MT_VideoMP4, MT_VideoAVI, MT_VideoMKV, MT_VideoMOV, MT_VideoWMV, MT_VideoFLV, MT_VideoWEBM])
       then ''Video'' else
      if messageType \<in> set (map MessageType [MT_CompressedZIP, MT_CompressedRAR, MT_Compressed7Z, MT_CompressedTAR, MT_CompressedGZ])
       then ''Compressed'' else
      if messageType \<in> set (map MessageType [MT_CodeHTML, MT_CodeCSS, MT_CodeJS, MT_CodeJSX, MT_CodeTS, MT_CodeTSX, MT_CodeJSON,
          MT_CodeXML, MT_CodePY, MT_CodeJAVA, MT_CodeC, MT_CodeCPP, MT_CodeCS, MT_CodeRB, MT_CodePHP,
          MT_CodeSQL])
       then ''Code'' else
      if messageType \<in> set (map MessageType [MT_EbookEPUB, MT_EbookMOBI, MT_EbookAZW])
       then ''Ebook'' else
      if messageType \<in> set (map MessageType [MT_FontTTF, MT_FontOTF])
       then ''Font'' else
      if messageType \<in> set (map MessageType [MT_ExecutableEXE, MT_ExecutableDMG, MT_ExecutableAPK])
       then ''Executable'' else ''Unknown'')"

section \<open>Lemmas\<close>

lemma split_dot_nonempty [simp]: "split_dot s \<noteq> []"
  by (induction s) (auto split: list.splits)

lemma split_dot_no_dot: "CHR ''.'' \<notin> set s \<Longrightarrow> split_dot s = [s]"
  by (induction s) auto

lemma last_split_dot: "CHR ''.'' \<notin> set ext \<Longrightarrow> last (split_dot (base @ CHR ''.'' # ext)) = ext"
proof (induction base)
  case Nil
  then show ?case by (simp add: split_dot_no_dot)
next
  case (Cons c cs)
  have two: "\<exists>v w ws. split_dot (cs @ CHR ''.'' # ext) = v # w # ws" for cs
    by (induction cs) (auto split: list.splits intro: list.exhaust [of "split_dot ext"])
  obtain v w ws where "split_dot (cs @ CHR ''.'' # ext) = v # w # ws" using two by blast
  with Cons show ?case by simp
qed

lemma message_type_range: "1 \<le> MessageType k \<and> MessageType k \<le> 64"
  by (cases k) simp_all

section \<open>The tables\<close>

lemma extensions_distinct: "distinct (map fst extensionToMessageType)"
  by code_simp

lemma extension_entries:
  "list_all (\<lambda>(e, k). getFileExtension (MessageType k) = e \<and> CHR ''.'' \<notin> set e \<and> map toLowerCase_char e = e)
     extensionToMessageType"
  by (simp add: extensionToMessageType_def getFileExtension_def toLowerCase_char_def)

lemma all_types_listed:
  "list_all (\<lambda>t. t = MessageType MT_Text \<or> t = MessageType MT_Unknown \<or> t \<in> set (map (MessageType \<circ> snd) extensionToMessageType)) [1..64]"
  by code_simp

lemma message_type_onto: "1 \<le> t \<Longrightarrow> t \<le> 64 \<Longrightarrow> \<exists>k. t = MessageType k"
proof -
  assume "1 \<le> t" "t \<le> 64"
  then have "t \<in> set [1..64]" by simp
  with all_types_listed have "t = MessageType MT_Text \<or> t = MessageType MT_Unknown \<or> t \<in> set (map (MessageType \<circ> snd) extensionToMessageType)"
    unfolding list_all_iff by blast
  then show ?thesis by (auto simp del: MessageType.simps)
qed

lemma prototype_not_listed: "list_all (\<lambda>e. map_of extensionToMessageType e = None) prototype_members"
  by code_simp

lemma extension_found: "(e, k) \<in> set extensionToMessageType \<Longrightarrow> map_of extensionToMessageType e = Some k"
  by (simp add: extensions_distinct)

lemma extension_entryD:
  "(e, k) \<in> set extensionToMessageType \<Longrightarrow>
     getFileExtension (MessageType k) = e \<and> CHR ''.'' \<notin> set e \<and> map toLowerCase_char e = e"
  using extension_entries by (auto simp: list_all_iff)

lemma extension_kind: "getFileExtension (MessageType k) = [] \<or> (getFileExtension (MessageType k), k) \<in> set extensionToMessageType"
  by (cases k) (simp_all add: getFileExtension_def extensionToMessageType_def)

lemma no_extension_outside: "(\<And>k. t \<noteq> MessageType k) \<Longrightarrow>
    getFileExtension t = [] \<and> getMimeType t = ''application/octet-stream'' \<and> getMessageCategory t = category ''Unknown''"
  by (simp add: getFileExtension_def getMimeType_def getMessageCategory_def del: MessageType.simps)

text \<open>What the presentation of type \<open>t\<close> has to look like, given its category, MIME type and extension.\<close>

definition presentation_ok :: "int \<Rightarrow> string \<Rightarrow> string \<Rightarrow> string \<Rightarrow> bool" where
  "presentation_ok t c m e \<longleftrightarrow>
     (c = ''Unknown'' \<longleftrightarrow> t < 1 \<or> 63 < t) \<and> (m = ''application/octet-stream'' \<longleftrightarrow> t < 1 \<or> 63 < t) \<and>
     (e = [] \<longleftrightarrow> t < 2 \<or> 63 < t) \<and>
     (c = ''Image'' \<longleftrightarrow> take 6 m = ''image/'') \<and> (c = ''Audio'' \<longleftrightarrow> take 6 m = ''audio/'') \<and>
     (c = ''Video'' \<longleftrightarrow> take 6 m = ''video/'') \<and> (c = ''Font'' \<longleftrightarrow> take 5 m = ''font/'')"

lemmas presentation_tables = getMessageCategory_def getMimeType_def getFileExtension_def category_def MessageCategory_def

lemma presentation_of_kind:
  "presentation_ok (MessageType k) (getMessageCategory (MessageType k)) (getMimeType (MessageType k))
     (getFileExtension (MessageType k))"
  by (cases k) (simp_all add: presentation_ok_def presentation_tables)

section \<open>Properties\<close>

text \<open>The type a sender derives from a file name is a number between 1 and 64, the range the receiver's
  metadata check accepts, except for the extensions \<^verbatim>\<open>constructor\<close> and \<^verbatim>\<open>__proto__\<close>: there the lookup
  falls through to \<^verbatim>\<open>Object.prototype\<close> and yields no number at all.\<close>

theorem file_type_is_number_iff:
  "(\<exists>t. getMessageType (FileData name) = TypeNumber t \<and> 1 \<le> t \<and> t \<le> 64) \<longleftrightarrow>
     file_extension name \<notin> {''constructor'', ''__proto__''}"
proof -
  have "map_of extensionToMessageType e = None" if "e \<in> set prototype_members" for e
    using that prototype_not_listed by (simp add: list_all_iff)
  then show ?thesis
    using message_type_range
    by (auto simp: getMessageType_def Let_def prototype_members_def split: option.splits)
qed

text \<open>A file name built from any base name and the extension of a type is given that type again, so
  every type with an extension can be sent and comes back as itself.\<close>

theorem extension_gives_type:
  assumes "getFileExtension t \<noteq> []"
  shows "getMessageType (FileData (base @ ''.'' @ getFileExtension t)) = TypeNumber t"
proof -
  obtain k where k: "t = MessageType k" using no_extension_outside assms by blast
  then have e: "(getFileExtension t, k) \<in> set extensionToMessageType" using extension_kind [of k] assms by simp
  have "file_extension (base @ ''.'' @ getFileExtension t) = getFileExtension t"
    using extension_entryD [OF e] by (simp add: file_extension_def last_split_dot)
  then show ?thesis using extension_found [OF e] k by (simp add: getMessageType_def)
qed

theorem extension_gives_type_witness:
  "getMessageType (FileData ''holiday.photo.png'') = TypeNumber 2"
proof -
  have e: "getFileExtension 2 = ''png''" by (simp add: getFileExtension_def)
  from extension_gives_type [of 2 "''holiday.photo''"] show ?thesis by (simp add: e)
qed

text \<open>Category, MIME type and extension of a type agree: exactly the numbers 1 to 63 have a category and
  a MIME type, exactly 2 to 63 an extension, and the image, audio, video and font categories are
  exactly the types whose MIME type has that prefix.\<close>

theorem presentation_consistent:
  "presentation_ok t (getMessageCategory t) (getMimeType t) (getFileExtension t)"
proof (cases "\<exists>k. t = MessageType k")
  case True
  then show ?thesis using presentation_of_kind by blast
next
  case False
  then have "\<not> (1 \<le> t \<and> t \<le> 64)" using message_type_onto by blast
  then have "t < 1 \<or> 64 < t" by linarith
  with no_extension_outside [of t] False show ?thesis
    by (auto simp: presentation_ok_def category_def MessageCategory_def)
qed

end
