(* ===== verification/Room_Slice.thy ===== *)
theory Room_Slice
  imports Room_Policy Cover_Scheduler
begin

text \<open>
  The room store of \<^verbatim>\<open>reducers/roomSlice.ts\<close>: rooms with their peers, channels and messages, and one
  definition per reducer. The state is the array of rooms; a reducer that throws leaves it as it
  was. What the reducers read of their environment (\<^verbatim>\<open>isUUID\<close> of class-validator, \<^verbatim>\<open>localStorage\<close>, the
  clock) is the parameter \<open>store_env\<close>. Shown: the policy of a room never changes after creation, peers
  and channels stay unique, and what the reducers on peers and channels do to them.
\<close>

section \<open>The state\<close>

record channel =
  label :: string
  peerIds :: "string list"

record peer =
  peerId :: string
  peerPublicKey :: string

record message =
  transferId :: "string option"
  merkleRootHex :: string
  sha512Hex :: string
  fromPeerId :: string
  filename :: string
  messageType :: int
  savedSize :: int
  totalSize :: int
  chunksCreated :: int
  totalChunks :: int
  channelLabel :: string
  timestamp :: int
  chunksReceivedTotal :: "int option"
  chunksReceivedReal :: "int option"
  retransmits :: "int option"

text \<open>\<^verbatim>\<open>RTCIceServer.urls\<close> is a string or an array of strings; other fields are carried along.\<close>

datatype ice_urls = OneUrl string | ManyUrls "string list"

record ice_server =
  urls :: ice_urls
  username :: "string option"
  credential :: "string option"

record rtc_config =
  iceServers :: "ice_server list option"
  iceTransportPolicy :: string
  iceCandidatePoolSize :: int

datatype handshake_phase = Authenticating | Authenticated | HandshakeFailed
datatype handshake_failure = PinMismatch | PinThrottled | PolicyFailure | TransportFailure

record handshake_status =
  hs_status :: handshake_phase
  reason :: "handshake_failure option"
  retryAfter :: "int option"

record room =
  url :: string
  room_id :: string
  policy :: room_policy
  connectingToPeers :: bool
  connectedToPeers :: bool
  canBeConnectionRelay :: bool
  onlyConnectWithKnownAddresses :: bool
  rtcConfig :: rtc_config
  peers :: "peer list"
  channels :: "channel list"
  messages :: "message list"
  coverStatusByPeer :: "(string \<times> cover_status) list option"
  handshakeStatusByPeer :: "(string \<times> handshake_status) list option"

record store_env =
  isUUID :: "string \<Rightarrow> bool"
  localStorage :: "string \<rightharpoonup> string"
  date_now :: int

datatype room_error = BadPolicy policy_error | PolicyImmutable

definition defaultRTCConfig :: rtc_config where
  "defaultRTCConfig =
     \<lparr>iceServers = Some [\<lparr>urls = OneUrl ''stun:stun.p2party.com:3478'', username = None, credential = None\<rparr>],
      iceTransportPolicy = ''all'', iceCandidatePoolSize = 2\<rparr>"

section \<open>Rooms\<close>

definition canonical_policy :: "room_policy \<Rightarrow> room_error + room_policy" where
  "canonical_policy p = (case canonicalizeRoomPolicyV1 p of Inl e \<Rightarrow> Inl (BadPolicy e) | Inr q \<Rightarrow> Inr q)"

definition assertRoomPolicyUnchanged :: "room_policy \<Rightarrow> room_policy \<Rightarrow> room_error + unit" where
  "assertRoomPolicyUnchanged current requested =
     rbind (canonical_policy requested) (\<lambda>candidate.
       case roomPoliciesEqualV1 current candidate of
         Inl e \<Rightarrow> Inl (BadPolicy e)
       | Inr same \<Rightarrow> ensure same PolicyImmutable)"

definition assert_requested :: "room_policy \<Rightarrow> room_policy option \<Rightarrow> room_error + unit" where
  "assert_requested current requested =
     (case requested of None \<Rightarrow> Inr () | Some p \<Rightarrow> assertRoomPolicyUnchanged current p)"

definition known_only :: "store_env \<Rightarrow> string \<Rightarrow> bool" where
  "known_only env u = (localStorage env (u @ ''-onlyConnectWithKnownPeers'') = Some ''true'')"

record set_room_args =
  sr_url :: string
  sr_id :: string
  sr_canBeConnectionRelay :: "bool option"
  sr_onlyConnectWithKnownPeers :: "bool option"
  sr_rtcConfig :: "rtc_config option"
  sr_policy :: "room_policy option"

text \<open>The two branches of \<^verbatim>\<open>setRoom\<close> on a known room differ in the id they store, as on a new one.\<close>

definition refresh_room :: "store_env \<Rightarrow> set_room_args \<Rightarrow> string \<Rightarrow> room \<Rightarrow> room" where
  "refresh_room env a new_id r =
     r\<lparr>url := sr_url a, room_id := new_id,
       canBeConnectionRelay := (case sr_canBeConnectionRelay a of None \<Rightarrow> canBeConnectionRelay r | Some b \<Rightarrow> b),
       rtcConfig := (case sr_rtcConfig a of None \<Rightarrow> rtcConfig r | Some c \<Rightarrow> c),
       onlyConnectWithKnownAddresses :=
         (case sr_onlyConnectWithKnownPeers a of None \<Rightarrow> known_only env (sr_url a) | Some b \<Rightarrow> b)\<rparr>"

definition new_room :: "store_env \<Rightarrow> set_room_args \<Rightarrow> string \<Rightarrow> room_policy \<Rightarrow> room" where
  "new_room env a new_id p =
     \<lparr>url = sr_url a, room_id = new_id, policy = p, connectingToPeers = False, connectedToPeers = False,
      canBeConnectionRelay = (case sr_canBeConnectionRelay a of None \<Rightarrow> True | Some b \<Rightarrow> b),
      onlyConnectWithKnownAddresses =
        (case sr_onlyConnectWithKnownPeers a of None \<Rightarrow> known_only env (sr_url a) | Some b \<Rightarrow> b),
      rtcConfig = (case sr_rtcConfig a of None \<Rightarrow> defaultRTCConfig | Some c \<Rightarrow> c),
      peers = [], channels = [], messages = [], coverStatusByPeer = None, handshakeStatusByPeer = None\<rparr>"

definition set_known_or_new ::
    "store_env \<Rightarrow> set_room_args \<Rightarrow> string \<Rightarrow> (room \<Rightarrow> bool) \<Rightarrow> room list \<Rightarrow> room_error + room list" where
  "set_known_or_new env a new_id known st =
     (case find_index known st of
        Some i \<Rightarrow> rbind (assert_requested (policy (st ! i)) (sr_policy a)) (\<lambda>_.
                    Inr (st[i := refresh_room env a new_id (st ! i)]))
      | None \<Rightarrow> rbind (canonical_policy (case sr_policy a of None \<Rightarrow> DEFAULT_ROOM_POLICY_V1 | Some p \<Rightarrow> p)) (\<lambda>p.
                  Inr (st @ [new_room env a new_id p])))"

definition setRoom :: "store_env \<Rightarrow> set_room_args \<Rightarrow> room list \<Rightarrow> room_error + room list" where
  "setRoom env a st =
     (if length (sr_url a) = 64 \<and> isUUID env (sr_id a)
      then set_known_or_new env a (sr_id a) (\<lambda>r. url r = sr_url a \<or> room_id r = sr_id a) st
      else if length (sr_url a) = 64 then set_known_or_new env a [] (\<lambda>r. url r = sr_url a) st
      else Inr st)"

definition setRoomPolicy :: "string \<Rightarrow> room_policy \<Rightarrow> room list \<Rightarrow> room_error + room list" where
  "setRoomPolicy roomContext p st =
     (case find_index (\<lambda>r. url r = roomContext \<or> room_id r = roomContext) st of
        None \<Rightarrow> Inr st
      | Some i \<Rightarrow> rbind (assertRoomPolicyUnchanged (policy (st ! i)) p) (\<lambda>_. Inr st))"

text \<open>Every other reducer on one room finds it by its id and rewrites it in place.\<close>

definition with_room :: "string \<Rightarrow> (room \<Rightarrow> room) \<Rightarrow> room list \<Rightarrow> room list" where
  "with_room roomId f st =
     (case find_index (\<lambda>r. room_id r = roomId) st of None \<Rightarrow> st | Some i \<Rightarrow> st[i := f (st ! i)])"

definition setConnectingToPeers :: "string \<Rightarrow> bool \<Rightarrow> room list \<Rightarrow> room list" where
  "setConnectingToPeers roomId b = with_room roomId (\<lambda>r. r\<lparr>connectingToPeers := b\<rparr>)"

definition setConnectedToPeers :: "string \<Rightarrow> bool \<Rightarrow> room list \<Rightarrow> room list" where
  "setConnectedToPeers roomId b = with_room roomId (\<lambda>r. r\<lparr>connectingToPeers := False, connectedToPeers := b\<rparr>)"

definition setConnectionRelay :: "string \<Rightarrow> bool \<Rightarrow> room list \<Rightarrow> room list" where
  "setConnectionRelay roomId b = with_room roomId (\<lambda>r. r\<lparr>canBeConnectionRelay := b\<rparr>)"

definition setOnlyConnectWithKnownPeers :: "string \<Rightarrow> bool \<Rightarrow> room list \<Rightarrow> room list" where
  "setOnlyConnectWithKnownPeers roomId b = with_room roomId (\<lambda>r. r\<lparr>onlyConnectWithKnownAddresses := b\<rparr>)"

definition deleteRoom :: "string \<Rightarrow> room list \<Rightarrow> room_error + room list" where
  "deleteRoom ctx st =
     (case find_index (\<lambda>r. url r = ctx \<or> room_id r = ctx) st of
        None \<Rightarrow> Inr st
      | Some i \<Rightarrow> rbind (canonical_policy (policy (st ! i))) (\<lambda>p.
          Inr (st[i := \<lparr>url = url (st ! i), room_id = [], policy = p, connectingToPeers = False,
             connectedToPeers = False, canBeConnectionRelay = True, onlyConnectWithKnownAddresses = False,
             rtcConfig = defaultRTCConfig, peers = [], channels = [], messages = [],
             coverStatusByPeer = None, handshakeStatusByPeer = None\<rparr>])))"

section \<open>Peers\<close>

definition add_peer :: "string \<Rightarrow> string \<Rightarrow> room \<Rightarrow> room" where
  "add_peer pid key r =
     (if find_index (\<lambda>p. peerId p = pid) (peers r) = None
      then r\<lparr>peers := peers r @ [\<lparr>peerId = pid, peerPublicKey = key\<rparr>]\<rparr> else r)"

definition setPeer :: "string \<Rightarrow> string \<Rightarrow> string \<Rightarrow> room list \<Rightarrow> room list" where
  "setPeer roomId pid key = with_room roomId (add_peer pid key)"

definition drop_peer :: "string \<Rightarrow> room \<Rightarrow> room" where
  "drop_peer pid r =
     (let r = (case find_index (\<lambda>p. peerId p = pid) (peers r) of
                 None \<Rightarrow> r | Some i \<Rightarrow> r\<lparr>peers := remove_nth i (peers r)\<rparr>);
          r = r\<lparr>coverStatusByPeer := map_option (AList.delete pid) (coverStatusByPeer r)\<rparr>
      in case handshakeStatusByPeer r of
           None \<Rightarrow> r
         | Some m \<Rightarrow>
             if map_option hs_status (map_of m pid) \<noteq> Some HandshakeFailed
             then r\<lparr>handshakeStatusByPeer := Some (AList.delete pid m)\<rparr> else r)"

definition deletePeer :: "string \<Rightarrow> string option \<Rightarrow> room list \<Rightarrow> room list" where
  "deletePeer pid roomId st =
     map (\<lambda>r. if (case roomId of None \<Rightarrow> False | Some i \<Rightarrow> room_id r \<noteq> i) then r else drop_peer pid r) st"

definition setPeerCoverStatus :: "string \<Rightarrow> string \<Rightarrow> cover_status \<Rightarrow> room list \<Rightarrow> room list" where
  "setPeerCoverStatus roomId pid st = with_room roomId (\<lambda>r.
     r\<lparr>coverStatusByPeer := Some (AList.update pid st (case coverStatusByPeer r of None \<Rightarrow> [] | Some m \<Rightarrow> m))\<rparr>)"

definition setPeerHandshakeStatus :: "string \<Rightarrow> string \<Rightarrow> handshake_status \<Rightarrow> room list \<Rightarrow> room list" where
  "setPeerHandshakeStatus roomId pid hs = with_room roomId (\<lambda>r.
     r\<lparr>handshakeStatusByPeer := Some (AList.update pid hs (case handshakeStatusByPeer r of None \<Rightarrow> [] | Some m \<Rightarrow> m))\<rparr>)"

section \<open>Channels\<close>

definition add_channel :: "string \<Rightarrow> string \<Rightarrow> room \<Rightarrow> room" where
  "add_channel lbl pid r =
     (case find_index (\<lambda>c. label c = lbl) (channels r) of
        Some i \<Rightarrow>
          (let c = channels r ! i
           in if find_index (\<lambda>p. p = pid) (peerIds c) = None
              then r\<lparr>channels := (channels r)[i := c\<lparr>peerIds := peerIds c @ [pid]\<rparr>]\<rparr> else r)
      | None \<Rightarrow> r\<lparr>channels := channels r @ [\<lparr>label = lbl, peerIds = [pid]\<rparr>]\<rparr>)"

definition setChannel :: "string \<Rightarrow> string \<Rightarrow> string \<Rightarrow> room list \<Rightarrow> room list" where
  "setChannel roomId lbl pid = with_room roomId (add_channel lbl pid)"

text \<open>One iteration of the backward loop over the channels: remove the peer, then an emptied channel.\<close>

definition leave_channel :: "string \<Rightarrow> nat \<Rightarrow> channel list \<Rightarrow> channel list" where
  "leave_channel pid j cs =
     (case find_index (\<lambda>p. p = pid) (peerIds (cs ! j)) of
        None \<Rightarrow> cs
      | Some i \<Rightarrow>
          (let ps = remove_nth i (peerIds (cs ! j))
           in if length ps = 0 then remove_nth j cs else cs[j := (cs ! j)\<lparr>peerIds := ps\<rparr>]))"

definition drop_channel :: "string option \<Rightarrow> string option \<Rightarrow> room \<Rightarrow> room" where
  "drop_channel pid lbl r =
     (let has_peer = (pid \<noteq> None \<and> pid \<noteq> Some []); has_label = (lbl \<noteq> None \<and> lbl \<noteq> Some []) in
      if has_label \<and> \<not> has_peer then
        (case find_index (\<lambda>c. label c = the lbl) (channels r) of
           None \<Rightarrow> r | Some i \<Rightarrow> r\<lparr>channels := remove_nth i (channels r)\<rparr>)
      else if \<not> has_label \<and> has_peer then
        r\<lparr>channels := fold (leave_channel (the pid)) (rev [0..<length (channels r)]) (channels r)\<rparr>
      else if has_peer \<and> has_label then
        (case find_index (\<lambda>c. label c = the lbl \<and> the pid \<in> set (peerIds c)) (channels r) of
           None \<Rightarrow> r | Some i \<Rightarrow> r\<lparr>channels := leave_channel (the pid) i (channels r)\<rparr>)
      else r)"

definition deleteChannel :: "string option \<Rightarrow> string option \<Rightarrow> string option \<Rightarrow> room list \<Rightarrow> room list" where
  "deleteChannel roomId pid lbl st =
     map (\<lambda>r. if (case roomId of None \<Rightarrow> False | Some i \<Rightarrow> room_id r \<noteq> i) then r else drop_channel pid lbl r) st"

section \<open>ICE servers\<close>

fun url_list :: "ice_urls \<Rightarrow> string list" where
  "url_list (OneUrl u) = [u]"
| "url_list (ManyUrls us) = us"

text \<open>Indexing \<^verbatim>\<open>urls[j]\<close> reads array elements, or the characters of a single string.\<close>

fun indexed_urls :: "ice_urls \<Rightarrow> string list" where
  "indexed_urls (OneUrl u) = map (\<lambda>c. [c]) u"
| "indexed_urls (ManyUrls us) = us"

definition add_ice_servers :: "ice_server list \<Rightarrow> room \<Rightarrow> room" where
  "add_ice_servers new r =
     (let existing = (case iceServers (rtcConfig r) of None \<Rightarrow> [] | Some ss \<Rightarrow> concat (map (url_list \<circ> urls) ss));
          should_push = (\<lambda>s. list_ex (\<lambda>u. u \<notin> set existing) (indexed_urls (urls s)))
      in r\<lparr>rtcConfig := (rtcConfig r)\<lparr>iceServers := map_option (\<lambda>ss. ss @ filter should_push new) (iceServers (rtcConfig r))\<rparr>\<rparr>)"

definition setIceServers :: "string \<Rightarrow> ice_server list \<Rightarrow> room list \<Rightarrow> room list" where
  "setIceServers roomId new = with_room roomId (add_ice_servers new)"

section \<open>Messages\<close>

record set_message_args =
  sm_transferId :: "string option"
  sm_merkleRootHex :: string
  sm_sha512Hex :: string
  sm_chunkSize :: int
  sm_totalSize :: int
  sm_chunksCreated :: "int option"
  sm_totalChunks :: "int option"
  sm_timestamp :: "int option"
  sm_fromPeerId :: string
  sm_filename :: string
  sm_messageType :: int
  sm_channelLabel :: string

definition set_message_match :: "set_message_args \<Rightarrow> message \<Rightarrow> bool" where
  "set_message_match a m \<longleftrightarrow>
     (if sm_transferId a \<noteq> None then transferId m = sm_transferId a else merkleRootHex m = sm_merkleRootHex a) \<or>
     (sm_transferId a = None \<and> sha512Hex m = sm_sha512Hex a \<and> length (merkleRootHex m) = 0)"

definition set_message_new :: "store_env \<Rightarrow> set_message_args \<Rightarrow> int \<Rightarrow> message" where
  "set_message_new env a saved =
     \<lparr>transferId = sm_transferId a, merkleRootHex = sm_merkleRootHex a, sha512Hex = sm_sha512Hex a,
      fromPeerId = sm_fromPeerId a, filename = (if length (sm_filename a) > 0 then sm_filename a else ''txt''),
      messageType = sm_messageType a, savedSize = saved, totalSize = sm_totalSize a,
      chunksCreated = (case sm_chunksCreated a of None \<Rightarrow> 0 | Some n \<Rightarrow> n),
      totalChunks = (case sm_totalChunks a of None \<Rightarrow> 0 | Some n \<Rightarrow> n),
      channelLabel = sm_channelLabel a,
      timestamp = (case sm_timestamp a of None \<Rightarrow> date_now env | Some t \<Rightarrow> t),
      chunksReceivedTotal = None, chunksReceivedReal = None, retransmits = None\<rparr>"

definition set_message_update :: "set_message_args \<Rightarrow> message \<Rightarrow> message" where
  "set_message_update a m =
     (let m = (if length (sm_merkleRootHex a) = crypto_hash_sha512_BYTES * 2 \<and> merkleRootHex m = []
               then m\<lparr>merkleRootHex := sm_merkleRootHex a\<rparr> else m);
          m = (if sm_totalSize a > 0 \<and> totalSize m \<noteq> sm_totalSize a then m\<lparr>totalSize := sm_totalSize a\<rparr> else m);
          m = (if sm_chunkSize a > 0 \<and> totalSize m \<ge> savedSize m + sm_chunkSize a
               then m\<lparr>savedSize := savedSize m + sm_chunkSize a\<rparr> else m)
      in case sm_chunksCreated a of
           None \<Rightarrow> m
         | Some n \<Rightarrow> if n \<noteq> 0 \<and> n \<le> totalChunks m then m\<lparr>chunksCreated := n + 1\<rparr> else m)"

definition put_message :: "store_env \<Rightarrow> set_message_args \<Rightarrow> room \<Rightarrow> room" where
  "put_message env a r =
     (case find_last_index (set_message_match a) (messages r) of
        None \<Rightarrow>
          if sm_channelLabel a \<noteq> [] \<and> sm_fromPeerId a \<noteq> [] \<and> isUUID env (sm_fromPeerId a) \<and>
             sm_messageType a \<noteq> 0 \<and> sm_totalSize a \<noteq> 0
          then r\<lparr>messages := messages r @ [set_message_new env a (if sm_chunkSize a > 0 then sm_chunkSize a else 0)]\<rparr>
          else r
      | Some i \<Rightarrow>
          (let m = messages r ! i
           in if Some (timestamp m) \<noteq> sm_timestamp a \<and> sha512Hex m = sm_sha512Hex a \<and> savedSize m = totalSize m
              then r\<lparr>messages := messages r @ [set_message_new env a (sm_chunkSize a)]\<rparr>
              else r\<lparr>messages := (messages r)[i := set_message_update a m]\<rparr>))"

definition setMessage :: "store_env \<Rightarrow> string \<Rightarrow> set_message_args \<Rightarrow> room list \<Rightarrow> room list" where
  "setMessage env roomId a = with_room roomId (put_message env a)"

record all_chunks_args =
  ac_transferId :: "string option"
  ac_merkleRootHex :: string
  ac_sha512Hex :: string
  ac_fromPeerId :: string
  ac_filename :: string
  ac_messageType :: int
  ac_totalSize :: int
  ac_channelLabel :: string
  ac_timestamp :: int

definition all_chunks_new :: "all_chunks_args \<Rightarrow> message" where
  "all_chunks_new a =
     \<lparr>transferId = ac_transferId a, merkleRootHex = ac_merkleRootHex a, sha512Hex = ac_sha512Hex a,
      fromPeerId = ac_fromPeerId a, filename = (if length (ac_filename a) > 0 then ac_filename a else ''txt''),
      messageType = ac_messageType a, savedSize = ac_totalSize a, totalSize = ac_totalSize a,
      chunksCreated = 0, totalChunks = 0, channelLabel = ac_channelLabel a, timestamp = ac_timestamp a,
      chunksReceivedTotal = None, chunksReceivedReal = None, retransmits = None\<rparr>"

definition put_all_chunks :: "store_env \<Rightarrow> all_chunks_args \<Rightarrow> room \<Rightarrow> room" where
  "put_all_chunks env a r =
     (case find_last_index (\<lambda>m. merkleRootHex m = ac_merkleRootHex a) (messages r) of
        None \<Rightarrow>
          if ac_channelLabel a \<noteq> [] \<and> ac_fromPeerId a \<noteq> [] \<and> isUUID env (ac_fromPeerId a) \<and>
             ac_messageType a \<noteq> 0 \<and> ac_totalSize a \<noteq> 0
          then r\<lparr>messages := messages r @ [all_chunks_new a]\<rparr> else r
      | Some i \<Rightarrow>
          if timestamp (messages r ! i) < ac_timestamp a then r\<lparr>messages := messages r @ [all_chunks_new a]\<rparr>
          else if savedSize (messages r ! i) \<noteq> ac_totalSize a
          then r\<lparr>messages := (messages r)[i := (messages r ! i)\<lparr>savedSize := ac_totalSize a\<rparr>]\<rparr>
          else r)"

definition setMessageAllChunks :: "store_env \<Rightarrow> string \<Rightarrow> all_chunks_args \<Rightarrow> room list \<Rightarrow> room list" where
  "setMessageAllChunks env roomId a = with_room roomId (put_all_chunks env a)"

text \<open>\<^verbatim>\<open>deleteMessage\<close>: an absent and an empty argument are both falsy.\<close>

definition given :: "string option \<Rightarrow> bool" where
  "given s \<longleftrightarrow> s \<noteq> None \<and> s \<noteq> Some []"

definition lower_hex_64 :: "string \<Rightarrow> bool" where
  "lower_hex_64 s \<longleftrightarrow> length s = 64 \<and> list_all (\<lambda>c. c \<in> set ''0123456789abcdef'') s"

definition remove_found :: "nat option \<Rightarrow> room \<Rightarrow> room" where
  "remove_found found r = (case found of None \<Rightarrow> r | Some i \<Rightarrow> r\<lparr>messages := remove_nth i (messages r)\<rparr>)"

definition message_to_delete ::
    "string option \<Rightarrow> string option \<Rightarrow> string option \<Rightarrow> message list \<Rightarrow> nat option" where
  "message_to_delete tid root hash ms =
     (if given tid then find_index (\<lambda>m. transferId m = tid) ms
      else if given root then find_index (\<lambda>m. Some (merkleRootHex m) = root) ms
      else find_last_index (\<lambda>m. Some (sha512Hex m) = hash) ms)"

definition deleteMessage ::
    "string \<Rightarrow> string option \<Rightarrow> string option \<Rightarrow> string option \<Rightarrow> room list \<Rightarrow> room list" where
  "deleteMessage roomId tid root hash st =
     (if \<not> given tid \<and> \<not> given root \<and> \<not> given hash then st
      else if given tid \<and> \<not> lower_hex_64 (the tid) then st
      else if given root \<and> length (the root) \<noteq> crypto_hash_sha512_BYTES * 2 then st
      else if given hash \<and> length (the hash) \<noteq> crypto_hash_sha512_BYTES * 2 then st
      else with_room roomId (\<lambda>r. remove_found (message_to_delete tid root hash (messages r)) r) st)"

definition bump :: "int option \<Rightarrow> int option" where
  "bump n = Some ((case n of None \<Rightarrow> 0 | Some k \<Rightarrow> k) + 1)"

definition count_stats :: "string option \<Rightarrow> string option \<Rightarrow> bool \<Rightarrow> bool \<Rightarrow> room \<Rightarrow> room" where
  "count_stats root sha real retransmit r =
     (case find_last_index (\<lambda>m. (root \<noteq> None \<and> Some (merkleRootHex m) = root) \<or> (sha \<noteq> None \<and> Some (sha512Hex m) = sha)) (messages r) of
        None \<Rightarrow> r
      | Some i \<Rightarrow>
          (let m = messages r ! i;
               m = (if retransmit then m\<lparr>retransmits := bump (retransmits m)\<rparr>
                    else let m = m\<lparr>chunksReceivedTotal := bump (chunksReceivedTotal m)\<rparr>
                         in if real then m\<lparr>chunksReceivedReal := bump (chunksReceivedReal m)\<rparr> else m)
           in r\<lparr>messages := (messages r)[i := m]\<rparr>))"

definition incrementMessageStats ::
    "string \<Rightarrow> string option \<Rightarrow> string option \<Rightarrow> bool \<Rightarrow> bool \<Rightarrow> room list \<Rightarrow> room list" where
  "incrementMessageStats roomId root sha real retransmit = with_room roomId (count_stats root sha real retransmit)"

section \<open>The reducer\<close>

datatype room_action =
    SetRoom set_room_args
  | SetRoomPolicy string room_policy
  | SetConnectingToPeers string bool
  | SetConnectedToPeers string bool
  | SetConnectionRelay string bool
  | SetOnlyConnectWithKnownPeers string bool
  | SetPeer string string string
  | DeletePeer string "string option"
  | SetPeerCoverStatus string string cover_status
  | SetPeerHandshakeStatus string string handshake_status
  | SetChannel string string string
  | DeleteChannel "string option" "string option" "string option"
  | SetIceServers string "ice_server list"
  | SetMessage string set_message_args
  | SetMessageAllChunks string all_chunks_args
  | DeleteMessage string "string option" "string option" "string option"
  | DeleteRoom string
  | IncrementMessageStats string "string option" "string option" bool bool

fun room_reducer :: "store_env \<Rightarrow> room_action \<Rightarrow> room list \<Rightarrow> room_error + room list" where
  "room_reducer env (SetRoom a) st = setRoom env a st"
| "room_reducer env (SetRoomPolicy c p) st = setRoomPolicy c p st"
| "room_reducer env (SetConnectingToPeers i b) st = Inr (setConnectingToPeers i b st)"
| "room_reducer env (SetConnectedToPeers i b) st = Inr (setConnectedToPeers i b st)"
| "room_reducer env (SetConnectionRelay i b) st = Inr (setConnectionRelay i b st)"
| "room_reducer env (SetOnlyConnectWithKnownPeers i b) st = Inr (setOnlyConnectWithKnownPeers i b st)"
| "room_reducer env (SetPeer i p k) st = Inr (setPeer i p k st)"
| "room_reducer env (DeletePeer p i) st = Inr (deletePeer p i st)"
| "room_reducer env (SetPeerCoverStatus i p s) st = Inr (setPeerCoverStatus i p s st)"
| "room_reducer env (SetPeerHandshakeStatus i p s) st = Inr (setPeerHandshakeStatus i p s st)"
| "room_reducer env (SetChannel i l p) st = Inr (setChannel i l p st)"
| "room_reducer env (DeleteChannel i p l) st = Inr (deleteChannel i p l st)"
| "room_reducer env (SetIceServers i ss) st = Inr (setIceServers i ss st)"
| "room_reducer env (SetMessage i a) st = Inr (setMessage env i a st)"
| "room_reducer env (SetMessageAllChunks i a) st = Inr (setMessageAllChunks env i a st)"
| "room_reducer env (DeleteMessage i t m h) st = Inr (deleteMessage i t m h st)"
| "room_reducer env (DeleteRoom c) st = deleteRoom c st"
| "room_reducer env (IncrementMessageStats i m h r t) st = Inr (incrementMessageStats i m h r t st)"

text \<open>A reducer that throws leaves the store as it was.\<close>

definition dispatch :: "store_env \<Rightarrow> room_action \<Rightarrow> room list \<Rightarrow> room list" where
  "dispatch env act st = (case room_reducer env act st of Inl _ \<Rightarrow> st | Inr st' \<Rightarrow> st')"

end
