(* ===== verification/Room_Store.thy ===== *)
theory Room_Store
  imports Room_Slice
begin

text \<open>
  What the room store guarantees over any sequence of dispatched actions. The contract
  \<open>room_update\<close> is what a reducer on one room owes to the store (its policy is kept, its lists stay
  unique); it is proved once to lift to the array of rooms and interpreted for every such reducer.
\<close>

section \<open>The invariant of a room\<close>

definition channel_ok :: "channel \<Rightarrow> bool" where
  "channel_ok c \<longleftrightarrow> peerIds c \<noteq> [] \<and> distinct (peerIds c)"

definition keys_ok :: "(string \<times> 'v) list option \<Rightarrow> bool" where
  "keys_ok m \<longleftrightarrow> (case m of None \<Rightarrow> True | Some xs \<Rightarrow> distinct (map fst xs))"

definition room_ok :: "room \<Rightarrow> bool" where
  "room_ok r \<longleftrightarrow>
     valid_policy (policy r) \<and> distinct (map peerId (peers r)) \<and>
     distinct (map label (channels r)) \<and> list_all channel_ok (channels r) \<and>
     keys_ok (coverStatusByPeer r) \<and> keys_ok (handshakeStatusByPeer r)"

lemma list_all_update: "list_all P xs \<Longrightarrow> P y \<Longrightarrow> list_all P (xs[i := y])"
  using set_update_subset_insert [of xs i y] by (auto simp: list_all_iff)

locale room_update =
  fixes g :: "room \<Rightarrow> room"
  assumes keeps_policy: "policy (g r) = policy r"
    and keeps_ok: "room_ok r \<Longrightarrow> room_ok (g r)"
begin

lemma policies_with: "map policy (with_room i g st) = map policy st"
proof (cases "find_index (\<lambda>r. room_id r = i) st")
  case (Some j)
  then have "j < length st" by (auto dest: find_index_SomeD)
  then have "map policy (st[j := g (st ! j)]) = (map policy st)[j := map policy st ! j]"
    by (simp add: map_update keeps_policy)
  with Some show ?thesis by (simp add: with_room_def del: list_update_id) simp
qed (simp add: with_room_def)

lemma ok_with: "list_all room_ok st \<Longrightarrow> list_all room_ok (with_room i g st)"
proof (cases "find_index (\<lambda>r. room_id r = i) st")
  case (Some j)
  assume ok: "list_all room_ok st"
  have "j < length st" using Some by (auto dest: find_index_SomeD)
  then have "room_ok (g (st ! j))" using ok keeps_ok by (simp add: list_all_length)
  with Some ok show ?thesis by (simp add: with_room_def list_all_update)
qed (simp add: with_room_def)

lemma policies_map: "map (policy \<circ> (\<lambda>r. if sel r then r else g r)) st = map policy st"
  by (simp add: keeps_policy)

lemma ok_map: "list_all room_ok st \<Longrightarrow> list_all room_ok (map (\<lambda>r. if sel r then r else g r) st)"
  using keeps_ok by (auto simp: list_all_iff)

end

lemma room_update_fields:
  "(\<And>r. policy (g r) = policy r \<and> peers (g r) = peers r \<and> channels (g r) = channels r \<and>
      coverStatusByPeer (g r) = coverStatusByPeer r \<and> handshakeStatusByPeer (g r) = handshakeStatusByPeer r) \<Longrightarrow> room_update g"
  by unfold_locales (simp_all add: room_ok_def)

section \<open>Peers\<close>

lemma distinct_map_remove_nth: "distinct (map f xs) \<Longrightarrow> distinct (map f (remove_nth i xs))"
  using distinct_remove_nth [of "map f xs" i] by (simp add: remove_nth_def take_map drop_map)

lemma add_peer_ok: "room_ok r \<Longrightarrow> room_ok (add_peer p k r)"
  by (auto simp: room_ok_def add_peer_def find_index_None_iff)

lemma keys_ok_delete: "keys_ok m \<Longrightarrow> keys_ok (map_option (AList.delete p) m)"
  by (auto simp: keys_ok_def AList.distinct_delete split: option.splits)

lemma keys_ok_update: "keys_ok m \<Longrightarrow> keys_ok (Some (AList.update p v (case m of None \<Rightarrow> [] | Some xs \<Rightarrow> xs)))"
  by (auto simp: keys_ok_def AList.distinct_update split: option.splits)

lemma drop_peer_fields:
  "policy (drop_peer p r) = policy r" "channels (drop_peer p r) = channels r" "messages (drop_peer p r) = messages r"
  "url (drop_peer p r) = url r" "room_id (drop_peer p r) = room_id r"
  "peers (drop_peer p r) = (case find_index (\<lambda>x. peerId x = p) (peers r) of None \<Rightarrow> peers r | Some i \<Rightarrow> remove_nth i (peers r))"
  "coverStatusByPeer (drop_peer p r) = map_option (AList.delete p) (coverStatusByPeer r)"
  "handshakeStatusByPeer (drop_peer p r) =
     (case handshakeStatusByPeer r of None \<Rightarrow> None
      | Some m \<Rightarrow> Some (if map_option hs_status (map_of m p) \<noteq> Some HandshakeFailed then AList.delete p m else m))"
  by (auto simp: drop_peer_def Let_def split: option.splits)

lemma drop_peer_ok: "room_ok r \<Longrightarrow> room_ok (drop_peer p r)"
  unfolding room_ok_def drop_peer_fields
  by (auto simp: distinct_map_remove_nth keys_ok_delete split: option.splits)
     (auto simp: keys_ok_def AList.distinct_delete)

lemma remove_first_filter:
  "distinct (map f xs) \<Longrightarrow>
     (case find_index (\<lambda>x. f x = k) xs of None \<Rightarrow> xs | Some i \<Rightarrow> remove_nth i xs) = filter (\<lambda>x. f x \<noteq> k) xs"
proof (induction xs)
  case (Cons x xs)
  show ?case
  proof (cases "f x = k")
    case True
    then have "filter (\<lambda>y. f y \<noteq> k) xs = xs" using Cons.prems by (intro filter_True) (metis distinct.simps(2) image_eqI list.map(2) list.set_map)
    with True show ?thesis by (simp add: remove_nth_def)
  next
    case False
    with Cons show ?thesis by (cases "find_index (\<lambda>x. f x = k) xs") (auto simp: remove_nth_def)
  qed
qed simp

section \<open>Channels\<close>

lemma find_index_eq_None: "find_index (\<lambda>q. q = p) xs = None \<longleftrightarrow> p \<notin> set xs"
  by (auto simp: find_index_None_iff)

lemma add_channel_ok: "room_ok r \<Longrightarrow> room_ok (add_channel l p r)"
proof (cases "find_index (\<lambda>c. label c = l) (channels r)")
  case None
  assume "room_ok r"
  moreover have "add_channel l p r = r\<lparr>channels := channels r @ [\<lparr>label = l, peerIds = [p]\<rparr>]\<rparr>"
    using None by (simp add: add_channel_def)
  moreover have "l \<notin> set (map label (channels r))" using None by (auto simp: find_index_None_iff)
  ultimately show ?thesis by (simp add: room_ok_def channel_ok_def)
next
  case (Some i)
  assume ok: "room_ok r"
  let ?c = "channels r ! i"
  have i: "i < length (channels r)" using Some by (auto dest: find_index_SomeD)
  have c: "channel_ok ?c" using ok i by (simp add: room_ok_def list_all_length)
  have lbl: "map label ((channels r)[i := ?c\<lparr>peerIds := ps\<rparr>]) = map label (channels r)" for ps
    using i by (simp add: map_update) (metis length_map list_update_id nth_map)
  have "channel_ok (?c\<lparr>peerIds := peerIds ?c @ [p]\<rparr>)" if "p \<notin> set (peerIds ?c)"
    using c that by (simp add: channel_ok_def)
  with Some ok show ?thesis
    by (simp add: room_ok_def add_channel_def Let_def find_index_eq_None lbl list_all_update)
qed

text \<open>What leaving does to one channel: the peer is dropped, and the channel when it was the last.\<close>

definition left :: "string \<Rightarrow> channel \<Rightarrow> channel option" where
  "left p c = (let ps = filter (\<lambda>q. q \<noteq> p) (peerIds c) in if ps = [] then None else Some (c\<lparr>peerIds := ps\<rparr>))"

lemma leave_channel_left:
  assumes "j < length cs" "channel_ok (cs ! j)"
  shows "leave_channel p j cs = (case left p (cs ! j) of None \<Rightarrow> remove_nth j cs | Some c \<Rightarrow> cs[j := c])"
proof -
  have d: "distinct (peerIds (cs ! j))" "peerIds (cs ! j) \<noteq> []" using assms(2) by (simp_all add: channel_ok_def)
  have f: "(case find_index (\<lambda>q. q = p) (peerIds (cs ! j)) of None \<Rightarrow> peerIds (cs ! j) | Some i \<Rightarrow> remove_nth i (peerIds (cs ! j)))
      = filter (\<lambda>q. q \<noteq> p) (peerIds (cs ! j))"
    using remove_first_filter [of "\<lambda>q. q" "peerIds (cs ! j)" p] d by simp
  show ?thesis
  proof (cases "find_index (\<lambda>q. q = p) (peerIds (cs ! j))")
    case None
    then show ?thesis using f d assms(1) by (simp add: leave_channel_def left_def Let_def)
  next
    case (Some i)
    then show ?thesis using f by (auto simp: leave_channel_def left_def Let_def)
  qed
qed

lemma leave_all_suffix:
  "list_all channel_ok cs \<Longrightarrow> fold (leave_channel p) (rev [0..<length cs]) (cs @ ds) = List.map_filter (left p) cs @ ds"
proof (induction cs arbitrary: ds rule: rev_induct)
  case (snoc c cs)
  have "leave_channel p (length cs) ((cs @ [c]) @ ds) = cs @ (case left p c of None \<Rightarrow> ds | Some c' \<Rightarrow> c' # ds)"
    using leave_channel_left [of "length cs" "(cs @ [c]) @ ds" p] snoc.prems
    by (simp add: remove_nth_def split: option.splits)
  with snoc show ?case by (simp add: map_filter_def split: option.splits)
qed (simp add: map_filter_def)

lemma leave_all: "list_all channel_ok cs \<Longrightarrow> fold (leave_channel p) (rev [0..<length cs]) cs = List.map_filter (left p) cs"
  using leave_all_suffix [of cs p "[]"] by simp

lemma left_Some: "left p c = Some d \<Longrightarrow> channel_ok c \<Longrightarrow> channel_ok d \<and> label d = label c"
  by (auto simp: left_def channel_ok_def Let_def split: if_splits)

lemma map_filter_left_ok:
  "list_all channel_ok cs \<Longrightarrow> distinct (map label cs) \<Longrightarrow>
     list_all channel_ok (List.map_filter (left p) cs) \<and> distinct (map label (List.map_filter (left p) cs)) \<and>
     set (map label (List.map_filter (left p) cs)) \<subseteq> set (map label cs)"
proof (induction cs)
  case (Cons c cs)
  then have ih: "list_all channel_ok (List.map_filter (left p) cs)" "distinct (map label (List.map_filter (left p) cs))"
    "set (map label (List.map_filter (left p) cs)) \<subseteq> set (map label cs)" by simp_all
  show ?case
  proof (cases "left p c")
    case (Some a)
    then have "channel_ok a" "label a = label c" using left_Some Cons.prems(1) by auto
    moreover have "label c \<notin> set (map label (List.map_filter (left p) cs))" using ih(3) Cons.prems(2) by auto
    ultimately show ?thesis using Some ih by (auto simp: List.map_filter_simps)
  next
    case None
    then show ?thesis using ih by (auto simp: List.map_filter_simps)
  qed
qed (simp add: List.map_filter_simps)

lemma leave_channel_ok:
  assumes "list_all channel_ok cs" "distinct (map label cs)" "j < length cs"
  shows "list_all channel_ok (leave_channel p j cs) \<and> distinct (map label (leave_channel p j cs))"
proof -
  have c: "channel_ok (cs ! j)" using assms by (simp add: list_all_length)
  have split: "cs = take j cs @ cs ! j # drop (Suc j) cs" using assms(3) by (rule id_take_nth_drop)
  have ok: "list_all channel_ok (take j cs) \<and> list_all channel_ok (drop (Suc j) cs)"
    using assms(1) by (metis append_take_drop_id list_all_append)
  have d: "distinct (map label (take j cs @ cs ! j # drop (Suc j) cs))" using assms(2) split by simp
  show ?thesis
  proof (cases "left p (cs ! j)")
    case None
    then show ?thesis using leave_channel_left [OF assms(3) c] ok d
      by (simp add: remove_nth_def)
  next
    case (Some x)
    then have "channel_ok x" "label x = label (cs ! j)" using left_Some c by blast+
    then show ?thesis using Some leave_channel_left [OF assms(3) c] ok d assms(3)
      by (simp add: upd_conv_take_nth_drop)
  qed
qed

lemma drop_channel_policy: "policy (drop_channel p l r) = policy r"
  by (simp add: drop_channel_def Let_def split: option.splits)

lemma list_all_remove_nth: "list_all P xs \<Longrightarrow> list_all P (remove_nth i xs)"
  using set_remove_nth_subset [of i xs] by (auto simp: list_all_iff)

lemma channels_ok_update:
  "room_ok r \<Longrightarrow> list_all channel_ok cs \<Longrightarrow> distinct (map label cs) \<Longrightarrow> room_ok (r\<lparr>channels := cs\<rparr>)"
  by (simp add: room_ok_def)

lemma drop_channel_ok: "room_ok r \<Longrightarrow> room_ok (drop_channel p l r)"
proof -
  assume ok: "room_ok r"
  then have cs: "list_all channel_ok (channels r)" "distinct (map label (channels r))" by (simp_all add: room_ok_def)
  have one: "room_ok (r\<lparr>channels := remove_nth i (channels r)\<rparr>)" for i
    using ok cs by (intro channels_ok_update list_all_remove_nth distinct_map_remove_nth)
  have all: "room_ok (r\<lparr>channels := fold (leave_channel q) (rev [0..<length (channels r)]) (channels r)\<rparr>)" for q
    unfolding leave_all [OF cs(1)] using ok map_filter_left_ok [OF cs] by (blast intro: channels_ok_update)
  have some: "room_ok (r\<lparr>channels := leave_channel q i (channels r)\<rparr>)" if "find_index Q (channels r) = Some i" for q i Q
    using ok leave_channel_ok [OF cs, of i q] find_index_SomeD [OF that] by (blast intro: channels_ok_update)
  show ?thesis
    using ok one all some by (auto simp: drop_channel_def Let_def split: option.splits)
qed

section \<open>Every reducer keeps the contract\<close>

interpretation connecting: room_update "\<lambda>r. r\<lparr>connectingToPeers := b\<rparr>" for b
  by (rule room_update_fields) simp

interpretation connected: room_update "\<lambda>r. r\<lparr>connectingToPeers := False, connectedToPeers := b\<rparr>" for b
  by (rule room_update_fields) simp

interpretation relay: room_update "\<lambda>r. r\<lparr>canBeConnectionRelay := b\<rparr>" for b
  by (rule room_update_fields) simp

interpretation known: room_update "\<lambda>r. r\<lparr>onlyConnectWithKnownAddresses := b\<rparr>" for b
  by (rule room_update_fields) simp

interpretation adding: room_update "add_peer p k" for p k
  by unfold_locales (simp_all add: add_peer_ok, simp add: add_peer_def)

interpretation dropping: room_update "drop_peer p" for p
  by unfold_locales (simp_all add: drop_peer_ok drop_peer_fields)

interpretation cover_status: room_update
  "\<lambda>r. r\<lparr>coverStatusByPeer := Some (AList.update p s (case coverStatusByPeer r of None \<Rightarrow> [] | Some m \<Rightarrow> m))\<rparr>" for p s
  by unfold_locales (simp_all add: room_ok_def keys_ok_update)

interpretation handshake: room_update
  "\<lambda>r. r\<lparr>handshakeStatusByPeer := Some (AList.update p s (case handshakeStatusByPeer r of None \<Rightarrow> [] | Some m \<Rightarrow> m))\<rparr>" for p s
  by unfold_locales (simp_all add: room_ok_def keys_ok_update)

interpretation joining: room_update "add_channel l p" for l p
  by unfold_locales (simp_all add: add_channel_ok, simp add: add_channel_def Let_def split: option.splits)

interpretation leaving: room_update "drop_channel p l" for p l
  by unfold_locales (simp_all add: drop_channel_ok drop_channel_policy)

interpretation ice: room_update "add_ice_servers ss" for ss
  by (rule room_update_fields) (simp add: add_ice_servers_def Let_def)

interpretation message: room_update "put_message env a" for env a
  by (rule room_update_fields) (simp add: put_message_def Let_def split: option.splits)

interpretation all_chunks: room_update "put_all_chunks env a" for env a
  by (rule room_update_fields) (simp add: put_all_chunks_def split: option.splits)


interpretation stats: room_update "count_stats root sha real retransmit" for root sha real retransmit
  by (rule room_update_fields) (simp add: count_stats_def Let_def split: option.splits)

interpretation erased: room_update "\<lambda>r. remove_found (find (messages r)) r" for find
  by (rule room_update_fields) (simp add: remove_found_def split: option.splits)

lemmas reducer_policies = connecting.policies_with connected.policies_with relay.policies_with known.policies_with
  adding.policies_with cover_status.policies_with handshake.policies_with joining.policies_with ice.policies_with
  message.policies_with all_chunks.policies_with stats.policies_with erased.policies_with
  dropping.policies_map leaving.policies_map

lemmas reducer_ok = connecting.ok_with connected.ok_with relay.ok_with known.ok_with
  adding.ok_with cover_status.ok_with handshake.ok_with joining.ok_with ice.ok_with
  message.ok_with all_chunks.ok_with stats.ok_with erased.ok_with dropping.ok_map leaving.ok_map

lemmas reducer_defs = setConnectingToPeers_def setConnectedToPeers_def setConnectionRelay_def
  setOnlyConnectWithKnownPeers_def setPeer_def setPeerCoverStatus_def setPeerHandshakeStatus_def setChannel_def
  setIceServers_def setMessage_def setMessageAllChunks_def incrementMessageStats_def deletePeer_def deleteChannel_def

section \<open>Rooms\<close>

lemma canonical_policy_ok: "canonical_policy p = Inr q \<Longrightarrow> q = p \<and> valid_policy p"
  by (cases "validateRoomPolicyV1 p") (auto simp: canonical_policy_def canonicalize_eq valid_policy_def)

lemma set_known_or_new_contract:
  assumes "set_known_or_new env a i known st = Inr st'" "list_all room_ok st"
  shows "list_all room_ok st' \<and> (\<exists>ps. map policy st' = map policy st @ ps)"
proof (cases "find_index known st")
  case (Some j)
  then have j: "j < length st" by (auto dest: find_index_SomeD)
  have st': "st' = st[j := refresh_room env a i (st ! j)]"
    using assms(1) Some by (simp add: set_known_or_new_def result_simps)
  have "room_ok (refresh_room env a i (st ! j))"
    using assms(2) j by (simp add: list_all_length room_ok_def refresh_room_def)
  moreover have "map policy st' = map policy st"
    using j by (simp add: st' map_update refresh_room_def) (metis length_map list_update_id nth_map)
  ultimately show ?thesis using assms(2) by (simp add: st' list_all_update)
next
  case None
  then obtain p q where "canonical_policy q = Inr p" "st' = st @ [new_room env a i p]"
    using assms(1) by (auto simp: set_known_or_new_def result_simps)
  then show ?thesis
    using assms(2) canonical_policy_ok [of q p] by (simp add: room_ok_def new_room_def keys_ok_def)
qed

lemma deleteRoom_contract:
  assumes "deleteRoom c st = Inr st'" "list_all room_ok st"
  shows "list_all room_ok st' \<and> map policy st' = map policy st"
proof (cases "find_index (\<lambda>r. url r = c \<or> room_id r = c) st")
  case (Some j)
  then have j: "j < length st" by (auto dest: find_index_SomeD)
  obtain p where p: "canonical_policy (policy (st ! j)) = Inr p"
    using assms(1) Some by (auto simp: deleteRoom_def result_simps)
  note q = canonical_policy_ok [OF p]
  have "map policy st' = map policy st"
    using assms(1) Some p q j by (auto simp: deleteRoom_def map_update) (metis length_map list_update_id nth_map)
  moreover have "list_all room_ok st'"
    using assms Some p q by (auto simp: deleteRoom_def room_ok_def keys_ok_def intro!: list_all_update)
  ultimately show ?thesis by blast
qed (use assms in \<open>simp add: deleteRoom_def\<close>)

lemma deleteMessage_contract:
  "map policy (deleteMessage i t m h st) = map policy st"
  "list_all room_ok st \<Longrightarrow> list_all room_ok (deleteMessage i t m h st)"
  by (auto simp: deleteMessage_def erased.policies_with erased.ok_with)

lemma reducer_contract:
  assumes "room_reducer env act st = Inr st'" "list_all room_ok st"
  shows "list_all room_ok st' \<and> (\<exists>ps. map policy st' = map policy st @ ps)"
proof (cases act)
  case (SetRoom a)
  then show ?thesis using assms set_known_or_new_contract [OF _ assms(2)]
    by (auto simp: setRoom_def split: if_splits)
next
  case (SetRoomPolicy c p)
  then show ?thesis using assms by (auto simp: setRoomPolicy_def result_simps split: option.splits)
next
  case (DeleteRoom c)
  then show ?thesis using assms deleteRoom_contract by simp
next
  case (DeleteMessage i t m h)
  then show ?thesis using assms deleteMessage_contract by auto
qed (use assms in \<open>auto simp: reducer_defs reducer_policies reducer_ok\<close>)

lemma dispatch_contract:
  assumes "list_all room_ok st"
  shows "list_all room_ok (dispatch env act st) \<and> (\<exists>ps. map policy (dispatch env act st) = map policy st @ ps)"
  using reducer_contract [OF _ assms, of env act] assms by (simp add: dispatch_def split: sum.splits)

text \<open>A session of the store: the actions in the order they are dispatched, each in its environment.\<close>

fun dispatch_all :: "(store_env \<times> room_action) list \<Rightarrow> room list \<Rightarrow> room list" where
  "dispatch_all [] st = st"
| "dispatch_all ((env, act) # acts) st = dispatch_all acts (dispatch env act st)"

lemma dispatch_all_contract:
  "list_all room_ok st \<Longrightarrow>
     list_all room_ok (dispatch_all acts st) \<and> (\<exists>ps. map policy (dispatch_all acts st) = map policy st @ ps)"
proof (induction acts st rule: dispatch_all.induct)
  case (2 env act acts st)
  have d: "list_all room_ok (dispatch env act st)" "\<exists>ps. map policy (dispatch env act st) = map policy st @ ps"
    using dispatch_contract [OF 2(2)] by blast+
  from 2(1) [OF d(1)] d(2) show ?case by auto
qed simp

lemma dispatch_all_append: "dispatch_all (xs @ ys) st = dispatch_all ys (dispatch_all xs st)"
  by (induction xs st rule: dispatch_all.induct) simp_all

lemma session_ok: "list_all room_ok (dispatch_all acts [])"
  using dispatch_all_contract [of "[]" acts] by simp

section \<open>Messages\<close>

text \<open>What an update may do to a stored message: nothing but fill in a missing root, follow the total
  size, and count progress that stays within it.\<close>

definition progressed :: "message \<Rightarrow> message \<Rightarrow> bool" where
  "progressed m m' \<longleftrightarrow>
     m' = m\<lparr>merkleRootHex := merkleRootHex m', totalSize := totalSize m', savedSize := savedSize m', chunksCreated := chunksCreated m'\<rparr> \<and>
     (merkleRootHex m' = merkleRootHex m \<or> merkleRootHex m = []) \<and>
     (savedSize m' = savedSize m \<or> savedSize m < savedSize m' \<and> savedSize m' \<le> totalSize m')"

lemma progressed_refl: "progressed m m"
  by (simp add: progressed_def)

lemma set_message_update_progressed: "progressed m (set_message_update a m)"
  by (auto simp: progressed_def set_message_update_def Let_def split: option.splits)

lemma list_all2_update: "(\<And>x. P x x) \<Longrightarrow> i < length xs \<Longrightarrow> P (xs ! i) y \<Longrightarrow> list_all2 P xs (xs[i := y])"
  by (auto simp: list_all2_conv_all_nth nth_list_update)

section \<open>Properties\<close>

text \<open>C31: the policy of a room is fixed when the room is created. Whatever is dispatched afterwards
  (another \<^verbatim>\<open>setRoom\<close> or \<^verbatim>\<open>setRoomPolicy\<close> with other settings, a server answer, deleting the room), the
  rooms of the store keep their places and their policies, and every stored policy is valid.\<close>

theorem room_policy_immutable:
  "take (length (dispatch_all acts [])) (map policy (dispatch_all (acts @ later) [])) = map policy (dispatch_all acts []) \<and>
   list_all (\<lambda>r. validateRoomPolicyV1 (policy r) = Inr ()) (dispatch_all (acts @ later) [])"
proof -
  obtain ps where "map policy (dispatch_all (acts @ later) []) = map policy (dispatch_all acts []) @ ps"
    using dispatch_all_contract [OF session_ok [of acts], of later] by (auto simp: dispatch_all_append)
  moreover have "list_all (\<lambda>r. validateRoomPolicyV1 (policy r) = Inr ()) (dispatch_all (acts @ later) [])"
    using session_ok [of "acts @ later"] by (auto simp: list_all_iff room_ok_def valid_policy_def)
  ultimately show ?thesis by simp
qed

text \<open>C32: in every state of the store each room lists a peer at most once, a channel label at most once,
  and a channel has at least one peer and none twice.\<close>

theorem room_lists_unique:
  "list_all (\<lambda>r. distinct (map peerId (peers r)) \<and> distinct (map label (channels r)) \<and>
     list_all (\<lambda>c. peerIds c \<noteq> [] \<and> distinct (peerIds c)) (channels r)) (dispatch_all acts [])"
  using session_ok [of acts] by (auto simp: list_all_iff room_ok_def channel_ok_def)

text \<open>Deleting a peer takes it out of the peer list of every selected room and withdraws its cover
  claim; its handshake status goes too unless it records a failure, which stays visible. Channels,
  messages and the other peers are untouched.\<close>

theorem delete_peer_effect:
  "list_all2 (\<lambda>r r'. if roomId \<noteq> None \<and> roomId \<noteq> Some (room_id r) then r' = r else
      peers r' = filter (\<lambda>x. peerId x \<noteq> p) (peers r) \<and> channels r' = channels r \<and> messages r' = messages r \<and>
      map_option map_of (coverStatusByPeer r') = map_option (\<lambda>m. (map_of m)(p := None)) (coverStatusByPeer r) \<and>
      map_option map_of (handshakeStatusByPeer r') =
        map_option (\<lambda>m. if map_option hs_status (map_of m p) = Some HandshakeFailed then map_of m else (map_of m)(p := None))
          (handshakeStatusByPeer r))
    (dispatch_all acts []) (deletePeer p roomId (dispatch_all acts []))"
proof -
  have "peers (drop_peer p r) = filter (\<lambda>x. peerId x \<noteq> p) (peers r)" if "r \<in> set (dispatch_all acts [])" for r
    using that session_ok [of acts] by (auto simp: drop_peer_fields remove_first_filter list_all_iff room_ok_def)
  then show ?thesis
    unfolding deletePeer_def list.rel_map
    by (auto simp: list.rel_refl_strong drop_peer_fields(2-3,7-8) AList.delete_conv' option.map_comp comp_def
        intro!: list.rel_refl_strong split: option.splits)
qed

text \<open>Leaving by peer id, a backward loop that splices the arrays it walks over, is the specification
  one would write: drop the peer from every channel and keep the channels that still have a peer,
  in their order.\<close>

theorem leave_channels_spec:
  "deleteChannel None (Some p) None (dispatch_all acts []) =
     map (\<lambda>r. if p = [] then r else
        r\<lparr>channels := filter (\<lambda>c. peerIds c \<noteq> []) (map (\<lambda>c. c\<lparr>peerIds := filter (\<lambda>q. q \<noteq> p) (peerIds c)\<rparr>) (channels r))\<rparr>)
      (dispatch_all acts [])"
proof -
  have mf: "List.map_filter (left p) cs =
      filter (\<lambda>c. peerIds c \<noteq> []) (map (\<lambda>c. c\<lparr>peerIds := filter (\<lambda>q. q \<noteq> p) (peerIds c)\<rparr>) cs)" for cs
    by (induction cs) (simp_all add: List.map_filter_simps left_def Let_def)
  have "fold (leave_channel p) (rev [0..<length (channels r)]) (channels r) = List.map_filter (left p) (channels r)"
    if "r \<in> set (dispatch_all acts [])" for r
    using that session_ok [of acts] by (intro leave_all) (auto simp: list_all_iff room_ok_def)
  then show ?thesis by (auto simp: deleteChannel_def drop_channel_def Let_def mf)
qed

text \<open>Reporting a message never loses, reorders or renames a stored message of the room: the stored
  ones keep their identity, a known Merkle root is never replaced, and the saved size only grows,
  and then not past the total size.\<close>

theorem message_progress:
  "list_all2 progressed (messages r) (take (length (messages r)) (messages (put_message env a r)))"
proof (cases "find_last_index (set_message_match a) (messages r)")
  case None
  then show ?thesis by (simp add: put_message_def list.rel_refl progressed_refl)
next
  case (Some i)
  then have "i < length (messages r)" by (auto dest: find_last_index_SomeD)
  then have "list_all2 progressed (messages r) ((messages r)[i := set_message_update a (messages r ! i)])"
    by (intro list_all2_update progressed_refl set_message_update_progressed)
  with Some show ?thesis by (simp add: put_message_def Let_def list.rel_refl progressed_refl)
qed

section \<open>The address of a room is not bound to its policy\<close>

definition pin_policy :: room_policy where
  "pin_policy = DEFAULT_ROOM_POLICY_V1\<lparr>authMode := ''pin''\<rparr>"

definition room_answer :: "string \<Rightarrow> string \<Rightarrow> room_policy option \<Rightarrow> room_action" where
  "room_answer u i p = SetRoom \<lparr>sr_url = u, sr_id = i, sr_canBeConnectionRelay = None,
     sr_onlyConnectWithKnownPeers = None, sr_rtcConfig = None, sr_policy = p\<rparr>"

definition policy_at :: "string \<Rightarrow> room list \<Rightarrow> room_policy option" where
  "policy_at u st = map_option (\<lambda>i. policy (st ! i)) (find_index (\<lambda>r. url r = u) st)"

definition demo_store :: store_env where
  "demo_store = \<lparr>isUUID = (\<lambda>s. length s = 36), localStorage = Map.empty, date_now = 0\<rparr>"

definition url_a :: string where "url_a = replicate 64 (CHR ''a'')"
definition url_b :: string where "url_b = replicate 64 (CHR ''b'')"
definition id_a :: string where "id_a = ''11111111-1111-4111-8111-111111111111''"
definition id_b :: string where "id_b = ''22222222-2222-4222-8222-222222222222''"

definition two_rooms :: "room list" where
  "two_rooms = dispatch_all [(demo_store, room_answer url_a id_a (Some DEFAULT_ROOM_POLICY_V1)),
     (demo_store, room_answer url_b id_b (Some pin_policy))] []"

text \<open>The policy is bound to the place of a room in the store, not to its address. A room answer that
  pairs the id of one room with the address of another renames the first room, so that a lookup by
  that address now finds the other policy: here a room with a PIN becomes one without.\<close>

theorem room_address_rebound:
  "policy_at url_b two_rooms = Some pin_policy \<and>
   policy_at url_b (dispatch demo_store (room_answer url_b id_a None) two_rooms) = Some DEFAULT_ROOM_POLICY_V1"
  by code_simp

end
