(* ===== verification/Merkle.thy ===== *)
theory Merkle
  imports Wire_Constants
begin

text \<open>
  Merkle trees over chunk hashes: \<^verbatim>\<open>cryptography/merkle.ts\<close>, the leaf hash of \<^verbatim>\<open>utils/leafHash.ts\<close>, and
  the compiled \<^verbatim>\<open>cryptography/merkle.c\<close> they call. SHA-512 is the parameter \<open>sha\<close> (\<open>None\<close> is its error
  return). An array of hashes is the list of its 64-byte nodes, rewritten in place as the C code
  does; proofs stay flat byte arrays with the sources' index arithmetic.
\<close>

section \<open>The compiled code\<close>

type_synonym sha512 = "bytes \<Rightarrow> bytes option"

definition NODE_DOMAIN :: byte where "NODE_DOMAIN = 1"
definition MERKLE_LEAF_DOMAIN :: byte where "MERKLE_LEAF_DOMAIN = 0"

definition HASH_LEN :: nat where [const_defs]: "HASH_LEN = crypto_hash_sha512_BYTES"
definition ARTIFACT_LEN :: nat where [const_defs]: "ARTIFACT_LEN = crypto_hash_sha512_BYTES + 1"

definition hash_node :: "sha512 \<Rightarrow> bytes \<Rightarrow> bytes \<Rightarrow> bytes option" where
  "hash_node sha lft rgt = sha (NODE_DOMAIN # lft @ rgt)"

text \<open>The inner \<^verbatim>\<open>for\<close> of \<^verbatim>\<open>get_merkle_root\<close>: parents are written at \<open>j\<close> while \<open>i\<close> reads ahead.\<close>

function root_level :: "sha512 \<Rightarrow> nat \<Rightarrow> nat \<Rightarrow> nat \<Rightarrow> bytes list \<Rightarrow> bytes list option" where
  "root_level sha leaves i j xs =
     (if i < leaves then
        if odd leaves \<and> i + 1 = leaves then root_level sha leaves (i + 2) (j + 1) (xs[j := xs ! i])
        else case hash_node sha (xs ! i) (xs ! (i + 1)) of
               None \<Rightarrow> None
             | Some h \<Rightarrow> root_level sha leaves (i + 2) (j + 1) (xs[j := h])
      else Some xs)"
  by pat_completeness auto
termination by (relation "measure (\<lambda>(_, leaves, i, _, _). leaves - i)") auto

function root_loop :: "sha512 \<Rightarrow> nat \<Rightarrow> bytes list \<Rightarrow> bytes list option" where
  "root_loop sha leaves xs =
     (if leaves > 1 then
        case root_level sha leaves 0 0 xs of
          None \<Rightarrow> None
        | Some ys \<Rightarrow> root_loop sha ((leaves + 1) div 2) ys
      else Some xs)"
  by pat_completeness auto
termination by (relation "measure (\<lambda>(_, leaves, _). leaves)") auto

definition c_get_merkle_root :: "sha512 \<Rightarrow> bytes list \<Rightarrow> int + bytes" where
  "c_get_merkle_root sha xs = (case root_loop sha (length xs) xs of None \<Rightarrow> Inl (-2) | Some ys \<Rightarrow> Inr (ys ! 0))"

text \<open>The loops of \<^verbatim>\<open>get_merkle_proof\<close> also follow the element and emit its siblings.\<close>

function proof_level ::
    "sha512 \<Rightarrow> nat \<Rightarrow> nat \<Rightarrow> nat \<Rightarrow> nat \<times> bytes list \<times> bytes list \<Rightarrow> (nat \<times> bytes list \<times> bytes list) option" where
  "proof_level sha leaves i j st =
     (if i < leaves then
        let (e, prf, xs) = st in
        if odd leaves \<and> i + 1 = leaves then
          proof_level sha leaves (i + 2) (j + 1) (if i = e then j else e, prf, xs[j := xs ! i])
        else
          let (e, prf) = (if i = e then (j, prf @ [xs ! (i + 1) @ [1]])
                          else if i + 1 = e then (j, prf @ [xs ! i @ [0]]) else (e, prf))
          in case hash_node sha (xs ! i) (xs ! (i + 1)) of
               None \<Rightarrow> None
             | Some h \<Rightarrow> proof_level sha leaves (i + 2) (j + 1) (e, prf, xs[j := h])
      else Some st)"
  by pat_completeness auto
termination by (relation "measure (\<lambda>(_, leaves, i, _, _). leaves - i)") auto

function proof_loop ::
    "sha512 \<Rightarrow> nat \<Rightarrow> nat \<times> bytes list \<times> bytes list \<Rightarrow> (nat \<times> bytes list \<times> bytes list) option" where
  "proof_loop sha leaves st =
     (if leaves > 1 then
        case proof_level sha leaves 0 0 st of
          None \<Rightarrow> None
        | Some st' \<Rightarrow> proof_loop sha ((leaves + 1) div 2) st'
      else Some st)"
  by pat_completeness auto
termination by (relation "measure (\<lambda>(_, leaves, _). leaves)") auto

declare root_level.simps [simp del] root_loop.simps [simp del] proof_level.simps [simp del] proof_loop.simps [simp del]

definition c_get_merkle_proof :: "sha512 \<Rightarrow> bytes list \<Rightarrow> bytes \<Rightarrow> int + bytes" where
  "c_get_merkle_proof sha xs element =
     (case find_index (\<lambda>x. x = element) xs of
        None \<Rightarrow> Inl (-1)
      | Some e \<Rightarrow> (case proof_loop sha (length xs) (e, [], xs) of
                    None \<Rightarrow> Inl (-3)
                  | Some (_, prf, _) \<Rightarrow> Inr (concat prf)))"

definition position_at :: "bytes \<Rightarrow> nat \<Rightarrow> nat" where
  "position_at prf i = unat (prf ! (i * ARTIFACT_LEN + HASH_LEN))"

definition artifact_at :: "bytes \<Rightarrow> nat \<Rightarrow> bytes" where
  "artifact_at prf i = sub prf (i * ARTIFACT_LEN) (i * ARTIFACT_LEN + HASH_LEN)"

fun root_from_proof_loop :: "sha512 \<Rightarrow> bytes \<Rightarrow> nat list \<Rightarrow> bytes \<Rightarrow> int + bytes" where
  "root_from_proof_loop sha prf [] root = Inr root"
| "root_from_proof_loop sha prf (i # is) root =
     (if position_at prf i = 0 then
        case hash_node sha (artifact_at prf i) root of None \<Rightarrow> Inl (-3) | Some h \<Rightarrow> root_from_proof_loop sha prf is h
      else if position_at prf i = 1 then
        case hash_node sha root (artifact_at prf i) of None \<Rightarrow> Inl (-3) | Some h \<Rightarrow> root_from_proof_loop sha prf is h
      else Inl (-2))"

definition c_get_merkle_root_from_proof :: "sha512 \<Rightarrow> nat \<Rightarrow> bytes \<Rightarrow> bytes \<Rightarrow> int + bytes" where
  "c_get_merkle_root_from_proof sha n element prf =
     (if n = 1 \<and> sub prf 0 HASH_LEN = element then Inr element
      else root_from_proof_loop sha prf [0..<n] element)"

fun verify_loop :: "sha512 \<Rightarrow> bytes \<Rightarrow> nat list \<Rightarrow> bytes \<Rightarrow> int + bytes" where
  "verify_loop sha prf [] h = Inr h"
| "verify_loop sha prf (i # is) h =
     (if position_at prf i \<noteq> 0 \<and> position_at prf i \<noteq> 1 then Inl (-3)
      else case (if position_at prf i = 0 then hash_node sha (artifact_at prf i) h
                 else hash_node sha h (artifact_at prf i)) of
             None \<Rightarrow> Inl (-4)
           | Some h' \<Rightarrow> verify_loop sha prf is h')"

definition c_verify_merkle_proof :: "sha512 \<Rightarrow> nat \<Rightarrow> bytes \<Rightarrow> bytes \<Rightarrow> bytes \<Rightarrow> int" where
  "c_verify_merkle_proof sha n element root prf =
     (if n = 1 \<and> root = element then 0
      else case verify_loop sha prf [0..<n] element of
             Inl code \<Rightarrow> code
           | Inr h \<Rightarrow> if h \<noteq> root then 1 else 0)"

section \<open>The bindings\<close>

datatype merkle_error =
    HashesNotPassed | EmptyTree | AllocationFailed | HashFailed | ElementNotInTree | ProofLengthNotMultiple
  | BadPosition | SingleArtifact | Unexpected | RangeError

text \<open>What the platform supplies: fresh random bytes, and the content of newly allocated memory.\<close>

record platform =
  getRandomValues :: "nat \<Rightarrow> bytes"
  fresh_memory :: "nat \<Rightarrow> bytes"

definition set_checked :: "bytes \<Rightarrow> nat \<Rightarrow> bytes \<Rightarrow> merkle_error + bytes" where
  "set_checked buf off xs = (if off + length xs \<le> length buf then Inr (set_at buf off xs) else Inl RangeError)"

definition alloc_set :: "platform \<Rightarrow> nat \<Rightarrow> bytes \<Rightarrow> merkle_error + bytes" where
  "alloc_set env n xs = set_checked (fresh_memory env n) 0 xs"

definition nodes_of :: "bytes \<Rightarrow> bytes list" where
  "nodes_of bs = map (\<lambda>i. sub bs (i * HASH_LEN) (i * HASH_LEN + HASH_LEN)) [0..<length bs div HASH_LEN]"

definition hashMerkleLeaf :: "sha512 \<Rightarrow> bytes \<Rightarrow> merkle_error + bytes" where
  "hashMerkleLeaf sha chunk =
     (case sha (MERKLE_LEAF_DOMAIN # chunk) of None \<Rightarrow> Inl HashFailed | Some h \<Rightarrow> Inr h)"

definition getMerkleRoot :: "sha512 \<Rightarrow> bytes \<Rightarrow> merkle_error + bytes" where
  "getMerkleRoot sha treeHashes =
     (if length treeHashes mod HASH_LEN \<noteq> 0 then Inl HashesNotPassed
      else let treeLen = length treeHashes div HASH_LEN
           in if treeLen = 0 then Inl EmptyTree
              else if treeLen = 1 then Inr treeHashes
              else case c_get_merkle_root sha (nodes_of treeHashes) of
                     Inr root \<Rightarrow> Inr root
                   | Inl code \<Rightarrow> if code = -1 then Inl AllocationFailed else if code = -2 then Inl HashFailed
                                 else Inl Unexpected)"

text \<open>A fixed-length proof is random padding with the length and the proof written over its start.\<close>

definition fixed_proof :: "platform \<Rightarrow> nat \<Rightarrow> bytes \<Rightarrow> merkle_error + bytes" where
  "fixed_proof env proofFixedLen prf =
     rbind (set_checked (getRandomValues env proofFixedLen) 0 (be_enc 4 (length prf))) (\<lambda>a.
     set_checked a 4 prf)"

definition getMerkleProof ::
    "platform \<Rightarrow> sha512 \<Rightarrow> bytes \<Rightarrow> bytes \<Rightarrow> nat option \<Rightarrow> merkle_error + bytes" where
  "getMerkleProof env sha treeHashes elementHash proofFixedLen =
     (if length treeHashes mod HASH_LEN \<noteq> 0 then Inl HashesNotPassed
      else let treeLen = length treeHashes div HASH_LEN;
               fixed = (case proofFixedLen of None \<Rightarrow> 0 | Some n \<Rightarrow> n)
           in if treeLen = 0 then Inl EmptyTree
              else if treeLen = 1 then
                rbind (set_checked (zeros ARTIFACT_LEN) 0 elementHash) (\<lambda>prf.
                  if fixed \<noteq> 0 then fixed_proof env fixed prf else Inr prf)
              else rbind (alloc_set env HASH_LEN elementHash) (\<lambda>element.
                case c_get_merkle_proof sha (nodes_of treeHashes) element of
                  Inl code \<Rightarrow> if code = -1 then Inl ElementNotInTree else if code = -2 then Inl AllocationFailed
                              else if code = -3 then Inl HashFailed else Inl Unexpected
                | Inr prf \<Rightarrow>
                    if length prf > 0 then
                      if fixed \<noteq> 0 \<and> fixed \<ge> length prf then fixed_proof env fixed prf else Inr prf
                    else Inl Unexpected))"

definition getMerkleRootFromProof :: "sha512 \<Rightarrow> bytes \<Rightarrow> bytes \<Rightarrow> merkle_error + bytes" where
  "getMerkleRootFromProof sha item prf =
     (if length prf mod ARTIFACT_LEN \<noteq> 0 then Inl ProofLengthNotMultiple
      else rbind (hashMerkleLeaf sha item) (\<lambda>element.
        case c_get_merkle_root_from_proof sha (length prf div ARTIFACT_LEN) element prf of
          Inr root \<Rightarrow> Inr root
        | Inl code \<Rightarrow> if code = -1 then Inl AllocationFailed else if code = -2 then Inl BadPosition
                      else if code = -3 then Inl HashFailed else Inl Unexpected))"

definition verifyMerkleProof :: "platform \<Rightarrow> sha512 \<Rightarrow> bytes \<Rightarrow> bytes \<Rightarrow> bytes \<Rightarrow> merkle_error + bool" where
  "verifyMerkleProof env sha item root prf =
     (if length prf mod ARTIFACT_LEN \<noteq> 0 then Inl ProofLengthNotMultiple
      else rbind (hashMerkleLeaf sha item) (\<lambda>element.
        rbind (alloc_set env HASH_LEN root) (\<lambda>rootArray.
          let code = c_verify_merkle_proof sha (length prf div ARTIFACT_LEN) element rootArray prf
          in if code = 0 then Inr True else if code = 1 then Inr False
             else if code = -1 then Inl SingleArtifact else if code = -2 then Inl AllocationFailed
             else if code = -3 then Inl BadPosition else if code = -4 then Inl HashFailed else Inl Unexpected)))"

end
