(* ===== verification/Merkle_Props.thy ===== *)
theory Merkle_Props
  imports Merkle
begin

text \<open>
  Correctness of the Merkle code: the in-place loops compute the level-by-level reference, a proof
  produced for a chunk verifies, it fits the fixed proof field, and a proof that verifies is for one
  of the chunks unless it exhibits two different inputs with the same SHA-512 value.
\<close>

section \<open>The reference\<close>

definition sha_ok :: "sha512 \<Rightarrow> bool" where
  "sha_ok sha \<longleftrightarrow> (\<forall>x. \<exists>h. sha x = Some h \<and> length h = 64)"

definition platform_ok :: "platform \<Rightarrow> bool" where
  "platform_ok env \<longleftrightarrow> (\<forall>n. length (getRandomValues env n) = n \<and> length (fresh_memory env n) = n)"

definition parent :: "sha512 \<Rightarrow> bytes \<Rightarrow> bytes \<Rightarrow> bytes" where
  "parent sha x y = the (hash_node sha x y)"

fun level :: "sha512 \<Rightarrow> bytes list \<Rightarrow> bytes list" where
  "level sha (x # y # xs) = parent sha x y # level sha xs"
| "level sha xs = xs"

lemma length_level [simp]: "length (level sha xs) = (length xs + 1) div 2"
  by (induction sha xs rule: level.induct) auto

function root_ref :: "sha512 \<Rightarrow> bytes list \<Rightarrow> bytes" where
  "root_ref sha xs = (if length xs > 1 then root_ref sha (level sha xs) else hd xs)"
  by pat_completeness auto
termination by (relation "measure (length \<circ> snd)") auto

definition siblings :: "bytes list \<Rightarrow> nat \<Rightarrow> bytes list" where
  "siblings xs e =
     (if even e then if e + 1 < length xs then [xs ! (e + 1) @ [1]] else [] else [xs ! (e - 1) @ [0]])"

function proof_ref :: "sha512 \<Rightarrow> bytes list \<Rightarrow> nat \<Rightarrow> bytes list" where
  "proof_ref sha xs e =
     (if length xs > 1 then siblings xs e @ proof_ref sha (level sha xs) (e div 2) else [])"
  by pat_completeness auto
termination by (relation "measure (\<lambda>(_, xs, _). length xs)") auto

declare root_ref.simps [simp del] proof_ref.simps [simp del]

lemma hash_node_parent: "sha_ok sha \<Longrightarrow> hash_node sha x y = Some (parent sha x y)"
  by (auto simp: sha_ok_def parent_def hash_node_def) (metis option.sel)

lemma length_parent: "sha_ok sha \<Longrightarrow> length (parent sha x y) = 64"
  by (auto simp: sha_ok_def parent_def hash_node_def) (metis option.sel)

lemma length_level_nodes: "sha_ok sha \<Longrightarrow> list_all (\<lambda>x. length x = 64) xs \<Longrightarrow> list_all (\<lambda>x. length x = 64) (level sha xs)"
  by (induction sha xs rule: level.induct) (simp_all add: length_parent)

section \<open>The in-place loops\<close>

lemma drop_take_update: "j < m \<Longrightarrow> drop m (take n (xs[j := x])) = drop m (take n xs)"
  by (simp add: take_update_swap drop_update_cancel)

lemma drop_take_pair:
  "i + 1 < n \<Longrightarrow> n \<le> length xs \<Longrightarrow> drop i (take n xs) = xs ! i # xs ! (i + 1) # drop (i + 2) (take n xs)"
  by (simp add: Cons_nth_drop_Suc [symmetric, of i] Cons_nth_drop_Suc [symmetric, of "Suc i"])

lemma root_level_ref:
  assumes "sha_ok sha" "i = 2 * j" "i \<le> n + 1" "n \<le> length xs"
  shows "\<exists>ys. root_level sha n i j xs = Some ys \<and> length ys = length xs \<and>
    take ((n + 1) div 2) ys = take j xs @ level sha (drop i (take n xs))"
  using assms(2-)
proof (induction "n - i" arbitrary: i j xs rule: less_induct)
  case less
  show ?case
  proof (cases "i < n")
    case False
    then have "(n + 1) div 2 = j" using less.prems by auto
    with False show ?thesis by (subst root_level.simps) simp
  next
    case lt: True
    have j: "j < length xs" "j < i + 2" using lt less.prems(1,3) by auto
    let ?v = "if odd n \<and> i + 1 = n then xs ! i else parent sha (xs ! i) (xs ! (i + 1))"
    have step: "root_level sha n i j xs = root_level sha n (i + 2) (j + 1) (xs[j := ?v])"
      using lt by (subst root_level.simps) (simp add: hash_node_parent [OF assms(1)])
    obtain ys where ys: "root_level sha n (i + 2) (j + 1) (xs[j := ?v]) = Some ys" "length ys = length xs"
      "take ((n + 1) div 2) ys = take (j + 1) (xs[j := ?v]) @ level sha (drop (i + 2) (take n (xs[j := ?v])))"
    proof -
      have "n - (i + 2) < n - i" "i + 2 = 2 * (j + 1)" "i + 2 \<le> n + 1" "n \<le> length (xs[j := ?v])"
        using lt less.prems(1,3) by simp_all
      from less.hyps [OF this] show ?thesis using that by auto
    qed
    have "take (j + 1) (xs[j := ?v]) = take j xs @ [?v]" using j by (simp add: take_Suc_conv_app_nth)
    moreover have "drop (i + 2) (take n (xs[j := ?v])) = drop (i + 2) (take n xs)"
      using j(2) by (rule drop_take_update)
    moreover have "level sha (drop i (take n xs)) = ?v # level sha (drop (i + 2) (take n xs))"
    proof (cases "odd n \<and> i + 1 = n")
      case True
      then have "drop i (take n xs) = [xs ! i]"
        using lt less.prems(3) Cons_nth_drop_Suc [of i "take n xs"] by simp
      with True show ?thesis by simp
    next
      case False
      then have "i + 1 < n" using lt less.prems(1) by presburger
      from drop_take_pair [OF this less.prems(3)] False show ?thesis by auto
    qed
    ultimately show ?thesis using step ys by simp
  qed
qed

lemma root_level_levels:
  assumes "sha_ok sha" "n \<le> length xs"
  shows "\<exists>ys. root_level sha n 0 0 xs = Some ys \<and> length ys = length xs \<and>
    take ((n + 1) div 2) ys = level sha (take n xs)"
  using root_level_ref [OF assms(1), of 0 0 n xs] assms(2) by simp

lemma proof_level_done:
  assumes "e < j" "j \<le> i"
  shows "proof_level sha n i j (e, pf, xs) = map_option (\<lambda>ys. (e, pf, ys)) (root_level sha n i j xs)"
  using assms
proof (induction "n - i" arbitrary: i j xs rule: less_induct)
  case less
  show ?case
  proof (cases "i < n")
    case True
    then have "proof_level sha n (i + 2) (j + 1) (e, pf, xs[j := v]) =
        map_option (\<lambda>ys. (e, pf, ys)) (root_level sha n (i + 2) (j + 1) (xs[j := v]))" for v
      using less.prems by (intro less.hyps) auto
    with True less.prems show ?thesis
      by (subst proof_level.simps, subst root_level.simps) (auto split: option.splits)
  next
    case False
    then show ?thesis by (subst proof_level.simps, subst root_level.simps) simp
  qed
qed

lemma siblings_update: "j < e - 1 \<Longrightarrow> siblings (take n (xs[j := v])) e = siblings (take n xs) e"
  by (auto simp: siblings_def take_update_swap)

lemma proof_level_follow:
  assumes "i = 2 * j" "i \<le> e" "e < n" "n \<le> length xs"
  shows "proof_level sha n i j (e, pf, xs) =
    map_option (\<lambda>ys. (e div 2, pf @ siblings (take n xs) e, ys)) (root_level sha n i j xs)"
  using assms
proof (induction "n - i" arbitrary: i j xs rule: less_induct)
  case less
  have i: "i < n" using less.prems by simp
  show ?case
  proof (cases "e = i \<or> e = i + 1")
    case here: True
    then have ej: "e div 2 = j" using less.prems(1) by auto
    show ?thesis
    proof (cases "odd n \<and> i + 1 = n")
      case True
      then have e: "e = i" using here less.prems by auto
      have "siblings (take n xs) e = []" using True less.prems(1) by (simp add: siblings_def e)
      with True e i ej less.prems(1) show ?thesis
        using proof_level_done [of j "j + 1" "i + 2" sha n pf "xs[j := xs ! i]"]
        by (subst proof_level.simps, subst root_level.simps) simp
    next
      case False
      then have i1: "i + 1 < n" using i less.prems(1) by presburger
      let ?s = "siblings (take n xs) e"
      have "?s = (if e = i then [xs ! (i + 1) @ [1]] else [xs ! i @ [0]])"
        using here i1 less.prems by (auto simp: siblings_def)
      then have "proof_level sha n i j (e, pf, xs) =
          (case hash_node sha (xs ! i) (xs ! (i + 1)) of None \<Rightarrow> None
           | Some h \<Rightarrow> proof_level sha n (i + 2) (j + 1) (j, pf @ ?s, xs[j := h]))"
        using False i here by (subst proof_level.simps) (auto split: option.splits)
      also have "\<dots> = map_option (\<lambda>ys. (e div 2, pf @ ?s, ys)) (root_level sha n i j xs)"
      proof -
        have "root_level sha n i j xs = (case hash_node sha (xs ! i) (xs ! (i + 1)) of None \<Rightarrow> None
            | Some h \<Rightarrow> root_level sha n (i + 2) (j + 1) (xs[j := h]))"
          using False i by (subst root_level.simps) auto
        moreover have "proof_level sha n (i + 2) (j + 1) (j, pf @ ?s, ys) =
            map_option (\<lambda>zs. (j, pf @ ?s, zs)) (root_level sha n (i + 2) (j + 1) ys)" for ys
          using less.prems(1) by (intro proof_level_done) simp_all
        ultimately show ?thesis by (simp add: ej split: option.splits)
      qed
      finally show ?thesis .
    qed
  next
    case False
    then have far: "i + 2 \<le> e" using less.prems by auto
    then have "\<not> (odd n \<and> i + 1 = n)" using less.prems by auto
    moreover have "proof_level sha n (i + 2) (j + 1) (e, pf, xs[j := v]) =
        map_option (\<lambda>ys. (e div 2, pf @ siblings (take n xs) e, ys)) (root_level sha n (i + 2) (j + 1) (xs[j := v]))" for v
    proof -
      have "n - (i + 2) < n - i" "i + 2 = 2 * (j + 1)" "n \<le> length (xs[j := v])" "j < e - 1"
        using i far less.prems(1,4) by simp_all
      from less.hyps [OF this(1,2) far less.prems(3) this(3)] siblings_update [OF this(4)] show ?thesis by simp
    qed
    ultimately show ?thesis using i False
      by (subst proof_level.simps, subst root_level.simps) (auto split: option.splits)
  qed
qed

lemma root_loop_ref:
  assumes "sha_ok sha" "1 \<le> n" "n \<le> length xs"
  shows "\<exists>ys. root_loop sha n xs = Some ys \<and> ys ! 0 = root_ref sha (take n xs)"
  using assms(2-)
proof (induction n arbitrary: xs rule: less_induct)
  case (less n)
  show ?case
  proof (cases "n > 1")
    case True
    obtain ys where ys: "root_level sha n 0 0 xs = Some ys" "length ys = length xs"
      "take ((n + 1) div 2) ys = level sha (take n xs)"
      using root_level_levels [OF assms(1) less.prems(2)] by blast
    have "\<exists>zs. root_loop sha ((n + 1) div 2) ys = Some zs \<and> zs ! 0 = root_ref sha (take ((n + 1) div 2) ys)"
      using True less.prems ys(2) by (intro less.IH) auto
    with True ys less.prems(2) show ?thesis
      by (subst root_loop.simps, subst root_ref.simps) simp
  next
    case False
    with less.prems have "n = 1" "xs \<noteq> []" by auto
    then show ?thesis by (subst root_loop.simps, subst root_ref.simps) (cases xs, simp_all)
  qed
qed

lemma proof_loop_ref:
  assumes "sha_ok sha" "e < n" "n \<le> length xs"
  shows "\<exists>e' ys. proof_loop sha n (e, pf, xs) = Some (e', pf @ proof_ref sha (take n xs) e, ys)"
  using assms(2-)
proof (induction n arbitrary: e pf xs rule: less_induct)
  case (less n)
  show ?case
  proof (cases "n > 1")
    case True
    obtain ys where ys: "root_level sha n 0 0 xs = Some ys" "length ys = length xs"
      "take ((n + 1) div 2) ys = level sha (take n xs)"
      using root_level_levels [OF assms(1) less.prems(2)] by blast
    have "proof_level sha n 0 0 (e, pf, xs) = Some (e div 2, pf @ siblings (take n xs) e, ys)"
      using proof_level_follow [of 0 0 e n xs sha pf] less.prems ys(1) by simp
    moreover have "\<exists>e' zs. proof_loop sha ((n + 1) div 2) (e div 2, pf @ siblings (take n xs) e, ys) =
        Some (e', (pf @ siblings (take n xs) e) @ proof_ref sha (take ((n + 1) div 2) ys) (e div 2), zs)"
      using True less.prems ys(2) by (intro less.IH) auto
    ultimately show ?thesis using True ys(3) less.prems(2)
      by (subst proof_loop.simps, subst proof_ref.simps) simp
  next
    case False
    then show ?thesis using less.prems by (subst proof_loop.simps, subst proof_ref.simps) simp
  qed
qed

section \<open>Climbing a proof\<close>

text \<open>One step of verification on an artifact given as its position and its hash.\<close>

fun climb :: "sha512 \<Rightarrow> (nat \<times> bytes) list \<Rightarrow> bytes \<Rightarrow> bytes" where
  "climb sha [] h = h"
| "climb sha ((p, a) # as) h = climb sha as (if p = 0 then parent sha a h else parent sha h a)"

definition steps_of :: "bytes \<Rightarrow> (nat \<times> bytes) list" where
  "steps_of pf = map (\<lambda>i. (position_at pf i, artifact_at pf i)) [0..<length pf div ARTIFACT_LEN]"

definition positions_ok :: "(nat \<times> bytes) list \<Rightarrow> bool" where
  "positions_ok st \<longleftrightarrow> list_all (\<lambda>(p, a). p = 0 \<or> p = 1) st"

lemma climb_append: "climb sha (xs @ ys) h = climb sha ys (climb sha xs h)"
  by (induction sha xs h rule: climb.induct) simp_all

lemma verify_loop_climb:
  assumes "sha_ok sha"
  shows "verify_loop sha pf is h =
    (if positions_ok (map (\<lambda>i. (position_at pf i, artifact_at pf i)) is)
     then Inr (climb sha (map (\<lambda>i. (position_at pf i, artifact_at pf i)) is) h) else Inl (-3))"
  by (induction "is" arbitrary: h) (auto simp: positions_ok_def hash_node_parent [OF assms])

lemma root_from_proof_climb:
  assumes "sha_ok sha"
  shows "root_from_proof_loop sha pf is h =
    (if positions_ok (map (\<lambda>i. (position_at pf i, artifact_at pf i)) is)
     then Inr (climb sha (map (\<lambda>i. (position_at pf i, artifact_at pf i)) is) h) else Inl (-2))"
  by (induction "is" arbitrary: h) (auto simp: positions_ok_def hash_node_parent [OF assms])

text \<open>A proof made of artifacts is read back artifact by artifact.\<close>

definition step_of :: "bytes \<Rightarrow> nat \<times> bytes" where
  "step_of a = (unat (a ! 64), take 64 a)"

lemma length_concat_65: "list_all (\<lambda>a. length a = 65) as \<Longrightarrow> length (concat as) = 65 * length as"
  by (induction as) simp_all

lemma concat_artifact:
  assumes "list_all (\<lambda>a. length a = 65) as" "i < length as"
  shows "concat as ! (i * 65 + 64) = as ! i ! 64 \<and> sub (concat as) (i * 65) (i * 65 + 64) = take 64 (as ! i)"
  using assms
proof (induction as arbitrary: i)
  case (Cons a as)
  show ?case
  proof (cases i)
    case 0
    with Cons.prems show ?thesis by (simp add: nth_append sub_def)
  next
    case (Suc k)
    with Cons.IH [of k] Cons.prems show ?thesis by (simp add: nth_append sub_def ac_simps)
  qed
qed simp

lemma steps_of_concat: "list_all (\<lambda>a. length a = 65) as \<Longrightarrow> steps_of (concat as) = map step_of as"
  by (intro nth_equalityI)
     (simp_all add: steps_of_def length_concat_65 step_of_def position_at_def artifact_at_def const_defs concat_artifact)

lemma level_nth:
  "k < (length xs + 1) div 2 \<Longrightarrow>
     level sha xs ! k = (if 2 * k + 1 < length xs then parent sha (xs ! (2 * k)) (xs ! (2 * k + 1)) else xs ! (2 * k))"
proof (induction sha xs arbitrary: k rule: level.induct)
  case (1 sha x y xs)
  then show ?case by (cases k) simp_all
qed simp_all

lemma step_of_snoc: "length x = 64 \<Longrightarrow> step_of (x @ [b]) = (unat b, x)"
  by (simp add: step_of_def nth_append)

lemma climb_siblings:
  assumes "list_all (\<lambda>x. length x = 64) xs" "e < length xs"
  shows "climb sha (map step_of (siblings xs e)) (xs ! e) = level sha xs ! (e div 2)"
proof (cases "even e")
  case True
  then obtain k where "e = 2 * k" by blast
  with assms show ?thesis by (auto simp: siblings_def step_of_snoc level_nth list_all_length)
next
  case False
  then obtain k where "e = 2 * k + 1" by (blast elim: oddE)
  with assms show ?thesis by (auto simp: siblings_def step_of_snoc level_nth list_all_length)
qed

lemma siblings_artifacts:
  "list_all (\<lambda>x. length x = 64) xs \<Longrightarrow> e < length xs \<Longrightarrow>
     list_all (\<lambda>a. length a = 65) (siblings xs e) \<and> positions_ok (map step_of (siblings xs e))"
  by (auto simp: siblings_def positions_ok_def step_of_def list_all_length nth_append)

lemma proof_ref_climbs:
  assumes "sha_ok sha" "list_all (\<lambda>x. length x = 64) xs" "e < length xs"
  shows "list_all (\<lambda>a. length a = 65) (proof_ref sha xs e) \<and> positions_ok (map step_of (proof_ref sha xs e)) \<and>
    climb sha (map step_of (proof_ref sha xs e)) (xs ! e) = root_ref sha xs"
  using assms
proof (induction sha xs e rule: proof_ref.induct)
  case (1 sha xs e)
  show ?case
  proof (cases "length xs > 1")
    case True
    have next_: "list_all (\<lambda>x. length x = 64) (level sha xs)" "e div 2 < length (level sha xs)"
      using length_level_nodes [OF 1(2,3)] 1(4) by auto
    note ih = 1(1) [OF True 1(2) next_]
    note sib = siblings_artifacts [OF 1(3,4)] climb_siblings [OF 1(3,4), of sha]
    show ?thesis using True ih sib
      by (subst (1 2 3) proof_ref.simps, subst root_ref.simps) (simp add: climb_append positions_ok_def)
  next
    case False
    then show ?thesis using 1(4)
      by (subst (1 2 3) proof_ref.simps, subst root_ref.simps) (cases xs, simp_all add: positions_ok_def)
  qed
qed

text \<open>The depth: \<open>k\<close> artifacts take a tree of more than \<open>2 ^ (k - 1)\<close> leaves.\<close>

lemma proof_ref_depth: "length xs \<le> 2 ^ d \<Longrightarrow> length (proof_ref sha xs e) \<le> d"
proof (induction d arbitrary: xs e)
  case 0
  then show ?case by (subst proof_ref.simps) simp
next
  case (Suc d)
  have "length (siblings xs e) \<le> 1" by (simp add: siblings_def)
  moreover have "length (proof_ref sha (level sha xs) (e div 2)) \<le> d"
    using Suc.prems by (intro Suc.IH) simp
  ultimately show ?case by (subst proof_ref.simps) simp
qed

section \<open>The bindings on chunk hashes\<close>

definition leaf_hash :: "sha512 \<Rightarrow> bytes \<Rightarrow> bytes" where
  "leaf_hash sha c = the (sha (MERKLE_LEAF_DOMAIN # c))"

definition leaves_of :: "sha512 \<Rightarrow> bytes list \<Rightarrow> bytes" where
  "leaves_of sha chunks = concat (map (leaf_hash sha) chunks)"

lemma leaf_hash_eq: "sha_ok sha \<Longrightarrow> hashMerkleLeaf sha c = Inr (leaf_hash sha c) \<and> length (leaf_hash sha c) = 64"
  unfolding sha_ok_def hashMerkleLeaf_def leaf_hash_def by (metis option.sel option.simps(5))

lemma nodes_of_concat:
  "list_all (\<lambda>x. length x = 64) xs \<Longrightarrow> nodes_of (concat xs) = xs \<and> length (concat xs) = 64 * length xs"
proof (induction xs)
  case (Cons x xs)
  have "nodes_of (x @ concat xs) = x # nodes_of (concat xs)" using Cons
    by (simp add: nodes_of_def const_defs upt_conv_Cons map_Suc_upt [symmetric] sub_def del: upt_Suc)
  with Cons show ?case by simp
qed (simp add: nodes_of_def)

abbreviation leaf_nodes :: "sha512 \<Rightarrow> bytes list \<Rightarrow> bytes list" where
  "leaf_nodes sha chunks \<equiv> map (leaf_hash sha) chunks"

lemma leaf_nodes_64: "sha_ok sha \<Longrightarrow> list_all (\<lambda>x. length x = 64) (leaf_nodes sha chunks)"
  using leaf_hash_eq by (auto simp: list_all_iff)

lemma leaves_of_nodes:
  "sha_ok sha \<Longrightarrow> nodes_of (leaves_of sha chunks) = leaf_nodes sha chunks \<and> length (leaves_of sha chunks) = 64 * length chunks"
  using nodes_of_concat [OF leaf_nodes_64] by (simp add: leaves_of_def)

lemma getMerkleRoot_ref:
  assumes "sha_ok sha" "chunks \<noteq> []"
  shows "getMerkleRoot sha (leaves_of sha chunks) = Inr (root_ref sha (leaf_nodes sha chunks))"
proof (cases "length chunks = 1")
  case True
  then obtain c where "chunks = [c]" by (metis One_nat_def length_0_conv length_Suc_conv)
  then show ?thesis using leaves_of_nodes [OF assms(1), of chunks]
    by (simp add: getMerkleRoot_def const_defs leaves_of_def root_ref.simps)
next
  case False
  obtain ys where "root_loop sha (length chunks) (leaf_nodes sha chunks) = Some ys" "ys ! 0 = root_ref sha (leaf_nodes sha chunks)"
    using root_loop_ref [OF assms(1), of "length chunks" "leaf_nodes sha chunks"] assms(2)
    by (auto simp: Suc_le_eq)
  with False show ?thesis using leaves_of_nodes [OF assms(1), of chunks] assms(2)
    by (simp add: getMerkleRoot_def const_defs c_get_merkle_root_def)
qed

lemma proof_ref_nonempty: "length xs > 1 \<Longrightarrow> e < length xs \<Longrightarrow> proof_ref sha xs e \<noteq> []"
proof (induction sha xs e rule: proof_ref.induct)
  case (1 sha xs e)
  show ?case
  proof (cases "siblings xs e = []")
    case True
    then have "even e" "e + 1 = length xs" using 1(3) by (auto simp: siblings_def split: if_splits)
    then have "length (level sha xs) > 1" "e div 2 < length (level sha xs)" using 1(2) by auto presburger
    with 1(1) [OF 1(2)] 1(2) show ?thesis by (subst proof_ref.simps) simp
  next
    case False
    with 1(2) show ?thesis by (subst proof_ref.simps) simp
  qed
qed

text \<open>The artifacts of the proof a sender attaches to chunk \<open>c\<close>.\<close>

definition chunk_proof :: "sha512 \<Rightarrow> bytes list \<Rightarrow> bytes \<Rightarrow> bytes list" where
  "chunk_proof sha chunks c =
     (if length chunks = 1 then [leaf_hash sha c @ [0]]
      else proof_ref sha (leaf_nodes sha chunks) (the (find_index (\<lambda>x. x = leaf_hash sha c) (leaf_nodes sha chunks))))"

lemma chunk_index:
  assumes "c \<in> set chunks"
  obtains e where "find_index (\<lambda>x. x = leaf_hash sha c) (leaf_nodes sha chunks) = Some e" "e < length chunks"
    "leaf_nodes sha chunks ! e = leaf_hash sha c"
proof -
  have "find_index (\<lambda>x. x = leaf_hash sha c) (leaf_nodes sha chunks) \<noteq> None"
    using assms by (auto simp: find_index_None_iff)
  then show ?thesis using that find_index_SomeD by fastforce
qed

lemma chunk_proof_ok:
  assumes "sha_ok sha" "c \<in> set chunks"
  shows "list_all (\<lambda>a. length a = 65) (chunk_proof sha chunks c)" "positions_ok (map step_of (chunk_proof sha chunks c))"
    "chunk_proof sha chunks c \<noteq> []"
    "length chunks \<noteq> 1 \<Longrightarrow> climb sha (map step_of (chunk_proof sha chunks c)) (leaf_hash sha c) = root_ref sha (leaf_nodes sha chunks)"
proof -
  obtain e where e: "find_index (\<lambda>x. x = leaf_hash sha c) (leaf_nodes sha chunks) = Some e" "e < length chunks"
    "leaf_nodes sha chunks ! e = leaf_hash sha c"
    using chunk_index [OF assms(2)] by blast
  note p = proof_ref_climbs [OF assms(1) leaf_nodes_64 [OF assms(1), of chunks], of e]
  have l: "length (leaf_hash sha c) = 64" using leaf_hash_eq [OF assms(1)] by blast
  show "list_all (\<lambda>a. length a = 65) (chunk_proof sha chunks c)" "positions_ok (map step_of (chunk_proof sha chunks c))"
    using p e l by (auto simp: chunk_proof_def positions_ok_def step_of_snoc)
  show "chunk_proof sha chunks c \<noteq> []"
    using proof_ref_nonempty [of "leaf_nodes sha chunks" e sha] e by (auto simp: chunk_proof_def)
  show "climb sha (map step_of (chunk_proof sha chunks c)) (leaf_hash sha c) = root_ref sha (leaf_nodes sha chunks)"
    if "length chunks \<noteq> 1"
    using p e that by (simp add: chunk_proof_def)
qed

lemma getMerkleProof_chunk:
  assumes "sha_ok sha" "platform_ok env" "c \<in> set chunks"
  shows "getMerkleProof env sha (leaves_of sha chunks) (leaf_hash sha c) n =
    (let pf = concat (chunk_proof sha chunks c); k = (case n of None \<Rightarrow> 0 | Some k \<Rightarrow> k)
     in if k \<noteq> 0 \<and> (length chunks = 1 \<or> k \<ge> length pf) then fixed_proof env k pf else Inr pf)"
proof -
  have l: "length (leaf_hash sha c) = 64" using leaf_hash_eq [OF assms(1)] by blast
  note nd = leaves_of_nodes [OF assms(1), of chunks]
  note ok = chunk_proof_ok [OF assms(1,3)]
  have ne: "length chunks \<noteq> 0" using assms(3) by auto
  show ?thesis
  proof (cases "length chunks = 1")
    case True
    have "set_checked (zeros ARTIFACT_LEN) 0 (leaf_hash sha c) = Inr (leaf_hash sha c @ [0])"
      using l by (simp add: set_checked_def set_at_start const_defs) (simp add: zeros_def)
    with True show ?thesis using nd by (simp add: getMerkleProof_def const_defs chunk_proof_def Let_def)
  next
    case False
    obtain e where e: "find_index (\<lambda>x. x = leaf_hash sha c) (leaf_nodes sha chunks) = Some e" "e < length chunks"
      using chunk_index [OF assms(3)] by blast
    obtain e' ys where "proof_loop sha (length chunks) (e, [], leaf_nodes sha chunks) =
        Some (e', proof_ref sha (leaf_nodes sha chunks) e, ys)"
      using proof_loop_ref [OF assms(1) e(2), of "leaf_nodes sha chunks" "[]"] by auto
    then have "c_get_merkle_proof sha (leaf_nodes sha chunks) (leaf_hash sha c) = Inr (concat (chunk_proof sha chunks c))"
      using e False by (simp add: c_get_merkle_proof_def chunk_proof_def)
    moreover have "alloc_set env HASH_LEN (leaf_hash sha c) = Inr (leaf_hash sha c)"
      using l assms(2) by (simp add: alloc_set_def set_checked_def platform_ok_def set_at_def const_defs)
    moreover have "length (concat (chunk_proof sha chunks c)) > 0" using ok(1,3) length_concat_65 [OF ok(1)] by simp
    ultimately show ?thesis using nd ne False by (simp add: getMerkleProof_def const_defs Let_def)
  qed
qed

section \<open>Soundness\<close>

text \<open>The tree a root stands for, so that a verified path can be followed down from the root.\<close>

datatype mtree = MLeaf bytes | MNode mtree mtree

fun tree_value :: "sha512 \<Rightarrow> mtree \<Rightarrow> bytes" where
  "tree_value sha (MLeaf c) = leaf_hash sha c"
| "tree_value sha (MNode l r) = parent sha (tree_value sha l) (tree_value sha r)"

fun tree_chunks :: "mtree \<Rightarrow> bytes list" where
  "tree_chunks (MLeaf c) = [c]"
| "tree_chunks (MNode l r) = tree_chunks l @ tree_chunks r"

fun tree_hashed :: "sha512 \<Rightarrow> mtree \<Rightarrow> bytes set" where
  "tree_hashed sha (MLeaf c) = {MERKLE_LEAF_DOMAIN # c}"
| "tree_hashed sha (MNode l r) =
     insert (NODE_DOMAIN # tree_value sha l @ tree_value sha r) (tree_hashed sha l \<union> tree_hashed sha r)"

fun forest_level :: "mtree list \<Rightarrow> mtree list" where
  "forest_level (x # y # ts) = MNode x y # forest_level ts"
| "forest_level ts = ts"

text \<open>What is hashed to build the tree over given chunks, and to verify a proof for an item.\<close>

fun level_inputs :: "bytes list \<Rightarrow> bytes list" where
  "level_inputs (x # y # xs) = (NODE_DOMAIN # x @ y) # level_inputs xs"
| "level_inputs xs = []"

function node_inputs :: "sha512 \<Rightarrow> bytes list \<Rightarrow> bytes list" where
  "node_inputs sha xs = (if length xs > 1 then level_inputs xs @ node_inputs sha (level sha xs) else [])"
  by pat_completeness auto
termination by (relation "measure (length \<circ> snd)") auto

declare node_inputs.simps [simp del]

definition tree_inputs :: "sha512 \<Rightarrow> bytes list \<Rightarrow> bytes list" where
  "tree_inputs sha chunks = map (\<lambda>c. MERKLE_LEAF_DOMAIN # c) chunks @ node_inputs sha (leaf_nodes sha chunks)"

fun climb_inputs :: "sha512 \<Rightarrow> (nat \<times> bytes) list \<Rightarrow> bytes \<Rightarrow> bytes list" where
  "climb_inputs sha [] h = []"
| "climb_inputs sha ((p, a) # as) h =
     (NODE_DOMAIN # (if p = 0 then a @ h else h @ a)) #
     climb_inputs sha as (if p = 0 then parent sha a h else parent sha h a)"

definition verify_inputs :: "sha512 \<Rightarrow> bytes \<Rightarrow> bytes \<Rightarrow> bytes list" where
  "verify_inputs sha item pf = (MERKLE_LEAF_DOMAIN # item) # climb_inputs sha (steps_of pf) (leaf_hash sha item)"

lemma climb_inputs_append:
  "climb_inputs sha (xs @ ys) h = climb_inputs sha xs h @ climb_inputs sha ys (climb sha xs h)"
  by (induction sha xs h rule: climb_inputs.induct) simp_all

lemma forest_values: "map (tree_value sha) (forest_level ts) = level sha (map (tree_value sha) ts)"
  by (induction ts rule: forest_level.induct) simp_all

lemma forest_chunks: "concat (map tree_chunks (forest_level ts)) = concat (map tree_chunks ts)"
  by (induction ts rule: forest_level.induct) simp_all

lemma forest_hashed:
  "(\<Union>t \<in> set (forest_level ts). tree_hashed sha t) =
     (\<Union>t \<in> set ts. tree_hashed sha t) \<union> set (level_inputs (map (tree_value sha) ts))"
  by (induction ts rule: forest_level.induct) auto

lemma forest_root:
  assumes "ts \<noteq> []"
  shows "\<exists>t. tree_value sha t = root_ref sha (map (tree_value sha) ts) \<and> tree_chunks t = concat (map tree_chunks ts) \<and>
    tree_hashed sha t = (\<Union>t \<in> set ts. tree_hashed sha t) \<union> set (node_inputs sha (map (tree_value sha) ts))"
  using assms
proof (induction "length ts" arbitrary: ts rule: less_induct)
  case less
  show ?case
  proof (cases "length ts > 1")
    case True
    have len: "length (forest_level ts) = (length ts + 1) div 2"
      using length_level [of sha "map (tree_value sha) ts"] forest_values [of sha ts] by (metis length_map)
    obtain t where "tree_value sha t = root_ref sha (map (tree_value sha) (forest_level ts))"
      "tree_chunks t = concat (map tree_chunks (forest_level ts))"
      "tree_hashed sha t = (\<Union>t \<in> set (forest_level ts). tree_hashed sha t) \<union> set (node_inputs sha (map (tree_value sha) (forest_level ts)))"
      using less.hyps [of "forest_level ts"] True len by fastforce
    then show ?thesis
      using True forest_chunks [of ts] forest_hashed [of sha ts]
      by (intro exI [of _ t]) (simp add: forest_values root_ref.simps [of sha "map _ ts"] node_inputs.simps [of sha "map _ ts"] Un_assoc)
  next
    case False
    with less.prems obtain t where "ts = [t]" by (cases ts) auto
    then show ?thesis by (intro exI [of _ t]) (simp add: root_ref.simps node_inputs.simps)
  qed
qed

definition collides :: "sha512 \<Rightarrow> bytes set \<Rightarrow> bytes set \<Rightarrow> bool" where
  "collides sha X Y \<longleftrightarrow> (\<exists>x \<in> X. \<exists>y \<in> Y. x \<noteq> y \<and> sha x = sha y)"

lemma collidesI: "x \<in> X \<Longrightarrow> y \<in> Y \<Longrightarrow> sha x = sha y \<Longrightarrow> x = y \<or> collides sha X Y"
  by (auto simp: collides_def)

lemma collides_mono: "collides sha X Y \<Longrightarrow> X \<subseteq> X' \<Longrightarrow> Y \<subseteq> Y' \<Longrightarrow> collides sha X' Y'"
  by (auto simp: collides_def)

lemma sha_leaf: "sha_ok sha \<Longrightarrow> sha (MERKLE_LEAF_DOMAIN # c) = Some (leaf_hash sha c)"
  by (auto simp: sha_ok_def leaf_hash_def) (metis option.sel)

lemma sha_parent: "sha_ok sha \<Longrightarrow> sha (NODE_DOMAIN # x @ y) = Some (parent sha x y)"
  using hash_node_parent by (simp add: hash_node_def)

lemma domains_differ [simp]: "MERKLE_LEAF_DOMAIN \<noteq> NODE_DOMAIN" "NODE_DOMAIN \<noteq> MERKLE_LEAF_DOMAIN"
  by (simp_all add: MERKLE_LEAF_DOMAIN_def NODE_DOMAIN_def)

lemma length_tree_value: "sha_ok sha \<Longrightarrow> length (tree_value sha t) = 64"
  using leaf_hash_eq length_parent by (cases t) auto

lemma length_climb: "sha_ok sha \<Longrightarrow> length h = 64 \<Longrightarrow> length (climb sha st h) = 64"
  by (induction sha st h rule: climb.induct) (simp_all add: length_parent)

lemma climb_sound:
  assumes ok: "sha_ok sha" and "list_all (\<lambda>(p, a). length a = 64) st"
    and "climb sha st (leaf_hash sha item) = tree_value sha t"
  shows "item \<in> set (tree_chunks t) \<or>
    collides sha (tree_hashed sha t) (insert (MERKLE_LEAF_DOMAIN # item) (set (climb_inputs sha st (leaf_hash sha item))))"
  using assms(2-)
proof (induction st arbitrary: t rule: rev_induct)
  case Nil
  show ?case
  proof (cases t)
    case (MLeaf c)
    with Nil have "sha (MERKLE_LEAF_DOMAIN # c) = sha (MERKLE_LEAF_DOMAIN # item)" by (simp add: sha_leaf [OF ok])
    from collidesI [where sha = sha, OF _ _ this] MLeaf show ?thesis by auto
  next
    case (MNode l r)
    with Nil have "sha (NODE_DOMAIN # tree_value sha l @ tree_value sha r) = sha (MERKLE_LEAF_DOMAIN # item)"
      by (simp add: sha_leaf [OF ok] sha_parent [OF ok])
    from collidesI [where sha = sha, OF _ _ this, of "tree_hashed sha t"] MNode show ?thesis by auto
  qed
next
  case (snoc s st)
  obtain p a where s: "s = (p, a)" by (cases s)
  let ?h = "climb sha st (leaf_hash sha item)"
  let ?y = "NODE_DOMAIN # (if p = 0 then a @ ?h else ?h @ a)"
  let ?Y = "insert (MERKLE_LEAF_DOMAIN # item) (set (climb_inputs sha (st @ [s]) (leaf_hash sha item)))"
  have y: "?y \<in> ?Y" "sha ?y = Some (tree_value sha t)"
    using snoc.prems(2) by (auto simp: s climb_inputs_append climb_append sha_parent [OF ok])
  have len: "length a = 64" "length ?h = 64"
    using snoc.prems(1) length_climb [OF ok] leaf_hash_eq [OF ok] by (auto simp: s)
  show ?case
  proof (cases t)
    case (MLeaf c)
    then have "sha (MERKLE_LEAF_DOMAIN # c) = sha ?y" using y(2) by (simp add: sha_leaf [OF ok])
    from collidesI [where sha = sha, OF _ y(1) this, of "tree_hashed sha t"] MLeaf show ?thesis by auto
  next
    case (MNode l r)
    let ?x = "NODE_DOMAIN # tree_value sha l @ tree_value sha r"
    have "sha ?x = sha ?y" using MNode y(2) by (simp add: sha_parent [OF ok])
    from collidesI [where sha = sha, OF _ y(1) this, of "tree_hashed sha t"] MNode
    consider "?x = ?y" | "collides sha (tree_hashed sha t) ?Y" by auto
    then show ?thesis
    proof cases
      case 1
      then have "?h = tree_value sha l \<or> ?h = tree_value sha r"
        using len length_tree_value [OF ok, of l] by (auto split: if_splits)
      then obtain u where u: "?h = tree_value sha u" "u = l \<or> u = r" by blast
      have "list_all (\<lambda>(p, a). length a = 64) st" using snoc.prems(1) by simp
      from snoc.IH [OF this u(1)]
      consider "item \<in> set (tree_chunks u)" |
        "collides sha (tree_hashed sha u) (insert (MERKLE_LEAF_DOMAIN # item) (set (climb_inputs sha st (leaf_hash sha item))))"
        by blast
      then show ?thesis
      proof cases
        case 2
        then have "collides sha (tree_hashed sha t) ?Y"
          by (rule collides_mono) (use u(2) MNode in \<open>auto simp: climb_inputs_append\<close>)
        then show ?thesis by blast
      qed (use u(2) MNode in auto)
    qed simp
  qed
qed

lemma verify_steps:
  assumes "sha_ok sha" "platform_ok env" "length root = 64" "length pf mod 65 = 0"
  shows "verifyMerkleProof env sha item root pf =
    (if length pf = 65 \<and> root = leaf_hash sha item then Inr True
     else if positions_ok (steps_of pf) then Inr (climb sha (steps_of pf) (leaf_hash sha item) = root)
     else Inl BadPosition)"
proof -
  have a: "alloc_set env HASH_LEN root = Inr root"
    using assms(2,3) by (simp add: alloc_set_def set_checked_def platform_ok_def set_at_def const_defs)
  have one: "length pf div 65 = 1 \<longleftrightarrow> length pf = 65" using assms(4) by auto
  show ?thesis
    using a one leaf_hash_eq [OF assms(1), of item] assms(4)
    by (auto simp: verifyMerkleProof_def Let_def c_verify_merkle_proof_def verify_loop_climb [OF assms(1)] steps_of_def const_defs)
qed

lemma steps_of_artifacts: "length pf mod 65 = 0 \<Longrightarrow> list_all (\<lambda>(p, a). length a = 64) (steps_of pf)"
  by (auto simp: steps_of_def list_all_iff artifact_at_def const_defs sub_def)

lemma root_ref_length: "sha_ok sha \<Longrightarrow> chunks \<noteq> [] \<Longrightarrow> length (root_ref sha (leaf_nodes sha chunks)) = 64"
proof -
  assume ok: "sha_ok sha" and "chunks \<noteq> []"
  then obtain t where "tree_value sha t = root_ref sha (map (tree_value sha) (map MLeaf chunks))"
    using forest_root [of "map MLeaf chunks" sha] by blast
  then show ?thesis using length_tree_value [OF ok, of t] by (simp add: comp_def)
qed

text \<open>A module for the witnesses: 64 bytes from the length and the sum of the input.\<close>

definition demo_sha :: sha512 where
  "demo_sha x = Some (of_nat (length x) # replicate 63 (sum_list x))"

definition demo_platform :: platform where
  "demo_platform = \<lparr>getRandomValues = (\<lambda>n. replicate n 0xaa), fresh_memory = zeros\<rparr>"

lemma demo_merkle_ok: "sha_ok demo_sha" "platform_ok demo_platform"
  by (simp_all add: sha_ok_def demo_sha_def platform_ok_def demo_platform_def)

lemma chunk_verifies:
  assumes "sha_ok sha" "platform_ok env" "c \<in> set chunks"
  shows "\<exists>root pf. getMerkleRoot sha (leaves_of sha chunks) = Inr root \<and>
    getMerkleProof env sha (leaves_of sha chunks) (leaf_hash sha c) None = Inr pf \<and>
    verifyMerkleProof env sha c root pf = Inr True"
proof -
  have ne: "chunks \<noteq> []" using assms(3) by auto
  let ?as = "chunk_proof sha chunks c" and ?root = "root_ref sha (leaf_nodes sha chunks)"
  note ok = chunk_proof_ok [OF assms(1,3)]
  have st: "steps_of (concat ?as) = map step_of ?as" "length (concat ?as) mod 65 = 0"
    using steps_of_concat [OF ok(1)] length_concat_65 [OF ok(1)] by simp_all
  note v = verify_steps [OF assms(1,2) root_ref_length [OF assms(1) ne] st(2), of c]
  have "verifyMerkleProof env sha c ?root (concat ?as) = Inr True"
  proof (cases "length chunks = 1")
    case True
    then obtain d where "chunks = [d]" by (metis One_nat_def length_0_conv length_Suc_conv)
    with assms(3) have "?root = leaf_hash sha c" "length (concat ?as) = 65"
      using leaf_hash_eq [OF assms(1)] by (simp_all add: root_ref.simps chunk_proof_def)
    with v show ?thesis by simp
  next
    case False
    with v ok(2) ok(4) [OF False] st(1) show ?thesis by simp
  qed
  then show ?thesis
    using getMerkleRoot_ref [OF assms(1) ne] getMerkleProof_chunk [OF assms, of None] by (simp add: Let_def)
qed

text \<open>Recomputing the root from a proof, unlike verification, takes a proof of one artifact that equals the
  element for a single-leaf proof. For two equal chunks that is wrong: it returns the leaf.\<close>

lemma equal_chunks_wrong_root:
  "getMerkleRoot demo_sha (leaves_of demo_sha [[7], [7]]) \<noteq> getMerkleRootFromProof demo_sha [7]
     (the (ok_of (getMerkleProof demo_platform demo_sha (leaves_of demo_sha [[7], [7]]) (leaf_hash demo_sha [7]) None)))"
  by code_simp

lemma proof_field_exact:
  assumes "sha_ok sha" "platform_ok env" "c \<in> set chunks" "length chunks \<le> 2 ^ 48"
  shows "length (chunk_proof sha chunks c) \<le> 48"
    "getMerkleProof env sha (leaves_of sha chunks) (leaf_hash sha c) None = Inr (concat (chunk_proof sha chunks c))"
    "getMerkleProof env sha (leaves_of sha chunks) (leaf_hash sha c) (Some PROOF_LEN) =
      Inr (be_enc 4 (length (concat (chunk_proof sha chunks c))) @ concat (chunk_proof sha chunks c) @
           drop (4 + length (concat (chunk_proof sha chunks c))) (getRandomValues env 3124))"
proof -
  let ?as = "chunk_proof sha chunks c"
  let ?pf = "concat ?as"
  show d: "length ?as \<le> 48"
  proof (cases "length chunks = 1")
    case False
    then show ?thesis using proof_ref_depth [of "leaf_nodes sha chunks" 48] assms(4) by (simp add: chunk_proof_def)
  qed (simp add: chunk_proof_def)
  then have len: "length ?pf \<le> 3120" using length_concat_65 [OF chunk_proof_ok(1) [OF assms(1,3)]] by simp
  have "fixed_proof env 3124 ?pf = Inr (be_enc 4 (length ?pf) @ ?pf @ drop (4 + length ?pf) (getRandomValues env 3124))"
    using len assms(2) by (simp add: fixed_proof_def set_checked_def platform_ok_def set_at_def add.commute)
  then show "getMerkleProof env sha (leaves_of sha chunks) (leaf_hash sha c) None = Inr ?pf"
    "getMerkleProof env sha (leaves_of sha chunks) (leaf_hash sha c) (Some PROOF_LEN) =
      Inr (be_enc 4 (length ?pf) @ ?pf @ drop (4 + length ?pf) (getRandomValues env 3124))"
    using getMerkleProof_chunk [OF assms(1-3)] len by (simp_all add: Let_def wire_geometry)
qed

section \<open>Properties\<close>

text \<open>C33: every chunk of a message can be proved to its receiver. For any non-empty list of chunks the sender
  obtains a root and, for each chunk, a proof, and the receiver's verification of that chunk against
  that root and proof succeeds, whatever the shape of the tree.\<close>

theorem chunk_proof_verifies:
  assumes "sha_ok sha" "platform_ok env" "c \<in> set chunks"
  shows "\<exists>root pf. getMerkleRoot sha (leaves_of sha chunks) = Inr root \<and>
    getMerkleProof env sha (leaves_of sha chunks) (leaf_hash sha c) None = Inr pf \<and>
    verifyMerkleProof env sha c root pf = Inr True"
  by (rule chunk_verifies [OF assms])

theorem chunk_proof_verifies_witness:
  "\<exists>root pf. getMerkleRoot demo_sha (leaves_of demo_sha [[1], [2], [3]]) = Inr root \<and>
    verifyMerkleProof demo_platform demo_sha [3] root pf = Inr True"
  using chunk_proof_verifies [OF demo_merkle_ok, of "[3]" "[[1], [2], [3]]"] by auto

text \<open>C35: a chunk that verifies against the root of a message is one of the message's chunks, or the
  verification itself exhibits a SHA-512 collision: an input hashed while checking the proof and a
  different input hashed while building the tree have the same hash. In particular an inner node
  cannot be passed off as a chunk, nor a chunk of another message as one of this.\<close>

theorem verified_chunk_is_genuine:
  assumes "sha_ok sha" "platform_ok env" "chunks \<noteq> []"
    and "getMerkleRoot sha (leaves_of sha chunks) = Inr root" "verifyMerkleProof env sha item root pf = Inr True"
  shows "item \<in> set chunks \<or>
    (\<exists>x \<in> set (tree_inputs sha chunks). \<exists>y \<in> set (verify_inputs sha item pf). x \<noteq> y \<and> sha x = sha y)"
proof -
  obtain t where t: "tree_value sha t = root" "tree_chunks t = chunks" "tree_hashed sha t = set (tree_inputs sha chunks)"
  proof -
    have "(\<Union>t \<in> set (map MLeaf chunks). tree_hashed sha t) = set (map (\<lambda>c. MERKLE_LEAF_DOMAIN # c) chunks)" by auto
    then show ?thesis using that forest_root [of "map MLeaf chunks" sha] getMerkleRoot_ref [OF assms(1,3)] assms(3,4)
      by (force simp: comp_def tree_inputs_def)
  qed
  have m: "length pf mod 65 = 0" using assms(5) by (auto simp: verifyMerkleProof_def const_defs split: if_splits)
  have "length root = 64" using t(1) length_tree_value [OF assms(1)] by metis
  note v = verify_steps [OF assms(1,2) this m, of item]
  have "root = leaf_hash sha item \<or> climb sha (steps_of pf) (leaf_hash sha item) = root"
    using v assms(5) by (auto split: if_splits)
  then have "item \<in> set chunks \<or> collides sha (set (tree_inputs sha chunks)) (set (verify_inputs sha item pf))"
  proof
    assume "root = leaf_hash sha item"
    then have "item \<in> set chunks \<or> collides sha (set (tree_inputs sha chunks)) {MERKLE_LEAF_DOMAIN # item}"
      using climb_sound [OF assms(1), of "[]" item t] t by simp
    then show ?thesis using collides_mono [of sha _ "{MERKLE_LEAF_DOMAIN # item}"] by (auto simp: verify_inputs_def)
  next
    assume "climb sha (steps_of pf) (leaf_hash sha item) = root"
    then show ?thesis using climb_sound [OF assms(1) steps_of_artifacts [OF m], of item t] t
      by (simp add: verify_inputs_def)
  qed
  then show ?thesis by (simp add: collides_def)
qed

theorem verified_chunk_is_genuine_witness:
  "\<exists>root pf. getMerkleRoot demo_sha (leaves_of demo_sha [[1], [2], [3]]) = Inr root \<and>
    verifyMerkleProof demo_platform demo_sha [3] root pf = Inr True \<and>
    ([3] \<in> set [[1], [2], [3]] \<or> collides demo_sha (set (tree_inputs demo_sha [[1], [2], [3]])) (set (verify_inputs demo_sha [3] pf)))"
proof -
  let ?cs = "[[1], [2], [3]] :: bytes list"
  obtain root pf where "getMerkleRoot demo_sha (leaves_of demo_sha ?cs) = Inr root"
    "verifyMerkleProof demo_platform demo_sha [3] root pf = Inr True"
    using chunk_verifies [OF demo_merkle_ok, of "[3]" ?cs] by auto
  with verified_chunk_is_genuine [OF demo_merkle_ok _ this] show ?thesis by (auto simp: collides_def)
qed

text \<open>The proof field of a chunk is always large enough. For any tree of up to \<open>2 ^ 48\<close> chunks the proof is
  written into exactly \<^verbatim>\<open>PROOF_LEN\<close> bytes, and the receiver recovers it from its length prefix.\<close>

theorem proof_field_fits:
  assumes "sha_ok sha" "platform_ok env" "c \<in> set chunks" "length chunks \<le> 2 ^ 48"
  shows "\<exists>pf fixed. getMerkleProof env sha (leaves_of sha chunks) (leaf_hash sha c) None = Inr pf \<and>
    getMerkleProof env sha (leaves_of sha chunks) (leaf_hash sha c) (Some PROOF_LEN) = Inr fixed \<and>
    length fixed = PROOF_LEN \<and> sub fixed 4 (4 + be_dec (sub fixed 0 4)) = pf"
proof -
  let ?pf = "concat (chunk_proof sha chunks c)"
  note e = proof_field_exact [OF assms]
  have len: "length ?pf \<le> 3120" using e(1) length_concat_65 [OF chunk_proof_ok(1) [OF assms(1,3)]] by simp
  have "be_dec (be_enc 4 (length ?pf)) = length ?pf" using len by (intro be_dec_enc) simp
  then show ?thesis
    using e(2,3) len assms(2) by (simp add: wire_geometry sub_def platform_ok_def)
qed

theorem proof_field_fits_witness:
  "\<exists>fixed. getMerkleProof demo_platform demo_sha (leaves_of demo_sha [[1], [2], [3]]) (leaf_hash demo_sha [2]) (Some PROOF_LEN) = Inr fixed \<and>
    length fixed = PROOF_LEN"
  using proof_field_fits [OF demo_merkle_ok, of "[2]" "[[1], [2], [3]]"] by auto

text \<open>C34: the compiled loops, which overwrite the list of nodes in place level by level, compute the textbook tree: for
  any chunks the root is that of the recursive definition \<open>root_ref\<close>, in which an odd last node moves up unchanged,
  and the proof of a chunk lists the siblings on the path of its leaf, \<open>proof_ref\<close>, each with its side.\<close>

theorem merkle_loops_compute_tree:
  assumes "sha_ok sha" "platform_ok env" "1 < length chunks" "c \<in> set chunks"
  shows "getMerkleRoot sha (leaves_of sha chunks) = Inr (root_ref sha (leaf_nodes sha chunks)) \<and>
    (\<exists>e < length chunks. leaf_nodes sha chunks ! e = leaf_hash sha c \<and>
       getMerkleProof env sha (leaves_of sha chunks) (leaf_hash sha c) None = Inr (concat (proof_ref sha (leaf_nodes sha chunks) e)))"
proof
  show "getMerkleRoot sha (leaves_of sha chunks) = Inr (root_ref sha (leaf_nodes sha chunks))"
    using getMerkleRoot_ref [OF assms(1), of chunks] assms(3) by fastforce
  obtain e where e: "find_index (\<lambda>x. x = leaf_hash sha c) (leaf_nodes sha chunks) = Some e" "e < length chunks"
      "leaf_nodes sha chunks ! e = leaf_hash sha c"
    using chunk_index [OF assms(4)] by blast
  then show "\<exists>e < length chunks. leaf_nodes sha chunks ! e = leaf_hash sha c \<and>
       getMerkleProof env sha (leaves_of sha chunks) (leaf_hash sha c) None = Inr (concat (proof_ref sha (leaf_nodes sha chunks) e))"
    using getMerkleProof_chunk [OF assms(1,2,4), of None] assms(3) by (auto simp: chunk_proof_def)
qed

theorem merkle_loops_compute_tree_witness:
  "getMerkleRoot demo_sha (leaves_of demo_sha [[1], [2], [3]]) = Inr (root_ref demo_sha (leaf_nodes demo_sha [[1], [2], [3]]))"
  using merkle_loops_compute_tree [OF demo_merkle_ok, of "[[1], [2], [3]]" "[3]"] by simp

end
