(* ===== verification/Receipts.thy ===== *)
theory Receipts
  imports Wire_Constants
begin

text \<open>
  Chunk receipt tokens (\<^verbatim>\<open>utils/receiptToken.ts\<close>). \<^verbatim>\<open>crypto.subtle.digest("SHA-512", _)\<close> is the parameter
  \<open>digest\<close>. Shown: a token names one chunk of one message, up to SHA-512 collisions the theorem
  exhibits.
\<close>

definition CHUNK_RECEIPT_DOMAIN :: bytes where
  "CHUNK_RECEIPT_DOMAIN = map of_char ''p2party/protocol-v3/chunk-receipt/v1'' @ [0]"

datatype receipt_error = ReceiptRootLength | ReceiptLeafLength | ReceiptIndex

definition receipt_input :: "bytes \<Rightarrow> int \<Rightarrow> bytes \<Rightarrow> bytes" where
  "receipt_input merkleRoot chunkIndex leafHash =
     (let input = zeros (length CHUNK_RECEIPT_DOMAIN + length merkleRoot + 8 + length leafHash);
          offset = 0;
          input = set_at input offset CHUNK_RECEIPT_DOMAIN;
          offset = offset + length CHUNK_RECEIPT_DOMAIN;
          input = set_at input offset merkleRoot;
          offset = offset + length merkleRoot;
          input = set_at input offset (be_enc 8 (nat chunkIndex));
          offset = offset + 8
      in set_at input offset leafHash)"

definition createChunkReceiptToken :: "(bytes \<Rightarrow> bytes) \<Rightarrow> bytes \<Rightarrow> int \<Rightarrow> bytes \<Rightarrow> receipt_error + bytes" where
  "createChunkReceiptToken digest merkleRoot chunkIndex leafHash =
     rbind (ensure (length merkleRoot = crypto_hash_sha512_BYTES) ReceiptRootLength) (\<lambda>_.
     rbind (ensure (length leafHash = crypto_hash_sha512_BYTES) ReceiptLeafLength) (\<lambda>_.
     rbind (ensure (is_safe_integer chunkIndex \<and> \<not> chunkIndex < 0) ReceiptIndex) (\<lambda>_.
     Inr (digest (receipt_input merkleRoot chunkIndex leafHash)))))"

lemma receipt_input_layout:
  "receipt_input r i h = CHUNK_RECEIPT_DOMAIN @ r @ be_enc 8 (nat i) @ h"
proof -
  define d where "d = CHUNK_RECEIPT_DOMAIN"
  have "set_at (zeros (length d + length r + 8 + length h)) 0 d = d @ zeros (length r + 8 + length h)"
    by (simp add: wire_simps add.assoc)
  then show ?thesis unfolding receipt_input_def Let_def d_def [symmetric]
    by (simp add: wire_simps del: be_enc.simps)
qed

text \<open>C39: Two chunks get the same receipt token only if they are the same leaf at the same position of the
  same message, or the two token inputs collide under SHA-512.\<close>

theorem receipt_token_binds:
  assumes "createChunkReceiptToken digest r i h = Inr token" "createChunkReceiptToken digest r' i' h' = Inr token"
  shows "(r = r' \<and> i = i' \<and> h = h') \<or>
    (receipt_input r i h \<noteq> receipt_input r' i' h' \<and> digest (receipt_input r i h) = digest (receipt_input r' i' h'))"
proof (cases "receipt_input r i h = receipt_input r' i' h'")
  case True
  have len: "length r = length r'" "0 \<le> i" "0 \<le> i'" "i \<le> MAX_SAFE_INTEGER" "i' \<le> MAX_SAFE_INTEGER"
    using assms by (auto simp: createChunkReceiptToken_def result_simps is_safe_integer_def)
  have "r @ be_enc 8 (nat i) @ h = r' @ be_enc 8 (nat i') @ h'"
    using True unfolding receipt_input_layout by (simp only: same_append_eq)
  then have eq: "r = r'" "be_enc 8 (nat i) = be_enc 8 (nat i')" "h = h'"
    using len(1) by (simp_all add: append_eq_append_conv length_be_enc del: be_enc.simps)
  have dec: "be_dec (be_enc 8 (nat k)) = nat k" if "0 \<le> k" "k \<le> MAX_SAFE_INTEGER" for k
    using that by (intro be_dec_enc_u64) (simp_all add: MAX_SAFE_INTEGER_def)
  have "nat i = nat i'" using dec [OF len(2,4)] dec [OF len(3,5)] unfolding eq(2) by (rule box_equals [rotated]) (rule refl)
  then have "i = i'" using len(2,3) by (simp add: eq_nat_nat_iff)
  then show ?thesis using eq(1,3) by simp
next
  case False
  then show ?thesis using assms by (auto simp: createChunkReceiptToken_def result_simps)
qed

theorem receipt_token_binds_witness:
  "\<exists>token. createChunkReceiptToken rev (zeros 64) 7 (zeros 64) = Inr token \<and>
     createChunkReceiptToken rev (zeros 64) 8 (zeros 64) \<noteq> Inr token"
proof -
  have ok: "\<exists>token. createChunkReceiptToken rev (zeros 64) i (zeros 64) = Inr token" if "i \<in> {7, 8}" for i
    using that by (auto simp: createChunkReceiptToken_def const_defs is_safe_integer_def)
  then obtain token where t: "createChunkReceiptToken rev (zeros 64) 7 (zeros 64) = Inr token" by blast
  have "createChunkReceiptToken rev (zeros 64) 8 (zeros 64) \<noteq> Inr token"
    using receipt_token_binds [OF t, of "zeros 64" 8 "zeros 64"] by auto
  with t show ?thesis by blast
qed

end
