(* ===== verification/Reconcile.thy ===== *)
theory Reconcile
  imports Prelude
begin

text \<open>
  The have-sets of \<^verbatim>\<open>handlers/reconcile.ts\<close>: which chunks of which transfer each peer has receipted, in one
  insertion-ordered map whose keys join room, peer and transfer with NUL characters. It is shown to
  refine a map on triples, on which the acknowledgements of different transfers cannot mix. The
  polling loop \<^verbatim>\<open>waitForCompletion\<close> only reads it and is not modelled.
\<close>

record edge_state =
  acked :: "int list"
  edge_complete :: bool

type_synonym edges = "(string \<times> edge_state) list"

definition NUL :: char where "NUL = CHR 0x00"

definition key :: "string \<Rightarrow> string \<Rightarrow> string \<Rightarrow> string" where
  "key roomId peer transfer = roomId @ [NUL] @ peer @ [NUL] @ transfer"

definition empty_edge :: edge_state where
  "empty_edge = \<lparr>acked = [], edge_complete = False\<rparr>"

text \<open>\<^verbatim>\<open>edge\<close> reads an entry and creates it when it is missing.\<close>

definition edge :: "string \<Rightarrow> string \<Rightarrow> string \<Rightarrow> edges \<Rightarrow> edge_state \<times> edges" where
  "edge r p t es =
     (case map_of es (key r p t) of
        Some e \<Rightarrow> (e, es)
      | None \<Rightarrow> (empty_edge, AList.update (key r p t) empty_edge es))"

definition markChunkAcked :: "string \<Rightarrow> string \<Rightarrow> string \<Rightarrow> int \<Rightarrow> edges \<Rightarrow> bool \<times> edges" where
  "markChunkAcked r p t i es =
     (let (e, es) = edge r p t es;
          e' = e\<lparr>acked := (if i \<in> set (acked e) then acked e else acked e @ [i])\<rparr>
      in (length (acked e') \<noteq> length (acked e), AList.update (key r p t) e' es))"

definition getAckedChunks :: "string \<Rightarrow> string \<Rightarrow> string \<Rightarrow> edges \<Rightarrow> int list \<times> edges" where
  "getAckedChunks r p t es = (let (e, es) = edge r p t es in (acked e, es))"

definition getAckedChunkCount :: "string \<Rightarrow> string \<Rightarrow> string \<Rightarrow> edges \<Rightarrow> nat \<times> edges" where
  "getAckedChunkCount r p t es = (let (e, es) = edge r p t es in (length (acked e), es))"

definition markTransferComplete :: "string \<Rightarrow> string \<Rightarrow> string \<Rightarrow> edges \<Rightarrow> bool \<times> edges" where
  "markTransferComplete r p t es =
     (let (e, es) = edge r p t es
      in if edge_complete e then (False, es)
         else (True, AList.update (key r p t) (e\<lparr>edge_complete := True\<rparr>) es))"

record peer_transfer_outcome =
  o_roomId :: string
  o_peerId :: string
  o_transferId :: string
  o_ackedChunks :: "int list"
  o_complete :: bool

definition getPeerTransferOutcome :: "string \<Rightarrow> string \<Rightarrow> string \<Rightarrow> edges \<Rightarrow> peer_transfer_outcome" where
  "getPeerTransferOutcome r p t es =
     \<lparr>o_roomId = r, o_peerId = p, o_transferId = t,
      o_ackedChunks = (case map_of es (key r p t) of None \<Rightarrow> [] | Some e \<Rightarrow> acked e),
      o_complete = (case map_of es (key r p t) of None \<Rightarrow> False | Some e \<Rightarrow> edge_complete e)\<rparr>"

definition isTransferComplete :: "string \<Rightarrow> string \<Rightarrow> string \<Rightarrow> edges \<Rightarrow> bool" where
  "isTransferComplete r p t es = (case map_of es (key r p t) of None \<Rightarrow> False | Some e \<Rightarrow> edge_complete e)"

record transfer_ack =
  a_peerId :: string
  a_ackedChunks :: nat
  a_complete :: bool

definition startsWith :: "string \<Rightarrow> string \<Rightarrow> bool" where
  "startsWith s p \<longleftrightarrow> take (length p) s = p"

definition endsWith :: "string \<Rightarrow> string \<Rightarrow> bool" where
  "endsWith s q \<longleftrightarrow> length q \<le> length s \<and> drop (length s - length q) s = q"

text \<open>\<^verbatim>\<open>slice(from, to)\<close> of a string is empty when \<^verbatim>\<open>to\<close> does not lie behind \<^verbatim>\<open>from\<close>.\<close>

definition getTransferAcks :: "string \<Rightarrow> string \<Rightarrow> edges \<Rightarrow> transfer_ack list" where
  "getTransferAcks r t es =
     (let prefix = r @ [NUL]; suffix = NUL # t
      in map (\<lambda>(k, e). \<lparr>a_peerId = take (length k - length suffix - length prefix) (drop (length prefix) k),
                      a_ackedChunks = length (acked e), a_complete = edge_complete e\<rparr>)
           (filter (\<lambda>(k, e). startsWith k prefix \<and> endsWith k suffix) es))"

definition clearTransfer :: "string \<Rightarrow> string \<Rightarrow> string \<Rightarrow> edges \<Rightarrow> edges" where
  "clearTransfer r p t es = AList.delete (key r p t) es"

section \<open>The operations and their specification\<close>

datatype reconcile_op =
    MarkAcked string string string int
  | ReadAcked string string string
  | MarkComplete string string string
  | ClearTransfer string string string

fun reconcile_step :: "reconcile_op \<Rightarrow> edges \<Rightarrow> edges" where
  "reconcile_step (MarkAcked r p t i) es = snd (markChunkAcked r p t i es)"
| "reconcile_step (ReadAcked r p t) es = snd (getAckedChunks r p t es)"
| "reconcile_step (MarkComplete r p t) es = snd (markTransferComplete r p t es)"
| "reconcile_step (ClearTransfer r p t) es = clearTransfer r p t es"

type_synonym ack_map = "string \<times> string \<times> string \<Rightarrow> int set \<times> bool"

fun ack_spec :: "reconcile_op \<Rightarrow> ack_map \<Rightarrow> ack_map" where
  "ack_spec (MarkAcked r p t i) m = m((r, p, t) := (insert i (fst (m (r, p, t))), snd (m (r, p, t))))"
| "ack_spec (ReadAcked r p t) m = m"
| "ack_spec (MarkComplete r p t) m = m((r, p, t) := (fst (m (r, p, t)), True))"
| "ack_spec (ClearTransfer r p t) m = m((r, p, t) := ({}, False))"

definition acks_of :: "edges \<Rightarrow> ack_map" where
  "acks_of es = (\<lambda>(r, p, t). case map_of es (key r p t) of None \<Rightarrow> ({}, False) | Some e \<Rightarrow> (set (acked e), edge_complete e))"

definition plain :: "string \<Rightarrow> bool" where
  "plain s \<longleftrightarrow> NUL \<notin> set s"

fun plain_op :: "reconcile_op \<Rightarrow> bool" where
  "plain_op (MarkAcked r p t i) = (plain r \<and> plain p \<and> plain t)"
| "plain_op (ReadAcked r p t) = (plain r \<and> plain p \<and> plain t)"
| "plain_op (MarkComplete r p t) = (plain r \<and> plain p \<and> plain t)"
| "plain_op (ClearTransfer r p t) = (plain r \<and> plain p \<and> plain t)"

lemma split_at_NUL: "plain x \<Longrightarrow> plain y \<Longrightarrow> x @ NUL # xs = y @ NUL # ys \<longleftrightarrow> x = y \<and> xs = ys"
proof (induction x arbitrary: y)
  case Nil
  then show ?case by (cases y) (auto simp: plain_def)
next
  case (Cons c cs)
  then show ?case by (cases y) (auto simp: plain_def)
qed

lemma key_eq_iff:
  "plain r \<Longrightarrow> plain p \<Longrightarrow> plain t \<Longrightarrow> plain r' \<Longrightarrow> plain p' \<Longrightarrow> plain t' \<Longrightarrow>
     key r p t = key r' p' t' \<longleftrightarrow> r = r' \<and> p = p' \<and> t = t'"
  by (simp add: key_def split_at_NUL)

text \<open>The invariant: keys are distinct and made of NUL-free parts, have-sets have no duplicates.\<close>

definition entry_ok :: "string \<times> edge_state \<Rightarrow> bool" where
  "entry_ok x \<longleftrightarrow> (\<exists>r p t. plain r \<and> plain p \<and> plain t \<and> fst x = key r p t) \<and> distinct (acked (snd x))"

definition edges_ok :: "edges \<Rightarrow> bool" where
  "edges_ok es \<longleftrightarrow> distinct (map fst es) \<and> list_all entry_ok es"

lemma edges_ok_update:
  assumes "edges_ok es" "plain r" "plain p" "plain t" "distinct (acked e)"
  shows "edges_ok (AList.update (key r p t) e es)"
proof -
  have "set (AList.update k e es) \<subseteq> insert (k, e) (set es)" for k
    by (induction es) auto
  moreover have "entry_ok (key r p t, e)" using assms by (auto simp: entry_ok_def)
  ultimately have "list_all entry_ok (AList.update (key r p t) e es)"
    using assms(1) unfolding edges_ok_def list_all_iff by blast
  with assms(1) show ?thesis by (simp add: edges_ok_def AList.distinct_update)
qed

lemma edges_ok_delete: "edges_ok es \<Longrightarrow> edges_ok (AList.delete k es)"
  by (auto simp: edges_ok_def list_all_iff AList.delete_eq intro: distinct_map_filter)

lemma edges_okD: "edges_ok es \<Longrightarrow> map_of es k = Some e \<Longrightarrow> distinct (acked e)"
  by (auto simp: edges_ok_def entry_ok_def list_all_iff dest!: map_of_SomeD)

lemmas reconcile_defs = markChunkAcked_def getAckedChunks_def getAckedChunkCount_def markTransferComplete_def
  clearTransfer_def edge_def empty_edge_def Let_def

lemma reconcile_step_ok:
  assumes "edges_ok es" "plain_op op"
  shows "edges_ok (reconcile_step op es)"
  using assms edges_okD [OF assms(1)]
  by (cases op) (auto simp: reconcile_defs edges_ok_update edges_ok_delete split: option.splits)

lemma update_lookup: "map_of (AList.update k v es) k' = (if k' = k then Some v else map_of es k')"
  by (simp add: AList.update_conv')

lemma reconcile_step_refines:
  assumes "plain_op op" "plain r" "plain p" "plain t"
  shows "acks_of (reconcile_step op es) (r, p, t) = ack_spec op (acks_of es) (r, p, t)"
proof (cases op)
  case (MarkAcked r' p' t' i)
  then show ?thesis using assms
    by (auto simp: reconcile_defs acks_of_def update_lookup key_eq_iff split: option.splits)
next
  case (ReadAcked r' p' t')
  then show ?thesis using assms
    by (auto simp: reconcile_defs acks_of_def update_lookup key_eq_iff split: option.splits)
next
  case (MarkComplete r' p' t')
  then show ?thesis using assms
    by (auto simp: reconcile_defs acks_of_def update_lookup key_eq_iff split: option.splits)
next
  case (ClearTransfer r' p' t')
  then show ?thesis using assms
    by (auto simp: reconcile_defs acks_of_def AList.delete_conv' key_eq_iff split: option.splits)
qed

lemma reconcile_run_ok: "edges_ok es \<Longrightarrow> list_all plain_op ops \<Longrightarrow> edges_ok (fold reconcile_step ops es)"
  by (induction ops arbitrary: es) (simp_all add: reconcile_step_ok)

lemma ack_spec_cong:
  "plain_op op \<Longrightarrow> (\<And>r p t. plain r \<Longrightarrow> plain p \<Longrightarrow> plain t \<Longrightarrow> m (r, p, t) = m' (r, p, t)) \<Longrightarrow>
     plain r \<Longrightarrow> plain p \<Longrightarrow> plain t \<Longrightarrow> ack_spec op m (r, p, t) = ack_spec op m' (r, p, t)"
  by (cases op) auto

lemma reconcile_run_refines:
  assumes "list_all plain_op ops" "plain r" "plain p" "plain t"
    and "\<And>r p t. plain r \<Longrightarrow> plain p \<Longrightarrow> plain t \<Longrightarrow> acks_of es (r, p, t) = m (r, p, t)"
  shows "acks_of (fold reconcile_step ops es) (r, p, t) = fold ack_spec ops m (r, p, t)"
  using assms(1,5)
proof (induction ops arbitrary: es m)
  case (Cons op ops)
  have "acks_of (reconcile_step op es) (r, p, t) = ack_spec op m (r, p, t)" if "plain r" "plain p" "plain t" for r p t
    using reconcile_step_refines [of op r p t es] ack_spec_cong [of op "acks_of es" m r p t] Cons.prems that by simp
  with Cons show ?case by simp
qed (use assms(2-4) in simp)

section \<open>Progress of a transfer\<close>

lemma key_matches:
  assumes "plain r" "plain t" "plain r'" "plain p'" "plain t'"
  shows "startsWith (key r' p' t') (r @ [NUL]) \<and> endsWith (key r' p' t') (NUL # t) \<longleftrightarrow> r' = r \<and> t' = t"
proof
  assume m: "startsWith (key r' p' t') (r @ [NUL]) \<and> endsWith (key r' p' t') (NUL # t)"
  have "key r' p' t' = (r @ [NUL]) @ drop (length (r @ [NUL])) (key r' p' t')"
    using m unfolding startsWith_def by (metis append_take_drop_id)
  then have "r' = r" using assms by (simp add: key_def split_at_NUL)
  moreover have "t' = t"
  proof -
    let ?k = "key r' p' t'"
    have "?k = take (length ?k - length (NUL # t)) ?k @ (NUL # t)"
      using m unfolding endsWith_def by (metis append_take_drop_id)
    then have "rev ?k = rev t @ NUL # rev (take (length ?k - length (NUL # t)) ?k)" by (metis append_assoc rev.simps(2) rev_append append_Cons append_Nil)
    moreover have "rev ?k = rev t' @ NUL # rev p' @ NUL # rev r'" by (simp add: key_def)
    moreover have "plain (rev t)" "plain (rev t')" using assms by (simp_all add: plain_def)
    ultimately have "rev t' = rev t" by (metis split_at_NUL)
    then show ?thesis by simp
  qed
  ultimately show "r' = r \<and> t' = t" by simp
next
  assume "r' = r \<and> t' = t"
  then show "startsWith (key r' p' t') (r @ [NUL]) \<and> endsWith (key r' p' t') (NUL # t)"
    by (simp add: startsWith_def endsWith_def key_def)
qed

lemma key_peer: "take (length (key r p t) - length (NUL # t) - length (r @ [NUL])) (drop (length (r @ [NUL])) (key r p t)) = p"
  by (simp add: key_def)

lemma transfer_acks_iff:
  assumes "edges_ok es" "plain r" "plain t"
  shows "a \<in> set (getTransferAcks r t es) \<longleftrightarrow>
    (\<exists>p e. plain p \<and> map_of es (key r p t) = Some e \<and>
       a = \<lparr>a_peerId = p, a_ackedChunks = card (set (acked e)), a_complete = edge_complete e\<rparr>)"
proof
  assume "a \<in> set (getTransferAcks r t es)"
  then obtain k e where ke: "(k, e) \<in> set es" "startsWith k (r @ [NUL]) \<and> endsWith k (NUL # t)"
    "a = \<lparr>a_peerId = take (length k - length (NUL # t) - length (r @ [NUL])) (drop (length (r @ [NUL])) k),
          a_ackedChunks = length (acked e), a_complete = edge_complete e\<rparr>"
    by (auto simp: getTransferAcks_def Let_def)
  from assms(1) ke(1) obtain r' p' t' where k: "k = key r' p' t'" "plain r'" "plain p'" "plain t'" "distinct (acked e)"
    unfolding edges_ok_def entry_ok_def list_all_iff by auto
  have "r' = r \<and> t' = t" using key_matches [OF assms(2,3) k(2-4)] ke(2) k(1) by simp
  moreover have "map_of es k = Some e" using assms(1) ke(1) by (simp add: edges_ok_def)
  ultimately show "\<exists>p e. plain p \<and> map_of es (key r p t) = Some e \<and>
       a = \<lparr>a_peerId = p, a_ackedChunks = card (set (acked e)), a_complete = edge_complete e\<rparr>"
    using ke(3) k key_peer [of r p' t] by (auto simp: distinct_card)
next
  assume "\<exists>p e. plain p \<and> map_of es (key r p t) = Some e \<and>
       a = \<lparr>a_peerId = p, a_ackedChunks = card (set (acked e)), a_complete = edge_complete e\<rparr>"
  then obtain p e where p: "plain p" "map_of es (key r p t) = Some e"
    "a = \<lparr>a_peerId = p, a_ackedChunks = card (set (acked e)), a_complete = edge_complete e\<rparr>" by blast
  have "(key r p t, e) \<in> set es" using p(2) by (rule map_of_SomeD)
  moreover have "startsWith (key r p t) (r @ [NUL]) \<and> endsWith (key r p t) (NUL # t)"
    using key_matches [OF assms(2,3,2) p(1) assms(3)] by simp
  moreover have "length (acked e) = card (set (acked e))" using edges_okD [OF assms(1) p(2)] by (simp add: distinct_card)
  ultimately show "a \<in> set (getTransferAcks r t es)"
    using p(3) key_peer [of r p t] by (force simp: getTransferAcks_def Let_def image_iff)
qed

section \<open>Properties\<close>

text \<open>C37: the string-keyed map of have-sets behaves as one set of acknowledged chunks and one completion flag per
  room, peer and transfer: after any operations on NUL-free identifiers each triple reads what was
  recorded for it alone, a second report of the same chunk changes nothing, and the progress listed
  for a transfer has exactly one entry per peer that was ever recorded, with its distinct chunks.\<close>

theorem acknowledgements_never_mix:
  assumes "list_all plain_op ops" "plain r" "plain p" "plain t"
  shows "acks_of (fold reconcile_step ops []) (r, p, t) = fold ack_spec ops (\<lambda>_. ({}, False)) (r, p, t) \<and>
    isTransferComplete r p t (fold reconcile_step ops []) = snd (fold ack_spec ops (\<lambda>_. ({}, False)) (r, p, t)) \<and>
    (\<forall>a. a \<in> set (getTransferAcks r t (fold reconcile_step ops [])) \<longleftrightarrow>
       (\<exists>q e. plain q \<and> map_of (fold reconcile_step ops []) (key r q t) = Some e \<and>
          a = \<lparr>a_peerId = q, a_ackedChunks = card (set (acked e)), a_complete = edge_complete e\<rparr>))"
proof -
  have ok: "edges_ok (fold reconcile_step ops [])"
    by (rule reconcile_run_ok) (simp_all add: edges_ok_def assms(1))
  have run: "acks_of (fold reconcile_step ops []) (r, p, t) = fold ack_spec ops (\<lambda>_. ({}, False)) (r, p, t)"
    by (rule reconcile_run_refines [OF assms]) (simp add: acks_of_def)
  moreover have "isTransferComplete r p t es = snd (acks_of es (r, p, t))" for es
    by (simp add: isTransferComplete_def acks_of_def split: option.splits)
  ultimately show ?thesis using transfer_acks_iff [OF ok assms(2,4)] by simp
qed

theorem acknowledgements_never_mix_witness:
  "acks_of (fold reconcile_step [MarkAcked ''room'' ''bob'' ''t1'' 0, MarkAcked ''room'' ''bob'' ''t2'' 5, MarkAcked ''room'' ''bob'' ''t1'' 2] [])
     (''room'', ''bob'', ''t1'') = ({0, 2}, False)"
  using acknowledgements_never_mix
    [of "[MarkAcked ''room'' ''bob'' ''t1'' 0, MarkAcked ''room'' ''bob'' ''t2'' 5, MarkAcked ''room'' ''bob'' ''t1'' 2]"
      "''room''" "''bob''" "''t1''"]
  by (auto simp: plain_def NUL_def)

end
