(* ===== verification/Utf8.thy ===== *)
theory Utf8
  imports Prelude
begin

text \<open>
  \<^verbatim>\<open>TextEncoder\<close> and \<^verbatim>\<open>TextDecoder\<close> as the sources use them on names and labels. Text is the list of its
  code points; a lone surrogate is encoded as U+FFFD. The decoder is the state machine of the
  Encoding Standard in its non-fatal mode: it replaces malformed input by U+FFFD, reprocesses the
  byte that broke a sequence, and drops a leading byte order mark.
\<close>

type_synonym js_text = "nat list"

definition REPLACEMENT :: nat where "REPLACEMENT = 0xfffd"
definition BOM :: nat where "BOM = 0xfeff"

definition is_scalar :: "nat \<Rightarrow> bool" where
  "is_scalar c \<longleftrightarrow> c < 0x110000 \<and> \<not> (0xd800 \<le> c \<and> c \<le> 0xdfff)"

definition utf8_char :: "nat \<Rightarrow> nat list" where
  "utf8_char c =
     (if c < 0x80 then [c]
      else if c < 0x800 then [0xc0 + c div 64, 0x80 + c mod 64]
      else if c < 0x10000 then [0xe0 + c div 4096, 0x80 + c div 64 mod 64, 0x80 + c mod 64]
      else [0xf0 + c div 262144, 0x80 + c div 4096 mod 64, 0x80 + c div 64 mod 64, 0x80 + c mod 64])"

definition text_encode :: "js_text \<Rightarrow> bytes" where
  "text_encode s = map of_nat (concat (map (\<lambda>c. utf8_char (if is_scalar c then c else REPLACEMENT)) s))"

record utf8_state =
  needed :: nat
  code_point :: nat
  lower :: nat
  upper :: nat

definition ground :: utf8_state where
  "ground = \<lparr>needed = 0, code_point = 0, lower = 0x80, upper = 0xbf\<rparr>"

function utf8_run :: "utf8_state \<Rightarrow> nat list \<Rightarrow> js_text" where
  "utf8_run st [] = (if needed st > 0 then [REPLACEMENT] else [])"
| "utf8_run st (b # bs) =
     (if needed st = 0 then
        if b \<le> 0x7f then b # utf8_run ground bs
        else if 0xc2 \<le> b \<and> b \<le> 0xdf then
          utf8_run \<lparr>needed = 1, code_point = b - 0xc0, lower = 0x80, upper = 0xbf\<rparr> bs
        else if 0xe0 \<le> b \<and> b \<le> 0xef then
          utf8_run \<lparr>needed = 2, code_point = b - 0xe0, lower = (if b = 0xe0 then 0xa0 else 0x80),
                    upper = (if b = 0xed then 0x9f else 0xbf)\<rparr> bs
        else if 0xf0 \<le> b \<and> b \<le> 0xf4 then
          utf8_run \<lparr>needed = 3, code_point = b - 0xf0, lower = (if b = 0xf0 then 0x90 else 0x80),
                    upper = (if b = 0xf4 then 0x8f else 0xbf)\<rparr> bs
        else REPLACEMENT # utf8_run ground bs
      else if b < lower st \<or> upper st < b then REPLACEMENT # utf8_run ground (b # bs)
      else let cp = code_point st * 64 + (b - 0x80)
           in if needed st = 1 then cp # utf8_run ground bs
              else utf8_run \<lparr>needed = needed st - 1, code_point = cp, lower = 0x80, upper = 0xbf\<rparr> bs)"
  by pat_completeness auto
termination
  by (relation "measure (\<lambda>(st, bs). 2 * length bs + (if needed st > 0 then 1 else 0))") (auto simp: ground_def)

declare utf8_run.simps(2) [simp del]

definition text_decode :: "bytes \<Rightarrow> js_text" where
  "text_decode bs =
     utf8_run ground (map unat (if take 3 bs = [0xef, 0xbb, 0xbf] then drop 3 bs else bs))"

text \<open>\<^verbatim>\<open>.replace(/\0+$/, "")\<close>: the maximal run of trailing NUL characters is removed.\<close>

definition strip_nuls :: "js_text \<Rightarrow> js_text" where
  "strip_nuls s = rev (dropWhile (\<lambda>c. c = 0) (rev s))"

text \<open>The \<^verbatim>\<open>length\<close> of a string counts UTF-16 code units.\<close>

definition js_length :: "js_text \<Rightarrow> nat" where
  "js_length s = sum_list (map (\<lambda>c. if c < 0x10000 then 1 else 2) s)"

section \<open>Decoding what was encoded\<close>

lemma ground_simps [simp]:
  "needed ground = 0" "code_point ground = 0"
  by (simp_all add: ground_def)

lemma utf8_char_bytes: "is_scalar c \<Longrightarrow> b \<in> set (utf8_char c) \<Longrightarrow> b < 256"
  by (auto simp: utf8_char_def is_scalar_def split: if_splits)

lemma utf8_lead:
  "b \<le> 0x7f \<Longrightarrow> utf8_run ground (b # bs) = b # utf8_run ground bs"
  "2 \<le> a \<Longrightarrow> a \<le> 31 \<Longrightarrow> utf8_run ground ((0xc0 + a) # bs) = utf8_run \<lparr>needed = 1, code_point = a, lower = 0x80, upper = 0xbf\<rparr> bs"
  "a \<le> 15 \<Longrightarrow> utf8_run ground ((0xe0 + a) # bs) =
     utf8_run \<lparr>needed = 2, code_point = a, lower = (if a = 0 then 0xa0 else 0x80), upper = (if a = 13 then 0x9f else 0xbf)\<rparr> bs"
  "a \<le> 4 \<Longrightarrow> utf8_run ground ((0xf0 + a) # bs) =
     utf8_run \<lparr>needed = 3, code_point = a, lower = (if a = 0 then 0x90 else 0x80), upper = (if a = 4 then 0x8f else 0xbf)\<rparr> bs"
  by (simp_all add: utf8_run.simps(2))

lemma utf8_more:
  "l \<le> 0x80 + d \<Longrightarrow> 0x80 + d \<le> u \<Longrightarrow>
     utf8_run \<lparr>needed = Suc 0, code_point = a, lower = l, upper = u\<rparr> ((0x80 + d) # bs) = (a * 64 + d) # utf8_run ground bs"
  "l \<le> 0x80 + d \<Longrightarrow> 0x80 + d \<le> u \<Longrightarrow>
     utf8_run \<lparr>needed = Suc (Suc n), code_point = a, lower = l, upper = u\<rparr> ((0x80 + d) # bs) =
     utf8_run \<lparr>needed = Suc n, code_point = a * 64 + d, lower = 0x80, upper = 0xbf\<rparr> bs"
  by (simp_all add: utf8_run.simps(2) Let_def)

lemma utf8_more2:
  "l \<le> 0x80 + d \<Longrightarrow> 0x80 + d \<le> u \<Longrightarrow>
     utf8_run \<lparr>needed = 2, code_point = a, lower = l, upper = u\<rparr> ((0x80 + d) # bs) =
     utf8_run \<lparr>needed = 1, code_point = a * 64 + d, lower = 0x80, upper = 0xbf\<rparr> bs"
  "l \<le> 0x80 + d \<Longrightarrow> 0x80 + d \<le> u \<Longrightarrow>
     utf8_run \<lparr>needed = 3, code_point = a, lower = l, upper = u\<rparr> ((0x80 + d) # bs) =
     utf8_run \<lparr>needed = 2, code_point = a * 64 + d, lower = 0x80, upper = 0xbf\<rparr> bs"
  using utf8_more(2) [of l d u 0 a bs] utf8_more(2) [of l d u 1 a bs] by (simp_all add: numeral_2_eq_2 numeral_3_eq_3)

text \<open>The six-bit digits of a code point determine it and stay within the bounds the decoder checks.\<close>

lemma six_bits: "c div 64 * 64 + c mod 64 = (c :: nat)" "c div 4096 = c div 64 div 64" "c div 262144 = c div 64 div 64 div 64"
  "c div 4096 mod 64 = c div 64 div 64 mod 64"
  by (simp_all add: div_mult2_eq [symmetric])

lemma utf8_2:
  assumes "0x80 \<le> c" "c < 0x800"
  shows "utf8_run ground ([0xc0 + c div 64, 0x80 + c mod 64] @ bs) = c # utf8_run ground bs"
proof -
  have b: "2 \<le> c div 64" "c div 64 \<le> 31" "c mod 64 < 64" using assms by auto
  then show ?thesis using six_bits(1) [of c] by (simp add: utf8_lead utf8_more)
qed

lemma utf8_3:
  assumes "is_scalar c" "0x800 \<le> c" "c < 0x10000"
  shows "utf8_run ground ([0xe0 + c div 4096, 0x80 + c div 64 mod 64, 0x80 + c mod 64] @ bs) = c # utf8_run ground bs"
proof -
  define q a b d where "q = c div 64" and "a = q div 64" and "b = q mod 64" and "d = c mod 64"
  have c: "c = q * 64 + d" and q: "q = a * 64 + b" and bounds: "b < 64" "d < 64"
    by (simp_all add: q_def a_def b_def d_def)
  have a: "a \<le> 15" using assms(3) c q by linarith
  have lo: "a = 0 \<Longrightarrow> 32 \<le> b" using assms(2) c q bounds by linarith
  have hi: "a = 13 \<Longrightarrow> b \<le> 31" using assms(1) c q bounds unfolding is_scalar_def by linarith
  have "utf8_run ground ((0xe0 + a) # (0x80 + b) # (0x80 + d) # bs) = ((a * 64 + b) * 64 + d) # utf8_run ground bs"
    using a lo hi bounds by (simp add: utf8_lead utf8_more utf8_more2)
  moreover have "(a * 64 + b) * 64 + d = c" using c q by simp
  moreover have "c div 4096 = a" "c div 64 mod 64 = b" "c mod 64 = d" by (simp_all add: six_bits(2) q_def a_def b_def d_def)
  ultimately show ?thesis by (simp only: append_Cons append_Nil)
qed

lemma utf8_4:
  assumes "c < 0x110000" "0x10000 \<le> c"
  shows "utf8_run ground ([0xf0 + c div 262144, 0x80 + c div 4096 mod 64, 0x80 + c div 64 mod 64, 0x80 + c mod 64] @ bs)
    = c # utf8_run ground bs"
proof -
  define p q e a b d where "p = c div 64" and "q = p div 64" and "e = q div 64" and "a = q mod 64" and "b = p mod 64" and "d = c mod 64"
  have c: "c = p * 64 + d" and p: "p = q * 64 + b" and q: "q = e * 64 + a" and bounds: "a < 64" "b < 64" "d < 64"
    by (simp_all add: p_def q_def e_def a_def b_def d_def)
  have e: "e \<le> 4" using assms(1) c p q by linarith
  have lo: "e = 0 \<Longrightarrow> 16 \<le> a" using assms(2) c p q bounds by linarith
  have hi: "e = 4 \<Longrightarrow> a \<le> 15" using assms(1) c p q bounds by linarith
  have "utf8_run ground ((0xf0 + e) # (0x80 + a) # (0x80 + b) # (0x80 + d) # bs) =
      (((e * 64 + a) * 64 + b) * 64 + d) # utf8_run ground bs"
    using e lo hi bounds by (simp add: utf8_lead utf8_more utf8_more2)
  moreover have "((e * 64 + a) * 64 + b) * 64 + d = c" using c p q by simp
  moreover have "c div 262144 = e" "c div 4096 mod 64 = a" "c div 64 mod 64 = b" "c mod 64 = d"
    by (simp_all add: six_bits(3,4) p_def q_def e_def a_def b_def d_def)
  ultimately show ?thesis by (simp only: append_Cons append_Nil)
qed

lemma utf8_char_decodes: "is_scalar c \<Longrightarrow> utf8_run ground (utf8_char c @ bs) = c # utf8_run ground bs"
  using utf8_2 [of c bs] utf8_3 [of c bs] utf8_4 [of c bs] utf8_lead(1) [of c bs]
  by (simp add: utf8_char_def is_scalar_def)

lemma utf8_text_decodes:
  "list_all is_scalar s \<Longrightarrow> utf8_run ground (concat (map utf8_char s) @ bs) = s @ utf8_run ground bs"
  by (induction s) (simp_all add: utf8_char_decodes)

lemma unat_of_nat_byte: "b < 256 \<Longrightarrow> unat (of_nat b :: byte) = b"
  by simp

lemma encode_scalars: "list_all is_scalar s \<Longrightarrow> map unat (text_encode s) = concat (map utf8_char s)"
proof (induction s)
  case (Cons c s)
  have "map (\<lambda>b. unat (of_nat b :: byte)) (utf8_char c) = utf8_char c"
    using utf8_char_bytes [of c] Cons.prems by (intro map_idI) simp
  with Cons show ?case by (simp add: text_encode_def comp_def)
qed (simp add: text_encode_def)

lemma encode_length: "list_all is_scalar s \<Longrightarrow> length (text_encode s) = length (concat (map utf8_char s))"
  using encode_scalars [of s] by (metis length_map)

lemma no_bom:
  assumes "list_all is_scalar s" "s = [] \<or> hd s \<noteq> BOM"
  shows "take 3 (text_encode s @ zeros n) \<noteq> [0xef, 0xbb, 0xbf]"
proof
  assume bom: "take 3 (text_encode s @ zeros n) = [0xef, 0xbb, 0xbf]"
  then have "map unat (take 3 (text_encode s @ zeros n)) = [0xef, 0xbb, 0xbf]" by simp
  then have t: "take 3 (concat (map utf8_char s) @ replicate n 0) = [0xef, 0xbb, 0xbf]"
    by (simp add: take_map [symmetric] encode_scalars [OF assms(1)] encode_length [OF assms(1)] zeros_def)
  show False
  proof (cases s)
    case Nil
    with t show ?thesis by (cases n) auto
  next
    case (Cons c cs)
    have "utf8_run ground (concat (map utf8_char s) @ replicate n 0) =
        utf8_run ground ([0xef, 0xbb, 0xbf] @ drop 3 (concat (map utf8_char s) @ replicate n 0))"
      using t by (metis append_take_drop_id)
    also have "\<dots> = BOM # utf8_run ground (drop 3 (concat (map utf8_char s) @ replicate n 0))"
      using utf8_3 [of BOM] by (simp add: BOM_def is_scalar_def)
    finally have "c = BOM" using utf8_text_decodes [OF assms(1)] Cons by simp
    with assms(2) Cons show ?thesis by simp
  qed
qed

lemma decode_padded:
  assumes "list_all is_scalar s" "s = [] \<or> hd s \<noteq> BOM"
  shows "text_decode (text_encode s @ zeros n) = s @ replicate n 0"
proof -
  have "utf8_run ground (replicate n 0) = replicate n 0"
    by (induction n) (simp_all add: utf8_lead)
  then show ?thesis using no_bom [OF assms, of n] utf8_text_decodes [OF assms(1), of "replicate n 0"]
    by (simp add: text_decode_def encode_scalars [OF assms(1)] zeros_def)
qed

lemma strip_nuls_padding: "s = [] \<or> last s \<noteq> 0 \<Longrightarrow> strip_nuls (s @ replicate n 0) = s"
proof -
  assume "s = [] \<or> last s \<noteq> 0"
  then have "dropWhile (\<lambda>c. c = 0) (rev s) = rev s" by (cases s rule: rev_cases) simp_all
  moreover have "dropWhile (\<lambda>c. c = 0) (replicate n 0 @ xs) = dropWhile (\<lambda>c. c = 0) xs" for xs :: js_text
    by (induction n) simp_all
  ultimately show ?thesis by (simp add: strip_nuls_def)
qed

end
