(* ===== verification/Metadata.thy ===== *)
theory Metadata
  imports Text_Codec Utf8
begin

text \<open>
  The metadata every chunk carries (\<^verbatim>\<open>utils/metadata.ts\<close>) and the label of a per-message channel
  (\<^verbatim>\<open>utils/channelLabel.ts\<close>). Numbers read from the wire go through \<^verbatim>\<open>Number(bigint)\<close>, which rounds to 53
  bits; an invalid \<^verbatim>\<open>Date\<close> is \<open>None\<close>. Shown: valid metadata survives the wire, metadata that passes the
  check was read without loss of precision, and channel labels round-trip.
\<close>

section \<open>Numbers\<close>

fun bit_length :: "nat \<Rightarrow> nat" where
  "bit_length n = (if n = 0 then 0 else Suc (bit_length (n div 2)))"

declare bit_length.simps [simp del]

text \<open>\<^verbatim>\<open>Number(v)\<close> for a 64-bit value: the nearest double, ties to even.\<close>

definition to_number :: "nat \<Rightarrow> nat" where
  "to_number v =
     (if bit_length v \<le> 53 then v
      else let u = 2 ^ (bit_length v - 53); q = v div u; r = v mod u
           in if 2 * r < u \<or> 2 * r = u \<and> even q then q * u else (q + 1) * u)"

definition u64 :: "int \<Rightarrow> bytes" where
  "u64 v = be_enc 8 (nat (v mod 2 ^ 64))"

definition read_u64 :: "bytes \<Rightarrow> nat \<Rightarrow> int" where
  "read_u64 buf off = int (to_number (be_dec (sub buf off (off + 8))))"

text \<open>\<^verbatim>\<open>new Date(t).getTime()\<close>: out of range is not a time.\<close>

definition MAX_TIME :: int where [const_defs]: "MAX_TIME = 8640000000000000"

definition new_date :: "int \<Rightarrow> int option" where
  "new_date t = (if \<bar>t\<bar> \<le> MAX_TIME then Some t else None)"

section \<open>Metadata\<close>

record metadata =
  md_schemaVersion :: int
  md_messageType :: int
  md_hash :: bytes
  md_totalSize :: int
  md_date :: "int option"
  md_name :: js_text
  md_chunkStartIndex :: int
  md_chunkEndIndex :: int
  md_chunkIndex :: int

datatype metadata_error =
    UnsupportedSchema | InvalidMessageType | InvalidHash | InvalidTotalSize | InvalidTimestamp
  | InvalidIndex string | InvalidChunkRange | InvalidBuffer | MetadataRange

definition assert_index :: "string \<Rightarrow> int \<Rightarrow> metadata_error + unit" where
  "assert_index name v = ensure (is_safe_integer v \<and> 0 \<le> v) (InvalidIndex name)"

definition assertMetadataV1 :: "metadata \<Rightarrow> metadata_error + unit" where
  "assertMetadataV1 m =
     rbind (ensure (md_schemaVersion m = 1) UnsupportedSchema) (\<lambda>_.
     rbind (ensure (is_safe_integer (md_messageType m) \<and> \<not> md_messageType m < 1 \<and> \<not> md_messageType m > 64) InvalidMessageType) (\<lambda>_.
     rbind (ensure (length (md_hash m) = crypto_hash_sha512_BYTES) InvalidHash) (\<lambda>_.
     rbind (ensure (is_safe_integer (md_totalSize m) \<and> \<not> md_totalSize m < 1 \<and> \<not> md_totalSize m > int MAX_MESSAGE_SIZE) InvalidTotalSize) (\<lambda>_.
     rbind (ensure (case md_date m of None \<Rightarrow> False | Some t \<Rightarrow> is_safe_integer t) InvalidTimestamp) (\<lambda>_.
     rbind (assert_index ''chunkStartIndex'' (md_chunkStartIndex m)) (\<lambda>_.
     rbind (assert_index ''chunkEndIndex'' (md_chunkEndIndex m)) (\<lambda>_.
     rbind (assert_index ''chunkIndex'' (md_chunkIndex m)) (\<lambda>_.
     ensure (\<not> md_chunkEndIndex m < md_chunkStartIndex m) InvalidChunkRange))))))))"

definition serializeMetadata :: "metadata \<Rightarrow> metadata_error + bytes" where
  "serializeMetadata m =
     (let buffer = zeros METADATA_LEN;
          buffer = set_at buffer 0 (u64 (md_schemaVersion m));
          buffer = set_at buffer 8 [of_int (md_messageType m)]
      in if 9 + length (md_hash m) > METADATA_LEN then Inl MetadataRange
         else
           let buffer = set_at buffer 9 (md_hash m);
               buffer = set_at buffer 73 (u64 (md_totalSize m))
           in case md_date m of
                None \<Rightarrow> Inl MetadataRange
              | Some t \<Rightarrow>
                  let buffer = set_at buffer 81 (u64 t);
                      nameBytes = text_encode (md_name m);
                      namePadded = set_at (zeros 256) 0 (sub nameBytes 0 (min 256 (length nameBytes)));
                      buffer = set_at buffer 89 namePadded;
                      buffer = set_at buffer 345 (u64 (md_chunkStartIndex m));
                      buffer = set_at buffer 353 (u64 (md_chunkEndIndex m));
                      buffer = set_at buffer 361 (u64 (md_chunkIndex m))
                  in Inr buffer)"

definition sanitize_name :: "js_text \<Rightarrow> js_text" where
  "sanitize_name s =
     filter (\<lambda>c. \<not> (c \<le> 0x1f \<or> c = 0x7f))
       (map (\<lambda>c. if c \<in> of_char ` set [CHR ''<'', CHR ''>'', CHR '':'', CHR 0x22, CHR 0x27, CHR ''|'', CHR ''?'', CHR ''*''] then of_char (CHR ''_'') else c)
         (map (\<lambda>c. if c \<in> of_char ` set [CHR ''/'', CHR 0x5c] then of_char (CHR ''_'') else c) s))"

definition deserializeMetadata :: "bytes \<Rightarrow> metadata_error + metadata" where
  "deserializeMetadata buffer =
     (if length buffer \<noteq> METADATA_LEN then Inl InvalidBuffer
      else Inr \<lparr>md_schemaVersion = read_u64 buffer 0, md_messageType = uint (buffer ! 8), md_hash = sub buffer 9 73,
                md_totalSize = read_u64 buffer 73, md_date = new_date (read_u64 buffer 81),
                md_name = sanitize_name (strip_nuls (text_decode (sub buffer 89 345))),
                md_chunkStartIndex = read_u64 buffer 345, md_chunkEndIndex = read_u64 buffer 353,
                md_chunkIndex = read_u64 buffer 361\<rparr>)"

section \<open>Channel labels\<close>

definition LABEL_ELEMENTS :: nat where [const_defs]: "LABEL_ELEMENTS = 2"
definition LABEL_STRING_LEN :: nat where [const_defs]: "LABEL_STRING_LEN = (32 + 64) * 2 + 1"
definition SEPARATOR :: nat where [const_defs]: "SEPARATOR = 126"

definition text_of :: "string \<Rightarrow> js_text" where "text_of s = map of_char s"
definition string_of :: "js_text \<Rightarrow> string" where "string_of s = map char_of s"

definition is_lower_hex :: "nat \<Rightarrow> bool" where
  "is_lower_hex c \<longleftrightarrow> c \<in> set (text_of HEX)"

datatype merkle_root_arg = RootHex js_text | RootBytes bytes

datatype label_error =
    LabelLength | RootNotCanonical | RootNot64 | BadComponents | NotLowerHex | LabelNot32 | RootLength | LabelHex hex_error

definition compileChannelMessageLabel :: "js_text \<Rightarrow> merkle_root_arg \<Rightarrow> label_error + js_text" where
  "compileChannelMessageLabel channelLabel merkleRoot =
     (let nameBytes = text_encode channelLabel
      in if length nameBytes \<le> 0 \<or> length nameBytes > 32 then Inl LabelLength
         else rbind (case merkleRoot of
                       RootHex s \<Rightarrow> ensure (length s = 128 \<and> list_all is_lower_hex s) RootNotCanonical
                     | RootBytes b \<Rightarrow> ensure (length b = crypto_hash_sha512_BYTES) RootNot64) (\<lambda>_.
           let namePadded = set_at (zeros 32) 0 (sub nameBytes 0 (min 32 (length nameBytes)));
               label = text_of (uint8ArrayToHex namePadded) @ [SEPARATOR]
           in Inr (label @ (case merkleRoot of RootHex s \<Rightarrow> s | RootBytes b \<Rightarrow> text_of (uint8ArrayToHex b)))))"

fun split_at_sep :: "js_text \<Rightarrow> js_text list" where
  "split_at_sep [] = [[]]"
| "split_at_sep (c # cs) =
     (if c = SEPARATOR then [] # split_at_sep cs
      else case split_at_sep cs of w # ws \<Rightarrow> (c # w) # ws | [] \<Rightarrow> [[c]])"

record decompiled_label =
  dl_channelLabel :: js_text
  dl_merkleRootHex :: js_text
  dl_merkleRoot :: bytes

definition decompileChannelMessageLabel :: "js_text \<Rightarrow> label_error + decompiled_label" where
  "decompileChannelMessageLabel l =
     (let split = split_at_sep l
      in if length split = 1 then Inr \<lparr>dl_channelLabel = l, dl_merkleRootHex = [], dl_merkleRoot = []\<rparr>
         else if length split \<noteq> LABEL_ELEMENTS \<or> js_length l \<noteq> LABEL_STRING_LEN then Inl BadComponents
         else if \<not> (length (split ! 0) = 64 \<and> list_all is_lower_hex (split ! 0) \<and>
                   length (split ! 1) = 128 \<and> list_all is_lower_hex (split ! 1)) then Inl NotLowerHex
         else case hexToUint8Array (string_of (split ! 0)) of
                Inl e \<Rightarrow> Inl (LabelHex e)
              | Inr lbl \<Rightarrow>
                  if length lbl \<noteq> 32 then Inl LabelNot32
                  else case hexToUint8Array (string_of (split ! 1)) of
                         Inl e \<Rightarrow> Inl (LabelHex e)
                       | Inr root \<Rightarrow>
                           if length root \<noteq> crypto_hash_sha512_BYTES then Inl RootLength
                           else Inr \<lparr>dl_channelLabel = strip_nuls (text_decode lbl),
                                     dl_merkleRootHex = split ! 1, dl_merkleRoot = root\<rparr>)"

section \<open>Lemmas on numbers\<close>

lemma bit_length_bounds: "0 < n \<Longrightarrow> 2 ^ (bit_length n - 1) \<le> n \<and> n < 2 ^ bit_length n"
proof (induction n rule: bit_length.induct)
  case (1 n)
  show ?case
  proof (cases "n div 2 = 0")
    case True
    then have "n = 1" using 1(2) by auto
    then show ?thesis by (simp add: bit_length.simps)
  next
    case False
    have b: "bit_length n = Suc (bit_length (n div 2))" using 1(2) by (subst bit_length.simps) simp
    have p: "0 < bit_length (n div 2)" using False by (subst bit_length.simps) simp
    have "2 ^ (bit_length (n div 2) - 1) \<le> n div 2 \<and> n div 2 < 2 ^ bit_length (n div 2)" using 1 False by simp
    moreover have "(2 :: nat) ^ bit_length (n div 2) = 2 * 2 ^ (bit_length (n div 2) - 1)"
      using p by (simp add: power_eq_if)
    ultimately show ?thesis unfolding b using mult_div_mod_eq [of 2 n] mod_less_divisor [of 2 n] by simp linarith
  qed
qed

lemma to_number_exact: "v < 2 ^ 53 \<Longrightarrow> to_number v = v"
proof -
  assume v: "v < 2 ^ 53"
  have "bit_length v \<le> 53"
  proof (cases "v = 0")
    case False
    then have "(2 :: nat) ^ (bit_length v - 1) < 2 ^ 53" using v bit_length_bounds [of v] by linarith
    then have "bit_length v - 1 < 53" by (rule power_less_imp_less_exp [rotated]) simp
    then show ?thesis by simp
  qed (simp add: bit_length.simps)
  then show ?thesis by (simp add: to_number_def)
qed

lemma to_number_large: "2 ^ 53 \<le> v \<Longrightarrow> 2 ^ 53 \<le> to_number v"
proof (cases "bit_length v \<le> 53")
  case False
  assume v: "2 ^ 53 \<le> v"
  let ?e = "bit_length v - 53"
  let ?u = "2 ^ ?e :: nat"
  have e: "bit_length v - 1 = 52 + ?e" using False by simp
  have "2 ^ (bit_length v - 1) \<le> v" using bit_length_bounds [of v] v by simp
  then have "2 ^ 52 * ?u \<le> v" by (simp only: e power_add)
  then have "2 ^ 52 * ?u div ?u \<le> v div ?u" by (rule div_le_mono)
  then have q: "2 ^ 52 \<le> v div ?u" by simp
  have u: "2 \<le> ?u" using False power_increasing [of 1 ?e "2 :: nat"] by simp
  have "2 ^ 52 * 2 \<le> (v div ?u) * ?u" using mult_le_mono [OF q u] .
  then have "2 ^ 53 \<le> (v div ?u) * ?u" by simp
  then show ?thesis using False by (auto simp: to_number_def Let_def)
qed (simp add: to_number_def)

lemma to_number_safe: "int (to_number v) \<le> MAX_SAFE_INTEGER \<Longrightarrow> to_number v = v"
  using to_number_exact [of v] to_number_large [of v] by (cases "v < 2 ^ 53") (auto simp: MAX_SAFE_INTEGER_def)

section \<open>Lemmas on the layout\<close>

lemma length_u64 [simp]: "length (u64 v) = 8"
  by (simp add: u64_def)

lemma u64_dec: "0 \<le> v \<Longrightarrow> v \<le> MAX_SAFE_INTEGER \<Longrightarrow> int (to_number (be_dec (u64 v))) = v"
proof -
  assume v: "0 \<le> v" "v \<le> MAX_SAFE_INTEGER"
  then have "be_dec (u64 v) = nat v" by (simp add: u64_def be_dec_enc_u64 MAX_SAFE_INTEGER_def)
  moreover have "nat v < 2 ^ 53" using v by (simp add: MAX_SAFE_INTEGER_def nat_less_iff)
  ultimately show ?thesis using v by (simp add: to_number_exact)
qed

definition name_field :: "js_text \<Rightarrow> bytes" where
  "name_field n = take 256 (text_encode n) @ zeros (256 - length (text_encode n))"

lemma length_name_field [simp]: "length (name_field n) = 256"
  by (simp add: name_field_def)

lemma serialize_layout:
  assumes "length (md_hash m) = 64" "md_date m = Some t"
  shows "serializeMetadata m = Inr (u64 (md_schemaVersion m) @ [of_int (md_messageType m)] @ md_hash m @
    u64 (md_totalSize m) @ u64 t @ name_field (md_name m) @ u64 (md_chunkStartIndex m) @ u64 (md_chunkEndIndex m) @
    u64 (md_chunkIndex m))"
proof -
  have "set_at (zeros 256) 0 (sub (text_encode (md_name m)) 0 (min 256 (length (text_encode (md_name m))))) = name_field (md_name m)"
    by (simp add: wire_simps name_field_def sub_def min_def)
  then show ?thesis using assms by (simp add: serializeMetadata_def wire_simps Let_def wire_geometry)
qed

lemma deserialize_layout:
  assumes "length h = 64" "length nf = 256"
  shows "deserializeMetadata (u64 sv @ [mt] @ h @ u64 ts @ u64 t @ nf @ u64 cs @ u64 ce @ u64 ci) =
    Inr \<lparr>md_schemaVersion = int (to_number (be_dec (u64 sv))), md_messageType = uint mt, md_hash = h,
      md_totalSize = int (to_number (be_dec (u64 ts))), md_date = new_date (int (to_number (be_dec (u64 t)))),
      md_name = sanitize_name (strip_nuls (text_decode nf)),
      md_chunkStartIndex = int (to_number (be_dec (u64 cs))), md_chunkEndIndex = int (to_number (be_dec (u64 ce))),
      md_chunkIndex = int (to_number (be_dec (u64 ci)))\<rparr>"
proof -
  have "(u64 sv @ mt # h @ u64 ts @ u64 t @ nf @ u64 cs @ u64 ce @ u64 ci) ! 8 = mt"
    by (simp add: nth_append)
  moreover have "sub (mt # xs) (numeral k) j = sub xs (pred_numeral k) (j - 1)"
    "sub (mt # xs) (Suc 0) j = sub xs 0 (j - 1)" for xs k j by (simp_all add: sub_def numeral_eq_Suc)
  ultimately show ?thesis using assms
    by (simp add: deserializeMetadata_def wire_geometry read_u64_def wire_simps)
qed

lemma sanitize_strip: "sanitize_name (strip_nuls s) = sanitize_name s"
proof -
  have "sanitize_name (s @ [0]) = sanitize_name s" for s by (simp add: sanitize_name_def)
  then show ?thesis
  proof (induction s rule: rev_induct)
    case (snoc c s)
    then show ?case by (cases "c = 0") (simp_all add: strip_nuls_def)
  qed (simp add: strip_nuls_def)
qed

lemma sanitize_replicate: "sanitize_name (s @ replicate n 0) = sanitize_name s"
  by (induction n) (simp_all add: sanitize_name_def)

lemma sanitize_safe:
  "c \<in> set (sanitize_name s) \<Longrightarrow> 0x1f < c \<and> c \<noteq> 0x7f \<and> c \<notin> set (map of_char [CHR ''/'', CHR 0x5c, CHR ''<'', CHR ''>'', CHR '':'', CHR 0x22, CHR 0x27, CHR ''|'', CHR ''?'', CHR ''*''])"
  by (auto simp: sanitize_name_def split: if_splits)

lemma assertMetadataV1_iff:
  "assertMetadataV1 m = Inr () \<longleftrightarrow>
     md_schemaVersion m = 1 \<and> 1 \<le> md_messageType m \<and> md_messageType m \<le> 64 \<and> length (md_hash m) = 64 \<and>
     1 \<le> md_totalSize m \<and> md_totalSize m \<le> int MAX_MESSAGE_SIZE \<and> (\<exists>t. md_date m = Some t \<and> is_safe_integer t) \<and>
     0 \<le> md_chunkStartIndex m \<and> md_chunkStartIndex m \<le> md_chunkEndIndex m \<and>
     md_chunkEndIndex m \<le> MAX_SAFE_INTEGER \<and> 0 \<le> md_chunkIndex m \<and> md_chunkIndex m \<le> MAX_SAFE_INTEGER"
  by (auto simp: assertMetadataV1_def assert_index_def result_simps is_safe_integer_def const_defs split: option.splits)

lemma name_field_decodes:
  assumes "list_all is_scalar n" "length (text_encode n) \<le> 256" "n = [] \<or> hd n \<noteq> BOM"
  shows "sanitize_name (strip_nuls (text_decode (name_field n))) = sanitize_name n"
  using assms by (simp add: name_field_def decode_padded sanitize_strip sanitize_replicate)

section \<open>Metadata survives the wire\<close>


definition sample_metadata :: metadata where
  "sample_metadata = \<lparr>md_schemaVersion = 1, md_messageType = 3, md_hash = zeros 64, md_totalSize = 70000,
     md_date = Some 1700000000000, md_name = [0x61, 0x2f, 0x20ac], md_chunkStartIndex = 10, md_chunkEndIndex = 20, md_chunkIndex = 1\<rparr>"

lemma sample_metadata_ok: "assertMetadataV1 sample_metadata = Inr ()"
  by (simp add: assertMetadataV1_iff sample_metadata_def const_defs is_safe_integer_def)


text \<open>C38: Whatever 369 bytes arrive, metadata read from them that passes the check holds exactly the
  integers on the wire (no value was rounded on the way through a double), a valid range inside the 10 GiB
  bound, and a name without path separators, control or markup characters.\<close>

theorem accepted_metadata_exact:
  assumes "deserializeMetadata buf = Inr m" "assertMetadataV1 m = Inr ()"
  shows "be_dec (sub buf 0 8) = 1 \<and> md_totalSize m = int (be_dec (sub buf 73 81)) \<and>
    md_date m = Some (int (be_dec (sub buf 81 89))) \<and>
    md_chunkStartIndex m = int (be_dec (sub buf 345 353)) \<and> md_chunkEndIndex m = int (be_dec (sub buf 353 361)) \<and>
    md_chunkIndex m = int (be_dec (sub buf 361 369)) \<and>
    md_chunkStartIndex m \<le> md_chunkEndIndex m \<and> md_totalSize m \<in> {1 .. int MAX_MESSAGE_SIZE} \<and>
    list_all (\<lambda>c. 0x1f < c \<and> c \<notin> set (0x7f # map of_char ''/<>:|?*'' @ [0x5c, 0x22, 0x27])) (md_name m)"
proof -
  note ok = assms(2) [unfolded assertMetadataV1_iff]
  have m: "m = \<lparr>md_schemaVersion = read_u64 buf 0, md_messageType = uint (buf ! 8), md_hash = sub buf 9 73,
      md_totalSize = read_u64 buf 73, md_date = new_date (read_u64 buf 81),
      md_name = sanitize_name (strip_nuls (text_decode (sub buf 89 345))),
      md_chunkStartIndex = read_u64 buf 345, md_chunkEndIndex = read_u64 buf 353, md_chunkIndex = read_u64 buf 361\<rparr>"
    using assms(1) by (simp add: deserializeMetadata_def split: if_splits)
  have exact: "read_u64 buf k = int (be_dec (sub buf k (k + 8)))" if "read_u64 buf k \<le> MAX_SAFE_INTEGER" for k
    using that to_number_safe by (simp add: read_u64_def)
  have "new_date (read_u64 buf 81) \<noteq> None" using ok m by auto
  then have d: "read_u64 buf 81 \<le> MAX_SAFE_INTEGER" "new_date (read_u64 buf 81) = Some (read_u64 buf 81)"
    by (auto simp: new_date_def const_defs split: if_splits)
  have "read_u64 buf 0 \<le> MAX_SAFE_INTEGER" "read_u64 buf 73 \<le> MAX_SAFE_INTEGER" "read_u64 buf 345 \<le> MAX_SAFE_INTEGER"
    "read_u64 buf 353 \<le> MAX_SAFE_INTEGER" "read_u64 buf 361 \<le> MAX_SAFE_INTEGER"
    using ok by (auto simp: m const_defs)
  note nums = this [THEN exact] d(1) [THEN exact]
  have "list_all (\<lambda>c. 0x1f < c \<and> c \<notin> set (0x7f # map of_char ''/<>:|?*'' @ [0x5c, 0x22, 0x27])) (md_name m)"
    by (auto simp: m list_all_iff dest!: sanitize_safe)
  then show ?thesis using ok nums d(2) by (simp add: m)
qed

theorem accepted_metadata_exact_witness:
  "\<exists>buf m. deserializeMetadata buf = Inr m \<and> assertMetadataV1 m = Inr () \<and> md_totalSize m = int (be_dec (sub buf 73 81)) \<and>
     md_chunkIndex m = 1"
proof -
  let ?m = "sample_metadata\<lparr>md_name := [0x61]\<rparr>"
  have ok: "assertMetadataV1 ?m = Inr ()"
    by (simp add: assertMetadataV1_iff sample_metadata_def const_defs is_safe_integer_def)
  have n: "sanitize_name (strip_nuls (text_decode (name_field [0x61]))) = [0x61]"
    by (subst name_field_decodes) (simp_all add: is_scalar_def text_encode_def utf8_char_def BOM_def sanitize_name_def)
  have "deserializeMetadata (u64 1 @ [of_int 3] @ zeros 64 @ u64 70000 @ u64 1700000000000 @ name_field [0x61] @ u64 10 @ u64 20 @ u64 1) = Inr ?m"
    by (subst deserialize_layout) (simp_all add: u64_dec n const_defs new_date_def sample_metadata_def)
  from accepted_metadata_exact [OF this ok] this ok show ?thesis
    by (intro exI conjI) (assumption | simp add: sample_metadata_def)+
qed

section \<open>Channel labels survive the wire\<close>

lemma length_HEX: "length HEX = 16"
  by (simp add: HEX_def)

lemma lower_hex_digit: "is_lower_hex c \<Longrightarrow> \<exists>n < 16. char_of c = HEX ! n \<and> of_char (HEX ! n) = c"
proof -
  assume "is_lower_hex c"
  then obtain d where d: "d \<in> set HEX" "c = of_char d" by (auto simp: is_lower_hex_def text_of_def)
  then obtain n where "n < length HEX" "HEX ! n = d" unfolding in_set_conv_nth by blast
  then show ?thesis using d(2) by (intro exI [of _ n]) (simp add: length_HEX)
qed

lemma hex_pairs_inverse:
  "list_all is_lower_hex s \<Longrightarrow> even (length s) \<Longrightarrow> text_of (uint8ArrayToHex (hex_pairs (string_of s))) = s"
proof (induction s rule: induct_list012)
  case (3 c d s)
  obtain a b where a: "a < 16" "char_of c = HEX ! a" "of_char (HEX ! a) = c" and b: "b < 16" "char_of d = HEX ! b" "of_char (HEX ! b) = d"
    using 3(3) lower_hex_digit [of c] lower_hex_digit [of d] by auto
  have "unat (of_nat (a * 16 + b) :: byte) = a * 16 + b" using a(1) b(1) by (subst unat_byte_of_nat) simp
  then have "unat (drop_bit 4 (of_nat (a * 16 + b) :: byte)) = a" "unat ((of_nat (a * 16 + b) :: byte) AND 0x0f) = b"
    using b(1) by (simp_all add: unat_nibbles del: of_nat_add of_nat_mult unat_byte_of_nat)
  with 3 a b show ?case by (simp add: text_of_def string_of_def hex_val_digit)
qed (simp_all add: text_of_def string_of_def)

lemma length_text_of [simp]: "length (text_of s) = length s"
  by (simp add: text_of_def)

lemma string_of_text_of [simp]: "string_of (text_of s) = s"
  by (simp add: string_of_def text_of_def comp_def)

lemma hex_text_lower: "list_all is_lower_hex (text_of (uint8ArrayToHex bs))"
proof -
  have "c \<in> set HEX" if "c \<in> set (uint8ArrayToHex bs)" for c
    using toHex_digits [OF that] nth_mem [of _ HEX] by (auto simp: length_HEX)
  then show ?thesis by (auto simp: list_all_iff text_of_def is_lower_hex_def)
qed

lemma lower_hex_bounds: "is_lower_hex c \<Longrightarrow> 48 \<le> c \<and> c \<le> 102"
  by (auto simp: is_lower_hex_def text_of_def HEX_def)

lemma split_no_sep: "list_all is_lower_hex s \<Longrightarrow> split_at_sep s = [s]"
  by (induction s) (auto simp: SEPARATOR_def dest: lower_hex_bounds)

lemma split_two:
  "list_all is_lower_hex a \<Longrightarrow> list_all is_lower_hex b \<Longrightarrow> split_at_sep (a @ SEPARATOR # b) = [a, b]"
  by (induction a) (auto simp: split_no_sep SEPARATOR_def dest: lower_hex_bounds)

lemma js_length_lower_hex: "list_all is_lower_hex s \<Longrightarrow> js_length s = length s"
  by (induction s) (auto simp: js_length_def dest: lower_hex_bounds)

lemma js_length_append: "js_length (a @ b) = js_length a + js_length b"
  by (simp add: js_length_def)

lemma lower_hex_parses:
  assumes "list_all is_lower_hex s" "even (length s)" "s \<noteq> []"
  shows "hexToUint8Array (string_of s) = Inr (hex_pairs (string_of s))"
proof -
  let ?bs = "hex_pairs (string_of s)"
  have eq: "string_of s = uint8ArrayToHex ?bs"
    using arg_cong [OF hex_pairs_inverse [OF assms(1,2)], of string_of] by simp
  have "?bs \<noteq> []" using eq assms(3) by (auto simp: string_of_def)
  then show ?thesis using hexToUint8Array_toHex [of ?bs] eq by simp
qed

definition root_text :: "merkle_root_arg \<Rightarrow> js_text" where
  "root_text r = (case r of RootHex s \<Rightarrow> s | RootBytes b \<Rightarrow> text_of (uint8ArrayToHex b))"

lemma decompile_compiled:
  assumes "length nm = 32" "list_all is_lower_hex r" "length r = 128"
  shows "decompileChannelMessageLabel (text_of (uint8ArrayToHex nm) @ SEPARATOR # r) =
    Inr \<lparr>dl_channelLabel = strip_nuls (text_decode nm), dl_merkleRootHex = r, dl_merkleRoot = hex_pairs (string_of r)\<rparr>"
proof -
  let ?h = "text_of (uint8ArrayToHex nm)"
  have len: "js_length (?h @ SEPARATOR # r) = LABEL_STRING_LEN"
    using assms js_length_lower_hex [OF hex_text_lower, of nm] js_length_lower_hex [OF assms(2)]
    by (simp add: js_length_append) (simp add: js_length_def const_defs text_of_def)
  have r: "hexToUint8Array (string_of r) = Inr (hex_pairs (string_of r))"
    using assms(2,3) by (intro lower_hex_parses) auto
  have "2 * length (hex_pairs (string_of r)) = 128"
    using arg_cong [OF hex_pairs_inverse [OF assms(2)], of length] assms(3) by (simp add: text_of_def)
  moreover have "nm \<noteq> []" using assms(1) by auto
  ultimately show ?thesis using assms hexToUint8Array_toHex [of nm]
    by (simp add: decompileChannelMessageLabel_def split_two hex_text_lower len r Let_def LABEL_ELEMENTS_def crypto_hash_sha512_BYTES_def)
qed

text \<open>A label compiled from a channel name and a Merkle root is 193 characters and decompiles to the
  same name and root, the root as text and as the bytes that print to it.\<close>

theorem channel_label_roundtrip:
  assumes "compileChannelMessageLabel l r = Inr label" "list_all is_scalar l" "hd l \<noteq> BOM" "last l \<noteq> 0"
  shows "js_length label = LABEL_STRING_LEN \<and>
    (\<exists>root. decompileChannelMessageLabel label = Inr \<lparr>dl_channelLabel = l, dl_merkleRootHex = root_text r, dl_merkleRoot = root\<rparr> \<and>
      text_of (uint8ArrayToHex root) = root_text r)"
proof -
  let ?nm = "text_encode l @ zeros (32 - length (text_encode l))"
  have nm: "length (text_encode l) \<le> 32" using assms(1) by (auto simp: compileChannelMessageLabel_def Let_def split: if_splits)
  then have lab: "label = text_of (uint8ArrayToHex ?nm) @ SEPARATOR # root_text r"
    and root: "list_all is_lower_hex (root_text r) \<and> length (root_text r) = 128"
    using assms(1) by (auto simp: compileChannelMessageLabel_def Let_def result_simps root_text_def sub_def wire_simps
        min_def hex_text_lower crypto_hash_sha512_BYTES_def split: if_splits merkle_root_arg.splits)
  have "strip_nuls (text_decode ?nm) = l"
    using assms(2-4) by (simp add: decode_padded strip_nuls_padding)
  then have "decompileChannelMessageLabel label = Inr \<lparr>dl_channelLabel = l, dl_merkleRootHex = root_text r, dl_merkleRoot = hex_pairs (string_of (root_text r))\<rparr>"
    using decompile_compiled [of ?nm "root_text r"] root nm unfolding lab by simp
  moreover have "js_length label = LABEL_STRING_LEN"
    using nm js_length_lower_hex [OF hex_text_lower, of ?nm] js_length_lower_hex [of "root_text r"] root unfolding lab
    by (simp add: js_length_append) (simp add: js_length_def const_defs text_of_def)
  ultimately show ?thesis using hex_pairs_inverse [of "root_text r"] root by auto
qed

theorem channel_label_roundtrip_witness:
  "\<exists>label. compileChannelMessageLabel [0x6d, 0xe9] (RootBytes (zeros 64)) = Inr label \<and> js_length label = LABEL_STRING_LEN \<and>
     map_sum id dl_channelLabel (decompileChannelMessageLabel label) = Inr [0x6d, 0xe9]"
proof -
  have e: "text_encode [0x6d, 0xe9] = [0x6d, 0xc3, 0xa9]" by (simp add: text_encode_def utf8_char_def is_scalar_def)
  then obtain label where l: "compileChannelMessageLabel [0x6d, 0xe9] (RootBytes (zeros 64)) = Inr label"
    by (simp add: compileChannelMessageLabel_def crypto_hash_sha512_BYTES_def Let_def)
  with channel_label_roundtrip [OF l] show ?thesis by (auto simp: is_scalar_def BOM_def)
qed

end
