(* ===== verification/Pq_Healing.thy ===== *)
theory Pq_Healing
  imports Ratchet
begin

text \<open>
  The sparse post-quantum healing machine of \<^verbatim>\<open>src/src/cryptography/pqHealing.ts\<close>: the OFFER, ADVANCE and
  ACK records with their codecs, and one definition per method of \<^verbatim>\<open>PqHealingMachine\<close>. The suites are
  those of \<^verbatim>\<open>mlkem.ts\<close>; an ML-KEM call is asynchronous, so a method that awaits one is a start and a resume
  definition, and what the backend answered is an argument of the resume (\<open>None\<close>: it rejected).

  A failing operation returns its error with the machine as the source leaves it. Buffers the source
  zeroes after use are values nothing refers to any more; \<open>destroy\<close> and \<open>adopt\<close> write the zeroed buffers
  out, since they stay reachable.
\<close>

section \<open>Suites\<close>

record mlkem_suite =
  parameterSet :: nat
  standardName :: string
  publicKeyBytes :: nat
  secretKeyBytes :: nat
  ciphertextBytes :: nat
  sharedSecretBytes :: nat
  keyPairRandomBytes :: nat
  encapsRandomBytes :: nat

definition ML_KEM_512_SUITE :: mlkem_suite where
  "ML_KEM_512_SUITE = \<lparr>parameterSet = 512, standardName = ''ML-KEM-512'', publicKeyBytes = 800, secretKeyBytes = 1632,
     ciphertextBytes = 768, sharedSecretBytes = 32, keyPairRandomBytes = 64, encapsRandomBytes = 32\<rparr>"

definition ML_KEM_768_SUITE :: mlkem_suite where
  "ML_KEM_768_SUITE = \<lparr>parameterSet = 768, standardName = ''ML-KEM-768'', publicKeyBytes = 1184, secretKeyBytes = 2400,
     ciphertextBytes = 1088, sharedSecretBytes = 32, keyPairRandomBytes = 64, encapsRandomBytes = 32\<rparr>"

definition ML_KEM_1024_SUITE :: mlkem_suite where
  "ML_KEM_1024_SUITE = \<lparr>parameterSet = 1024, standardName = ''ML-KEM-1024'', publicKeyBytes = 1568, secretKeyBytes = 3168,
     ciphertextBytes = 1568, sharedSecretBytes = 32, keyPairRandomBytes = 64, encapsRandomBytes = 32\<rparr>"

datatype pq_code =
    BindingMismatch | CounterGap | Destroyed | EpochGap | Fork | InvalidRecord | InvalidState | Overflow | Replay
  | SuiteMismatch | WrongTurn

datatype pq_error = Pq pq_code | UnsupportedSuite | BackendRejected | KdfFailed ratchet_error

definition getMlKemSuite :: "nat \<Rightarrow> pq_error + mlkem_suite" where
  "getMlKemSuite p =
     (if p = 512 then Inr ML_KEM_512_SUITE else if p = 768 then Inr ML_KEM_768_SUITE
      else if p = 1024 then Inr ML_KEM_1024_SUITE else Inl UnsupportedSuite)"

definition PQ_HEALING_BINDING_BYTES :: nat where [const_defs]: "PQ_HEALING_BINDING_BYTES = 32"
definition PQ_HEALING_ROOT_BYTES :: nat where [const_defs]: "PQ_HEALING_ROOT_BYTES = 32"
definition PQ_HEALING_RECORD_HEADER_BYTES :: nat where [const_defs]: "PQ_HEALING_RECORD_HEADER_BYTES = 64"
definition PQ_HEALING_ACK_BYTES :: nat where [const_defs]: "PQ_HEALING_ACK_BYTES = 64"
definition PQ_HEALING_SNAPSHOT_FORMAT_VERSION :: int where [const_defs]: "PQ_HEALING_SNAPSHOT_FORMAT_VERSION = 1"
definition PQ_MAGIC :: bytes where "PQ_MAGIC = [0x50, 0x32, 0x51, 0x48]"
definition PQ_FORMAT_VERSION :: byte where [const_defs]: "PQ_FORMAT_VERSION = 1"
definition OFFER_TYPE :: byte where [const_defs]: "OFFER_TYPE = 1"
definition ADVANCE_TYPE :: byte where [const_defs]: "ADVANCE_TYPE = 2"
definition ACK_TYPE :: byte where [const_defs]: "ACK_TYPE = 3"
definition RESERVED_FLAGS :: byte where [const_defs]: "RESERVED_FLAGS = 0"
definition KDF_DOMAIN :: bytes where "KDF_DOMAIN = ascii ''p2party/pq-healing/root/v1'' @ [0]"

section \<open>Checks\<close>

definition requireBytes :: "bytes \<Rightarrow> nat \<Rightarrow> pq_error + unit" where
  "requireBytes value expectedLength = ensure (length value = expectedLength) (Pq InvalidRecord)"

definition requireU64 :: "int \<Rightarrow> pq_error + unit" where
  "requireU64 value = ensure (\<not> (value < 0 \<or> value > MAX_U64)) (Pq Overflow)"

definition requireIncrementableU64 :: "int \<Rightarrow> pq_error + unit" where
  "requireIncrementableU64 value = rbind (requireU64 value) (\<lambda>_. ensure (value \<noteq> MAX_U64) (Pq Overflow))"

record acknowledgement =
  ack_epoch :: int
  ack_advanceCounter :: int

definition requireAcknowledgement :: "acknowledgement \<Rightarrow> pq_error + acknowledgement" where
  "requireAcknowledgement a =
     rbind (requireU64 (ack_epoch a)) (\<lambda>_. rbind (requireU64 (ack_advanceCounter a)) (\<lambda>_. Inr a))"

definition parameterSetToTag :: "nat \<Rightarrow> pq_error + byte" where
  "parameterSetToTag p =
     (if p = 768 then Inr 1 else if p = 512 then Inr 2 else if p = 1024 then Inr 3 else Inl (Pq SuiteMismatch))"

definition tagToParameterSet :: "byte \<Rightarrow> pq_error + nat" where
  "tagToParameterSet tag =
     (if tag = 1 then Inr 768 else if tag = 2 then Inr 512 else if tag = 3 then Inr 1024 else Inl (Pq InvalidRecord))"

definition assertCanonicalSuite :: "mlkem_suite \<Rightarrow> pq_error + unit" where
  "assertCanonicalSuite suite =
     rbind (getMlKemSuite (parameterSet suite)) (\<lambda>canonical.
       ensure (\<not> (standardName suite \<noteq> standardName canonical \<or> publicKeyBytes suite \<noteq> publicKeyBytes canonical \<or>
          secretKeyBytes suite \<noteq> secretKeyBytes canonical \<or> ciphertextBytes suite \<noteq> ciphertextBytes canonical \<or>
          sharedSecretBytes suite \<noteq> sharedSecretBytes canonical \<or>
          keyPairRandomBytes suite \<noteq> keyPairRandomBytes canonical \<or>
          encapsRandomBytes suite \<noteq> encapsRandomBytes canonical)) (Pq SuiteMismatch))"

definition assertSameSuite :: "mlkem_suite \<Rightarrow> mlkem_suite \<Rightarrow> pq_error + unit" where
  "assertSameSuite selected backend =
     rbind (assertCanonicalSuite selected) (\<lambda>_. rbind (assertCanonicalSuite backend) (\<lambda>_.
       ensure (\<not> (parameterSet selected \<noteq> parameterSet backend \<or> publicKeyBytes selected \<noteq> publicKeyBytes backend \<or>
          secretKeyBytes selected \<noteq> secretKeyBytes backend \<or> ciphertextBytes selected \<noteq> ciphertextBytes backend))
         (Pq SuiteMismatch)))"

definition offerLength :: "mlkem_suite \<Rightarrow> nat" where
  "offerLength suite = PQ_HEALING_RECORD_HEADER_BYTES + publicKeyBytes suite"

definition advanceLength :: "mlkem_suite \<Rightarrow> nat" where
  "advanceLength suite = PQ_HEALING_RECORD_HEADER_BYTES + offerLength suite + ciphertextBytes suite"

definition getPqHealingRecordLengths :: "mlkem_suite \<Rightarrow> pq_error + nat \<times> nat" where
  "getPqHealingRecordLengths suite =
     rbind (assertCanonicalSuite suite) (\<lambda>_. Inr (offerLength suite, advanceLength suite))"

section \<open>Records\<close>

definition getU64 :: "bytes \<Rightarrow> nat \<Rightarrow> int" where
  "getU64 record off = int (be_dec (sub record off (off + 8)))"

definition setU64 :: "bytes \<Rightarrow> nat \<Rightarrow> int \<Rightarrow> bytes" where
  "setU64 record off v = set_at record off (be_enc 8 (nat v))"

definition encodePqHealingAck :: "acknowledgement \<Rightarrow> mlkem_suite \<Rightarrow> bytes \<Rightarrow> pq_error + bytes" where
  "encodePqHealingAck a suite binding =
     rbind (assertCanonicalSuite suite) (\<lambda>_.
     rbind (requireBytes binding PQ_HEALING_BINDING_BYTES) (\<lambda>_.
     rbind (requireAcknowledgement a) (\<lambda>ack.
     rbind (parameterSetToTag (parameterSet suite)) (\<lambda>tag.
     let record = zeros PQ_HEALING_ACK_BYTES;
         record = set_at record 0 PQ_MAGIC;
         record = set_at record 4 [PQ_FORMAT_VERSION];
         record = set_at record 5 [ACK_TYPE];
         record = set_at record 6 [tag];
         record = set_at record 7 [RESERVED_FLAGS];
         record = set_at record 8 binding;
         record = setU64 record 40 (ack_advanceCounter ack);
         record = setU64 record 48 (ack_epoch ack)
     in Inr record))))"

definition decodePqHealingAck :: "bytes \<Rightarrow> mlkem_suite \<Rightarrow> bytes \<Rightarrow> pq_error + acknowledgement" where
  "decodePqHealingAck record suite binding =
     rbind (assertCanonicalSuite suite) (\<lambda>_.
     rbind (requireBytes binding PQ_HEALING_BINDING_BYTES) (\<lambda>_.
     rbind (requireBytes record PQ_HEALING_ACK_BYTES) (\<lambda>_.
     rbind (ensure (bytesEqual (sub record 0 4) PQ_MAGIC) (Pq InvalidRecord)) (\<lambda>_.
     rbind (ensure (record ! 4 = PQ_FORMAT_VERSION) (Pq InvalidRecord)) (\<lambda>_.
     rbind (ensure (record ! 5 = ACK_TYPE) (Pq InvalidRecord)) (\<lambda>_.
     rbind (ensure (record ! 7 = RESERVED_FLAGS) (Pq InvalidRecord)) (\<lambda>_.
     rbind (tagToParameterSet (record ! 6)) (\<lambda>recordParameterSet.
     rbind (ensure (recordParameterSet = parameterSet suite) (Pq SuiteMismatch)) (\<lambda>_.
     rbind (ensure (bytesEqual (sub record 8 40) binding) (Pq BindingMismatch)) (\<lambda>_.
     rbind (ensure (getU64 record 56 = 0) (Pq InvalidRecord)) (\<lambda>_.
     Inr \<lparr>ack_epoch = getU64 record 48, ack_advanceCounter = getU64 record 40\<rparr>)))))))))))"

definition encodeHeader ::
    "byte \<Rightarrow> mlkem_suite \<Rightarrow> bytes \<Rightarrow> int \<Rightarrow> int \<Rightarrow> int \<Rightarrow> nat \<Rightarrow> pq_error + bytes" where
  "encodeHeader type suite binding senderCounter fromEpoch toEpoch totalLength =
     rbind (requireBytes binding PQ_HEALING_BINDING_BYTES) (\<lambda>_.
     rbind (requireU64 senderCounter) (\<lambda>_.
     rbind (requireU64 fromEpoch) (\<lambda>_.
     rbind (requireU64 toEpoch) (\<lambda>_.
     rbind (ensure (\<not> (fromEpoch = MAX_U64 \<or> toEpoch \<noteq> fromEpoch + 1)) (Pq InvalidRecord)) (\<lambda>_.
     rbind (parameterSetToTag (parameterSet suite)) (\<lambda>tag.
     let record = zeros totalLength;
         record = set_at record 0 PQ_MAGIC;
         record = set_at record 4 [PQ_FORMAT_VERSION];
         record = set_at record 5 [type];
         record = set_at record 6 [tag];
         record = set_at record 7 [RESERVED_FLAGS];
         record = set_at record 8 binding;
         record = setU64 record 40 senderCounter;
         record = setU64 record 48 fromEpoch;
         record = setU64 record 56 toEpoch
     in Inr record))))))"

record decoded_header =
  senderCounter :: int
  fromEpoch :: int
  toEpoch :: int

definition decodeHeader :: "bytes \<Rightarrow> byte \<Rightarrow> mlkem_suite \<Rightarrow> bytes option \<Rightarrow> pq_error + decoded_header" where
  "decodeHeader record expectedType suite binding =
     rbind (ensure (\<not> length record < PQ_HEALING_RECORD_HEADER_BYTES) (Pq InvalidRecord)) (\<lambda>_.
     rbind (ensure (bytesEqual (sub record 0 4) PQ_MAGIC) (Pq InvalidRecord)) (\<lambda>_.
     rbind (ensure (record ! 4 = PQ_FORMAT_VERSION) (Pq InvalidRecord)) (\<lambda>_.
     rbind (ensure (record ! 5 = expectedType) (Pq InvalidRecord)) (\<lambda>_.
     rbind (ensure (record ! 7 = RESERVED_FLAGS) (Pq InvalidRecord)) (\<lambda>_.
     rbind (tagToParameterSet (record ! 6)) (\<lambda>recordParameterSet.
     rbind (ensure (recordParameterSet = parameterSet suite) (Pq SuiteMismatch)) (\<lambda>_.
     rbind (ensure (case binding of None \<Rightarrow> True | Some b \<Rightarrow> bytesEqual (sub record 8 40) b) (Pq BindingMismatch)) (\<lambda>_.
     let sc = getU64 record 40; fe = getU64 record 48; te = getU64 record 56
     in rbind (ensure (\<not> (fe = MAX_U64 \<or> te \<noteq> fe + 1)) (Pq InvalidRecord)) (\<lambda>_.
        Inr \<lparr>senderCounter = sc, fromEpoch = fe, toEpoch = te\<rparr>)))))))))"

record decoded_offer = decoded_header +
  offer_bytes :: bytes
  publicKey :: bytes

record decoded_advance = decoded_header +
  advance_bytes :: bytes
  advance_offer :: decoded_offer
  ciphertext :: bytes

definition decodeOffer :: "bytes \<Rightarrow> mlkem_suite \<Rightarrow> bytes option \<Rightarrow> pq_error + decoded_offer" where
  "decodeOffer record suite binding =
     rbind (decodeHeader record OFFER_TYPE suite binding) (\<lambda>header.
     rbind (ensure (length record = offerLength suite) (Pq InvalidRecord)) (\<lambda>_.
     Inr \<lparr>senderCounter = senderCounter header, fromEpoch = fromEpoch header, toEpoch = toEpoch header,
          offer_bytes = record, publicKey = drop PQ_HEALING_RECORD_HEADER_BYTES record\<rparr>))"

definition decodeAdvance :: "bytes \<Rightarrow> mlkem_suite \<Rightarrow> bytes option \<Rightarrow> pq_error + decoded_advance" where
  "decodeAdvance record suite binding =
     rbind (decodeHeader record ADVANCE_TYPE suite binding) (\<lambda>header.
     rbind (ensure (length record = advanceLength suite) (Pq InvalidRecord)) (\<lambda>_.
     let nestedOfferLength = offerLength suite;
         offerBytes = sub record PQ_HEALING_RECORD_HEADER_BYTES (PQ_HEALING_RECORD_HEADER_BYTES + nestedOfferLength)
     in rbind (decodeOffer offerBytes suite binding) (\<lambda>offer.
        rbind (ensure (\<not> (fromEpoch offer \<noteq> fromEpoch header \<or> toEpoch offer \<noteq> toEpoch header)) (Pq Fork)) (\<lambda>_.
        Inr \<lparr>senderCounter = senderCounter header, fromEpoch = fromEpoch header, toEpoch = toEpoch header,
             advance_bytes = record, advance_offer = offer,
             ciphertext = drop (PQ_HEALING_RECORD_HEADER_BYTES + nestedOfferLength) record\<rparr>))))"

definition encodeOffer :: "mlkem_suite \<Rightarrow> bytes \<Rightarrow> int \<Rightarrow> int \<Rightarrow> bytes \<Rightarrow> pq_error + bytes" where
  "encodeOffer suite binding sc fe pk =
     rbind (requireBytes pk (publicKeyBytes suite)) (\<lambda>_.
     rbind (encodeHeader OFFER_TYPE suite binding sc fe (fe + 1) (offerLength suite)) (\<lambda>record.
     Inr (set_at record PQ_HEALING_RECORD_HEADER_BYTES pk)))"

definition encodeAdvance :: "mlkem_suite \<Rightarrow> bytes \<Rightarrow> int \<Rightarrow> decoded_offer \<Rightarrow> bytes \<Rightarrow> pq_error + bytes" where
  "encodeAdvance suite binding sc offer ct =
     rbind (requireBytes ct (ciphertextBytes suite)) (\<lambda>_.
     rbind (encodeHeader ADVANCE_TYPE suite binding sc (fromEpoch offer) (toEpoch offer) (advanceLength suite)) (\<lambda>record.
     let record = set_at record PQ_HEALING_RECORD_HEADER_BYTES (offer_bytes offer)
     in Inr (set_at record (PQ_HEALING_RECORD_HEADER_BYTES + length (offer_bytes offer)) ct)))"

datatype inspected_record =
    InspectedOffer decoded_offer bytes
  | InspectedAdvance decoded_advance bytes

text \<open>\<^verbatim>\<open>inspectPqHealingRecord\<close>: the record parsed without an expected edge, with the edge binding it names.\<close>

definition inspectPqHealingRecord :: "bytes \<Rightarrow> mlkem_suite \<Rightarrow> pq_error + inspected_record" where
  "inspectPqHealingRecord record suite =
     rbind (assertCanonicalSuite suite) (\<lambda>_.
     rbind (ensure (\<not> length record < PQ_HEALING_RECORD_HEADER_BYTES) (Pq InvalidRecord)) (\<lambda>_.
     if record ! 5 = OFFER_TYPE then
       rbind (decodeOffer record suite None) (\<lambda>offer. Inr (InspectedOffer offer (sub (offer_bytes offer) 8 40)))
     else if record ! 5 = ADVANCE_TYPE then
       rbind (decodeAdvance record suite None) (\<lambda>adv. Inr (InspectedAdvance adv (sub (advance_bytes adv) 8 40)))
     else Inl (Pq InvalidRecord)))"

definition lift_kdf :: "ratchet_error + 'a \<Rightarrow> pq_error + 'a" where
  "lift_kdf r = (case r of Inl e \<Rightarrow> Inl (KdfFailed e) | Inr x \<Rightarrow> Inr x)"

definition deriveNextRoot :: "'r libcrypto \<Rightarrow> bytes \<Rightarrow> bytes \<Rightarrow> bytes \<Rightarrow> pq_error + bytes" where
  "deriveNextRoot module currentRoot sharedSecret advanceRecord =
     rbind (requireBytes currentRoot PQ_HEALING_ROOT_BYTES) (\<lambda>_.
     rbind (lift_kdf (hkdfExtract module currentRoot sharedSecret)) (\<lambda>prk.
     lift_kdf (hkdfExpand module prk (concatUint8Arrays [KDF_DOMAIN, advanceRecord]) PQ_HEALING_ROOT_BYTES)))"

end
