(* ===== verification/Pq_Machine.thy ===== *)
theory Pq_Machine
  imports Pq_Healing
begin

text \<open>
  \<^verbatim>\<open>PqHealingMachine\<close> of \<^verbatim>\<open>src/src/cryptography/pqHealing.ts\<close>: its private fields as a record, its methods in the
  order of the class, and the snapshot with its validation. A method is a function from the machine to
  its result and the machine afterwards.
\<close>

section \<open>State\<close>

datatype turn = Local | Remote

record mlkem_keypair =
  kp_publicKey :: bytes
  kp_secretKey :: bytes

datatype internal_phase =
    Idle
  | OutboundOffer bool decoded_offer mlkem_keypair
  | InboundOffer decoded_offer
  | OutboundAdvancePrepared decoded_offer decoded_advance bytes
  | OutboundAdvanceAwaitingAck decoded_offer decoded_advance
  | InboundAdvancePrepared decoded_offer decoded_advance mlkem_keypair bytes
  | InboundAdvanceAwaitingAckDispatch decoded_advance

record pq_machine =
  mSuite :: mlkem_suite
  mBinding :: bytes
  mRootKey :: bytes
  mEpoch :: int
  mLocalCounter :: int
  mRemoteCounter :: int
  mNextOfferer :: turn
  mPhase :: internal_phase
  mLastInboundOffer :: "decoded_offer option"
  mLastInboundAdvance :: "decoded_advance option"
  mBusy :: bool
  mDestroyed :: bool

type_synonym 'a pq_result = "(pq_error + 'a) \<times> pq_machine"

definition attempt :: "pq_machine \<Rightarrow> pq_error + 'a \<Rightarrow> ('a \<Rightarrow> 'b pq_result) \<Rightarrow> 'b pq_result" where
  "attempt m r k = (case r of Inl e \<Rightarrow> (Inl e, m) | Inr x \<Rightarrow> k x)"

definition newPqHealingMachine ::
    "mlkem_suite \<Rightarrow> mlkem_suite \<Rightarrow> bytes \<Rightarrow> bytes \<Rightarrow> turn \<Rightarrow> int option \<Rightarrow> int option \<Rightarrow> int option \<Rightarrow> pq_error + pq_machine" where
  "newPqHealingMachine suite backend binding root nextOfferer epochOpt localOpt remoteOpt =
     rbind (assertSameSuite suite backend) (\<lambda>_.
     rbind (requireBytes binding PQ_HEALING_BINDING_BYTES) (\<lambda>_.
     rbind (requireBytes root PQ_HEALING_ROOT_BYTES) (\<lambda>_.
     let epoch = (case epochOpt of None \<Rightarrow> 0 | Some e \<Rightarrow> e);
         localCounter = (case localOpt of None \<Rightarrow> 0 | Some c \<Rightarrow> c);
         remoteCounter = (case remoteOpt of None \<Rightarrow> 0 | Some c \<Rightarrow> c)
     in rbind (requireU64 epoch) (\<lambda>_. rbind (requireU64 localCounter) (\<lambda>_. rbind (requireU64 remoteCounter) (\<lambda>_.
        Inr \<lparr>mSuite = suite, mBinding = binding, mRootKey = root, mEpoch = epoch, mLocalCounter = localCounter,
             mRemoteCounter = remoteCounter, mNextOfferer = nextOfferer, mPhase = Idle, mLastInboundOffer = None,
             mLastInboundAdvance = None, mBusy = False, mDestroyed = False\<rparr>))))))"

section \<open>Private checks\<close>

definition assertActive :: "pq_machine \<Rightarrow> pq_error + unit" where
  "assertActive m = ensure (\<not> mDestroyed m) (Pq Destroyed)"

definition assertSynchronous :: "pq_machine \<Rightarrow> pq_error + unit" where
  "assertSynchronous m = rbind (assertActive m) (\<lambda>_. ensure (\<not> mBusy m) (Pq InvalidState))"

definition assertCanStartExchange :: "pq_machine \<Rightarrow> pq_error + unit" where
  "assertCanStartExchange m =
     rbind (requireIncrementableU64 (mEpoch m)) (\<lambda>_.
     rbind (requireIncrementableU64 (mLocalCounter m)) (\<lambda>_.
     requireIncrementableU64 (mRemoteCounter m)))"

definition requireExpectedCounter :: "int \<Rightarrow> pq_machine \<Rightarrow> pq_error + unit" where
  "requireExpectedCounter counter m =
     rbind (ensure (\<not> counter < mRemoteCounter m) (Pq Replay)) (\<lambda>_.
     ensure (\<not> counter > mRemoteCounter m) (Pq CounterGap))"

definition requireExpectedEpoch :: "int \<Rightarrow> pq_machine \<Rightarrow> pq_error + unit" where
  "requireExpectedEpoch fe m =
     rbind (ensure (\<not> fe < mEpoch m) (Pq Replay)) (\<lambda>_. ensure (\<not> fe > mEpoch m) (Pq EpochGap))"

definition sameOfferSlot :: "decoded_offer \<Rightarrow> decoded_offer \<Rightarrow> bool" where
  "sameOfferSlot l r \<longleftrightarrow> senderCounter l = senderCounter r \<and> fromEpoch l = fromEpoch r \<and> toEpoch l = toEpoch r"

definition sameAdvanceSlot :: "decoded_advance \<Rightarrow> decoded_advance \<Rightarrow> bool" where
  "sameAdvanceSlot l r \<longleftrightarrow> senderCounter l = senderCounter r \<and> fromEpoch l = fromEpoch r \<and> toEpoch l = toEpoch r"

definition rejectKnownOfferReplayOrFork :: "decoded_offer \<Rightarrow> pq_machine \<Rightarrow> pq_error + unit" where
  "rejectKnownOfferReplayOrFork offer m =
     (let known = (case mPhase m of
                     InboundOffer o1 \<Rightarrow> Some o1
                   | OutboundAdvancePrepared o1 _ _ \<Rightarrow> Some o1
                   | OutboundAdvanceAwaitingAck o1 _ \<Rightarrow> Some o1
                   | _ \<Rightarrow> mLastInboundOffer m)
      in case known of
           None \<Rightarrow> Inr ()
         | Some k \<Rightarrow> if \<not> sameOfferSlot offer k then Inr ()
                     else if bytesEqual (offer_bytes offer) (offer_bytes k) then Inl (Pq Replay)
                     else Inl (Pq Fork))"

definition rejectKnownAdvanceReplayOrFork :: "decoded_advance \<Rightarrow> pq_machine \<Rightarrow> pq_error + unit" where
  "rejectKnownAdvanceReplayOrFork adv m =
     (let known = (case mPhase m of
                     InboundAdvancePrepared _ a _ _ \<Rightarrow> Some a
                   | InboundAdvanceAwaitingAckDispatch a \<Rightarrow> Some a
                   | _ \<Rightarrow> mLastInboundAdvance m)
      in case known of
           None \<Rightarrow> Inr ()
         | Some k \<Rightarrow> if \<not> sameAdvanceSlot adv k then Inr ()
                     else if bytesEqual (advance_bytes adv) (advance_bytes k) then Inl (Pq Replay)
                     else Inl (Pq Fork))"

section \<open>Offering\<close>

definition trafficBlocked :: "pq_machine \<Rightarrow> bool" where
  "trafficBlocked m \<longleftrightarrow> mDestroyed m \<or> mPhase m \<noteq> Idle"

definition copyRootKey :: "pq_machine \<Rightarrow> bytes pq_result" where
  "copyRootKey m = attempt m (assertActive m) (\<lambda>_. (Inr (mRootKey m), m))"

definition copyPendingOutboundRecord :: "pq_machine \<Rightarrow> bytes pq_result" where
  "copyPendingOutboundRecord m =
     attempt m (assertSynchronous m) (\<lambda>_.
       case mPhase m of
         OutboundOffer _ offer _ \<Rightarrow> (Inr (offer_bytes offer), m)
       | OutboundAdvancePrepared _ adv _ \<Rightarrow> (Inr (advance_bytes adv), m)
       | OutboundAdvanceAwaitingAck _ adv \<Rightarrow> (Inr (advance_bytes adv), m)
       | _ \<Rightarrow> (Inl (Pq InvalidState), m))"

text \<open>\<^verbatim>\<open>prepareOffer\<close> up to its \<^verbatim>\<open>await\<close>, and from there with the key pair the backend produced.\<close>

definition prepareOffer_start :: "pq_machine \<Rightarrow> unit pq_result" where
  "prepareOffer_start m =
     attempt m (assertSynchronous m) (\<lambda>_.
     let m = m\<lparr>mBusy := True\<rparr>
     in attempt (m\<lparr>mBusy := False\<rparr>)
          (rbind (ensure (mPhase m = Idle) (Pq InvalidState)) (\<lambda>_.
           rbind (ensure (mNextOfferer m = Local) (Pq WrongTurn)) (\<lambda>_.
           assertCanStartExchange m)))
          (\<lambda>_. (Inr (), m)))"

definition prepareOffer_resume :: "mlkem_keypair option \<Rightarrow> pq_machine \<Rightarrow> bytes pq_result" where
  "prepareOffer_resume answer m =
     (let ended = m\<lparr>mBusy := False\<rparr>
      in case answer of
           None \<Rightarrow> (Inl BackendRejected, ended)
         | Some kp \<Rightarrow>
             attempt ended
               (rbind (assertActive m) (\<lambda>_.
                rbind (requireBytes (kp_publicKey kp) (publicKeyBytes (mSuite m))) (\<lambda>_.
                rbind (requireBytes (kp_secretKey kp) (secretKeyBytes (mSuite m))) (\<lambda>_.
                rbind (encodeOffer (mSuite m) (mBinding m) (mLocalCounter m) (mEpoch m) (kp_publicKey kp)) (\<lambda>bytes.
                rbind (decodeOffer bytes (mSuite m) (Some (mBinding m))) (\<lambda>offer.
                Inr (bytes, offer)))))))
               (\<lambda>(bytes, offer). (Inr bytes, ended\<lparr>mPhase := OutboundOffer False offer kp\<rparr>)))"

definition markOfferDispatched :: "pq_machine \<Rightarrow> unit pq_result" where
  "markOfferDispatched m =
     attempt m (assertSynchronous m) (\<lambda>_.
       case mPhase m of
         OutboundOffer dispatched offer kp \<Rightarrow>
           if dispatched then (Inl (Pq InvalidState), m) else (Inr (), m\<lparr>mPhase := OutboundOffer True offer kp\<rparr>)
       | _ \<Rightarrow> (Inl (Pq InvalidState), m))"

definition abortUnsentOffer :: "pq_machine \<Rightarrow> unit pq_result" where
  "abortUnsentOffer m =
     attempt m (assertSynchronous m) (\<lambda>_.
       case mPhase m of
         OutboundOffer False _ _ \<Rightarrow> (Inr (), m\<lparr>mPhase := Idle\<rparr>)
       | _ \<Rightarrow> (Inl (Pq InvalidState), m))"

section \<open>Answering an offer\<close>

definition acceptAuthenticatedOffer :: "bytes \<Rightarrow> pq_machine \<Rightarrow> unit pq_result" where
  "acceptAuthenticatedOffer record m =
     attempt m
       (rbind (assertSynchronous m) (\<lambda>_.
        rbind (decodeOffer record (mSuite m) (Some (mBinding m))) (\<lambda>offer.
        rbind (rejectKnownOfferReplayOrFork offer m) (\<lambda>_.
        rbind (ensure (mPhase m = Idle) (Pq InvalidState)) (\<lambda>_.
        rbind (ensure (mNextOfferer m = Remote) (Pq WrongTurn)) (\<lambda>_.
        rbind (requireExpectedCounter (senderCounter offer) m) (\<lambda>_.
        rbind (requireExpectedEpoch (fromEpoch offer) m) (\<lambda>_.
        rbind (assertCanStartExchange m) (\<lambda>_. Inr offer)))))))))
       (\<lambda>offer. (Inr (), m\<lparr>mPhase := InboundOffer offer\<rparr>))"

definition prepareAdvance_start :: "pq_machine \<Rightarrow> decoded_offer pq_result" where
  "prepareAdvance_start m =
     attempt m (assertSynchronous m) (\<lambda>_.
     let m = m\<lparr>mBusy := True\<rparr>
     in case mPhase m of
          InboundOffer offer \<Rightarrow>
            attempt (m\<lparr>mBusy := False\<rparr>) (requireIncrementableU64 (mLocalCounter m)) (\<lambda>_. (Inr offer, m))
        | _ \<Rightarrow> (Inl (Pq InvalidState), m\<lparr>mBusy := False\<rparr>))"

definition prepareAdvance_resume ::
    "'r libcrypto \<Rightarrow> decoded_offer \<Rightarrow> (bytes \<times> bytes) option \<Rightarrow> pq_machine \<Rightarrow> bytes pq_result" where
  "prepareAdvance_resume module offer answer m =
     (let ended = m\<lparr>mBusy := False\<rparr>
      in case answer of
           None \<Rightarrow> (Inl BackendRejected, ended)
         | Some (ct, ss) \<Rightarrow>
             attempt ended
               (rbind (assertActive m) (\<lambda>_.
                rbind (requireBytes ct (ciphertextBytes (mSuite m))) (\<lambda>_.
                rbind (requireBytes ss (sharedSecretBytes (mSuite m))) (\<lambda>_.
                rbind (encodeAdvance (mSuite m) (mBinding m) (mLocalCounter m) offer ct) (\<lambda>bytes.
                rbind (decodeAdvance bytes (mSuite m) (Some (mBinding m))) (\<lambda>adv.
                rbind (deriveNextRoot module (mRootKey m) ss bytes) (\<lambda>nextRoot.
                Inr (bytes, adv, nextRoot))))))))
               (\<lambda>(bytes, adv, nextRoot). (Inr bytes, ended\<lparr>mPhase := OutboundAdvancePrepared offer adv nextRoot\<rparr>)))"

definition commitPreparedAdvance :: "pq_machine \<Rightarrow> bytes pq_result" where
  "commitPreparedAdvance m =
     attempt m (assertSynchronous m) (\<lambda>_.
       case mPhase m of
         OutboundAdvancePrepared offer adv nextRoot \<Rightarrow>
           attempt m (requireBytes nextRoot PQ_HEALING_ROOT_BYTES) (\<lambda>_.
             (Inr (advance_bytes adv),
              m\<lparr>mRootKey := nextRoot, mEpoch := toEpoch adv, mLocalCounter := mLocalCounter m + 1,
                mRemoteCounter := mRemoteCounter m + 1, mNextOfferer := Local, mLastInboundOffer := Some offer,
                mPhase := OutboundAdvanceAwaitingAck offer adv\<rparr>))
       | _ \<Rightarrow> (Inl (Pq InvalidState), m))"

definition acceptAuthenticatedAdvanceAcknowledgement :: "acknowledgement \<Rightarrow> pq_machine \<Rightarrow> unit pq_result" where
  "acceptAuthenticatedAdvanceAcknowledgement a m =
     attempt m (rbind (assertSynchronous m) (\<lambda>_. requireAcknowledgement a)) (\<lambda>ack.
       case mPhase m of
         OutboundAdvanceAwaitingAck _ adv \<Rightarrow>
           if ack_epoch ack \<noteq> mEpoch m \<or> ack_advanceCounter ack \<noteq> senderCounter adv then (Inl (Pq InvalidRecord), m)
           else (Inr (), m\<lparr>mPhase := Idle\<rparr>)
       | _ \<Rightarrow> (Inl (Pq InvalidState), m))"

section \<open>Accepting the answer\<close>

definition acceptAuthenticatedAdvance_start ::
    "bytes \<Rightarrow> pq_machine \<Rightarrow> (decoded_advance \<times> decoded_offer \<times> mlkem_keypair) pq_result" where
  "acceptAuthenticatedAdvance_start record m =
     attempt m (assertSynchronous m) (\<lambda>_.
     let m = m\<lparr>mBusy := True\<rparr>; ended = m\<lparr>mBusy := False\<rparr>
     in attempt ended
          (rbind (decodeAdvance record (mSuite m) (Some (mBinding m))) (\<lambda>adv.
           rbind (rejectKnownAdvanceReplayOrFork adv m) (\<lambda>_. Inr adv)))
          (\<lambda>adv. case mPhase m of
             OutboundOffer True offer kp \<Rightarrow>
               attempt ended
                 (rbind (requireExpectedCounter (senderCounter adv) m) (\<lambda>_.
                  rbind (requireExpectedEpoch (fromEpoch adv) m) (\<lambda>_.
                  ensure (bytesEqual (offer_bytes (advance_offer adv)) (offer_bytes offer)) (Pq Fork))))
                 (\<lambda>_. (Inr (adv, offer, kp), m))
           | _ \<Rightarrow> (Inl (Pq InvalidState), ended)))"

definition acceptAuthenticatedAdvance_resume ::
    "'r libcrypto \<Rightarrow> decoded_advance \<times> decoded_offer \<times> mlkem_keypair \<Rightarrow> bytes option \<Rightarrow> pq_machine \<Rightarrow> unit pq_result" where
  "acceptAuthenticatedAdvance_resume module pending answer m =
     (let ended = m\<lparr>mBusy := False\<rparr>; (adv, offer, kp) = pending
      in case answer of
           None \<Rightarrow> (Inl BackendRejected, ended)
         | Some ss \<Rightarrow>
             attempt ended
               (rbind (assertActive m) (\<lambda>_.
                rbind (requireBytes ss (sharedSecretBytes (mSuite m))) (\<lambda>_.
                deriveNextRoot module (mRootKey m) ss (advance_bytes adv))))
               (\<lambda>nextRoot. (Inr (), ended\<lparr>mPhase := InboundAdvancePrepared offer adv kp nextRoot\<rparr>)))"

definition wipe :: "bytes \<Rightarrow> bytes" where
  "wipe b = zeros (length b)"

definition destroy_keypair :: "mlkem_keypair \<Rightarrow> mlkem_keypair" where
  "destroy_keypair kp = kp\<lparr>kp_secretKey := wipe (kp_secretKey kp)\<rparr>"

definition commitAcceptedAdvance :: "pq_machine \<Rightarrow> acknowledgement pq_result" where
  "commitAcceptedAdvance m =
     attempt m (assertSynchronous m) (\<lambda>_.
       case mPhase m of
         InboundAdvancePrepared offer adv kp nextRoot \<Rightarrow>
           let m = m\<lparr>mPhase := InboundAdvancePrepared offer adv (destroy_keypair kp) nextRoot\<rparr>
           in attempt m (requireBytes nextRoot PQ_HEALING_ROOT_BYTES) (\<lambda>_.
                let m = m\<lparr>mRootKey := nextRoot, mEpoch := toEpoch adv, mLocalCounter := mLocalCounter m + 1,
                          mRemoteCounter := mRemoteCounter m + 1, mNextOfferer := Remote,
                          mLastInboundAdvance := Some adv, mPhase := InboundAdvanceAwaitingAckDispatch adv\<rparr>
                in (Inr \<lparr>ack_epoch = mEpoch m, ack_advanceCounter = senderCounter adv\<rparr>, m))
       | _ \<Rightarrow> (Inl (Pq InvalidState), m))"

definition markAdvanceAcknowledgementDispatched :: "acknowledgement \<Rightarrow> pq_machine \<Rightarrow> unit pq_result" where
  "markAdvanceAcknowledgementDispatched a m =
     attempt m (rbind (assertSynchronous m) (\<lambda>_. requireAcknowledgement a)) (\<lambda>ack.
       case mPhase m of
         InboundAdvanceAwaitingAckDispatch adv \<Rightarrow>
           if ack_epoch ack \<noteq> mEpoch m \<or> ack_advanceCounter ack \<noteq> senderCounter adv then (Inl (Pq InvalidRecord), m)
           else (Inr (), m\<lparr>mPhase := Idle\<rparr>)
       | _ \<Rightarrow> (Inl (Pq InvalidState), m))"

section \<open>Ending\<close>

definition destroy :: "pq_machine \<Rightarrow> pq_machine" where
  "destroy m =
     (if mDestroyed m then m
      else m\<lparr>mRootKey := wipe (mRootKey m), mBinding := wipe (mBinding m), mLastInboundOffer := None,
             mLastInboundAdvance := None, mPhase := Idle, mDestroyed := True\<rparr>)"

text \<open>\<^verbatim>\<open>adopt\<close> takes both machines and returns both; that a machine adopts itself is the flag \<open>same\<close>.\<close>

definition adopt :: "bool \<Rightarrow> pq_machine \<Rightarrow> pq_machine \<Rightarrow> (pq_error + unit) \<times> pq_machine \<times> pq_machine" where
  "adopt same m nxt =
     (case rbind (assertSynchronous m) (\<lambda>_. rbind (assertSynchronous nxt) (\<lambda>_.
             rbind (ensure (\<not> same) (Pq InvalidState)) (\<lambda>_.
             ensure (\<not> (parameterSet (mSuite m) \<noteq> parameterSet (mSuite nxt) \<or> \<not> bytesEqual (mBinding m) (mBinding nxt)))
               (Pq InvalidState)))) of
        Inl e \<Rightarrow> (Inl e, m, nxt)
      | Inr _ \<Rightarrow>
          (Inr (),
           m\<lparr>mRootKey := mRootKey nxt, mEpoch := mEpoch nxt, mLocalCounter := mLocalCounter nxt,
             mRemoteCounter := mRemoteCounter nxt, mNextOfferer := mNextOfferer nxt, mPhase := mPhase nxt,
             mLastInboundOffer := mLastInboundOffer nxt, mLastInboundAdvance := mLastInboundAdvance nxt\<rparr>,
           nxt\<lparr>mRootKey := zeros PQ_HEALING_ROOT_BYTES, mBinding := wipe (mBinding nxt), mPhase := Idle,
               mLastInboundOffer := None, mLastInboundAdvance := None, mDestroyed := True\<rparr>))"

section \<open>Snapshots\<close>

datatype snapshot_phase =
    SIdle
  | SOutboundOffer bool bytes bytes
  | SInboundOffer bytes
  | SOutboundAdvancePrepared bytes bytes
  | SOutboundAdvanceAwaitingAck bytes
  | SInboundAdvancePrepared bytes bytes bytes
  | SInboundAdvanceAwaitingAckDispatch bytes
  | SUnknown string

record pq_snapshot =
  s_formatVersion :: int
  s_parameterSet :: nat
  s_binding :: bytes
  s_rootKey :: bytes
  s_epoch :: int
  s_localCounter :: int
  s_remoteCounter :: int
  s_nextOfferer :: string
  s_phase :: snapshot_phase
  s_lastInboundOffer :: "bytes option"
  s_lastInboundAdvance :: "bytes option"

fun snapshotPhase :: "internal_phase \<Rightarrow> snapshot_phase" where
  "snapshotPhase Idle = SIdle"
| "snapshotPhase (OutboundOffer d offer kp) = SOutboundOffer d (offer_bytes offer) (kp_secretKey kp)"
| "snapshotPhase (InboundOffer offer) = SInboundOffer (offer_bytes offer)"
| "snapshotPhase (OutboundAdvancePrepared _ adv root) = SOutboundAdvancePrepared (advance_bytes adv) root"
| "snapshotPhase (OutboundAdvanceAwaitingAck _ adv) = SOutboundAdvanceAwaitingAck (advance_bytes adv)"
| "snapshotPhase (InboundAdvancePrepared _ adv kp root) = SInboundAdvancePrepared (advance_bytes adv) (kp_secretKey kp) root"
| "snapshotPhase (InboundAdvanceAwaitingAckDispatch adv) = SInboundAdvanceAwaitingAckDispatch (advance_bytes adv)"

definition turn_name :: "turn \<Rightarrow> string" where
  "turn_name t = (case t of Local \<Rightarrow> ''local'' | Remote \<Rightarrow> ''remote'')"

definition turn_of :: "string \<Rightarrow> pq_error + turn" where
  "turn_of name =
     (if name = ''local'' then Inr Local else if name = ''remote'' then Inr Remote else Inl (Pq InvalidRecord))"

definition snapshot :: "pq_machine \<Rightarrow> pq_error + pq_snapshot" where
  "snapshot m =
     rbind (assertSynchronous m) (\<lambda>_.
     Inr \<lparr>s_formatVersion = PQ_HEALING_SNAPSHOT_FORMAT_VERSION, s_parameterSet = parameterSet (mSuite m),
          s_binding = mBinding m, s_rootKey = mRootKey m, s_epoch = mEpoch m, s_localCounter = mLocalCounter m,
          s_remoteCounter = mRemoteCounter m, s_nextOfferer = turn_name (mNextOfferer m),
          s_phase = snapshotPhase (mPhase m), s_lastInboundOffer = map_option offer_bytes (mLastInboundOffer m),
          s_lastInboundAdvance = map_option advance_bytes (mLastInboundAdvance m)\<rparr>)"

definition decode_snap_offer :: "mlkem_suite \<Rightarrow> bytes \<Rightarrow> bytes \<Rightarrow> pq_error + decoded_offer" where
  "decode_snap_offer suite binding record =
     rbind (requireBytes record (offerLength suite)) (\<lambda>_. decodeOffer record suite (Some binding))"

definition decode_snap_advance :: "mlkem_suite \<Rightarrow> bytes \<Rightarrow> bytes \<Rightarrow> pq_error + decoded_advance" where
  "decode_snap_advance suite binding record =
     rbind (requireBytes record (advanceLength suite)) (\<lambda>_. decodeAdvance record suite (Some binding))"

fun decodeSnapshotPhase :: "mlkem_suite \<Rightarrow> bytes \<Rightarrow> snapshot_phase \<Rightarrow> pq_error + internal_phase" where
  "decodeSnapshotPhase suite binding SIdle = Inr Idle"
| "decodeSnapshotPhase suite binding (SOutboundOffer dispatched offer secretKey) =
     rbind (decode_snap_offer suite binding offer) (\<lambda>decoded.
     rbind (requireBytes secretKey (secretKeyBytes suite)) (\<lambda>_.
     Inr (OutboundOffer dispatched decoded \<lparr>kp_publicKey = publicKey decoded, kp_secretKey = secretKey\<rparr>)))"
| "decodeSnapshotPhase suite binding (SInboundOffer offer) =
     rbind (decode_snap_offer suite binding offer) (\<lambda>decoded. Inr (InboundOffer decoded))"
| "decodeSnapshotPhase suite binding (SOutboundAdvancePrepared advance nextRoot) =
     rbind (decode_snap_advance suite binding advance) (\<lambda>decoded.
     rbind (requireBytes nextRoot PQ_HEALING_ROOT_BYTES) (\<lambda>_.
     Inr (OutboundAdvancePrepared (advance_offer decoded) decoded nextRoot)))"
| "decodeSnapshotPhase suite binding (SOutboundAdvanceAwaitingAck advance) =
     rbind (decode_snap_advance suite binding advance) (\<lambda>decoded.
     Inr (OutboundAdvanceAwaitingAck (advance_offer decoded) decoded))"
| "decodeSnapshotPhase suite binding (SInboundAdvancePrepared advance secretKey nextRoot) =
     rbind (decode_snap_advance suite binding advance) (\<lambda>decoded.
     rbind (requireBytes secretKey (secretKeyBytes suite)) (\<lambda>_.
     rbind (requireBytes nextRoot PQ_HEALING_ROOT_BYTES) (\<lambda>_.
     Inr (InboundAdvancePrepared (advance_offer decoded) decoded
            \<lparr>kp_publicKey = publicKey (advance_offer decoded), kp_secretKey = secretKey\<rparr> nextRoot))))"
| "decodeSnapshotPhase suite binding (SInboundAdvanceAwaitingAckDispatch advance) =
     rbind (decode_snap_advance suite binding advance) (\<lambda>decoded. Inr (InboundAdvanceAwaitingAckDispatch decoded))"
| "decodeSnapshotPhase suite binding (SUnknown kind) = Inl (Pq InvalidRecord)"

definition validateSnapshotState ::
    "int \<Rightarrow> int \<Rightarrow> int \<Rightarrow> turn \<Rightarrow> internal_phase \<Rightarrow> decoded_offer option \<Rightarrow> decoded_advance option \<Rightarrow> bool" where
  "validateSnapshotState epoch localCounter remoteCounter nextOfferer phase lastOffer lastAdvance \<longleftrightarrow>
     (case lastOffer of None \<Rightarrow> True | Some x \<Rightarrow> toEpoch x \<le> epoch \<and> senderCounter x < remoteCounter) \<and>
     (case lastAdvance of None \<Rightarrow> True | Some x \<Rightarrow> toEpoch x \<le> epoch \<and> senderCounter x < remoteCounter) \<and>
     (case phase of
        Idle \<Rightarrow> True
      | OutboundOffer _ offer _ \<Rightarrow>
          nextOfferer = Local \<and> senderCounter offer = localCounter \<and> fromEpoch offer = epoch
      | InboundOffer offer \<Rightarrow>
          nextOfferer = Remote \<and> senderCounter offer = remoteCounter \<and> fromEpoch offer = epoch
      | OutboundAdvancePrepared offer adv _ \<Rightarrow>
          nextOfferer = Remote \<and> senderCounter adv = localCounter \<and> senderCounter offer = remoteCounter \<and>
          fromEpoch adv = epoch
      | OutboundAdvanceAwaitingAck offer adv \<Rightarrow>
          nextOfferer = Local \<and> senderCounter adv + 1 = localCounter \<and> senderCounter offer + 1 = remoteCounter \<and>
          toEpoch adv = epoch \<and>
          (case lastOffer of None \<Rightarrow> False | Some x \<Rightarrow> bytesEqual (offer_bytes x) (offer_bytes offer))
      | InboundAdvancePrepared offer adv _ _ \<Rightarrow>
          nextOfferer = Local \<and> senderCounter adv = remoteCounter \<and> senderCounter offer = localCounter \<and>
          fromEpoch adv = epoch
      | InboundAdvanceAwaitingAckDispatch adv \<Rightarrow>
          nextOfferer = Remote \<and> senderCounter adv + 1 = remoteCounter \<and>
          senderCounter (advance_offer adv) + 1 = localCounter \<and> toEpoch adv = epoch \<and>
          (case lastAdvance of None \<Rightarrow> False | Some x \<Rightarrow> bytesEqual (advance_bytes x) (advance_bytes adv)))"

definition decode_optional :: "('a \<Rightarrow> pq_error + 'b) \<Rightarrow> 'a option \<Rightarrow> pq_error + 'b option" where
  "decode_optional f r = (case r of None \<Rightarrow> Inr None | Some x \<Rightarrow> rbind (f x) (\<lambda>y. Inr (Some y)))"

text \<open>The checks of a snapshot, in their order, and the machine rebuilt from what they return.\<close>

definition decodePqHealingSnapshot ::
    "pq_snapshot \<Rightarrow> mlkem_suite \<Rightarrow> mlkem_suite \<Rightarrow> bytes \<Rightarrow>
     pq_error + turn \<times> internal_phase \<times> decoded_offer option \<times> decoded_advance option" where
  "decodePqHealingSnapshot s suite backend binding =
     rbind (assertSameSuite suite backend) (\<lambda>_.
     rbind (requireBytes binding PQ_HEALING_BINDING_BYTES) (\<lambda>_.
     rbind (ensure (s_formatVersion s = PQ_HEALING_SNAPSHOT_FORMAT_VERSION) (Pq InvalidRecord)) (\<lambda>_.
     rbind (ensure (s_parameterSet s = parameterSet suite) (Pq SuiteMismatch)) (\<lambda>_.
     rbind (requireBytes (s_binding s) PQ_HEALING_BINDING_BYTES) (\<lambda>_.
     rbind (ensure (bytesEqual (s_binding s) binding) (Pq BindingMismatch)) (\<lambda>_.
     rbind (requireBytes (s_rootKey s) PQ_HEALING_ROOT_BYTES) (\<lambda>_.
     rbind (requireU64 (s_epoch s)) (\<lambda>_.
     rbind (requireU64 (s_localCounter s)) (\<lambda>_.
     rbind (requireU64 (s_remoteCounter s)) (\<lambda>_.
     rbind (turn_of (s_nextOfferer s)) (\<lambda>nextOfferer.
     rbind (decodeSnapshotPhase suite binding (s_phase s)) (\<lambda>phase.
     rbind (decode_optional (decode_snap_offer suite binding) (s_lastInboundOffer s)) (\<lambda>lastInboundOffer.
     rbind (decode_optional (decode_snap_advance suite binding) (s_lastInboundAdvance s)) (\<lambda>lastInboundAdvance.
     rbind (ensure (validateSnapshotState (s_epoch s) (s_localCounter s) (s_remoteCounter s) nextOfferer phase
              lastInboundOffer lastInboundAdvance) (Pq InvalidRecord)) (\<lambda>_.
     Inr (nextOfferer, phase, lastInboundOffer, lastInboundAdvance))))))))))))))))"

definition restore :: "pq_snapshot \<Rightarrow> mlkem_suite \<Rightarrow> mlkem_suite \<Rightarrow> bytes \<Rightarrow> pq_error + pq_machine" where
  "restore s suite backend binding =
     rbind (decodePqHealingSnapshot s suite backend binding) (\<lambda>(nextOfferer, phase, lastInboundOffer, lastInboundAdvance).
     rbind (newPqHealingMachine suite backend binding (s_rootKey s) nextOfferer (Some (s_epoch s))
              (Some (s_localCounter s)) (Some (s_remoteCounter s))) (\<lambda>machine.
     Inr (machine\<lparr>mPhase := phase, mLastInboundOffer := lastInboundOffer,
                  mLastInboundAdvance := lastInboundAdvance\<rparr>)))"

definition clone :: "mlkem_suite \<Rightarrow> pq_machine \<Rightarrow> pq_error + pq_machine" where
  "clone backend m = rbind (snapshot m) (\<lambda>s. restore s (mSuite m) backend (mBinding m))"

fun wipe_phase :: "snapshot_phase \<Rightarrow> snapshot_phase" where
  "wipe_phase (SOutboundOffer d offer sk) = SOutboundOffer d (wipe offer) (wipe sk)"
| "wipe_phase (SInboundOffer offer) = SInboundOffer (wipe offer)"
| "wipe_phase (SOutboundAdvancePrepared adv root) = SOutboundAdvancePrepared (wipe adv) (wipe root)"
| "wipe_phase (SOutboundAdvanceAwaitingAck adv) = SOutboundAdvanceAwaitingAck (wipe adv)"
| "wipe_phase (SInboundAdvancePrepared adv sk root) = SInboundAdvancePrepared (wipe adv) (wipe sk) (wipe root)"
| "wipe_phase (SInboundAdvanceAwaitingAckDispatch adv) = SInboundAdvanceAwaitingAckDispatch (wipe adv)"
| "wipe_phase p = p"

definition wipePqHealingSnapshot :: "pq_snapshot \<Rightarrow> pq_snapshot" where
  "wipePqHealingSnapshot s =
     s\<lparr>s_binding := wipe (s_binding s), s_rootKey := wipe (s_rootKey s),
       s_lastInboundOffer := map_option wipe (s_lastInboundOffer s),
       s_lastInboundAdvance := map_option wipe (s_lastInboundAdvance s), s_phase := wipe_phase (s_phase s)\<rparr>"

end
