(* ===== verification/Pq_Records.thy ===== *)
theory Pq_Records
  imports Pq_Machine
begin

text \<open>
  The records of the healing protocol on the wire: encoding and decoding of OFFER, ADVANCE and ACK are
  inverse, and a decoder accepts only what the encoder can produce.
\<close>

section \<open>The header\<close>

definition header_layout :: "byte \<Rightarrow> byte \<Rightarrow> bytes \<Rightarrow> int \<Rightarrow> int \<Rightarrow> int \<Rightarrow> bytes" where
  "header_layout ty tag binding sc fe te =
     PQ_MAGIC @ [PQ_FORMAT_VERSION, ty, tag, RESERVED_FLAGS] @ binding @ be_enc 8 (nat sc) @ be_enc 8 (nat fe) @ be_enc 8 (nat te)"

definition canonical :: "mlkem_suite \<Rightarrow> bool" where
  "canonical suite \<longleftrightarrow> suite \<in> {ML_KEM_512_SUITE, ML_KEM_768_SUITE, ML_KEM_1024_SUITE}"

definition suite_tag :: "mlkem_suite \<Rightarrow> byte" where
  "suite_tag suite = (if parameterSet suite = 768 then 1 else if parameterSet suite = 512 then 2 else 3)"

lemma assertCanonicalSuite_iff: "assertCanonicalSuite suite = Inr () \<longleftrightarrow> canonical suite"
  by (cases suite)
    (auto simp: assertCanonicalSuite_def getMlKemSuite_def canonical_def ML_KEM_512_SUITE_def ML_KEM_768_SUITE_def
      ML_KEM_1024_SUITE_def result_simps split: if_splits)

lemma assertSameSuite_iff: "assertSameSuite s t = Inr () \<longleftrightarrow> canonical s \<and> s = t"
  by (auto simp: assertSameSuite_def result_simps assertCanonicalSuite_iff canonical_def ML_KEM_512_SUITE_def
      ML_KEM_768_SUITE_def ML_KEM_1024_SUITE_def)

definition known :: "mlkem_suite \<Rightarrow> bool" where
  "known suite \<longleftrightarrow> parameterSet suite \<in> {512, 768, 1024}"

lemma canonical_known: "canonical suite \<Longrightarrow> known suite"
  by (auto simp: canonical_def known_def ML_KEM_512_SUITE_def ML_KEM_768_SUITE_def ML_KEM_1024_SUITE_def)

lemma suite_tags:
  assumes "known suite"
  shows "parameterSetToTag (parameterSet suite) = Inr (suite_tag suite)"
    "tagToParameterSet t = Inr (parameterSet suite) \<longleftrightarrow> t = suite_tag suite"
  using assms by (auto simp: known_def parameterSetToTag_def tagToParameterSet_def suite_tag_def)

lemma length_header: "length binding = 32 \<Longrightarrow> length (header_layout ty tag binding sc fe te) = 64"
  by (simp add: header_layout_def PQ_MAGIC_def)

lemma header_fields:
  assumes "length binding = 32"
  shows "sub (header_layout ty tag binding sc fe te @ rest) 0 4 = PQ_MAGIC"
    "(header_layout ty tag binding sc fe te @ rest) ! 4 = PQ_FORMAT_VERSION"
    "(header_layout ty tag binding sc fe te @ rest) ! 5 = ty" "(header_layout ty tag binding sc fe te @ rest) ! 6 = tag"
    "(header_layout ty tag binding sc fe te @ rest) ! 7 = RESERVED_FLAGS"
    "sub (header_layout ty tag binding sc fe te @ rest) 8 40 = binding"
    "sub (header_layout ty tag binding sc fe te @ rest) 40 48 = be_enc 8 (nat sc)"
    "sub (header_layout ty tag binding sc fe te @ rest) 48 56 = be_enc 8 (nat fe)"
    "sub (header_layout ty tag binding sc fe te @ rest) 56 64 = be_enc 8 (nat te)"
  using assms by (simp_all add: header_layout_def PQ_MAGIC_def sub_def nth_append)

definition u64_ok :: "int \<Rightarrow> bool" where
  "u64_ok v \<longleftrightarrow> 0 \<le> v \<and> v \<le> MAX_U64"

lemma u64_back: "u64_ok v \<Longrightarrow> int (be_dec (be_enc 8 (nat v))) = v"
  by (subst be_dec_enc_u64) (auto simp: u64_ok_def MAX_U64_def)

lemma requireU64_iff [simp]: "requireU64 v = Inr () \<longleftrightarrow> u64_ok v"
  by (auto simp: requireU64_def u64_ok_def)

lemma requireU64_ok [simp]: "u64_ok v \<Longrightarrow> requireU64 v = Inr ()"
  by simp

lemma getU64_ok: "off + 8 \<le> length r \<Longrightarrow> u64_ok (getU64 r off)"
proof -
  assume "off + 8 \<le> length r"
  then have "be_dec (sub r off (off + 8)) < 256 ^ 8" using be_dec_sub_less [of "off + 8" r off] by simp
  then have "int (be_dec (sub r off (off + 8))) < 18446744073709551616" by simp
  then show ?thesis by (simp add: u64_ok_def getU64_def MAX_U64_def)
qed

lemma header_split:
  assumes "64 \<le> length r" "sub r 0 4 = PQ_MAGIC" "r ! 4 = PQ_FORMAT_VERSION" "r ! 7 = RESERVED_FLAGS"
  shows "r = header_layout (r ! 5) (r ! 6) (sub r 8 40) (getU64 r 40) (getU64 r 48) (getU64 r 56) @ drop 64 r"
proof -
  have be: "be_enc 8 (nat (getU64 r k)) = sub r k (k + 8)" if "k + 8 \<le> length r" for k
    using that be_enc_sub [of "k + 8" r k] by (simp add: getU64_def)
  have bytes: "sub r 4 8 = [r ! 4, r ! 5, r ! 6, r ! 7]"
    using assms(1) sub_join [of 4 5 8 r] sub_join [of 5 6 8 r] sub_join [of 6 7 8 r]
      sub_single [of 4 r] sub_single [of 5 r] sub_single [of 6 r] sub_single [of 7 r] by simp
  have "sub r 0 64 = sub r 0 4 @ sub r 4 8 @ sub r 8 40 @ sub r 40 48 @ sub r 48 56 @ sub r 56 64"
    by (simp add: sub_join)
  then have "sub r 0 64 = header_layout (r ! 5) (r ! 6) (sub r 8 40) (getU64 r 40) (getU64 r 48) (getU64 r 56)"
    using assms be [of 40] be [of 48] be [of 56] by (simp add: header_layout_def bytes del: be_enc.simps)
  moreover have "r = sub r 0 64 @ drop 64 r" by (simp add: sub_def)
  ultimately show ?thesis by metis
qed

lemma decodeHeader_layout:
  assumes "known suite" "length binding = 32" "u64_ok sc" "u64_ok fe" "fe \<noteq> MAX_U64"
  shows "decodeHeader (header_layout ty (suite_tag suite) binding sc fe (fe + 1) @ rest) ty suite (Some binding) =
    Inr \<lparr>senderCounter = sc, fromEpoch = fe, toEpoch = fe + 1\<rparr>"
proof -
  have "u64_ok (fe + 1)" using assms(4,5) by (auto simp: u64_ok_def)
  then show ?thesis
    using assms suite_tags(2) [OF assms(1), of "suite_tag suite"] length_header [OF assms(2)]
    by (simp add: decodeHeader_def header_fields [OF assms(2)] getU64_def u64_back Let_def bytesEqual_iff
        PQ_HEALING_RECORD_HEADER_BYTES_def)
qed

lemma decodeHeader_okD:
  assumes "decodeHeader r ty suite (Some binding) = Inr h"
  shows "known suite" "64 \<le> length r" "length binding = 32" "u64_ok (senderCounter h)" "u64_ok (fromEpoch h)" "fromEpoch h \<noteq> MAX_U64"
    "toEpoch h = fromEpoch h + 1"
    "r = header_layout ty (suite_tag suite) binding (senderCounter h) (fromEpoch h) (toEpoch h) @ drop 64 r"
proof -
  show k: "known suite"
    using assms by (auto simp: decodeHeader_def result_simps tagToParameterSet_def known_def split: if_splits)
  have len: "64 \<le> length r" and f: "sub r 0 4 = PQ_MAGIC" "r ! 4 = PQ_FORMAT_VERSION" "r ! 5 = ty" "r ! 7 = RESERVED_FLAGS"
    and tag: "r ! 6 = suite_tag suite" and b: "sub r 8 40 = binding"
    and h: "senderCounter h = getU64 r 40" "fromEpoch h = getU64 r 48" "toEpoch h = getU64 r 56"
    and e: "fromEpoch h \<noteq> MAX_U64" "toEpoch h = fromEpoch h + 1"
    using assms suite_tags(2) [OF k]
    by (auto simp: decodeHeader_def result_simps Let_def bytesEqual_iff PQ_HEALING_RECORD_HEADER_BYTES_def)
  show "64 \<le> length r" "length binding = 32" "u64_ok (senderCounter h)" "u64_ok (fromEpoch h)" "fromEpoch h \<noteq> MAX_U64"
    "toEpoch h = fromEpoch h + 1"
    using len e length_sub [of 40 r 8] by (simp_all add: b h getU64_ok)
  show "r = header_layout ty (suite_tag suite) binding (senderCounter h) (fromEpoch h) (toEpoch h) @ drop 64 r"
    using header_split [OF len f(1,2,4)] unfolding h f(3) tag b .
qed

lemma encodeHeader_layout:
  assumes "known suite" "length binding = 32" "u64_ok sc" "u64_ok fe" "fe \<noteq> MAX_U64" "64 \<le> len"
  shows "encodeHeader ty suite binding sc fe (fe + 1) len =
    Inr (header_layout ty (suite_tag suite) binding sc fe (fe + 1) @ zeros (len - 64))"
proof -
  have "u64_ok (fe + 1)" using assms(4,5) by (auto simp: u64_ok_def)
  moreover obtain n where "len = 64 + n" using assms(6) le_Suc_ex by blast
  ultimately show ?thesis
    using assms suite_tags(1) [OF assms(1)]
    by (simp add: encodeHeader_def requireBytes_def PQ_HEALING_BINDING_BYTES_def Let_def setU64_def wire_simps
        header_layout_def PQ_MAGIC_def del: be_enc.simps)
qed

lemma encodeHeader_okD:
  assumes "encodeHeader ty suite binding sc fe te len = Inr r"
  shows "known suite" "length binding = 32" "u64_ok sc" "u64_ok fe" "fe \<noteq> MAX_U64" "te = fe + 1"
  using assms by (auto simp: encodeHeader_def result_simps requireBytes_def PQ_HEALING_BINDING_BYTES_def
      parameterSetToTag_def known_def Let_def split: if_splits)

section \<open>Offers\<close>

definition offer_layout :: "mlkem_suite \<Rightarrow> bytes \<Rightarrow> int \<Rightarrow> int \<Rightarrow> bytes \<Rightarrow> bytes" where
  "offer_layout suite binding sc fe pk = header_layout OFFER_TYPE (suite_tag suite) binding sc fe (fe + 1) @ pk"

definition offer_ok :: "mlkem_suite \<Rightarrow> bytes \<Rightarrow> decoded_offer \<Rightarrow> bool" where
  "offer_ok suite binding x \<longleftrightarrow> decodeOffer (offer_bytes x) suite (Some binding) = Inr x"

definition slot_ok :: "mlkem_suite \<Rightarrow> bytes \<Rightarrow> int \<Rightarrow> int \<Rightarrow> bool" where
  "slot_ok suite binding sc fe \<longleftrightarrow> known suite \<and> length binding = 32 \<and> u64_ok sc \<and> u64_ok fe \<and> fe \<noteq> MAX_U64"

lemma decodeOffer_ok: "decodeOffer r suite (Some binding) = Inr x \<Longrightarrow> offer_ok suite binding x \<and> offer_bytes x = r"
  by (auto simp: decodeOffer_def offer_ok_def result_simps)

lemma offer_okD:
  assumes "offer_ok suite binding x"
  shows "slot_ok suite binding (senderCounter x) (fromEpoch x)" "toEpoch x = fromEpoch x + 1"
    "length (publicKey x) = publicKeyBytes suite" "length (offer_bytes x) = offerLength suite"
    "offer_bytes x = offer_layout suite binding (senderCounter x) (fromEpoch x) (publicKey x)"
proof -
  obtain h where h: "decodeHeader (offer_bytes x) OFFER_TYPE suite (Some binding) = Inr h"
    and len: "length (offer_bytes x) = offerLength suite"
    and x: "senderCounter x = senderCounter h" "fromEpoch x = fromEpoch h" "toEpoch x = toEpoch h"
      "publicKey x = drop 64 (offer_bytes x)"
    using assms by (cases x) (auto simp: offer_ok_def decodeOffer_def result_simps PQ_HEALING_RECORD_HEADER_BYTES_def)
  note d = decodeHeader_okD [OF h]
  show "slot_ok suite binding (senderCounter x) (fromEpoch x)" "toEpoch x = fromEpoch x + 1"
    "length (publicKey x) = publicKeyBytes suite" "length (offer_bytes x) = offerLength suite"
    "offer_bytes x = offer_layout suite binding (senderCounter x) (fromEpoch x) (publicKey x)"
    using d len by (auto simp: x slot_ok_def offerLength_def PQ_HEALING_RECORD_HEADER_BYTES_def offer_layout_def)
qed

lemma decodeOffer_layout:
  assumes "slot_ok suite binding sc fe" "length pk = publicKeyBytes suite"
  shows "decodeOffer (offer_layout suite binding sc fe pk) suite (Some binding) =
    Inr \<lparr>senderCounter = sc, fromEpoch = fe, toEpoch = fe + 1, offer_bytes = offer_layout suite binding sc fe pk, publicKey = pk\<rparr>"
  using assms decodeHeader_layout [of suite binding sc fe OFFER_TYPE pk] length_header [of binding]
  by (simp add: decodeOffer_def offer_layout_def slot_ok_def offerLength_def PQ_HEALING_RECORD_HEADER_BYTES_def)

lemma encodeOffer_iff:
  "encodeOffer suite binding sc fe pk = Inr r \<longleftrightarrow>
     slot_ok suite binding sc fe \<and> length pk = publicKeyBytes suite \<and> r = offer_layout suite binding sc fe pk"
proof -
  have "encodeOffer suite binding sc fe pk = Inr (offer_layout suite binding sc fe pk)"
    if "slot_ok suite binding sc fe" "length pk = publicKeyBytes suite"
    using that encodeHeader_layout [of suite binding sc fe "offerLength suite" OFFER_TYPE] length_header [of binding]
    by (simp add: encodeOffer_def requireBytes_def slot_ok_def offerLength_def PQ_HEALING_RECORD_HEADER_BYTES_def
        offer_layout_def wire_simps)
  moreover have "slot_ok suite binding sc fe \<and> length pk = publicKeyBytes suite" if "encodeOffer suite binding sc fe pk = Inr r"
    using that encodeHeader_okD [of OFFER_TYPE suite binding sc fe "fe + 1" "offerLength suite"]
    by (auto simp: encodeOffer_def result_simps requireBytes_def slot_ok_def)
  ultimately show ?thesis by auto
qed

section \<open>Advances\<close>

definition advance_layout :: "mlkem_suite \<Rightarrow> bytes \<Rightarrow> int \<Rightarrow> decoded_offer \<Rightarrow> bytes \<Rightarrow> bytes" where
  "advance_layout suite binding sc x ct =
     header_layout ADVANCE_TYPE (suite_tag suite) binding sc (fromEpoch x) (fromEpoch x + 1) @ offer_bytes x @ ct"

definition advance_ok :: "mlkem_suite \<Rightarrow> bytes \<Rightarrow> decoded_advance \<Rightarrow> bool" where
  "advance_ok suite binding a \<longleftrightarrow> decodeAdvance (advance_bytes a) suite (Some binding) = Inr a"

lemma decodeAdvance_ok: "decodeAdvance r suite (Some binding) = Inr a \<Longrightarrow> advance_ok suite binding a \<and> advance_bytes a = r"
  by (auto simp: decodeAdvance_def advance_ok_def result_simps Let_def)

lemma advance_okD:
  assumes "advance_ok suite binding a"
  shows "slot_ok suite binding (senderCounter a) (fromEpoch a)" "toEpoch a = fromEpoch a + 1"
    "offer_ok suite binding (advance_offer a)" "fromEpoch (advance_offer a) = fromEpoch a"
    "length (ciphertext a) = ciphertextBytes suite" "length (advance_bytes a) = advanceLength suite"
    "advance_bytes a = advance_layout suite binding (senderCounter a) (advance_offer a) (ciphertext a)"
proof -
  let ?r = "advance_bytes a"
  obtain h where h: "decodeHeader ?r ADVANCE_TYPE suite (Some binding) = Inr h"
    and len: "length ?r = advanceLength suite"
    and of: "decodeOffer (sub ?r 64 (64 + offerLength suite)) suite (Some binding) = Inr (advance_offer a)"
    and ep: "fromEpoch (advance_offer a) = fromEpoch h"
    and a: "senderCounter a = senderCounter h" "fromEpoch a = fromEpoch h" "toEpoch a = toEpoch h"
      "ciphertext a = drop (64 + offerLength suite) ?r"
    using assms by (cases a) (auto simp: advance_ok_def decodeAdvance_def result_simps Let_def PQ_HEALING_RECORD_HEADER_BYTES_def)
  note d = decodeHeader_okD [OF h]
  note o1 = decodeOffer_ok [OF of]
  have split: "drop 64 ?r = offer_bytes (advance_offer a) @ ciphertext a"
    using o1 append_take_drop_id [of "offerLength suite" "drop 64 ?r"] by (simp add: a sub_def add.commute)
  show "slot_ok suite binding (senderCounter a) (fromEpoch a)" "toEpoch a = fromEpoch a + 1"
    "offer_ok suite binding (advance_offer a)" "fromEpoch (advance_offer a) = fromEpoch a"
    "length (ciphertext a) = ciphertextBytes suite" "length ?r = advanceLength suite"
    using d len o1 ep by (auto simp: a slot_ok_def advanceLength_def PQ_HEALING_RECORD_HEADER_BYTES_def)
  show "?r = advance_layout suite binding (senderCounter a) (advance_offer a) (ciphertext a)"
    using d(8) ep d(7) split by (simp add: advance_layout_def a)
qed

lemma decodeAdvance_layout:
  assumes "offer_ok suite binding x" "slot_ok suite binding sc (fromEpoch x)" "length ct = ciphertextBytes suite"
  shows "decodeAdvance (advance_layout suite binding sc x ct) suite (Some binding) =
    Inr \<lparr>senderCounter = sc, fromEpoch = fromEpoch x, toEpoch = toEpoch x, advance_bytes = advance_layout suite binding sc x ct,
         advance_offer = x, ciphertext = ct\<rparr>"
proof -
  note o1 = offer_okD [OF assms(1)]
  have len: "length (advance_layout suite binding sc x ct) = advanceLength suite"
    using assms o1 length_header [of binding] by (simp add: advance_layout_def slot_ok_def advanceLength_def PQ_HEALING_RECORD_HEADER_BYTES_def)
  have "decodeHeader (advance_layout suite binding sc x ct) ADVANCE_TYPE suite (Some binding) =
      Inr \<lparr>senderCounter = sc, fromEpoch = fromEpoch x, toEpoch = fromEpoch x + 1\<rparr>"
    unfolding advance_layout_def using assms(2) by (intro decodeHeader_layout) (auto simp: slot_ok_def)
  moreover have "sub (advance_layout suite binding sc x ct) 64 (64 + offerLength suite) = offer_bytes x"
    "drop (64 + offerLength suite) (advance_layout suite binding sc x ct) = ct"
    using assms(2) o1(4) length_header [of binding] by (simp_all add: advance_layout_def slot_ok_def sub_def)
  ultimately show ?thesis
    using assms(1) o1(2) len by (simp add: decodeAdvance_def PQ_HEALING_RECORD_HEADER_BYTES_def Let_def offer_ok_def)
qed

lemma encodeAdvance_iff:
  assumes "offer_ok suite binding x"
  shows "encodeAdvance suite binding sc x ct = Inr r \<longleftrightarrow>
     slot_ok suite binding sc (fromEpoch x) \<and> length ct = ciphertextBytes suite \<and> r = advance_layout suite binding sc x ct"
proof -
  note o1 = offer_okD [OF assms]
  have "encodeAdvance suite binding sc x ct = Inr (advance_layout suite binding sc x ct)"
    if "slot_ok suite binding sc (fromEpoch x)" "length ct = ciphertextBytes suite"
  proof -
    have "encodeHeader ADVANCE_TYPE suite binding sc (fromEpoch x) (toEpoch x) (advanceLength suite) =
        Inr (header_layout ADVANCE_TYPE (suite_tag suite) binding sc (fromEpoch x) (fromEpoch x + 1) @
          zeros (offerLength suite + ciphertextBytes suite))"
      using that(1) encodeHeader_layout [of suite binding sc "fromEpoch x" "advanceLength suite" ADVANCE_TYPE]
      by (simp add: o1(2) slot_ok_def advanceLength_def PQ_HEALING_RECORD_HEADER_BYTES_def)
    then show ?thesis using that o1(4) length_header [of binding]
      by (simp add: encodeAdvance_def requireBytes_def slot_ok_def Let_def PQ_HEALING_RECORD_HEADER_BYTES_def
          advance_layout_def wire_simps)
  qed
  moreover have "slot_ok suite binding sc (fromEpoch x) \<and> length ct = ciphertextBytes suite"
    if "encodeAdvance suite binding sc x ct = Inr r"
    using that encodeHeader_okD [of ADVANCE_TYPE suite binding sc "fromEpoch x" "toEpoch x" "advanceLength suite"]
    by (auto simp: encodeAdvance_def result_simps requireBytes_def slot_ok_def)
  ultimately show ?thesis by auto
qed

section \<open>Acknowledgements\<close>

definition ack_ok :: "mlkem_suite \<Rightarrow> bytes \<Rightarrow> acknowledgement \<Rightarrow> bool" where
  "ack_ok suite binding a \<longleftrightarrow> canonical suite \<and> length binding = 32 \<and> u64_ok (ack_epoch a) \<and> u64_ok (ack_advanceCounter a)"

definition ack_layout :: "mlkem_suite \<Rightarrow> bytes \<Rightarrow> acknowledgement \<Rightarrow> bytes" where
  "ack_layout suite binding a = header_layout ACK_TYPE (suite_tag suite) binding (ack_advanceCounter a) (ack_epoch a) 0"

lemma requireAcknowledgement_iff: "requireAcknowledgement a = Inr b \<longleftrightarrow> u64_ok (ack_epoch a) \<and> u64_ok (ack_advanceCounter a) \<and> b = a"
  by (auto simp: requireAcknowledgement_def result_simps)

lemma be_enc_zero: "be_enc n 0 = zeros n"
  by (induction n) (simp_all add: zeros_def replicate_append_same)

lemma be_dec_zeros: "be_dec (zeros n) = 0"
  using be_dec_enc_mod [of n 0] by (simp add: be_enc_zero)

lemma encodeAck_iff:
  "encodePqHealingAck a suite binding = Inr r \<longleftrightarrow> ack_ok suite binding a \<and> r = ack_layout suite binding a"
proof -
  have "encodePqHealingAck a suite binding = Inr (ack_layout suite binding a)" if "ack_ok suite binding a"
    using that suite_tags(1) [OF canonical_known, of suite]
    by (simp add: encodePqHealingAck_def ack_ok_def assertCanonicalSuite_iff [THEN iffD2] requireBytes_def
        PQ_HEALING_BINDING_BYTES_def PQ_HEALING_ACK_BYTES_def requireAcknowledgement_def Let_def setU64_def wire_simps
        ack_layout_def header_layout_def PQ_MAGIC_def be_enc_zero del: be_enc.simps)
  moreover have "ack_ok suite binding a" if "encodePqHealingAck a suite binding = Inr r"
    using that by (auto simp: encodePqHealingAck_def result_simps assertCanonicalSuite_iff requireBytes_def ack_ok_def
        PQ_HEALING_BINDING_BYTES_def requireAcknowledgement_iff)
  ultimately show ?thesis by auto
qed

lemma decodeAck_iff:
  "decodePqHealingAck r suite binding = Inr a \<longleftrightarrow> ack_ok suite binding a \<and> r = ack_layout suite binding a"
proof
  assume ok: "ack_ok suite binding a \<and> r = ack_layout suite binding a"
  then have b: "length binding = 32" by (simp add: ack_ok_def)
  note f = header_fields [OF b, of ACK_TYPE "suite_tag suite" "ack_advanceCounter a" "ack_epoch a" 0 "[]"]
  show "decodePqHealingAck r suite binding = Inr a"
    using ok f suite_tags(2) [OF canonical_known, of suite "suite_tag suite"] length_header [OF b]
    by (simp add: decodePqHealingAck_def ack_ok_def assertCanonicalSuite_iff [THEN iffD2] requireBytes_def ack_layout_def
        PQ_HEALING_BINDING_BYTES_def PQ_HEALING_ACK_BYTES_def getU64_def u64_back bytesEqual_iff be_enc_zero
        be_dec_zeros del: be_enc.simps)
next
  assume d: "decodePqHealingAck r suite binding = Inr a"
  then have c: "canonical suite" by (auto simp: decodePqHealingAck_def result_simps assertCanonicalSuite_iff)
  have len: "length r = 64" and f: "sub r 0 4 = PQ_MAGIC" "r ! 4 = PQ_FORMAT_VERSION" "r ! 5 = ACK_TYPE" "r ! 7 = RESERVED_FLAGS"
    "r ! 6 = suite_tag suite" "sub r 8 40 = binding" "length binding = 32" "getU64 r 56 = 0"
    and a: "ack_epoch a = getU64 r 48" "ack_advanceCounter a = getU64 r 40"
    using d suite_tags(2) [OF canonical_known [OF c]] by (auto simp: decodePqHealingAck_def result_simps requireBytes_def
        bytesEqual_iff PQ_HEALING_BINDING_BYTES_def PQ_HEALING_ACK_BYTES_def)
  then have "r = ack_layout suite binding a" using header_split [of r] by (simp add: ack_layout_def)
  then show "ack_ok suite binding a \<and> r = ack_layout suite binding a" using c f(7) len by (simp add: ack_ok_def a getU64_ok)
qed

section \<open>The codecs\<close>

interpretation offer_codec: fixed_codec "\<lambda>(sc, fe, pk). ok_of (encodeOffer suite binding sc fe pk)"
    "\<lambda>r. map_option (\<lambda>x. (senderCounter x, fromEpoch x, publicKey x)) (ok_of (decodeOffer r suite (Some binding)))"
    "offerLength suite" for suite binding
proof
  fix x :: "int \<times> int \<times> bytes" and w
  obtain sc fe pk where x: "x = (sc, fe, pk)" by (cases x)
  assume "(case x of (sc, fe, pk) \<Rightarrow> ok_of (encodeOffer suite binding sc fe pk)) = Some w"
  then have e: "slot_ok suite binding sc fe" "length pk = publicKeyBytes suite" "w = offer_layout suite binding sc fe pk"
    by (simp_all add: x encodeOffer_iff)
  then show "map_option (\<lambda>x. (senderCounter x, fromEpoch x, publicKey x)) (ok_of (decodeOffer w suite (Some binding))) = Some x"
    by (simp add: decodeOffer_layout x)
  show "length w = offerLength suite"
    using e length_header [of binding] by (simp add: offer_layout_def slot_ok_def offerLength_def PQ_HEALING_RECORD_HEADER_BYTES_def)
next
  fix x :: "int \<times> int \<times> bytes" and w
  assume "map_option (\<lambda>x. (senderCounter x, fromEpoch x, publicKey x)) (ok_of (decodeOffer w suite (Some binding))) = Some x"
  then obtain y where y: "decodeOffer w suite (Some binding) = Inr y" "x = (senderCounter y, fromEpoch y, publicKey y)"
    by auto
  with decodeOffer_ok [OF y(1)] offer_okD [of suite binding y]
  show "(case x of (sc, fe, pk) \<Rightarrow> ok_of (encodeOffer suite binding sc fe pk)) = Some w"
    by (simp add: encodeOffer_iff)
qed

interpretation ack_codec: fixed_codec "\<lambda>a. ok_of (encodePqHealingAck a suite binding)"
    "\<lambda>r. ok_of (decodePqHealingAck r suite binding)" 64 for suite binding
  by unfold_locales (auto simp: encodeAck_iff decodeAck_iff ack_ok_def ack_layout_def length_header)

end
