(* ===== verification/Pq_Steps.thy ===== *)
theory Pq_Steps
  imports Pq_Records
begin

text \<open>
  The healing machine as a system of events, and its invariant. Each method is first reduced to the
  outcomes it has (refused with the machine unchanged, or one effect under its guards); the invariant
  and the two-party theorems rest on these case rules. The invariant is what a snapshot is
  validated against, so every reachable machine can be restored.
\<close>

section \<open>Outcomes of the methods\<close>

definition live :: "pq_machine \<Rightarrow> bool" where
  "live m \<longleftrightarrow> \<not> mDestroyed m \<and> \<not> mBusy m"

definition room :: "pq_machine \<Rightarrow> bool" where
  "room m \<longleftrightarrow> u64_ok (mEpoch m) \<and> u64_ok (mLocalCounter m) \<and> u64_ok (mRemoteCounter m) \<and>
     mEpoch m \<noteq> MAX_U64 \<and> mLocalCounter m \<noteq> MAX_U64 \<and> mRemoteCounter m \<noteq> MAX_U64"

lemma attempt_simps [simp]:
  "attempt m (Inl e) k = (Inl e, m)" "attempt m (Inr x) k = k x"
  by (simp_all add: attempt_def)

lemma assertSynchronous_iff: "assertSynchronous m = Inr () \<longleftrightarrow> live m"
  by (auto simp: assertSynchronous_def assertActive_def live_def result_simps)

lemma assertSynchronous_live [simp]: "live m \<Longrightarrow> assertSynchronous m = Inr ()"
  by (simp add: assertSynchronous_iff)

lemma assertSynchronous_cases:
  obtains "assertSynchronous m = Inr ()" "live m" | e where "assertSynchronous m = Inl e" "\<not> live m"
  by (cases "assertSynchronous m") (auto simp: assertSynchronous_iff [symmetric] simp del: assertSynchronous_live)

lemma assertCanStartExchange_iff: "assertCanStartExchange m = Inr () \<longleftrightarrow> room m"
  by (auto simp: assertCanStartExchange_def requireIncrementableU64_def result_simps room_def)

lemma live_idle_busy: "live m \<Longrightarrow> m\<lparr>mBusy := False\<rparr> = m"
  by (cases m) (simp add: live_def)

text \<open>A chain of checks either fails as a whole or yields its value.\<close>

lemma attempt_cases:
  assumes "\<And>x. r = Inr x \<Longrightarrow> P (k x)" "\<And>e. r = Inl e \<Longrightarrow> P (Inl e, m)"
  shows "P (attempt m r k)"
  using assms by (cases r) simp_all

lemma prepareOffer_start_cases:
  obtains e where "prepareOffer_start m = (Inl e, m)"
  | "prepareOffer_start m = (Inr (), m\<lparr>mBusy := True\<rparr>)" "live m" "mPhase m = Idle" "mNextOfferer m = Local" "room m"
proof (cases rule: assertSynchronous_cases [of m])
  case 1
  let ?r = "rbind (ensure (mPhase m = Idle) (Pq InvalidState)) (\<lambda>_.
    rbind (ensure (mNextOfferer m = Local) (Pq WrongTurn)) (\<lambda>_. assertCanStartExchange (m\<lparr>mBusy := True\<rparr>)))"
  have eq: "prepareOffer_start m = attempt m ?r (\<lambda>_. (Inr (), m\<lparr>mBusy := True\<rparr>))"
    using 1 by (simp add: prepareOffer_start_def live_idle_busy Let_def)
  show ?thesis
  proof (cases ?r)
    case (Inr u)
    then have "mPhase m = Idle" "mNextOfferer m = Local" "room m"
      by (auto simp: result_simps assertCanStartExchange_iff room_def)
    with that(2) 1 Inr eq show ?thesis by simp
  qed (use that(1) eq in simp)
qed (use that(1) in \<open>simp add: prepareOffer_start_def\<close>)

lemma prepareOffer_resume_cases:
  obtains e where "prepareOffer_resume ans m = (Inl e, m\<lparr>mBusy := False\<rparr>)"
  | kp x where "ans = Some kp" "prepareOffer_resume ans m = (Inr (offer_bytes x), m\<lparr>mBusy := False, mPhase := OutboundOffer False x kp\<rparr>)"
      "\<not> mDestroyed m" "length (kp_secretKey kp) = secretKeyBytes (mSuite m)" "kp_publicKey kp = publicKey x"
      "offer_ok (mSuite m) (mBinding m) x" "senderCounter x = mLocalCounter m" "fromEpoch x = mEpoch m"
proof (cases ans)
  case None
  then show ?thesis using that(1) by (simp add: prepareOffer_resume_def)
next
  case (Some kp)
  let ?r = "rbind (assertActive m) (\<lambda>_.
    rbind (requireBytes (kp_publicKey kp) (publicKeyBytes (mSuite m))) (\<lambda>_.
    rbind (requireBytes (kp_secretKey kp) (secretKeyBytes (mSuite m))) (\<lambda>_.
    rbind (encodeOffer (mSuite m) (mBinding m) (mLocalCounter m) (mEpoch m) (kp_publicKey kp)) (\<lambda>bytes.
    rbind (decodeOffer bytes (mSuite m) (Some (mBinding m))) (\<lambda>offer. Inr (bytes, offer))))))"
  have eq: "prepareOffer_resume ans m = attempt (m\<lparr>mBusy := False\<rparr>) ?r
      (\<lambda>(bytes, offer). (Inr bytes, m\<lparr>mBusy := False, mPhase := OutboundOffer False offer kp\<rparr>))"
    using Some by (simp add: prepareOffer_resume_def Let_def)
  show ?thesis
  proof (cases ?r)
    case (Inr p)
    then obtain bytes x where p: "p = (bytes, x)" and act: "\<not> mDestroyed m"
      and sk: "length (kp_secretKey kp) = secretKeyBytes (mSuite m)" "length (kp_publicKey kp) = publicKeyBytes (mSuite m)"
      and enc: "encodeOffer (mSuite m) (mBinding m) (mLocalCounter m) (mEpoch m) (kp_publicKey kp) = Inr bytes"
      and dec: "decodeOffer bytes (mSuite m) (Some (mBinding m)) = Inr x"
      by (auto simp: result_simps assertActive_def requireBytes_def)
    from dec enc have "senderCounter x = mLocalCounter m" "fromEpoch x = mEpoch m" "publicKey x = kp_publicKey kp"
      by (auto simp: encodeOffer_iff decodeOffer_layout)
    moreover have "prepareOffer_resume ans m = (Inr (offer_bytes x), m\<lparr>mBusy := False, mPhase := OutboundOffer False x kp\<rparr>)"
      using eq Inr decodeOffer_ok [OF dec] by (simp add: p)
    ultimately show ?thesis using that(2) [OF Some _ act sk(1)] decodeOffer_ok [OF dec] by auto
  qed (use that(1) eq in simp)
qed

lemma markOfferDispatched_cases:
  obtains e where "markOfferDispatched m = (Inl e, m)"
  | x kp where "markOfferDispatched m = (Inr (), m\<lparr>mPhase := OutboundOffer True x kp\<rparr>)" "live m" "mPhase m = OutboundOffer False x kp"
proof (cases "live m \<and> (\<exists>x kp. mPhase m = OutboundOffer False x kp)")
  case True
  then show ?thesis using that(2) by (auto simp: markOfferDispatched_def)
next
  case False
  have "\<exists>e. markOfferDispatched m = (Inl e, m)"
    by (cases rule: assertSynchronous_cases [of m])
      (use False in \<open>auto simp: markOfferDispatched_def split: internal_phase.splits\<close>)
  then show ?thesis using that(1) by blast
qed

lemma abortUnsentOffer_cases:
  obtains e where "abortUnsentOffer m = (Inl e, m)"
  | x kp where "abortUnsentOffer m = (Inr (), m\<lparr>mPhase := Idle\<rparr>)" "live m" "mPhase m = OutboundOffer False x kp"
proof (cases "live m \<and> (\<exists>x kp. mPhase m = OutboundOffer False x kp)")
  case True
  then show ?thesis using that(2) by (auto simp: abortUnsentOffer_def)
next
  case False
  have "\<exists>e. abortUnsentOffer m = (Inl e, m)"
    by (cases rule: assertSynchronous_cases [of m])
      (use False in \<open>auto simp: abortUnsentOffer_def split: internal_phase.splits bool.splits\<close>)
  then show ?thesis using that(1) by blast
qed

lemma acceptAuthenticatedOffer_cases:
  obtains e where "acceptAuthenticatedOffer r m = (Inl e, m)"
  | x where "acceptAuthenticatedOffer r m = (Inr (), m\<lparr>mPhase := InboundOffer x\<rparr>)" "live m" "mPhase m = Idle" "mNextOfferer m = Remote"
      "room m" "offer_ok (mSuite m) (mBinding m) x" "offer_bytes x = r" "senderCounter x = mRemoteCounter m" "fromEpoch x = mEpoch m"
      "rejectKnownOfferReplayOrFork x m = Inr ()"
proof -
  let ?r = "rbind (assertSynchronous m) (\<lambda>_.
        rbind (decodeOffer r (mSuite m) (Some (mBinding m))) (\<lambda>offer.
        rbind (rejectKnownOfferReplayOrFork offer m) (\<lambda>_.
        rbind (ensure (mPhase m = Idle) (Pq InvalidState)) (\<lambda>_.
        rbind (ensure (mNextOfferer m = Remote) (Pq WrongTurn)) (\<lambda>_.
        rbind (requireExpectedCounter (senderCounter offer) m) (\<lambda>_.
        rbind (requireExpectedEpoch (fromEpoch offer) m) (\<lambda>_.
        rbind (assertCanStartExchange m) (\<lambda>_. Inr offer))))))))"
  show ?thesis
  proof (cases ?r)
    case (Inr x)
    then have "live m" and d: "decodeOffer r (mSuite m) (Some (mBinding m)) = Inr x" "rejectKnownOfferReplayOrFork x m = Inr ()"
      "mPhase m = Idle" "mNextOfferer m = Remote" "senderCounter x = mRemoteCounter m" "fromEpoch x = mEpoch m" "room m"
      by (auto simp: result_simps requireExpectedCounter_def requireExpectedEpoch_def assertCanStartExchange_iff assertSynchronous_iff)
    with that(2) [of x] Inr decodeOffer_ok [OF d(1)] show ?thesis by (simp add: acceptAuthenticatedOffer_def)
  qed (use that(1) in \<open>simp add: acceptAuthenticatedOffer_def\<close>)
qed

lemma prepareAdvance_start_cases:
  obtains e where "prepareAdvance_start m = (Inl e, m)"
  | x where "prepareAdvance_start m = (Inr x, m\<lparr>mBusy := True\<rparr>)" "live m" "mPhase m = InboundOffer x"
proof (cases "live m \<and> (\<exists>x. mPhase m = InboundOffer x)")
  case True
  then obtain x where x: "live m" "mPhase m = InboundOffer x" by blast
  show ?thesis
    by (cases "requireIncrementableU64 (mLocalCounter m)")
      (use that x in \<open>auto simp: prepareAdvance_start_def live_idle_busy Let_def\<close>)
next
  case False
  have "\<exists>e. prepareAdvance_start m = (Inl e, m)"
    by (cases rule: assertSynchronous_cases [of m])
      (use False in \<open>auto simp: prepareAdvance_start_def live_idle_busy Let_def split: internal_phase.splits\<close>)
  then show ?thesis using that(1) by blast
qed

definition advance_root :: "'r libcrypto \<Rightarrow> pq_machine \<Rightarrow> decoded_advance \<Rightarrow> bytes \<Rightarrow> bytes \<Rightarrow> bool" where
  "advance_root module m a ss nextRoot \<longleftrightarrow> deriveNextRoot module (mRootKey m) ss (advance_bytes a) = Inr nextRoot"

lemma prepareAdvance_resume_cases:
  assumes "offer_ok (mSuite m) (mBinding m) x"
  obtains e where "prepareAdvance_resume module x ans m = (Inl e, m\<lparr>mBusy := False\<rparr>)"
  | a ss nextRoot where "ans = Some (ciphertext a, ss)"
      "prepareAdvance_resume module x ans m = (Inr (advance_bytes a), m\<lparr>mBusy := False, mPhase := OutboundAdvancePrepared x a nextRoot\<rparr>)"
      "\<not> mDestroyed m" "advance_ok (mSuite m) (mBinding m) a" "advance_offer a = x" "senderCounter a = mLocalCounter m"
      "advance_root module m a ss nextRoot"
proof (cases ans)
  case None
  then show ?thesis using that(1) by (simp add: prepareAdvance_resume_def)
next
  case (Some p)
  obtain ct ss where ans: "ans = Some (ct, ss)" using Some by (cases p) simp
  let ?r = "rbind (assertActive m) (\<lambda>_.
    rbind (requireBytes ct (ciphertextBytes (mSuite m))) (\<lambda>_.
    rbind (requireBytes ss (sharedSecretBytes (mSuite m))) (\<lambda>_.
    rbind (encodeAdvance (mSuite m) (mBinding m) (mLocalCounter m) x ct) (\<lambda>bytes.
    rbind (decodeAdvance bytes (mSuite m) (Some (mBinding m))) (\<lambda>adv.
    rbind (deriveNextRoot module (mRootKey m) ss bytes) (\<lambda>nextRoot. Inr (bytes, adv, nextRoot)))))))"
  have eq: "prepareAdvance_resume module x ans m = attempt (m\<lparr>mBusy := False\<rparr>) ?r
      (\<lambda>(bytes, adv, nextRoot). (Inr bytes, m\<lparr>mBusy := False, mPhase := OutboundAdvancePrepared x adv nextRoot\<rparr>))"
    using ans by (simp add: prepareAdvance_resume_def Let_def)
  show ?thesis
  proof (cases ?r)
    case (Inr q)
    then obtain bytes a nextRoot where q: "q = (bytes, a, nextRoot)" and act: "\<not> mDestroyed m"
      and enc: "encodeAdvance (mSuite m) (mBinding m) (mLocalCounter m) x ct = Inr bytes"
      and dec: "decodeAdvance bytes (mSuite m) (Some (mBinding m)) = Inr a"
      and root: "deriveNextRoot module (mRootKey m) ss bytes = Inr nextRoot"
      by (auto simp: result_simps assertActive_def)
    from dec enc have a: "senderCounter a = mLocalCounter m" "advance_offer a = x" "ciphertext a = ct"
      by (auto simp: encodeAdvance_iff [OF assms] decodeAdvance_layout [OF assms])
    note ok = decodeAdvance_ok [OF dec]
    have "prepareAdvance_resume module x ans m = (Inr (advance_bytes a), m\<lparr>mBusy := False, mPhase := OutboundAdvancePrepared x a nextRoot\<rparr>)"
      using eq Inr ok by (simp add: q)
    then show ?thesis using that(2) [of a ss nextRoot] ok a act root ans by (simp add: advance_root_def)
  qed (use that(1) eq in simp)
qed

lemma commitPreparedAdvance_cases:
  obtains e where "commitPreparedAdvance m = (Inl e, m)"
  | x a nextRoot where "live m" "mPhase m = OutboundAdvancePrepared x a nextRoot" "length nextRoot = 32"
      "commitPreparedAdvance m = (Inr (advance_bytes a),
         m\<lparr>mRootKey := nextRoot, mEpoch := toEpoch a, mLocalCounter := mLocalCounter m + 1,
           mRemoteCounter := mRemoteCounter m + 1, mNextOfferer := Local, mLastInboundOffer := Some x,
           mPhase := OutboundAdvanceAwaitingAck x a\<rparr>)"
proof (cases "live m \<and> (\<exists>x a root. mPhase m = OutboundAdvancePrepared x a root \<and> length root = 32)")
  case True
  then show ?thesis using that(2)
    by (auto simp: commitPreparedAdvance_def requireBytes_def PQ_HEALING_ROOT_BYTES_def)
next
  case False
  have "\<exists>e. commitPreparedAdvance m = (Inl e, m)"
    by (cases rule: assertSynchronous_cases [of m])
      (use False in \<open>auto simp: commitPreparedAdvance_def requireBytes_def PQ_HEALING_ROOT_BYTES_def split: internal_phase.splits\<close>)
  then show ?thesis using that(1) by blast
qed

lemma acceptAck_cases:
  obtains e where "acceptAuthenticatedAdvanceAcknowledgement k m = (Inl e, m)"
  | x a where "acceptAuthenticatedAdvanceAcknowledgement k m = (Inr (), m\<lparr>mPhase := Idle\<rparr>)" "live m"
      "mPhase m = OutboundAdvanceAwaitingAck x a" "k = \<lparr>ack_epoch = mEpoch m, ack_advanceCounter = senderCounter a\<rparr>"
proof (cases "rbind (assertSynchronous m) (\<lambda>_. requireAcknowledgement k)")
  case (Inl e)
  then show ?thesis using that(1) by (simp add: acceptAuthenticatedAdvanceAcknowledgement_def)
next
  case (Inr k')
  then have l: "live m" "k' = k" by (auto simp: result_simps assertSynchronous_iff requireAcknowledgement_iff)
  show ?thesis
  proof (cases "\<exists>x a. mPhase m = OutboundAdvanceAwaitingAck x a \<and> k = \<lparr>ack_epoch = mEpoch m, ack_advanceCounter = senderCounter a\<rparr>")
    case True
    then show ?thesis using that(2) l Inr by (auto simp: acceptAuthenticatedAdvanceAcknowledgement_def)
  next
    case False
    have "\<exists>e. acceptAuthenticatedAdvanceAcknowledgement k m = (Inl e, m)"
      using False l Inr by (cases k) (auto simp: acceptAuthenticatedAdvanceAcknowledgement_def split: internal_phase.splits)
    then show ?thesis using that(1) by blast
  qed
qed

lemma markAck_cases:
  obtains e where "markAdvanceAcknowledgementDispatched k m = (Inl e, m)"
  | a where "markAdvanceAcknowledgementDispatched k m = (Inr (), m\<lparr>mPhase := Idle\<rparr>)" "live m"
      "mPhase m = InboundAdvanceAwaitingAckDispatch a" "k = \<lparr>ack_epoch = mEpoch m, ack_advanceCounter = senderCounter a\<rparr>"
proof (cases "rbind (assertSynchronous m) (\<lambda>_. requireAcknowledgement k)")
  case (Inl e)
  then show ?thesis using that(1) by (simp add: markAdvanceAcknowledgementDispatched_def)
next
  case (Inr k')
  then have l: "live m" "k' = k" by (auto simp: result_simps assertSynchronous_iff requireAcknowledgement_iff)
  show ?thesis
  proof (cases "\<exists>a. mPhase m = InboundAdvanceAwaitingAckDispatch a \<and> k = \<lparr>ack_epoch = mEpoch m, ack_advanceCounter = senderCounter a\<rparr>")
    case True
    then obtain a where a: "mPhase m = InboundAdvanceAwaitingAckDispatch a" "k = \<lparr>ack_epoch = mEpoch m, ack_advanceCounter = senderCounter a\<rparr>"
      by blast
    show ?thesis by (rule that(2) [OF _ l(1) a]) (use a l Inr in \<open>simp add: markAdvanceAcknowledgementDispatched_def\<close>)
  next
    case False
    have "\<exists>e. markAdvanceAcknowledgementDispatched k m = (Inl e, m)"
      using False l Inr by (cases k) (auto simp: markAdvanceAcknowledgementDispatched_def split: internal_phase.splits)
    then show ?thesis using that(1) by blast
  qed
qed

lemma acceptAdvance_start_cases:
  obtains e where "acceptAuthenticatedAdvance_start r m = (Inl e, m)"
  | a x kp where "acceptAuthenticatedAdvance_start r m = (Inr (a, x, kp), m\<lparr>mBusy := True\<rparr>)" "live m"
      "mPhase m = OutboundOffer True x kp" "advance_ok (mSuite m) (mBinding m) a" "advance_bytes a = r"
      "senderCounter a = mRemoteCounter m" "fromEpoch a = mEpoch m" "offer_bytes (advance_offer a) = offer_bytes x"
      "rejectKnownAdvanceReplayOrFork a m = Inr ()"
proof (cases rule: assertSynchronous_cases [of m])
  case 1
  let ?m = "m\<lparr>mBusy := True\<rparr>"
  let ?d = "rbind (decodeAdvance r (mSuite m) (Some (mBinding m))) (\<lambda>adv. rbind (rejectKnownAdvanceReplayOrFork adv ?m) (\<lambda>_. Inr adv))"
  let ?c = "\<lambda>a x. rbind (requireExpectedCounter (senderCounter a) ?m) (\<lambda>_. rbind (requireExpectedEpoch (fromEpoch a) ?m) (\<lambda>_.
      ensure (bytesEqual (offer_bytes (advance_offer a)) (offer_bytes x)) (Pq Fork)))"
  have e: "m\<lparr>mBusy := True, mBusy := False\<rparr> = m" using 1(2) by (simp add: live_idle_busy)
  have eq: "acceptAuthenticatedAdvance_start r m = attempt m ?d (\<lambda>a. case mPhase m of
      OutboundOffer True x kp \<Rightarrow> attempt m (?c a x) (\<lambda>_. (Inr (a, x, kp), ?m)) | _ \<Rightarrow> (Inl (Pq InvalidState), m))"
    unfolding acceptAuthenticatedAdvance_start_def Let_def e using 1 by simp
  show ?thesis
  proof (cases "\<exists>a x kp. ?d = Inr a \<and> mPhase m = OutboundOffer True x kp \<and> ?c a x = Inr ()")
    case True
    then obtain a x kp where a: "?d = Inr a" "mPhase m = OutboundOffer True x kp" "?c a x = Inr ()" by blast
    have d: "decodeAdvance r (mSuite m) (Some (mBinding m)) = Inr a" "rejectKnownAdvanceReplayOrFork a ?m = Inr ()"
      using a(1) by (auto simp: result_simps)
    have "rejectKnownAdvanceReplayOrFork a m = Inr ()" using d(2) a(2) by (simp add: rejectKnownAdvanceReplayOrFork_def)
    moreover have "acceptAuthenticatedAdvance_start r m = (Inr (a, x, kp), ?m)" using eq a by simp
    ultimately show ?thesis using that(2) [OF _ 1(2) a(2), of a] decodeAdvance_ok [OF d(1)] a(3)
      by (auto simp: result_simps requireExpectedCounter_def requireExpectedEpoch_def bytesEqual_iff)
  next
    case False
    have "\<exists>e. acceptAuthenticatedAdvance_start r m = (Inl e, m)"
    proof (cases ?d)
      case (Inr a)
      with False have "?c a x \<noteq> Inr ()" if "mPhase m = OutboundOffer True x kp" for x kp using that by blast
      then show ?thesis unfolding eq Inr
        by (auto simp: attempt_def split: internal_phase.splits bool.splits sum.splits)
    qed (simp add: eq)
    then show ?thesis using that(1) by blast
  qed
qed (use that(1) in \<open>simp add: acceptAuthenticatedAdvance_start_def\<close>)

lemma acceptAdvance_resume_cases:
  obtains e where "acceptAuthenticatedAdvance_resume module (a, x, kp) ans m = (Inl e, m\<lparr>mBusy := False\<rparr>)"
  | ss nextRoot where "ans = Some ss" "\<not> mDestroyed m" "advance_root module m a ss nextRoot"
      "acceptAuthenticatedAdvance_resume module (a, x, kp) ans m = (Inr (), m\<lparr>mBusy := False, mPhase := InboundAdvancePrepared x a kp nextRoot\<rparr>)"
proof (cases ans)
  case (Some ss)
  let ?r = "rbind (assertActive m) (\<lambda>_. rbind (requireBytes ss (sharedSecretBytes (mSuite m))) (\<lambda>_.
      deriveNextRoot module (mRootKey m) ss (advance_bytes a)))"
  have eq: "acceptAuthenticatedAdvance_resume module (a, x, kp) ans m = attempt (m\<lparr>mBusy := False\<rparr>) ?r
      (\<lambda>nextRoot. (Inr (), m\<lparr>mBusy := False, mPhase := InboundAdvancePrepared x a kp nextRoot\<rparr>))"
    using Some by (simp add: acceptAuthenticatedAdvance_resume_def Let_def)
  show ?thesis
  proof (cases ?r)
    case (Inr root)
    then have "\<not> mDestroyed m" "advance_root module m a ss root" by (auto simp: result_simps assertActive_def advance_root_def)
    then show ?thesis using that(2) [OF Some] eq Inr by simp
  qed (use that(1) eq in simp)
qed (use that(1) in \<open>simp add: acceptAuthenticatedAdvance_resume_def\<close>)

lemma commitAcceptedAdvance_cases:
  assumes "\<And>x a kp root. mPhase m = InboundAdvancePrepared x a kp root \<Longrightarrow> length root = 32"
  obtains e where "commitAcceptedAdvance m = (Inl e, m)"
  | x a kp nextRoot where "live m" "mPhase m = InboundAdvancePrepared x a kp nextRoot"
      "commitAcceptedAdvance m = (Inr \<lparr>ack_epoch = toEpoch a, ack_advanceCounter = senderCounter a\<rparr>,
         m\<lparr>mRootKey := nextRoot, mEpoch := toEpoch a, mLocalCounter := mLocalCounter m + 1,
           mRemoteCounter := mRemoteCounter m + 1, mNextOfferer := Remote, mLastInboundAdvance := Some a,
           mPhase := InboundAdvanceAwaitingAckDispatch a\<rparr>)"
proof (cases "live m \<and> (\<exists>x a kp root. mPhase m = InboundAdvancePrepared x a kp root)")
  case True
  then obtain x a kp root where a: "live m" "mPhase m = InboundAdvancePrepared x a kp root" by blast
  show ?thesis
    by (rule that(2) [OF a]) (use a assms [OF a(2)] in \<open>simp add: commitAcceptedAdvance_def requireBytes_def PQ_HEALING_ROOT_BYTES_def Let_def\<close>)
next
  case False
  have "\<exists>e. commitAcceptedAdvance m = (Inl e, m)"
    by (cases rule: assertSynchronous_cases [of m])
      (use False in \<open>auto simp: commitAcceptedAdvance_def split: internal_phase.splits\<close>)
  then show ?thesis using that(1) by blast
qed

end
