(* ===== verification/Pq_Invariant.thy ===== *)
theory Pq_Invariant
  imports Pq_Steps
begin

text \<open>
  The healing machine driven by any sequence of calls, answers and deliveries. In every state it
  reaches, the fields agree with the pending transition, so that the snapshot of the machine passes
  the validation of \<^verbatim>\<open>restore\<close> and gives the same machine back.
\<close>

section \<open>Events\<close>

text \<open>The call that awaits the backend, with the locals it captured.\<close>

datatype flight =
    NoFlight
  | OfferFlight
  | AdvanceFlight decoded_offer
  | AcceptFlight "decoded_advance \<times> decoded_offer \<times> mlkem_keypair"

datatype pq_event =
    StartOffer
  | OfferAnswer "mlkem_keypair option"
  | MarkOffer
  | AbortOffer
  | GetOffer bytes
  | StartAdvance
  | AdvanceAnswer "(bytes \<times> bytes) option"
  | CommitAdvance
  | GetAck acknowledgement
  | GetAdvance bytes
  | AcceptAnswer "bytes option"
  | CommitAccepted
  | MarkAck acknowledgement
  | DestroyMachine

fun pq_handle :: "'r libcrypto \<Rightarrow> pq_event \<Rightarrow> pq_machine \<times> flight \<Rightarrow> pq_machine \<times> flight" where
  "pq_handle module StartOffer (m, f) =
     (case prepareOffer_start m of (Inr _, m') \<Rightarrow> (m', OfferFlight) | (Inl _, m') \<Rightarrow> (m', f))"
| "pq_handle module (OfferAnswer ans) (m, f) =
     (if f = OfferFlight then (snd (prepareOffer_resume ans m), NoFlight) else (m, f))"
| "pq_handle module MarkOffer (m, f) = (snd (markOfferDispatched m), f)"
| "pq_handle module AbortOffer (m, f) = (snd (abortUnsentOffer m), f)"
| "pq_handle module (GetOffer r) (m, f) = (snd (acceptAuthenticatedOffer r m), f)"
| "pq_handle module StartAdvance (m, f) =
     (case prepareAdvance_start m of (Inr x, m') \<Rightarrow> (m', AdvanceFlight x) | (Inl _, m') \<Rightarrow> (m', f))"
| "pq_handle module (AdvanceAnswer ans) (m, f) =
     (case f of AdvanceFlight x \<Rightarrow> (snd (prepareAdvance_resume module x ans m), NoFlight) | _ \<Rightarrow> (m, f))"
| "pq_handle module CommitAdvance (m, f) = (snd (commitPreparedAdvance m), f)"
| "pq_handle module (GetAck k) (m, f) = (snd (acceptAuthenticatedAdvanceAcknowledgement k m), f)"
| "pq_handle module (GetAdvance r) (m, f) =
     (case acceptAuthenticatedAdvance_start r m of (Inr p, m') \<Rightarrow> (m', AcceptFlight p) | (Inl _, m') \<Rightarrow> (m', f))"
| "pq_handle module (AcceptAnswer ans) (m, f) =
     (case f of AcceptFlight p \<Rightarrow> (snd (acceptAuthenticatedAdvance_resume module p ans m), NoFlight) | _ \<Rightarrow> (m, f))"
| "pq_handle module CommitAccepted (m, f) = (snd (commitAcceptedAdvance m), f)"
| "pq_handle module (MarkAck k) (m, f) = (snd (markAdvanceAcknowledgementDispatched k m), f)"
| "pq_handle module DestroyMachine (m, f) = (destroy m, f)"

section \<open>The invariant\<close>

definition keypair_ok :: "mlkem_suite \<Rightarrow> decoded_offer \<Rightarrow> mlkem_keypair \<Rightarrow> bool" where
  "keypair_ok suite x kp \<longleftrightarrow> kp_publicKey kp = publicKey x \<and> length (kp_secretKey kp) = secretKeyBytes suite"

definition phase_ok :: "pq_machine \<Rightarrow> bool" where
  "phase_ok m \<longleftrightarrow>
     (case mPhase m of
        Idle \<Rightarrow> True
      | OutboundOffer _ x kp \<Rightarrow> offer_ok (mSuite m) (mBinding m) x \<and> keypair_ok (mSuite m) x kp \<and> room m
      | InboundOffer x \<Rightarrow> offer_ok (mSuite m) (mBinding m) x \<and> room m
      | OutboundAdvancePrepared x a root \<Rightarrow> advance_ok (mSuite m) (mBinding m) a \<and> advance_offer a = x \<and> length root = 32 \<and> room m
      | OutboundAdvanceAwaitingAck x a \<Rightarrow> advance_ok (mSuite m) (mBinding m) a \<and> advance_offer a = x
      | InboundAdvancePrepared x a kp root \<Rightarrow>
          advance_ok (mSuite m) (mBinding m) a \<and> advance_offer a = x \<and> keypair_ok (mSuite m) x kp \<and> length root = 32 \<and> room m
      | InboundAdvanceAwaitingAckDispatch a \<Rightarrow> advance_ok (mSuite m) (mBinding m) a)"

text \<open>The snapshot validation in the form the proofs use.\<close>

lemma validate_iff:
  "validateSnapshotState e l r n p lo la \<longleftrightarrow>
     (\<forall>x. lo = Some x \<longrightarrow> toEpoch x \<le> e \<and> senderCounter x < r) \<and>
     (\<forall>x. la = Some x \<longrightarrow> toEpoch x \<le> e \<and> senderCounter x < r) \<and>
     (case p of
        Idle \<Rightarrow> True
      | OutboundOffer _ x _ \<Rightarrow> n = Local \<and> senderCounter x = l \<and> fromEpoch x = e
      | InboundOffer x \<Rightarrow> n = Remote \<and> senderCounter x = r \<and> fromEpoch x = e
      | OutboundAdvancePrepared x a _ \<Rightarrow> n = Remote \<and> senderCounter a = l \<and> senderCounter x = r \<and> fromEpoch a = e
      | OutboundAdvanceAwaitingAck x a \<Rightarrow> n = Local \<and> senderCounter a + 1 = l \<and> senderCounter x + 1 = r \<and> toEpoch a = e \<and>
          (\<exists>y. lo = Some y \<and> offer_bytes y = offer_bytes x)
      | InboundAdvancePrepared x a _ _ \<Rightarrow> n = Local \<and> senderCounter a = r \<and> senderCounter x = l \<and> fromEpoch a = e
      | InboundAdvanceAwaitingAckDispatch a \<Rightarrow> n = Remote \<and> senderCounter a + 1 = r \<and>
          senderCounter (advance_offer a) + 1 = l \<and> toEpoch a = e \<and> (\<exists>y. la = Some y \<and> advance_bytes y = advance_bytes a))"
  by (cases lo; cases la; cases p; simp add: validateSnapshotState_def bytesEqual_iff)

definition pq_inv :: "pq_machine \<Rightarrow> bool" where
  "pq_inv m \<longleftrightarrow> canonical (mSuite m) \<and> length (mBinding m) = 32 \<and> length (mRootKey m) = 32 \<and>
     u64_ok (mEpoch m) \<and> u64_ok (mLocalCounter m) \<and> u64_ok (mRemoteCounter m) \<and>
     (\<forall>x. mLastInboundOffer m = Some x \<longrightarrow> offer_ok (mSuite m) (mBinding m) x) \<and>
     (\<forall>a. mLastInboundAdvance m = Some a \<longrightarrow> advance_ok (mSuite m) (mBinding m) a) \<and>
     validateSnapshotState (mEpoch m) (mLocalCounter m) (mRemoteCounter m) (mNextOfferer m) (mPhase m)
       (mLastInboundOffer m) (mLastInboundAdvance m) \<and>
     phase_ok m"

definition flight_ok :: "pq_machine \<Rightarrow> flight \<Rightarrow> bool" where
  "flight_ok m f \<longleftrightarrow>
     (mBusy m \<longleftrightarrow> f \<noteq> NoFlight) \<and>
     (mDestroyed m \<or>
      (case f of
         NoFlight \<Rightarrow> True
       | OfferFlight \<Rightarrow> mPhase m = Idle \<and> mNextOfferer m = Local \<and> room m
       | AdvanceFlight x \<Rightarrow> mPhase m = InboundOffer x
       | AcceptFlight (a, x, kp) \<Rightarrow> mPhase m = OutboundOffer True x kp \<and> advance_ok (mSuite m) (mBinding m) a \<and>
           advance_offer a = x \<and> senderCounter a = mRemoteCounter m \<and> fromEpoch a = mEpoch m))"

definition kdf_ok :: "'r libcrypto \<Rightarrow> bool" where
  "kdf_ok module \<longleftrightarrow> (\<forall>n prk info okm. hkdf_sha512_expand module n prk info = Some okm \<longrightarrow> length okm = n)"

lemma advance_root_length: "kdf_ok module \<Longrightarrow> advance_root module m a ss root \<Longrightarrow> length root = 32"
  by (auto simp: kdf_ok_def advance_root_def deriveNextRoot_def result_simps lift_kdf_def hkdfExpand_def
      PQ_HEALING_ROOT_BYTES_def split: sum.splits option.splits if_splits)

lemma offer_unique: "offer_ok s b x \<Longrightarrow> offer_ok s b y \<Longrightarrow> offer_bytes x = offer_bytes y \<Longrightarrow> x = y"
  by (simp add: offer_ok_def)

lemma advance_unique: "advance_ok s b x \<Longrightarrow> advance_ok s b y \<Longrightarrow> advance_bytes x = advance_bytes y \<Longrightarrow> x = y"
  by (simp add: advance_ok_def)

lemmas inv_defs = pq_inv_def phase_ok_def validate_iff flight_ok_def room_def

lemma room_update [simp]: "room (m\<lparr>mBusy := b\<rparr>) = room m" "room (m\<lparr>mPhase := p\<rparr>) = room m"
  by (simp_all add: room_def)

lemma pq_inv_busy [simp]: "pq_inv (m\<lparr>mBusy := b\<rparr>) = pq_inv m"
  by (simp add: pq_inv_def phase_ok_def Let_def split: internal_phase.splits)

lemma inv_phase_root: "pq_inv m \<Longrightarrow> mPhase m = InboundAdvancePrepared x a kp root \<Longrightarrow> length root = 32"
  by (simp add: pq_inv_def phase_ok_def)

section \<open>Every event keeps it\<close>

lemma start_offer_inv:
  assumes "pq_inv m" "flight_ok m f"
  shows "case pq_handle module StartOffer (m, f) of (m', f') \<Rightarrow> pq_inv m' \<and> flight_ok m' f'"
  by (rule prepareOffer_start_cases [of m]) (use assms in \<open>auto simp: flight_ok_def live_def\<close>)

lemma offer_answer_inv:
  assumes "pq_inv m" "flight_ok m f"
  shows "case pq_handle module (OfferAnswer ans) (m, f) of (m', f') \<Rightarrow> pq_inv m' \<and> flight_ok m' f'"
proof (cases "f = OfferFlight")
  case True
  have "pq_inv (snd (prepareOffer_resume ans m)) \<and> \<not> mBusy (snd (prepareOffer_resume ans m))"
  proof (rule prepareOffer_resume_cases [of ans m])
    fix kp x
    assume r: "prepareOffer_resume ans m = (Inr (offer_bytes x), m\<lparr>mBusy := False, mPhase := OutboundOffer False x kp\<rparr>)"
      and a: "\<not> mDestroyed m" "length (kp_secretKey kp) = secretKeyBytes (mSuite m)" "kp_publicKey kp = publicKey x"
      "offer_ok (mSuite m) (mBinding m) x" "senderCounter x = mLocalCounter m" "fromEpoch x = mEpoch m"
    then show ?thesis using assms True by (simp add: pq_inv_def phase_ok_def flight_ok_def keypair_ok_def validate_iff)
  qed (use assms in simp)
  then show ?thesis using True by (simp add: flight_ok_def)
qed (use assms in simp)

lemma mark_offer_inv:
  assumes "pq_inv m" "flight_ok m f"
  shows "case pq_handle module MarkOffer (m, f) of (m', f') \<Rightarrow> pq_inv m' \<and> flight_ok m' f'"
  by (rule markOfferDispatched_cases [of m])
    (use assms in \<open>auto simp: pq_inv_def phase_ok_def flight_ok_def live_def validate_iff\<close>)

lemma abort_offer_inv:
  assumes "pq_inv m" "flight_ok m f"
  shows "case pq_handle module AbortOffer (m, f) of (m', f') \<Rightarrow> pq_inv m' \<and> flight_ok m' f'"
  by (rule abortUnsentOffer_cases [of m])
    (use assms in \<open>auto simp: pq_inv_def phase_ok_def flight_ok_def live_def validate_iff\<close>)

lemma get_offer_inv:
  assumes "pq_inv m" "flight_ok m f"
  shows "case pq_handle module (GetOffer r) (m, f) of (m', f') \<Rightarrow> pq_inv m' \<and> flight_ok m' f'"
  by (rule acceptAuthenticatedOffer_cases [of r m])
    (use assms in \<open>auto simp: pq_inv_def phase_ok_def flight_ok_def live_def validate_iff\<close>)

lemma start_advance_inv:
  assumes "pq_inv m" "flight_ok m f"
  shows "case pq_handle module StartAdvance (m, f) of (m', f') \<Rightarrow> pq_inv m' \<and> flight_ok m' f'"
  by (rule prepareAdvance_start_cases [of m]) (use assms in \<open>auto simp: flight_ok_def live_def\<close>)

lemma advance_answer_inv:
  assumes "pq_inv m" "flight_ok m f" "kdf_ok module"
  shows "case pq_handle module (AdvanceAnswer ans) (m, f) of (m', f') \<Rightarrow> pq_inv m' \<and> flight_ok m' f'"
proof (cases "\<exists>x. f = AdvanceFlight x")
  case True
  then obtain x where f: "f = AdvanceFlight x" by blast
  let ?m = "snd (prepareAdvance_resume module x ans m)"
  have "pq_inv ?m \<and> \<not> mBusy ?m"
  proof (cases "mDestroyed m")
    case True
    then show ?thesis using assms by (cases ans) (auto simp: prepareAdvance_resume_def assertActive_def)
  next
    case False
    then have ph: "mPhase m = InboundOffer x" using assms f by (simp add: flight_ok_def)
    then have x: "offer_ok (mSuite m) (mBinding m) x" "room m" "mNextOfferer m = Remote"
      "senderCounter x = mRemoteCounter m" "fromEpoch x = mEpoch m"
      using assms(1) by (simp_all add: pq_inv_def phase_ok_def validate_iff)
    show ?thesis
    proof (rule prepareAdvance_resume_cases [OF x(1), of module ans])
      fix a ss root
      assume r: "prepareAdvance_resume module x ans m = (Inr (advance_bytes a), m\<lparr>mBusy := False, mPhase := OutboundAdvancePrepared x a root\<rparr>)"
        and a: "advance_ok (mSuite m) (mBinding m) a" "advance_offer a = x" "senderCounter a = mLocalCounter m"
        and root: "advance_root module m a ss root"
      have "fromEpoch a = mEpoch m" using advance_okD(4) [OF a(1)] a(2) x(5) by simp
      then show ?thesis using assms(1) r a x advance_root_length [OF assms(3) root]
        by (simp add: pq_inv_def phase_ok_def validate_iff)
    qed (use assms in simp)
  qed
  then show ?thesis using f by (simp add: flight_ok_def)
qed (use assms in \<open>cases f; simp\<close>)

lemma commit_advance_inv:
  assumes "pq_inv m" "flight_ok m f"
  shows "case pq_handle module CommitAdvance (m, f) of (m', f') \<Rightarrow> pq_inv m' \<and> flight_ok m' f'"
proof (rule commitPreparedAdvance_cases [of m])
  fix x a root
  assume l: "live m" "mPhase m = OutboundAdvancePrepared x a root" "length root = 32"
    and r: "commitPreparedAdvance m = (Inr (advance_bytes a),
         m\<lparr>mRootKey := root, mEpoch := toEpoch a, mLocalCounter := mLocalCounter m + 1,
           mRemoteCounter := mRemoteCounter m + 1, mNextOfferer := Local, mLastInboundOffer := Some x,
           mPhase := OutboundAdvanceAwaitingAck x a\<rparr>)"
  have a: "advance_ok (mSuite m) (mBinding m) a" "advance_offer a = x" "room m" "senderCounter a = mLocalCounter m"
    "senderCounter x = mRemoteCounter m" "fromEpoch a = mEpoch m"
    using assms(1) l(2) by (simp_all add: pq_inv_def phase_ok_def validate_iff)
  note d = advance_okD [OF a(1)] offer_okD [OF advance_okD(3) [OF a(1)]]
  have "\<forall>y. mLastInboundAdvance m = Some y \<longrightarrow> toEpoch y \<le> mEpoch m \<and> senderCounter y < mRemoteCounter m"
    using assms(1) by (simp add: pq_inv_def validate_iff)
  then show ?thesis using assms l r a d(2,3,4,9)
    by (auto simp: pq_inv_def phase_ok_def validate_iff flight_ok_def live_def room_def u64_ok_def
        bytesEqual_iff split: option.splits)
qed (use assms in simp)

lemma get_ack_inv:
  assumes "pq_inv m" "flight_ok m f"
  shows "case pq_handle module (GetAck k) (m, f) of (m', f') \<Rightarrow> pq_inv m' \<and> flight_ok m' f'"
  by (rule acceptAck_cases [of k m])
    (use assms in \<open>auto simp: pq_inv_def phase_ok_def flight_ok_def live_def validate_iff\<close>)

lemma mark_ack_inv:
  assumes "pq_inv m" "flight_ok m f"
  shows "case pq_handle module (MarkAck k) (m, f) of (m', f') \<Rightarrow> pq_inv m' \<and> flight_ok m' f'"
  by (rule markAck_cases [of k m])
    (use assms in \<open>auto simp: pq_inv_def phase_ok_def flight_ok_def live_def validate_iff\<close>)

lemma get_advance_inv:
  assumes "pq_inv m" "flight_ok m f"
  shows "case pq_handle module (GetAdvance r) (m, f) of (m', f') \<Rightarrow> pq_inv m' \<and> flight_ok m' f'"
proof (rule acceptAdvance_start_cases [of r m])
  fix a x kp
  assume s: "acceptAuthenticatedAdvance_start r m = (Inr (a, x, kp), m\<lparr>mBusy := True\<rparr>)" "mPhase m = OutboundOffer True x kp"
    and a: "advance_ok (mSuite m) (mBinding m) a" "senderCounter a = mRemoteCounter m" "fromEpoch a = mEpoch m"
    "offer_bytes (advance_offer a) = offer_bytes x"
  have "offer_ok (mSuite m) (mBinding m) x" using assms(1) s(2) by (simp add: pq_inv_def phase_ok_def)
  then have "advance_offer a = x" using offer_unique [OF advance_okD(3) [OF a(1)]] a(4) by blast
  with s a assms show ?thesis by (simp add: flight_ok_def)
qed (use assms in simp)

lemma accept_answer_inv:
  assumes "pq_inv m" "flight_ok m f" "kdf_ok module"
  shows "case pq_handle module (AcceptAnswer ans) (m, f) of (m', f') \<Rightarrow> pq_inv m' \<and> flight_ok m' f'"
proof (cases "\<exists>a x kp. f = AcceptFlight (a, x, kp)")
  case True
  then obtain a x kp where f: "f = AcceptFlight (a, x, kp)" by blast
  let ?m = "snd (acceptAuthenticatedAdvance_resume module (a, x, kp) ans m)"
  have "pq_inv ?m \<and> \<not> mBusy ?m"
  proof (rule acceptAdvance_resume_cases [of module a x kp ans m])
    fix ss root
    assume d: "\<not> mDestroyed m" and root: "advance_root module m a ss root"
      and r: "acceptAuthenticatedAdvance_resume module (a, x, kp) ans m = (Inr (), m\<lparr>mBusy := False, mPhase := InboundAdvancePrepared x a kp root\<rparr>)"
    then show ?thesis using assms(1,2) f advance_root_length [OF assms(3) root]
      by (auto simp: pq_inv_def phase_ok_def validate_iff flight_ok_def)
  qed (use assms in simp)
  then show ?thesis using f by (simp add: flight_ok_def)
qed (use assms in \<open>cases f; auto\<close>)

lemma commit_accepted_inv:
  assumes "pq_inv m" "flight_ok m f"
  shows "case pq_handle module CommitAccepted (m, f) of (m', f') \<Rightarrow> pq_inv m' \<and> flight_ok m' f'"
proof (rule commitAcceptedAdvance_cases [of m])
  fix x a kp root
  assume l: "live m" "mPhase m = InboundAdvancePrepared x a kp root"
    and r: "commitAcceptedAdvance m = (Inr \<lparr>ack_epoch = toEpoch a, ack_advanceCounter = senderCounter a\<rparr>,
         m\<lparr>mRootKey := root, mEpoch := toEpoch a, mLocalCounter := mLocalCounter m + 1,
           mRemoteCounter := mRemoteCounter m + 1, mNextOfferer := Remote, mLastInboundAdvance := Some a,
           mPhase := InboundAdvanceAwaitingAckDispatch a\<rparr>)"
  have a: "advance_ok (mSuite m) (mBinding m) a" "advance_offer a = x" "room m" "senderCounter a = mRemoteCounter m"
    "senderCounter x = mLocalCounter m" "fromEpoch a = mEpoch m" "length root = 32"
    using assms(1) l(2) by (simp_all add: pq_inv_def phase_ok_def validate_iff)
  note d = advance_okD [OF a(1)]
  have "\<forall>y. mLastInboundOffer m = Some y \<longrightarrow> toEpoch y \<le> mEpoch m \<and> senderCounter y < mRemoteCounter m"
    using assms(1) by (simp add: pq_inv_def validate_iff)
  then show ?thesis using assms l r a d(2)
    by (auto simp: pq_inv_def phase_ok_def validate_iff flight_ok_def live_def room_def u64_ok_def
        bytesEqual_iff split: option.splits)
qed (use assms inv_phase_root in auto)

lemma destroy_inv:
  assumes "pq_inv m" "flight_ok m f"
  shows "case pq_handle module DestroyMachine (m, f) of (m', f') \<Rightarrow> pq_inv m' \<and> flight_ok m' f'"
  using assms by (auto simp: destroy_def pq_inv_def phase_ok_def validate_iff flight_ok_def wipe_def)

lemma pq_handle_inv:
  assumes "pq_inv m" "flight_ok m f" "kdf_ok module"
  shows "case pq_handle module ev (m, f) of (m', f') \<Rightarrow> pq_inv m' \<and> flight_ok m' f'"
  by (cases ev; simp only:;
      intro assms start_offer_inv offer_answer_inv mark_offer_inv abort_offer_inv get_offer_inv start_advance_inv
        advance_answer_inv commit_advance_inv get_ack_inv get_advance_inv accept_answer_inv commit_accepted_inv
        mark_ack_inv destroy_inv)

section \<open>The edge a machine belongs to\<close>

definition same_edge :: "pq_machine \<Rightarrow> pq_machine \<Rightarrow> bool" where
  "same_edge m m' \<longleftrightarrow> mSuite m' = mSuite m \<and> mBinding m' = mBinding m \<and> mDestroyed m' = mDestroyed m"

lemma same_edge_refl [simp]: "same_edge m m"
  by (simp add: same_edge_def)

lemma same_edge_attempt: "same_edge m m' \<Longrightarrow> (\<And>x. r = Inr x \<Longrightarrow> same_edge m (snd (k x))) \<Longrightarrow> same_edge m (snd (attempt m' r k))"
  by (cases r) simp_all

lemma same_edge_updates [simp]:
  "same_edge m (m\<lparr>mBusy := b\<rparr>)" "same_edge m (m\<lparr>mPhase := p\<rparr>)" "same_edge m (m\<lparr>mBusy := b, mPhase := p\<rparr>)"
  by (simp_all add: same_edge_def)

lemma same_edge_ops:
  "same_edge m (snd (prepareOffer_start m))" "same_edge m (snd (prepareOffer_resume ans m))"
  "same_edge m (snd (markOfferDispatched m))" "same_edge m (snd (abortUnsentOffer m))"
  "same_edge m (snd (acceptAuthenticatedOffer r m))" "same_edge m (snd (prepareAdvance_start m))"
  "same_edge m (snd (prepareAdvance_resume module x ans2 m))" "same_edge m (snd (commitPreparedAdvance m))"
  "same_edge m (snd (acceptAuthenticatedAdvanceAcknowledgement k m))" "same_edge m (snd (acceptAuthenticatedAdvance_start r m))"
  "same_edge m (snd (acceptAuthenticatedAdvance_resume module p ans3 m))" "same_edge m (snd (commitAcceptedAdvance m))"
  "same_edge m (snd (markAdvanceAcknowledgementDispatched k m))"
  subgoal unfolding prepareOffer_start_def Let_def by (intro same_edge_attempt) auto
  subgoal unfolding prepareOffer_resume_def Let_def by (cases ans) (auto intro!: same_edge_attempt)
  subgoal unfolding markOfferDispatched_def by (intro same_edge_attempt) (auto split: internal_phase.splits)
  subgoal unfolding abortUnsentOffer_def by (intro same_edge_attempt) (auto split: internal_phase.splits bool.splits)
  subgoal unfolding acceptAuthenticatedOffer_def by (intro same_edge_attempt) auto
  subgoal unfolding prepareAdvance_start_def Let_def
    by (intro same_edge_attempt) (auto split: internal_phase.splits intro!: same_edge_attempt)
  subgoal unfolding prepareAdvance_resume_def Let_def by (cases ans2) (auto intro!: same_edge_attempt)
  subgoal unfolding commitPreparedAdvance_def
    by (intro same_edge_attempt) (auto simp: same_edge_def attempt_def split: internal_phase.splits sum.splits)
  subgoal unfolding acceptAuthenticatedAdvanceAcknowledgement_def by (intro same_edge_attempt) (auto split: internal_phase.splits)
  subgoal unfolding acceptAuthenticatedAdvance_start_def Let_def
    by (intro same_edge_attempt) (auto split: internal_phase.splits bool.splits intro!: same_edge_attempt)
  subgoal unfolding acceptAuthenticatedAdvance_resume_def Let_def
    by (cases p; cases ans3) (auto intro!: same_edge_attempt)
  subgoal unfolding commitAcceptedAdvance_def Let_def
    by (intro same_edge_attempt) (auto simp: same_edge_def attempt_def split: internal_phase.splits sum.splits)
  subgoal unfolding markAdvanceAcknowledgementDispatched_def by (intro same_edge_attempt) (auto split: internal_phase.splits)
  done

lemma fst_started: "fst (case p of (Inr x, m') \<Rightarrow> (m', g x) | (Inl e, m') \<Rightarrow> (m', f)) = snd p"
  by (auto split: prod.splits sum.splits)

lemma pq_handle_same_edge: "ev \<noteq> DestroyMachine \<Longrightarrow> same_edge m (fst (pq_handle module ev (m, f)))"
  by (cases ev) (auto simp: same_edge_ops fst_started split: flight.splits)

lemma pq_handle_edge_kept:
  assumes "\<not> mDestroyed (fst (pq_handle module ev (m, f)))"
  shows "same_edge m (fst (pq_handle module ev (m, f)))"
  using assms pq_handle_same_edge [of ev m module f] by (cases "ev = DestroyMachine") (auto simp: destroy_def split: if_splits)

section \<open>Runs\<close>

definition pq_run :: "'r libcrypto \<Rightarrow> pq_event list \<Rightarrow> pq_machine \<Rightarrow> pq_machine \<times> flight" where
  "pq_run module evs m = fold (pq_handle module) evs (m, NoFlight)"

lemma new_machine_inv:
  assumes "newPqHealingMachine suite backend binding root t eo lo ro = Inr m"
  shows "pq_inv m" "flight_ok m NoFlight" "mSuite m = suite" "mBinding m = binding" "suite = backend" "\<not> mDestroyed m"
  using assms by (auto simp: newPqHealingMachine_def result_simps Let_def assertSameSuite_iff requireBytes_def
      PQ_HEALING_BINDING_BYTES_def PQ_HEALING_ROOT_BYTES_def pq_inv_def phase_ok_def validate_iff flight_ok_def)

lemma pq_run_inv:
  assumes "pq_inv m" "kdf_ok module"
    and "flight_ok m f" "fold (pq_handle module) evs (m, f) = (m', f')"
  shows "pq_inv m' \<and> flight_ok m' f' \<and> (mDestroyed m' \<or> same_edge m m')"
  using assms
proof (induction evs arbitrary: m f)
  case (Cons ev evs)
  obtain m1 f1 where 1: "pq_handle module ev (m, f) = (m1, f1)" by fastforce
  with pq_handle_inv [OF Cons.prems(1,3,2), of ev] have "pq_inv m1" "flight_ok m1 f1" by simp_all
  with Cons.IH [of m1 f1] Cons.prems 1 have "pq_inv m' \<and> flight_ok m' f' \<and> (mDestroyed m' \<or> same_edge m1 m')" by simp
  with pq_handle_edge_kept [of module ev m f] 1 show ?case by (auto simp: same_edge_def)
qed simp

section \<open>Snapshots\<close>

lemma decode_snap [simp]:
  "offer_ok suite b x \<Longrightarrow> decode_snap_offer suite b (offer_bytes x) = Inr x"
  "advance_ok suite b a \<Longrightarrow> decode_snap_advance suite b (advance_bytes a) = Inr a"
  using offer_okD(4) [of suite b x] advance_okD(6) [of suite b a]
  by (simp_all add: decode_snap_offer_def decode_snap_advance_def requireBytes_def offer_ok_def advance_ok_def)

lemma decode_snapshotPhase:
  "phase_ok m \<Longrightarrow> decodeSnapshotPhase (mSuite m) (mBinding m) (snapshotPhase (mPhase m)) = Inr (mPhase m)"
  by (cases "mPhase m") (auto simp: phase_ok_def keypair_ok_def requireBytes_def PQ_HEALING_ROOT_BYTES_def)

lemma restore_snapshot:
  assumes "pq_inv m" "live m"
  shows "\<exists>s. snapshot m = Inr s \<and> restore s (mSuite m) (mSuite m) (mBinding m) = Inr m"
proof -
  have opt: "decode_optional (decode_snap_offer (mSuite m) (mBinding m)) (map_option offer_bytes (mLastInboundOffer m)) = Inr (mLastInboundOffer m)"
    "decode_optional (decode_snap_advance (mSuite m) (mBinding m)) (map_option advance_bytes (mLastInboundAdvance m)) = Inr (mLastInboundAdvance m)"
    using assms(1) by (auto simp: decode_optional_def pq_inv_def split: option.splits)
  have t: "turn_of (turn_name t) = Inr t" for t by (cases t) (simp_all add: turn_name_def turn_of_def)
  have suite: "assertSameSuite (mSuite m) (mSuite m) = Inr ()" using assms(1) by (simp add: assertSameSuite_iff pq_inv_def)
  show ?thesis using assms suite opt decode_snapshotPhase [of m]
    by (cases m) (simp add: snapshot_def restore_def decodePqHealingSnapshot_def pq_inv_def requireBytes_def t newPqHealingMachine_def live_def
        bytesEqual_iff PQ_HEALING_BINDING_BYTES_def PQ_HEALING_ROOT_BYTES_def)
qed

end
