(* ===== verification/Pq_Edge.thy ===== *)
theory Pq_Edge
  imports Pq_Invariant
begin

text \<open>
  Two healing machines on one edge. The outer channel authenticates records, so what a side can receive
  is what the other side has sent, any number of times, in any order, or never. A record counts
  as sent from the call that lets it leave: \<^verbatim>\<open>markOfferDispatched\<close> for an OFFER, \<^verbatim>\<open>commitPreparedAdvance\<close> for an
  ADVANCE, \<^verbatim>\<open>commitAcceptedAdvance\<close> for the acknowledgement. ML-KEM is a parameter with its correctness as a
  hypothesis. Shown: the two sides never hold different roots for one epoch, and from every state the
  exchange can still be completed.
\<close>

section \<open>The edge\<close>

record mlkem =
  kem_keypair :: "bytes \<Rightarrow> mlkem_keypair option"
  kem_encaps :: "bytes \<Rightarrow> bytes \<Rightarrow> (bytes \<times> bytes) option"
  kem_decaps :: "bytes \<Rightarrow> bytes \<Rightarrow> bytes option"

definition kem_ok :: "mlkem \<Rightarrow> bool" where
  "kem_ok kem \<longleftrightarrow> (\<forall>coins kp coins' ct ss. kem_keypair kem coins = Some kp \<longrightarrow>
     kem_encaps kem (kp_publicKey kp) coins' = Some (ct, ss) \<longrightarrow> kem_decaps kem ct (kp_secretKey kp) = Some ss)"

record net =
  offers :: "bytes set"
  advances :: "bytes set"
  acks :: "acknowledgement set"

definition silent :: net where
  "silent = \<lparr>offers = {}, advances = {}, acks = {}\<rparr>"

fun emit :: "pq_event \<Rightarrow> pq_machine \<Rightarrow> net \<Rightarrow> net" where
  "emit MarkOffer m n =
     (case markOfferDispatched m of
        (Inr _, m') \<Rightarrow> (case copyPendingOutboundRecord m' of (Inr r, _) \<Rightarrow> n\<lparr>offers := insert r (offers n)\<rparr> | _ \<Rightarrow> n)
      | _ \<Rightarrow> n)"
| "emit CommitAdvance m n =
     (case commitPreparedAdvance m of (Inr r, _) \<Rightarrow> n\<lparr>advances := insert r (advances n)\<rparr> | _ \<Rightarrow> n)"
| "emit CommitAccepted m n =
     (case commitAcceptedAdvance m of (Inr k, _) \<Rightarrow> n\<lparr>acks := insert k (acks n)\<rparr> | _ \<Rightarrow> n)"
| "emit _ m n = n"

text \<open>What may happen to one side: its own calls, answers of its backend, and records of the other side.\<close>

fun allowed :: "mlkem \<Rightarrow> net \<Rightarrow> flight \<Rightarrow> pq_event \<Rightarrow> bool" where
  "allowed kem other f (OfferAnswer ans) \<longleftrightarrow> ans = None \<or> (\<exists>coins. ans = kem_keypair kem coins)"
| "allowed kem other f (AdvanceAnswer ans) \<longleftrightarrow>
     ans = None \<or> (\<exists>x coins. f = AdvanceFlight x \<and> ans = kem_encaps kem (publicKey x) coins)"
| "allowed kem other f (AcceptAnswer ans) \<longleftrightarrow>
     ans = None \<or> (\<exists>a x kp. f = AcceptFlight (a, x, kp) \<and> ans = kem_decaps kem (ciphertext a) (kp_secretKey kp))"
| "allowed kem other f (GetOffer r) \<longleftrightarrow> r \<in> offers other"
| "allowed kem other f (GetAdvance r) \<longleftrightarrow> r \<in> advances other"
| "allowed kem other f (GetAck k) \<longleftrightarrow> k \<in> acks other"
| "allowed kem other f DestroyMachine \<longleftrightarrow> False"
| "allowed kem other f _ \<longleftrightarrow> True"

record edge =
  party :: "bool \<Rightarrow> pq_machine \<times> flight"
  sent :: "bool \<Rightarrow> net"

definition edge_act :: "'r libcrypto \<Rightarrow> bool \<Rightarrow> pq_event \<Rightarrow> edge \<Rightarrow> edge" where
  "edge_act module b ev e =
     e\<lparr>party := (party e)(b := pq_handle module ev (party e b)),
       sent := (sent e)(b := emit ev (fst (party e b)) (sent e b))\<rparr>"

inductive edge_run :: "'r libcrypto \<Rightarrow> mlkem \<Rightarrow> edge \<Rightarrow> edge \<Rightarrow> bool" for module kem e0 where
  edge_start: "edge_run module kem e0 e0"
| edge_next: "edge_run module kem e0 e \<Longrightarrow> allowed kem (sent e (\<not> b)) (snd (party e b)) ev \<Longrightarrow>
    edge_run module kem e0 (edge_act module b ev e)"

text \<open>Two fresh machines with one suite, binding and root, mirrored counters and opposite turns.\<close>

definition fresh_edge :: "mlkem_suite \<Rightarrow> bytes \<Rightarrow> bytes \<Rightarrow> bool \<Rightarrow> int \<Rightarrow> int \<Rightarrow> int \<Rightarrow> edge \<Rightarrow> bool" where
  "fresh_edge suite binding root first epoch c d e \<longleftrightarrow>
     (\<exists>m n. newPqHealingMachine suite suite binding root Local (Some epoch) (Some c) (Some d) = Inr m \<and>
            newPqHealingMachine suite suite binding root Remote (Some epoch) (Some d) (Some c) = Inr n \<and>
            e = \<lparr>party = (\<lambda>b. if b = first then (m, NoFlight) else (n, NoFlight)), sent = (\<lambda>b. silent)\<rparr>)"

section \<open>The joint invariant\<close>

definition old_offer :: "pq_machine \<Rightarrow> int \<Rightarrow> bytes \<Rightarrow> bool" where
  "old_offer m n r \<longleftrightarrow> (\<exists>x. offer_ok (mSuite m) (mBinding m) x \<and> offer_bytes x = r \<and> fromEpoch x < n)"

definition old_advance :: "pq_machine \<Rightarrow> int \<Rightarrow> bytes \<Rightarrow> bool" where
  "old_advance m n r \<longleftrightarrow> (\<exists>a. advance_ok (mSuite m) (mBinding m) a \<and> advance_bytes a = r \<and> fromEpoch a < n)"

definition kp_made :: "mlkem \<Rightarrow> mlkem_keypair \<Rightarrow> bool" where
  "kp_made kem kp \<longleftrightarrow> (\<exists>coins. kem_keypair kem coins = Some kp)"

definition linked :: "'r libcrypto \<Rightarrow> mlkem \<Rightarrow> bytes \<Rightarrow> decoded_advance \<Rightarrow> bytes \<Rightarrow> bool" where
  "linked module kem root a nextRoot \<longleftrightarrow> (\<exists>coins ss. kem_encaps kem (publicKey (advance_offer a)) coins = Some (ciphertext a, ss) \<and>
     deriveNextRoot module root ss (advance_bytes a) = Inr nextRoot)"

definition resting :: "internal_phase \<Rightarrow> bool" where
  "resting p \<longleftrightarrow> p = Idle \<or> (\<exists>a. p = InboundAdvanceAwaitingAckDispatch a)"

definition same_key :: "pq_machine \<Rightarrow> pq_machine \<Rightarrow> bool" where
  "same_key m n \<longleftrightarrow> mSuite m = mSuite n \<and> mBinding m = mBinding n"

definition past :: "pq_machine \<Rightarrow> net \<Rightarrow> net \<Rightarrow> bool" where
  "past m nO nR \<longleftrightarrow> (\<forall>r \<in> offers nR. old_offer m (mEpoch m) r) \<and> (\<forall>r \<in> advances nO. old_advance m (mEpoch m) r) \<and>
     (\<forall>k \<in> acks nO \<union> acks nR. ack_epoch k \<le> mEpoch m)"

text \<open>Both sides in one epoch: \<open>A\<close> owns the next offer, \<open>B\<close> answers it.\<close>

definition level_phases :: "'r libcrypto \<Rightarrow> mlkem \<Rightarrow> pq_machine \<Rightarrow> pq_machine \<Rightarrow> net \<Rightarrow> net \<Rightarrow> bool" where
  "level_phases module kem A B nO nR \<longleftrightarrow>
     (case mPhase A of
        Idle \<Rightarrow> resting (mPhase B)
      | OutboundOffer d x kp \<Rightarrow>
          kp_made kem kp \<and> (d \<longrightarrow> offer_bytes x \<in> offers nO) \<and>
          (resting (mPhase B) \<or> d \<and> (mPhase B = InboundOffer x \<or>
             (\<exists>a nextRoot. mPhase B = OutboundAdvancePrepared x a nextRoot \<and> linked module kem (mRootKey A) a nextRoot)))
      | OutboundAdvanceAwaitingAck x a \<Rightarrow>
          \<lparr>ack_epoch = mEpoch A, ack_advanceCounter = senderCounter a\<rparr> \<in> acks nR \<and>
          (mPhase B = Idle \<or> mPhase B = InboundAdvanceAwaitingAckDispatch a)
      | _ \<Rightarrow> False)"

definition level :: "'r libcrypto \<Rightarrow> mlkem \<Rightarrow> pq_machine \<times> flight \<Rightarrow> pq_machine \<times> flight \<Rightarrow> net \<Rightarrow> net \<Rightarrow> bool" where
  "level module kem P Q nO nR \<longleftrightarrow>
     (let A = fst P; B = fst Q in
      same_key A B \<and> mEpoch B = mEpoch A \<and> mRootKey B = mRootKey A \<and> mLocalCounter B = mRemoteCounter A \<and>
      mRemoteCounter B = mLocalCounter A \<and> mNextOfferer A = Local \<and> mNextOfferer B = Remote \<and>
      past A nO nR \<and> (\<forall>r \<in> advances nR. old_advance A (mEpoch A) r) \<and>
      (\<forall>r \<in> offers nO. old_offer A (mEpoch A) r \<or> (\<exists>x kp. mPhase A = OutboundOffer True x kp \<and> r = offer_bytes x)) \<and>
      (\<forall>p. snd P \<noteq> AcceptFlight p) \<and> level_phases module kem A B nO nR)"

text \<open>The answering side has committed the next epoch: \<open>B\<close> is one epoch ahead of \<open>A\<close>.\<close>

definition ahead_core ::
    "'r libcrypto \<Rightarrow> mlkem \<Rightarrow> pq_machine \<Rightarrow> pq_machine \<Rightarrow> net \<Rightarrow> net \<Rightarrow> decoded_offer \<Rightarrow> decoded_advance \<Rightarrow> mlkem_keypair \<Rightarrow> bool" where
  "ahead_core module kem A B nO nR x a kp \<longleftrightarrow>
     same_key A B \<and> mEpoch B = mEpoch A + 1 \<and> mLocalCounter B = mRemoteCounter A + 1 \<and>
     mRemoteCounter B = mLocalCounter A + 1 \<and> mNextOfferer A = Local \<and> past A nO nR \<and>
     mPhase B = OutboundAdvanceAwaitingAck x a \<and>
     (mPhase A = OutboundOffer True x kp \<or> mPhase A = InboundAdvancePrepared x a kp (mRootKey B)) \<and>
     kp_made kem kp \<and> linked module kem (mRootKey A) a (mRootKey B) \<and> advance_bytes a \<in> advances nR \<and>
     (\<forall>r \<in> advances nR. old_advance A (mEpoch A) r \<or> r = advance_bytes a) \<and>
     (\<forall>r \<in> offers nO. old_offer A (mEpoch A) r \<or> r = offer_bytes x)"

definition ahead :: "'r libcrypto \<Rightarrow> mlkem \<Rightarrow> pq_machine \<times> flight \<Rightarrow> pq_machine \<times> flight \<Rightarrow> net \<Rightarrow> net \<Rightarrow> bool" where
  "ahead module kem P Q nO nR \<longleftrightarrow>
     (\<exists>x a kp. ahead_core module kem (fst P) (fst Q) nO nR x a kp \<and> (\<forall>p. snd P = AcceptFlight p \<longrightarrow> fst p = a))"

definition side_ok :: "pq_machine \<times> flight \<Rightarrow> bool" where
  "side_ok P \<longleftrightarrow> pq_inv (fst P) \<and> flight_ok (fst P) (snd P) \<and> \<not> mDestroyed (fst P)"

definition edge_inv :: "'r libcrypto \<Rightarrow> mlkem \<Rightarrow> edge \<Rightarrow> bool" where
  "edge_inv module kem e \<longleftrightarrow> (\<forall>b. side_ok (party e b)) \<and>
     (\<exists>b. level module kem (party e b) (party e (\<not> b)) (sent e b) (sent e (\<not> b)) \<or>
          ahead module kem (party e b) (party e (\<not> b)) (sent e b) (sent e (\<not> b)))"

section \<open>Sides stay well-formed\<close>

lemma side_ok_act:
  assumes "side_ok P" "kdf_ok module" "ev \<noteq> DestroyMachine"
  shows "side_ok (pq_handle module ev P)"
proof -
  obtain m f where P: "P = (m, f)" by (cases P)
  obtain m' f' where h: "pq_handle module ev (m, f) = (m', f')" by fastforce
  show ?thesis using assms pq_handle_inv [of m f module ev] pq_handle_same_edge [OF assms(3), of m module f]
    by (simp add: P side_ok_def h same_edge_def)
qed

section \<open>One epoch, the side that offers\<close>

lemma old_offer_cong [simp]:
  "old_offer (m\<lparr>mBusy := b\<rparr>) n r = old_offer m n r" "old_offer (m\<lparr>mPhase := p\<rparr>) n r = old_offer m n r"
  "old_offer (m\<lparr>mBusy := b, mPhase := p\<rparr>) n r = old_offer m n r"
  by (simp_all add: old_offer_def)

lemma old_advance_cong [simp]:
  "old_advance (m\<lparr>mBusy := b\<rparr>) n r = old_advance m n r" "old_advance (m\<lparr>mPhase := p\<rparr>) n r = old_advance m n r"
  "old_advance (m\<lparr>mBusy := b, mPhase := p\<rparr>) n r = old_advance m n r"
  by (simp_all add: old_advance_def)

lemma not_old_advance: "advance_ok (mSuite m) (mBinding m) a \<Longrightarrow> fromEpoch a = n \<Longrightarrow> \<not> old_advance m n (advance_bytes a)"
  by (auto simp: old_advance_def advance_ok_def)

lemma not_old_offer: "offer_ok (mSuite m) (mBinding m) x \<Longrightarrow> fromEpoch x = n \<Longrightarrow> \<not> old_offer m n (offer_bytes x)"
  by (auto simp: old_offer_def offer_ok_def)

lemmas edge_defs = level_def ahead_def ahead_core_def past_def Let_def same_key_def

lemma level_phase_A:
  assumes "level module kem (A, fA) (B, fB) nA nB"
  shows "mPhase A = Idle \<or> (\<exists>d x kp. mPhase A = OutboundOffer d x kp) \<or> (\<exists>x a. mPhase A = OutboundAdvanceAwaitingAck x a)"
  using assms by (auto simp: level_def Let_def level_phases_def split: internal_phase.splits)

lemma level_rest:
  assumes "level module kem (A, fA) (B, fB) nA nB" "\<And>p. f' \<noteq> AcceptFlight p"
  shows "level module kem (A\<lparr>mBusy := b\<rparr>, f') (B, fB) nA nB" "level module kem (A, f') (B\<lparr>mBusy := b\<rparr>, g') nA nB"
  using assms by (auto simp: edge_defs level_phases_def split: internal_phase.splits)

lemma level_A_offer_answer:
  assumes lv: "level module kem (A, fA) (B, fB) nA nB" and ok: "side_ok (A, fA)"
    and al: "allowed kem nB fA (OfferAnswer ans)"
  shows "level module kem (pq_handle module (OfferAnswer ans) (A, fA)) (B, fB) nA nB"
proof (cases "fA = OfferFlight")
  case True
  then have ph: "mPhase A = Idle" using ok by (auto simp: side_ok_def flight_ok_def)
  show ?thesis
  proof (rule prepareOffer_resume_cases [of ans A])
    fix kp x
    assume "ans = Some kp" and r: "prepareOffer_resume ans A = (Inr (offer_bytes x), A\<lparr>mBusy := False, mPhase := OutboundOffer False x kp\<rparr>)"
    then have "kp_made kem kp" using al by (auto simp: kp_made_def intro: sym)
    then show ?thesis using lv ph r True by (simp add: edge_defs level_phases_def)
  qed (use True level_rest(1) [OF lv, of NoFlight False] in simp)
qed (use lv in simp)

lemma level_A_mark:
  assumes lv: "level module kem (A, fA) (B, fB) nA nB"
  shows "level module kem (pq_handle module MarkOffer (A, fA)) (B, fB) (emit MarkOffer A nA) nB"
proof (rule markOfferDispatched_cases [of A])
  fix x kp
  assume r: "markOfferDispatched A = (Inr (), A\<lparr>mPhase := OutboundOffer True x kp\<rparr>)" "live A" "mPhase A = OutboundOffer False x kp"
  then have "emit MarkOffer A nA = nA\<lparr>offers := insert (offer_bytes x) (offers nA)\<rparr>"
    by (simp add: copyPendingOutboundRecord_def live_def assertSynchronous_def assertActive_def)
  then show ?thesis using lv r by (auto simp: edge_defs level_phases_def)
qed (use lv in simp)

lemma level_A_ack:
  assumes lv: "level module kem (A, fA) (B, fB) nA nB"
  shows "level module kem (pq_handle module (GetAck k) (A, fA)) (B, fB) nA nB"
proof (rule acceptAck_cases [of k A])
  fix x a
  assume "acceptAuthenticatedAdvanceAcknowledgement k A = (Inr (), A\<lparr>mPhase := Idle\<rparr>)" "mPhase A = OutboundAdvanceAwaitingAck x a"
  then show ?thesis using lv by (auto simp: edge_defs level_phases_def resting_def)
qed (use lv in simp)

lemma level_A_advance:
  assumes lv: "level module kem (A, fA) (B, fB) nA nB" and al: "allowed kem nB fA (GetAdvance r)"
  shows "level module kem (pq_handle module (GetAdvance r) (A, fA)) (B, fB) nA nB"
proof (rule acceptAdvance_start_cases [of r A])
  fix a x kp
  assume a: "advance_ok (mSuite A) (mBinding A) a" "advance_bytes a = r" "fromEpoch a = mEpoch A"
  then have "\<not> old_advance A (mEpoch A) r" using not_old_advance by blast
  then show ?thesis using lv al by (auto simp: level_def Let_def)
qed (use lv in simp)

lemma level_A_step:
  assumes lv: "level module kem (A, fA) (B, fB) nA nB" and ok: "side_ok (A, fA)" and al: "allowed kem nB fA ev"
  shows "level module kem (pq_handle module ev (A, fA)) (B, fB) (emit ev A nA) nB"
proof -
  have next_A: "mNextOfferer A = Local" using lv by (simp add: level_def Let_def)
  note ph = level_phase_A [OF lv]
  have noflight: "fA \<noteq> AdvanceFlight x" "fA \<noteq> AcceptFlight p" for x p
    using lv ok ph by (auto simp: level_def Let_def side_ok_def flight_ok_def)
  show ?thesis
  proof (cases ev)
    case StartOffer
    then show ?thesis
      by (rule_tac prepareOffer_start_cases [of A]) (use lv level_rest(1) [OF lv, of OfferFlight True] in simp_all)
  next
    case AbortOffer
    have "level module kem (snd (abortUnsentOffer A), fA) (B, fB) nA nB"
      by (rule abortUnsentOffer_cases [of A]) (use lv in \<open>auto simp: edge_defs level_phases_def\<close>)
    then show ?thesis using AbortOffer by simp
  next
    case (GetOffer r)
    have "snd (acceptAuthenticatedOffer r A) = A" by (rule acceptAuthenticatedOffer_cases [of r A]) (use next_A in simp_all)
    then show ?thesis using lv GetOffer by simp
  next
    case StartAdvance
    have "pq_handle module StartAdvance (A, fA) = (A, fA)" by (rule prepareAdvance_start_cases [of A]) (use ph in auto)
    then show ?thesis using lv StartAdvance by simp
  next
    case (AdvanceAnswer ans)
    then show ?thesis using lv noflight by (cases fA) auto
  next
    case CommitAdvance
    have "\<exists>e. commitPreparedAdvance A = (Inl e, A)" by (rule commitPreparedAdvance_cases [of A]) (use ph in auto)
    then show ?thesis using lv CommitAdvance by auto
  next
    case (AcceptAnswer ans)
    then show ?thesis using lv noflight by (cases fA) auto
  next
    case CommitAccepted
    have "\<exists>e. commitAcceptedAdvance A = (Inl e, A)" by (rule commitAcceptedAdvance_cases [of A]) (use ph in auto)
    then show ?thesis using lv CommitAccepted by auto
  next
    case (MarkAck k)
    have "\<exists>e. markAdvanceAcknowledgementDispatched k A = (Inl e, A)" by (rule markAck_cases [of k A]) (use ph in auto)
    then show ?thesis using lv MarkAck by auto
  next
    case (OfferAnswer ans)
    show ?thesis unfolding OfferAnswer emit.simps by (rule level_A_offer_answer [OF lv ok al [unfolded OfferAnswer]])
  next
    case MarkOffer
    show ?thesis unfolding MarkOffer by (rule level_A_mark [OF lv])
  next
    case (GetAck k)
    show ?thesis unfolding GetAck emit.simps by (rule level_A_ack [OF lv])
  next
    case (GetAdvance r)
    show ?thesis unfolding GetAdvance emit.simps by (rule level_A_advance [OF lv al [unfolded GetAdvance]])
  qed (use al in simp)
qed

section \<open>One epoch, the side that answers\<close>

lemma level_phase_B:
  assumes "level module kem (A, fA) (B, fB) nA nB"
  shows "resting (mPhase B) \<or>
    (\<exists>x kp. mPhase A = OutboundOffer True x kp \<and> (mPhase B = InboundOffer x \<or>
       (\<exists>a nextRoot. mPhase B = OutboundAdvancePrepared x a nextRoot \<and> linked module kem (mRootKey A) a nextRoot)))"
  using assms by (auto simp: level_def Let_def level_phases_def resting_def split: internal_phase.splits)

lemma level_B_offer:
  assumes lv: "level module kem (A, fA) (B, fB) nA nB" and ok: "side_ok (A, fA)" and al: "allowed kem nA fB (GetOffer r)"
  shows "level module kem (A, fA) (pq_handle module (GetOffer r) (B, fB)) nA nB"
proof (rule acceptAuthenticatedOffer_cases [of r B])
  fix x
  assume h: "acceptAuthenticatedOffer r B = (Inr (), B\<lparr>mPhase := InboundOffer x\<rparr>)" "mPhase B = Idle"
    and x: "offer_ok (mSuite B) (mBinding B) x" "offer_bytes x = r" "fromEpoch x = mEpoch B"
  have key: "mSuite A = mSuite B" "mBinding A = mBinding B" "mEpoch B = mEpoch A" using lv by (simp_all add: edge_defs)
  have "\<not> old_offer A (mEpoch A) r" using not_old_offer [of A x] x key by simp
  then obtain y kp where y: "mPhase A = OutboundOffer True y kp" "r = offer_bytes y" using lv al by (auto simp: level_def Let_def)
  have "offer_ok (mSuite A) (mBinding A) y" using ok y(1) by (simp add: side_ok_def pq_inv_def phase_ok_def)
  then have "x = y" using x y(2) key by (auto intro: offer_unique)
  then show ?thesis using lv h y(1) by (simp add: edge_defs level_phases_def)
qed (use lv in simp)

lemma level_B_advance_answer:
  assumes lv: "level module kem (A, fA) (B, fB) nA nB" and ok: "side_ok (B, fB)" and al: "allowed kem nA fB (AdvanceAnswer ans)"
  shows "level module kem (A, fA) (pq_handle module (AdvanceAnswer ans) (B, fB)) nA nB"
proof (cases "\<exists>x. fB = AdvanceFlight x")
  case True
  then obtain x where f: "fB = AdvanceFlight x" by blast
  have ph: "mPhase B = InboundOffer x" using ok f by (auto simp: side_ok_def flight_ok_def)
  then have x: "offer_ok (mSuite B) (mBinding B) x" using ok by (simp add: side_ok_def pq_inv_def phase_ok_def)
  obtain kp where kp: "mPhase A = OutboundOffer True x kp" using level_phase_B [OF lv] ph by (auto simp: resting_def)
  have nf: "snd (A, fA) \<noteq> AcceptFlight p" for p using lv by (cases p) (simp add: level_def Let_def)
  show ?thesis
  proof (rule prepareAdvance_resume_cases [OF x, of module ans])
    fix e
    assume "prepareAdvance_resume module x ans B = (Inl e, B\<lparr>mBusy := False\<rparr>)"
    then show ?thesis using f level_rest(2) [OF lv nf [simplified]] by simp
  next
    fix a ss root
    assume ans: "ans = Some (ciphertext a, ss)" and root: "advance_root module B a ss root"
      and a: "advance_offer a = x"
      and r: "prepareAdvance_resume module x ans B = (Inr (advance_bytes a), B\<lparr>mBusy := False, mPhase := OutboundAdvancePrepared x a root\<rparr>)"
    have "mRootKey B = mRootKey A" using lv by (simp add: level_def Let_def)
    then have "linked module kem (mRootKey A) a root" using al f ans root a by (auto simp: linked_def advance_root_def dest: sym)
    then show ?thesis using lv f r kp by (auto simp: edge_defs level_phases_def)
  qed
qed (use lv in \<open>cases fB; simp\<close>)

lemma level_B_commit:
  assumes lv: "level module kem (A, fA) (B, fB) nA nB" and ok: "side_ok (B, fB)"
  shows "level module kem (A, fA) (pq_handle module CommitAdvance (B, fB)) nA (emit CommitAdvance B nB) \<or>
    ahead module kem (A, fA) (pq_handle module CommitAdvance (B, fB)) nA (emit CommitAdvance B nB)"
proof (rule commitPreparedAdvance_cases [of B])
  fix x a root
  assume ph: "mPhase B = OutboundAdvancePrepared x a root"
    and r: "commitPreparedAdvance B = (Inr (advance_bytes a),
         B\<lparr>mRootKey := root, mEpoch := toEpoch a, mLocalCounter := mLocalCounter B + 1,
           mRemoteCounter := mRemoteCounter B + 1, mNextOfferer := Local, mLastInboundOffer := Some x,
           mPhase := OutboundAdvanceAwaitingAck x a\<rparr>)"
  have a: "advance_ok (mSuite B) (mBinding B) a" "fromEpoch a = mEpoch B"
    using ok ph by (simp_all add: side_ok_def pq_inv_def phase_ok_def validate_iff)
  obtain kp where "mPhase A = OutboundOffer True x kp" "linked module kem (mRootKey A) a root"
    using level_phase_B [OF lv] ph by (auto simp: resting_def)
  then have "ahead module kem (A, fA) (pq_handle module CommitAdvance (B, fB)) nA (emit CommitAdvance B nB)"
    using lv r advance_okD(2) [OF a(1)] a(2) by (auto simp: edge_defs level_phases_def)
  then show ?thesis by blast
qed (use lv in simp)

lemma level_B_step:
  assumes lv: "level module kem (A, fA) (B, fB) nA nB" and ok: "side_ok (A, fA)" "side_ok (B, fB)" and al: "allowed kem nA fB ev"
  shows "level module kem (A, fA) (pq_handle module ev (B, fB)) nA (emit ev B nB) \<or>
    ahead module kem (A, fA) (pq_handle module ev (B, fB)) nA (emit ev B nB)"
proof -
  have next_B: "mNextOfferer B = Remote" using lv by (simp add: level_def Let_def)
  have nf: "fA \<noteq> AcceptFlight p" for p using lv by (cases p) (simp add: level_def Let_def)
  note ph = level_phase_B [OF lv, unfolded resting_def]
  have noflight: "fB \<noteq> OfferFlight" "fB \<noteq> AcceptFlight p" for p
    using ok(2) ph next_B by (cases p; auto simp: side_ok_def flight_ok_def)+
  show ?thesis
  proof (cases ev)
    case StartOffer
    have "pq_handle module StartOffer (B, fB) = (B, fB)" by (rule prepareOffer_start_cases [of B]) (use next_B in auto)
    then show ?thesis using lv StartOffer by simp
  next
    case MarkOffer
    have "\<exists>e. markOfferDispatched B = (Inl e, B)" by (rule markOfferDispatched_cases [of B]) (use ph in auto)
    then show ?thesis using lv MarkOffer by auto
  next
    case AbortOffer
    have "\<exists>e. abortUnsentOffer B = (Inl e, B)" by (rule abortUnsentOffer_cases [of B]) (use ph in auto)
    then show ?thesis using lv AbortOffer by auto
  next
    case StartAdvance
    then show ?thesis
      by (rule_tac prepareAdvance_start_cases [of B]) (use lv level_rest(2) [OF lv nf, where b = True] in simp_all)
  next
    case (GetAck k)
    have "\<exists>e. acceptAuthenticatedAdvanceAcknowledgement k B = (Inl e, B)" by (rule acceptAck_cases [of k B]) (use ph in auto)
    then show ?thesis using lv GetAck by auto
  next
    case (GetAdvance r)
    have "\<exists>e. acceptAuthenticatedAdvance_start r B = (Inl e, B)" by (rule acceptAdvance_start_cases [of r B]) (use ph in auto)
    then show ?thesis using lv GetAdvance by auto
  next
    case CommitAccepted
    have "\<exists>e. commitAcceptedAdvance B = (Inl e, B)" by (rule commitAcceptedAdvance_cases [of B]) (use ph in auto)
    then show ?thesis using lv CommitAccepted by auto
  next
    case (MarkAck k)
    have "level module kem (A, fA) (snd (markAdvanceAcknowledgementDispatched k B), fB) nA nB"
      by (rule markAck_cases [of k B]) (use lv in \<open>auto simp: edge_defs level_phases_def resting_def split: internal_phase.splits\<close>)
    then show ?thesis using MarkAck by simp
  next
    case (GetOffer r)
    show ?thesis unfolding GetOffer emit.simps by (rule disjI1 [OF level_B_offer [OF lv ok(1) al [unfolded GetOffer]]])
  next
    case (AdvanceAnswer ans)
    show ?thesis unfolding AdvanceAnswer emit.simps by (rule disjI1 [OF level_B_advance_answer [OF lv ok(2) al [unfolded AdvanceAnswer]]])
  next
    case CommitAdvance
    show ?thesis unfolding CommitAdvance by (rule level_B_commit [OF lv ok(2)])
  next
    case (OfferAnswer ans)
    then show ?thesis using lv noflight by (cases fB) auto
  next
    case (AcceptAnswer ans)
    then show ?thesis using lv noflight by (cases fB) auto
  qed (use al in simp)
qed

section \<open>The answering side is one epoch ahead\<close>

lemma old_mono: "old_offer m n r \<Longrightarrow> n \<le> n' \<Longrightarrow> old_offer m n' r" "old_advance m n r \<Longrightarrow> n \<le> n' \<Longrightarrow> old_advance m n' r"
  by (fastforce simp: old_offer_def old_advance_def)+

lemma aheadE:
  assumes "ahead module kem (A, fA) (B, fB) nA nB" "side_ok (A, fA)" "side_ok (B, fB)"
  obtains x a kp where "mPhase B = OutboundAdvanceAwaitingAck x a"
    "mPhase A = OutboundOffer True x kp \<or> mPhase A = InboundAdvancePrepared x a kp (mRootKey B)"
    "kp_made kem kp" "linked module kem (mRootKey A) a (mRootKey B)" "kp_publicKey kp = publicKey x" "advance_offer a = x"
    "advance_ok (mSuite A) (mBinding A) a" "offer_ok (mSuite A) (mBinding A) x"
    "fromEpoch a = mEpoch A" "fromEpoch x = mEpoch A" "senderCounter a = mRemoteCounter A" "mNextOfferer B = Local"
    "\<And>r. r \<in> advances nB \<Longrightarrow> old_advance A (mEpoch A) r \<or> r = advance_bytes a"
    "\<And>r. r \<in> offers nA \<Longrightarrow> old_offer A (mEpoch A) r \<or> r = offer_bytes x"
    "\<And>p. fA = AcceptFlight p \<Longrightarrow> fst p = a" "advance_bytes a \<in> advances nB"
proof -
  from assms(1) obtain x a kp where ph: "mPhase B = OutboundAdvanceAwaitingAck x a"
    "mPhase A = OutboundOffer True x kp \<or> mPhase A = InboundAdvancePrepared x a kp (mRootKey B)"
    and link: "kp_made kem kp" "linked module kem (mRootKey A) a (mRootKey B)"
    and nets: "\<And>r. r \<in> advances nB \<Longrightarrow> old_advance A (mEpoch A) r \<or> r = advance_bytes a"
    "\<And>r. r \<in> offers nA \<Longrightarrow> old_offer A (mEpoch A) r \<or> r = offer_bytes x" "advance_bytes a \<in> advances nB"
    and fl: "\<forall>p. fA = AcceptFlight p \<longrightarrow> fst p = a"
    and key: "mSuite A = mSuite B" "mBinding A = mBinding B" "mEpoch B = mEpoch A + 1" "mLocalCounter B = mRemoteCounter A + 1"
    unfolding ahead_def ahead_core_def same_key_def fst_conv snd_conv by blast
  have a: "advance_ok (mSuite A) (mBinding A) a" "advance_offer a = x" "toEpoch a = mEpoch B" "senderCounter a + 1 = mLocalCounter B"
    "mNextOfferer B = Local"
    using assms(3) ph(1) key by (simp_all add: side_ok_def pq_inv_def phase_ok_def validate_iff)
  note d = advance_okD [OF a(1)]
  have "kp_publicKey kp = publicKey x" using assms(2) ph(2) by (auto simp: side_ok_def pq_inv_def phase_ok_def keypair_ok_def)
  moreover have "fromEpoch a = mEpoch A" using d(2) a(3) key by simp
  ultimately show ?thesis using that [OF ph link _ a(2,1)] d(3,4) a nets fl key by auto
qed

lemma ahead_rest:
  assumes "ahead module kem (A, fA) (B, fB) nA nB" "\<And>p. f' \<noteq> AcceptFlight p"
  shows "ahead module kem (A\<lparr>mBusy := b\<rparr>, f') (B, fB) nA nB"
proof -
  have "ahead_core module kem (A\<lparr>mBusy := b\<rparr>) B nA nB x a kp = ahead_core module kem A B nA nB x a kp" for x a kp
    by (simp add: ahead_core_def past_def same_key_def)
  then show ?thesis using assms by (auto simp: ahead_def)
qed

lemma ahead_A_advance:
  assumes ah: "ahead module kem (A, fA) (B, fB) nA nB" and ok: "side_ok (A, fA)" "side_ok (B, fB)"
    and al: "allowed kem nB fA (GetAdvance r)"
  shows "ahead module kem (pq_handle module (GetAdvance r) (A, fA)) (B, fB) nA nB"
proof (rule aheadE [OF ah ok])
  fix x a kp
  assume ea: "advance_ok (mSuite A) (mBinding A) a"
    and en: "\<And>r. r \<in> advances nB \<Longrightarrow> old_advance A (mEpoch A) r \<or> r = advance_bytes a"
    and ph: "mPhase B = OutboundAdvanceAwaitingAck x a"
  show ?thesis
  proof (rule acceptAdvance_start_cases [of r A])
    fix a' x' kp'
    assume s: "acceptAuthenticatedAdvance_start r A = (Inr (a', x', kp'), A\<lparr>mBusy := True\<rparr>)"
      and a': "advance_ok (mSuite A) (mBinding A) a'" "advance_bytes a' = r" "fromEpoch a' = mEpoch A"
    have "\<not> old_advance A (mEpoch A) r" using not_old_advance [OF a'(1,3)] a'(2) by simp
    then have "r = advance_bytes a" using en al by auto
    then have "a' = a" using advance_unique [OF a'(1) ea] a'(2) by simp
    moreover have "ahead_core module kem (A\<lparr>mBusy := True\<rparr>) B nA nB x a kp'" if "ahead_core module kem A B nA nB x a kp'" for kp'
      using that by (simp add: ahead_core_def past_def same_key_def)
    moreover obtain kp'' where "ahead_core module kem A B nA nB x a kp''" using ah ph by (auto simp: ahead_def ahead_core_def)
    ultimately show ?thesis using s by (auto simp: ahead_def)
  qed (use ah in simp)
qed

lemma ahead_A_accept:
  assumes ah: "ahead module kem (A, fA) (B, fB) nA nB" and ok: "side_ok (A, fA)" "side_ok (B, fB)"
    and al: "allowed kem nB fA (AcceptAnswer ans)" and kem: "kem_ok kem"
  shows "ahead module kem (pq_handle module (AcceptAnswer ans) (A, fA)) (B, fB) nA nB"
proof (cases fA)
  case (AcceptFlight p)
  then obtain a' x' kp' where f: "fA = AcceptFlight (a', x', kp')" by (cases p) simp
  then have ph': "mPhase A = OutboundOffer True x' kp'" using ok(1) by (auto simp: side_ok_def flight_ok_def)
  show ?thesis
  proof (rule aheadE [OF ah ok])
    fix x a kp
    assume ph: "mPhase B = OutboundAdvanceAwaitingAck x a"
      "mPhase A = OutboundOffer True x kp \<or> mPhase A = InboundAdvancePrepared x a kp (mRootKey B)"
      and made: "kp_made kem kp" and link: "linked module kem (mRootKey A) a (mRootKey B)"
      and pk: "kp_publicKey kp = publicKey x" "advance_offer a = x" and fl: "\<And>p. fA = AcceptFlight p \<Longrightarrow> fst p = a"
    have eq: "x' = x" "kp' = kp" "a' = a" using ph(2) ph' fl [OF f] by auto
    show ?thesis
    proof (rule acceptAdvance_resume_cases [of module a x kp ans A])
      fix e
      assume "acceptAuthenticatedAdvance_resume module (a, x, kp) ans A = (Inl e, A\<lparr>mBusy := False\<rparr>)"
      then show ?thesis using f eq ahead_rest [OF ah, of NoFlight False] by simp
    next
      fix ss root
      assume ans: "ans = Some ss" and root: "advance_root module A a ss root"
        and r: "acceptAuthenticatedAdvance_resume module (a, x, kp) ans A = (Inr (), A\<lparr>mBusy := False, mPhase := InboundAdvancePrepared x a kp root\<rparr>)"
      have dec: "kem_decaps kem (ciphertext a) (kp_secretKey kp) = Some ss" using al f eq ans by auto
      obtain coins coins' ss' where gen: "kem_keypair kem coins = Some kp"
        and enc: "kem_encaps kem (kp_publicKey kp) coins' = Some (ciphertext a, ss')"
        and root': "deriveNextRoot module (mRootKey A) ss' (advance_bytes a) = Inr (mRootKey B)"
        using made link pk by (auto simp: kp_made_def linked_def)
      have "kem_decaps kem (ciphertext a) (kp_secretKey kp) = Some ss'" using kem gen enc unfolding kem_ok_def by blast
      then have "root = mRootKey B" using root root' dec by (simp add: advance_root_def)
      moreover have "ahead_core module kem A B nA nB x a kp" using ah ph(1) ph' eq by (auto simp: ahead_def ahead_core_def)
      ultimately have "ahead_core module kem (A\<lparr>mBusy := False, mPhase := InboundAdvancePrepared x a kp root\<rparr>) B nA nB x a kp"
        by (simp add: ahead_core_def past_def same_key_def)
      then show ?thesis using f eq r by (auto simp: ahead_def)
    qed
  qed
qed (use ah in simp_all)

lemma ahead_A_commit:
  assumes ah: "ahead module kem (A, fA) (B, fB) nA nB" and ok: "side_ok (A, fA)" "side_ok (B, fB)"
  shows "ahead module kem (pq_handle module CommitAccepted (A, fA)) (B, fB) (emit CommitAccepted A nA) nB \<or>
    level module kem (B, fB) (pq_handle module CommitAccepted (A, fA)) nB (emit CommitAccepted A nA)"
proof (rule aheadE [OF ah ok])
  fix x a kp
  assume ph: "mPhase B = OutboundAdvanceAwaitingAck x a"
      "mPhase A = OutboundOffer True x kp \<or> mPhase A = InboundAdvancePrepared x a kp (mRootKey B)"
    and a: "advance_ok (mSuite A) (mBinding A) a" "fromEpoch a = mEpoch A" and x: "offer_ok (mSuite A) (mBinding A) x" "fromEpoch x = mEpoch A"
    and nB: "mNextOfferer B = Local" and nets: "\<And>r. r \<in> advances nB \<Longrightarrow> old_advance A (mEpoch A) r \<or> r = advance_bytes a"
    "\<And>r. r \<in> offers nA \<Longrightarrow> old_offer A (mEpoch A) r \<or> r = offer_bytes x"
  have key: "mSuite A = mSuite B" "mBinding A = mBinding B" "mEpoch B = mEpoch A + 1" "mLocalCounter B = mRemoteCounter A + 1"
    "mRemoteCounter B = mLocalCounter A + 1" and pst: "past A nA nB"
    using ah by (auto simp: ahead_def ahead_core_def same_key_def)
  have old: "old_offer B n r = old_offer A n r" "old_advance B n r = old_advance A n r" for n r
    by (simp_all add: old_offer_def old_advance_def key)
  have nf: "fB \<noteq> AcceptFlight p" for p using ok(2) ph(1) by (cases p) (auto simp: side_ok_def flight_ok_def)
  show ?thesis
  proof (rule commitAcceptedAdvance_cases [of A])
    fix x' a' kp' root
    assume ph': "mPhase A = InboundAdvancePrepared x' a' kp' root"
      and r: "commitAcceptedAdvance A = (Inr \<lparr>ack_epoch = toEpoch a', ack_advanceCounter = senderCounter a'\<rparr>,
         A\<lparr>mRootKey := root, mEpoch := toEpoch a', mLocalCounter := mLocalCounter A + 1,
           mRemoteCounter := mRemoteCounter A + 1, mNextOfferer := Remote, mLastInboundAdvance := Some a',
           mPhase := InboundAdvanceAwaitingAckDispatch a'\<rparr>)"
    have eq: "x' = x" "a' = a" "root = mRootKey B" using ph(2) ph' by auto
    have te: "toEpoch a = mEpoch B" using advance_okD(2) [OF a(1)] a(2) key(3) by simp
    have now: "old_offer A (mEpoch B) (offer_bytes x)" "old_advance A (mEpoch B) (advance_bytes a)"
      using a x key(3) by (auto simp: old_offer_def old_advance_def)
    have "old_offer A (mEpoch B) r" if "r \<in> offers nA" for r using nets(2) [OF that] now old_mono(1) [of A "mEpoch A" r "mEpoch B"] key(3) by auto
    moreover have "old_advance A (mEpoch B) r" if "r \<in> advances nB" for r
      using nets(1) [OF that] now old_mono(2) [of A "mEpoch A" r "mEpoch B"] key(3) by auto
    moreover have "old_offer A (mEpoch B) r" if "r \<in> offers nB" for r using that pst old_mono(1) [of A "mEpoch A" r "mEpoch B"] key(3) by (simp add: past_def)
    moreover have "old_advance A (mEpoch B) r" if "r \<in> advances nA" for r using that pst old_mono(2) [of A "mEpoch A" r "mEpoch B"] key(3) by (simp add: past_def)
    moreover have "ack_epoch k \<le> mEpoch B" if "k \<in> acks nA \<union> acks nB" for k
    proof -
      have "ack_epoch k \<le> mEpoch A" using that pst unfolding past_def by blast
      then show ?thesis using key(3) by simp
    qed
    ultimately have "level module kem (B, fB) (snd (commitAcceptedAdvance A), fA) nB
        (nA\<lparr>acks := insert \<lparr>ack_epoch = mEpoch B, ack_advanceCounter = senderCounter a\<rparr> (acks nA)\<rparr>)"
      using ph(1) nB key nf by (auto simp: r eq te level_def Let_def past_def level_phases_def same_key_def old)
    then show ?thesis using r by (simp add: eq te)
  next
    fix e assume "commitAcceptedAdvance A = (Inl e, A)"
    then show ?thesis using ah by simp
  next
    fix x' a' kp' root assume "mPhase A = InboundAdvancePrepared x' a' kp' root"
    then show "length root = 32" using inv_phase_root ok(1) by (auto simp: side_ok_def)
  qed
qed

lemma ahead_A_step:
  assumes ah: "ahead module kem (A, fA) (B, fB) nA nB" and ok: "side_ok (A, fA)" "side_ok (B, fB)"
    and al: "allowed kem nB fA ev" and kem: "kem_ok kem"
  shows "ahead module kem (pq_handle module ev (A, fA)) (B, fB) (emit ev A nA) nB \<or>
    level module kem (B, fB) (pq_handle module ev (A, fA)) nB (emit ev A nA)"
proof -
  obtain x a kp where ph: "mPhase A = OutboundOffer True x kp \<or> mPhase A = InboundAdvancePrepared x a kp (mRootKey B)"
    using aheadE [OF ah ok] by metis
  have next_A: "mNextOfferer A = Local" using ah by (auto simp: ahead_def ahead_core_def)
  have noflight: "fA \<noteq> OfferFlight" "fA \<noteq> AdvanceFlight y" for y using ok(1) ph by (auto simp: side_ok_def flight_ok_def)
  show ?thesis
  proof (cases ev)
    case StartOffer
    have "pq_handle module StartOffer (A, fA) = (A, fA)" by (rule prepareOffer_start_cases [of A]) (use ph in auto)
    then show ?thesis using ah StartOffer by simp
  next
    case MarkOffer
    have "\<exists>e. markOfferDispatched A = (Inl e, A)" by (rule markOfferDispatched_cases [of A]) (use ph in auto)
    then show ?thesis using ah MarkOffer by auto
  next
    case AbortOffer
    have "\<exists>e. abortUnsentOffer A = (Inl e, A)" by (rule abortUnsentOffer_cases [of A]) (use ph in auto)
    then show ?thesis using ah AbortOffer by auto
  next
    case (GetOffer r)
    have "snd (acceptAuthenticatedOffer r A) = A" by (rule acceptAuthenticatedOffer_cases [of r A]) (use next_A in simp_all)
    then show ?thesis using ah GetOffer by simp
  next
    case StartAdvance
    have "pq_handle module StartAdvance (A, fA) = (A, fA)" by (rule prepareAdvance_start_cases [of A]) (use ph in auto)
    then show ?thesis using ah StartAdvance by simp
  next
    case CommitAdvance
    have "\<exists>e. commitPreparedAdvance A = (Inl e, A)" by (rule commitPreparedAdvance_cases [of A]) (use ph in auto)
    then show ?thesis using ah CommitAdvance by auto
  next
    case (GetAck k)
    have "\<exists>e. acceptAuthenticatedAdvanceAcknowledgement k A = (Inl e, A)" by (rule acceptAck_cases [of k A]) (use ph in auto)
    then show ?thesis using ah GetAck by auto
  next
    case (MarkAck k)
    have "\<exists>e. markAdvanceAcknowledgementDispatched k A = (Inl e, A)" by (rule markAck_cases [of k A]) (use ph in auto)
    then show ?thesis using ah MarkAck by auto
  next
    case (OfferAnswer ans)
    then show ?thesis using ah noflight by (cases fA) auto
  next
    case (AdvanceAnswer ans)
    then show ?thesis using ah noflight by (cases fA) auto
  next
    case (GetAdvance r)
    show ?thesis unfolding GetAdvance emit.simps by (rule disjI1 [OF ahead_A_advance [OF ah ok al [unfolded GetAdvance]]])
  next
    case (AcceptAnswer ans)
    show ?thesis unfolding AcceptAnswer emit.simps by (rule disjI1 [OF ahead_A_accept [OF ah ok al [unfolded AcceptAnswer] kem]])
  next
    case CommitAccepted
    show ?thesis unfolding CommitAccepted by (rule ahead_A_commit [OF ah ok])
  qed (use al in simp)
qed

lemma ahead_B_step:
  assumes ah: "ahead module kem (A, fA) (B, fB) nA nB" and ok: "side_ok (A, fA)" "side_ok (B, fB)" and al: "allowed kem nA fB ev"
  shows "ahead module kem (A, fA) (pq_handle module ev (B, fB)) nA (emit ev B nB)"
proof -
  obtain x a where ph: "mPhase B = OutboundAdvanceAwaitingAck x a" using aheadE [OF ah ok] by metis
  have nf: "fB = NoFlight" using ok(2) ph by (cases fB) (auto simp: side_ok_def flight_ok_def)
  have acks: "k \<noteq> \<lparr>ack_epoch = mEpoch B, ack_advanceCounter = c\<rparr>" if "k \<in> acks nA" for k c
  proof -
    have "past A nA nB" "mEpoch B = mEpoch A + 1" using ah by (auto simp: ahead_def ahead_core_def)
    then have "ack_epoch k < mEpoch B" using that unfolding past_def by fastforce
    then show ?thesis by auto
  qed
  have "pq_handle module ev (B, fB) = (B, fB) \<and> emit ev B nB = nB"
  proof (cases ev)
    case StartOffer
    show ?thesis by (rule prepareOffer_start_cases [of B]) (use ph StartOffer in auto)
  next
    case MarkOffer
    show ?thesis by (rule markOfferDispatched_cases [of B]) (use ph MarkOffer in auto)
  next
    case AbortOffer
    show ?thesis by (rule abortUnsentOffer_cases [of B]) (use ph AbortOffer in auto)
  next
    case (GetOffer r)
    show ?thesis by (rule acceptAuthenticatedOffer_cases [of r B]) (use ph GetOffer in auto)
  next
    case StartAdvance
    show ?thesis by (rule prepareAdvance_start_cases [of B]) (use ph StartAdvance in auto)
  next
    case CommitAdvance
    show ?thesis by (rule commitPreparedAdvance_cases [of B]) (use ph CommitAdvance in auto)
  next
    case (GetAck k)
    show ?thesis by (rule acceptAck_cases [of k B]) (use ph GetAck acks al in auto)
  next
    case (GetAdvance r)
    show ?thesis by (rule acceptAdvance_start_cases [of r B]) (use ph GetAdvance in auto)
  next
    case CommitAccepted
    show ?thesis by (rule commitAcceptedAdvance_cases [of B]) (use ph CommitAccepted in auto)
  next
    case (MarkAck k)
    show ?thesis by (rule markAck_cases [of k B]) (use ph MarkAck in auto)
  qed (use nf al in auto)
  then show ?thesis using ah by simp
qed

section \<open>The joint invariant holds throughout\<close>

lemma edge_invI:
  assumes "\<And>c. side_ok (party e c)"
    and "level module kem (party e b) (party e (\<not> b)) (sent e b) (sent e (\<not> b)) \<or>
      ahead module kem (party e b) (party e (\<not> b)) (sent e b) (sent e (\<not> b)) \<or>
      level module kem (party e (\<not> b)) (party e b) (sent e (\<not> b)) (sent e b) \<or>
      ahead module kem (party e (\<not> b)) (party e b) (sent e (\<not> b)) (sent e b)"
  shows "edge_inv module kem e"
proof -
  have "\<exists>c. level module kem (party e c) (party e (\<not> c)) (sent e c) (sent e (\<not> c)) \<or>
      ahead module kem (party e c) (party e (\<not> c)) (sent e c) (sent e (\<not> c))"
    using assms(2) by (elim disjE) (rule exI [of _ b], simp, rule exI [of _ b], simp, rule exI [of _ "\<not> b"], simp, rule exI [of _ "\<not> b"], simp)
  then show ?thesis using assms(1) by (simp add: edge_inv_def)
qed

lemma edge_inv_act:
  assumes inv: "edge_inv module kem e" and al: "allowed kem (sent e (\<not> b)) (snd (party e b)) ev"
    and ok: "kdf_ok module" "kem_ok kem"
  shows "edge_inv module kem (edge_act module b ev e)"
proof -
  have nd: "ev \<noteq> DestroyMachine" using al by (cases ev) auto
  have sides: "side_ok (party e c)" for c using inv by (simp add: edge_inv_def)
  have sides': "side_ok (party (edge_act module b ev e) c)" for c
    using sides side_ok_act [OF sides ok(1) nd] by (simp add: edge_act_def)
  obtain m f n g where P: "party e b = (m, f)" and Q: "party e (\<not> b) = (n, g)" by fastforce
  have okP: "side_ok (m, f)" "side_ok (n, g)" using sides [of b] sides [of "\<not> b"] P Q by simp_all
  have al': "allowed kem (sent e (\<not> b)) f ev" using al P by simp
  let ?P = "pq_handle module ev (m, f)" and ?nP = "emit ev m (sent e b)" and ?nQ = "sent e (\<not> b)"
  have "level module kem ?P (n, g) ?nP ?nQ \<or> ahead module kem ?P (n, g) ?nP ?nQ \<or>
      level module kem (n, g) ?P ?nQ ?nP \<or> ahead module kem (n, g) ?P ?nQ ?nP"
  proof -
    obtain c where c: "level module kem (party e c) (party e (\<not> c)) (sent e c) (sent e (\<not> c)) \<or>
        ahead module kem (party e c) (party e (\<not> c)) (sent e c) (sent e (\<not> c))"
      using inv by (auto simp: edge_inv_def)
    moreover have "c = b \<or> c = (\<not> b)" by blast
    ultimately consider "level module kem (m, f) (n, g) (sent e b) ?nQ" | "ahead module kem (m, f) (n, g) (sent e b) ?nQ"
      | "level module kem (n, g) (m, f) ?nQ (sent e b)" | "ahead module kem (n, g) (m, f) ?nQ (sent e b)"
      using P Q by auto
    then show ?thesis
    proof cases
      case 1
      show ?thesis using level_A_step [OF 1 okP(1) al'] by blast
    next
      case 2
      show ?thesis using ahead_A_step [OF 2 okP al' ok(2)] by blast
    next
      case 3
      show ?thesis using level_B_step [OF 3 okP(2,1) al'] by blast
    next
      case 4
      show ?thesis using ahead_B_step [OF 4 okP(2,1) al'] by blast
    qed
  qed
  moreover have "party (edge_act module b ev e) b = ?P" "party (edge_act module b ev e) (\<not> b) = (n, g)"
    "sent (edge_act module b ev e) b = ?nP" "sent (edge_act module b ev e) (\<not> b) = ?nQ"
    using P Q by (simp_all add: edge_act_def)
  ultimately show ?thesis using sides' by (intro edge_invI [of _ _ _ b]) simp_all
qed

lemma fresh_edge_inv:
  assumes "fresh_edge suite binding root first epoch c d e"
  shows "edge_inv module kem e"
proof -
  obtain m n where mn: "newPqHealingMachine suite suite binding root Local (Some epoch) (Some c) (Some d) = Inr m"
    "newPqHealingMachine suite suite binding root Remote (Some epoch) (Some d) (Some c) = Inr n"
    and e: "e = \<lparr>party = (\<lambda>b. if b = first then (m, NoFlight) else (n, NoFlight)), sent = (\<lambda>b. silent)\<rparr>"
    using assms by (auto simp: fresh_edge_def)
  have "level module kem (party e first) (party e (\<not> first)) (sent e first) (sent e (\<not> first))"
    using mn by (auto simp: e newPqHealingMachine_def result_simps Let_def level_def same_key_def past_def silent_def
        level_phases_def resting_def)
  then show ?thesis using new_machine_inv [OF mn(1)] new_machine_inv [OF mn(2)]
    unfolding edge_inv_def by (auto simp: e side_ok_def)
qed

lemma edge_run_inv:
  assumes "edge_run module kem e0 e" "edge_inv module kem e0" "kdf_ok module" "kem_ok kem"
  shows "edge_inv module kem e"
  using assms by (induction rule: edge_run.induct) (auto intro: edge_inv_act)

lemma edge_inv_agree:
  assumes "edge_inv module kem e"
  shows "\<bar>mEpoch (fst (party e b)) - mEpoch (fst (party e (\<not> b)))\<bar> \<le> 1"
    "mEpoch (fst (party e b)) = mEpoch (fst (party e (\<not> b))) \<Longrightarrow> mRootKey (fst (party e b)) = mRootKey (fst (party e (\<not> b)))"
    "\<not> trafficBlocked (fst (party e b)) \<Longrightarrow> mEpoch (fst (party e (\<not> b))) = mEpoch (fst (party e b))"
proof -
  obtain c where c: "level module kem (party e c) (party e (\<not> c)) (sent e c) (sent e (\<not> c)) \<or>
      ahead module kem (party e c) (party e (\<not> c)) (sent e c) (sent e (\<not> c))"
    using assms by (auto simp: edge_inv_def)
  have bc: "b = c \<or> b = (\<not> c)" by blast
  show "\<bar>mEpoch (fst (party e b)) - mEpoch (fst (party e (\<not> b)))\<bar> \<le> 1"
    "mEpoch (fst (party e b)) = mEpoch (fst (party e (\<not> b))) \<Longrightarrow> mRootKey (fst (party e b)) = mRootKey (fst (party e (\<not> b)))"
    "\<not> trafficBlocked (fst (party e b)) \<Longrightarrow> mEpoch (fst (party e (\<not> b))) = mEpoch (fst (party e b))"
    using bc c by (auto simp: level_def ahead_def ahead_core_def Let_def trafficBlocked_def)
qed

end
