(* ===== verification/Pq_Progress.thy ===== *)
theory Pq_Progress
  imports Pq_Edge
begin

text \<open>
  The healing exchange never gets stuck: from every reachable state of an edge some continuation brings
  both sides to rest in one epoch with one root. The continuation resends what is pending and lets the
  backend answer; nothing in it depends on luck beyond ML-KEM and the key derivation succeeding.
\<close>

section \<open>Calls that succeed\<close>

lemma abort_ok: "live m \<Longrightarrow> mPhase m = OutboundOffer False x kp \<Longrightarrow> abortUnsentOffer m = (Inr (), m\<lparr>mPhase := Idle\<rparr>)"
  by (simp add: abortUnsentOffer_def)

lemma mark_ack_ok:
  assumes "live m" "pq_inv m" "mPhase m = InboundAdvanceAwaitingAckDispatch a"
  shows "markAdvanceAcknowledgementDispatched \<lparr>ack_epoch = mEpoch m, ack_advanceCounter = senderCounter a\<rparr> m = (Inr (), m\<lparr>mPhase := Idle\<rparr>)"
proof -
  have "u64_ok (mEpoch m)" "u64_ok (senderCounter a)"
    using assms advance_okD(1) [of "mSuite m" "mBinding m" a] by (simp_all add: pq_inv_def phase_ok_def slot_ok_def)
  then show ?thesis using assms by (simp add: markAdvanceAcknowledgementDispatched_def requireAcknowledgement_def)
qed

lemma get_ack_ok:
  assumes "live m" "pq_inv m" "mPhase m = OutboundAdvanceAwaitingAck x a"
  shows "acceptAuthenticatedAdvanceAcknowledgement \<lparr>ack_epoch = mEpoch m, ack_advanceCounter = senderCounter a\<rparr> m = (Inr (), m\<lparr>mPhase := Idle\<rparr>)"
proof -
  have "u64_ok (mEpoch m)" "u64_ok (senderCounter a)"
    using assms advance_okD(1) [of "mSuite m" "mBinding m" a] by (simp_all add: pq_inv_def phase_ok_def slot_ok_def)
  then show ?thesis using assms by (simp add: acceptAuthenticatedAdvanceAcknowledgement_def requireAcknowledgement_def)
qed

lemma get_offer_ok:
  assumes "live m" "pq_inv m" "mPhase m = Idle" "mNextOfferer m = Remote" "room m"
    and "offer_ok (mSuite m) (mBinding m) x" "senderCounter x = mRemoteCounter m" "fromEpoch x = mEpoch m"
  shows "acceptAuthenticatedOffer (offer_bytes x) m = (Inr (), m\<lparr>mPhase := InboundOffer x\<rparr>)"
proof -
  have "toEpoch x = mEpoch m + 1" using offer_okD(2) [OF assms(6)] assms(8) by simp
  then have "rejectKnownOfferReplayOrFork x m = Inr ()"
    using assms(2,3) by (auto simp: rejectKnownOfferReplayOrFork_def pq_inv_def validate_iff sameOfferSlot_def split: option.splits)
  moreover have "assertCanStartExchange m = Inr ()" using assms(5) by (simp add: assertCanStartExchange_iff)
  ultimately show ?thesis using assms
    by (simp add: acceptAuthenticatedOffer_def offer_ok_def requireExpectedCounter_def requireExpectedEpoch_def)
qed

lemma get_advance_ok:
  assumes "live m" "pq_inv m" "mPhase m = OutboundOffer True x kp" "advance_ok (mSuite m) (mBinding m) a" "advance_offer a = x"
    and "senderCounter a = mRemoteCounter m" "fromEpoch a = mEpoch m"
  shows "acceptAuthenticatedAdvance_start (advance_bytes a) m = (Inr (a, x, kp), m\<lparr>mBusy := True\<rparr>)"
proof -
  have "toEpoch a = mEpoch m + 1" using advance_okD(2) [OF assms(4)] assms(7) by simp
  then have "rejectKnownAdvanceReplayOrFork a (m\<lparr>mBusy := True\<rparr>) = Inr ()"
    using assms(2,3) by (auto simp: rejectKnownAdvanceReplayOrFork_def pq_inv_def validate_iff sameAdvanceSlot_def split: option.splits)
  then show ?thesis using assms
    by (simp add: acceptAuthenticatedAdvance_start_def advance_ok_def requireExpectedCounter_def requireExpectedEpoch_def
        bytesEqual_iff Let_def)
qed

definition kdf_total :: "'r libcrypto \<Rightarrow> bool" where
  "kdf_total module \<longleftrightarrow> kdf_ok module \<and> (\<forall>salt ikm. \<exists>prk. hkdf_sha512_extract module salt ikm = Some prk \<and> length prk \<le> 64) \<and>
     (\<forall>n prk info. \<exists>okm. hkdf_sha512_expand module n prk info = Some okm)"

definition kem_total :: "mlkem_suite \<Rightarrow> mlkem \<Rightarrow> bool" where
  "kem_total suite kem \<longleftrightarrow> kem_ok kem \<and>
     (\<exists>coins kp. kem_keypair kem coins = Some kp \<and> length (kp_publicKey kp) = publicKeyBytes suite \<and>
        length (kp_secretKey kp) = secretKeyBytes suite) \<and>
     (\<forall>coins kp. kem_keypair kem coins = Some kp \<longrightarrow> (\<exists>coins' ct ss. kem_encaps kem (kp_publicKey kp) coins' = Some (ct, ss))) \<and>
     (\<forall>pk coins ct ss. kem_encaps kem pk coins = Some (ct, ss) \<longrightarrow> length ct = ciphertextBytes suite \<and> length ss = sharedSecretBytes suite)"

lemma deriveNextRoot_total:
  assumes "kdf_total module" "length root = 32"
  shows "\<exists>r. deriveNextRoot module root ss bytes = Inr r"
proof -
  obtain prk where p: "hkdf_sha512_extract module root ss = Some prk" "length prk \<le> 64" using assms(1) unfolding kdf_total_def by blast
  obtain okm where "hkdf_sha512_expand module 32 prk (concatUint8Arrays [KDF_DOMAIN, bytes]) = Some okm"
    using assms(1) unfolding kdf_total_def by blast
  then show ?thesis using p assms(2)
    by (simp add: deriveNextRoot_def requireBytes_def PQ_HEALING_ROOT_BYTES_def hkdfExtract_def hkdfExpand_def lift_kdf_def)
qed

lemma advance_answer_ok:
  assumes "kdf_total module" "pq_inv m" "\<not> mDestroyed m" "mPhase m = InboundOffer x"
    and "length ct = ciphertextBytes (mSuite m)" "length ss = sharedSecretBytes (mSuite m)"
  shows "\<exists>a nextRoot. snd (prepareAdvance_resume module x (Some (ct, ss)) m) = m\<lparr>mBusy := False, mPhase := OutboundAdvancePrepared x a nextRoot\<rparr>"
proof -
  have x: "offer_ok (mSuite m) (mBinding m) x" "room m" "fromEpoch x = mEpoch m"
    using assms(2,4) by (simp_all add: pq_inv_def phase_ok_def validate_iff)
  have "slot_ok (mSuite m) (mBinding m) (mLocalCounter m) (fromEpoch x)"
    using offer_okD(1) [OF x(1)] x(2) by (simp add: slot_ok_def room_def)
  then have enc: "encodeAdvance (mSuite m) (mBinding m) (mLocalCounter m) x ct = Inr (advance_layout (mSuite m) (mBinding m) (mLocalCounter m) x ct)"
    and dec: "\<exists>a. decodeAdvance (advance_layout (mSuite m) (mBinding m) (mLocalCounter m) x ct) (mSuite m) (Some (mBinding m)) = Inr a"
    using assms(5) by (simp_all add: encodeAdvance_iff [OF x(1)] decodeAdvance_layout [OF x(1)])
  obtain r where "deriveNextRoot module (mRootKey m) ss (advance_layout (mSuite m) (mBinding m) (mLocalCounter m) x ct) = Inr r"
    using deriveNextRoot_total [OF assms(1), of "mRootKey m"] assms(2) unfolding pq_inv_def by blast
  moreover obtain a where "decodeAdvance (advance_layout (mSuite m) (mBinding m) (mLocalCounter m) x ct) (mSuite m) (Some (mBinding m)) = Inr a"
    using dec by blast
  ultimately show ?thesis using enc assms(3,5,6)
    by (intro exI [of _ a] exI [of _ r]) (simp add: prepareAdvance_resume_def assertActive_def requireBytes_def)
qed

section \<open>Continuations\<close>

definition settled :: "edge \<Rightarrow> bool" where
  "settled e \<longleftrightarrow> (\<forall>b. mPhase (fst (party e b)) = Idle \<and> snd (party e b) = NoFlight)"

definition finishes :: "'r libcrypto \<Rightarrow> mlkem \<Rightarrow> edge \<Rightarrow> bool" where
  "finishes module kem e \<longleftrightarrow> (\<exists>e'. edge_run module kem e e' \<and> settled e')"

lemma edge_run_prepend:
  assumes "edge_run module kem (edge_act module b ev e) e'" "allowed kem (sent e (\<not> b)) (snd (party e b)) ev"
  shows "edge_run module kem e e'"
  using assms by (induction rule: edge_run.induct) (auto intro: edge_run.intros)

text \<open>The state of one side, with its peer, in an edge that satisfies the invariant and awaits nothing.\<close>

definition calm :: "'r libcrypto \<Rightarrow> mlkem \<Rightarrow> edge \<Rightarrow> bool" where
  "calm module kem e \<longleftrightarrow> edge_inv module kem e \<and> (\<forall>b. snd (party e b) = NoFlight)"

lemma calm_side:
  assumes "calm module kem e"
  shows "live (fst (party e b))" "pq_inv (fst (party e b))" "\<not> mDestroyed (fst (party e b))" "snd (party e b) = NoFlight"
proof -
  have "side_ok (party e b)" "snd (party e b) = NoFlight" using assms by (simp_all add: calm_def edge_inv_def)
  then show "live (fst (party e b))" "pq_inv (fst (party e b))" "\<not> mDestroyed (fst (party e b))" "snd (party e b) = NoFlight"
    by (simp_all add: side_ok_def flight_ok_def live_def)
qed

lemma act_party [simp]:
  "party (edge_act module b ev e) b = pq_handle module ev (party e b)"
  "party (edge_act module b ev e) (\<not> b) = party e (\<not> b)"
  "sent (edge_act module b ev e) (\<not> b) = sent e (\<not> b)"
  by (simp_all add: edge_act_def)

text \<open>One call that succeeds at once.\<close>

lemma calm_step:
  assumes ca: "calm module kem e" and ok: "kdf_ok module" "kem_ok kem"
    and al: "allowed kem (sent e (\<not> b)) NoFlight ev" and h: "pq_handle module ev (party e b) = (m', NoFlight)"
    and fin: "\<And>e'. calm module kem e' \<Longrightarrow> fst (party e' b) = m' \<Longrightarrow> party e' (\<not> b) = party e (\<not> b) \<Longrightarrow>
      sent e' (\<not> b) = sent e (\<not> b) \<Longrightarrow> finishes module kem e'"
  shows "finishes module kem e"
proof -
  let ?e = "edge_act module b ev e"
  have al': "allowed kem (sent e (\<not> b)) (snd (party e b)) ev" using al calm_side(4) [OF ca] by simp
  have "edge_inv module kem ?e" using edge_inv_act [OF _ al' ok] ca by (simp add: calm_def)
  moreover have "snd (party ?e c) = NoFlight" for c
  proof (cases "c = b")
    case False
    then have "c = (\<not> b)" by blast
    then show ?thesis using calm_side(4) [OF ca, of "\<not> b"] by simp
  qed (simp add: h)
  ultimately have "calm module kem ?e" by (simp add: calm_def)
  from fin [OF this] h have "finishes module kem ?e" by simp
  then show ?thesis using edge_run_prepend [OF _ al'] by (auto simp: finishes_def)
qed

lemma side_pair: "calm module kem e \<Longrightarrow> party e b = (fst (party e b), NoFlight)"
  using calm_side(4) [of module kem e b] by (metis prod.collapse)

lemma finish_settled: "settled e \<Longrightarrow> finishes module kem e"
  by (auto simp: finishes_def intro: edge_start)

lemma settled_iff: "calm module kem e \<Longrightarrow> mPhase (fst (party e b)) = Idle \<Longrightarrow> mPhase (fst (party e (\<not> b))) = Idle \<Longrightarrow> settled e"
proof -
  assume a: "calm module kem e" "mPhase (fst (party e b)) = Idle" "mPhase (fst (party e (\<not> b))) = Idle"
  have "mPhase (fst (party e c)) = Idle" for c using a(2,3) by (cases "c = b") auto
  then show ?thesis using calm_side(4) [OF a(1)] by (simp add: settled_def)
qed

lemma mark_ack_step:
  assumes ca: "calm module kem e" and ok: "kdf_ok module" "kem_ok kem"
    and ph: "mPhase (fst (party e b)) = InboundAdvanceAwaitingAckDispatch a"
    and fin: "\<And>e'. calm module kem e' \<Longrightarrow> fst (party e' b) = (fst (party e b))\<lparr>mPhase := Idle\<rparr> \<Longrightarrow>
      party e' (\<not> b) = party e (\<not> b) \<Longrightarrow> finishes module kem e'"
  shows "finishes module kem e"
proof -
  let ?m = "fst (party e b)"
  let ?ev = "MarkAck \<lparr>ack_epoch = mEpoch ?m, ack_advanceCounter = senderCounter a\<rparr>"
  have "pq_handle module ?ev (party e b) = (?m\<lparr>mPhase := Idle\<rparr>, NoFlight)"
    using mark_ack_ok [OF calm_side(1,2) [OF ca] ph] by (subst side_pair [OF ca]) simp
  then show ?thesis by (rule calm_step [OF ca ok, rotated]) (use fin in simp_all)
qed

lemma finish_dispatch:
  assumes ca: "calm module kem e" and ok: "kdf_ok module" "kem_ok kem"
    and ph: "mPhase (fst (party e b)) = Idle" "resting (mPhase (fst (party e (\<not> b))))"
  shows "finishes module kem e"
proof (cases "mPhase (fst (party e (\<not> b))) = Idle")
  case True
  then show ?thesis using finish_settled settled_iff [OF ca ph(1)] by blast
next
  case False
  then obtain a where "mPhase (fst (party e (\<not> b))) = InboundAdvanceAwaitingAckDispatch a" using ph(2) by (auto simp: resting_def)
  then show ?thesis
  proof (rule mark_ack_step [OF ca ok])
    fix e'
    assume "calm module kem e'" "fst (party e' (\<not> b)) = (fst (party e (\<not> b)))\<lparr>mPhase := Idle\<rparr>"
      "party e' (\<not> (\<not> b)) = party e (\<not> (\<not> b))"
    then show "finishes module kem e'" using finish_settled settled_iff [of module kem e' b] ph(1) by simp
  qed
qed

lemma phases_level:
  assumes "calm module kem e" "mPhase (fst (party e b)) = OutboundAdvanceAwaitingAck x a" "resting (mPhase (fst (party e (\<not> b))))"
  shows "\<lparr>ack_epoch = mEpoch (fst (party e b)), ack_advanceCounter = senderCounter a\<rparr> \<in> acks (sent e (\<not> b))"
proof -
  obtain c where c: "level module kem (party e c) (party e (\<not> c)) (sent e c) (sent e (\<not> c)) \<or>
      ahead module kem (party e c) (party e (\<not> c)) (sent e c) (sent e (\<not> c))"
    using assms(1) by (auto simp: calm_def edge_inv_def)
  have "c = b \<or> c = (\<not> b)" by blast
  then show ?thesis using c assms(2,3) by (auto simp: level_def ahead_def ahead_core_def Let_def level_phases_def resting_def)
qed

lemma finish_ack:
  assumes ca: "calm module kem e" and ok: "kdf_ok module" "kem_ok kem"
    and ph: "mPhase (fst (party e b)) = OutboundAdvanceAwaitingAck x a" "resting (mPhase (fst (party e (\<not> b))))"
  shows "finishes module kem e"
proof -
  let ?m = "fst (party e b)"
  let ?ev = "GetAck \<lparr>ack_epoch = mEpoch ?m, ack_advanceCounter = senderCounter a\<rparr>"
  have "pq_handle module ?ev (party e b) = (?m\<lparr>mPhase := Idle\<rparr>, NoFlight)"
    using get_ack_ok [OF calm_side(1,2) [OF ca] ph(1)] by (subst side_pair [OF ca]) simp
  then show ?thesis
  proof (rule calm_step [OF ca ok, rotated])
    show "allowed kem (sent e (\<not> b)) NoFlight ?ev" using phases_level [OF ca ph] by simp
    fix e'
    assume "calm module kem e'" "fst (party e' b) = ?m\<lparr>mPhase := Idle\<rparr>" "party e' (\<not> b) = party e (\<not> b)"
    then show "finishes module kem e'" using finish_dispatch [of module kem e' b] ok ph(2) by simp
  qed
qed

lemma finish_accepted:
  assumes ca: "calm module kem e" and ok: "kdf_ok module" "kem_ok kem"
    and ph: "mPhase (fst (party e b)) = InboundAdvancePrepared x a kp root" "mPhase (fst (party e (\<not> b))) = OutboundAdvanceAwaitingAck y c"
  shows "finishes module kem e"
proof -
  let ?m = "fst (party e b)"
  have len: "length root = 32" by (rule inv_phase_root [OF calm_side(2) [OF ca] ph(1)])
  obtain m' where m': "snd (commitAcceptedAdvance ?m) = m'" "mPhase m' = InboundAdvanceAwaitingAckDispatch a"
  proof (rule commitAcceptedAdvance_cases [of ?m])
    fix e0 assume "commitAcceptedAdvance ?m = (Inl e0, ?m)"
    then show ?thesis using ph(1) calm_side(1) [OF ca, of b] len
      by (simp add: commitAcceptedAdvance_def requireBytes_def PQ_HEALING_ROOT_BYTES_def Let_def)
  qed (use that ph(1) len in auto)
  have "pq_handle module CommitAccepted (party e b) = (m', NoFlight)" using m'(1) by (subst side_pair [OF ca]) simp
  then show ?thesis
  proof (rule calm_step [OF ca ok, rotated])
    fix e'
    assume "calm module kem e'" "fst (party e' b) = m'" "party e' (\<not> b) = party e (\<not> b)"
    then show "finishes module kem e'" using finish_ack [of module kem e' "\<not> b" y c] ok ph(2) m'(2) by (simp add: resting_def)
  qed simp
qed

text \<open>A call with the answer it awaits.\<close>

lemma calm_call:
  assumes ca: "calm module kem e" and ok: "kdf_ok module" "kem_ok kem"
    and st: "allowed kem (sent e (\<not> b)) NoFlight ev" "pq_handle module ev (party e b) = (m1, f1)"
    and an: "allowed kem (sent e (\<not> b)) f1 ev'" "pq_handle module ev' (m1, f1) = (m', NoFlight)"
    and fin: "\<And>e'. calm module kem e' \<Longrightarrow> fst (party e' b) = m' \<Longrightarrow> party e' (\<not> b) = party e (\<not> b) \<Longrightarrow> finishes module kem e'"
  shows "finishes module kem e"
proof -
  let ?e1 = "edge_act module b ev e" and ?e2 = "edge_act module b ev' (edge_act module b ev e)"
  have al: "allowed kem (sent e (\<not> b)) (snd (party e b)) ev" using st calm_side(4) [OF ca] by simp
  have al': "allowed kem (sent ?e1 (\<not> b)) (snd (party ?e1 b)) ev'" using an(1) st(2) by simp
  have "edge_inv module kem ?e1" using edge_inv_act [OF _ al ok] ca by (simp add: calm_def)
  then have inv: "edge_inv module kem ?e2" by (rule edge_inv_act [OF _ al' ok])
  have p2: "party ?e2 b = (m', NoFlight)" "party ?e2 (\<not> b) = party e (\<not> b)" using st(2) an(2) by simp_all
  have "snd (party ?e2 c) = NoFlight" for c
  proof (cases "c = b")
    case False
    then have "c = (\<not> b)" by blast
    then show ?thesis using p2(2) calm_side(4) [OF ca, of "\<not> b"] by simp
  qed (simp add: st(2) an(2))
  with inv have "calm module kem ?e2" by (simp add: calm_def)
  from fin [OF this] p2 have "finishes module kem ?e2" by simp
  then show ?thesis using edge_run_prepend [OF edge_run_prepend [OF _ al'] al] by (auto simp: finishes_def)
qed

lemma calm_ahead:
  assumes "calm module kem e" "mPhase (fst (party e b)) = OutboundOffer d x kp" "mPhase (fst (party e (\<not> b))) = OutboundAdvanceAwaitingAck y a"
  shows "ahead module kem (party e b) (party e (\<not> b)) (sent e b) (sent e (\<not> b))"
proof -
  obtain c where c: "level module kem (party e c) (party e (\<not> c)) (sent e c) (sent e (\<not> c)) \<or>
      ahead module kem (party e c) (party e (\<not> c)) (sent e c) (sent e (\<not> c))"
    using assms(1) by (auto simp: calm_def edge_inv_def)
  have "c = b \<or> c = (\<not> b)" by blast
  then show ?thesis using c assms(2,3)
    by (auto simp: level_def Let_def level_phases_def resting_def) (auto simp: ahead_def ahead_core_def)
qed

lemma finish_answered:
  assumes ca: "calm module kem e" and ok: "kdf_total module" "kem_total suite kem" and su: "mSuite (fst (party e b)) = suite"
    and ph: "mPhase (fst (party e b)) = OutboundOffer True x kp" "mPhase (fst (party e (\<not> b))) = OutboundAdvanceAwaitingAck y a"
  shows "finishes module kem e"
proof -
  let ?m = "fst (party e b)"
  have oks: "kdf_ok module" "kem_ok kem" using ok by (simp_all add: kdf_total_def kem_total_def)
  have "ahead module kem (?m, NoFlight) (fst (party e (\<not> b)), NoFlight) (sent e b) (sent e (\<not> b))"
    using calm_ahead [OF ca ph] side_pair [OF ca] by metis
  moreover have "side_ok (?m, NoFlight)" "side_ok (fst (party e (\<not> b)), NoFlight)"
    using ca side_pair [OF ca] unfolding calm_def edge_inv_def by metis+
  ultimately show ?thesis
  proof (rule aheadE)
    fix x' a' kp'
    assume B: "mPhase (fst (party e (\<not> b))) = OutboundAdvanceAwaitingAck x' a'"
      and A: "mPhase ?m = OutboundOffer True x' kp' \<or> mPhase ?m = InboundAdvancePrepared x' a' kp' (mRootKey (fst (party e (\<not> b))))"
      and made: "kp_made kem kp'" and link: "linked module kem (mRootKey ?m) a' (mRootKey (fst (party e (\<not> b))))"
      and pk: "kp_publicKey kp' = publicKey x'" "advance_offer a' = x'" and a': "advance_ok (mSuite ?m) (mBinding ?m) a'"
      and sl: "senderCounter a' = mRemoteCounter ?m" "fromEpoch a' = mEpoch ?m" and net: "advance_bytes a' \<in> advances (sent e (\<not> b))"
    have eq: "a' = a" "x' = x" "kp' = kp" using A B ph by auto
    obtain coins coins' ss where gen: "kem_keypair kem coins = Some kp" and enc: "kem_encaps kem (kp_publicKey kp) coins' = Some (ciphertext a, ss)"
      and root: "deriveNextRoot module (mRootKey ?m) ss (advance_bytes a) = Inr (mRootKey (fst (party e (\<not> b))))"
      using made link pk by (auto simp: kp_made_def linked_def eq)
    have dec: "kem_decaps kem (ciphertext a) (kp_secretKey kp) = Some ss" using oks(2) gen enc unfolding kem_ok_def by blast
    have len: "length ss = sharedSecretBytes suite" using ok(2) enc unfolding kem_total_def by blast
    have "acceptAuthenticatedAdvance_start (advance_bytes a) ?m = (Inr (a, x, kp), ?m\<lparr>mBusy := True\<rparr>)"
      using get_advance_ok [OF calm_side(1,2) [OF ca] ph(1)] a' pk(2) sl by (simp add: eq)
    then have st: "pq_handle module (GetAdvance (advance_bytes a)) (party e b) = (?m\<lparr>mBusy := True\<rparr>, AcceptFlight (a, x, kp))"
      by (subst side_pair [OF ca]) simp
    have an: "pq_handle module (AcceptAnswer (Some ss)) (?m\<lparr>mBusy := True\<rparr>, AcceptFlight (a, x, kp)) =
        (?m\<lparr>mBusy := False, mPhase := InboundAdvancePrepared x a kp (mRootKey (fst (party e (\<not> b))))\<rparr>, NoFlight)"
      using calm_side(3) [OF ca, of b] len su root
      by (simp add: acceptAuthenticatedAdvance_resume_def assertActive_def requireBytes_def)
    show ?thesis
    proof (rule calm_call [OF ca oks _ st _ an])
      show "allowed kem (sent e (\<not> b)) NoFlight (GetAdvance (advance_bytes a))" using net by (simp add: eq)
      show "allowed kem (sent e (\<not> b)) (AcceptFlight (a, x, kp)) (AcceptAnswer (Some ss))" using dec by simp
      fix e'
      assume "calm module kem e'" "fst (party e' b) = ?m\<lparr>mBusy := False, mPhase := InboundAdvancePrepared x a kp (mRootKey (fst (party e (\<not> b))))\<rparr>"
        "party e' (\<not> b) = party e (\<not> b)"
      then show "finishes module kem e'" using finish_accepted [of module kem e' b] oks ph(2) by simp
    qed
  qed
qed

lemma finish_prepared:
  assumes ca: "calm module kem e" and ok: "kdf_total module" "kem_total suite kem" and su: "mSuite (fst (party e b)) = suite"
    and ph: "mPhase (fst (party e b)) = OutboundOffer True x kp" "mPhase (fst (party e (\<not> b))) = OutboundAdvancePrepared y a root"
  shows "finishes module kem e"
proof -
  let ?n = "fst (party e (\<not> b))"
  have oks: "kdf_ok module" "kem_ok kem" using ok by (simp_all add: kdf_total_def kem_total_def)
  have len: "length root = 32" using calm_side(2) [OF ca, of "\<not> b"] ph(2) by (simp add: pq_inv_def phase_ok_def)
  let ?n' = "snd (commitPreparedAdvance ?n)"
  have n': "mPhase ?n' = OutboundAdvanceAwaitingAck y a"
    using ph(2) calm_side(1) [OF ca, of "\<not> b"] len by (simp add: commitPreparedAdvance_def requireBytes_def PQ_HEALING_ROOT_BYTES_def)
  have "pq_handle module CommitAdvance (party e (\<not> b)) = (?n', NoFlight)" by (subst side_pair [OF ca]) simp
  then show ?thesis
  proof (rule calm_step [OF ca oks, rotated])
    fix e'
    assume "calm module kem e'" "fst (party e' (\<not> b)) = ?n'" "party e' (\<not> (\<not> b)) = party e (\<not> (\<not> b))"
    then show "finishes module kem e'" using finish_answered [of module kem e' suite b x kp y a] ok su ph(1) n' by simp
  qed simp
qed

lemma calm_offer_level:
  assumes "calm module kem e" "mPhase (fst (party e b)) = OutboundOffer d x kp"
    "\<And>y a. mPhase (fst (party e (\<not> b))) \<noteq> OutboundAdvanceAwaitingAck y a"
  shows "level module kem (party e b) (party e (\<not> b)) (sent e b) (sent e (\<not> b))"
proof -
  obtain c where c: "level module kem (party e c) (party e (\<not> c)) (sent e c) (sent e (\<not> c)) \<or>
      ahead module kem (party e c) (party e (\<not> c)) (sent e c) (sent e (\<not> c))"
    using assms(1) by (auto simp: calm_def edge_inv_def)
  have "c = b \<or> c = (\<not> b)" by blast
  then show ?thesis using c assms(2,3)
    by (auto simp: level_def Let_def level_phases_def resting_def ahead_def ahead_core_def split: internal_phase.splits)
qed

lemma start_advance_ok:
  assumes "live m" "pq_inv m" "mPhase m = InboundOffer x"
  shows "prepareAdvance_start m = (Inr x, m\<lparr>mBusy := True\<rparr>)"
  using assms by (simp add: prepareAdvance_start_def Let_def pq_inv_def phase_ok_def room_def requireIncrementableU64_def result_simps)

lemma finish_offered:
  assumes ca: "calm module kem e" and ok: "kdf_total module" "kem_total suite kem" and su: "mSuite (fst (party e b)) = suite"
    and ph: "mPhase (fst (party e b)) = OutboundOffer True x kp" "mPhase (fst (party e (\<not> b))) = InboundOffer y"
  shows "finishes module kem e"
proof -
  let ?n = "fst (party e (\<not> b))"
  have oks: "kdf_ok module" "kem_ok kem" using ok by (simp_all add: kdf_total_def kem_total_def)
  have lv: "level module kem (party e b) (party e (\<not> b)) (sent e b) (sent e (\<not> b))"
    by (rule calm_offer_level [OF ca ph(1)]) (simp add: ph(2))
  then have y: "y = x" "kp_made kem kp" and sn: "mSuite ?n = suite"
    using ph su by (auto simp: level_def Let_def level_phases_def resting_def same_key_def)
  have pk: "kp_publicKey kp = publicKey x"
    using calm_side(2) [OF ca, of b] ph(1) by (simp add: pq_inv_def phase_ok_def keypair_ok_def)
  obtain coins ct ss where enc: "kem_encaps kem (publicKey x) coins = Some (ct, ss)"
    using y(2) ok(2) pk unfolding kp_made_def kem_total_def by metis
  have len: "length ct = ciphertextBytes (mSuite ?n)" "length ss = sharedSecretBytes (mSuite ?n)"
    using ok(2) enc sn unfolding kem_total_def by blast+
  let ?m1 = "?n\<lparr>mBusy := True\<rparr>"
  obtain a root where res: "snd (prepareAdvance_resume module x (Some (ct, ss)) ?m1) =
      ?m1\<lparr>mBusy := False, mPhase := OutboundAdvancePrepared x a root\<rparr>"
    using advance_answer_ok [OF ok(1), of ?m1 x ct ss] calm_side(2,3) [OF ca, of "\<not> b"] ph(2) len y(1) by auto
  have st: "pq_handle module StartAdvance (party e (\<not> b)) = (?m1, AdvanceFlight x)"
    using start_advance_ok [OF calm_side(1,2) [OF ca] ph(2)] y(1) by (subst side_pair [OF ca]) simp
  have an: "pq_handle module (AdvanceAnswer (Some (ct, ss))) (?m1, AdvanceFlight x) =
      (?m1\<lparr>mBusy := False, mPhase := OutboundAdvancePrepared x a root\<rparr>, NoFlight)"
    using res by simp
  show ?thesis
  proof (rule calm_call [OF ca oks _ st _ an])
    show "allowed kem (sent e (\<not> (\<not> b))) (AdvanceFlight x) (AdvanceAnswer (Some (ct, ss)))"
      using enc by (auto intro!: exI [of _ coins])
    fix e'
    assume "calm module kem e'" "fst (party e' (\<not> b)) = ?m1\<lparr>mBusy := False, mPhase := OutboundAdvancePrepared x a root\<rparr>"
      "party e' (\<not> (\<not> b)) = party e (\<not> (\<not> b))"
    then show "finishes module kem e'" using finish_prepared [of module kem e' suite b x kp x a root] ok su ph(1) by simp
  qed simp
qed

text \<open>The offer is on its way and the answering side is ready for it.\<close>

lemma finish_offer_sent:
  assumes ca: "calm module kem e" and ok: "kdf_total module" "kem_total suite kem" and su: "mSuite (fst (party e b)) = suite"
    and ph: "mPhase (fst (party e b)) = OutboundOffer True x kp" "mPhase (fst (party e (\<not> b))) = Idle"
  shows "finishes module kem e"
proof -
  let ?m = "fst (party e b)" and ?n = "fst (party e (\<not> b))"
  have oks: "kdf_ok module" "kem_ok kem" using ok by (simp_all add: kdf_total_def kem_total_def)
  have lv: "level module kem (party e b) (party e (\<not> b)) (sent e b) (sent e (\<not> b))"
    by (rule calm_offer_level [OF ca ph(1)]) (simp add: ph(2))
  then have net: "offer_bytes x \<in> offers (sent e b)"
    and eq: "mSuite ?n = mSuite ?m" "mBinding ?n = mBinding ?m" "mEpoch ?n = mEpoch ?m" "mNextOfferer ?n = Remote"
      "mLocalCounter ?n = mRemoteCounter ?m" "mRemoteCounter ?n = mLocalCounter ?m"
    using ph by (auto simp: level_def Let_def level_phases_def same_key_def)
  have x: "offer_ok (mSuite ?m) (mBinding ?m) x" "room ?m" "senderCounter x = mLocalCounter ?m" "fromEpoch x = mEpoch ?m"
    using calm_side(2) [OF ca, of b] ph(1) by (simp_all add: pq_inv_def phase_ok_def validate_iff)
  have "room ?n" using x(2) eq by (simp add: room_def)
  then have "acceptAuthenticatedOffer (offer_bytes x) ?n = (Inr (), ?n\<lparr>mPhase := InboundOffer x\<rparr>)"
    using get_offer_ok [OF calm_side(1,2) [OF ca] ph(2) eq(4)] x eq by simp
  then have "pq_handle module (GetOffer (offer_bytes x)) (party e (\<not> b)) = (?n\<lparr>mPhase := InboundOffer x\<rparr>, NoFlight)"
    by (subst side_pair [OF ca]) simp
  then show ?thesis
  proof (rule calm_step [OF ca oks, rotated])
    show "allowed kem (sent e (\<not> (\<not> b))) NoFlight (GetOffer (offer_bytes x))" using net by simp
    fix e'
    assume "calm module kem e'" "fst (party e' (\<not> b)) = ?n\<lparr>mPhase := InboundOffer x\<rparr>"
      "party e' (\<not> (\<not> b)) = party e (\<not> (\<not> b))"
    then show "finishes module kem e'" using finish_offered [of module kem e' suite b x kp x] ok su ph(1) by simp
  qed
qed

lemma finish_offer:
  assumes ca: "calm module kem e" and ok: "kdf_total module" "kem_total suite kem" and su: "mSuite (fst (party e b)) = suite"
    and ph: "mPhase (fst (party e b)) = OutboundOffer d x kp" "resting (mPhase (fst (party e (\<not> b))))"
  shows "finishes module kem e"
proof (cases d)
  case True
  have oks: "kdf_ok module" "kem_ok kem" using ok by (simp_all add: kdf_total_def kem_total_def)
  show ?thesis
  proof (cases "mPhase (fst (party e (\<not> b))) = Idle")
    case True
    then show ?thesis using finish_offer_sent [OF ca ok su] ph(1) \<open>d\<close> by simp
  next
    case False
    then obtain a where a: "mPhase (fst (party e (\<not> b))) = InboundAdvanceAwaitingAckDispatch a" using ph(2) by (auto simp: resting_def)
    show ?thesis
    proof (rule mark_ack_step [OF ca oks a])
      fix e'
      assume "calm module kem e'" "fst (party e' (\<not> b)) = (fst (party e (\<not> b)))\<lparr>mPhase := Idle\<rparr>"
        "party e' (\<not> (\<not> b)) = party e (\<not> (\<not> b))"
      then show "finishes module kem e'" using finish_offer_sent [of module kem e' suite b x kp] ok su ph(1) \<open>d\<close> by simp
    qed
  qed
next
  case False
  let ?m = "fst (party e b)"
  have oks: "kdf_ok module" "kem_ok kem" using ok by (simp_all add: kdf_total_def kem_total_def)
  have "pq_handle module AbortOffer (party e b) = (?m\<lparr>mPhase := Idle\<rparr>, NoFlight)"
    using abort_ok [OF calm_side(1) [OF ca]] ph(1) False by (subst side_pair [OF ca]) simp
  then show ?thesis
  proof (rule calm_step [OF ca oks, rotated])
    fix e'
    assume "calm module kem e'" "fst (party e' b) = ?m\<lparr>mPhase := Idle\<rparr>" "party e' (\<not> b) = party e (\<not> b)"
    then show "finishes module kem e'" using finish_dispatch [of module kem e' b] oks ph(2) by simp
  qed simp
qed

lemma finish_level:
  assumes ca: "calm module kem e" and ok: "kdf_total module" "kem_total suite kem" and su: "mSuite (fst (party e b)) = suite"
    and lv: "level module kem (party e b) (party e (\<not> b)) (sent e b) (sent e (\<not> b))"
  shows "finishes module kem e"
proof -
  let ?m = "fst (party e b)" and ?n = "fst (party e (\<not> b))"
  have oks: "kdf_ok module" "kem_ok kem" using ok by (simp_all add: kdf_total_def kem_total_def)
  have "level_phases module kem ?m ?n (sent e b) (sent e (\<not> b))" using lv by (simp add: level_def Let_def)
  then consider "mPhase ?m = Idle" "resting (mPhase ?n)"
    | d x kp where "mPhase ?m = OutboundOffer d x kp" "resting (mPhase ?n)"
    | x kp where "mPhase ?m = OutboundOffer True x kp" "mPhase ?n = InboundOffer x"
    | x kp a root where "mPhase ?m = OutboundOffer True x kp" "mPhase ?n = OutboundAdvancePrepared x a root"
    | x a where "mPhase ?m = OutboundAdvanceAwaitingAck x a" "resting (mPhase ?n)"
    by (auto simp: level_phases_def resting_def split: internal_phase.splits)
  then show ?thesis
  proof cases
    case 1 then show ?thesis by (rule finish_dispatch [OF ca oks])
  next
    case 2 then show ?thesis by (rule finish_offer [OF ca ok su])
  next
    case 3 then show ?thesis by (rule finish_offered [OF ca ok su])
  next
    case 4 then show ?thesis by (rule finish_prepared [OF ca ok su])
  next
    case 5 then show ?thesis by (rule finish_ack [OF ca oks])
  qed
qed

lemma finish_calm:
  assumes ca: "calm module kem e" and ok: "kdf_total module" "kem_total suite kem" and su: "\<And>b. mSuite (fst (party e b)) = suite"
  shows "finishes module kem e"
proof -
  have oks: "kdf_ok module" "kem_ok kem" using ok by (simp_all add: kdf_total_def kem_total_def)
  obtain b where b: "level module kem (party e b) (party e (\<not> b)) (sent e b) (sent e (\<not> b)) \<or>
      ahead module kem (party e b) (party e (\<not> b)) (sent e b) (sent e (\<not> b))"
    using ca by (auto simp: calm_def edge_inv_def)
  then show ?thesis
  proof
    assume "ahead module kem (party e b) (party e (\<not> b)) (sent e b) (sent e (\<not> b))"
    then obtain x a kp where "mPhase (fst (party e (\<not> b))) = OutboundAdvanceAwaitingAck x a"
      "mPhase (fst (party e b)) = OutboundOffer True x kp \<or>
       mPhase (fst (party e b)) = InboundAdvancePrepared x a kp (mRootKey (fst (party e (\<not> b))))"
      by (auto simp: ahead_def ahead_core_def)
    then show ?thesis using finish_answered [OF ca ok su] finish_accepted [OF ca oks] by blast
  qed (rule finish_level [OF ca ok su])
qed

section \<open>Pending backend calls\<close>

text \<open>A backend call that fails ends the flight and leaves the phase as it was.\<close>

lemma quiet_side:
  assumes inv: "edge_inv module kem e" and ok: "kdf_ok module" "kem_ok kem"
  shows "\<exists>e'. edge_run module kem e e' \<and> edge_inv module kem e' \<and> snd (party e' b) = NoFlight \<and>
    party e' (\<not> b) = party e (\<not> b) \<and> mSuite (fst (party e' b)) = mSuite (fst (party e b))"
proof -
  obtain m f where p: "party e b = (m, f)" by fastforce
  have step: ?thesis if al: "allowed kem (sent e (\<not> b)) f ev" and h: "pq_handle module ev (m, f) = (m\<lparr>mBusy := False\<rparr>, NoFlight)" for ev
  proof (intro exI conjI)
    show "edge_run module kem e (edge_act module b ev e)" using al p by (auto intro: edge_run.intros)
    show "edge_inv module kem (edge_act module b ev e)" using edge_inv_act [OF inv _ ok] al p by simp
  qed (simp_all add: p h)
  show ?thesis
  proof (cases f)
    case NoFlight
    then show ?thesis using p inv by (auto intro: edge_start)
  next
    case OfferFlight
    then show ?thesis by (intro step [of "OfferAnswer None"]) (simp_all add: prepareOffer_resume_def)
  next
    case (AdvanceFlight x)
    then show ?thesis by (intro step [of "AdvanceAnswer None"]) (simp_all add: prepareAdvance_resume_def)
  next
    case (AcceptFlight q)
    then show ?thesis by (intro step [of "AcceptAnswer None"]) (simp_all add: acceptAuthenticatedAdvance_resume_def split: prod.splits)
  qed
qed

lemma edge_run_trans:
  assumes "edge_run module kem e1 e2" "edge_run module kem e0 e1"
  shows "edge_run module kem e0 e2"
  using assms by (induction rule: edge_run.induct) (auto intro: edge_run.intros)

lemma edge_inv_finishes:
  assumes inv: "edge_inv module kem e" and ok: "kdf_total module" "kem_total suite kem" and su: "\<And>b. mSuite (fst (party e b)) = suite"
  shows "finishes module kem e"
proof -
  have oks: "kdf_ok module" "kem_ok kem" using ok by (simp_all add: kdf_total_def kem_total_def)
  obtain e1 where e1: "edge_run module kem e e1" "edge_inv module kem e1" "snd (party e1 True) = NoFlight"
      "party e1 False = party e False" "mSuite (fst (party e1 True)) = mSuite (fst (party e True))"
    using quiet_side [OF inv oks, of True] by auto
  obtain e2 where e2: "edge_run module kem e1 e2" "edge_inv module kem e2" "snd (party e2 False) = NoFlight"
      "party e2 True = party e1 True" "mSuite (fst (party e2 False)) = mSuite (fst (party e1 False))"
    using quiet_side [OF e1(2) oks, of False] by auto
  have all: "(\<forall>b. P b) \<longleftrightarrow> P True \<and> P False" for P :: "bool \<Rightarrow> bool" by (metis (full_types))
  have "calm module kem e2" using e1 e2 by (simp add: calm_def all)
  moreover have "mSuite (fst (party e2 b)) = suite" for b using e1 e2 su by (cases b) simp_all
  ultimately have "finishes module kem e2" by (rule finish_calm [OF _ ok])
  then show ?thesis using edge_run_trans [OF _ edge_run_trans [OF e2(1) e1(1)]] by (auto simp: finishes_def)
qed

section \<open>The next epoch\<close>

lemma start_offer_ok:
  assumes "live m" "mPhase m = Idle" "mNextOfferer m = Local" "room m"
  shows "prepareOffer_start m = (Inr (), m\<lparr>mBusy := True\<rparr>)"
  by (rule prepareOffer_start_cases [of m])
    (use assms in \<open>auto simp: prepareOffer_start_def Let_def assertCanStartExchange_iff [THEN iffD2]\<close>)

lemma offer_answer_ok:
  assumes "pq_inv m" "\<not> mDestroyed m" "room m"
    and "length (kp_publicKey kp) = publicKeyBytes (mSuite m)" "length (kp_secretKey kp) = secretKeyBytes (mSuite m)"
  shows "\<exists>x. snd (prepareOffer_resume (Some kp) m) = m\<lparr>mBusy := False, mPhase := OutboundOffer False x kp\<rparr>"
proof -
  have "slot_ok (mSuite m) (mBinding m) (mLocalCounter m) (mEpoch m)"
    using assms(1,3) canonical_known by (simp add: pq_inv_def slot_ok_def room_def)
  then have "encodeOffer (mSuite m) (mBinding m) (mLocalCounter m) (mEpoch m) (kp_publicKey kp) =
      Inr (offer_layout (mSuite m) (mBinding m) (mLocalCounter m) (mEpoch m) (kp_publicKey kp))"
    and "\<exists>x. decodeOffer (offer_layout (mSuite m) (mBinding m) (mLocalCounter m) (mEpoch m) (kp_publicKey kp)) (mSuite m) (Some (mBinding m)) = Inr x"
    using assms(4) by (simp_all add: encodeOffer_iff decodeOffer_layout)
  then show ?thesis using assms(2,4,5) by (auto simp: prepareOffer_resume_def assertActive_def requireBytes_def)
qed

lemma emit_offers: "offers n \<subseteq> offers (emit ev m n)"
  by (cases ev) (auto split: sum.splits prod.splits)

lemma act_keeps:
  assumes "ev \<noteq> DestroyMachine"
  shows "offers (sent e c) \<subseteq> offers (sent (edge_act module b ev e) c)"
    "same_key (fst (party e c)) (fst (party (edge_act module b ev e) c))"
proof -
  have "same_edge (fst (party e b)) (fst (pq_handle module ev (party e b)))"
    using pq_handle_same_edge [OF assms, of "fst (party e b)" module "snd (party e b)"] by simp
  then show "offers (sent e c) \<subseteq> offers (sent (edge_act module b ev e) c)"
    "same_key (fst (party e c)) (fst (party (edge_act module b ev e) c))"
    using emit_offers by (auto simp: edge_act_def same_edge_def same_key_def)
qed

lemma edge_run_keeps:
  assumes "edge_run module kem e0 e"
  shows "offers (sent e0 c) \<subseteq> offers (sent e c) \<and> same_key (fst (party e0 c)) (fst (party e c))"
  using assms
proof (induction rule: edge_run.induct)
  case (edge_next e b ev)
  then have "ev \<noteq> DestroyMachine" by auto
  from act_keeps [OF this, of e c module b] edge_next.IH show ?case by (auto simp: same_key_def)
qed (simp add: same_key_def)

lemma settled_level:
  assumes "edge_inv module kem e" "settled e"
  obtains c where "level module kem (party e c) (party e (\<not> c)) (sent e c) (sent e (\<not> c))"
  using assms by (auto simp: edge_inv_def settled_def ahead_def ahead_core_def)

lemma settled_agree:
  assumes "edge_inv module kem e" "settled e"
  shows "mEpoch (fst (party e b)) = mEpoch (fst (party e c))" "mRootKey (fst (party e b)) = mRootKey (fst (party e c))"
    "same_key (fst (party e b)) (fst (party e c))" "r \<in> offers (sent e c) \<Longrightarrow> old_offer (fst (party e c)) (mEpoch (fst (party e c))) r"
proof -
  obtain d where lv: "level module kem (party e d) (party e (\<not> d)) (sent e d) (sent e (\<not> d))"
    using settled_level [OF assms] .
  have idle: "mPhase (fst (party e d)) = Idle" using assms(2) by (simp add: settled_def)
  have bd: "b = d \<or> b = (\<not> d)" and cd: "c = d \<or> c = (\<not> d)" by blast+
  show "mEpoch (fst (party e b)) = mEpoch (fst (party e c))" "mRootKey (fst (party e b)) = mRootKey (fst (party e c))"
    "same_key (fst (party e b)) (fst (party e c))" "r \<in> offers (sent e c) \<Longrightarrow> old_offer (fst (party e c)) (mEpoch (fst (party e c))) r"
    using lv idle bd cd by (auto simp: edge_defs old_offer_def)
qed

lemma offered_then_later:
  assumes inv: "edge_inv module kem e" and ok: "kdf_total module" "kem_total suite kem" and su: "\<And>b. mSuite (fst (party e b)) = suite"
    and x: "offer_bytes x \<in> offers (sent e b)" "offer_ok (mSuite (fst (party e b))) (mBinding (fst (party e b))) x"
  shows "\<exists>e'. edge_run module kem e e' \<and> settled e' \<and> (\<forall>c. fromEpoch x < mEpoch (fst (party e' c)))"
proof -
  have oks: "kdf_ok module" "kem_ok kem" using ok by (simp_all add: kdf_total_def kem_total_def)
  obtain e' where e': "edge_run module kem e e'" "settled e'"
    using edge_inv_finishes [OF inv ok su] by (auto simp: finishes_def)
  have inv': "edge_inv module kem e'" by (rule edge_run_inv [OF e'(1) inv oks])
  have k: "offer_bytes x \<in> offers (sent e' b)" "same_key (fst (party e b)) (fst (party e' b))"
    using edge_run_keeps [OF e'(1), of b] x(1) by auto
  have "old_offer (fst (party e' b)) (mEpoch (fst (party e' b))) (offer_bytes x)"
    using settled_agree(4) [OF inv' e'(2) k(1)] .
  then have "fromEpoch x < mEpoch (fst (party e' b))"
    using x(2) k(2) offer_unique by (auto simp: old_offer_def same_key_def)
  then have "fromEpoch x < mEpoch (fst (party e' c))" for c using settled_agree(1) [OF inv' e'(2), of b c] by simp
  then show ?thesis using e' by blast
qed

text \<open>Two sides at rest with room for one more exchange can carry it out.\<close>

lemma settled_advances:
  assumes inv: "edge_inv module kem e" and st: "settled e" and ok: "kdf_total module" "kem_total suite kem"
    and su: "\<And>b. mSuite (fst (party e b)) = suite" and rm: "\<And>b. room (fst (party e b))"
  shows "\<exists>e'. edge_run module kem e e' \<and> settled e' \<and> (\<forall>c. mEpoch (fst (party e c)) < mEpoch (fst (party e' c)))"
proof -
  have oks: "kdf_ok module" "kem_ok kem" using ok by (simp_all add: kdf_total_def kem_total_def)
  have ca: "calm module kem e" using inv st by (simp add: calm_def settled_def)
  obtain b where lv: "level module kem (party e b) (party e (\<not> b)) (sent e b) (sent e (\<not> b))"
    using settled_level [OF inv st] .
  let ?m = "fst (party e b)"
  have m: "mPhase ?m = Idle" "mNextOfferer ?m = Local" using st lv by (simp_all add: settled_def level_def Let_def)
  obtain coins kp where kp: "kem_keypair kem coins = Some kp" "length (kp_publicKey kp) = publicKeyBytes (mSuite ?m)"
      "length (kp_secretKey kp) = secretKeyBytes (mSuite ?m)"
    using ok(2) su unfolding kem_total_def by auto
  obtain x where r: "snd (prepareOffer_resume (Some kp) (?m\<lparr>mBusy := True\<rparr>)) = ?m\<lparr>mBusy := False, mPhase := OutboundOffer False x kp\<rparr>"
    using offer_answer_ok [of "?m\<lparr>mBusy := True\<rparr>" kp] calm_side(2,3) [OF ca, of b] rm kp by auto
  let ?e1 = "edge_act module b StartOffer e"
  let ?e2 = "edge_act module b (OfferAnswer (Some kp)) ?e1"
  let ?e3 = "edge_act module b MarkOffer ?e2"
  have p1: "party ?e1 b = (?m\<lparr>mBusy := True\<rparr>, OfferFlight)"
    using start_offer_ok [OF calm_side(1) [OF ca] m rm] by (simp, subst side_pair [OF ca]) simp
  then have p2: "party ?e2 b = (?m\<lparr>mBusy := False, mPhase := OutboundOffer False x kp\<rparr>, NoFlight)" using r by simp
  then have p3: "fst (party ?e3 b) = ?m\<lparr>mBusy := False, mPhase := OutboundOffer True x kp\<rparr>"
    using calm_side(1) [OF ca, of b] by (simp add: markOfferDispatched_def assertSynchronous_def assertActive_def live_def)
  have run: "edge_run module kem e ?e3"
    using kp(1) p1 p2 by (intro edge_next edge_start) (auto intro: exI [of _ coins] simp del: act_party(1))
  have inv3: "edge_inv module kem ?e3" by (rule edge_run_inv [OF run inv oks])
  have su3: "mSuite (fst (party ?e3 c)) = suite" for c using edge_run_keeps [OF run, of c] su by (simp add: same_key_def)
  have x: "offer_ok (mSuite ?m) (mBinding ?m) x" "fromEpoch x = mEpoch ?m"
    using inv3 p3 by (auto simp: edge_inv_def side_ok_def pq_inv_def phase_ok_def validate_iff dest!: spec [of _ b])
  have net: "offer_bytes x \<in> offers (sent ?e3 b)"
    using p2 calm_side(1) [OF ca, of b]
    by (simp add: edge_act_def [of module b MarkOffer] markOfferDispatched_def copyPendingOutboundRecord_def assertSynchronous_def assertActive_def live_def)
  obtain e' where e': "edge_run module kem ?e3 e'" "settled e'" "\<forall>c. fromEpoch x < mEpoch (fst (party e' c))"
    using offered_then_later [OF inv3 ok su3 net] x(1) p3 by auto
  have "mEpoch (fst (party e c)) < mEpoch (fst (party e' c))" for c
    using settled_agree(1) [OF inv st, of c b] x(2) e'(3) by simp
  then show ?thesis using edge_run_trans [OF e'(1) run] e'(2) by blast
qed

text \<open>No call takes a machine back to an earlier epoch.\<close>

lemma handle_epoch:
  assumes "pq_inv m" "flight_ok m f"
  shows "mEpoch m \<le> mEpoch (fst (pq_handle module ev (m, f)))"
proof (cases ev)
  case StartOffer
  show ?thesis unfolding StartOffer by (rule prepareOffer_start_cases [of m]) simp_all
next
  case (OfferAnswer ans)
  show ?thesis unfolding OfferAnswer by (rule prepareOffer_resume_cases [of ans m]) simp_all
next
  case MarkOffer
  show ?thesis unfolding MarkOffer by (rule markOfferDispatched_cases [of m]) simp_all
next
  case AbortOffer
  show ?thesis unfolding AbortOffer by (rule abortUnsentOffer_cases [of m]) simp_all
next
  case (GetOffer r)
  show ?thesis unfolding GetOffer by (rule acceptAuthenticatedOffer_cases [of r m]) simp_all
next
  case StartAdvance
  show ?thesis unfolding StartAdvance by (rule prepareAdvance_start_cases [of m]) simp_all
next
  case (AdvanceAnswer ans)
  have "mEpoch (snd (prepareAdvance_resume module x ans m)) = mEpoch m" for x
    by (simp add: prepareAdvance_resume_def attempt_def Let_def split: option.splits sum.splits prod.splits)
  then show ?thesis by (cases f) (simp_all add: AdvanceAnswer)
next
  case CommitAdvance
  show ?thesis
  proof (rule commitPreparedAdvance_cases [of m])
    fix x a root
    assume "mPhase m = OutboundAdvancePrepared x a root"
      "commitPreparedAdvance m = (Inr (advance_bytes a),
         m\<lparr>mRootKey := root, mEpoch := toEpoch a, mLocalCounter := mLocalCounter m + 1,
           mRemoteCounter := mRemoteCounter m + 1, mNextOfferer := Local, mLastInboundOffer := Some x,
           mPhase := OutboundAdvanceAwaitingAck x a\<rparr>)"
    then show ?thesis using assms(1) advance_okD(2) [of "mSuite m" "mBinding m" a] by (simp add: CommitAdvance pq_inv_def phase_ok_def validate_iff)
  qed (simp add: CommitAdvance)
next
  case (GetAck k)
  show ?thesis unfolding GetAck by (rule acceptAck_cases [of k m]) simp_all
next
  case (GetAdvance r)
  show ?thesis unfolding GetAdvance by (rule acceptAdvance_start_cases [of r m]) simp_all
next
  case (AcceptAnswer ans)
  have "mEpoch (snd (acceptAuthenticatedAdvance_resume module p ans m)) = mEpoch m" for p
    by (simp add: acceptAuthenticatedAdvance_resume_def attempt_def Let_def split: option.splits sum.splits prod.splits)
  then show ?thesis by (cases f) (simp_all add: AcceptAnswer)
next
  case CommitAccepted
  show ?thesis
  proof (rule commitAcceptedAdvance_cases [of m])
    fix x a kp root
    assume ph: "mPhase m = InboundAdvancePrepared x a kp root"
    then have "toEpoch a = mEpoch m + 1" using assms(1) advance_okD(2) [of "mSuite m" "mBinding m" a]
      by (simp add: pq_inv_def phase_ok_def validate_iff)
    then show ?thesis using ph by (auto simp: CommitAccepted commitAcceptedAdvance_def attempt_def Let_def split: sum.splits)
  qed (simp_all add: CommitAccepted inv_phase_root [OF assms(1)])
next
  case (MarkAck k)
  show ?thesis unfolding MarkAck by (rule markAck_cases [of k m]) simp_all
qed (simp add: destroy_def)

lemma edge_run_epoch:
  assumes "edge_run module kem e0 e" "edge_inv module kem e0" "kdf_ok module" "kem_ok kem"
  shows "mEpoch (fst (party e0 c)) \<le> mEpoch (fst (party e c))"
  using assms
proof (induction rule: edge_run.induct)
  case (edge_next e b ev)
  have "edge_inv module kem e" using edge_run_inv [OF edge_next.hyps(1)] edge_next.prems by blast
  then have "side_ok (party e b)" by (simp add: edge_inv_def)
  then have "mEpoch (fst (party e b)) \<le> mEpoch (fst (pq_handle module ev (party e b)))"
    using handle_epoch [of "fst (party e b)" "snd (party e b)" module ev] by (simp add: side_ok_def)
  then show ?case using edge_next by (force simp: edge_act_def)
qed simp

end
