(* ===== verification/Pq_Props.thy ===== *)
theory Pq_Props
  imports Pq_Progress
begin

text \<open>
  The properties of post-quantum healing: the two sides of an edge never disagree on the root of an epoch,
  an exchange can always be completed and followed by the next, a machine restores from its snapshot,
  and the three records have one encoding each. The witnesses run a small edge with a constant KEM.
\<close>

section \<open>A concrete backend\<close>

definition const_kdf :: "unit libcrypto" where
  "const_kdf =
     \<lparr>hkdf_sha512_extract = (\<lambda>a b. Some (take 64 (b @ a @ zeros 64))),
      hkdf_sha512_expand = (\<lambda>n a b. Some (take n (a @ b @ zeros n))),
      x25519_dh = (\<lambda>a p. None), x25519_keypair = (\<lambda>r. (None, r))\<rparr>"

definition const_kem :: mlkem where
  "const_kem =
     \<lparr>kem_keypair = (\<lambda>coins. Some \<lparr>kp_publicKey = zeros 800, kp_secretKey = zeros 1632\<rparr>),
      kem_encaps = (\<lambda>pk coins. Some (zeros 768, replicate 32 7)),
      kem_decaps = (\<lambda>ct sk. Some (replicate 32 7))\<rparr>"

definition const_edge :: edge where
  "const_edge = \<lparr>party = (\<lambda>b. (\<lparr>mSuite = ML_KEM_512_SUITE, mBinding = zeros 32, mRootKey = zeros 32, mEpoch = 0, mLocalCounter = 0,
       mRemoteCounter = 0, mNextOfferer = (if b then Local else Remote), mPhase = Idle, mLastInboundOffer = None,
       mLastInboundAdvance = None, mBusy = False, mDestroyed = False\<rparr>, NoFlight)), sent = (\<lambda>b. silent)\<rparr>"

lemma const_kdf_total: "kdf_total const_kdf"
  by (auto simp: kdf_total_def kdf_ok_def const_kdf_def zeros_def)

lemma const_kem_total: "kem_total ML_KEM_512_SUITE const_kem"
  by (simp add: kem_total_def kem_ok_def const_kem_def ML_KEM_512_SUITE_def zeros_def)

lemma const_ok: "kdf_ok const_kdf" "kem_ok const_kem"
  using const_kdf_total const_kem_total by (simp_all add: kdf_total_def kem_total_def)

lemma const_new:
  "newPqHealingMachine ML_KEM_512_SUITE ML_KEM_512_SUITE (zeros 32) (zeros 32) t (Some 0) (Some 0) (Some 0) =
     Inr \<lparr>mSuite = ML_KEM_512_SUITE, mBinding = zeros 32, mRootKey = zeros 32, mEpoch = 0, mLocalCounter = 0,
       mRemoteCounter = 0, mNextOfferer = t, mPhase = Idle, mLastInboundOffer = None,
       mLastInboundAdvance = None, mBusy = False, mDestroyed = False\<rparr>"
proof -
  have "assertSameSuite ML_KEM_512_SUITE ML_KEM_512_SUITE = Inr ()" "requireU64 0 = Inr ()" by code_simp+
  then show ?thesis
    by (simp add: newPqHealingMachine_def requireBytes_def PQ_HEALING_BINDING_BYTES_def PQ_HEALING_ROOT_BYTES_def zeros_def)
qed

lemma const_fresh: "fresh_edge ML_KEM_512_SUITE (zeros 32) (zeros 32) True 0 0 0 const_edge"
  by (auto simp: fresh_edge_def const_new const_edge_def)

section \<open>Properties\<close>

text \<open>C11: whatever the order of calls and of backend answers on the two sides of an edge, and however
  authenticated records are delayed, repeated or lost, the epochs of the two sides differ by at most
  one, sides in the same epoch hold the same root key, and a side that may send application traffic
  is in the epoch of its peer.\<close>

theorem pq_roots_agree:
  assumes "kdf_ok module" "kem_ok kem" "fresh_edge suite binding root first epoch c d e0" "edge_run module kem e0 e"
  shows "\<bar>mEpoch (fst (party e b)) - mEpoch (fst (party e (\<not> b)))\<bar> \<le> 1 \<and>
    (mEpoch (fst (party e b)) = mEpoch (fst (party e (\<not> b))) \<longrightarrow> mRootKey (fst (party e b)) = mRootKey (fst (party e (\<not> b)))) \<and>
    (\<not> trafficBlocked (fst (party e b)) \<longrightarrow> mEpoch (fst (party e b)) = mEpoch (fst (party e (\<not> b))))"
proof -
  have "edge_inv module kem e" by (rule edge_run_inv [OF assms(4) fresh_edge_inv [OF assms(3)] assms(1,2)])
  from edge_inv_agree [OF this, of b] show ?thesis by simp
qed

theorem pq_roots_agree_witness:
  "\<exists>e. edge_run const_kdf const_kem const_edge e \<and> snd (party e True) = OfferFlight \<and>
     mEpoch (fst (party e True)) = mEpoch (fst (party e False)) \<and> mRootKey (fst (party e True)) = mRootKey (fst (party e False))"
proof -
  let ?e = "edge_act const_kdf True StartOffer const_edge"
  have run: "edge_run const_kdf const_kem const_edge ?e" by (intro edge_next edge_start) simp
  have "mEpoch (fst (party ?e True)) = mEpoch (fst (party ?e False))" "snd (party ?e True) = OfferFlight"
    by code_simp+
  then show ?thesis using pq_roots_agree [OF const_ok const_fresh run, of True] run by auto
qed

text \<open>C12: healing never gets stuck. From every state an edge can reach, with calls awaiting the backend and
  records lost, some continuation brings both sides to rest in one epoch with one root; and unless a
  64-bit counter is used up, one that has advanced both sides to a later epoch. The backend is assumed
  to generate key pairs and ciphertexts of the sizes of its suite and to decapsulate what it encapsulated.\<close>

theorem pq_exchange_completes:
  assumes "kdf_total module" "kem_total suite kem" "fresh_edge suite binding root first epoch c d e0" "edge_run module kem e0 e"
  shows "\<exists>e'. edge_run module kem e e' \<and> settled e' \<and> mRootKey (fst (party e' True)) = mRootKey (fst (party e' False)) \<and>
    ((\<forall>b. mEpoch (fst (party e b)) < mEpoch (fst (party e' b))) \<or> (\<exists>b. \<not> room (fst (party e' b))))"
proof -
  have oks: "kdf_ok module" "kem_ok kem" using assms(1,2) by (simp_all add: kdf_total_def kem_total_def)
  have inv0: "edge_inv module kem e0" by (rule fresh_edge_inv [OF assms(3)])
  have inv: "edge_inv module kem e" by (rule edge_run_inv [OF assms(4) inv0 oks])
  have su0: "mSuite (fst (party e0 b)) = suite" for b
    using assms(3) new_machine_inv(3) by (fastforce simp: fresh_edge_def)
  have su: "mSuite (fst (party e b)) = suite" for b using edge_run_keeps [OF assms(4), of b] su0 by (simp add: same_key_def)
  obtain e1 where e1: "edge_run module kem e e1" "settled e1"
    using edge_inv_finishes [OF inv assms(1,2) su] by (auto simp: finishes_def)
  have inv1: "edge_inv module kem e1" by (rule edge_run_inv [OF e1(1) inv oks])
  have su1: "mSuite (fst (party e1 b)) = suite" for b using edge_run_keeps [OF e1(1), of b] su by (simp add: same_key_def)
  show ?thesis
  proof (cases "\<forall>b. room (fst (party e1 b))")
    case True
    then obtain e2 where e2: "edge_run module kem e1 e2" "settled e2" "\<forall>b. mEpoch (fst (party e1 b)) < mEpoch (fst (party e2 b))"
      using settled_advances [OF inv1 e1(2) assms(1,2) su1] by blast
    have "mEpoch (fst (party e b)) < mEpoch (fst (party e2 b))" for b
      using edge_run_epoch [OF e1(1) inv oks, of b] e2(3) by (meson le_less_trans)
    then show ?thesis using edge_run_trans [OF e2(1) e1(1)] e2(2) settled_agree(2) [OF edge_run_inv [OF e2(1) inv1 oks] e2(2)] by blast
  next
    case False
    then show ?thesis using e1 settled_agree(2) [OF inv1 e1(2)] by blast
  qed
qed

theorem pq_exchange_completes_witness:
  "\<exists>e'. edge_run const_kdf const_kem (edge_act const_kdf True StartOffer const_edge) e' \<and> settled e' \<and>
    mRootKey (fst (party e' True)) = mRootKey (fst (party e' False)) \<and>
    ((\<forall>b. mEpoch (fst (party (edge_act const_kdf True StartOffer const_edge) b)) < mEpoch (fst (party e' b))) \<or>
     (\<exists>b. \<not> room (fst (party e' b))))"
proof -
  have run: "edge_run const_kdf const_kem const_edge (edge_act const_kdf True StartOffer const_edge)"
    by (intro edge_next edge_start) simp
  show ?thesis by (rule pq_exchange_completes [OF const_kdf_total const_kem_total const_fresh run])
qed

text \<open>C16: after any sequence of calls, backend answers and records (accepted or refused, from anyone), a machine
  that is not destroyed and awaits nothing can be saved: its snapshot passes every check of restore, which
  gives back the same machine.\<close>

theorem pq_machine_restorable:
  assumes "kdf_ok module" "newPqHealingMachine suite backend binding root t eo lo ro = Inr m0"
    "pq_run module evs m0 = (m, f)" "\<not> mDestroyed m" "\<not> mBusy m"
  shows "\<exists>s. snapshot m = Inr s \<and> restore s suite suite binding = Inr m"
proof -
  note n = new_machine_inv [OF assms(2)]
  have "pq_inv m \<and> flight_ok m f \<and> (mDestroyed m \<or> same_edge m0 m)"
    using pq_run_inv [OF n(1) assms(1) n(2)] assms(3) by (simp add: pq_run_def)
  then have "pq_inv m" "mSuite m = suite" "mBinding m = binding" using assms(4) n(3,4) by (simp_all add: same_edge_def)
  then show ?thesis using restore_snapshot [of m] assms(4,5) by (simp add: live_def)
qed

theorem pq_machine_restorable_witness:
  "\<exists>s m. pq_run const_kdf [StartOffer, OfferAnswer None] (fst (party const_edge True)) = (m, NoFlight) \<and>
     snapshot m = Inr s \<and> restore s ML_KEM_512_SUITE ML_KEM_512_SUITE (zeros 32) = Inr m"
proof -
  obtain m where m: "pq_run const_kdf [StartOffer, OfferAnswer None] (fst (party const_edge True)) = (m, NoFlight)"
      "\<not> mDestroyed m" "\<not> mBusy m"
  proof -
    have "snd (pq_run const_kdf [StartOffer, OfferAnswer None] (fst (party const_edge True))) = NoFlight" by code_simp
    moreover have "\<not> mDestroyed (fst (pq_run const_kdf [StartOffer, OfferAnswer None] (fst (party const_edge True))))"
      "\<not> mBusy (fst (pq_run const_kdf [StartOffer, OfferAnswer None] (fst (party const_edge True))))" by code_simp+
    ultimately show ?thesis by (intro that [of "fst (pq_run const_kdf [StartOffer, OfferAnswer None] (fst (party const_edge True)))"])
        (simp_all add: prod_eq_iff)
  qed
  have new: "newPqHealingMachine ML_KEM_512_SUITE ML_KEM_512_SUITE (zeros 32) (zeros 32) Local (Some 0) (Some 0) (Some 0) =
      Inr (fst (party const_edge True))"
    by (simp add: const_new const_edge_def)
  show ?thesis using pq_machine_restorable [OF const_ok(1) new m] m(1) by blast
qed

text \<open>C17: on an edge the OFFER, ADVANCE and acknowledgement records have one encoding each: a decoder accepts
  exactly the byte strings the encoder produces, and returns the fields that were encoded. The offer an
  ADVANCE echoes is itself canonical.\<close>

theorem pq_records_canonical:
  "((\<exists>x. decodeOffer r suite (Some binding) = Inr x \<and> senderCounter x = sc \<and> fromEpoch x = fe \<and> publicKey x = pk) \<longleftrightarrow>
      encodeOffer suite binding sc fe pk = Inr r) \<and>
   ((\<exists>a. decodeAdvance r suite (Some binding) = Inr a \<and> senderCounter a = sc \<and> advance_offer a = x \<and> ciphertext a = ct) \<longleftrightarrow>
      decodeOffer (offer_bytes x) suite (Some binding) = Inr x \<and> encodeAdvance suite binding sc x ct = Inr r) \<and>
   (decodePqHealingAck r suite binding = Inr k \<longleftrightarrow> encodePqHealingAck k suite binding = Inr r)"
proof (intro conjI)
  show "(\<exists>x. decodeOffer r suite (Some binding) = Inr x \<and> senderCounter x = sc \<and> fromEpoch x = fe \<and> publicKey x = pk) \<longleftrightarrow>
     encodeOffer suite binding sc fe pk = Inr r"
    using offer_codec.codec_iff [where suite = suite and binding = binding and w = r and x = "(sc, fe, pk)"]
    by (auto split: sum.splits option.splits)
  show "(\<exists>a. decodeAdvance r suite (Some binding) = Inr a \<and> senderCounter a = sc \<and> advance_offer a = x \<and> ciphertext a = ct) \<longleftrightarrow>
     decodeOffer (offer_bytes x) suite (Some binding) = Inr x \<and> encodeAdvance suite binding sc x ct = Inr r" (is "?l \<longleftrightarrow> ?r")
  proof
    assume ?l
    then obtain a where a: "advance_ok suite binding a" "advance_bytes a = r" "senderCounter a = sc" "advance_offer a = x" "ciphertext a = ct"
      using decodeAdvance_ok by blast
    then show ?r using advance_okD [OF a(1)] encodeAdvance_iff [of suite binding x sc ct r] by (simp add: offer_ok_def)
  next
    assume ?r
    then show ?l using encodeAdvance_iff [of suite binding x sc ct r] decodeAdvance_layout [of suite binding x sc ct]
      by (auto simp: offer_ok_def)
  qed
  show "decodePqHealingAck r suite binding = Inr k \<longleftrightarrow> encodePqHealingAck k suite binding = Inr r"
    using ack_codec.codec_iff [where suite = suite and binding = binding and w = r and x = k] by simp
qed

end
