(* ===== verification/Cells.thy ===== *)
theory Cells
  imports Pq_Records
begin

text \<open>
  What the two sealed cells of the data channel share: cover cells (\<^verbatim>\<open>cryptography/coverCell.ts\<close>) and
  post-quantum control frames (\<^verbatim>\<open>cryptography/pqHealingFrame.ts\<close>) have one clear header of 69 bytes and a padded
  plaintext, sealed with ChaCha20-Poly1305 over the header. The cipher is the compiled module's and a
  parameter here; \<open>aead_ok\<close> is what the code relies on: it is deterministic, opening inverts sealing
  and accepts nothing else, and the tag adds 16 bytes.
\<close>

section \<open>The cipher\<close>

record aead =
  aead_encrypt :: "bytes \<Rightarrow> bytes \<Rightarrow> bytes \<Rightarrow> bytes \<Rightarrow> bytes option"
  aead_decrypt :: "bytes \<Rightarrow> bytes \<Rightarrow> bytes \<Rightarrow> bytes \<Rightarrow> bytes option"

definition aead_ok :: "aead \<Rightarrow> bool" where
  "aead_ok A \<longleftrightarrow>
     (\<forall>k n p a c. aead_encrypt A k n p a = Some c \<longrightarrow> length c = length p + 16) \<and>
     (\<forall>k n p a c. aead_decrypt A k n c a = Some p \<longleftrightarrow> aead_encrypt A k n p a = Some c)"

lemma aead_length: "aead_ok A \<Longrightarrow> aead_encrypt A k n p a = Some c \<Longrightarrow> length c = length p + 16"
  by (auto simp: aead_ok_def)

lemma aead_inverse: "aead_ok A \<Longrightarrow> aead_decrypt A k n c a = Some p \<longleftrightarrow> aead_encrypt A k n p a = Some c"
  by (auto simp: aead_ok_def)

section \<open>The clear header\<close>

definition cell_header :: "byte \<Rightarrow> bytes \<Rightarrow> int \<Rightarrow> int \<Rightarrow> bytes \<Rightarrow> bytes" where
  "cell_header tag binding counter epoch nonce =
     [tag] @ binding @ be_enc 8 (nat counter) @ zeros 8 @ be_enc 8 (nat epoch) @ nonce"

lemma length_cell_header [simp]:
  "length binding = 32 \<Longrightarrow> length nonce = 12 \<Longrightarrow> length (cell_header tag binding counter epoch nonce) = 69"
  by (simp add: cell_header_def)

lemma set_at_zeros: "off \<le> n \<Longrightarrow> set_at (zeros n) off xs = zeros off @ xs @ zeros (n - (off + length xs))"
  by (simp add: set_at_def)

lemma cell_header_written:
  assumes "length binding = 32" "length nonce = 12"
  shows "set_at (setU64 (setU64 (set_at (set_at (zeros 69) 0 [tag]) 1 binding) 33 counter) 49 epoch) 57 nonce =
    cell_header tag binding counter epoch nonce"
  using assms by (simp add: setU64_def cell_header_def wire_simps set_at_zeros)

lemma cell_header_fields:
  assumes "length binding = 32" "length nonce = 12"
  shows "(cell_header tag binding counter epoch nonce @ ct) ! 0 = tag"
    "sub (cell_header tag binding counter epoch nonce @ ct) 1 33 = binding"
    "sub (cell_header tag binding counter epoch nonce @ ct) 0 69 = cell_header tag binding counter epoch nonce"
    "sub (cell_header tag binding counter epoch nonce @ ct) 57 69 = nonce"
    "drop 69 (cell_header tag binding counter epoch nonce @ ct) = ct"
    "getU64 (cell_header tag binding counter epoch nonce @ ct) 41 = 0"
    "u64_ok counter \<Longrightarrow> getU64 (cell_header tag binding counter epoch nonce @ ct) 33 = counter"
    "u64_ok epoch \<Longrightarrow> getU64 (cell_header tag binding counter epoch nonce @ ct) 49 = epoch"
  using assms u64_back [of counter] u64_back [of epoch]
  by (simp_all add: cell_header_def sub_def getU64_def be_dec_zeros)

lemma cell_split:
  assumes "69 \<le> length fr"
  shows "fr = [fr ! 0] @ sub fr 1 33 @ sub fr 33 41 @ sub fr 41 49 @ sub fr 49 57 @ sub fr 57 69 @ drop 69 fr"
proof -
  have "fr = sub fr 0 69 @ drop 69 fr" by (simp add: sub_def)
  also have "sub fr 0 69 = sub fr 0 1 @ sub fr 1 33 @ sub fr 33 41 @ sub fr 41 49 @ sub fr 49 57 @ sub fr 57 69"
    by (simp add: sub_join)
  also have "sub fr 0 1 = [fr ! 0]" using assms sub_single [of 0 fr] by (cases fr) simp_all
  finally show ?thesis by simp
qed

lemma u64_bytes:
  assumes "off + 8 \<le> length fr"
  shows "be_enc 8 (nat (getU64 fr off)) = sub fr off (off + 8)"
  using assms be_enc_sub [of "off + 8" fr off] by (simp add: getU64_def)

text \<open>A frame is the header read from it followed by its ciphertext.\<close>

lemma cell_header_read:
  assumes "69 \<le> length fr" "fr ! 0 = tag" "getU64 fr 41 = 0"
  shows "fr = cell_header tag (sub fr 1 33) (getU64 fr 33) (getU64 fr 49) (sub fr 57 69) @ drop 69 fr"
    "sub fr 0 69 = cell_header tag (sub fr 1 33) (getU64 fr 33) (getU64 fr 49) (sub fr 57 69)"
proof -
  have "sub fr 41 49 = zeros 8" using u64_bytes [of 41 fr] assms(1,3) by (simp add: be_enc_zero)
  then show *: "fr = cell_header tag (sub fr 1 33) (getU64 fr 33) (getU64 fr 49) (sub fr 57 69) @ drop 69 fr"
    using cell_split [OF assms(1)] u64_bytes [of 33 fr] u64_bytes [of 49 fr] assms(1,2) by (simp add: cell_header_def)
  have "length (cell_header tag (sub fr 1 33) (getU64 fr 33) (getU64 fr 49) (sub fr 57 69)) = 69"
    using assms(1) by simp
  then show "sub fr 0 69 = cell_header tag (sub fr 1 33) (getU64 fr 33) (getU64 fr 49) (sub fr 57 69)"
    using * sub_append_take [of "cell_header tag (sub fr 1 33) (getU64 fr 33) (getU64 fr 49) (sub fr 57 69)" 69 "drop 69 fr"] by simp
qed

section \<open>The padded plaintext\<close>

definition getU32 :: "bytes \<Rightarrow> nat \<Rightarrow> nat" where
  "getU32 buf off = be_dec (sub buf off (off + 4))"

definition padded :: "bytes \<Rightarrow> nat \<Rightarrow> bytes \<Rightarrow> bytes" where
  "padded lead n p = lead @ be_enc 4 (length p) @ p @ zeros (n - length p)"

lemma padded_written:
  assumes "length p \<le> n"
  shows "set_at (set_at (lead @ zeros (n + 4)) (length lead) (be_enc 4 (length p))) (length lead + 4) p = padded lead n p"
  using assms by (simp add: padded_def wire_simps)

lemma padded_read:
  assumes "length p \<le> n" "n < 256 ^ 4"
  shows "getU32 (padded lead n p) (length lead) = length p"
    "sub (padded lead n p) (length lead + 4) (length lead + 4 + length p) = p"
    "or_all 0 (drop (length lead + 4 + length p) (padded lead n p)) = 0"
    "length (padded lead n p) = length lead + 4 + n"
  using assms be_dec_enc [of "length p" 4]
  by (simp_all add: padded_def getU32_def sub_def or_all_zero_iff)

lemma padded_okD:
  assumes len: "length pt = k + 4 + n" and u: "getU32 pt k = m" "m \<le> n"
    and z: "or_all 0 (drop (k + 4 + m) pt) = 0"
  shows "pt = padded (take k pt) n (sub pt (k + 4) (k + 4 + m))"
proof -
  let ?p = "sub pt (k + 4) (k + 4 + m)"
  have m: "length ?p = m" using len u(2) by simp
  have "pt = take k pt @ sub pt k (k + 4) @ ?p @ drop (k + 4 + m) pt"
    by (simp add: sub_def add.commute) (metis add.commute append_take_drop_id drop_drop)
  moreover have "sub pt k (k + 4) = be_enc 4 m"
    using be_enc_sub [of "k + 4" pt k] len u(1) by (simp add: getU32_def)
  moreover have "drop (k + 4 + m) pt = zeros (n - m)" using z len by (simp add: or_all_zero_iff)
  ultimately show ?thesis using m by (simp add: padded_def)
qed

end
