(* ===== verification/Cover_Cell.thy ===== *)
theory Cover_Cell
  imports Cells
begin

text \<open>
  The authenticated cover cells of \<^verbatim>\<open>src/src/cryptography/coverCell.ts\<close>, one definition per function in the
  order of the file; the nonce drawn from \<^verbatim>\<open>crypto.getRandomValues\<close> is an argument of \<open>sealCoverCell\<close>. Direction
  and suite are the strings the source compares, so that its error branches are branches here.
  Shown: the receiver opens exactly the cells a sender sealed for the same edge, direction, suite,
  epoch and root, and reads back the content and the counter.
\<close>

section \<open>Geometry\<close>

definition BINDING_OFFSET :: nat where [const_defs]: "BINDING_OFFSET = FRAME_TYPE_LEN"
definition COUNTER_OFFSET :: nat where [const_defs]: "COUNTER_OFFSET = BINDING_OFFSET + RATCHET_DHPUB_LEN"
definition RESERVED_OFFSET :: nat where [const_defs]: "RESERVED_OFFSET = COUNTER_OFFSET + RATCHET_N_LEN"
definition EPOCH_OFFSET :: nat where [const_defs]: "EPOCH_OFFSET = RESERVED_OFFSET + RATCHET_PN_LEN"
definition NONCE_OFFSET :: nat where [const_defs]: "NONCE_OFFSET = EPOCH_OFFSET + PQ_EPOCH_LEN"
definition COVER_CELL_HEADER_BYTES :: nat where
  [const_defs]: "COVER_CELL_HEADER_BYTES =
     FRAME_TYPE_LEN + RATCHET_DHPUB_LEN + RATCHET_N_LEN + RATCHET_PN_LEN + PQ_EPOCH_LEN + RATCHET_NONCE_LEN"
definition COVER_CELL_PLAINTEXT_BYTES :: nat where
  [const_defs]: "COVER_CELL_PLAINTEXT_BYTES =
     WIRE_CHUNK_FRAME_LEN - COVER_CELL_HEADER_BYTES - crypto_aead_chacha20poly1305_ietf_ABYTES"
definition COVER_CELL_BINDING_BYTES :: nat where [const_defs]: "COVER_CELL_BINDING_BYTES = RATCHET_DHPUB_LEN"
definition COVER_CELL_ROOT_BYTES :: nat where [const_defs]: "COVER_CELL_ROOT_BYTES = 32"
definition COVER_CELL_TOKEN_BYTES :: nat where [const_defs]: "COVER_CELL_TOKEN_BYTES = crypto_hash_sha512_BYTES"
definition SUBTYPE_BYTES :: nat where [const_defs]: "SUBTYPE_BYTES = 1"
definition PAYLOAD_LENGTH_BYTES :: nat where [const_defs]: "PAYLOAD_LENGTH_BYTES = 4"
definition COVER_CELL_MAX_PAYLOAD_BYTES :: nat where
  [const_defs]: "COVER_CELL_MAX_PAYLOAD_BYTES = COVER_CELL_PLAINTEXT_BYTES - SUBTYPE_BYTES - PAYLOAD_LENGTH_BYTES"
definition COVER_KEY_DOMAIN :: bytes where "COVER_KEY_DOMAIN = ascii ''p2party/cover-cell/key/v1'' @ [0]"

section \<open>Contents and checks\<close>

datatype cover_cell_content =
    CellDummy
  | CellCancel bytes
  | CellReceipt bytes bytes

datatype cover_cell_error =
    CellAuthenticationFailed
  | CellBindingMismatch
  | CellEpochMismatch
  | InvalidCell
  | CellInvalidDirection
  | CellInvalidPadding
  | CellReplayedCounter
  | CellKdfFailed ratchet_error

definition cellRequireBytes :: "bytes \<Rightarrow> nat \<Rightarrow> cover_cell_error + unit" where
  "cellRequireBytes value n = ensure (length value = n) InvalidCell"

definition cellRequireU64 :: "int \<Rightarrow> cover_cell_error + unit" where
  "cellRequireU64 value = ensure (\<not> (value < 0 \<or> value > MAX_U64)) InvalidCell"

definition cellSuiteTag :: "string \<Rightarrow> cover_cell_error + byte" where
  "cellSuiteTag suite =
     (if suite = RATCHET_ROOT_SUITE_MLKEM768 then Inr 1
      else if suite = RATCHET_ROOT_SUITE_MLKEM512 then Inr 2
      else if suite = RATCHET_ROOT_SUITE_MLKEM1024 then Inr 3
      else Inl InvalidCell)"

definition cellDirectionTag :: "string \<Rightarrow> cover_cell_error + byte" where
  "cellDirectionTag direction =
     (if direction = ''initiator-to-responder'' then Inr 1
      else if direction = ''responder-to-initiator'' then Inr 2
      else Inl CellInvalidDirection)"

fun subtypeTag :: "cover_cell_content \<Rightarrow> byte" where
  "subtypeTag CellDummy = 1"
| "subtypeTag (CellCancel _) = 2"
| "subtypeTag (CellReceipt _ _) = 3"

definition lift_cell_kdf :: "ratchet_error + 'a \<Rightarrow> cover_cell_error + 'a" where
  "lift_cell_kdf r = (case r of Inl e \<Rightarrow> Inl (CellKdfFailed e) | Inr x \<Rightarrow> Inr x)"

text \<open>The key schedule: the context string, then extract and expand.\<close>

definition cellKeyInfo :: "string \<Rightarrow> bytes \<Rightarrow> string \<Rightarrow> int \<Rightarrow> cover_cell_error + bytes" where
  "cellKeyInfo suite binding direction keyEpoch =
     rbind (cellSuiteTag suite) (\<lambda>s. rbind (cellDirectionTag direction) (\<lambda>d.
     let k = length COVER_KEY_DOMAIN;
         info = zeros (k + 1 + 1 + length binding + 8);
         info = set_at info 0 COVER_KEY_DOMAIN;
         info = set_at info k [s];
         info = set_at info (k + 1) [d];
         info = set_at info (k + 2) binding;
         info = set_at info (k + 2 + length binding) (be_enc 8 (nat keyEpoch))
     in Inr info))"

definition deriveCellKey :: "'r libcrypto \<Rightarrow> string \<Rightarrow> bytes \<Rightarrow> bytes \<Rightarrow> string \<Rightarrow> int \<Rightarrow> cover_cell_error + bytes" where
  "deriveCellKey module suite root binding direction keyEpoch =
     rbind (cellRequireBytes root COVER_CELL_ROOT_BYTES) (\<lambda>_.
     rbind (cellRequireBytes binding COVER_CELL_BINDING_BYTES) (\<lambda>_.
     rbind (cellRequireU64 keyEpoch) (\<lambda>_.
     rbind (cellKeyInfo suite binding direction keyEpoch) (\<lambda>info.
     rbind (lift_cell_kdf (hkdfExtract module root binding)) (\<lambda>prk.
     lift_cell_kdf (hkdfExpand module prk info 32))))))"

fun encodeContent :: "cover_cell_content \<Rightarrow> cover_cell_error + bytes" where
  "encodeContent CellDummy = Inr []"
| "encodeContent (CellCancel root) = rbind (cellRequireBytes root COVER_CELL_TOKEN_BYTES) (\<lambda>_. Inr root)"
| "encodeContent (CellReceipt root token) =
     rbind (cellRequireBytes root COVER_CELL_TOKEN_BYTES) (\<lambda>_.
     rbind (cellRequireBytes token COVER_CELL_TOKEN_BYTES) (\<lambda>_. Inr (root @ token)))"

definition decodeContent :: "byte \<Rightarrow> bytes \<Rightarrow> cover_cell_error + cover_cell_content" where
  "decodeContent subtype body =
     (if subtype = 1 then rbind (ensure (length body = 0) InvalidCell) (\<lambda>_. Inr CellDummy)
      else if subtype = 2 then rbind (ensure (length body = COVER_CELL_TOKEN_BYTES) InvalidCell) (\<lambda>_. Inr (CellCancel body))
      else if subtype = 3 then
        rbind (ensure (length body = COVER_CELL_TOKEN_BYTES * 2) InvalidCell) (\<lambda>_.
        Inr (CellReceipt (take COVER_CELL_TOKEN_BYTES body) (drop COVER_CELL_TOKEN_BYTES body)))
      else Inl InvalidCell)"

definition aeadSeal :: "aead \<Rightarrow> bytes \<Rightarrow> bytes \<Rightarrow> bytes \<Rightarrow> bytes \<Rightarrow> cover_cell_error + bytes" where
  "aeadSeal A key nonce plaintext aad =
     (case aead_encrypt A key nonce plaintext aad of None \<Rightarrow> Inl InvalidCell | Some c \<Rightarrow> Inr c)"

definition aeadOpen :: "aead \<Rightarrow> bytes \<Rightarrow> bytes \<Rightarrow> bytes \<Rightarrow> bytes \<Rightarrow> cover_cell_error + bytes" where
  "aeadOpen A key nonce sealed aad =
     (case aead_decrypt A key nonce sealed aad of None \<Rightarrow> Inl CellAuthenticationFailed | Some p \<Rightarrow> Inr p)"

section \<open>Sealing and opening\<close>

record 'r cell_context =
  cc_module :: "'r libcrypto"
  cc_rootSuite :: string
  cc_rootKey :: bytes
  cc_binding :: bytes
  cc_direction :: string
  cc_keyEpoch :: int

definition sealCoverCell :: "aead \<Rightarrow> 'r cell_context \<Rightarrow> int \<Rightarrow> cover_cell_content \<Rightarrow> bytes \<Rightarrow> cover_cell_error + bytes" where
  "sealCoverCell A ctx counter content nonce =
     rbind (cellRequireBytes (cc_binding ctx) COVER_CELL_BINDING_BYTES) (\<lambda>_.
     rbind (cellRequireU64 (cc_keyEpoch ctx)) (\<lambda>_.
     rbind (cellRequireU64 counter) (\<lambda>_.
     rbind (encodeContent content) (\<lambda>body.
     rbind (ensure (\<not> length body > COVER_CELL_MAX_PAYLOAD_BYTES) InvalidCell) (\<lambda>_.
     let header = zeros COVER_CELL_HEADER_BYTES;
         header = set_at header 0 [of_int FRAME_TYPE_COVER];
         header = set_at header BINDING_OFFSET (cc_binding ctx);
         header = setU64 header COUNTER_OFFSET counter;
         header = setU64 header EPOCH_OFFSET (cc_keyEpoch ctx);
         header = set_at header NONCE_OFFSET nonce;
         plaintext = zeros COVER_CELL_PLAINTEXT_BYTES;
         plaintext = set_at plaintext 0 [subtypeTag content];
         plaintext = set_at plaintext SUBTYPE_BYTES (be_enc 4 (length body));
         plaintext = set_at plaintext (SUBTYPE_BYTES + PAYLOAD_LENGTH_BYTES) body
     in rbind (deriveCellKey (cc_module ctx) (cc_rootSuite ctx) (cc_rootKey ctx) (cc_binding ctx) (cc_direction ctx)
                 (cc_keyEpoch ctx)) (\<lambda>key.
        rbind (aeadSeal A key nonce plaintext header) (\<lambda>sealed.
        let frame = zeros WIRE_CHUNK_FRAME_LEN;
            frame = set_at frame 0 header
        in Inr (set_at frame COVER_CELL_HEADER_BYTES sealed))))))))"

definition openCoverCell ::
    "aead \<Rightarrow> 'r cell_context \<Rightarrow> int option \<Rightarrow> bytes \<Rightarrow> cover_cell_error + cover_cell_content \<times> int" where
  "openCoverCell A ctx counterAbove frame =
     rbind (cellRequireBytes frame WIRE_CHUNK_FRAME_LEN) (\<lambda>_.
     rbind (cellRequireBytes (cc_binding ctx) COVER_CELL_BINDING_BYTES) (\<lambda>_.
     rbind (cellRequireU64 (cc_keyEpoch ctx)) (\<lambda>_.
     rbind (ensure (frame ! 0 = of_int FRAME_TYPE_COVER) InvalidCell) (\<lambda>_.
     rbind (ensure (bytesEqual (sub frame BINDING_OFFSET (BINDING_OFFSET + RATCHET_DHPUB_LEN)) (cc_binding ctx))
              CellBindingMismatch) (\<lambda>_.
     let header = sub frame 0 COVER_CELL_HEADER_BYTES;
         counter = getU64 frame COUNTER_OFFSET
     in rbind (ensure (getU64 frame RESERVED_OFFSET = 0) InvalidCell) (\<lambda>_.
        rbind (ensure (getU64 frame EPOCH_OFFSET = cc_keyEpoch ctx) CellEpochMismatch) (\<lambda>_.
        rbind (case counterAbove of
                 None \<Rightarrow> Inr ()
               | Some highest \<Rightarrow> rbind (cellRequireU64 highest) (\<lambda>_. ensure (\<not> counter \<le> highest) CellReplayedCounter)) (\<lambda>_.
        rbind (deriveCellKey (cc_module ctx) (cc_rootSuite ctx) (cc_rootKey ctx) (cc_binding ctx) (cc_direction ctx)
                 (cc_keyEpoch ctx)) (\<lambda>key.
        rbind (aeadOpen A key (sub frame NONCE_OFFSET (NONCE_OFFSET + RATCHET_NONCE_LEN)) (drop COVER_CELL_HEADER_BYTES frame) header)
          (\<lambda>plaintext.
        let payloadLength = getU32 plaintext SUBTYPE_BYTES;
            payloadOffset = SUBTYPE_BYTES + PAYLOAD_LENGTH_BYTES;
            paddingOffset = payloadOffset + payloadLength
        in rbind (ensure (\<not> payloadLength > COVER_CELL_MAX_PAYLOAD_BYTES) CellInvalidPadding) (\<lambda>_.
           rbind (ensure (or_all 0 (drop paddingOffset plaintext) = 0) CellInvalidPadding) (\<lambda>_.
           rbind (decodeContent (plaintext ! 0) (sub plaintext payloadOffset paddingOffset)) (\<lambda>content.
           Inr (content, counter))))))))))))))"

section \<open>What is sealed\<close>

lemma cell_geometry [simp]:
  "COVER_CELL_HEADER_BYTES = 69" "COVER_CELL_PLAINTEXT_BYTES = 65405" "COVER_CELL_MAX_PAYLOAD_BYTES = 65400"
  "COVER_CELL_BINDING_BYTES = 32" "COVER_CELL_ROOT_BYTES = 32" "COVER_CELL_TOKEN_BYTES = 64"
  "BINDING_OFFSET = 1" "COUNTER_OFFSET = 33" "RESERVED_OFFSET = 41" "EPOCH_OFFSET = 49" "NONCE_OFFSET = 57"
  "SUBTYPE_BYTES = 1" "PAYLOAD_LENGTH_BYTES = 4"
  by (simp_all add: const_defs)

lemma cellRequire_iff [simp]:
  "cellRequireBytes v n = Inr u \<longleftrightarrow> length v = n" "cellRequireU64 x = Inr u \<longleftrightarrow> u64_ok x"
  by (auto simp: cellRequireBytes_def cellRequireU64_def u64_ok_def)

lemma cellRequire_ok [simp]:
  "length v = n \<Longrightarrow> cellRequireBytes v n = Inr ()" "u64_ok x \<Longrightarrow> cellRequireU64 x = Inr ()"
  by simp_all

lemma encodeContent_length: "encodeContent c = Inr body \<Longrightarrow> length body \<le> 128"
  by (cases c) (auto simp: result_simps)

lemma split_128:
  "length body = 128 \<and> take 64 body = root \<and> drop 64 body = token \<longleftrightarrow> length root = 64 \<and> length token = 64 \<and> body = root @ token"
proof
  assume "length body = 128 \<and> take 64 body = root \<and> drop 64 body = token"
  then show "length root = 64 \<and> length token = 64 \<and> body = root @ token" by auto
qed simp

lemma content_codec: "decodeContent t body = Inr c \<longleftrightarrow> t = subtypeTag c \<and> encodeContent c = Inr body"
proof (cases c)
  case (CellReceipt root token)
  show ?thesis using split_128 [of body root token] by (auto simp: CellReceipt decodeContent_def result_simps)
qed (auto simp: decodeContent_def result_simps)

lemma aead_results [simp]:
  "aeadSeal A k n p a = Inr x \<longleftrightarrow> aead_encrypt A k n p a = Some x"
  "aeadOpen A k n w a = Inr x \<longleftrightarrow> aead_decrypt A k n w a = Some x"
  by (simp_all add: aeadSeal_def aeadOpen_def split: option.splits)

text \<open>The plaintext and the header of a cell.\<close>

definition cell_plaintext :: "cover_cell_content \<Rightarrow> bytes \<Rightarrow> bytes" where
  "cell_plaintext c body = padded [subtypeTag c] 65400 body"

definition cover_header :: "'r cell_context \<Rightarrow> int \<Rightarrow> bytes \<Rightarrow> bytes" where
  "cover_header ctx counter nonce = cell_header 4 (cc_binding ctx) counter (cc_keyEpoch ctx) nonce"

definition cover_key :: "'r cell_context \<Rightarrow> cover_cell_error + bytes" where
  "cover_key ctx = deriveCellKey (cc_module ctx) (cc_rootSuite ctx) (cc_rootKey ctx) (cc_binding ctx) (cc_direction ctx) (cc_keyEpoch ctx)"

definition cover_sealed :: "aead \<Rightarrow> 'r cell_context \<Rightarrow> int \<Rightarrow> cover_cell_content \<Rightarrow> bytes \<Rightarrow> bytes \<Rightarrow> bool" where
  "cover_sealed A ctx counter c nonce frame \<longleftrightarrow>
     length (cc_binding ctx) = 32 \<and> u64_ok (cc_keyEpoch ctx) \<and> u64_ok counter \<and>
     (\<exists>body key ct. encodeContent c = Inr body \<and> cover_key ctx = Inr key \<and>
        aead_encrypt A key nonce (cell_plaintext c body) (cover_header ctx counter nonce) = Some ct \<and>
        frame = cover_header ctx counter nonce @ ct)"

lemma seal_iff:
  assumes A: "aead_ok A" and n: "length nonce = 12"
  shows "sealCoverCell A ctx counter c nonce = Inr frame \<longleftrightarrow> cover_sealed A ctx counter c nonce frame"
proof -
  have pt: "set_at (set_at (set_at (zeros 65405) 0 [t]) 1 (be_enc 4 (length body))) 5 body = padded [t] 65400 body"
    if "length body \<le> 65400" for t body
    using padded_written [OF that, of "[t]"] by (simp add: wire_simps)
  have hd: "set_at (setU64 (setU64 (set_at (set_at (zeros 69) 0 [4]) 1 (cc_binding ctx)) 33 counter) 49 (cc_keyEpoch ctx)) 57 nonce =
      cover_header ctx counter nonce" if "length (cc_binding ctx) = 32"
    using cell_header_written [OF that n] by (simp add: cover_header_def)
  have fr: "set_at (set_at (zeros 65490) 0 (cover_header ctx counter nonce)) 69 ct = cover_header ctx counter nonce @ ct"
    if "length (cc_binding ctx) = 32" "length ct = 65421" for ct
    using that n by (simp add: cover_header_def wire_simps)
  have len: "length ct = 65421" if "aead_encrypt A key nonce (cell_plaintext c body) h = Some ct" "encodeContent c = Inr body" for key h ct body
    using aead_length [OF A that(1)] padded_read(4) [of body 65400 "[subtypeTag c]"] encodeContent_length [OF that(2)]
    by (simp add: cell_plaintext_def)
  show ?thesis
    using hd fr len pt encodeContent_length [of c]
    by (auto simp: sealCoverCell_def Let_def result_simps wire_geometry cover_sealed_def FRAME_TYPE_COVER_def
        cover_key_def cell_plaintext_def)
qed

section \<open>What is opened\<close>

definition counter_fresh :: "int option \<Rightarrow> int \<Rightarrow> bool" where
  "counter_fresh counterAbove counter \<longleftrightarrow> (\<forall>h. counterAbove = Some h \<longrightarrow> u64_ok h \<and> h < counter)"

lemma counter_check_iff:
  "(case above' of None \<Rightarrow> Inr () | Some h \<Rightarrow> rbind (cellRequireU64 h) (\<lambda>_. ensure (\<not> counter \<le> h) CellReplayedCounter)) = Inr u
     \<longleftrightarrow> counter_fresh above' counter"
  by (auto simp: counter_fresh_def result_simps split: option.splits)

lemma open_okD:
  assumes A: "aead_ok A" and r: "openCoverCell A ctx above' frame = Inr (c, counter)"
  shows "cover_sealed A ctx counter c (sub frame 57 69) frame \<and> length (sub frame 57 69) = 12 \<and> counter_fresh above' counter"
proof -
  obtain key pt where len: "length frame = 65490" "length (cc_binding ctx) = 32" "u64_ok (cc_keyEpoch ctx)"
    and tag: "frame ! 0 = 4" "sub frame 1 33 = cc_binding ctx" and res: "getU64 frame 41 = 0" "getU64 frame 49 = cc_keyEpoch ctx"
    and fresh: "counter_fresh above' (getU64 frame 33)" and key: "cover_key ctx = Inr key"
    and dec: "aead_decrypt A key (sub frame 57 69) (drop 69 frame) (sub frame 0 69) = Some pt"
    and pl: "getU32 pt 1 \<le> 65400" "or_all 0 (drop (5 + getU32 pt 1) pt) = 0"
    and co: "decodeContent (pt ! 0) (sub pt 5 (5 + getU32 pt 1)) = Inr c" and cnt: "counter = getU64 frame 33"
    using r by (auto simp: openCoverCell_def Let_def result_simps wire_geometry bytesEqual_iff counter_check_iff cover_key_def
        FRAME_TYPE_COVER_def RATCHET_DHPUB_LEN_def RATCHET_NONCE_LEN_def)
  have hd: "sub frame 0 69 = cover_header ctx counter (sub frame 57 69)" "frame = cover_header ctx counter (sub frame 57 69) @ drop 69 frame"
    using cell_header_read [of frame 4] len(1) tag res by (simp_all add: cover_header_def cnt)
  have enc: "aead_encrypt A key (sub frame 57 69) pt (cover_header ctx counter (sub frame 57 69)) = Some (drop 69 frame)"
    using dec aead_inverse [OF A] hd(1) by simp
  then have "length pt = 65405" using aead_length [OF A enc] len(1) by simp
  then have "pt = padded [pt ! 0] 65400 (sub pt 5 (5 + getU32 pt 1))"
    using padded_okD [of pt 1 65400 "getU32 pt 1"] pl by (cases pt) simp_all
  then have pt: "pt = cell_plaintext c (sub pt 5 (5 + getU32 pt 1))" "encodeContent c = Inr (sub pt 5 (5 + getU32 pt 1))"
    using co by (simp_all add: content_codec cell_plaintext_def)
  have "u64_ok counter" using getU64_ok [of 33 frame] len(1) by (simp add: cnt)
  moreover have "aead_encrypt A key (sub frame 57 69) (cell_plaintext c (sub pt 5 (5 + getU32 pt 1)))
      (cover_header ctx counter (sub frame 57 69)) = Some (drop 69 frame)" using enc pt(1) by simp
  ultimately have "cover_sealed A ctx counter c (sub frame 57 69) frame"
    unfolding cover_sealed_def using len key pt(2) hd(2) by blast
  then show ?thesis using fresh len(1) by (simp add: cnt)
qed

lemma open_sealed:
  assumes A: "aead_ok A" and s: "cover_sealed A ctx counter c nonce frame" and n: "length nonce = 12" and f: "counter_fresh above' counter"
  shows "openCoverCell A ctx above' frame = Inr (c, counter)"
proof -
  obtain body key ct where b: "length (cc_binding ctx) = 32" "u64_ok (cc_keyEpoch ctx)" "u64_ok counter"
    and e: "encodeContent c = Inr body" and k: "cover_key ctx = Inr key"
    and enc: "aead_encrypt A key nonce (cell_plaintext c body) (cover_header ctx counter nonce) = Some ct"
    and fr: "frame = cover_header ctx counter nonce @ ct"
    using s by (auto simp: cover_sealed_def)
  let ?pt = "cell_plaintext c body"
  have body: "length body \<le> 65400" using encodeContent_length [OF e] by simp
  have pt: "getU32 ?pt 1 = length body" "sub ?pt 5 (5 + length body) = body" "or_all 0 (drop (5 + length body) ?pt) = 0"
    "length ?pt = 65405" "?pt ! 0 = subtypeTag c"
    using padded_read [OF body, of "[subtypeTag c]"] by (simp_all add: cell_plaintext_def) (simp add: padded_def)
  have h: "frame ! 0 = 4" "sub frame 1 33 = cc_binding ctx" "sub frame 0 69 = cover_header ctx counter nonce" "sub frame 57 69 = nonce"
      "drop 69 frame = ct" "getU64 frame 41 = 0" "getU64 frame 33 = counter" "getU64 frame 49 = cc_keyEpoch ctx"
    using cell_header_fields [OF b(1) n] b(2,3) by (simp_all add: fr cover_header_def)
  have len: "length frame = 65490"
    using aead_length [OF A enc] pt(4) b(1) n by (simp add: fr cover_header_def)
  have dec: "aead_decrypt A key nonce ct (cover_header ctx counter nonce) = Some ?pt" using enc aead_inverse [OF A] by blast
  have "decodeContent (subtypeTag c) body = Inr c" using e by (simp add: content_codec)
  then show ?thesis
    unfolding openCoverCell_def
    using b k h len dec pt f counter_check_iff [where above' = above' and counter = counter and u = "()"] body
    by (simp add: result_simps wire_geometry bytesEqual_iff cover_key_def Let_def FRAME_TYPE_COVER_def
        RATCHET_DHPUB_LEN_def RATCHET_NONCE_LEN_def aead_results [THEN iffD2] del: aead_results)
qed

section \<open>A concrete cipher\<close>

text \<open>No encryption and a tag that repeats the key: enough to run the cells.\<close>

definition plain_tag :: "bytes \<Rightarrow> bytes" where
  "plain_tag k = take 16 (k @ zeros 16)"

definition plain_aead :: aead where
  "plain_aead =
     \<lparr>aead_encrypt = (\<lambda>k n p a. Some (p @ plain_tag k)),
      aead_decrypt = (\<lambda>k n c a. if length c \<ge> 16 \<and> drop (length c - 16) c = plain_tag k then Some (take (length c - 16) c) else None)\<rparr>"

lemma plain_aead_ok: "aead_ok plain_aead"
proof -
  have "c = take (length c - 16) c @ plain_tag k" if "drop (length c - 16) c = plain_tag k" for c k
    using that append_take_drop_id [of "length c - 16" c] by simp
  then show ?thesis by (auto simp: aead_ok_def plain_aead_def plain_tag_def)
qed

definition plain_context :: "unit cell_context" where
  "plain_context =
     \<lparr>cc_module = \<lparr>hkdf_sha512_extract = (\<lambda>a b. Some (take 32 (b @ a))), hkdf_sha512_expand = (\<lambda>n a b. Some (take n (a @ b))),
                   x25519_dh = (\<lambda>a p. None), x25519_keypair = (\<lambda>r. (None, r))\<rparr>,
      cc_rootSuite = RATCHET_ROOT_SUITE_MLKEM768, cc_rootKey = zeros 32, cc_binding = zeros 32,
      cc_direction = ''initiator-to-responder'', cc_keyEpoch = 7\<rparr>"

section \<open>Properties\<close>

text \<open>C18: the receiver of a cover cell accepts exactly the frames a sender with the same edge binding, direction,
  suite, epoch and root key sealed with some nonce, and reads back the content and the counter that
  were sealed; the counter has to exceed the highest one already accepted, when one is given. In
  particular every accepted frame has the one uniform length, a zero reserved field and canonical padding.\<close>

theorem cover_cell_exact:
  assumes "aead_ok A"
  shows "openCoverCell A ctx counterAbove frame = Inr (content, counter) \<longleftrightarrow>
    (\<exists>nonce. length nonce = 12 \<and> sealCoverCell A ctx counter content nonce = Inr frame) \<and> counter_fresh counterAbove counter"
  using assms open_okD [OF assms] open_sealed [OF assms] seal_iff [OF assms] by metis

theorem cover_cell_exact_witness:
  "\<exists>frame. sealCoverCell plain_aead plain_context 5 (CellCancel (zeros 64)) (zeros 12) = Inr frame \<and>
     openCoverCell plain_aead plain_context (Some 4) frame = Inr (CellCancel (zeros 64), 5)"
proof -
  have "is_ok (cover_key plain_context)" by code_simp
  then obtain key where k: "cover_key plain_context = Inr key" by (auto simp: is_ok_iff)
  then obtain frame where "cover_sealed plain_aead plain_context 5 (CellCancel (zeros 64)) (zeros 12) frame"
    by (auto simp: cover_sealed_def plain_context_def u64_ok_def MAX_U64_def plain_aead_def)
  then have "sealCoverCell plain_aead plain_context 5 (CellCancel (zeros 64)) (zeros 12) = Inr frame"
    by (simp add: seal_iff [OF plain_aead_ok])
  moreover have "counter_fresh (Some 4) 5" by (simp add: counter_fresh_def u64_ok_def MAX_U64_def)
  ultimately show ?thesis
    using cover_cell_exact [OF plain_aead_ok, of plain_context "Some 4" frame "CellCancel (zeros 64)" 5] length_zeros [of 12] by blast
qed

end
