(* ===== verification/Pq_Frame.thy ===== *)
theory Pq_Frame
  imports Cover_Cell
begin

text \<open>
  The sealed control frames of \<^verbatim>\<open>src/src/cryptography/pqHealingFrame.ts\<close>, which carry the healing records
  of \<open>Pq_Healing\<close> in the geometry of the cover cells. Shown: a frame opens exactly when it was
  sealed for the same edge, direction, suite, epoch and root, and gives the sealed record back.
\<close>

definition PQ_CONTROL_FRAME_HEADER_BYTES :: nat where
  [const_defs]: "PQ_CONTROL_FRAME_HEADER_BYTES =
     FRAME_TYPE_LEN + RATCHET_DHPUB_LEN + RATCHET_N_LEN + RATCHET_PN_LEN + PQ_EPOCH_LEN + RATCHET_NONCE_LEN"
definition PQ_CONTROL_FRAME_PLAINTEXT_BYTES :: nat where
  [const_defs]: "PQ_CONTROL_FRAME_PLAINTEXT_BYTES =
     WIRE_CHUNK_FRAME_LEN - PQ_CONTROL_FRAME_HEADER_BYTES - crypto_aead_chacha20poly1305_ietf_ABYTES"
definition RECORD_LENGTH_BYTES :: nat where [const_defs]: "RECORD_LENGTH_BYTES = 4"
definition CONTROL_KEY_DOMAIN :: bytes where "CONTROL_KEY_DOMAIN = ascii ''p2party/pq-control-frame/key/v1'' @ [0]"

datatype control_error =
    FrameAuthenticationFailed
  | FrameBindingMismatch
  | FrameEpochMismatch
  | FrameInvalidDirection
  | InvalidFrame
  | FrameInvalidPadding
  | RecordMismatch
  | FrameRecord pq_error
  | FrameKdfFailed ratchet_error

definition frameRequireBytes :: "bytes \<Rightarrow> nat \<Rightarrow> control_error + unit" where
  "frameRequireBytes value n = ensure (length value = n) InvalidFrame"

definition frameRequireU64 :: "int \<Rightarrow> control_error + unit" where
  "frameRequireU64 value = ensure (\<not> (value < 0 \<or> value > MAX_U64)) InvalidFrame"

definition directionTag :: "string \<Rightarrow> control_error + byte" where
  "directionTag direction =
     (if direction = ''initiator-to-responder'' then Inr 1
      else if direction = ''responder-to-initiator'' then Inr 2
      else Inl FrameInvalidDirection)"

definition frame_lift :: "pq_error + 'a \<Rightarrow> control_error + 'a" where
  "frame_lift r = (case r of Inl e \<Rightarrow> Inl (FrameRecord e) | Inr x \<Rightarrow> Inr x)"

definition frame_kdf :: "ratchet_error + 'a \<Rightarrow> control_error + 'a" where
  "frame_kdf r = (case r of Inl e \<Rightarrow> Inl (FrameKdfFailed e) | Inr x \<Rightarrow> Inr x)"

definition suiteTag :: "mlkem_suite \<Rightarrow> control_error + byte" where
  "suiteTag suite =
     rbind (frame_lift (getMlKemSuite (parameterSet suite))) (\<lambda>canonical.
     rbind (ensure (\<not> (standardName suite \<noteq> standardName canonical \<or> publicKeyBytes suite \<noteq> publicKeyBytes canonical \<or>
          secretKeyBytes suite \<noteq> secretKeyBytes canonical \<or> ciphertextBytes suite \<noteq> ciphertextBytes canonical \<or>
          sharedSecretBytes suite \<noteq> sharedSecretBytes canonical \<or>
          keyPairRandomBytes suite \<noteq> keyPairRandomBytes canonical \<or>
          encapsRandomBytes suite \<noteq> encapsRandomBytes canonical)) InvalidFrame) (\<lambda>_.
     if parameterSet suite = 768 then Inr 1
     else if parameterSet suite = 512 then Inr 2
     else if parameterSet suite = 1024 then Inr 3
     else Inl InvalidFrame))"

definition encodeU64 :: "int \<Rightarrow> bytes" where
  "encodeU64 value = set_at (zeros 8) 0 (be_enc 8 (nat value))"

definition frameKeyInfo :: "mlkem_suite \<Rightarrow> bytes \<Rightarrow> string \<Rightarrow> int \<Rightarrow> control_error + bytes" where
  "frameKeyInfo suite binding direction keyEpoch =
     rbind (suiteTag suite) (\<lambda>s. rbind (directionTag direction) (\<lambda>d.
     let k = length CONTROL_KEY_DOMAIN; epochBytes = encodeU64 keyEpoch;
         info = zeros (k + 1 + 1 + length binding + length epochBytes);
         info = set_at info 0 CONTROL_KEY_DOMAIN;
         info = set_at info k [s];
         info = set_at info (k + 1) [d];
         info = set_at info (k + 2) binding;
         info = set_at info (k + 2 + length binding) epochBytes
     in Inr info))"

definition deriveFrameKey :: "'r libcrypto \<Rightarrow> mlkem_suite \<Rightarrow> bytes \<Rightarrow> bytes \<Rightarrow> string \<Rightarrow> int \<Rightarrow> control_error + bytes" where
  "deriveFrameKey module suite root binding direction keyEpoch =
     rbind (frameRequireBytes root PQ_HEALING_ROOT_BYTES) (\<lambda>_.
     rbind (frameRequireBytes binding PQ_HEALING_BINDING_BYTES) (\<lambda>_.
     rbind (frameRequireU64 keyEpoch) (\<lambda>_.
     rbind (frameKeyInfo suite binding direction keyEpoch) (\<lambda>info.
     rbind (frame_kdf (hkdfExtract module root binding)) (\<lambda>prk.
     frame_kdf (hkdfExpand module prk info 32))))))"

fun inspected_fields :: "inspected_record \<Rightarrow> bytes \<times> int \<times> int" where
  "inspected_fields (InspectedOffer x b) = (b, senderCounter x, fromEpoch x)"
| "inspected_fields (InspectedAdvance a b) = (b, senderCounter a, fromEpoch a)"

text \<open>The counter and the epoch a control record belongs to.\<close>

definition inspectControlRecord :: "bytes \<Rightarrow> mlkem_suite \<Rightarrow> bytes \<Rightarrow> control_error + int \<times> int" where
  "inspectControlRecord record suite binding =
     (if length record = PQ_HEALING_ACK_BYTES then
        rbind (frame_lift (decodePqHealingAck record suite binding)) (\<lambda>ack. Inr (ack_advanceCounter ack, ack_epoch ack))
      else
        rbind (frame_lift (inspectPqHealingRecord record suite)) (\<lambda>inspected.
        case inspected_fields inspected of (b, counter, epoch) \<Rightarrow>
          rbind (ensure (bytesEqual b binding) FrameBindingMismatch) (\<lambda>_. Inr (counter, epoch))))"

definition frameSeal :: "aead \<Rightarrow> bytes \<Rightarrow> bytes \<Rightarrow> bytes \<Rightarrow> bytes \<Rightarrow> control_error + bytes" where
  "frameSeal A key nonce plaintext aad =
     (case aead_encrypt A key nonce plaintext aad of None \<Rightarrow> Inl InvalidFrame | Some c \<Rightarrow> Inr c)"

definition frameOpen :: "aead \<Rightarrow> bytes \<Rightarrow> bytes \<Rightarrow> bytes \<Rightarrow> bytes \<Rightarrow> control_error + bytes" where
  "frameOpen A key nonce sealed aad =
     (case aead_decrypt A key nonce sealed aad of None \<Rightarrow> Inl FrameAuthenticationFailed | Some p \<Rightarrow> Inr p)"

record 'r frame_context =
  fc_module :: "'r libcrypto"
  fc_suite :: mlkem_suite
  fc_rootKey :: bytes
  fc_binding :: bytes
  fc_direction :: string
  fc_keyEpoch :: int

definition sealPqControlFrame :: "aead \<Rightarrow> 'r frame_context \<Rightarrow> bytes \<Rightarrow> bytes \<Rightarrow> control_error + bytes" where
  "sealPqControlFrame A ctx record nonce =
     rbind (frameRequireBytes (fc_binding ctx) PQ_HEALING_BINDING_BYTES) (\<lambda>_.
     rbind (frameRequireU64 (fc_keyEpoch ctx)) (\<lambda>_.
     rbind (inspectControlRecord record (fc_suite ctx) (fc_binding ctx)) (\<lambda>(counter, epoch).
     rbind (ensure (epoch = fc_keyEpoch ctx) FrameEpochMismatch) (\<lambda>_.
     rbind (ensure (\<not> length record > PQ_CONTROL_FRAME_PLAINTEXT_BYTES - RECORD_LENGTH_BYTES) InvalidFrame) (\<lambda>_.
     let header = zeros PQ_CONTROL_FRAME_HEADER_BYTES;
         header = set_at header 0 [of_int FRAME_TYPE_PQ_CONTROL];
         header = set_at header BINDING_OFFSET (fc_binding ctx);
         header = setU64 header COUNTER_OFFSET counter;
         header = setU64 header EPOCH_OFFSET (fc_keyEpoch ctx);
         header = set_at header NONCE_OFFSET nonce;
         plaintext = zeros PQ_CONTROL_FRAME_PLAINTEXT_BYTES;
         plaintext = set_at plaintext 0 (be_enc 4 (length record));
         plaintext = set_at plaintext RECORD_LENGTH_BYTES record
     in rbind (deriveFrameKey (fc_module ctx) (fc_suite ctx) (fc_rootKey ctx) (fc_binding ctx) (fc_direction ctx)
                 (fc_keyEpoch ctx)) (\<lambda>key.
        rbind (frameSeal A key nonce plaintext header) (\<lambda>sealed.
        let frame = zeros WIRE_CHUNK_FRAME_LEN;
            frame = set_at frame 0 header
        in Inr (set_at frame PQ_CONTROL_FRAME_HEADER_BYTES sealed))))))))"

definition openPqControlFrame :: "aead \<Rightarrow> 'r frame_context \<Rightarrow> bytes \<Rightarrow> control_error + bytes" where
  "openPqControlFrame A ctx frame =
     rbind (frameRequireBytes frame WIRE_CHUNK_FRAME_LEN) (\<lambda>_.
     rbind (frameRequireBytes (fc_binding ctx) PQ_HEALING_BINDING_BYTES) (\<lambda>_.
     rbind (frameRequireU64 (fc_keyEpoch ctx)) (\<lambda>_.
     rbind (ensure (frame ! 0 = of_int FRAME_TYPE_PQ_CONTROL) InvalidFrame) (\<lambda>_.
     rbind (ensure (bytesEqual (sub frame BINDING_OFFSET (BINDING_OFFSET + RATCHET_DHPUB_LEN)) (fc_binding ctx))
              FrameBindingMismatch) (\<lambda>_.
     let header = sub frame 0 PQ_CONTROL_FRAME_HEADER_BYTES;
         headerCounter = getU64 frame COUNTER_OFFSET
     in rbind (ensure (getU64 frame RESERVED_OFFSET = 0) InvalidFrame) (\<lambda>_.
        rbind (ensure (getU64 frame EPOCH_OFFSET = fc_keyEpoch ctx) FrameEpochMismatch) (\<lambda>_.
        rbind (deriveFrameKey (fc_module ctx) (fc_suite ctx) (fc_rootKey ctx) (fc_binding ctx) (fc_direction ctx)
                 (fc_keyEpoch ctx)) (\<lambda>key.
        rbind (frameOpen A key (sub frame NONCE_OFFSET (NONCE_OFFSET + RATCHET_NONCE_LEN))
                 (drop PQ_CONTROL_FRAME_HEADER_BYTES frame) header) (\<lambda>plaintext.
        let recordLength = getU32 plaintext 0;
            paddingOffset = RECORD_LENGTH_BYTES + recordLength
        in rbind (ensure (\<not> (recordLength = 0 \<or> recordLength > PQ_CONTROL_FRAME_PLAINTEXT_BYTES - RECORD_LENGTH_BYTES))
                    FrameInvalidPadding) (\<lambda>_.
           rbind (ensure (or_all 0 (drop paddingOffset plaintext) = 0) FrameInvalidPadding) (\<lambda>_.
           let record = sub plaintext RECORD_LENGTH_BYTES paddingOffset
           in rbind (inspectControlRecord record (fc_suite ctx) (fc_binding ctx)) (\<lambda>(counter, epoch).
              rbind (ensure (epoch = fc_keyEpoch ctx) FrameEpochMismatch) (\<lambda>_.
              rbind (ensure (counter = headerCounter) RecordMismatch) (\<lambda>_.
              Inr record))))))))))))))"

section \<open>Sealing\<close>

lemma frame_geometry [simp]:
  "PQ_CONTROL_FRAME_HEADER_BYTES = 69" "PQ_CONTROL_FRAME_PLAINTEXT_BYTES = 65405" "RECORD_LENGTH_BYTES = 4"
  by (simp_all add: const_defs)

lemma frameRequire_iff [simp]:
  "frameRequireBytes v n = Inr u \<longleftrightarrow> length v = n" "frameRequireU64 x = Inr u \<longleftrightarrow> u64_ok x"
  by (auto simp: frameRequireBytes_def frameRequireU64_def u64_ok_def)

lemma frameRequire_ok [simp]:
  "length v = n \<Longrightarrow> frameRequireBytes v n = Inr ()" "u64_ok x \<Longrightarrow> frameRequireU64 x = Inr ()"
  by simp_all

lemma frame_aead_results [simp]:
  "frameSeal A k n p a = Inr x \<longleftrightarrow> aead_encrypt A k n p a = Some x"
  "frameOpen A k n w a = Inr x \<longleftrightarrow> aead_decrypt A k n w a = Some x"
  by (simp_all add: frameSeal_def frameOpen_def split: option.splits)

lemma frame_lift_iff [simp]: "frame_lift r = Inr x \<longleftrightarrow> r = Inr x"
  by (simp add: frame_lift_def split: sum.splits)

lemma decodeHeader_u64: "decodeHeader r ty s b = Inr h \<Longrightarrow> u64_ok (senderCounter h) \<and> u64_ok (fromEpoch h) \<and> 64 \<le> length r"
  using getU64_ok [of 40 r] getU64_ok [of 48 r]
  by (auto simp: decodeHeader_def result_simps Let_def PQ_HEALING_RECORD_HEADER_BYTES_def)

lemma inspect_fields_u64:
  "inspectPqHealingRecord r s = Inr i \<Longrightarrow> inspected_fields i = (b, counter, epoch) \<Longrightarrow> u64_ok counter \<and> u64_ok epoch \<and> 64 \<le> length r"
  by (auto simp: inspectPqHealingRecord_def result_simps decodeOffer_def decodeAdvance_def Let_def
      split: if_splits dest!: decodeHeader_u64)

lemma inspected_u64:
  assumes "inspectControlRecord r s b = Inr (counter, epoch)"
  shows "u64_ok counter \<and> u64_ok epoch \<and> 64 \<le> length r"
proof (cases "length r = 64")
  case True
  then show ?thesis using assms by (auto simp: inspectControlRecord_def result_simps decodeAck_iff ack_ok_def PQ_HEALING_ACK_BYTES_def)
next
  case False
  then obtain i where i: "inspectPqHealingRecord r s = Inr i"
    using assms by (auto simp: inspectControlRecord_def result_simps PQ_HEALING_ACK_BYTES_def)
  obtain b' c e where f: "inspected_fields i = (b', c, e)" by (cases "inspected_fields i") auto
  with i have "c = counter" "e = epoch" using assms False
    by (auto simp: inspectControlRecord_def result_simps PQ_HEALING_ACK_BYTES_def frame_lift_def)
  then show ?thesis using inspect_fields_u64 [OF i f] by simp
qed

definition control_header :: "'r frame_context \<Rightarrow> int \<Rightarrow> bytes \<Rightarrow> bytes" where
  "control_header ctx counter nonce = cell_header 5 (fc_binding ctx) counter (fc_keyEpoch ctx) nonce"

definition control_key :: "'r frame_context \<Rightarrow> control_error + bytes" where
  "control_key ctx = deriveFrameKey (fc_module ctx) (fc_suite ctx) (fc_rootKey ctx) (fc_binding ctx) (fc_direction ctx) (fc_keyEpoch ctx)"

definition control_sealed :: "aead \<Rightarrow> 'r frame_context \<Rightarrow> bytes \<Rightarrow> bytes \<Rightarrow> bytes \<Rightarrow> bool" where
  "control_sealed A ctx record nonce frame \<longleftrightarrow>
     length (fc_binding ctx) = 32 \<and> u64_ok (fc_keyEpoch ctx) \<and> length record \<le> 65401 \<and>
     (\<exists>counter key ct. inspectControlRecord record (fc_suite ctx) (fc_binding ctx) = Inr (counter, fc_keyEpoch ctx) \<and>
        control_key ctx = Inr key \<and>
        aead_encrypt A key nonce (padded [] 65401 record) (control_header ctx counter nonce) = Some ct \<and>
        frame = control_header ctx counter nonce @ ct)"

lemma frame_seal_iff:
  assumes A: "aead_ok A" and n: "length nonce = 12"
  shows "sealPqControlFrame A ctx record nonce = Inr frame \<longleftrightarrow> control_sealed A ctx record nonce frame"
proof -
  have pt: "set_at (set_at (zeros 65405) 0 (be_enc 4 (length record))) 4 record = padded [] 65401 record" if "length record \<le> 65401"
    using padded_written [OF that, of "[]"] by simp
  have hd: "set_at (setU64 (setU64 (set_at (set_at (zeros 69) 0 [5]) 1 (fc_binding ctx)) 33 counter) 49 (fc_keyEpoch ctx)) 57 nonce =
      control_header ctx counter nonce" if "length (fc_binding ctx) = 32" for counter
    using cell_header_written [OF that n] by (simp add: control_header_def)
  have fr: "set_at (set_at (zeros 65490) 0 (control_header ctx counter nonce)) 69 ct = control_header ctx counter nonce @ ct"
    if "length (fc_binding ctx) = 32" "length ct = 65421" for counter ct
    using that n by (simp add: control_header_def wire_simps)
  have len: "length ct = 65421" if "aead_encrypt A key nonce (padded [] 65401 record) h = Some ct" "length record \<le> 65401" for key h ct
    using aead_length [OF A that(1)] padded_read(4) [OF that(2), of "[]"] by simp
  show ?thesis
    using hd fr len pt
    by (auto simp: sealPqControlFrame_def Let_def result_simps wire_geometry control_sealed_def FRAME_TYPE_PQ_CONTROL_def
        control_key_def PQ_HEALING_BINDING_BYTES_def)
qed

section \<open>Opening\<close>

lemma frame_open_okD:
  assumes A: "aead_ok A" and r: "openPqControlFrame A ctx frame = Inr record"
  shows "control_sealed A ctx record (sub frame 57 69) frame \<and> length (sub frame 57 69) = 12"
proof -
  obtain key pt where len: "length frame = 65490" "length (fc_binding ctx) = 32" "u64_ok (fc_keyEpoch ctx)"
    and tag: "frame ! 0 = 5" "sub frame 1 33 = fc_binding ctx" and res: "getU64 frame 41 = 0" "getU64 frame 49 = fc_keyEpoch ctx"
    and key: "control_key ctx = Inr key"
    and dec: "aead_decrypt A key (sub frame 57 69) (drop 69 frame) (sub frame 0 69) = Some pt"
    and pl: "getU32 pt 0 \<le> 65401" "or_all 0 (drop (4 + getU32 pt 0) pt) = 0"
    and rec: "record = sub pt 4 (4 + getU32 pt 0)"
      "inspectControlRecord record (fc_suite ctx) (fc_binding ctx) = Inr (getU64 frame 33, fc_keyEpoch ctx)"
    using r by (auto simp: openPqControlFrame_def Let_def result_simps wire_geometry bytesEqual_iff control_key_def
        FRAME_TYPE_PQ_CONTROL_def RATCHET_DHPUB_LEN_def RATCHET_NONCE_LEN_def PQ_HEALING_BINDING_BYTES_def)
  let ?h = "control_header ctx (getU64 frame 33) (sub frame 57 69)"
  have hd: "sub frame 0 69 = ?h" "frame = ?h @ drop 69 frame"
    using cell_header_read [of frame 5] len(1) tag res by (simp_all add: control_header_def)
  have enc: "aead_encrypt A key (sub frame 57 69) pt ?h = Some (drop 69 frame)"
    using dec aead_inverse [OF A] hd(1) by simp
  then have "length pt = 65405" using aead_length [OF A enc] len(1) by simp
  then have "pt = padded [] 65401 record" "length record \<le> 65401"
    using padded_okD [of pt 0 65401 "getU32 pt 0"] pl by (simp_all add: rec(1))
  then have "control_sealed A ctx record (sub frame 57 69) frame"
    unfolding control_sealed_def using len key rec(2) hd(2) enc by blast
  then show ?thesis using len(1) by simp
qed

lemma frame_open_sealed:
  assumes A: "aead_ok A" and s: "control_sealed A ctx record nonce frame" and n: "length nonce = 12"
  shows "openPqControlFrame A ctx frame = Inr record"
proof -
  obtain counter key ct where b: "length (fc_binding ctx) = 32" "u64_ok (fc_keyEpoch ctx)" "length record \<le> 65401"
    and i: "inspectControlRecord record (fc_suite ctx) (fc_binding ctx) = Inr (counter, fc_keyEpoch ctx)" and k: "control_key ctx = Inr key"
    and enc: "aead_encrypt A key nonce (padded [] 65401 record) (control_header ctx counter nonce) = Some ct"
    and fr: "frame = control_header ctx counter nonce @ ct"
    using s by (auto simp: control_sealed_def)
  let ?pt = "padded [] 65401 record"
  have c: "u64_ok counter" "record \<noteq> []" using inspected_u64 [OF i] by auto
  have pt: "getU32 ?pt 0 = length record" "sub ?pt 4 (4 + length record) = record" "or_all 0 (drop (4 + length record) ?pt) = 0"
    "length ?pt = 65405"
    using padded_read [OF b(3), of "[]"] by simp_all
  have h: "frame ! 0 = 5" "sub frame 1 33 = fc_binding ctx" "sub frame 0 69 = control_header ctx counter nonce" "sub frame 57 69 = nonce"
      "drop 69 frame = ct" "getU64 frame 41 = 0" "getU64 frame 33 = counter" "getU64 frame 49 = fc_keyEpoch ctx"
    using cell_header_fields [OF b(1) n] b(2) c(1) by (simp_all add: fr control_header_def)
  have len: "length frame = 65490"
    using aead_length [OF A enc] pt(4) b(1) n by (simp add: fr control_header_def)
  have dec: "aead_decrypt A key nonce ct (control_header ctx counter nonce) = Some ?pt" using enc aead_inverse [OF A] by blast
  show ?thesis
    unfolding openPqControlFrame_def
    using b k h len dec pt i c(2)
    by (simp add: result_simps wire_geometry bytesEqual_iff control_key_def Let_def FRAME_TYPE_PQ_CONTROL_def
        RATCHET_DHPUB_LEN_def RATCHET_NONCE_LEN_def PQ_HEALING_BINDING_BYTES_def frame_aead_results [THEN iffD2] del: frame_aead_results)
qed

section \<open>Properties\<close>

definition plain_frame_context :: "unit frame_context" where
  "plain_frame_context =
     \<lparr>fc_module = cc_module plain_context, fc_suite = ML_KEM_512_SUITE, fc_rootKey = zeros 32, fc_binding = zeros 32,
      fc_direction = ''responder-to-initiator'', fc_keyEpoch = 0\<rparr>"

text \<open>C19: the receiver of a post-quantum control frame accepts exactly the frames a sender with the same edge
  binding, direction, suite, epoch and root key sealed with some nonce, and gets back the sealed record:
  a canonical OFFER, ADVANCE or acknowledgement of this edge whose epoch and counter are those of the
  clear header.\<close>

theorem control_frame_exact:
  assumes "aead_ok A"
  shows "openPqControlFrame A ctx frame = Inr record \<longleftrightarrow>
    (\<exists>nonce. length nonce = 12 \<and> sealPqControlFrame A ctx record nonce = Inr frame)"
  using frame_open_okD [OF assms] frame_open_sealed [OF assms] frame_seal_iff [OF assms] by metis

theorem control_frame_exact_witness:
  "\<exists>record frame. encodePqHealingAck \<lparr>ack_epoch = 0, ack_advanceCounter = 3\<rparr> ML_KEM_512_SUITE (zeros 32) = Inr record \<and>
     sealPqControlFrame plain_aead plain_frame_context record (zeros 12) = Inr frame \<and>
     openPqControlFrame plain_aead plain_frame_context frame = Inr record"
proof -
  let ?k = "\<lparr>ack_epoch = 0, ack_advanceCounter = 3\<rparr>"
  let ?r = "ack_layout ML_KEM_512_SUITE (zeros 32) ?k"
  have "assertCanonicalSuite ML_KEM_512_SUITE = Inr ()" by code_simp
  then have ok: "ack_ok ML_KEM_512_SUITE (zeros 32) ?k" by (simp add: ack_ok_def assertCanonicalSuite_iff u64_ok_def MAX_U64_def)
  have "is_ok (control_key plain_frame_context)" by code_simp
  then obtain key where k: "control_key plain_frame_context = Inr key" by (auto simp: is_ok_iff)
  have len: "length ?r = 64" by (simp add: ack_layout_def length_header)
  have "inspectControlRecord ?r ML_KEM_512_SUITE (zeros 32) = Inr (3, 0)"
    using ok len by (simp add: inspectControlRecord_def PQ_HEALING_ACK_BYTES_def decodeAck_iff [THEN iffD2] frame_lift_def)
  then obtain frame where "control_sealed plain_aead plain_frame_context ?r (zeros 12) frame"
    using k len by (auto simp: control_sealed_def plain_frame_context_def u64_ok_def MAX_U64_def plain_aead_def)
  then have "sealPqControlFrame plain_aead plain_frame_context ?r (zeros 12) = Inr frame"
    by (simp add: frame_seal_iff [OF plain_aead_ok])
  then show ?thesis
    using control_frame_exact [OF plain_aead_ok, of plain_frame_context frame ?r] length_zeros [of 12] ok encodeAck_iff by blast
qed

end
