(* ===== verification/Message_Key.thy ===== *)
theory Message_Key
  imports Pq_Frame
begin

text \<open>
  The hybrid message key of \<^verbatim>\<open>src/src/cryptography/pqMessageKey.ts\<close>: a Double-Ratchet message key combined
  with the root of the current post-quantum epoch. The function consumes the classical key, so the
  buffer it leaves behind is part of its result. With the cover cells and the control frames this is
  the third user of the epoch root; shown: no two uses share a key-derivation context.
\<close>

record pq_message_context =
  pm_rootKey :: bytes
  pm_binding :: bytes
  pm_rootSuite :: string
  pm_epoch :: int

datatype message_key_error =
    AliasedRoot
  | UnsupportedRootSuite
  | WrongKeyLength
  | CounterOutsideRange
  | EpochOutsideRange
  | SuiteTooLong
  | MessageKdfFailed ratchet_error

definition PQ_MESSAGE_KEY_BYTES :: nat where [const_defs]: "PQ_MESSAGE_KEY_BYTES = 32"
definition PQ_MESSAGE_KEY_ROOT_BYTES :: nat where [const_defs]: "PQ_MESSAGE_KEY_ROOT_BYTES = 32"
definition PQ_MESSAGE_KEY_BINDING_BYTES :: nat where [const_defs]: "PQ_MESSAGE_KEY_BINDING_BYTES = 32"
definition MESSAGE_KEY_DOMAIN :: bytes where "MESSAGE_KEY_DOMAIN = ascii ''p2party/pq-message-key/v1'' @ [0]"

definition mkRequireBytes :: "bytes \<Rightarrow> nat \<Rightarrow> message_key_error + unit" where
  "mkRequireBytes value n = ensure (length value = n) WrongKeyLength"

definition requireCounter :: "int \<Rightarrow> message_key_error + unit" where
  "requireCounter value = ensure (\<not> (\<not> is_safe_integer value \<or> value < 0)) CounterOutsideRange"

definition requireEpoch :: "int \<Rightarrow> message_key_error + unit" where
  "requireEpoch value = ensure (\<not> (value < 0 \<or> value > MAX_U64)) EpochOutsideRange"

text \<open>A view: the buffer it looks into, its offset and its length.\<close>

record view =
  v_buffer :: nat
  v_byteOffset :: nat
  v_byteLength :: nat

definition viewsOverlap :: "view \<Rightarrow> view \<Rightarrow> bool" where
  "viewsOverlap a b \<longleftrightarrow> v_buffer a = v_buffer b \<and> v_byteOffset a < v_byteOffset b + v_byteLength b \<and>
     v_byteOffset b < v_byteOffset a + v_byteLength a"

definition encodeInfo :: "pq_message_context \<Rightarrow> ratchet_header \<Rightarrow> message_key_error + bytes" where
  "encodeInfo context header =
     rbind (ensure (isRatchetRootSuite (pm_rootSuite context)) UnsupportedRootSuite) (\<lambda>_.
     rbind (mkRequireBytes (pm_rootKey context) PQ_MESSAGE_KEY_ROOT_BYTES) (\<lambda>_.
     rbind (mkRequireBytes (pm_binding context) PQ_MESSAGE_KEY_BINDING_BYTES) (\<lambda>_.
     rbind (requireEpoch (pm_epoch context)) (\<lambda>_.
     rbind (mkRequireBytes (dhPub header) RATCHET_DHPUB_LEN) (\<lambda>_.
     rbind (requireCounter (N header)) (\<lambda>_.
     rbind (requireCounter (PN header)) (\<lambda>_.
     let suite = ascii (pm_rootSuite context)
     in rbind (ensure (\<not> length suite > 65535) SuiteTooLong) (\<lambda>_.
        let info = zeros (length MESSAGE_KEY_DOMAIN + 2 + length suite + PQ_MESSAGE_KEY_BINDING_BYTES + 8 + 1 + RATCHET_DHPUB_LEN + 8 + 8);
            offset = 0;
            info = set_at info offset MESSAGE_KEY_DOMAIN;
            offset = offset + length MESSAGE_KEY_DOMAIN;
            info = set_at info offset (be_enc 2 (length suite));
            offset = offset + 2;
            info = set_at info offset suite;
            offset = offset + length suite;
            info = set_at info offset (pm_binding context);
            offset = offset + PQ_MESSAGE_KEY_BINDING_BYTES;
            info = setU64 info offset (pm_epoch context);
            offset = offset + 8;
            info = set_at info offset [of_int FRAME_TYPE_CHUNK];
            offset = offset + 1;
            info = set_at info offset (dhPub header);
            offset = offset + RATCHET_DHPUB_LEN;
            info = setU64 info offset (N header);
            offset = offset + 8
        in Inr (setU64 info offset (PN header))))))))))"

definition mk_kdf :: "ratchet_error + 'a \<Rightarrow> message_key_error + 'a" where
  "mk_kdf r = (case r of Inl e \<Rightarrow> Inl (MessageKdfFailed e) | Inr x \<Rightarrow> Inr x)"

definition combinePqMessageKey ::
    "bytes \<Rightarrow> view \<Rightarrow> pq_message_context \<Rightarrow> view \<Rightarrow> ratchet_header \<Rightarrow> 'r libcrypto \<Rightarrow> (message_key_error + bytes) \<times> bytes" where
  "combinePqMessageKey classicalMessageKey keyView context rootView header module =
     (if viewsOverlap keyView rootView then (Inl AliasedRoot, classicalMessageKey)
      else
        (rbind (mkRequireBytes classicalMessageKey PQ_MESSAGE_KEY_BYTES) (\<lambda>_.
         rbind (encodeInfo context header) (\<lambda>info.
         rbind (mk_kdf (hkdfExtract module (pm_rootKey context) classicalMessageKey)) (\<lambda>prk.
         mk_kdf (hkdfExpand module prk info PQ_MESSAGE_KEY_BYTES)))),
         wipe classicalMessageKey))"

section \<open>The contexts as byte strings\<close>

definition message_info :: "string \<Rightarrow> bytes \<Rightarrow> int \<Rightarrow> ratchet_header \<Rightarrow> bytes" where
  "message_info suite binding epoch h = MESSAGE_KEY_DOMAIN @ be_enc 2 (length suite) @ ascii suite @ binding @
     be_enc 8 (nat epoch) @ [2] @ dhPub h @ be_enc 8 (nat (N h)) @ be_enc 8 (nat (PN h))"

definition header_ok :: "ratchet_header \<Rightarrow> bool" where
  "header_ok h \<longleftrightarrow> length (dhPub h) = 32 \<and> 0 \<le> N h \<and> N h \<le> MAX_SAFE_INTEGER \<and> 0 \<le> PN h \<and> PN h \<le> MAX_SAFE_INTEGER"

lemma length_ascii [simp]: "length (ascii s) = length s"
  by (simp add: ascii_def)

lemma suite_lengths: "isRatchetRootSuite s \<Longrightarrow> length s \<le> 31"
  by (auto simp: isRatchetRootSuite_def RATCHET_ROOT_SUITES_def RATCHET_ROOT_SUITE_MLKEM512_def
      RATCHET_ROOT_SUITE_MLKEM768_def RATCHET_ROOT_SUITE_MLKEM1024_def)

lemma encodeInfo_iff:
  "encodeInfo c h = Inr info \<longleftrightarrow> isRatchetRootSuite (pm_rootSuite c) \<and> length (pm_rootKey c) = 32 \<and> length (pm_binding c) = 32 \<and>
     u64_ok (pm_epoch c) \<and> header_ok h \<and> info = message_info (pm_rootSuite c) (pm_binding c) (pm_epoch c) h"
  using suite_lengths [of "pm_rootSuite c"]
  by (auto simp: encodeInfo_def Let_def result_simps mkRequireBytes_def requireEpoch_def requireCounter_def is_safe_integer_def
      u64_ok_def header_ok_def message_info_def wire_simps setU64_def const_defs)

lemma key_infos:
  assumes "length binding = 32"
  shows "cellKeyInfo suite binding direction epoch = Inr info \<longleftrightarrow>
     (\<exists>s d. cellSuiteTag suite = Inr s \<and> cellDirectionTag direction = Inr d \<and>
        info = COVER_KEY_DOMAIN @ [s, d] @ binding @ be_enc 8 (nat epoch))"
    "frameKeyInfo ksuite binding direction epoch = Inr info \<longleftrightarrow>
     (\<exists>s d. suiteTag ksuite = Inr s \<and> directionTag direction = Inr d \<and>
        info = CONTROL_KEY_DOMAIN @ [s, d] @ binding @ be_enc 8 (nat epoch))"
  using assms by (auto simp: cellKeyInfo_def frameKeyInfo_def result_simps Let_def encodeU64_def wire_simps)

section \<open>Uses of an epoch root\<close>

datatype key_use =
    CoverUse string string bytes int
  | ControlUse mlkem_suite string bytes int
  | MessageUse string bytes int ratchet_header

text \<open>The context string of a use, when the code derives a key for it.\<close>

fun key_info :: "bytes \<Rightarrow> key_use \<Rightarrow> bytes option" where
  "key_info root (CoverUse suite direction binding epoch) =
     (if length root = 32 \<and> length binding = 32 \<and> u64_ok epoch then ok_of (cellKeyInfo suite binding direction epoch) else None)"
| "key_info root (ControlUse suite direction binding epoch) =
     (if length root = 32 \<and> length binding = 32 \<and> u64_ok epoch then ok_of (frameKeyInfo suite binding direction epoch) else None)"
| "key_info root (MessageUse suite binding epoch header) =
     ok_of (encodeInfo \<lparr>pm_rootKey = root, pm_binding = binding, pm_rootSuite = suite, pm_epoch = epoch\<rparr> header)"

lemma key_domains_differ:
  "take 12 COVER_KEY_DOMAIN \<noteq> take 12 CONTROL_KEY_DOMAIN" "take 12 COVER_KEY_DOMAIN \<noteq> take 12 MESSAGE_KEY_DOMAIN"
  "take 12 CONTROL_KEY_DOMAIN \<noteq> take 12 MESSAGE_KEY_DOMAIN"
  "12 \<le> length COVER_KEY_DOMAIN" "12 \<le> length CONTROL_KEY_DOMAIN" "12 \<le> length MESSAGE_KEY_DOMAIN"
  by code_simp+

lemma domain_clash:
  assumes "a @ x = b @ y" "12 \<le> length a" "12 \<le> length b" shows "take 12 a = take 12 b"
  using arg_cong [OF assms(1), of "take 12"] assms(2,3) by simp

lemma tag_injective:
  "cellSuiteTag s = Inr t \<Longrightarrow> cellSuiteTag s' = Inr t \<Longrightarrow> s = s'" "cellDirectionTag d = Inr t \<Longrightarrow> cellDirectionTag d' = Inr t \<Longrightarrow> d = d'"
  "directionTag d = Inr t \<Longrightarrow> directionTag d' = Inr t \<Longrightarrow> d = d'"
  by (auto simp: cellSuiteTag_def cellDirectionTag_def directionTag_def split: if_splits)

lemma suiteTag_iff: "suiteTag k = Inr t \<longleftrightarrow> k = ML_KEM_768_SUITE \<and> t = 1 \<or> k = ML_KEM_512_SUITE \<and> t = 2 \<or> k = ML_KEM_1024_SUITE \<and> t = 3"
  by (cases k) (auto simp: suiteTag_def result_simps frame_lift_def getMlKemSuite_def ML_KEM_512_SUITE_def ML_KEM_768_SUITE_def
      ML_KEM_1024_SUITE_def split: if_splits)

lemma u64_injective: "be_enc 8 (nat e) = be_enc 8 (nat e') \<Longrightarrow> u64_ok e \<Longrightarrow> u64_ok e' \<Longrightarrow> e = e'"
  by (metis u64_back)

lemma ascii_injective: "ascii s = ascii t \<Longrightarrow> isRatchetRootSuite s \<Longrightarrow> isRatchetRootSuite t \<Longrightarrow> s = t"
proof -
  have "distinct (map ascii RATCHET_ROOT_SUITES)" by code_simp
  then have "inj_on ascii (set RATCHET_ROOT_SUITES)" by (simp add: distinct_map)
  then show "ascii s = ascii t \<Longrightarrow> isRatchetRootSuite s \<Longrightarrow> isRatchetRootSuite t \<Longrightarrow> s = t"
    by (simp add: inj_on_def isRatchetRootSuite_def)
qed

lemma counter_u64: "0 \<le> n \<Longrightarrow> n \<le> MAX_SAFE_INTEGER \<Longrightarrow> u64_ok n"
  by (simp add: u64_ok_def MAX_U64_def MAX_SAFE_INTEGER_def)

lemma message_info_injective:
  assumes eq: "message_info s b e h = message_info s' b' e' h'"
    and "isRatchetRootSuite s" "isRatchetRootSuite s'" "length b = 32" "length b' = 32" "u64_ok e" "u64_ok e'" "header_ok h" "header_ok h'"
  shows "s = s' \<and> b = b' \<and> e = e' \<and> h = h'"
proof -
  have l: "be_enc 2 (length s) = be_enc 2 (length s')" and r: "ascii s @ b @ be_enc 8 (nat e) @ [2] @ dhPub h @ be_enc 8 (nat (N h)) @ be_enc 8 (nat (PN h)) =
      ascii s' @ b' @ be_enc 8 (nat e') @ [2] @ dhPub h' @ be_enc 8 (nat (N h')) @ be_enc 8 (nat (PN h'))"
    using eq by (simp_all add: message_info_def)
  have "length s < 256 ^ 2" "length s' < 256 ^ 2" using suite_lengths [OF assms(2)] suite_lengths [OF assms(3)] by simp_all
  then have "length s = length s'" using l by (metis be_dec_enc)
  then have s: "ascii s = ascii s'" and "b @ be_enc 8 (nat e) @ [2] @ dhPub h @ be_enc 8 (nat (N h)) @ be_enc 8 (nat (PN h)) =
      b' @ be_enc 8 (nat e') @ [2] @ dhPub h' @ be_enc 8 (nat (N h')) @ be_enc 8 (nat (PN h'))"
    using r by (simp_all only: append_eq_append_conv length_ascii simp_thms)
  then have b: "b = b'" and "be_enc 8 (nat e) @ [2] @ dhPub h @ be_enc 8 (nat (N h)) @ be_enc 8 (nat (PN h)) =
      be_enc 8 (nat e') @ [2] @ dhPub h' @ be_enc 8 (nat (N h')) @ be_enc 8 (nat (PN h'))"
    using assms(4,5) by (simp_all only: append_eq_append_conv simp_thms)
  then have e: "be_enc 8 (nat e) = be_enc 8 (nat e')" and "[2] @ dhPub h @ be_enc 8 (nat (N h)) @ be_enc 8 (nat (PN h)) =
      [2] @ dhPub h' @ be_enc 8 (nat (N h')) @ be_enc 8 (nat (PN h'))"
    by (simp_all only: append_eq_append_conv length_be_enc simp_thms)
  then have d: "dhPub h = dhPub h'" and n: "be_enc 8 (nat (N h)) = be_enc 8 (nat (N h'))" and p: "be_enc 8 (nat (PN h)) = be_enc 8 (nat (PN h'))"
    using assms(8,9) unfolding header_ok_def by (simp_all only: append_eq_append_conv length_be_enc simp_thms append_Cons append_Nil list.inject)
  note s b e d n p
  then show ?thesis
    using ascii_injective [OF _ assms(2,3)] u64_injective counter_u64 assms(6-9) by (cases h; cases h') (auto simp: header_ok_def)
qed

section \<open>Properties\<close>

text \<open>C20: the three uses the program makes of an epoch root key (cover cells, post-quantum control frames and hybrid
  message keys) never share a key-derivation context: two uses whose HKDF context strings coincide are
  the same use, with the same suite, direction, edge binding, epoch and message header.\<close>

theorem key_contexts_separated:
  assumes "key_info root u = Some info" "key_info root' v = Some info"
  shows "u = v"
proof (cases u; cases v)
  fix s d b e s' d' b' e'
  assume uv: "u = CoverUse s d b e" "v = CoverUse s' d' b' e'"
  then show ?thesis using assms by (auto simp: key_infos split: if_splits dest: tag_injective u64_injective)
next
  fix s d b e s' d' b' e'
  assume uv: "u = ControlUse s d b e" "v = ControlUse s' d' b' e'"
  then show ?thesis using assms by (auto simp: key_infos suiteTag_iff split: if_splits dest: tag_injective u64_injective)
next
  fix s b e h s' b' e' h'
  assume uv: "u = MessageUse s b e h" "v = MessageUse s' b' e' h'"
  then show ?thesis using assms message_info_injective [of s b e h s' b' e' h'] by (auto simp: encodeInfo_iff)
qed (use assms key_domains_differ in \<open>auto simp: key_infos encodeInfo_iff message_info_def split: if_splits dest!: domain_clash\<close>)

theorem key_contexts_separated_witness:
  "\<exists>info info'. key_info (zeros 32) (CoverUse RATCHET_ROOT_SUITE_MLKEM768 ''initiator-to-responder'' (zeros 32) 1) = Some info \<and>
     key_info (zeros 32) (CoverUse RATCHET_ROOT_SUITE_MLKEM768 ''responder-to-initiator'' (zeros 32) 1) = Some info' \<and> info \<noteq> info'"
proof -
  let ?u = "CoverUse RATCHET_ROOT_SUITE_MLKEM768 ''initiator-to-responder'' (zeros 32) 1"
  let ?v = "CoverUse RATCHET_ROOT_SUITE_MLKEM768 ''responder-to-initiator'' (zeros 32) 1"
  have "key_info (zeros 32) ?u \<noteq> None" "key_info (zeros 32) ?v \<noteq> None" by code_simp+
  then obtain i j where "key_info (zeros 32) ?u = Some i" "key_info (zeros 32) ?v = Some j" by blast
  moreover have "?u \<noteq> ?v" by simp
  ultimately show ?thesis using key_contexts_separated [of "zeros 32" ?u i "zeros 32" ?v] by blast
qed

end
