(* ===== verification/Edge_Codec.thy ===== *)
theory Edge_Codec
  imports Message_Key Metadata Room_Policy Pq_Invariant
begin

text \<open>
  The checkpoint format of \<^verbatim>\<open>src/src/handlers/pqHealingRuntime.ts\<close>: the byte writer with its budget, the byte
  reader with its bounds, and the fields written with them (the pending phase of the healing machine,
  the sealed outbox, the active receive keys). Every field is a codec in the sense of the locale
  \<open>edge_field\<close>: what it writes within the budget it reads back, and what it reads is a field it may
  write.
\<close>

section \<open>Constants and checks\<close>

definition EDGE_MAGIC :: bytes where "EDGE_MAGIC = [0x50, 0x32, 0x45, 0x44, 0x47, 0x45, 0x34, 0x00]"
definition EDGE_FORMAT_VERSION :: int where [const_defs]: "EDGE_FORMAT_VERSION = 1"
definition MAX_EDGE_STATE_BYTES :: nat where [const_defs]: "MAX_EDGE_STATE_BYTES = 256 * 1024"
definition MAX_ACTIVE_RECEIVE_KEYS :: nat where [const_defs]: "MAX_ACTIVE_RECEIVE_KEYS = min MAX_SKIP_SESSION 256"
definition MAX_CACHE_KEY_BYTES :: nat where [const_defs]: "MAX_CACHE_KEY_BYTES = 160"
definition PQ_HEAL_MAX_RETRIES :: int where [const_defs]: "PQ_HEAL_MAX_RETRIES = 8"

datatype runtime_error =
    RuntimeFail string
  | RuntimeMode policy_error
  | RuntimeMachine pq_error
  | RuntimeFrame control_error
  | MalformedText

definition from_policy :: "policy_error + 'a \<Rightarrow> runtime_error + 'a" where
  "from_policy r = (case r of Inl e \<Rightarrow> Inl (RuntimeMode e) | Inr x \<Rightarrow> Inr x)"
definition from_machine :: "pq_error + 'a \<Rightarrow> runtime_error + 'a" where
  "from_machine r = (case r of Inl e \<Rightarrow> Inl (RuntimeMachine e) | Inr x \<Rightarrow> Inr x)"
definition from_frame :: "control_error + 'a \<Rightarrow> runtime_error + 'a" where
  "from_frame r = (case r of Inl e \<Rightarrow> Inl (RuntimeFrame e) | Inr x \<Rightarrow> Inr x)"

definition edgeRequireBytes :: "bytes \<Rightarrow> string \<Rightarrow> nat \<Rightarrow> runtime_error + unit" where
  "edgeRequireBytes value name n =
     ensure (length value = n) (RuntimeFail (name @ '' must be exactly '' @ nat_to_dec n @ '' bytes''))"

definition requireSafeUint :: "int \<Rightarrow> string \<Rightarrow> runtime_error + unit" where
  "requireSafeUint value name =
     ensure (\<not> (\<not> is_safe_integer value \<or> value < 0)) (RuntimeFail (name @ '' must be a non-negative safe integer''))"

definition edgeRequireU64 :: "int \<Rightarrow> string \<Rightarrow> runtime_error + unit" where
  "edgeRequireU64 value name =
     ensure (\<not> (value < 0 \<or> value > MAX_U64)) (RuntimeFail (name @ '' must be an unsigned 64-bit bigint''))"

definition edgeSuiteTag :: "nat \<Rightarrow> runtime_error + int" where
  "edgeSuiteTag p =
     (if p = 512 then Inr 1 else if p = 768 then Inr 2 else if p = 1024 then Inr 3
      else Inl (RuntimeFail ''unsupported ML-KEM suite''))"

definition tagSuite :: "int \<Rightarrow> runtime_error + nat" where
  "tagSuite tag =
     (if tag = 1 then Inr 512 else if tag = 2 then Inr 768 else if tag = 3 then Inr 1024
      else Inl (RuntimeFail ''checkpoint has an unknown ML-KEM suite''))"

definition turnTag :: "string \<Rightarrow> runtime_error + int" where
  "turnTag t =
     (if t = ''local'' then Inr 1 else if t = ''remote'' then Inr 2
      else Inl (RuntimeFail ''invalid next-offerer turn''))"

definition tagTurn :: "int \<Rightarrow> runtime_error + string" where
  "tagTurn tag =
     (if tag = 1 then Inr ''local'' else if tag = 2 then Inr ''remote''
      else Inl (RuntimeFail ''checkpoint has an invalid next-offerer turn''))"

text \<open>A phase of another kind does not exist in the source's union type; \<open>-1\<close> stands for the missing
  return value, which \<^verbatim>\<open>u8\<close> refuses.\<close>

fun phaseTag :: "snapshot_phase \<Rightarrow> int" where
  "phaseTag SIdle = 0"
| "phaseTag (SOutboundOffer False _ _) = 1"
| "phaseTag (SOutboundOffer True _ _) = 2"
| "phaseTag (SInboundOffer _) = 3"
| "phaseTag (SOutboundAdvancePrepared _ _) = 4"
| "phaseTag (SOutboundAdvanceAwaitingAck _) = 5"
| "phaseTag (SInboundAdvancePrepared _ _ _) = 6"
| "phaseTag (SInboundAdvanceAwaitingAckDispatch _) = 7"
| "phaseTag (SUnknown _) = - 1"

section \<open>Writer\<close>

record byte_writer =
  w_parts :: "bytes list"
  w_length :: nat

definition newByteWriter :: byte_writer where
  "newByteWriter = \<lparr>w_parts = [], w_length = 0\<rparr>"

definition w_bytes :: "bytes \<Rightarrow> byte_writer \<Rightarrow> runtime_error + byte_writer" where
  "w_bytes value w =
     (let w = \<lparr>w_parts = w_parts w @ [value], w_length = w_length w + length value\<rparr>
      in if w_length w > MAX_EDGE_STATE_BYTES then Inl (RuntimeFail ''checkpoint exceeds the encrypted edge-state budget'')
         else Inr w)"

definition w_u8 :: "int \<Rightarrow> byte_writer \<Rightarrow> runtime_error + byte_writer" where
  "w_u8 value w =
     (if value < 0 \<or> value > 255 then Inl (RuntimeFail ''u8 value is out of range'') else w_bytes [of_int value] w)"

definition w_u16 :: "int \<Rightarrow> byte_writer \<Rightarrow> runtime_error + byte_writer" where
  "w_u16 value w =
     (if value < 0 \<or> value > 65535 then Inl (RuntimeFail ''u16 value is out of range'')
      else w_bytes (be_enc 2 (nat value)) w)"

definition w_u32 :: "int \<Rightarrow> byte_writer \<Rightarrow> runtime_error + byte_writer" where
  "w_u32 value w =
     (if value < 0 \<or> value > 4294967295 then Inl (RuntimeFail ''u32 value is out of range'')
      else w_bytes (be_enc 4 (nat value)) w)"

definition w_u64 :: "int \<Rightarrow> byte_writer \<Rightarrow> runtime_error + byte_writer" where
  "w_u64 value w = rbind (edgeRequireU64 value ''checkpoint counter'') (\<lambda>_. w_bytes (be_enc 8 (nat value)) w)"

definition w_sized :: "bytes option \<Rightarrow> byte_writer \<Rightarrow> runtime_error + byte_writer" where
  "w_sized value w =
     (case value of
        None \<Rightarrow> w_u32 0 w
      | Some v \<Rightarrow>
          if length v = 0 then Inl (RuntimeFail ''present checkpoint byte strings must not be empty'')
          else rbind (w_u32 (int (length v)) w) (w_bytes v))"

fun place_parts :: "bytes \<Rightarrow> nat \<Rightarrow> bytes list \<Rightarrow> bytes" where
  "place_parts output offset [] = output"
| "place_parts output offset (part # parts) = place_parts (set_at output offset part) (offset + length part) parts"

text \<open>\<^verbatim>\<open>finish\<close> returns the concatenation and leaves the writer empty.\<close>

definition w_finish :: "byte_writer \<Rightarrow> bytes \<times> byte_writer" where
  "w_finish w = (place_parts (zeros (w_length w)) 0 (w_parts w), newByteWriter)"

section \<open>Reader\<close>

record byte_reader =
  rd_bytes :: bytes
  rd_offset :: nat

definition newByteReader :: "bytes \<Rightarrow> runtime_error + byte_reader" where
  "newByteReader value =
     (if length value = 0 \<or> length value > MAX_EDGE_STATE_BYTES then Inl (RuntimeFail ''checkpoint length is invalid'')
      else Inr \<lparr>rd_bytes = value, rd_offset = 0\<rparr>)"

type_synonym 'a edge_read = "byte_reader \<Rightarrow> runtime_error + 'a \<times> byte_reader"

definition r_take :: "nat \<Rightarrow> bytes edge_read" where
  "r_take n rd =
     (if \<not> is_safe_integer (int n) \<or> rd_offset rd + n > length (rd_bytes rd) then Inl (RuntimeFail ''checkpoint is truncated'')
      else Inr (sub (rd_bytes rd) (rd_offset rd) (rd_offset rd + n), rd\<lparr>rd_offset := rd_offset rd + n\<rparr>))"

definition r_u8 :: "int edge_read" where
  "r_u8 rd = rbind (r_take 1 rd) (\<lambda>(b, rd). Inr (int (unat (b ! 0)), rd))"
definition r_u16 :: "int edge_read" where
  "r_u16 rd = rbind (r_take 2 rd) (\<lambda>(b, rd). Inr (int (be_dec b), rd))"
definition r_u32 :: "int edge_read" where
  "r_u32 rd = rbind (r_take 4 rd) (\<lambda>(b, rd). Inr (int (be_dec b), rd))"
definition r_u64 :: "int edge_read" where
  "r_u64 rd = rbind (r_take 8 rd) (\<lambda>(b, rd). Inr (int (be_dec b), rd))"

definition r_sized :: "nat \<Rightarrow> bytes option edge_read" where
  "r_sized maximum rd =
     rbind (r_u32 rd) (\<lambda>(n, rd).
     if n = 0 then Inr (None, rd)
     else if n > int maximum then Inl (RuntimeFail ''checkpoint field exceeds its budget'')
     else rbind (r_take (nat n) rd) (\<lambda>(b, rd). Inr (Some b, rd)))"

definition r_finish :: "byte_reader \<Rightarrow> runtime_error + unit" where
  "r_finish rd = ensure (rd_offset rd = length (rd_bytes rd)) (RuntimeFail ''checkpoint contains trailing bytes'')"

definition r_destroy :: "byte_reader \<Rightarrow> byte_reader" where
  "r_destroy rd = \<lparr>rd_bytes = zeros (length (rd_bytes rd)), rd_offset = length (rd_bytes rd)\<rparr>"

definition requiredSized :: "nat \<Rightarrow> string \<Rightarrow> bytes edge_read" where
  "requiredSized maximum name rd =
     rbind (r_sized maximum rd) (\<lambda>(v, rd).
     case v of None \<Rightarrow> Inl (RuntimeFail (name @ '' is missing'')) | Some b \<Rightarrow> Inr (b, rd))"

section \<open>Phases\<close>

fun writePhaseFields :: "snapshot_phase \<Rightarrow> byte_writer \<Rightarrow> runtime_error + byte_writer" where
  "writePhaseFields SIdle w = Inr w"
| "writePhaseFields (SOutboundOffer _ offer secretKey) w = rbind (w_sized (Some offer) w) (w_sized (Some secretKey))"
| "writePhaseFields (SInboundOffer offer) w = w_sized (Some offer) w"
| "writePhaseFields (SOutboundAdvancePrepared advance nextRoot) w = rbind (w_sized (Some advance) w) (w_sized (Some nextRoot))"
| "writePhaseFields (SOutboundAdvanceAwaitingAck advance) w = w_sized (Some advance) w"
| "writePhaseFields (SInboundAdvanceAwaitingAckDispatch advance) w = w_sized (Some advance) w"
| "writePhaseFields (SInboundAdvancePrepared advance secretKey nextRoot) w =
     rbind (w_sized (Some advance) w) (\<lambda>w. rbind (w_sized (Some secretKey) w) (w_sized (Some nextRoot)))"
| "writePhaseFields (SUnknown _) w = Inr w"

definition writePhase :: "snapshot_phase \<Rightarrow> byte_writer \<Rightarrow> runtime_error + byte_writer" where
  "writePhase phase w = rbind (w_u8 (phaseTag phase) w) (writePhaseFields phase)"

definition readPhase :: "mlkem_suite \<Rightarrow> snapshot_phase edge_read" where
  "readPhase suite rd =
     (let offerMaximum = 64 + publicKeyBytes suite;
          advanceMaximum = 64 + offerMaximum + ciphertextBytes suite
      in rbind (r_u8 rd) (\<lambda>(tag, rd).
         if tag = 0 then Inr (SIdle, rd)
         else if tag = 1 then
           rbind (requiredSized offerMaximum ''prepared OFFER'' rd) (\<lambda>(offer, rd).
           rbind (requiredSized (secretKeyBytes suite) ''prepared OFFER secret key'' rd) (\<lambda>(secretKey, rd).
           Inr (SOutboundOffer False offer secretKey, rd)))
         else if tag = 2 then
           rbind (requiredSized offerMaximum ''dispatched OFFER'' rd) (\<lambda>(offer, rd).
           rbind (requiredSized (secretKeyBytes suite) ''dispatched OFFER secret key'' rd) (\<lambda>(secretKey, rd).
           Inr (SOutboundOffer True offer secretKey, rd)))
         else if tag = 3 then
           rbind (requiredSized offerMaximum ''inbound OFFER'' rd) (\<lambda>(offer, rd). Inr (SInboundOffer offer, rd))
         else if tag = 4 then
           rbind (requiredSized advanceMaximum ''prepared ADVANCE'' rd) (\<lambda>(advance, rd).
           rbind (requiredSized 32 ''candidate PQ root'' rd) (\<lambda>(nextRoot, rd).
           Inr (SOutboundAdvancePrepared advance nextRoot, rd)))
         else if tag = 5 then
           rbind (requiredSized advanceMaximum ''outbound ADVANCE'' rd) (\<lambda>(advance, rd).
           Inr (SOutboundAdvanceAwaitingAck advance, rd))
         else if tag = 6 then
           rbind (requiredSized advanceMaximum ''inbound ADVANCE'' rd) (\<lambda>(advance, rd).
           rbind (requiredSized (secretKeyBytes suite) ''inbound ADVANCE secret key'' rd) (\<lambda>(secretKey, rd).
           rbind (requiredSized 32 ''candidate PQ root'' rd) (\<lambda>(nextRoot, rd).
           Inr (SInboundAdvancePrepared advance secretKey nextRoot, rd))))
         else if tag = 7 then
           rbind (requiredSized advanceMaximum ''acknowledged ADVANCE'' rd) (\<lambda>(advance, rd).
           Inr (SInboundAdvanceAwaitingAckDispatch advance, rd))
         else Inl (RuntimeFail ''checkpoint has an unknown PQ phase'')))"

section \<open>Outbox\<close>

datatype outbox_kind = OfferKind | AdvanceKind

record pq_outbox =
  ob_kind :: outbox_kind
  ob_frame :: bytes
  ob_attempts :: int
  ob_nextRetryAt :: int

definition writeOutbox :: "pq_outbox option \<Rightarrow> byte_writer \<Rightarrow> runtime_error + byte_writer" where
  "writeOutbox outbox w =
     (case outbox of
        None \<Rightarrow> w_u8 0 w
      | Some ob \<Rightarrow>
          rbind (w_u8 (if ob_kind ob = OfferKind then 1 else 2) w) (\<lambda>w.
          rbind (w_u8 (ob_attempts ob) w) (\<lambda>w.
          rbind (w_u64 (ob_nextRetryAt ob) w) (\<lambda>w.
          w_sized (Some (ob_frame ob)) w))))"

definition readOutbox :: "pq_outbox option edge_read" where
  "readOutbox rd =
     rbind (r_u8 rd) (\<lambda>(tag, rd).
     if tag = 0 then Inr (None, rd)
     else if tag \<noteq> 1 \<and> tag \<noteq> 2 then Inl (RuntimeFail ''checkpoint outbox kind is invalid'')
     else
       rbind (r_u8 rd) (\<lambda>(attempts, rd).
       rbind (ensure (\<not> attempts > PQ_HEAL_MAX_RETRIES) (RuntimeFail ''checkpoint outbox attempts exceed the retry budget'')) (\<lambda>_.
       rbind (r_u64 rd) (\<lambda>(nextRetryAt, rd).
       rbind (ensure (\<not> nextRetryAt > MAX_SAFE_INTEGER) (RuntimeFail ''checkpoint retry deadline exceeds the safe-integer range'')) (\<lambda>_.
       rbind (requiredSized WIRE_CHUNK_FRAME_LEN ''outbox frame'' rd) (\<lambda>(frame, rd).
       rbind (edgeRequireBytes frame ''outbox frame'' WIRE_CHUNK_FRAME_LEN) (\<lambda>_.
       Inr (Some \<lparr>ob_kind = (if tag = 1 then OfferKind else AdvanceKind), ob_frame = frame, ob_attempts = attempts,
                  ob_nextRetryAt = nextRetryAt\<rparr>, rd))))))))"

section \<open>Active receive keys\<close>

text \<open>The map from cache keys to message keys, in insertion order. \<open>CANONICAL_CACHE_KEY\<close> is the regular
  expression \<^verbatim>\<open>^[0-9a-f]{64}:[0-9]+:[0-9]+$\<close>.\<close>

type_synonym key_map = "(string \<times> bytes) list"

definition is_digit :: "nat \<Rightarrow> bool" where
  "is_digit c \<longleftrightarrow> 48 \<le> c \<and> c \<le> 57"

definition CANONICAL_CACHE_KEY :: "js_text \<Rightarrow> bool" where
  "CANONICAL_CACHE_KEY s \<longleftrightarrow>
     length (take 64 s) = 64 \<and> list_all is_lower_hex (take 64 s) \<and>
     (case drop 64 s of
        [] \<Rightarrow> False
      | c # r \<Rightarrow> c = 58 \<and> takeWhile is_digit r \<noteq> [] \<and>
          (case dropWhile is_digit r of [] \<Rightarrow> False | d # e \<Rightarrow> d = 58 \<and> e \<noteq> [] \<and> list_all is_digit e))"

definition compare_keys :: "string \<times> bytes \<Rightarrow> string \<times> bytes \<Rightarrow> int" where
  "compare_keys l r = (if js_string_less (fst l) (fst r) then - 1 else if js_string_less (fst r) (fst l) then 1 else 0)"

fun write_key_entries :: "key_map \<Rightarrow> byte_writer \<Rightarrow> runtime_error + byte_writer" where
  "write_key_entries [] w = Inr w"
| "write_key_entries ((cacheKey, messageKey) # rest) w =
     rbind (ensure (CANONICAL_CACHE_KEY (text_of cacheKey)) (RuntimeFail ''active receive cache key is non-canonical'')) (\<lambda>_.
     let encodedKey = text_encode (text_of cacheKey)
     in rbind (ensure (\<not> (length encodedKey = 0 \<or> length encodedKey > MAX_CACHE_KEY_BYTES))
                 (RuntimeFail ''active receive cache key length is invalid'')) (\<lambda>_.
        rbind (edgeRequireBytes messageKey ''active receive message key'' 32) (\<lambda>_.
        rbind (w_u16 (int (length encodedKey)) w) (\<lambda>w.
        rbind (w_bytes encodedKey w) (\<lambda>w.
        rbind (w_bytes messageKey w) (\<lambda>w.
        write_key_entries rest w))))))"

definition writeActiveKeys :: "key_map \<Rightarrow> byte_writer \<Rightarrow> runtime_error + byte_writer" where
  "writeActiveKeys keys w =
     rbind (ensure (\<not> length keys > MAX_ACTIVE_RECEIVE_KEYS) (RuntimeFail ''too many active receive message keys'')) (\<lambda>_.
     let canonical = sort_cmp compare_keys keys
     in rbind (w_u16 (int (length canonical)) w) (write_key_entries canonical))"

text \<open>\<^verbatim>\<open>TextDecoder\<close> with \<^verbatim>\<open>fatal: true\<close> throws on malformed input: on every byte string that is not the encoding of
  the code points it stands for. It still drops a leading byte order mark.\<close>

definition text_decode_fatal :: "bytes \<Rightarrow> runtime_error + js_text" where
  "text_decode_fatal b =
     (if text_encode (utf8_run ground (map unat b)) = b then Inr (text_decode b) else Inl MalformedText)"

fun read_key_entries :: "nat \<Rightarrow> key_map \<Rightarrow> key_map edge_read" where
  "read_key_entries 0 result rd = Inr (result, rd)"
| "read_key_entries (Suc n) result rd =
     rbind (r_u16 rd) (\<lambda>(keyLength, rd).
     rbind (ensure (\<not> (keyLength = 0 \<or> keyLength > int MAX_CACHE_KEY_BYTES))
              (RuntimeFail ''checkpoint active receive cache key length is invalid'')) (\<lambda>_.
     rbind (r_take (nat keyLength) rd) (\<lambda>(encoded, rd).
     rbind (text_decode_fatal encoded) (\<lambda>key.
     rbind (ensure (\<not> (js_length key = 0 \<or> \<not> CANONICAL_CACHE_KEY key \<or> map_of result (string_of key) \<noteq> None))
              (RuntimeFail ''checkpoint active receive cache key is non-canonical'')) (\<lambda>_.
     rbind (r_take 32 rd) (\<lambda>(messageKey, rd).
     read_key_entries n (result @ [(string_of key, messageKey)]) rd))))))"

definition readActiveKeys :: "key_map edge_read" where
  "readActiveKeys rd =
     rbind (r_u16 rd) (\<lambda>(count, rd).
     rbind (ensure (\<not> count > int MAX_ACTIVE_RECEIVE_KEYS) (RuntimeFail ''checkpoint has too many active receive message keys'')) (\<lambda>_.
     read_key_entries (nat count) [] rd))"

section \<open>Writing within the budget\<close>

definition push :: "byte_writer \<Rightarrow> bytes list \<Rightarrow> byte_writer" where
  "push w ps = \<lparr>w_parts = w_parts w @ ps, w_length = w_length w + length (concat ps)\<rparr>"

definition fits :: "byte_writer \<Rightarrow> bytes list \<Rightarrow> bool" where
  "fits w ps \<longleftrightarrow> w_length w + length (concat ps) \<le> 262144"

lemma push_simps [simp]:
  "push (push w a) b = push w (a @ b)" "push w [] = w" "fits (push w a) b \<longleftrightarrow> fits w (a @ b)"
  by (simp_all add: push_def fits_def add.assoc)

lemma push_length [simp]: "w_length (push w ps) = w_length w + length (concat ps)"
  by (simp add: push_def)

lemma fits_append: "fits w (a @ b) \<Longrightarrow> fits w a"
  by (simp add: fits_def)

lemma w_bytes_push: "fits w [v] \<Longrightarrow> w_bytes v w = Inr (push w [v])"
  by (simp add: w_bytes_def push_def fits_def MAX_EDGE_STATE_BYTES_def)

lemma place_parts_append: "length (concat ps) = length out \<Longrightarrow> place_parts (pre @ out) (length pre) ps = pre @ concat ps"
proof (induction ps arbitrary: pre out)
  case (Cons p ps)
  have "place_parts (pre @ out) (length pre) (p # ps) = place_parts ((pre @ p) @ drop (length p) out) (length (pre @ p)) ps"
    by (simp add: set_at_def)
  also have "\<dots> = (pre @ p) @ concat ps" using Cons.prems by (intro Cons.IH) simp
  finally show ?case by simp
qed simp

lemma finish_pushed: "w_finish (push newByteWriter ps) = (concat ps, newByteWriter)"
  using place_parts_append [of ps "zeros (length (concat ps))" "[]"]
  by (simp add: w_finish_def push_def newByteWriter_def)

section \<open>Reading what was written\<close>

definition reading :: "bytes \<Rightarrow> bytes \<Rightarrow> byte_reader" where
  "reading pre post = \<lparr>rd_bytes = pre @ post, rd_offset = length pre\<rparr>"

lemma new_reading: "0 < length b \<Longrightarrow> length b \<le> 262144 \<Longrightarrow> newByteReader b = Inr (reading [] b)"
  by (simp add: newByteReader_def reading_def MAX_EDGE_STATE_BYTES_def)

lemma finish_reading: "r_finish (reading pre post) = Inr u \<longleftrightarrow> post = []"
  by (simp add: r_finish_def reading_def)

lemma take_reading:
  "length b = n \<Longrightarrow> n \<le> 4294967295 \<Longrightarrow> r_take n (reading pre (b @ post)) = Inr (b, reading (pre @ b) post)"
  by (simp add: r_take_def reading_def is_safe_integer_def MAX_SAFE_INTEGER_def sub_def)

lemma take_okD: "r_take n rd = Inr (b, rd') \<Longrightarrow> length b = n"
  by (auto simp: r_take_def sub_def split: if_splits)

text \<open>The contract of a checkpoint field. \<open>parts\<close> is what is pushed, \<open>norm\<close> the form in which the value comes
  back, \<open>valid\<close> the values a checkpoint may hold.\<close>

locale edge_field =
  fixes "write" :: "'a \<Rightarrow> byte_writer \<Rightarrow> runtime_error + byte_writer" and read :: "'a edge_read"
    and parts :: "'a \<Rightarrow> bytes list" and norm :: "'a \<Rightarrow> 'a" and valid :: "'a \<Rightarrow> bool"
  assumes write_law: "valid x \<Longrightarrow> fits w (parts x) \<Longrightarrow> write x w = Inr (push w (parts x))"
    and read_law: "valid x \<Longrightarrow> read (reading pre (concat (parts x) @ post)) = Inr (norm x, reading (pre @ concat (parts x)) post)"
    and valid_law: "read rd = Inr (x, rd') \<Longrightarrow> valid x"
begin

lemma written_read:
  assumes "valid x" "fits newByteWriter (parts x)"
  shows "\<exists>w. write x newByteWriter = Inr w \<and>
    read (reading [] (fst (w_finish w))) = Inr (norm x, reading (fst (w_finish w)) [])"
  using write_law [OF assms] read_law [OF assms(1), of "[]" "[]"] by (simp add: finish_pushed)

lemma written_in_front:
  assumes "valid x" "fits w (parts x @ ps)"
  shows "rbind (write x w) k = k (push w (parts x)) \<and> fits (push w (parts x)) ps"
  using write_law [OF assms(1) fits_append [OF assms(2)]] assms(2) by simp

lemma norm_valid: "valid x \<Longrightarrow> valid (norm x)"
  by (rule valid_law [OF read_law])

end

lemma byte_int: "0 \<le> v \<Longrightarrow> v \<le> 255 \<Longrightarrow> uint (of_int v :: byte) = v"
  by (simp add: uint_word_of_int take_bit_eq_mod)

interpretation u8: edge_field w_u8 r_u8 "\<lambda>v. [[of_int v]]" "\<lambda>v. v" "\<lambda>v. 0 \<le> v \<and> v \<le> 255"
proof
  fix v pre post assume "0 \<le> v \<and> v \<le> (255 :: int)"
  then show "r_u8 (reading pre (concat [[of_int v]] @ post)) = Inr (v, reading (pre @ concat [[of_int v]]) post)"
    using take_reading [of "[of_int v]" 1 pre post] by (simp add: r_u8_def byte_int)
next
  fix rd x rd' assume "r_u8 rd = Inr (x, rd')"
  then obtain b :: bytes where "x = int (unat (b ! 0))" by (auto simp: r_u8_def result_simps)
  moreover have "unat (b ! 0) < 256" by (rule unat_byte_less)
  ultimately show "0 \<le> x \<and> x \<le> 255" by linarith
qed (simp add: w_u8_def w_bytes_push)

lemma be_width: "length b = n \<Longrightarrow> be_dec b < 256 ^ n"
  using be_dec_less [of b] by simp

interpretation u16: edge_field w_u16 r_u16 "\<lambda>v. [be_enc 2 (nat v)]" "\<lambda>v. v" "\<lambda>v. 0 \<le> v \<and> v \<le> 65535"
proof
  fix v pre post assume v: "0 \<le> v \<and> v \<le> (65535 :: int)"
  then show "r_u16 (reading pre (concat [be_enc 2 (nat v)] @ post)) = Inr (v, reading (pre @ concat [be_enc 2 (nat v)]) post)"
    using take_reading [of "be_enc 2 (nat v)" 2 pre post] by (simp add: r_u16_def be_dec_enc_int)
next
  fix rd x rd' assume "r_u16 rd = Inr (x, rd')"
  then obtain b where "length b = 2" "x = int (be_dec b)" by (auto simp: r_u16_def result_simps dest: take_okD)
  then show "0 \<le> x \<and> x \<le> 65535" using be_width [of b 2] by simp
qed (simp add: w_u16_def w_bytes_push)

interpretation u32: edge_field w_u32 r_u32 "\<lambda>v. [be_enc 4 (nat v)]" "\<lambda>v. v" "\<lambda>v. 0 \<le> v \<and> v \<le> 4294967295"
proof
  fix v pre post assume v: "0 \<le> v \<and> v \<le> (4294967295 :: int)"
  then show "r_u32 (reading pre (concat [be_enc 4 (nat v)] @ post)) = Inr (v, reading (pre @ concat [be_enc 4 (nat v)]) post)"
    using take_reading [of "be_enc 4 (nat v)" 4 pre post] by (simp add: r_u32_def be_dec_enc_int)
next
  fix rd x rd' assume "r_u32 rd = Inr (x, rd')"
  then obtain b where "length b = 4" "x = int (be_dec b)" by (auto simp: r_u32_def result_simps dest: take_okD)
  then show "0 \<le> x \<and> x \<le> 4294967295" using be_width [of b 4] by simp
qed (simp add: w_u32_def w_bytes_push)

lemma edgeRequireU64_iff [simp]: "edgeRequireU64 v name = Inr u \<longleftrightarrow> u64_ok v"
  by (auto simp: edgeRequireU64_def u64_ok_def)

lemma edgeRequireU64_ok [simp]: "u64_ok v \<Longrightarrow> edgeRequireU64 v name = Inr ()"
  by simp

interpretation u64: edge_field w_u64 r_u64 "\<lambda>v. [be_enc 8 (nat v)]" "\<lambda>v. v" u64_ok
proof
  fix v pre post assume v: "u64_ok v"
  then show "r_u64 (reading pre (concat [be_enc 8 (nat v)] @ post)) = Inr (v, reading (pre @ concat [be_enc 8 (nat v)]) post)"
    using take_reading [of "be_enc 8 (nat v)" 8 pre post] by (simp add: r_u64_def u64_back)
next
  fix rd x rd' assume "r_u64 rd = Inr (x, rd')"
  then obtain b where "length b = 8" "x = int (be_dec b)" by (auto simp: r_u64_def result_simps dest: take_okD)
  then show "u64_ok x" using be_width [of b 8] by (simp add: u64_ok_def MAX_U64_def)
qed (simp add: w_u64_def w_bytes_push)

definition sized_parts :: "bytes option \<Rightarrow> bytes list" where
  "sized_parts v = (case v of None \<Rightarrow> [be_enc 4 0] | Some b \<Rightarrow> [be_enc 4 (length b), b])"

definition sized_ok :: "nat \<Rightarrow> bytes option \<Rightarrow> bool" where
  "sized_ok maximum v \<longleftrightarrow> (case v of None \<Rightarrow> True | Some b \<Rightarrow> 0 < length b \<and> length b \<le> maximum \<and> length b \<le> 4294967295)"

interpretation sized: edge_field w_sized "r_sized maximum" sized_parts "\<lambda>v. v" "sized_ok maximum"
proof
  fix v w assume v: "sized_ok maximum v" and f: "fits w (sized_parts v)"
  show "w_sized v w = Inr (push w (sized_parts v))"
  proof (cases v)
    case None
    then show ?thesis using u32.write_law [of 0 w] f by (simp add: w_sized_def sized_parts_def)
  next
    case (Some b)
    have s: "0 \<le> int (length b) \<and> int (length b) \<le> 4294967295" using v Some by (simp add: sized_ok_def)
    have f2: "fits w ([be_enc 4 (length b)] @ [b])" using f Some by (simp add: sized_parts_def)
    have "w_u32 (int (length b)) w = Inr (push w [be_enc 4 (length b)])"
      using u32.write_law [OF s, of w] fits_append [OF f2] by simp
    moreover have "w_bytes b (push w [be_enc 4 (length b)]) = Inr (push w [be_enc 4 (length b), b])"
      using w_bytes_push [of "push w [be_enc 4 (length b)]" b] f2 by simp
    ultimately show ?thesis using v Some by (simp add: w_sized_def sized_parts_def sized_ok_def)
  qed
next
  fix v pre post assume v: "sized_ok maximum v"
  show "r_sized maximum (reading pre (concat (sized_parts v) @ post)) = Inr (v, reading (pre @ concat (sized_parts v)) post)"
  proof (cases v)
    case None
    then show ?thesis using u32.read_law [of 0 pre post] by (simp add: r_sized_def sized_parts_def)
  next
    case (Some b)
    then show ?thesis
      using v u32.read_law [of "int (length b)" pre "b @ post"] take_reading [of b "length b" "pre @ be_enc 4 (length b)" post]
      by (simp add: r_sized_def sized_parts_def sized_ok_def)
  qed
next
  fix rd v rd' assume r: "r_sized maximum rd = Inr (v, rd')"
  then obtain n r1 where n: "r_u32 rd = Inr (n, r1)" by (auto simp: r_sized_def result_simps)
  show "sized_ok maximum v"
  proof (cases v)
    case (Some b)
    then have "n \<noteq> 0" "n \<le> int maximum" "length b = nat n" using r n by (auto simp: r_sized_def result_simps split: if_splits dest: take_okD)
    then show ?thesis using u32.valid_law [OF n] Some by (auto simp: sized_ok_def nat_le_iff)
  qed (simp add: sized_ok_def)
qed

lemma sized_Some:
  "w_sized (Some b) w = Inr (push w [be_enc 4 (length b), b])"
    if "0 < length b" "length b \<le> 4294967295" "fits w [be_enc 4 (length b), b]"
  using sized.write_law [of "length b" "Some b" w] that by (simp add: sized_parts_def sized_ok_def)

lemma required_read:
  assumes "length b = n" "0 < n" "n \<le> maximum" "n \<le> 4294967295"
  shows "requiredSized maximum name (reading pre (be_enc 4 n @ b @ post)) = Inr (b, reading (pre @ be_enc 4 n @ b) post)"
  using sized.read_law [of maximum "Some b" pre post] assms by (auto simp: requiredSized_def sized_parts_def sized_ok_def)

lemma required_okD: "requiredSized maximum name rd = Inr (b, rd') \<Longrightarrow> sized_ok maximum (Some b)"
  by (auto simp: requiredSized_def result_simps split: option.splits dest: sized.valid_law)

fun phase_fields :: "snapshot_phase \<Rightarrow> bytes list" where
  "phase_fields SIdle = []"
| "phase_fields (SOutboundOffer _ offer sk) = [offer, sk]"
| "phase_fields (SInboundOffer offer) = [offer]"
| "phase_fields (SOutboundAdvancePrepared adv root) = [adv, root]"
| "phase_fields (SOutboundAdvanceAwaitingAck adv) = [adv]"
| "phase_fields (SInboundAdvancePrepared adv sk root) = [adv, sk, root]"
| "phase_fields (SInboundAdvanceAwaitingAckDispatch adv) = [adv]"
| "phase_fields (SUnknown _) = []"

fun phase_limits :: "mlkem_suite \<Rightarrow> snapshot_phase \<Rightarrow> nat list" where
  "phase_limits suite SIdle = []"
| "phase_limits suite (SOutboundOffer _ _ _) = [64 + publicKeyBytes suite, secretKeyBytes suite]"
| "phase_limits suite (SInboundOffer _) = [64 + publicKeyBytes suite]"
| "phase_limits suite (SOutboundAdvancePrepared _ _) = [128 + publicKeyBytes suite + ciphertextBytes suite, 32]"
| "phase_limits suite (SOutboundAdvanceAwaitingAck _) = [128 + publicKeyBytes suite + ciphertextBytes suite]"
| "phase_limits suite (SInboundAdvancePrepared _ _ _) = [128 + publicKeyBytes suite + ciphertextBytes suite, secretKeyBytes suite, 32]"
| "phase_limits suite (SInboundAdvanceAwaitingAckDispatch _) = [128 + publicKeyBytes suite + ciphertextBytes suite]"
| "phase_limits suite (SUnknown _) = []"

definition phase_parts :: "snapshot_phase \<Rightarrow> bytes list" where
  "phase_parts p = [of_int (phaseTag p)] # concat (map (\<lambda>b. [be_enc 4 (length b), b]) (phase_fields p))"

definition phase_valid :: "mlkem_suite \<Rightarrow> snapshot_phase \<Rightarrow> bool" where
  "phase_valid suite p \<longleftrightarrow> 0 \<le> phaseTag p \<and>
     list_all2 (\<lambda>b n. sized_ok n (Some b)) (phase_fields p) (phase_limits suite p)"

lemma phase_tag_byte: "0 \<le> phaseTag p \<Longrightarrow> phaseTag p \<le> 255 \<and> (phaseTag p = 0 \<longleftrightarrow> p = SIdle)"
  by (cases p rule: phaseTag.cases) simp_all

lemmas field_written = u8.write_law u64.write_law u16.write_law sized_Some

interpretation phase: edge_field writePhase "readPhase suite" phase_parts "\<lambda>p. p" "phase_valid suite"
proof
  fix p w assume "phase_valid suite p" "fits w (phase_parts p)"
  then show "writePhase p w = Inr (push w (phase_parts p))"
    by (cases p rule: phaseTag.cases)
      (simp_all add: writePhase_def phase_valid_def phase_parts_def sized_ok_def field_written fits_def)
next
  fix p pre post assume "phase_valid suite p"
  then show "readPhase suite (reading pre (concat (phase_parts p) @ post)) = Inr (p, reading (pre @ concat (phase_parts p)) post)"
    using u8.read_law [of "phaseTag p" pre "concat (concat (map (\<lambda>b. [be_enc 4 (length b), b]) (phase_fields p))) @ post"]
    by (cases p rule: phaseTag.cases)
      (simp_all add: readPhase_def phase_valid_def phase_parts_def sized_ok_def required_read)
next
  fix rd p rd' assume "readPhase suite rd = Inr (p, rd')"
  then show "phase_valid suite p"
    by (auto simp: readPhase_def Let_def result_simps phase_valid_def split: if_splits dest!: required_okD)
qed

definition outbox_parts :: "pq_outbox option \<Rightarrow> bytes list" where
  "outbox_parts ob =
     (case ob of
        None \<Rightarrow> [[0]]
      | Some b \<Rightarrow> [[if ob_kind b = OfferKind then 1 else 2], [of_int (ob_attempts b)], be_enc 8 (nat (ob_nextRetryAt b)),
                   be_enc 4 (length (ob_frame b)), ob_frame b])"

definition outbox_valid :: "pq_outbox option \<Rightarrow> bool" where
  "outbox_valid ob \<longleftrightarrow>
     (case ob of
        None \<Rightarrow> True
      | Some b \<Rightarrow> length (ob_frame b) = 65490 \<and> 0 \<le> ob_attempts b \<and> ob_attempts b \<le> 8 \<and>
          0 \<le> ob_nextRetryAt b \<and> ob_nextRetryAt b \<le> MAX_SAFE_INTEGER)"

lemma safe_u64: "0 \<le> v \<Longrightarrow> v \<le> MAX_SAFE_INTEGER \<Longrightarrow> u64_ok v"
  by (simp add: u64_ok_def MAX_U64_def MAX_SAFE_INTEGER_def)

lemma edgeRequireBytes_iff [simp]: "edgeRequireBytes v name n = Inr u \<longleftrightarrow> length v = n"
  by (simp add: edgeRequireBytes_def)

lemma edgeRequireBytes_ok [simp]: "length v = n \<Longrightarrow> edgeRequireBytes v name n = Inr ()"
  by simp

interpretation outbox: edge_field writeOutbox readOutbox outbox_parts "\<lambda>b. b" outbox_valid
proof
  fix ob w assume "outbox_valid ob" "fits w (outbox_parts ob)"
  then show "writeOutbox ob w = Inr (push w (outbox_parts ob))"
    using u8.write_law [of 0 w]
    by (cases ob) (auto simp: writeOutbox_def outbox_valid_def outbox_parts_def field_written fits_def safe_u64)
next
  fix ob pre post assume v: "outbox_valid ob"
  show "readOutbox (reading pre (concat (outbox_parts ob) @ post)) = Inr (ob, reading (pre @ concat (outbox_parts ob)) post)"
  proof (cases ob)
    case None
    then show ?thesis using u8.read_law [of 0 pre post] by (simp add: readOutbox_def outbox_parts_def)
  next
    case (Some b)
    let ?t = "if ob_kind b = OfferKind then 1 else 2 :: int" and ?n = "be_enc 8 (nat (ob_nextRetryAt b))"
      and ?f = "be_enc 4 (length (ob_frame b)) @ ob_frame b @ post"
    have tag: "of_int ?t = (if ob_kind b = OfferKind then 1 else 2 :: byte)" by simp
    have "r_u8 (reading pre ([of_int ?t] @ [of_int (ob_attempts b)] @ ?n @ ?f)) =
        Inr (?t, reading (pre @ [of_int ?t]) ([of_int (ob_attempts b)] @ ?n @ ?f))"
      using u8.read_law [of ?t pre "[of_int (ob_attempts b)] @ ?n @ ?f"] by simp
    moreover have "r_u8 (reading (pre @ [of_int ?t]) ([of_int (ob_attempts b)] @ ?n @ ?f)) =
        Inr (ob_attempts b, reading (pre @ [of_int ?t, of_int (ob_attempts b)]) (?n @ ?f))"
      using u8.read_law [of "ob_attempts b" "pre @ [of_int ?t]" "?n @ ?f"] v Some by (simp add: outbox_valid_def)
    moreover have "r_u64 (reading (pre @ [of_int ?t, of_int (ob_attempts b)]) (?n @ ?f)) =
        Inr (ob_nextRetryAt b, reading (pre @ [of_int ?t, of_int (ob_attempts b)] @ ?n) ?f)"
      using u64.read_law [of "ob_nextRetryAt b" "pre @ [of_int ?t, of_int (ob_attempts b)]" ?f] v Some
      by (simp add: outbox_valid_def safe_u64)
    ultimately show ?thesis using v Some
      by (cases b; cases "ob_kind b")
        (simp_all add: readOutbox_def outbox_parts_def outbox_valid_def required_read PQ_HEAL_MAX_RETRIES_def wire_geometry)
  qed
next
  fix rd ob rd' assume "readOutbox rd = Inr (ob, rd')"
  then show "outbox_valid ob"
    by (auto simp: readOutbox_def result_simps outbox_valid_def PQ_HEAL_MAX_RETRIES_def u64_ok_def wire_geometry
        split: if_splits dest!: u8.valid_law u64.valid_law)
qed

section \<open>The key map\<close>

definition key_chars :: "js_text \<Rightarrow> bool" where
  "key_chars s \<longleftrightarrow> (\<forall>c \<in> set s. 48 \<le> c \<and> c < 128)"

lemma key_chars_simps [simp]:
  "key_chars []" "key_chars (c # s) \<longleftrightarrow> 48 \<le> c \<and> c < 128 \<and> key_chars s" "key_chars (s @ t) \<longleftrightarrow> key_chars s \<and> key_chars t"
  by (auto simp: key_chars_def)

lemma key_chars_digits: "list_all is_digit s \<Longrightarrow> key_chars s"
  by (force simp: key_chars_def list_all_iff is_digit_def)

lemma key_chars_hex: "list_all is_lower_hex s \<Longrightarrow> key_chars s"
  using lower_hex_bounds by (force simp: key_chars_def list_all_iff)

lemma canonical_key_chars:
  assumes "CANONICAL_CACHE_KEY s"
  shows "key_chars s \<and> s \<noteq> []"
proof -
  obtain r e where s: "drop 64 s = 58 # r" "dropWhile is_digit r = 58 # e" "list_all is_digit e" "list_all is_lower_hex (take 64 s)"
    using assms by (auto simp: CANONICAL_CACHE_KEY_def split: list.splits)
  have "list_all is_digit (takeWhile is_digit r)" by (auto simp: list_all_iff dest: set_takeWhileD)
  then have "key_chars (takeWhile is_digit r @ dropWhile is_digit r)" using s(2,3) by (simp add: key_chars_digits)
  then have "key_chars (take 64 s) \<and> key_chars (drop 64 s)" using s(1,4) key_chars_hex by simp
  then have "key_chars s" using key_chars_simps(3) [of "take 64 s" "drop 64 s"] by (simp only: append_take_drop_id)
  then show ?thesis using s(1) by auto
qed

lemma key_chars_encode: "key_chars s \<Longrightarrow> text_encode s = map of_nat s"
  by (induction s) (simp_all add: text_encode_def is_scalar_def utf8_char_def)

lemma key_chars_scalar: "key_chars s \<Longrightarrow> list_all is_scalar s"
  by (auto simp: key_chars_def list_all_iff is_scalar_def)

lemma key_chars_string: "key_chars s \<Longrightarrow> text_of (string_of s) = s"
  by (induction s) (simp_all add: text_of_def string_of_def)

lemma string_text [simp]: "string_of (text_of k) = k"
  by (simp add: text_of_def string_of_def comp_def)

lemma canonical_decodes:
  assumes "CANONICAL_CACHE_KEY s"
  shows "text_decode_fatal (text_encode s) = Inr s"
proof -
  note c = canonical_key_chars [OF assms]
  have "s \<noteq> [] \<Longrightarrow> hd s \<noteq> BOM" using c by (cases s) (auto simp: BOM_def)
  then have "text_decode (text_encode s) = s"
    using decode_padded [OF key_chars_scalar, of s 0] c by auto
  moreover have "utf8_run ground (map unat (text_encode s)) = s"
    using utf8_text_decodes [OF key_chars_scalar, of s "[]"] encode_scalars [OF key_chars_scalar, of s] c by simp
  ultimately show ?thesis by (simp add: text_decode_fatal_def)
qed

text \<open>A key that was read is as long as its bytes, a byte order mark apart.\<close>

lemma decoded_length:
  assumes "text_decode_fatal b = Inr key" "key_chars key"
  shows "length key \<le> length b"
proof -
  have e: "text_encode (utf8_run ground (map unat b)) = b" and k: "key = text_decode b"
    using assms(1) by (auto simp: text_decode_fatal_def split: if_splits)
  show ?thesis
  proof (cases "take 3 b = [0xef, 0xbb, 0xbf]")
    case False
    then have "text_encode key = b" using e k by (simp add: text_decode_def)
    then show ?thesis using key_chars_encode [OF assms(2)] by auto
  next
    case True
    then obtain b' where b: "b = [0xef, 0xbb, 0xbf] @ b'" by (metis append_take_drop_id)
    have "utf8_run ground (map unat b) = BOM # key"
      using utf8_3 [of BOM "map unat b'"] k True by (simp add: b BOM_def is_scalar_def text_decode_def)
    then have "b = text_encode [BOM] @ map of_nat key"
      using e key_chars_encode [OF assms(2)] by (simp add: text_encode_def)
    then show ?thesis by (metis length_append length_map trans_le_add2 le_refl)
  qed
qed

lemma js_length_0: "js_length s = 0 \<longleftrightarrow> s = []"
  by (cases s) (simp_all add: js_length_def del: sum_list_eq_0_iff)

definition entry_ok :: "string \<times> bytes \<Rightarrow> bool" where
  "entry_ok kv \<longleftrightarrow> CANONICAL_CACHE_KEY (text_of (fst kv)) \<and> length (fst kv) \<le> 160 \<and> length (snd kv) = 32"

definition keys_ok :: "key_map \<Rightarrow> bool" where
  "keys_ok keys \<longleftrightarrow> length keys \<le> 256 \<and> distinct (map fst keys) \<and> list_all entry_ok keys"

definition entry_parts :: "string \<times> bytes \<Rightarrow> bytes list" where
  "entry_parts kv = [be_enc 2 (length (fst kv)), text_encode (text_of (fst kv)), snd kv]"

definition sorted_keys :: "key_map \<Rightarrow> key_map" where
  "sorted_keys keys = sort_cmp compare_keys keys"

definition keys_parts :: "key_map \<Rightarrow> bytes list" where
  "keys_parts keys = be_enc 2 (length keys) # concat (map entry_parts (sorted_keys keys))"

lemma key_limits [simp]: "MAX_ACTIVE_RECEIVE_KEYS = 256" "MAX_CACHE_KEY_BYTES = 160"
  by (simp_all add: const_defs)

lemma entry_length: "entry_ok kv \<Longrightarrow> length (text_encode (text_of (fst kv))) = length (fst kv) \<and> 0 < length (fst kv) \<and> length (fst kv) \<le> 160"
  using canonical_key_chars [of "text_of (fst kv)"] key_chars_encode [of "text_of (fst kv)"]
  by (auto simp: entry_ok_def text_of_def)

lemma entries_written:
  "list_all entry_ok es \<Longrightarrow> fits w (concat (map entry_parts es)) \<Longrightarrow>
   write_key_entries es w = Inr (push w (concat (map entry_parts es)))"
proof (induction es arbitrary: w)
  case (Cons kv es)
  obtain k v where kv: "kv = (k, v)" by (cases kv)
  note len = entry_length [of kv]
  have ok: "entry_ok kv" using Cons.prems by simp
  let ?w = "push w (entry_parts kv)"
  have f: "fits ?w (concat (map entry_parts es))" using Cons.prems by simp
  have "text_encode (text_of k) \<noteq> []" using len [OF ok] by (auto simp: kv)
  then have "write_key_entries (kv # es) w = write_key_entries es ?w"
    using ok len Cons.prems(2) u16.write_law [of "int (length k)" w] w_bytes_push
    by (simp add: kv entry_ok_def entry_parts_def fits_def Let_def)
  then show ?case using Cons.IH [OF _ f] Cons.prems(1) by simp
qed simp

lemma entries_read:
  "list_all entry_ok es \<Longrightarrow> distinct (map fst (acc @ es)) \<Longrightarrow>
   read_key_entries (length es) acc (reading pre (concat (concat (map entry_parts es)) @ post)) =
     Inr (acc @ es, reading (pre @ concat (concat (map entry_parts es))) post)"
proof (induction es arbitrary: acc pre)
  case (Cons kv es)
  obtain k v where kv: "kv = (k, v)" by (cases kv)
  have ok: "entry_ok kv" using Cons.prems by simp
  note len = entry_length [OF ok]
  let ?n = "be_enc 2 (length k)" and ?k = "text_encode (text_of k)" and ?r = "concat (concat (map entry_parts es)) @ post"
  have key: "text_decode_fatal ?k = Inr (text_of k)" "js_length (text_of k) \<noteq> 0"
    using ok canonical_decodes [of "text_of k"] len by (simp_all add: entry_ok_def kv js_length_0 text_of_def)
  have fresh: "map_of acc k = None" using Cons.prems(2) by (auto simp: kv map_of_eq_None_iff)
  have r: "r_u16 (reading pre (?n @ ?k @ v @ ?r)) = Inr (int (length k), reading (pre @ ?n) (?k @ v @ ?r))"
    using u16.read_law [of "int (length k)" pre "?k @ v @ ?r"] len by (simp add: kv)
  have "read_key_entries (length (kv # es)) acc (reading pre (concat (concat (map entry_parts (kv # es))) @ post)) =
      read_key_entries (length es) (acc @ [kv]) (reading (pre @ ?n @ ?k @ v) ?r)"
    using r take_reading [of ?k "length k" "pre @ ?n" "v @ ?r"] take_reading [of v 32 "pre @ ?n @ ?k" ?r] len key fresh ok
    by (simp add: kv entry_parts_def entry_ok_def)
  also have "\<dots> = Inr (acc @ kv # es, reading ((pre @ ?n @ ?k @ v) @ concat (concat (map entry_parts es))) post)"
    using Cons.IH [of "acc @ [kv]" "pre @ ?n @ ?k @ v"] Cons.prems by simp
  finally have "read_key_entries (length (kv # es)) acc (reading pre (concat (concat (map entry_parts (kv # es))) @ post)) =
      Inr (acc @ kv # es, reading ((pre @ ?n @ ?k @ v) @ concat (concat (map entry_parts es))) post)" .
  moreover have "concat (concat (map entry_parts (kv # es))) = ?n @ ?k @ v @ concat (concat (map entry_parts es))"
    by (simp add: kv entry_parts_def)
  ultimately show ?case by (simp only: append_assoc)
qed simp

lemma entries_okD:
  "read_key_entries n acc rd = Inr (ks, rd') \<Longrightarrow> list_all entry_ok acc \<Longrightarrow> distinct (map fst acc) \<Longrightarrow>
   length ks = length acc + n \<and> list_all entry_ok ks \<and> distinct (map fst ks)"
proof (induction n arbitrary: acc rd)
  case (Suc n)
  obtain kl r1 enc r2 key mk r3 where c: "r_u16 rd = Inr (kl, r1)" "\<not> (kl = 0 \<or> kl > 160)" "r_take (nat kl) r1 = Inr (enc, r2)"
      "text_decode_fatal enc = Inr key" "CANONICAL_CACHE_KEY key" "map_of acc (string_of key) = None"
      "r_take 32 r2 = Inr (mk, r3)" "read_key_entries n (acc @ [(string_of key, mk)]) r3 = Inr (ks, rd')"
    using Suc.prems(1) by (auto simp: result_simps)
  have ch: "key_chars key" using canonical_key_chars [OF c(5)] by blast
  have "length key \<le> 160" using decoded_length [OF c(4) ch] take_okD [OF c(3)] c(2) by linarith
  then have "entry_ok (string_of key, mk)"
    using c(5) take_okD [OF c(7)] key_chars_string [OF ch] by (simp add: entry_ok_def string_of_def)
  moreover have "string_of key \<notin> fst ` set acc" using c(6) by (simp add: map_of_eq_None_iff)
  ultimately show ?case using Suc.IH [OF c(8)] Suc.prems(2,3) by simp
qed simp

interpretation keys: edge_field writeActiveKeys readActiveKeys keys_parts sorted_keys keys_ok
proof
  fix ks w assume ok: "keys_ok ks" and f: "fits w (keys_parts ks)"
  have es: "list_all entry_ok (sorted_keys ks)" using ok by (simp add: keys_ok_def sorted_keys_def list_all_iff)
  have n: "w_u16 (int (length ks)) w = Inr (push w [be_enc 2 (length ks)])"
    using u16.write_law [of "int (length ks)" w] ok f by (simp add: keys_ok_def keys_parts_def fits_def)
  have "fits (push w [be_enc 2 (length ks)]) (concat (map entry_parts (sorted_keys ks)))" using f by (simp add: keys_parts_def)
  then show "writeActiveKeys ks w = Inr (push w (keys_parts ks))"
    using n entries_written [OF es] ok by (simp add: writeActiveKeys_def sorted_keys_def keys_parts_def keys_ok_def)
next
  fix ks pre post assume ok: "keys_ok ks"
  have "map fst (sorted_keys ks) = map fst (sorted_keys ks) \<and> distinct (map fst (sorted_keys ks))"
    using ok mset_sort_cmp [of compare_keys ks] by (metis keys_ok_def sorted_keys_def mset_map mset_eq_imp_distinct_iff)
  moreover have es: "list_all entry_ok (sorted_keys ks)" "length (sorted_keys ks) = length ks"
    using ok by (simp_all add: keys_ok_def sorted_keys_def list_all_iff)
  ultimately have r: "read_key_entries (length ks) [] (reading (pre @ be_enc 2 (length ks)) (concat (concat (map entry_parts (sorted_keys ks))) @ post)) =
      Inr (sorted_keys ks, reading ((pre @ be_enc 2 (length ks)) @ concat (concat (map entry_parts (sorted_keys ks)))) post)"
    using entries_read [of "sorted_keys ks" "[]"] by simp
  show "readActiveKeys (reading pre (concat (keys_parts ks) @ post)) = Inr (sorted_keys ks, reading (pre @ concat (keys_parts ks)) post)"
    using r u16.read_law [of "int (length ks)" pre "concat (concat (map entry_parts (sorted_keys ks))) @ post"] ok
    by (simp add: readActiveKeys_def keys_parts_def keys_ok_def)
next
  fix rd ks rd' assume "readActiveKeys rd = Inr (ks, rd')"
  then obtain c r1 where c: "r_u16 rd = Inr (c, r1)" "c \<le> 256" "read_key_entries (nat c) [] r1 = Inr (ks, rd')"
    by (auto simp: readActiveKeys_def result_simps)
  show "keys_ok ks" using entries_okD [OF c(3)] c(2) by (simp add: keys_ok_def)
qed

end
