(* ===== verification/Pq_Runtime.thy ===== *)
theory Pq_Runtime
  imports Edge_Codec
begin

text \<open>
  \<^verbatim>\<open>SparsePqHealingState\<close> of \<^verbatim>\<open>src/src/handlers/pqHealingRuntime.ts\<close>: the healing machine of an edge with its sealed
  outbox, its replay caches and the active receive keys, one definition per method. The clock, the
  nonce of a sealed frame and the answers of the ML-KEM backend are arguments. A method that awaits the
  backend is a start and a resume, as in \<open>Pq_Machine\<close>; between them the machine is busy and refuses
  every other call, and adopting or destroying the runtime destroys the machine that was called.
  Buffers the source zeroes are written out where something still refers to them.
\<close>

section \<open>State\<close>

definition PQ_HEAL_AFTER_MESSAGES :: int where [const_defs]: "PQ_HEAL_AFTER_MESSAGES = 64"
definition PQ_HEAL_AFTER_MS :: int where [const_defs]: "PQ_HEAL_AFTER_MS = 24 * 60 * 60 * 1000"
definition PQ_HEAL_RETRY_MS :: int where [const_defs]: "PQ_HEAL_RETRY_MS = 5000"

record pq_runtime =
  rt_pqMode :: string
  rt_rootSuite :: string
  rt_suite :: mlkem_suite
  rt_binding :: bytes
  rt_outboundDirection :: string
  rt_inboundDirection :: string
  rt_machine :: pq_machine
  rt_messageRoot :: bytes
  rt_outbox :: "pq_outbox option"
  rt_lastInboundOfferFrame :: "bytes option"
  rt_lastInboundAdvanceFrame :: "bytes option"
  rt_cachedAckFrame :: "bytes option"
  rt_activeReceiveKeys :: key_map
  rt_messagesSinceHealing :: int
  rt_lastHealedAt :: int
  rt_destroyed :: bool

type_synonym 'a rt_result = "(runtime_error + 'a) \<times> pq_runtime"

definition rt_bind :: "'a rt_result \<Rightarrow> ('a \<Rightarrow> pq_runtime \<Rightarrow> 'b rt_result) \<Rightarrow> 'b rt_result" where
  "rt_bind p k = (case fst p of Inl e \<Rightarrow> (Inl e, snd p) | Inr x \<Rightarrow> k x (snd p))"

definition on_machine :: "pq_runtime \<Rightarrow> (pq_machine \<Rightarrow> 'a pq_result) \<Rightarrow> 'a rt_result" where
  "on_machine rt f = (case f (rt_machine rt) of (r, m) \<Rightarrow> (from_machine r, rt\<lparr>rt_machine := m\<rparr>))"

definition rt_assertLive :: "pq_runtime \<Rightarrow> runtime_error + unit" where
  "rt_assertLive rt = ensure (\<not> rt_destroyed rt) (RuntimeFail ''state is destroyed'')"

definition machine_epoch :: "pq_machine \<Rightarrow> pq_error + int" where
  "machine_epoch m = rbind (assertActive m) (\<lambda>_. Inr (mEpoch m))"

definition machine_nextOfferer :: "pq_machine \<Rightarrow> pq_error + turn" where
  "machine_nextOfferer m = rbind (assertActive m) (\<lambda>_. Inr (mNextOfferer m))"

definition newSparsePqHealingState ::
    "string \<Rightarrow> string \<Rightarrow> bytes \<Rightarrow> bytes \<Rightarrow> turn \<Rightarrow> bool \<Rightarrow> int \<Rightarrow> runtime_error + pq_runtime" where
  "newSparsePqHealingState mode suiteName binding root nextOfferer amInitiator now =
     rbind (from_policy (roomPqModeToParameterSet mode)) (\<lambda>parameterSet.
     rbind (from_policy (roomPqModeToRootSuite mode)) (\<lambda>expected.
     rbind (ensure (expected = suiteName) (RuntimeFail ''authenticated root suite and room PQ mode disagree'')) (\<lambda>_.
     rbind (edgeRequireBytes binding ''edge binding'' 32) (\<lambda>_.
     rbind (edgeRequireBytes root ''PQ root'' 32) (\<lambda>_.
     rbind (from_machine (getMlKemSuite parameterSet)) (\<lambda>suite.
     rbind (from_machine (newPqHealingMachine suite suite binding root nextOfferer None None None)) (\<lambda>machine.
     rbind (from_machine (fst (copyRootKey machine))) (\<lambda>messageRoot.
     rbind (requireSafeUint now ''initial healing time'') (\<lambda>_.
     Inr \<lparr>rt_pqMode = mode, rt_rootSuite = suiteName, rt_suite = suite, rt_binding = binding,
          rt_outboundDirection = (if amInitiator then ''initiator-to-responder'' else ''responder-to-initiator''),
          rt_inboundDirection = (if amInitiator then ''responder-to-initiator'' else ''initiator-to-responder''),
          rt_machine = machine, rt_messageRoot = messageRoot, rt_outbox = None, rt_lastInboundOfferFrame = None,
          rt_lastInboundAdvanceFrame = None, rt_cachedAckFrame = None, rt_activeReceiveKeys = [],
          rt_messagesSinceHealing = 0, rt_lastHealedAt = now, rt_destroyed = False\<rparr>)))))))))"

section \<open>Reading the state\<close>

definition rt_epoch :: "pq_runtime \<Rightarrow> runtime_error + int" where
  "rt_epoch rt = rbind (rt_assertLive rt) (\<lambda>_. from_machine (machine_epoch (rt_machine rt)))"

definition rt_trafficBlocked :: "pq_runtime \<Rightarrow> bool" where
  "rt_trafficBlocked rt \<longleftrightarrow> rt_destroyed rt \<or> trafficBlocked (rt_machine rt)"

definition currentMessageContext :: "pq_runtime \<Rightarrow> runtime_error + pq_message_context" where
  "currentMessageContext rt =
     rbind (rt_assertLive rt) (\<lambda>_.
     rbind (from_machine (machine_epoch (rt_machine rt))) (\<lambda>epoch.
     Inr \<lparr>pm_rootKey = rt_messageRoot rt, pm_binding = rt_binding rt, pm_rootSuite = rt_rootSuite rt, pm_epoch = epoch\<rparr>))"

definition resolveMessageContext :: "int \<Rightarrow> pq_runtime \<Rightarrow> runtime_error + pq_message_context option" where
  "resolveMessageContext epoch rt =
     rbind (rt_assertLive rt) (\<lambda>_.
     rbind (from_machine (machine_epoch (rt_machine rt))) (\<lambda>current.
     if epoch = current then rbind (currentMessageContext rt) (\<lambda>ctx. Inr (Some ctx)) else Inr None))"

definition healingDue :: "int \<Rightarrow> pq_runtime \<Rightarrow> runtime_error + bool" where
  "healingDue now rt =
     rbind (rt_assertLive rt) (\<lambda>_.
     rbind (requireSafeUint now ''healing clock'') (\<lambda>_.
     if trafficBlocked (rt_machine rt) then Inr False
     else rbind (from_machine (machine_nextOfferer (rt_machine rt))) (\<lambda>t.
          Inr (t = Local \<and> (rt_messagesSinceHealing rt \<ge> PQ_HEAL_AFTER_MESSAGES \<or>
                 now - rt_lastHealedAt rt \<ge> PQ_HEAL_AFTER_MS)))))"

definition copyPendingFrame :: "pq_runtime \<Rightarrow> runtime_error + bytes option" where
  "copyPendingFrame rt = rbind (rt_assertLive rt) (\<lambda>_. Inr (map_option ob_frame (rt_outbox rt)))"

definition pendingRetryAt :: "pq_runtime \<Rightarrow> runtime_error + int option" where
  "pendingRetryAt rt = rbind (rt_assertLive rt) (\<lambda>_. Inr (map_option ob_nextRetryAt (rt_outbox rt)))"

definition pendingAttempts :: "pq_runtime \<Rightarrow> runtime_error + int" where
  "pendingAttempts rt =
     rbind (rt_assertLive rt) (\<lambda>_. Inr (case rt_outbox rt of None \<Rightarrow> 0 | Some ob \<Rightarrow> ob_attempts ob))"

section \<open>Counting and dispatching\<close>

definition noteApplicationMessage :: "pq_runtime \<Rightarrow> runtime_error + pq_runtime" where
  "noteApplicationMessage rt =
     rbind (rt_assertLive rt) (\<lambda>_.
     rbind (ensure (\<not> rt_messagesSinceHealing rt \<ge> MAX_SAFE_INTEGER) (RuntimeFail ''application-message counter overflow'')) (\<lambda>_.
     Inr (rt\<lparr>rt_messagesSinceHealing := rt_messagesSinceHealing rt + 1\<rparr>)))"

definition markPendingDispatched :: "int \<Rightarrow> pq_runtime \<Rightarrow> runtime_error + pq_runtime" where
  "markPendingDispatched now rt =
     rbind (rt_assertLive rt) (\<lambda>_.
     case rt_outbox rt of
       None \<Rightarrow> Inl (RuntimeFail ''there is no PQ control outbox'')
     | Some ob \<Rightarrow>
         rbind (requireSafeUint now ''dispatch clock'') (\<lambda>_.
         rbind (ensure (\<not> ob_attempts ob \<ge> PQ_HEAL_MAX_RETRIES) (RuntimeFail ''PQ control retry budget is exhausted'')) (\<lambda>_.
         Inr (rt\<lparr>rt_outbox := Some \<lparr>ob_kind = ob_kind ob, ob_frame = ob_frame ob, ob_attempts = ob_attempts ob + 1,
                                   ob_nextRetryAt = now + PQ_HEAL_RETRY_MS\<rparr>\<rparr>))))"

definition clearDuplicateCache :: "pq_runtime \<Rightarrow> pq_runtime" where
  "clearDuplicateCache rt =
     rt\<lparr>rt_lastInboundOfferFrame := None, rt_lastInboundAdvanceFrame := None, rt_cachedAckFrame := None\<rparr>"

definition refreshMessageRoot :: "pq_runtime \<Rightarrow> unit rt_result" where
  "refreshMessageRoot rt = rt_bind (on_machine rt copyRootKey) (\<lambda>root rt. (Inr (), rt\<lparr>rt_messageRoot := root\<rparr>))"

text \<open>The call of \<^verbatim>\<open>sealPqControlFrame\<close> or \<^verbatim>\<open>openPqControlFrame\<close> with the keys of the edge.\<close>

definition frame_context :: "'r libcrypto \<Rightarrow> pq_runtime \<Rightarrow> bytes \<Rightarrow> string \<Rightarrow> int \<Rightarrow> 'r frame_context" where
  "frame_context module rt root direction epoch =
     \<lparr>fc_module = module, fc_suite = rt_suite rt, fc_rootKey = root, fc_binding = rt_binding rt,
      fc_direction = direction, fc_keyEpoch = epoch\<rparr>"

definition seal_outbound :: "aead \<Rightarrow> 'r libcrypto \<Rightarrow> bytes \<Rightarrow> bytes \<Rightarrow> bytes \<Rightarrow> pq_runtime \<Rightarrow> bytes rt_result" where
  "seal_outbound A module root record nonce rt =
     (rbind (from_machine (machine_epoch (rt_machine rt))) (\<lambda>epoch.
        from_frame (sealPqControlFrame A (frame_context module rt root (rt_outboundDirection rt) epoch) record nonce)), rt)"

section \<open>Offering\<close>

definition prepareHealingOffer_start :: "int \<Rightarrow> pq_runtime \<Rightarrow> unit rt_result" where
  "prepareHealingOffer_start now rt =
     rt_bind (rbind (rt_assertLive rt) (\<lambda>_. rbind (healingDue now rt) (\<lambda>due.
                ensure due (RuntimeFail ''a local sparse-PQ healing exchange is not due''))), rt) (\<lambda>_ rt.
     on_machine rt prepareOffer_start)"

definition prepareHealingOffer_resume ::
    "aead \<Rightarrow> 'r libcrypto \<Rightarrow> mlkem_keypair option \<Rightarrow> bytes \<Rightarrow> int \<Rightarrow> pq_runtime \<Rightarrow> bytes rt_result" where
  "prepareHealingOffer_resume A module answer nonce now rt =
     rt_bind (on_machine rt (prepareOffer_resume answer)) (\<lambda>record rt.
     rt_bind (on_machine rt copyRootKey) (\<lambda>root rt.
     rt_bind (seal_outbound A module root record nonce rt) (\<lambda>frame rt.
     rt_bind (on_machine rt markOfferDispatched) (\<lambda>_ rt.
     (Inr frame, clearDuplicateCache (rt\<lparr>rt_outbox := Some \<lparr>ob_kind = OfferKind, ob_frame = frame, ob_attempts = 0,
        ob_nextRetryAt = now\<rparr>\<rparr>))))))"

section \<open>Control frames\<close>

text \<open>A control frame is answered at once (the frame to dispatch, and whether the state changed), or after the
  backend has encapsulated to an OFFER or decapsulated an ADVANCE.\<close>

datatype control_outcome =
    Answered "bytes option" bool
  | AwaitsEncaps bytes decoded_offer
  | AwaitsDecaps "decoded_advance \<times> decoded_offer \<times> mlkem_keypair"

definition accept_ack :: "bytes \<Rightarrow> int \<Rightarrow> pq_runtime \<Rightarrow> control_outcome rt_result" where
  "accept_ack record now rt =
     (case rt_outbox rt of
        Some ob \<Rightarrow>
          if ob_kind ob \<noteq> AdvanceKind then (Inl (RuntimeFail ''unexpected PQ ADVANCE acknowledgement''), rt)
          else
            rt_bind (from_machine (decodePqHealingAck record (rt_suite rt) (rt_binding rt)), rt) (\<lambda>acknowledgement rt.
            rt_bind (on_machine rt (acceptAuthenticatedAdvanceAcknowledgement acknowledgement)) (\<lambda>_ rt.
            rt_bind (refreshMessageRoot ((clearDuplicateCache (rt\<lparr>rt_outbox := None\<rparr>))
                       \<lparr>rt_messagesSinceHealing := 0, rt_lastHealedAt := now\<rparr>)) (\<lambda>_ rt.
            (Inr (Answered None True), rt))))
      | None \<Rightarrow> (Inl (RuntimeFail ''unexpected PQ ADVANCE acknowledgement''), rt))"

definition accept_record :: "bytes \<Rightarrow> bytes \<Rightarrow> int \<Rightarrow> pq_runtime \<Rightarrow> control_outcome rt_result" where
  "accept_record root record now rt =
     (if length record = PQ_HEALING_ACK_BYTES then accept_ack record now rt
      else
        rt_bind (from_machine (inspectPqHealingRecord record (rt_suite rt)), rt) (\<lambda>inspected rt.
        case inspected of
          InspectedOffer _ _ \<Rightarrow>
            rt_bind (on_machine rt (acceptAuthenticatedOffer record)) (\<lambda>_ rt.
            rt_bind (on_machine rt prepareAdvance_start) (\<lambda>offer rt. (Inr (AwaitsEncaps root offer), rt)))
        | InspectedAdvance _ _ \<Rightarrow>
            (case rt_outbox rt of
               Some ob \<Rightarrow>
                 if ob_kind ob \<noteq> OfferKind then (Inl (RuntimeFail ''unexpected PQ ADVANCE without a persisted OFFER''), rt)
                 else rt_bind (on_machine rt (acceptAuthenticatedAdvance_start record)) (\<lambda>pending rt. (Inr (AwaitsDecaps pending), rt))
             | None \<Rightarrow> (Inl (RuntimeFail ''unexpected PQ ADVANCE without a persisted OFFER''), rt))))"

definition duplicate_answer :: "bytes \<Rightarrow> pq_runtime \<Rightarrow> bytes option" where
  "duplicate_answer frame rt =
     (case (rt_lastInboundOfferFrame rt, rt_outbox rt) of
        (Some f, Some ob) \<Rightarrow>
          if ob_kind ob = AdvanceKind \<and> bytesEqual frame f then Some (ob_frame ob)
          else (case (rt_lastInboundAdvanceFrame rt, rt_cachedAckFrame rt) of
                  (Some g, Some ack) \<Rightarrow> if bytesEqual frame g then Some ack else None | _ \<Rightarrow> None)
      | _ \<Rightarrow> (case (rt_lastInboundAdvanceFrame rt, rt_cachedAckFrame rt) of
                (Some g, Some ack) \<Rightarrow> if bytesEqual frame g then Some ack else None | _ \<Rightarrow> None))"

definition acceptControlFrame_start :: "aead \<Rightarrow> 'r libcrypto \<Rightarrow> bytes \<Rightarrow> int \<Rightarrow> pq_runtime \<Rightarrow> control_outcome rt_result" where
  "acceptControlFrame_start A module frame now rt =
     rt_bind (rbind (rt_assertLive rt) (\<lambda>_.
              rbind (edgeRequireBytes frame ''PQ control frame'' WIRE_CHUNK_FRAME_LEN) (\<lambda>_.
              requireSafeUint now ''control clock'')), rt) (\<lambda>_ rt.
     case duplicate_answer frame rt of
       Some cached \<Rightarrow> (Inr (Answered (Some cached) False), rt)
     | None \<Rightarrow>
         rt_bind (on_machine rt copyRootKey) (\<lambda>root rt.
         rt_bind (rbind (from_machine (machine_epoch (rt_machine rt))) (\<lambda>epoch.
                    from_frame (openPqControlFrame A (frame_context module rt root (rt_inboundDirection rt) epoch) frame)), rt)
           (\<lambda>record rt. accept_record root record now rt)))"

definition answerOffer_resume ::
    "aead \<Rightarrow> 'r libcrypto \<Rightarrow> bytes \<Rightarrow> decoded_offer \<Rightarrow> (bytes \<times> bytes) option \<Rightarrow> bytes \<Rightarrow> bytes \<Rightarrow> int \<Rightarrow> pq_runtime \<Rightarrow>
     (bytes option \<times> bool) rt_result" where
  "answerOffer_resume A module root offer answer nonce frame now rt =
     rt_bind (on_machine rt (prepareAdvance_resume module offer answer)) (\<lambda>advance rt.
     rt_bind (seal_outbound A module root advance nonce rt) (\<lambda>sealedAdvance rt.
     rt_bind (on_machine rt commitPreparedAdvance) (\<lambda>_ rt.
     rt_bind (refreshMessageRoot
                (rt\<lparr>rt_outbox := Some \<lparr>ob_kind = AdvanceKind, ob_frame = sealedAdvance, ob_attempts = 0, ob_nextRetryAt = now\<rparr>,
                    rt_lastInboundOfferFrame := Some frame, rt_lastInboundAdvanceFrame := None,
                    rt_cachedAckFrame := None\<rparr>)) (\<lambda>_ rt.
     (Inr (Some sealedAdvance, True), rt)))))"

definition answerAdvance_resume ::
    "aead \<Rightarrow> 'r libcrypto \<Rightarrow> decoded_advance \<times> decoded_offer \<times> mlkem_keypair \<Rightarrow> bytes option \<Rightarrow> bytes \<Rightarrow> bytes \<Rightarrow> int \<Rightarrow>
     pq_runtime \<Rightarrow> (bytes option \<times> bool) rt_result" where
  "answerAdvance_resume A module pending answer nonce frame now rt =
     rt_bind (on_machine rt (acceptAuthenticatedAdvance_resume module pending answer)) (\<lambda>_ rt.
     rt_bind (on_machine rt commitAcceptedAdvance) (\<lambda>acknowledgement rt.
     rt_bind (from_machine (encodePqHealingAck acknowledgement (rt_suite rt) (rt_binding rt)), rt) (\<lambda>ackRecord rt.
     rt_bind (on_machine rt copyRootKey) (\<lambda>nextRoot rt.
     rt_bind (from_frame (sealPqControlFrame A (frame_context module rt nextRoot (rt_outboundDirection rt)
                (ack_epoch acknowledgement)) ackRecord nonce), rt) (\<lambda>ackFrame rt.
     rt_bind (on_machine rt (markAdvanceAcknowledgementDispatched acknowledgement)) (\<lambda>_ rt.
     rt_bind (refreshMessageRoot
                (rt\<lparr>rt_outbox := None, rt_lastInboundAdvanceFrame := Some frame, rt_cachedAckFrame := Some ackFrame,
                    rt_lastInboundOfferFrame := None, rt_messagesSinceHealing := 0, rt_lastHealedAt := now\<rparr>)) (\<lambda>_ rt.
     (Inr (Some ackFrame, True), rt))))))))"

section \<open>Copies\<close>

definition rt_destroy :: "pq_runtime \<Rightarrow> pq_runtime" where
  "rt_destroy rt =
     (if rt_destroyed rt then rt
      else rt\<lparr>rt_machine := destroy (rt_machine rt), rt_binding := wipe (rt_binding rt),
              rt_messageRoot := wipe (rt_messageRoot rt), rt_activeReceiveKeys := [], rt_outbox := None,
              rt_lastInboundOfferFrame := None, rt_lastInboundAdvanceFrame := None, rt_cachedAckFrame := None,
              rt_destroyed := True\<rparr>)"

definition rt_clone :: "pq_runtime \<Rightarrow> runtime_error + pq_runtime" where
  "rt_clone rt =
     rbind (rt_assertLive rt) (\<lambda>_.
     rbind (from_machine (fst (copyRootKey (rt_machine rt)))) (\<lambda>root.
     rbind (from_machine (machine_nextOfferer (rt_machine rt))) (\<lambda>nextOfferer.
     rbind (newSparsePqHealingState (rt_pqMode rt) (rt_rootSuite rt) (rt_binding rt) root nextOfferer
              (rt_outboundDirection rt = ''initiator-to-responder'') (rt_lastHealedAt rt)) (\<lambda>copy.
     rbind (from_machine (clone (rt_suite rt) (rt_machine rt))) (\<lambda>machine.
     Inr (copy\<lparr>rt_machine := machine, rt_messageRoot := rt_messageRoot rt, rt_outbox := rt_outbox rt,
               rt_lastInboundOfferFrame := rt_lastInboundOfferFrame rt,
               rt_lastInboundAdvanceFrame := rt_lastInboundAdvanceFrame rt,
               rt_cachedAckFrame := rt_cachedAckFrame rt, rt_activeReceiveKeys := rt_activeReceiveKeys rt,
               rt_messagesSinceHealing := rt_messagesSinceHealing rt, rt_lastHealedAt := rt_lastHealedAt rt\<rparr>))))))"

text \<open>\<open>same\<close>: the state adopts itself; \<open>sameModule\<close>: both were built on one module object.\<close>

definition rt_adopt :: "bool \<Rightarrow> bool \<Rightarrow> pq_runtime \<Rightarrow> pq_runtime \<Rightarrow> (runtime_error + unit) \<times> pq_runtime \<times> pq_runtime" where
  "rt_adopt same sameModule rt nxt =
     (case rbind (rt_assertLive rt) (\<lambda>_. rbind (rt_assertLive nxt) (\<lambda>_.
             rbind (ensure (\<not> same) (RuntimeFail ''cannot adopt a PQ runtime into itself'')) (\<lambda>_.
             ensure (\<not> (\<not> sameModule \<or> rt_pqMode nxt \<noteq> rt_pqMode rt \<or> rt_rootSuite nxt \<noteq> rt_rootSuite rt \<or>
                       rt_outboundDirection nxt \<noteq> rt_outboundDirection rt \<or> \<not> bytesEqual (rt_binding nxt) (rt_binding rt)))
               (RuntimeFail ''cannot adopt a PQ runtime from another authenticated edge'')))) of
        Inl e \<Rightarrow> (Inl e, rt, nxt)
      | Inr _ \<Rightarrow>
          (Inr (),
           rt\<lparr>rt_machine := rt_machine nxt, rt_messageRoot := rt_messageRoot nxt, rt_outbox := rt_outbox nxt,
              rt_lastInboundOfferFrame := rt_lastInboundOfferFrame nxt,
              rt_lastInboundAdvanceFrame := rt_lastInboundAdvanceFrame nxt, rt_cachedAckFrame := rt_cachedAckFrame nxt,
              rt_activeReceiveKeys := rt_activeReceiveKeys nxt, rt_messagesSinceHealing := rt_messagesSinceHealing nxt,
              rt_lastHealedAt := rt_lastHealedAt nxt\<rparr>,
           nxt\<lparr>rt_messageRoot := zeros 32, rt_outbox := None, rt_lastInboundOfferFrame := None,
               rt_lastInboundAdvanceFrame := None, rt_cachedAckFrame := None, rt_activeReceiveKeys := [],
               rt_binding := wipe (rt_binding nxt), rt_destroyed := True\<rparr>))"

section \<open>Checkpoints\<close>

definition rt_serialize :: "key_map option \<Rightarrow> pq_runtime \<Rightarrow> runtime_error + bytes" where
  "rt_serialize activeReceiveKeys rt =
     rbind (rt_assertLive rt) (\<lambda>_.
     rbind (from_machine (snapshot (rt_machine rt))) (\<lambda>s.
     rbind (w_bytes EDGE_MAGIC newByteWriter) (\<lambda>w.
     rbind (w_u8 EDGE_FORMAT_VERSION w) (\<lambda>w.
     rbind (edgeSuiteTag (parameterSet (rt_suite rt))) (\<lambda>tag.
     rbind (w_u8 tag w) (\<lambda>w.
     rbind (w_u8 (if rt_outboundDirection rt = ''initiator-to-responder'' then 1 else 2) w) (\<lambda>w.
     rbind (w_u8 0 w) (\<lambda>w.
     rbind (w_u64 (rt_lastHealedAt rt) w) (\<lambda>w.
     rbind (w_u64 (rt_messagesSinceHealing rt) w) (\<lambda>w.
     rbind (w_bytes (s_binding s) w) (\<lambda>w.
     rbind (w_bytes (s_rootKey s) w) (\<lambda>w.
     rbind (w_u64 (s_epoch s) w) (\<lambda>w.
     rbind (w_u64 (s_localCounter s) w) (\<lambda>w.
     rbind (w_u64 (s_remoteCounter s) w) (\<lambda>w.
     rbind (turnTag (s_nextOfferer s)) (\<lambda>turn.
     rbind (w_u8 turn w) (\<lambda>w.
     rbind (writePhase (s_phase s) w) (\<lambda>w.
     rbind (w_sized (s_lastInboundOffer s) w) (\<lambda>w.
     rbind (w_sized (s_lastInboundAdvance s) w) (\<lambda>w.
     rbind (writeOutbox (rt_outbox rt) w) (\<lambda>w.
     rbind (w_sized (rt_lastInboundOfferFrame rt) w) (\<lambda>w.
     rbind (w_sized (rt_lastInboundAdvanceFrame rt) w) (\<lambda>w.
     rbind (w_sized (rt_cachedAckFrame rt) w) (\<lambda>w.
     rbind (writeActiveKeys (case activeReceiveKeys of None \<Rightarrow> rt_activeReceiveKeys rt | Some ks \<Rightarrow> ks) w) (\<lambda>w.
     Inr (fst (w_finish w)))))))))))))))))))))))))))"

definition readCheckpointBinding :: "bytes \<Rightarrow> runtime_error + bytes" where
  "readCheckpointBinding bytes =
     (let bindingOffset = length EDGE_MAGIC + 1 + 1 + 1 + 1 + 8 + 8
      in if length bytes < bindingOffset + 32 then Inl (RuntimeFail ''checkpoint is too short to contain a binding'')
         else Inr (sub bytes bindingOffset (bindingOffset + 32)))"

definition offer_dispatched :: "pq_machine \<Rightarrow> bool" where
  "offer_dispatched m \<longleftrightarrow> \<not> mDestroyed m \<and> (case mPhase m of OutboundOffer d _ _ \<Rightarrow> d | _ \<Rightarrow> False)"

definition awaiting_ack :: "pq_machine \<Rightarrow> bool" where
  "awaiting_ack m \<longleftrightarrow> \<not> mDestroyed m \<and> (case mPhase m of OutboundAdvanceAwaitingAck _ _ \<Rightarrow> True | _ \<Rightarrow> False)"

definition validateCheckpointCoherence :: "pq_runtime \<Rightarrow> runtime_error + unit" where
  "validateCheckpointCoherence rt =
     (let kind = map_option ob_kind (rt_outbox rt); m = rt_machine rt
      in if (offer_dispatched m \<and> kind \<noteq> Some OfferKind) \<or> (awaiting_ack m \<and> kind \<noteq> Some AdvanceKind) \<or>
            (kind = Some OfferKind \<and> \<not> offer_dispatched m) \<or> (kind = Some AdvanceKind \<and> \<not> awaiting_ack m)
         then Inl (RuntimeFail ''checkpoint PQ phase and sealed outbox disagree'')
         else if rt_lastInboundOfferFrame rt \<noteq> None \<and> kind \<noteq> Some AdvanceKind
         then Inl (RuntimeFail ''checkpoint cached OFFER has no matching ADVANCE outbox'')
         else if (rt_lastInboundAdvanceFrame rt = None) \<noteq> (rt_cachedAckFrame rt = None)
         then Inl (RuntimeFail ''checkpoint ADVANCE replay and ACK cache must be paired'')
         else if rt_lastInboundOfferFrame rt \<noteq> None \<and> rt_lastInboundAdvanceFrame rt \<noteq> None
         then Inl (RuntimeFail ''checkpoint contains mutually exclusive replay caches'')
         else Inr ())"

definition cached_frame_ok :: "bytes option \<Rightarrow> runtime_error + unit" where
  "cached_frame_ok frame =
     (case frame of None \<Rightarrow> Inr () | Some f \<Rightarrow> edgeRequireBytes f ''cached control frame'' WIRE_CHUNK_FRAME_LEN)"

text \<open>The fields of a checkpoint in the order of the reader.\<close>

record checkpoint =
  cp_lastHealedAt :: int
  cp_messagesSinceHealing :: int
  cp_snapshot :: pq_snapshot
  cp_outbox :: "pq_outbox option"
  cp_lastOfferFrame :: "bytes option"
  cp_lastAdvanceFrame :: "bytes option"
  cp_cachedAckFrame :: "bytes option"
  cp_activeKeys :: key_map

definition read_checkpoint :: "bytes \<Rightarrow> string \<Rightarrow> string \<Rightarrow> bytes \<Rightarrow> bool \<Rightarrow> runtime_error + mlkem_suite \<times> checkpoint" where
  "read_checkpoint bytes mode suiteName expectedBinding amInitiator =
     rbind (edgeRequireBytes expectedBinding ''expected edge binding'' 32) (\<lambda>_.
     rbind (newByteReader bytes) (\<lambda>rd.
     rbind (r_take (length EDGE_MAGIC) rd) (\<lambda>(magic, rd).
     rbind (ensure (bytesEqual magic EDGE_MAGIC) (RuntimeFail ''checkpoint magic is invalid'')) (\<lambda>_.
     rbind (r_u8 rd) (\<lambda>(version, rd).
     rbind (ensure (version = EDGE_FORMAT_VERSION) (RuntimeFail ''checkpoint version is unsupported'')) (\<lambda>_.
     rbind (r_u8 rd) (\<lambda>(tag, rd).
     rbind (tagSuite tag) (\<lambda>parameterSet.
     rbind (from_policy (roomPqModeToParameterSet mode)) (\<lambda>expectedSet.
     rbind (ensure (parameterSet = expectedSet) (RuntimeFail ''checkpoint suite disagrees with the authenticated room policy'')) (\<lambda>_.
     rbind (from_policy (roomPqModeToRootSuite mode)) (\<lambda>expectedSuite.
     rbind (ensure (expectedSuite = suiteName) (RuntimeFail ''authenticated root suite and room PQ mode disagree'')) (\<lambda>_.
     rbind (r_u8 rd) (\<lambda>(directionTag, rd).
     rbind (ensure (directionTag = (if amInitiator then 1 else 2)) (RuntimeFail ''checkpoint belongs to the opposite edge direction'')) (\<lambda>_.
     rbind (r_u8 rd) (\<lambda>(reserved, rd).
     rbind (ensure (reserved = 0) (RuntimeFail ''checkpoint reserved byte is non-zero'')) (\<lambda>_.
     rbind (r_u64 rd) (\<lambda>(lastHealedAt, rd).
     rbind (r_u64 rd) (\<lambda>(messagesSinceHealing, rd).
     rbind (ensure (\<not> (lastHealedAt > MAX_SAFE_INTEGER \<or> messagesSinceHealing > MAX_SAFE_INTEGER))
              (RuntimeFail ''checkpoint counters exceed the safe-integer range'')) (\<lambda>_.
     rbind (r_take 32 rd) (\<lambda>(binding, rd).
     rbind (ensure (bytesEqual binding expectedBinding) (RuntimeFail ''checkpoint belongs to another authenticated edge'')) (\<lambda>_.
     rbind (r_take 32 rd) (\<lambda>(rootKey, rd).
     rbind (from_machine (getMlKemSuite parameterSet)) (\<lambda>suite.
     rbind (r_u64 rd) (\<lambda>(epoch, rd).
     rbind (r_u64 rd) (\<lambda>(localCounter, rd).
     rbind (r_u64 rd) (\<lambda>(remoteCounter, rd).
     rbind (r_u8 rd) (\<lambda>(turnByte, rd).
     rbind (tagTurn turnByte) (\<lambda>nextOfferer.
     rbind (readPhase suite rd) (\<lambda>(phase, rd).
     rbind (r_sized (8 * 1024) rd) (\<lambda>(lastInboundOffer, rd).
     rbind (r_sized (8 * 1024) rd) (\<lambda>(lastInboundAdvance, rd).
     rbind (readOutbox rd) (\<lambda>(outbox, rd).
     rbind (r_sized WIRE_CHUNK_FRAME_LEN rd) (\<lambda>(lastOfferFrame, rd).
     rbind (r_sized WIRE_CHUNK_FRAME_LEN rd) (\<lambda>(lastAdvanceFrame, rd).
     rbind (r_sized WIRE_CHUNK_FRAME_LEN rd) (\<lambda>(cachedAckFrame, rd).
     rbind (cached_frame_ok lastOfferFrame) (\<lambda>_.
     rbind (cached_frame_ok lastAdvanceFrame) (\<lambda>_.
     rbind (cached_frame_ok cachedAckFrame) (\<lambda>_.
     rbind (readActiveKeys rd) (\<lambda>(activeKeys, rd).
     rbind (r_finish rd) (\<lambda>_.
     Inr (suite,
       \<lparr>cp_lastHealedAt = lastHealedAt, cp_messagesSinceHealing = messagesSinceHealing,
        cp_snapshot = \<lparr>s_formatVersion = 1, s_parameterSet = parameterSet, s_binding = binding, s_rootKey = rootKey,
                       s_epoch = epoch, s_localCounter = localCounter, s_remoteCounter = remoteCounter,
                       s_nextOfferer = nextOfferer, s_phase = phase, s_lastInboundOffer = lastInboundOffer,
                       s_lastInboundAdvance = lastInboundAdvance\<rparr>,
        cp_outbox = outbox, cp_lastOfferFrame = lastOfferFrame, cp_lastAdvanceFrame = lastAdvanceFrame,
        cp_cachedAckFrame = cachedAckFrame, cp_activeKeys = activeKeys\<rparr>)))))))))))))))))))))))))))))))))))))))))"

definition rt_restore :: "bytes \<Rightarrow> string \<Rightarrow> string \<Rightarrow> bytes \<Rightarrow> bool \<Rightarrow> runtime_error + pq_runtime" where
  "rt_restore bytes mode suiteName expectedBinding amInitiator =
     rbind (read_checkpoint bytes mode suiteName expectedBinding amInitiator) (\<lambda>(suite, cp).
     rbind (from_machine (restore (cp_snapshot cp) suite suite expectedBinding)) (\<lambda>machine.
     rbind (from_machine (fst (copyRootKey machine))) (\<lambda>root.
     rbind (from_machine (machine_nextOfferer machine)) (\<lambda>nextOfferer.
     rbind (newSparsePqHealingState mode suiteName expectedBinding root nextOfferer amInitiator (cp_lastHealedAt cp)) (\<lambda>restored.
     rbind (from_machine (fst (copyRootKey machine))) (\<lambda>messageRoot.
     let restored = restored\<lparr>rt_machine := machine, rt_messageRoot := messageRoot, rt_outbox := cp_outbox cp,
             rt_lastInboundOfferFrame := cp_lastOfferFrame cp, rt_lastInboundAdvanceFrame := cp_lastAdvanceFrame cp,
             rt_cachedAckFrame := cp_cachedAckFrame cp, rt_activeReceiveKeys := cp_activeKeys cp,
             rt_messagesSinceHealing := cp_messagesSinceHealing cp\<rparr>
     in rbind (validateCheckpointCoherence restored) (\<lambda>_. Inr restored)))))))"

end
