(* ===== verification/Pq_Checkpoint.thy ===== *)
theory Pq_Checkpoint
  imports Pq_Runtime
begin

text \<open>
  The checkpoint of a healing runtime is written within its budget and read back. The invariant
  \<open>rt_ok\<close> is what a runtime at rest satisfies; it is also what every accepted checkpoint gives.
\<close>

section \<open>The invariant of a runtime at rest\<close>

definition edge_of :: "string \<Rightarrow> string \<Rightarrow> bytes \<Rightarrow> bool \<Rightarrow> pq_runtime \<Rightarrow> bool" where
  "edge_of mode suiteName binding amInitiator rt \<longleftrightarrow>
     rt_pqMode rt = mode \<and> rt_rootSuite rt = suiteName \<and> rt_binding rt = binding \<and> length binding = 32 \<and>
     roomPqModeToRootSuite mode = Inr suiteName \<and>
     (\<exists>p. roomPqModeToParameterSet mode = Inr p \<and> getMlKemSuite p = Inr (rt_suite rt)) \<and>
     rt_outboundDirection rt = (if amInitiator then ''initiator-to-responder'' else ''responder-to-initiator'') \<and>
     rt_inboundDirection rt = (if amInitiator then ''responder-to-initiator'' else ''initiator-to-responder'')"

definition cached_ok :: "bytes option \<Rightarrow> bool" where
  "cached_ok f \<longleftrightarrow> (case f of None \<Rightarrow> True | Some b \<Rightarrow> length b = 65490)"

definition clock_ok :: "int \<Rightarrow> bool" where
  "clock_ok t \<longleftrightarrow> 0 \<le> t \<and> t \<le> MAX_SAFE_INTEGER"

definition rt_ok :: "pq_runtime \<Rightarrow> bool" where
  "rt_ok rt \<longleftrightarrow> \<not> rt_destroyed rt \<and> pq_inv (rt_machine rt) \<and> live (rt_machine rt) \<and>
     mSuite (rt_machine rt) = rt_suite rt \<and> mBinding (rt_machine rt) = rt_binding rt \<and>
     rt_messageRoot rt = mRootKey (rt_machine rt) \<and> validateCheckpointCoherence rt = Inr () \<and>
     outbox_valid (rt_outbox rt) \<and> cached_ok (rt_lastInboundOfferFrame rt) \<and> cached_ok (rt_lastInboundAdvanceFrame rt) \<and>
     cached_ok (rt_cachedAckFrame rt) \<and> keys_ok (rt_activeReceiveKeys rt) \<and>
     clock_ok (rt_messagesSinceHealing rt) \<and> clock_ok (rt_lastHealedAt rt)"

lemma lift_iff [simp]:
  "from_policy r = Inr x \<longleftrightarrow> r = Inr x" "from_machine q = Inr y \<longleftrightarrow> q = Inr y" "from_frame c = Inr z \<longleftrightarrow> c = Inr z"
  by (simp_all add: from_policy_def from_machine_def from_frame_def split: sum.splits)

lemma lift_Inr [simp]: "from_policy (Inr x) = Inr x" "from_machine (Inr y) = Inr y" "from_frame (Inr z) = Inr z"
  by simp_all

lemma live_active [simp]: "live m \<Longrightarrow> assertActive m = Inr ()"
  by (simp add: live_def assertActive_def)

lemma live_reads [simp]:
  "live m \<Longrightarrow> machine_epoch m = Inr (mEpoch m)" "live m \<Longrightarrow> machine_nextOfferer m = Inr (mNextOfferer m)"
  "live m \<Longrightarrow> copyRootKey m = (Inr (mRootKey m), m)"
  by (simp_all add: machine_epoch_def machine_nextOfferer_def copyRootKey_def)

lemma rt_live [simp]: "rt_assertLive rt = Inr u \<longleftrightarrow> \<not> rt_destroyed rt"
  by (simp add: rt_assertLive_def)

lemma rt_live_ok [simp]: "\<not> rt_destroyed rt \<Longrightarrow> rt_assertLive rt = Inr ()"
  by simp

lemma safe_uint [simp]: "requireSafeUint t name = Inr u \<longleftrightarrow> clock_ok t"
  by (auto simp: requireSafeUint_def clock_ok_def is_safe_integer_def MAX_SAFE_INTEGER_def)

lemma safe_uint_ok [simp]: "clock_ok t \<Longrightarrow> requireSafeUint t name = Inr ()"
  by simp

lemma edge_suite:
  assumes "edge_of mode suiteName binding amInitiator rt"
  shows "canonical (rt_suite rt)" "roomPqModeToParameterSet mode = Inr (parameterSet (rt_suite rt))"
    "getMlKemSuite (parameterSet (rt_suite rt)) = Inr (rt_suite rt)"
proof -
  obtain p where p: "roomPqModeToParameterSet mode = Inr p" "getMlKemSuite p = Inr (rt_suite rt)" using assms by (auto simp: edge_of_def)
  have "canonical s \<and> p = parameterSet s" if "getMlKemSuite p = Inr s" for s
    using that by (auto simp: canonical_def getMlKemSuite_def ML_KEM_512_SUITE_def ML_KEM_768_SUITE_def ML_KEM_1024_SUITE_def split: if_splits)
  from this [OF p(2)] p show "canonical (rt_suite rt)" "roomPqModeToParameterSet mode = Inr (parameterSet (rt_suite rt))"
    "getMlKemSuite (parameterSet (rt_suite rt)) = Inr (rt_suite rt)" by simp_all
qed

lemma suite_sizes:
  assumes "canonical suite"
  shows "publicKeyBytes suite \<le> 1568 \<and> secretKeyBytes suite \<le> 3168 \<and> ciphertextBytes suite \<le> 1568 \<and> 0 < secretKeyBytes suite"
  using assms by (auto simp: canonical_def ML_KEM_512_SUITE_def ML_KEM_768_SUITE_def ML_KEM_1024_SUITE_def)

section \<open>The layout\<close>

definition edge_tag :: "mlkem_suite \<Rightarrow> int" where
  "edge_tag suite = (if parameterSet suite = 512 then 1 else if parameterSet suite = 768 then 2 else 3)"

definition head_parts :: "pq_runtime \<Rightarrow> bytes list" where
  "head_parts rt = [EDGE_MAGIC, [1], [of_int (edge_tag (rt_suite rt))],
     [if rt_outboundDirection rt = ''initiator-to-responder'' then 1 else 2], [0],
     be_enc 8 (nat (rt_lastHealedAt rt)), be_enc 8 (nat (rt_messagesSinceHealing rt)), rt_binding rt]"

definition machine_parts :: "pq_machine \<Rightarrow> bytes list" where
  "machine_parts m = [mRootKey m, be_enc 8 (nat (mEpoch m)), be_enc 8 (nat (mLocalCounter m)), be_enc 8 (nat (mRemoteCounter m)),
     [if mNextOfferer m = Local then 1 else 2]] @ phase_parts (snapshotPhase (mPhase m)) @
     sized_parts (map_option offer_bytes (mLastInboundOffer m)) @ sized_parts (map_option advance_bytes (mLastInboundAdvance m))"

definition tail_parts :: "pq_runtime \<Rightarrow> bytes list" where
  "tail_parts rt = outbox_parts (rt_outbox rt) @ sized_parts (rt_lastInboundOfferFrame rt) @
     sized_parts (rt_lastInboundAdvanceFrame rt) @ sized_parts (rt_cachedAckFrame rt)"

definition checkpoint_parts :: "key_map \<Rightarrow> pq_runtime \<Rightarrow> bytes list" where
  "checkpoint_parts ks rt = head_parts rt @ machine_parts (rt_machine rt) @ tail_parts rt @ keys_parts ks"

lemma magic_length [simp]: "length EDGE_MAGIC = 8"
  by (simp add: EDGE_MAGIC_def)

lemma record_lengths:
  "offerLength suite = 64 + publicKeyBytes suite" "advanceLength suite = 128 + publicKeyBytes suite + ciphertextBytes suite"
  by (simp_all add: offerLength_def advanceLength_def PQ_HEALING_RECORD_HEADER_BYTES_def)

lemma offer_length: "offer_ok s b x \<Longrightarrow> length (offer_bytes x) = 64 + publicKeyBytes s"
  using offer_okD(4) [of s b x] by (simp add: record_lengths)

lemma advance_length: "advance_ok s b a \<Longrightarrow> length (advance_bytes a) = 128 + publicKeyBytes s + ciphertextBytes s"
  using advance_okD(6) [of s b a] by (simp add: record_lengths)

lemma record_present [simp]: "offer_ok s b x \<Longrightarrow> offer_bytes x \<noteq> []" "advance_ok s b a \<Longrightarrow> advance_bytes a \<noteq> []"
  using offer_length [of s b x] advance_length [of s b a] by auto

lemma offer_phase_tag [simp]: "phaseTag (SOutboundOffer d x k) = (if d then 2 else 1)"
  by (cases d) simp_all

lemma machine_fields:
  assumes "pq_inv m"
  shows "phase_valid (mSuite m) (snapshotPhase (mPhase m))"
    "sized_ok 8192 (map_option offer_bytes (mLastInboundOffer m))" "sized_ok 8192 (map_option advance_bytes (mLastInboundAdvance m))"
    "length (concat (machine_parts m)) \<le> 11500"
proof -
  have c: "canonical (mSuite m)" and ph: "phase_ok m" and root: "length (mRootKey m) = 32" using assms by (simp_all add: pq_inv_def)
  have lo: "offer_ok (mSuite m) (mBinding m) x" if "mLastInboundOffer m = Some x" for x using assms that by (simp add: pq_inv_def)
  have la: "advance_ok (mSuite m) (mBinding m) a" if "mLastInboundAdvance m = Some a" for a using assms that by (simp add: pq_inv_def)
  note s = suite_sizes [OF c]
  have p: "phase_valid (mSuite m) (snapshotPhase (mPhase m)) \<and> length (concat (phase_parts (snapshotPhase (mPhase m)))) \<le> 6477"
    using ph s by (cases "mPhase m")
      (auto simp: phase_ok_def keypair_ok_def phase_valid_def phase_parts_def sized_ok_def offer_length advance_length split: bool.splits)
  have o1: "sized_ok 8192 (map_option offer_bytes (mLastInboundOffer m)) \<and>
      length (concat (sized_parts (map_option offer_bytes (mLastInboundOffer m)))) \<le> 1636"
    using lo s by (cases "mLastInboundOffer m") (auto simp: sized_ok_def sized_parts_def offer_length)
  have o2: "sized_ok 8192 (map_option advance_bytes (mLastInboundAdvance m)) \<and>
      length (concat (sized_parts (map_option advance_bytes (mLastInboundAdvance m)))) \<le> 3268"
    using la s by (cases "mLastInboundAdvance m") (auto simp: sized_ok_def sized_parts_def advance_length)
  show "phase_valid (mSuite m) (snapshotPhase (mPhase m))"
    "sized_ok 8192 (map_option offer_bytes (mLastInboundOffer m))" "sized_ok 8192 (map_option advance_bytes (mLastInboundAdvance m))"
    using p o1 o2 by blast+
  show "length (concat (machine_parts m)) \<le> 11500" using p o1 o2 root by (simp add: machine_parts_def)
qed

lemma keys_length:
  assumes "keys_ok ks"
  shows "length (concat (keys_parts ks)) \<le> 49666"
proof -
  have "length (concat (concat (map entry_parts es))) \<le> 194 * length es" if "list_all entry_ok es" for es
    using that
  proof (induction es)
    case (Cons kv es)
    then show ?case using entry_length [of kv] by (simp add: entry_parts_def entry_ok_def)
  qed simp
  from this [of "sorted_keys ks"] show ?thesis
    using assms by (simp add: keys_parts_def keys_ok_def sorted_keys_def list_all_iff)
qed

lemma tail_length:
  assumes "outbox_valid (rt_outbox rt)" "cached_ok (rt_lastInboundOfferFrame rt)" "cached_ok (rt_lastInboundAdvanceFrame rt)"
    "cached_ok (rt_cachedAckFrame rt)" "rt_lastInboundOfferFrame rt \<noteq> None \<longrightarrow> rt_lastInboundAdvanceFrame rt = None \<and> rt_cachedAckFrame rt = None"
  shows "length (concat (tail_parts rt)) \<le> 196600"
  using assms
  by (cases "rt_outbox rt"; cases "rt_lastInboundOfferFrame rt"; cases "rt_lastInboundAdvanceFrame rt"; cases "rt_cachedAckFrame rt")
    (simp_all add: tail_parts_def outbox_parts_def outbox_valid_def sized_parts_def cached_ok_def)

lemma coherent_iff:
  "validateCheckpointCoherence rt = Inr u \<longleftrightarrow>
     (offer_dispatched (rt_machine rt) \<longleftrightarrow> map_option ob_kind (rt_outbox rt) = Some OfferKind) \<and>
     (awaiting_ack (rt_machine rt) \<longleftrightarrow> map_option ob_kind (rt_outbox rt) = Some AdvanceKind) \<and>
     (rt_lastInboundOfferFrame rt \<noteq> None \<longrightarrow> map_option ob_kind (rt_outbox rt) = Some AdvanceKind) \<and>
     (rt_lastInboundAdvanceFrame rt = None \<longleftrightarrow> rt_cachedAckFrame rt = None) \<and>
     \<not> (rt_lastInboundOfferFrame rt \<noteq> None \<and> rt_lastInboundAdvanceFrame rt \<noteq> None)"
  by (auto simp: validateCheckpointCoherence_def Let_def)

lemma checkpoint_fits:
  assumes "rt_ok rt" "keys_ok ks" "length (rt_binding rt) = 32"
  shows "fits newByteWriter (checkpoint_parts ks rt)"
proof -
  have "length (concat (tail_parts rt)) \<le> 196600"
    using assms(1) by (intro tail_length) (auto simp: rt_ok_def coherent_iff)
  moreover have "length (concat (machine_parts (rt_machine rt))) \<le> 11500" using assms(1) machine_fields(4) by (simp add: rt_ok_def)
  moreover have "length (concat (head_parts rt)) = 60" using assms(3) by (simp add: head_parts_def)
  ultimately show ?thesis using keys_length [OF assms(2)]
    by (simp add: fits_def checkpoint_parts_def newByteWriter_def)
qed

section \<open>Writing\<close>

text \<open>The fields as conditional rewrites: a write that fits is a push.\<close>

lemma written_fields:
  "w_length w + 1 \<le> 262144 \<Longrightarrow> 0 \<le> n \<Longrightarrow> n \<le> 255 \<Longrightarrow> w_u8 n w = Inr (push w [[of_int n]])"
  "w_length w + 8 \<le> 262144 \<Longrightarrow> u64_ok t \<Longrightarrow> w_u64 t w = Inr (push w [be_enc 8 (nat t)])"
  "w_length w + length b \<le> 262144 \<Longrightarrow> w_bytes b w = Inr (push w [b])"
  "w_length w + length (concat (sized_parts z)) \<le> 262144 \<Longrightarrow> sized_ok 65490 z \<Longrightarrow> w_sized z w = Inr (push w (sized_parts z))"
  "w_length w + length (concat (outbox_parts ob)) \<le> 262144 \<Longrightarrow> outbox_valid ob \<Longrightarrow> writeOutbox ob w = Inr (push w (outbox_parts ob))"
  "w_length w + length (concat (keys_parts ks)) \<le> 262144 \<Longrightarrow> keys_ok ks \<Longrightarrow> writeActiveKeys ks w = Inr (push w (keys_parts ks))"
  using u8.write_law [of n w] u64.write_law [of t w] w_bytes_push [of w b] sized.write_law [of 65490 z w]
    outbox.write_law [of ob w] keys.write_law [of ks w]
  by (simp_all add: fits_def)

lemma sized_weaken: "sized_ok n z \<Longrightarrow> n \<le> k \<Longrightarrow> sized_ok k z"
  by (auto simp: sized_ok_def split: option.splits)

lemma cached_sized: "cached_ok f \<Longrightarrow> sized_ok 65490 f"
  by (cases f) (auto simp: cached_ok_def sized_ok_def)

lemma snapshot_live:
  "live m \<Longrightarrow> snapshot m = Inr \<lparr>s_formatVersion = 1, s_parameterSet = parameterSet (mSuite m),
     s_binding = mBinding m, s_rootKey = mRootKey m, s_epoch = mEpoch m, s_localCounter = mLocalCounter m,
     s_remoteCounter = mRemoteCounter m, s_nextOfferer = turn_name (mNextOfferer m), s_phase = snapshotPhase (mPhase m),
     s_lastInboundOffer = map_option offer_bytes (mLastInboundOffer m),
     s_lastInboundAdvance = map_option advance_bytes (mLastInboundAdvance m)\<rparr>"
  by (simp add: snapshot_def PQ_HEALING_SNAPSHOT_FORMAT_VERSION_def)

lemma edge_tags:
  "canonical suite \<Longrightarrow> edgeSuiteTag (parameterSet suite) = Inr (edge_tag suite)"
  "canonical suite \<Longrightarrow> tagSuite (edge_tag suite) = Inr (parameterSet suite)"
  "0 \<le> edge_tag suite" "edge_tag suite \<le> 255"
  "turnTag (turn_name t) = Inr (if t = Local then 1 else 2)"
  "tagTurn (if t = Local then 1 else 2) = Inr (turn_name t)"
  by (auto simp: canonical_def edgeSuiteTag_def tagSuite_def edge_tag_def ML_KEM_512_SUITE_def ML_KEM_768_SUITE_def
      ML_KEM_1024_SUITE_def turnTag_def tagTurn_def turn_name_def split: turn.splits)

lemma clock_u64: "clock_ok t \<Longrightarrow> u64_ok t"
  by (simp add: clock_ok_def safe_u64)

lemma serialized:
  assumes ok: "rt_ok rt" and ks: "keys_ok (case kopt of None \<Rightarrow> rt_activeReceiveKeys rt | Some k \<Rightarrow> k)"
    and edge: "edge_of mode suiteName binding i rt"
  shows "rt_serialize kopt rt = Inr (concat (checkpoint_parts (case kopt of None \<Rightarrow> rt_activeReceiveKeys rt | Some k \<Rightarrow> k) rt))"
proof -
  let ?m = "rt_machine rt" and ?ks = "case kopt of None \<Rightarrow> rt_activeReceiveKeys rt | Some k \<Rightarrow> k"
  have len: "length (rt_binding rt) = 32" using edge by (simp add: edge_of_def)
  have f: "fits newByteWriter (checkpoint_parts ?ks rt)" by (rule checkpoint_fits [OF ok ks len])
  have inv: "pq_inv ?m" "live ?m" "mSuite ?m = rt_suite rt" "mBinding ?m = rt_binding rt" "\<not> rt_destroyed rt" using ok by (simp_all add: rt_ok_def)
  have u: "u64_ok (mEpoch ?m)" "u64_ok (mLocalCounter ?m)" "u64_ok (mRemoteCounter ?m)" using inv(1) by (simp_all add: pq_inv_def)
  have c: "u64_ok (rt_lastHealedAt rt)" "u64_ok (rt_messagesSinceHealing rt)" "outbox_valid (rt_outbox rt)"
    "sized_ok 65490 (rt_lastInboundOfferFrame rt)" "sized_ok 65490 (rt_lastInboundAdvanceFrame rt)" "sized_ok 65490 (rt_cachedAckFrame rt)"
    using ok by (simp_all add: rt_ok_def clock_u64 cached_sized)
  note mf = machine_fields [OF inv(1)] sized_weaken [OF machine_fields(2) [OF inv(1)], of 65490] sized_weaken [OF machine_fields(3) [OF inv(1)], of 65490]
  note phw = phase.write_law [OF mf(1), unfolded fits_def]
  have tag: "edgeSuiteTag (parameterSet (rt_suite rt)) = Inr (edge_tag (rt_suite rt))" by (rule edge_tags(1) [OF edge_suite(1) [OF edge]])
  show ?thesis
    unfolding rt_serialize_def
    using f u c mf(5,6) ks inv
    by (simp add: snapshot_live phw tag edge_tags EDGE_FORMAT_VERSION_def checkpoint_parts_def head_parts_def machine_parts_def tail_parts_def
        fits_def written_fields finish_pushed)
qed

section \<open>Reading\<close>

lemma read_u8: "r_u8 (reading pre (b # post)) = Inr (int (unat b), reading (pre @ [b]) post)"
  using take_reading [of "[b]" 1 pre post] by (simp add: r_u8_def)

lemma read_u64: "u64_ok t \<Longrightarrow> r_u64 (reading pre (be_enc 8 (nat t) @ post)) = Inr (t, reading (pre @ be_enc 8 (nat t)) post)"
  using u64.read_law [of t pre post] by simp

lemma read_take32: "length b = 32 \<Longrightarrow> r_take 32 (reading pre (b @ post)) = Inr (b, reading (pre @ b) post)"
  by (rule take_reading) simp_all

lemma read_magic: "r_take (length EDGE_MAGIC) (reading pre (EDGE_MAGIC @ post)) = Inr (EDGE_MAGIC, reading (pre @ EDGE_MAGIC) post)"
  by (rule take_reading) simp_all

lemma read_keys_end: "keys_ok ks \<Longrightarrow> readActiveKeys (reading pre (concat (keys_parts ks))) = Inr (sorted_keys ks, reading (pre @ concat (keys_parts ks)) [])"
  using keys.read_law [of ks pre "[]"] by simp

lemma finish_end: "r_finish (reading pre []) = Inr ()"
  by (simp add: finish_reading)

lemma cached_frame_ok_iff [simp]: "cached_frame_ok f = Inr u \<longleftrightarrow> cached_ok f"
  by (cases f) (simp_all add: cached_frame_ok_def cached_ok_def wire_geometry)

lemma cached_frame_okI: "cached_ok f \<Longrightarrow> cached_frame_ok f = Inr ()"
  by simp

definition checkpoint_of :: "key_map \<Rightarrow> pq_runtime \<Rightarrow> pq_snapshot \<Rightarrow> checkpoint" where
  "checkpoint_of ks rt s =
     \<lparr>cp_lastHealedAt = rt_lastHealedAt rt, cp_messagesSinceHealing = rt_messagesSinceHealing rt, cp_snapshot = s,
      cp_outbox = rt_outbox rt, cp_lastOfferFrame = rt_lastInboundOfferFrame rt,
      cp_lastAdvanceFrame = rt_lastInboundAdvanceFrame rt, cp_cachedAckFrame = rt_cachedAckFrame rt,
      cp_activeKeys = sorted_keys ks\<rparr>"

lemma edge_tag_byte: "uint (of_int (edge_tag suite) :: byte) = edge_tag suite"
  by (simp add: edge_tag_def)

lemma checkpoint_read:
  assumes ok: "rt_ok rt" and ks: "keys_ok ks" and edge: "edge_of mode suiteName binding i rt" and s: "snapshot (rt_machine rt) = Inr s"
  shows "read_checkpoint (concat (checkpoint_parts ks rt)) mode suiteName binding i = Inr (rt_suite rt, checkpoint_of ks rt s)"
proof -
  let ?m = "rt_machine rt"
  have e: "length binding = 32" "rt_binding rt = binding" "roomPqModeToRootSuite mode = Inr suiteName" using edge by (simp_all add: edge_of_def)
  have inv: "pq_inv ?m" "live ?m" "mSuite ?m = rt_suite rt" "mBinding ?m = binding" using ok e by (simp_all add: rt_ok_def)
  have u: "u64_ok (mEpoch ?m)" "u64_ok (mLocalCounter ?m)" "u64_ok (mRemoteCounter ?m)" "length (mRootKey ?m) = 32"
    using inv(1) by (simp_all add: pq_inv_def)
  have c: "u64_ok (rt_lastHealedAt rt)" "u64_ok (rt_messagesSinceHealing rt)" "outbox_valid (rt_outbox rt)"
      "\<not> MAX_SAFE_INTEGER < rt_lastHealedAt rt" "\<not> MAX_SAFE_INTEGER < rt_messagesSinceHealing rt"
      "cached_ok (rt_lastInboundOfferFrame rt)" "cached_ok (rt_lastInboundAdvanceFrame rt)" "cached_ok (rt_cachedAckFrame rt)"
    using ok by (simp_all add: rt_ok_def clock_u64 clock_ok_def)
  note mf = machine_fields [OF inv(1)]
  note sz = sized.read_law [OF mf(2)] sized.read_law [OF mf(3)] sized.read_law [OF cached_sized [OF c(6)]]
    sized.read_law [OF cached_sized [OF c(7)]] sized.read_law [OF cached_sized [OF c(8)]] phase.read_law [OF mf(1), unfolded inv(3)]
    outbox.read_law [OF c(3)]
  note st = edge_suite [OF edge]
  have dir: "(rt_outboundDirection rt = ''initiator-to-responder'') = i" using edge by (simp add: edge_of_def)
  have size: "0 < length (concat (checkpoint_parts ks rt))" "length (concat (checkpoint_parts ks rt)) \<le> 262144"
    using checkpoint_fits [OF ok ks] e by (simp_all add: fits_def newByteWriter_def checkpoint_parts_def head_parts_def EDGE_MAGIC_def)
  show ?thesis
    unfolding read_checkpoint_def new_reading [OF size]
    using s c(4,5)
    by (cases "mNextOfferer ?m"; cases i)
      (simp_all add: checkpoint_parts_def head_parts_def machine_parts_def tail_parts_def dir e read_magic bytesEqual_iff read_u8
        EDGE_FORMAT_VERSION_def edge_tag_byte edge_tags(2) [OF st(1)] st c u read_u64 read_take32 wire_geometry sz tagTurn_def
        cached_frame_okI read_keys_end ks finish_end checkpoint_of_def snapshot_live [OF inv(2)] inv(3,4) turn_name_def del: magic_length)
qed

lemma new_runtime:
  assumes "edge_of mode suiteName binding i rt" "length root = 32" "clock_ok t"
  shows "\<exists>m. newSparsePqHealingState mode suiteName binding root turn i t = Inr
    \<lparr>rt_pqMode = mode, rt_rootSuite = suiteName, rt_suite = rt_suite rt, rt_binding = binding,
     rt_outboundDirection = rt_outboundDirection rt, rt_inboundDirection = rt_inboundDirection rt,
     rt_machine = m, rt_messageRoot = root, rt_outbox = None, rt_lastInboundOfferFrame = None,
     rt_lastInboundAdvanceFrame = None, rt_cachedAckFrame = None, rt_activeReceiveKeys = [],
     rt_messagesSinceHealing = 0, rt_lastHealedAt = t, rt_destroyed = False\<rparr>"
  using assms edge_suite [OF assms(1)]
  by (auto simp: newSparsePqHealingState_def edge_of_def newPqHealingMachine_def assertSameSuite_iff [THEN iffD2] requireBytes_def
      PQ_HEALING_BINDING_BYTES_def PQ_HEALING_ROOT_BYTES_def u64_ok_def MAX_U64_def copyRootKey_def assertActive_def attempt_def)

lemma coherent_keys [simp]:
  "validateCheckpointCoherence (rt\<lparr>rt_activeReceiveKeys := ks\<rparr>) = Inr u \<longleftrightarrow> validateCheckpointCoherence rt = Inr u"
  "validateCheckpointCoherence (rt\<lparr>rt_messagesSinceHealing := n\<rparr>) = Inr u \<longleftrightarrow> validateCheckpointCoherence rt = Inr u"
  by (simp_all add: coherent_iff)

lemma coherent_outbox:
  "map_option ob_kind ob = map_option ob_kind (rt_outbox rt) \<Longrightarrow>
   validateCheckpointCoherence (rt\<lparr>rt_outbox := ob\<rparr>) = Inr u \<longleftrightarrow> validateCheckpointCoherence rt = Inr u"
  by (simp add: coherent_iff)

lemma restored:
  assumes ok: "rt_ok rt" and ks: "keys_ok ks" and edge: "edge_of mode suiteName binding i rt"
  shows "rt_restore (concat (checkpoint_parts ks rt)) mode suiteName binding i = Inr (rt\<lparr>rt_activeReceiveKeys := sorted_keys ks\<rparr>)"
proof -
  let ?m = "rt_machine rt"
  have "pq_inv ?m" using ok by (simp add: rt_ok_def)
  then have inv: "pq_inv ?m" "live ?m" "mSuite ?m = rt_suite rt" "mBinding ?m = binding" "length (mRootKey ?m) = 32"
    "clock_ok (rt_lastHealedAt rt)" "rt_messageRoot rt = mRootKey ?m" "validateCheckpointCoherence rt = Inr ()" "\<not> rt_destroyed rt"
    using ok edge by (simp_all add: rt_ok_def edge_of_def) (simp add: pq_inv_def)
  obtain s where s: "snapshot ?m = Inr s" "restore s (rt_suite rt) (rt_suite rt) binding = Inr ?m"
    using restore_snapshot [OF inv(1,2)] inv(3,4) by auto
  note e = edge [unfolded edge_of_def]
  show ?thesis
    unfolding rt_restore_def checkpoint_read [OF ok ks edge s(1)]
    using new_runtime [OF edge inv(5,6), of "mNextOfferer ?m"] s(2) inv e
    by (cases rt) (auto simp: checkpoint_of_def Let_def coherent_iff rbind_eq_Inr_iff)
qed

end
