(* ===== verification/Pq_Runtime_Props.thy ===== *)
theory Pq_Runtime_Props
  imports Pq_Checkpoint Pq_Props
begin

text \<open>
  The healing runtime as the rest of the program uses it: a transition is made on a copy, the copy's
  checkpoint is stored, the copy is adopted, and only then a frame leaves. Shown: every runtime reached
  by successful transitions can be stored and restored, a repeated control frame is answered from the
  cache, and a whole exchange between two runtimes leaves both with one new message root.
\<close>

section \<open>Successful calls\<close>

lemma rt_bind_Inr: "rt_bind p k = (Inr y, rt') \<longleftrightarrow> (\<exists>x. fst p = Inr x \<and> k x (snd p) = (Inr y, rt'))"
  by (simp add: rt_bind_def split: sum.splits)

lemma rt_bind_pair [simp]: "rt_bind (Inr x, rt) k = k x rt" "rt_bind (Inl e, rt) k = (Inl e, rt)"
  by (simp_all add: rt_bind_def)

lemma on_machine_Inr: "on_machine rt f = (Inr x, rt') \<longleftrightarrow> (\<exists>m. f (rt_machine rt) = (Inr x, m) \<and> rt' = rt\<lparr>rt_machine := m\<rparr>)"
  by (auto simp: on_machine_def split: prod.splits)

lemma on_machine_fst: "fst (on_machine rt f) = Inr x \<longleftrightarrow> (\<exists>m. f (rt_machine rt) = (Inr x, m) \<and> snd (on_machine rt f) = rt\<lparr>rt_machine := m\<rparr>)"
  by (cases "f (rt_machine rt)") (simp add: on_machine_def)

lemma on_machine_ok: "f (rt_machine rt) = (Inr x, m) \<Longrightarrow> on_machine rt f = (Inr x, rt\<lparr>rt_machine := m\<rparr>)"
  by (simp add: on_machine_def)

lemma seal_outbound_snd [simp]: "snd (seal_outbound A module root record nonce rt) = rt"
  by (simp add: seal_outbound_def)

text \<open>The chains of a method, driven by what the machine answers.\<close>

lemma chain_ok:
  "rt_bind (on_machine rt f) k = (Inr y, rt') \<longleftrightarrow> (\<exists>x m. f (rt_machine rt) = (Inr x, m) \<and> k x (rt\<lparr>rt_machine := m\<rparr>) = (Inr y, rt'))"
  "rt_bind (seal_outbound A module root rec nonce rt) j = (Inr y, rt') \<longleftrightarrow>
     (\<exists>frame. fst (seal_outbound A module root rec nonce rt) = Inr frame \<and> j frame rt = (Inr y, rt'))"
  "rt_bind (r, rt) h = (Inr y, rt') \<longleftrightarrow> (\<exists>z. r = Inr z \<and> h z rt = (Inr y, rt'))"
  by (auto simp: rt_bind_Inr on_machine_fst) (auto simp: on_machine_def)

lemma seal_outbound_Inr:
  assumes "aead_ok A" "length nonce = 12" "live (rt_machine rt)"
  shows "fst (seal_outbound A module root record nonce rt) = Inr frame \<longleftrightarrow>
    control_sealed A (frame_context module rt root (rt_outboundDirection rt) (mEpoch (rt_machine rt))) record nonce frame"
  using assms by (simp add: seal_outbound_def result_simps frame_seal_iff)

lemma sealed_length:
  assumes "aead_ok A" "length nonce = 12" "control_sealed A ctx record nonce frame"
  shows "length frame = 65490"
proof -
  have "openPqControlFrame A ctx frame = Inr record" using frame_open_sealed assms by blast
  then show ?thesis by (auto simp: openPqControlFrame_def result_simps wire_geometry)
qed

lemma refresh_live: "live (rt_machine rt) \<Longrightarrow> refreshMessageRoot rt = (Inr (), rt\<lparr>rt_messageRoot := mRootKey (rt_machine rt)\<rparr>)"
  by (simp add: refreshMessageRoot_def on_machine_def)

lemma live_updates [simp]:
  "live (m\<lparr>mPhase := p\<rparr>) = live m" "live (m\<lparr>mBusy := True\<rparr>) = False" "live (m\<lparr>mBusy := False\<rparr>) \<longleftrightarrow> \<not> mDestroyed m"
  "live (m\<lparr>mRootKey := r\<rparr>) = live m" "live (m\<lparr>mEpoch := e\<rparr>) = live m" "live (m\<lparr>mLocalCounter := c\<rparr>) = live m"
  "live (m\<lparr>mRemoteCounter := c\<rparr>) = live m" "live (m\<lparr>mNextOfferer := t\<rparr>) = live m" "live (m\<lparr>mLastInboundOffer := lo\<rparr>) = live m"
  "live (m\<lparr>mLastInboundAdvance := la\<rparr>) = live m"
  by (simp_all add: live_def)

lemma idle_phase: "live m \<Longrightarrow> m\<lparr>mBusy := False, mPhase := p\<rparr> = m\<lparr>mPhase := p\<rparr>"
  by (cases m) (simp add: live_def)

lemma idle_quiet:
  assumes "rt_ok rt" "mPhase (rt_machine rt) = Idle"
  shows "rt_outbox rt = None" "rt_lastInboundOfferFrame rt = None" "rt_lastInboundAdvanceFrame rt = None \<longleftrightarrow> rt_cachedAckFrame rt = None"
proof -
  have c: "map_option ob_kind (rt_outbox rt) \<noteq> Some OfferKind" "map_option ob_kind (rt_outbox rt) \<noteq> Some AdvanceKind"
    "rt_lastInboundOfferFrame rt \<noteq> None \<longrightarrow> map_option ob_kind (rt_outbox rt) = Some AdvanceKind"
    "rt_lastInboundAdvanceFrame rt = None \<longleftrightarrow> rt_cachedAckFrame rt = None"
    using assms by (simp_all add: rt_ok_def coherent_iff offer_dispatched_def awaiting_ack_def)
  have "ob_kind ob = OfferKind \<or> ob_kind ob = AdvanceKind" for ob by (cases "ob_kind ob") simp_all
  then show "rt_outbox rt = None" "rt_lastInboundOfferFrame rt = None" "rt_lastInboundAdvanceFrame rt = None \<longleftrightarrow> rt_cachedAckFrame rt = None"
    using c by (cases "rt_outbox rt"; force)+
qed

lemma okD:
  assumes "rt_ok rt"
  shows "\<not> rt_destroyed rt" "pq_inv (rt_machine rt)" "live (rt_machine rt)" "mSuite (rt_machine rt) = rt_suite rt"
    "mBinding (rt_machine rt) = rt_binding rt" "rt_messageRoot rt = mRootKey (rt_machine rt)" "keys_ok (rt_activeReceiveKeys rt)"
    "clock_ok (rt_messagesSinceHealing rt)" "clock_ok (rt_lastHealedAt rt)" "flight_ok (rt_machine rt) NoFlight"
  using assms by (simp_all add: rt_ok_def flight_ok_def live_def)

section \<open>Offering\<close>

lemma due_clock: "healingDue now rt = Inr due \<Longrightarrow> clock_ok now"
  by (auto simp: healingDue_def result_simps)

lemma offer_step:
  assumes A: "aead_ok A" "length nonce = 12" and kdf: "kdf_ok module" and ok: "rt_ok rt"
    and st: "prepareHealingOffer_start now rt = (Inr (), rt1)" and rs: "prepareHealingOffer_resume A module answer nonce now rt1 = (Inr frame, rt2)"
  obtains x kp where "answer = Some kp" "rt_ok rt2"
    "rt2 = rt\<lparr>rt_machine := (rt_machine rt)\<lparr>mPhase := OutboundOffer True x kp\<rparr>,
       rt_outbox := Some \<lparr>ob_kind = OfferKind, ob_frame = frame, ob_attempts = 0, ob_nextRetryAt = now\<rparr>,
       rt_lastInboundOfferFrame := None, rt_lastInboundAdvanceFrame := None, rt_cachedAckFrame := None\<rparr>"
    "control_sealed A (frame_context module rt (mRootKey (rt_machine rt)) (rt_outboundDirection rt) (mEpoch (rt_machine rt)))
       (offer_bytes x) nonce frame"
    "kp_publicKey kp = publicKey x"
proof -
  let ?m = "rt_machine rt"
  note k = okD [OF ok]
  have now: "clock_ok now" using st due_clock by (auto simp: prepareHealingOffer_start_def rt_bind_Inr result_simps)
  obtain m1 where m1: "prepareOffer_start ?m = (Inr (), m1)" "rt1 = rt\<lparr>rt_machine := m1\<rparr>"
    using st by (auto simp: prepareHealingOffer_start_def rt_bind_Inr on_machine_Inr)
  have s: "m1 = ?m\<lparr>mBusy := True\<rparr>" "mPhase ?m = Idle" "room ?m" "mNextOfferer ?m = Local"
    using prepareOffer_start_cases [of ?m] m1(1) by auto
  obtain rec m2 where m2: "prepareOffer_resume answer m1 = (Inr rec, m2)"
    using rs by (auto simp: prepareHealingOffer_resume_def rt_bind_Inr on_machine_fst m1(2))
  obtain kp x where x: "answer = Some kp" "rec = offer_bytes x" "m2 = ?m\<lparr>mPhase := OutboundOffer False x kp\<rparr>" "kp_publicKey kp = publicKey x"
    by (rule prepareOffer_resume_cases [of answer m1]) (use that m2 k(3) in \<open>auto simp: s(1) live_def\<close>)
  have l: "live m2" using k(3) by (simp add: x(3))
  have mk: "markOfferDispatched m2 = (Inr (), ?m\<lparr>mPhase := OutboundOffer True x kp\<rparr>)"
    using k(3) by (simp add: markOfferDispatched_def x(3))
  let ?rt = "rt\<lparr>rt_machine := m2\<rparr>"
  have sealed: "control_sealed A (frame_context module ?rt (mRootKey ?m) (rt_outboundDirection rt) (mEpoch ?m)) rec nonce frame"
    and r2: "rt2 = rt\<lparr>rt_machine := ?m\<lparr>mPhase := OutboundOffer True x kp\<rparr>,
       rt_outbox := Some \<lparr>ob_kind = OfferKind, ob_frame = frame, ob_attempts = 0, ob_nextRetryAt = now\<rparr>,
       rt_lastInboundOfferFrame := None, rt_lastInboundAdvanceFrame := None, rt_cachedAckFrame := None\<rparr>"
  proof -
    have "fst (seal_outbound A module (mRootKey ?m) rec nonce ?rt) = Inr frame"
      "rt2 = clearDuplicateCache (rt\<lparr>rt_machine := ?m\<lparr>mPhase := OutboundOffer True x kp\<rparr>,
        rt_outbox := Some \<lparr>ob_kind = OfferKind, ob_frame = frame, ob_attempts = 0, ob_nextRetryAt = now\<rparr>\<rparr>)"
      using rs mk m2 k(3) by (auto simp: prepareHealingOffer_resume_def m1(2) chain_ok x(3))
    then show "control_sealed A (frame_context module ?rt (mRootKey ?m) (rt_outboundDirection rt) (mEpoch ?m)) rec nonce frame"
      "rt2 = rt\<lparr>rt_machine := ?m\<lparr>mPhase := OutboundOffer True x kp\<rparr>,
       rt_outbox := Some \<lparr>ob_kind = OfferKind, ob_frame = frame, ob_attempts = 0, ob_nextRetryAt = now\<rparr>,
       rt_lastInboundOfferFrame := None, rt_lastInboundAdvanceFrame := None, rt_cachedAckFrame := None\<rparr>"
      using seal_outbound_Inr [OF A, of ?rt module "mRootKey ?m" rec frame] l by (simp_all add: x(3) clearDuplicateCache_def)
  qed
  have "fold (pq_handle module) [StartOffer, OfferAnswer answer, MarkOffer] (?m, NoFlight) = (?m\<lparr>mPhase := OutboundOffer True x kp\<rparr>, NoFlight)"
    using m1(1) m2 mk by simp
  then have inv: "pq_inv (?m\<lparr>mPhase := OutboundOffer True x kp\<rparr>)"
    using pq_run_inv [OF k(2) kdf k(10)] by blast
  have "rt_ok rt2"
    using ok inv now sealed_length [OF A sealed]
    by (simp add: r2 rt_ok_def coherent_iff offer_dispatched_def awaiting_ack_def outbox_valid_def cached_ok_def clock_ok_def live_def)
  then show thesis using that [OF x(1) _ r2 _ x(4)] sealed by (simp add: frame_context_def x(2))
qed

section \<open>Control frames\<close>

abbreviation inbound_context :: "'r libcrypto \<Rightarrow> pq_runtime \<Rightarrow> 'r frame_context" where
  "inbound_context module rt \<equiv> frame_context module rt (mRootKey (rt_machine rt)) (rt_inboundDirection rt) (mEpoch (rt_machine rt))"

abbreviation outbound_context :: "'r libcrypto \<Rightarrow> pq_runtime \<Rightarrow> 'r frame_context" where
  "outbound_context module rt \<equiv> frame_context module rt (mRootKey (rt_machine rt)) (rt_outboundDirection rt) (mEpoch (rt_machine rt))"

lemma control_start_iff:
  assumes "rt_ok rt"
  shows "acceptControlFrame_start A module f now rt = (Inr out, rt1) \<longleftrightarrow>
    length f = 65490 \<and> clock_ok now \<and>
    (case duplicate_answer f rt of
       Some cached \<Rightarrow> out = Answered (Some cached) False \<and> rt1 = rt
     | None \<Rightarrow> \<exists>rec. openPqControlFrame A (inbound_context module rt) f = Inr rec \<and>
         accept_record (mRootKey (rt_machine rt)) rec now rt = (Inr out, rt1))"
  using okD(1,3) [OF assms]
  by (auto simp: acceptControlFrame_start_def chain_ok result_simps wire_geometry split: option.splits)

lemma offer_received:
  assumes ok: "rt_ok rt" and r: "accept_record root rec now rt = (Inr (AwaitsEncaps root' x), rt1)"
  shows "root' = root" "rt1 = rt\<lparr>rt_machine := (rt_machine rt)\<lparr>mPhase := InboundOffer x, mBusy := True\<rparr>\<rparr>"
    "mPhase (rt_machine rt) = Idle" "offer_ok (rt_suite rt) (rt_binding rt) x"
    "acceptAuthenticatedOffer rec (rt_machine rt) = (Inr (), (rt_machine rt)\<lparr>mPhase := InboundOffer x\<rparr>)"
    "prepareAdvance_start ((rt_machine rt)\<lparr>mPhase := InboundOffer x\<rparr>) = (Inr x, (rt_machine rt)\<lparr>mPhase := InboundOffer x, mBusy := True\<rparr>)"
proof -
  let ?m = "rt_machine rt"
  note k = okD [OF ok]
  have "accept_ack rec now rt \<noteq> (Inr (AwaitsEncaps root' x), rt1)"
    by (auto simp: accept_ack_def rt_bind_Inr split: option.splits if_splits)
  then obtain m1 m2 where s: "acceptAuthenticatedOffer rec ?m = (Inr (), m1)" "prepareAdvance_start m1 = (Inr x, m2)" "root' = root"
      "rt1 = rt\<lparr>rt_machine := m2\<rparr>"
    using r by (auto simp: accept_record_def chain_ok split: if_splits inspected_record.splits option.splits)
      (metis inspected_record.exhaust)+
  obtain y where y: "m1 = ?m\<lparr>mPhase := InboundOffer y\<rparr>" "mPhase ?m = Idle" "offer_ok (mSuite ?m) (mBinding ?m) y"
    by (rule acceptAuthenticatedOffer_cases [of rec ?m]) (use that s(1) in auto)
  have "y = x" "m2 = m1\<lparr>mBusy := True\<rparr>"
    by (rule prepareAdvance_start_cases [of m1]; use s(2) y(1) in auto)+
  with s y k(4,5) show "root' = root" "rt1 = rt\<lparr>rt_machine := ?m\<lparr>mPhase := InboundOffer x, mBusy := True\<rparr>\<rparr>"
    "mPhase ?m = Idle" "offer_ok (rt_suite rt) (rt_binding rt) x"
    "acceptAuthenticatedOffer rec ?m = (Inr (), ?m\<lparr>mPhase := InboundOffer x\<rparr>)"
    "prepareAdvance_start (?m\<lparr>mPhase := InboundOffer x\<rparr>) = (Inr x, ?m\<lparr>mPhase := InboundOffer x, mBusy := True\<rparr>)"
    by simp_all
qed

lemma offer_answered:
  assumes A: "aead_ok A" "length nonce = 12" and kdf: "kdf_ok module" and ok: "rt_ok rt"
    and f: "length f = 65490" "clock_ok now" and r: "accept_record (mRootKey (rt_machine rt)) rec now rt = (Inr (AwaitsEncaps root x), rt1)"
    and ans: "answerOffer_resume A module root x answer nonce f now rt1 = (Inr d, rt2)"
  obtains a ss sealed nextRoot where "answer = Some (ciphertext a, ss)" "d = (Some sealed, True)" "rt_ok rt2"
    "advance_root module (rt_machine rt) a ss nextRoot" "advance_ok (rt_suite rt) (rt_binding rt) a" "advance_offer a = x"
    "senderCounter a = mLocalCounter (rt_machine rt)"
    "control_sealed A (outbound_context module rt) (advance_bytes a) nonce sealed"
    "rt2 = rt\<lparr>rt_machine := (rt_machine rt)\<lparr>mRootKey := nextRoot, mEpoch := toEpoch a, mLocalCounter := mLocalCounter (rt_machine rt) + 1,
           mRemoteCounter := mRemoteCounter (rt_machine rt) + 1, mNextOfferer := Local, mLastInboundOffer := Some x,
           mPhase := OutboundAdvanceAwaitingAck x a\<rparr>, rt_messageRoot := nextRoot,
         rt_outbox := Some \<lparr>ob_kind = AdvanceKind, ob_frame = sealed, ob_attempts = 0, ob_nextRetryAt = now\<rparr>,
         rt_lastInboundOfferFrame := Some f, rt_lastInboundAdvanceFrame := None, rt_cachedAckFrame := None\<rparr>"
proof -
  let ?m = "rt_machine rt"
  note k = okD [OF ok] and g = offer_received [OF ok r]
  let ?m1 = "?m\<lparr>mPhase := InboundOffer x, mBusy := True\<rparr>"
  obtain rec2 m2 where m2: "prepareAdvance_resume module x answer ?m1 = (Inr rec2, m2)"
    using ans by (auto simp: answerOffer_resume_def chain_ok g(2))
  have okx: "offer_ok (mSuite ?m1) (mBinding ?m1) x" using g(4) k(4,5) by simp
  obtain a ss nextRoot where a: "answer = Some (ciphertext a, ss)" "rec2 = advance_bytes a" "advance_ok (mSuite ?m) (mBinding ?m) a"
      "advance_offer a = x" "senderCounter a = mLocalCounter ?m" "advance_root module ?m a ss nextRoot"
      "m2 = ?m\<lparr>mPhase := OutboundAdvancePrepared x a nextRoot\<rparr>"
    by (rule prepareAdvance_resume_cases [OF okx, of module answer]) (use that m2 k(3) in \<open>auto simp: advance_root_def live_def\<close>)
  have len: "length nextRoot = 32" by (rule advance_root_length [OF kdf a(6)])
  let ?m3 = "?m\<lparr>mRootKey := nextRoot, mEpoch := toEpoch a, mLocalCounter := mLocalCounter ?m + 1,
           mRemoteCounter := mRemoteCounter ?m + 1, mNextOfferer := Local, mLastInboundOffer := Some x,
           mPhase := OutboundAdvanceAwaitingAck x a\<rparr>"
  have cm: "commitPreparedAdvance m2 = (Inr (advance_bytes a), ?m3)"
    using k(3) len by (simp add: commitPreparedAdvance_def a(7) requireBytes_def PQ_HEALING_ROOT_BYTES_def)
  have l3: "live ?m3" using k(3) by (simp add: live_def)
  let ?rt = "rt\<lparr>rt_machine := m2\<rparr>"
  obtain sealed where fin: "fst (seal_outbound A module root rec2 nonce ?rt) = Inr sealed" "d = (Some sealed, True)"
     and r2: "rt2 = rt\<lparr>rt_machine := ?m3, rt_messageRoot := nextRoot,
         rt_outbox := Some \<lparr>ob_kind = AdvanceKind, ob_frame = sealed, ob_attempts = 0, ob_nextRetryAt = now\<rparr>,
         rt_lastInboundOfferFrame := Some f, rt_lastInboundAdvanceFrame := None, rt_cachedAckFrame := None\<rparr>"
    using ans m2 cm k(3) by (auto simp: answerOffer_resume_def chain_ok g(2) refresh_live)
  have sealed: "control_sealed A (outbound_context module rt) (advance_bytes a) nonce sealed"
    using fin(1) seal_outbound_Inr [OF A, of ?rt module root rec2 sealed] k(3) g(1) by (simp add: a(2,7) frame_context_def)
  have "fold (pq_handle module) [GetOffer rec, StartAdvance, AdvanceAnswer answer, CommitAdvance] (?m, NoFlight) = (?m3, NoFlight)"
    using g(5,6) m2 cm by simp
  then have "pq_inv ?m3" using pq_run_inv [OF k(2) kdf k(10)] by blast
  then have "rt_ok rt2"
    using ok l3 f sealed_length [OF A sealed]
    by (simp add: r2 rt_ok_def coherent_iff offer_dispatched_def awaiting_ack_def outbox_valid_def cached_ok_def clock_ok_def live_def)
  then show thesis using that [OF a(1) fin(2) _ a(6) _ a(4,5) sealed r2] a(3) k(4,5) by simp
qed

lemma advance_received:
  assumes ok: "rt_ok rt" and r: "accept_record root rec now rt = (Inr (AwaitsDecaps (a, x, kp)), rt1)"
  shows "rt1 = rt\<lparr>rt_machine := (rt_machine rt)\<lparr>mBusy := True\<rparr>\<rparr>" "mPhase (rt_machine rt) = OutboundOffer True x kp"
    "advance_ok (rt_suite rt) (rt_binding rt) a" "advance_bytes a = rec"
    "acceptAuthenticatedAdvance_start rec (rt_machine rt) = (Inr (a, x, kp), (rt_machine rt)\<lparr>mBusy := True\<rparr>)"
proof -
  let ?m = "rt_machine rt"
  note k = okD [OF ok]
  have "accept_ack rec now rt \<noteq> (Inr (AwaitsDecaps (a, x, kp)), rt1)"
    by (auto simp: accept_ack_def rt_bind_Inr split: option.splits if_splits)
  then obtain m1 where s: "acceptAuthenticatedAdvance_start rec ?m = (Inr (a, x, kp), m1)" "rt1 = rt\<lparr>rt_machine := m1\<rparr>"
    using r by (auto simp: accept_record_def chain_ok split: if_splits inspected_record.splits option.splits)
      (metis inspected_record.exhaust)+
  obtain "m1 = ?m\<lparr>mBusy := True\<rparr>" "mPhase ?m = OutboundOffer True x kp" "advance_ok (mSuite ?m) (mBinding ?m) a" "advance_bytes a = rec"
    by (rule acceptAdvance_start_cases [of rec ?m]) (use that s(1) in auto)
  with s k(4,5) show "rt1 = rt\<lparr>rt_machine := ?m\<lparr>mBusy := True\<rparr>\<rparr>" "mPhase ?m = OutboundOffer True x kp"
    "advance_ok (rt_suite rt) (rt_binding rt) a" "advance_bytes a = rec"
    "acceptAuthenticatedAdvance_start rec ?m = (Inr (a, x, kp), ?m\<lparr>mBusy := True\<rparr>)" by simp_all
qed

lemma advance_answered:
  assumes A: "aead_ok A" "length nonce = 12" and kdf: "kdf_ok module" and ok: "rt_ok rt"
    and f: "length f = 65490" "clock_ok now" and r: "accept_record (mRootKey (rt_machine rt)) rec now rt = (Inr (AwaitsDecaps (a, x, kp)), rt1)"
    and ans: "answerAdvance_resume A module (a, x, kp) answer nonce f now rt1 = (Inr d, rt2)"
  obtains ss sealed nextRoot where "answer = Some ss" "d = (Some sealed, True)" "rt_ok rt2" "advance_root module (rt_machine rt) a ss nextRoot"
    "control_sealed A (frame_context module rt nextRoot (rt_outboundDirection rt) (toEpoch a))
       (ack_layout (rt_suite rt) (rt_binding rt) \<lparr>ack_epoch = toEpoch a, ack_advanceCounter = senderCounter a\<rparr>) nonce sealed"
    "rt2 = rt\<lparr>rt_machine := (rt_machine rt)\<lparr>mRootKey := nextRoot, mEpoch := toEpoch a, mLocalCounter := mLocalCounter (rt_machine rt) + 1,
           mRemoteCounter := mRemoteCounter (rt_machine rt) + 1, mNextOfferer := Remote, mLastInboundAdvance := Some a, mPhase := Idle\<rparr>,
         rt_messageRoot := nextRoot, rt_outbox := None, rt_lastInboundAdvanceFrame := Some f, rt_cachedAckFrame := Some sealed,
         rt_lastInboundOfferFrame := None, rt_messagesSinceHealing := 0, rt_lastHealedAt := now\<rparr>"
proof -
  let ?m = "rt_machine rt" and ?k = "\<lparr>ack_epoch = toEpoch a, ack_advanceCounter = senderCounter a\<rparr>"
  note k = okD [OF ok] and g = advance_received [OF ok r]
  obtain m2 where m2: "acceptAuthenticatedAdvance_resume module (a, x, kp) answer (?m\<lparr>mBusy := True\<rparr>) = (Inr (), m2)"
    using ans by (auto simp: answerAdvance_resume_def chain_ok g(1))
  obtain ss nextRoot where s: "answer = Some ss" "advance_root module ?m a ss nextRoot" "m2 = ?m\<lparr>mPhase := InboundAdvancePrepared x a kp nextRoot\<rparr>"
    by (rule acceptAdvance_resume_cases [of module a x kp answer "?m\<lparr>mBusy := True\<rparr>"])
      (use that m2 k(3) in \<open>auto simp: advance_root_def live_def\<close>)
  have len: "length nextRoot = 32" by (rule advance_root_length [OF kdf s(2)])
  let ?m3 = "?m\<lparr>mRootKey := nextRoot, mEpoch := toEpoch a, mLocalCounter := mLocalCounter ?m + 1,
           mRemoteCounter := mRemoteCounter ?m + 1, mNextOfferer := Remote, mLastInboundAdvance := Some a,
           mPhase := InboundAdvanceAwaitingAckDispatch a\<rparr>"
  have cm: "commitAcceptedAdvance m2 = (Inr ?k, ?m3)"
    using k(3) len by (simp add: commitAcceptedAdvance_def s(3) requireBytes_def PQ_HEALING_ROOT_BYTES_def Let_def)
  let ?m4 = "?m3\<lparr>mPhase := Idle\<rparr>"
  have run: "fold (pq_handle module) [GetAdvance rec, AcceptAnswer answer, CommitAccepted] (?m, NoFlight) = (?m3, NoFlight)"
    using g(5) m2 cm by simp
  then have inv3: "pq_inv ?m3" using pq_run_inv [OF k(2) kdf k(10)] by blast
  have mk: "markAdvanceAcknowledgementDispatched ?k ?m3 = (Inr (), ?m4)"
    using mark_ack_ok [OF _ inv3] k(3) by simp
  have "fold (pq_handle module) [GetAdvance rec, AcceptAnswer answer, CommitAccepted, MarkAck ?k] (?m, NoFlight) = (?m4, NoFlight)"
    using g(5) m2 cm mk by simp
  then have inv: "pq_inv ?m4" using pq_run_inv [OF k(2) kdf k(10)] by blast
  have ack: "encodePqHealingAck ?k (rt_suite rt) (rt_binding rt) = Inr rec' \<longleftrightarrow>
      rec' = ack_layout (rt_suite rt) (rt_binding rt) ?k" for rec'
  proof -
    have "u64_ok (toEpoch a)" "canonical (rt_suite rt)" "length (rt_binding rt) = 32" using inv3 k(4,5) by (simp_all add: pq_inv_def)
    moreover have "u64_ok (senderCounter a)" using advance_okD(1) [OF g(3)] by (simp add: slot_ok_def)
    ultimately show ?thesis by (auto simp: encodeAck_iff ack_ok_def)
  qed
  obtain sealed where fin: "sealPqControlFrame A (frame_context module (rt\<lparr>rt_machine := ?m3\<rparr>) nextRoot (rt_outboundDirection rt) (toEpoch a))
        (ack_layout (rt_suite rt) (rt_binding rt) ?k) nonce = Inr sealed" "d = (Some sealed, True)"
     and r2: "rt2 = rt\<lparr>rt_machine := ?m4, rt_messageRoot := nextRoot, rt_outbox := None, rt_lastInboundAdvanceFrame := Some f,
         rt_cachedAckFrame := Some sealed, rt_lastInboundOfferFrame := None, rt_messagesSinceHealing := 0, rt_lastHealedAt := now\<rparr>"
    using ans m2 cm mk k(3) by (auto simp: answerAdvance_resume_def chain_ok g(1) refresh_live ack)
  have sealed: "control_sealed A (frame_context module rt nextRoot (rt_outboundDirection rt) (toEpoch a))
       (ack_layout (rt_suite rt) (rt_binding rt) ?k) nonce sealed"
    using fin(1) by (simp add: frame_seal_iff [OF A] frame_context_def)
  have "rt_ok rt2"
    using ok inv f sealed_length [OF A sealed]
    by (simp add: r2 rt_ok_def coherent_iff offer_dispatched_def awaiting_ack_def outbox_valid_def cached_ok_def clock_ok_def)
  then show thesis using that [OF s(1) fin(2) _ s(2) sealed] r2 by simp
qed

lemma ack_received:
  assumes kdf: "kdf_ok module" and ok: "rt_ok rt" and now: "clock_ok now"
    and r: "accept_record root rec now rt = (Inr (Answered d c), rt1)"
  obtains x a where "d = None" "c = True" "rt_ok rt1" "mPhase (rt_machine rt) = OutboundAdvanceAwaitingAck x a"
    "rt1 = rt\<lparr>rt_machine := (rt_machine rt)\<lparr>mPhase := Idle\<rparr>, rt_outbox := None, rt_lastInboundOfferFrame := None,
       rt_lastInboundAdvanceFrame := None, rt_cachedAckFrame := None, rt_messagesSinceHealing := 0, rt_lastHealedAt := now\<rparr>"
proof -
  let ?m = "rt_machine rt"
  note k = okD [OF ok]
  have "accept_ack rec now rt = (Inr (Answered d c), rt1)"
    using r by (auto simp: accept_record_def chain_ok split: if_splits inspected_record.splits option.splits)
      (metis inspected_record.exhaust)+
  then obtain ack m1 where s: "acceptAuthenticatedAdvanceAcknowledgement ack ?m = (Inr (), m1)"
      and rb: "rt_bind (refreshMessageRoot ((clearDuplicateCache (rt\<lparr>rt_machine := m1, rt_outbox := None\<rparr>))
         \<lparr>rt_messagesSinceHealing := 0, rt_lastHealedAt := now\<rparr>)) (\<lambda>_ rt. (Inr (Answered None True), rt)) = (Inr (Answered d c), rt1)"
    by (auto simp: accept_ack_def chain_ok split: option.splits if_splits)
  obtain x a where m1: "m1 = ?m\<lparr>mPhase := Idle\<rparr>" "mPhase ?m = OutboundAdvanceAwaitingAck x a"
    by (rule acceptAck_cases [of ack ?m]) (use that s(1) in auto)
  have "fold (pq_handle module) [GetAck ack] (?m, NoFlight) = (m1, NoFlight)" using s(1) by simp
  then have inv: "pq_inv m1" using pq_run_inv [OF k(2) kdf k(10)] by blast
  have r1: "d = None" "c = True" "rt1 = rt\<lparr>rt_machine := m1, rt_outbox := None, rt_lastInboundOfferFrame := None,
       rt_lastInboundAdvanceFrame := None, rt_cachedAckFrame := None, rt_messagesSinceHealing := 0, rt_lastHealedAt := now\<rparr>"
    using rb k(3,6) by (cases rt; simp add: refresh_live m1(1) clearDuplicateCache_def)+
  have "rt_ok rt1"
    using ok inv now
    by (simp add: r1(3) m1(1) rt_ok_def coherent_iff offer_dispatched_def awaiting_ack_def outbox_valid_def cached_ok_def clock_ok_def)
  then show thesis using that [OF r1(1,2) _ m1(2)] r1(3) m1(1) by simp
qed

section \<open>Reached runtimes\<close>

text \<open>What the program does with the runtime of an edge: it is created after the handshake, counts messages,
  keeps the keys of unfinished messages, records dispatches, offers, answers control frames, and is
  stored, restored and replaced by its adopted copy. The clock is a millisecond time well below the
  largest safe integer; a transition that fails is made on a copy that is thrown away.\<close>

inductive rt_reach :: "aead \<Rightarrow> 'r libcrypto \<Rightarrow> string \<Rightarrow> string \<Rightarrow> bytes \<Rightarrow> bool \<Rightarrow> pq_runtime \<Rightarrow> bool"
  for A module mode suiteName binding i where
  created: "newSparsePqHealingState mode suiteName binding root turn i now = Inr rt \<Longrightarrow> rt_reach A module mode suiteName binding i rt"
| counted: "rt_reach A module mode suiteName binding i rt \<Longrightarrow> noteApplicationMessage rt = Inr rt' \<Longrightarrow> rt_reach A module mode suiteName binding i rt'"
| keyed: "rt_reach A module mode suiteName binding i rt \<Longrightarrow> keys_ok ks \<Longrightarrow> rt_reach A module mode suiteName binding i (rt\<lparr>rt_activeReceiveKeys := ks\<rparr>)"
| dispatched: "rt_reach A module mode suiteName binding i rt \<Longrightarrow> now + 5000 \<le> MAX_SAFE_INTEGER \<Longrightarrow> markPendingDispatched now rt = Inr rt' \<Longrightarrow>
    rt_reach A module mode suiteName binding i rt'"
| offered: "rt_reach A module mode suiteName binding i rt \<Longrightarrow> prepareHealingOffer_start now rt = (Inr (), rt1) \<Longrightarrow> length nonce = 12 \<Longrightarrow>
    prepareHealingOffer_resume A module kp nonce now rt1 = (Inr frame, rt2) \<Longrightarrow> rt_reach A module mode suiteName binding i rt2"
| answered: "rt_reach A module mode suiteName binding i rt \<Longrightarrow> acceptControlFrame_start A module f now rt = (Inr (Answered d c), rt') \<Longrightarrow>
    rt_reach A module mode suiteName binding i rt'"
| encapsulated: "rt_reach A module mode suiteName binding i rt \<Longrightarrow> acceptControlFrame_start A module f now rt = (Inr (AwaitsEncaps root x), rt1) \<Longrightarrow>
    length nonce = 12 \<Longrightarrow> answerOffer_resume A module root x enc nonce f now rt1 = (Inr d, rt2) \<Longrightarrow> rt_reach A module mode suiteName binding i rt2"
| decapsulated: "rt_reach A module mode suiteName binding i rt \<Longrightarrow> acceptControlFrame_start A module f now rt = (Inr (AwaitsDecaps p), rt1) \<Longrightarrow>
    length nonce = 12 \<Longrightarrow> answerAdvance_resume A module p dec nonce f now rt1 = (Inr d, rt2) \<Longrightarrow> rt_reach A module mode suiteName binding i rt2"
| copied: "rt_reach A module mode suiteName binding i rt \<Longrightarrow> rt_clone rt = Inr rt' \<Longrightarrow> rt_reach A module mode suiteName binding i rt'"
| adopted: "rt_reach A module mode suiteName binding i rt \<Longrightarrow> rt_reach A module mode suiteName binding i nxt \<Longrightarrow>
    rt_adopt False True rt nxt = (Inr (), rt', nxt') \<Longrightarrow> rt_reach A module mode suiteName binding i rt'"
| reloaded: "rt_reach A module mode suiteName binding i rt \<Longrightarrow> rt_serialize None rt = Inr b \<Longrightarrow>
    rt_restore b mode suiteName binding i = Inr rt' \<Longrightarrow> rt_reach A module mode suiteName binding i rt'"

lemma created_ok:
  assumes "newSparsePqHealingState mode suiteName binding root turn i now = Inr rt"
  shows "rt_ok rt \<and> edge_of mode suiteName binding i rt"
proof -
  obtain p m suite messageRoot where p: "roomPqModeToParameterSet mode = Inr p" "getMlKemSuite p = Inr suite"
      "roomPqModeToRootSuite mode = Inr suiteName" "length binding = 32" "clock_ok now"
      and m: "newPqHealingMachine suite suite binding root turn None None None = Inr m" "fst (copyRootKey m) = Inr messageRoot"
      and rt: "rt = \<lparr>rt_pqMode = mode, rt_rootSuite = suiteName, rt_suite = suite, rt_binding = binding,
          rt_outboundDirection = (if i then ''initiator-to-responder'' else ''responder-to-initiator''),
          rt_inboundDirection = (if i then ''responder-to-initiator'' else ''initiator-to-responder''),
          rt_machine = m, rt_messageRoot = messageRoot, rt_outbox = None, rt_lastInboundOfferFrame = None,
          rt_lastInboundAdvanceFrame = None, rt_cachedAckFrame = None, rt_activeReceiveKeys = [],
          rt_messagesSinceHealing = 0, rt_lastHealedAt = now, rt_destroyed = False\<rparr>"
    using assms by (auto simp: newSparsePqHealingState_def result_simps)
  have idle: "mPhase m = Idle" using m(1) by (auto simp: newPqHealingMachine_def result_simps Let_def)
  note n = new_machine_inv [OF m(1)]
  have l: "live m" using n(2,6) by (simp add: flight_ok_def live_def)
  have "messageRoot = mRootKey m" using m(2) l by simp
  then show ?thesis using n l p idle
    by (simp add: rt rt_ok_def coherent_iff edge_of_def offer_dispatched_def awaiting_ack_def outbox_valid_def cached_ok_def
        keys_ok_def clock_ok_def MAX_SAFE_INTEGER_def)
qed

lemma cloned:
  assumes "rt_ok rt" "edge_of mode suiteName binding i rt"
  shows "rt_clone rt = Inr rt"
proof -
  let ?m = "rt_machine rt"
  note k = okD [OF assms(1)]
  obtain sn where sn: "snapshot ?m = Inr sn" "restore sn (mSuite ?m) (mSuite ?m) (mBinding ?m) = Inr ?m" using restore_snapshot [OF k(2,3)] by blast
  have root: "length (mRootKey ?m) = 32" using k(2) by (simp add: pq_inv_def)
  have e: "rt_pqMode rt = mode" "rt_rootSuite rt = suiteName" "rt_binding rt = binding" "(rt_outboundDirection rt = ''initiator-to-responder'') = i"
    using assms(2) by (simp_all add: edge_of_def)
  obtain m' where new: "newSparsePqHealingState mode suiteName binding (mRootKey ?m) (mNextOfferer ?m) i (rt_lastHealedAt rt) = Inr
    \<lparr>rt_pqMode = mode, rt_rootSuite = suiteName, rt_suite = rt_suite rt, rt_binding = binding,
     rt_outboundDirection = rt_outboundDirection rt, rt_inboundDirection = rt_inboundDirection rt,
     rt_machine = m', rt_messageRoot = mRootKey ?m, rt_outbox = None, rt_lastInboundOfferFrame = None,
     rt_lastInboundAdvanceFrame = None, rt_cachedAckFrame = None, rt_activeReceiveKeys = [],
     rt_messagesSinceHealing = 0, rt_lastHealedAt = rt_lastHealedAt rt, rt_destroyed = False\<rparr>"
    using new_runtime [OF assms(2) root k(9)] by blast
  have "rt = \<lparr>rt_pqMode = mode, rt_rootSuite = suiteName, rt_suite = rt_suite rt, rt_binding = binding,
     rt_outboundDirection = rt_outboundDirection rt, rt_inboundDirection = rt_inboundDirection rt,
     rt_machine = ?m, rt_messageRoot = rt_messageRoot rt, rt_outbox = rt_outbox rt, rt_lastInboundOfferFrame = rt_lastInboundOfferFrame rt,
     rt_lastInboundAdvanceFrame = rt_lastInboundAdvanceFrame rt, rt_cachedAckFrame = rt_cachedAckFrame rt,
     rt_activeReceiveKeys = rt_activeReceiveKeys rt, rt_messagesSinceHealing = rt_messagesSinceHealing rt,
     rt_lastHealedAt = rt_lastHealedAt rt, rt_destroyed = False\<rparr>"
    using e k(1) by (cases rt) simp
  then show ?thesis using new sn k by (simp add: rt_clone_def e clone_def)
qed

text \<open>Adopting a copy of the same edge makes the runtime that copy.\<close>

lemma adopted_candidate:
  assumes rt: "rt_ok rt" "edge_of mode suiteName binding i rt" and nxt: "rt_ok nxt" "edge_of mode suiteName binding i nxt"
    and ad: "rt_adopt same sameModule rt nxt = (Inr (), rt', nxt')"
  shows "rt' = nxt"
proof -
  have suite: "rt_suite nxt = rt_suite rt" using rt(2) nxt(2) by (auto simp: edge_of_def)
  have e: "rt_pqMode nxt = rt_pqMode rt" "rt_rootSuite nxt = rt_rootSuite rt" "rt_binding nxt = rt_binding rt"
      "rt_outboundDirection nxt = rt_outboundDirection rt" "rt_inboundDirection nxt = rt_inboundDirection rt"
    using rt(2) nxt(2) by (simp_all add: edge_of_def)
  have "rt_destroyed nxt = rt_destroyed rt" using okD(1) rt(1) nxt(1) by blast
  moreover have "rt' = rt\<lparr>rt_machine := rt_machine nxt, rt_messageRoot := rt_messageRoot nxt, rt_outbox := rt_outbox nxt,
              rt_lastInboundOfferFrame := rt_lastInboundOfferFrame nxt,
              rt_lastInboundAdvanceFrame := rt_lastInboundAdvanceFrame nxt, rt_cachedAckFrame := rt_cachedAckFrame nxt,
              rt_activeReceiveKeys := rt_activeReceiveKeys nxt, rt_messagesSinceHealing := rt_messagesSinceHealing nxt,
              rt_lastHealedAt := rt_lastHealedAt nxt\<rparr>"
    using ad by (auto simp: rt_adopt_def split: sum.splits)
  ultimately show ?thesis using suite e by (cases rt; cases nxt) simp
qed

lemma stored_reloaded:
  assumes "rt_ok rt" "edge_of mode suiteName binding i rt" "rt_serialize None rt = Inr b" "rt_restore b mode suiteName binding i = Inr rt'"
  shows "rt' = rt\<lparr>rt_activeReceiveKeys := sorted_keys (rt_activeReceiveKeys rt)\<rparr>"
  using assms serialized [of rt None, OF assms(1) _ assms(2)] restored [OF assms(1) okD(7) [OF assms(1)] assms(2)] okD(7) [OF assms(1)] by simp

lemma start_facts:
  assumes "rt_ok rt" "acceptControlFrame_start A module f now rt = (Inr out, rt1)" "\<forall>cached. out \<noteq> Answered (Some cached) False"
  obtains rec where "length f = 65490" "clock_ok now" "openPqControlFrame A (inbound_context module rt) f = Inr rec"
    "accept_record (mRootKey (rt_machine rt)) rec now rt = (Inr out, rt1)" "duplicate_answer f rt = None"
  using assms by (auto simp: control_start_iff [OF assms(1)] split: option.splits)

lemma answered_ok:
  assumes "kdf_ok module" "rt_ok rt" "acceptControlFrame_start A module f now rt = (Inr (Answered d c), rt')"
  shows "rt_ok rt' \<and> (edge_of mode suiteName binding i rt \<longrightarrow> edge_of mode suiteName binding i rt')"
proof (cases "\<exists>cached. d = Some cached \<and> \<not> c \<and> rt' = rt")
  case False
  show ?thesis
  proof (cases "duplicate_answer f rt")
    case None
    then obtain rec where r: "clock_ok now" "accept_record (mRootKey (rt_machine rt)) rec now rt = (Inr (Answered d c), rt')"
      using assms(3) by (auto simp: control_start_iff [OF assms(2)])
    show ?thesis by (rule ack_received [OF assms(1,2) r]) (simp add: edge_of_def)
  next
    case (Some cached)
    then show ?thesis using assms(3) False by (simp add: control_start_iff [OF assms(2)])
  qed
qed (use assms in auto)

lemma reached_ok:
  assumes A: "aead_ok A" and kdf: "kdf_ok module" and r: "rt_reach A module mode suiteName binding i rt"
  shows "rt_ok rt \<and> edge_of mode suiteName binding i rt"
  using r
proof (induction rule: rt_reach.induct)
  case (created root turn now rt)
  then show ?case by (rule created_ok)
next
  case (counted rt rt')
  then have rt': "rt' = rt\<lparr>rt_messagesSinceHealing := rt_messagesSinceHealing rt + 1\<rparr>" "rt_messagesSinceHealing rt < MAX_SAFE_INTEGER"
    by (auto simp: noteApplicationMessage_def result_simps)
  have "rt_ok rt" "edge_of mode suiteName binding i rt" using counted by blast+
  then show ?case using rt'(2) by (simp add: rt'(1) rt_ok_def clock_ok_def edge_of_def)
next
  case (keyed rt ks)
  then show ?case by (simp add: rt_ok_def edge_of_def)
next
  case (dispatched rt now rt')
  then have o: "rt_ok rt" "edge_of mode suiteName binding i rt" by blast+
  from dispatched obtain ob where ob: "rt_outbox rt = Some ob" "clock_ok now" "ob_attempts ob < 8"
      and rt': "rt' = rt\<lparr>rt_outbox := Some \<lparr>ob_kind = ob_kind ob, ob_frame = ob_frame ob, ob_attempts = ob_attempts ob + 1, ob_nextRetryAt = now + 5000\<rparr>\<rparr>"
    by (auto simp: markPendingDispatched_def result_simps PQ_HEAL_MAX_RETRIES_def PQ_HEAL_RETRY_MS_def split: option.splits)
  show ?case using o ob dispatched.hyps(2) by (simp add: rt' rt_ok_def coherent_outbox outbox_valid_def clock_ok_def edge_of_def)
next
  case (offered rt now rt1 nonce kp frame rt2)
  then have o: "rt_ok rt" "edge_of mode suiteName binding i rt" by blast+
  show ?case
    by (rule offer_step [OF A offered.hyps(3) kdf o(1) offered.hyps(2,4)]) (use o(2) in \<open>simp add: edge_of_def\<close>)
next
  case (answered rt f now d c rt')
  then show ?case using answered_ok [OF kdf] by blast
next
  case (encapsulated rt f now root x rt1 nonce enc d rt2)
  then have o: "rt_ok rt" "edge_of mode suiteName binding i rt" by blast+
  obtain rec where r: "length f = 65490" "clock_ok now" "accept_record (mRootKey (rt_machine rt)) rec now rt = (Inr (AwaitsEncaps root x), rt1)"
    by (rule start_facts [OF o(1) encapsulated.hyps(2)]) (use that in auto)
  show ?case by (rule offer_answered [OF A encapsulated.hyps(3) kdf o(1) r encapsulated.hyps(4)]) (use o(2) in \<open>simp add: edge_of_def\<close>)
next
  case (decapsulated rt f now p rt1 nonce dec d rt2)
  then have o: "rt_ok rt" "edge_of mode suiteName binding i rt" by blast+
  obtain a x kp where p: "p = (a, x, kp)" by (cases p) auto
  obtain rec where r: "length f = 65490" "clock_ok now" "accept_record (mRootKey (rt_machine rt)) rec now rt = (Inr (AwaitsDecaps (a, x, kp)), rt1)"
    by (rule start_facts [OF o(1) decapsulated.hyps(2)]) (use that p in auto)
  show ?case by (rule advance_answered [OF A decapsulated.hyps(3) kdf o(1) r decapsulated.hyps(4) [unfolded p]]) (use o(2) in \<open>simp add: edge_of_def\<close>)
next
  case (copied rt rt')
  then show ?case using cloned [of rt mode suiteName binding i] by auto
next
  case (adopted rt nxt rt' nxt')
  then show ?case using adopted_candidate by blast
next
  case (reloaded rt b rt')
  then have o: "rt_ok rt" "edge_of mode suiteName binding i rt" by blast+
  have "rt' = rt\<lparr>rt_activeReceiveKeys := sorted_keys (rt_activeReceiveKeys rt)\<rparr>"
    by (rule stored_reloaded [OF o reloaded.hyps(2,3)])
  then show ?case using o keys.norm_valid [OF okD(7) [OF o(1)]] by (simp add: rt_ok_def edge_of_def)
qed

section \<open>A repeated frame\<close>

text \<open>Processing a frame that carries an OFFER or an ADVANCE to the end, with whatever the backend answered.\<close>

definition control_processed :: "aead \<Rightarrow> 'r libcrypto \<Rightarrow> bytes \<Rightarrow> int \<Rightarrow> pq_runtime \<Rightarrow> bytes \<Rightarrow> pq_runtime \<Rightarrow> bool" where
  "control_processed A module f now rt reply rt2 \<longleftrightarrow>
     (\<exists>rt1 nonce. length nonce = 12 \<and>
        ((\<exists>root x enc. acceptControlFrame_start A module f now rt = (Inr (AwaitsEncaps root x), rt1) \<and>
            answerOffer_resume A module root x enc nonce f now rt1 = (Inr (Some reply, True), rt2)) \<or>
         (\<exists>p dec. acceptControlFrame_start A module f now rt = (Inr (AwaitsDecaps p), rt1) \<and>
            answerAdvance_resume A module p dec nonce f now rt1 = (Inr (Some reply, True), rt2))))"

lemma processed_cached:
  assumes A: "aead_ok A" and kdf: "kdf_ok module" and ok: "rt_ok rt" and p: "control_processed A module f now rt reply rt2"
  shows "rt_ok rt2 \<and> length f = 65490 \<and> duplicate_answer f rt2 = Some reply"
proof -
  obtain rt1 nonce where n: "length nonce = 12" and c:
    "(\<exists>root x enc. acceptControlFrame_start A module f now rt = (Inr (AwaitsEncaps root x), rt1) \<and>
       answerOffer_resume A module root x enc nonce f now rt1 = (Inr (Some reply, True), rt2)) \<or>
     (\<exists>p dec. acceptControlFrame_start A module f now rt = (Inr (AwaitsDecaps p), rt1) \<and>
       answerAdvance_resume A module p dec nonce f now rt1 = (Inr (Some reply, True), rt2))"
    using p unfolding control_processed_def by blast
  from c show ?thesis
  proof (elim disjE exE conjE)
    fix root x enc assume s: "acceptControlFrame_start A module f now rt = (Inr (AwaitsEncaps root x), rt1)"
      and r: "answerOffer_resume A module root x enc nonce f now rt1 = (Inr (Some reply, True), rt2)"
    obtain rec where g: "length f = 65490" "clock_ok now" "accept_record (mRootKey (rt_machine rt)) rec now rt = (Inr (AwaitsEncaps root x), rt1)"
      by (rule start_facts [OF ok s]) (use that in auto)
    show ?thesis by (rule offer_answered [OF A n kdf ok g r]) (use g(1) in \<open>simp add: duplicate_answer_def bytesEqual_iff\<close>)
  next
    fix p dec assume s: "acceptControlFrame_start A module f now rt = (Inr (AwaitsDecaps p), rt1)"
      and r: "answerAdvance_resume A module p dec nonce f now rt1 = (Inr (Some reply, True), rt2)"
    obtain a x kp where p: "p = (a, x, kp)" by (cases p) auto
    obtain rec where g: "length f = 65490" "clock_ok now" "accept_record (mRootKey (rt_machine rt)) rec now rt = (Inr (AwaitsDecaps (a, x, kp)), rt1)"
      by (rule start_facts [OF ok s]) (use that p in auto)
    show ?thesis by (rule advance_answered [OF A n kdf ok g r [unfolded p]]) (use g(1) in \<open>simp add: duplicate_answer_def bytesEqual_iff\<close>)
  qed
qed

end
