(* ===== verification/Pq_Exchange.thy ===== *)
theory Pq_Exchange
  imports Pq_Runtime_Props
begin

text \<open>
  The healing runtimes of the two ends of an edge talking to each other in sealed control frames: OFFER,
  ADVANCE and acknowledgement, from one message root to the next. First what makes each call
  succeed, then the exchange, then the properties of the runtime with concrete runs.
\<close>

section \<open>A whole exchange\<close>

definition paired :: "pq_runtime \<Rightarrow> pq_runtime \<Rightarrow> bool" where
  "paired a b \<longleftrightarrow> rt_suite b = rt_suite a \<and> rt_binding b = rt_binding a \<and> rt_rootSuite b = rt_rootSuite a \<and>
     rt_inboundDirection b = rt_outboundDirection a \<and> rt_outboundDirection b = rt_inboundDirection a \<and>
     mRootKey (rt_machine b) = mRootKey (rt_machine a) \<and> mEpoch (rt_machine b) = mEpoch (rt_machine a) \<and>
     mLocalCounter (rt_machine b) = mRemoteCounter (rt_machine a) \<and> mRemoteCounter (rt_machine b) = mLocalCounter (rt_machine a)"

lemma same_contexts:
  "paired a b \<Longrightarrow> inbound_context module b = outbound_context module a" "paired a b \<Longrightarrow> inbound_context module a = outbound_context module b"
  by (simp_all add: paired_def frame_context_def)

lemma offer_inspected:
  assumes "offer_ok suite binding x" "canonical suite"
  shows "inspectPqHealingRecord (offer_bytes x) suite = Inr (InspectedOffer x binding)" "length (offer_bytes x) \<noteq> 64"
proof -
  note d = offer_okD [OF assms(1)]
  have "length binding = 32" using d(1) by (simp add: slot_ok_def)
  then have b5: "offer_bytes x ! 5 = OFFER_TYPE" "sub (offer_bytes x) 8 40 = binding"
    using d(5) header_fields(3,6) by (simp_all add: offer_layout_def)
  have len: "length (offer_bytes x) = 64 + publicKeyBytes suite" "0 < publicKeyBytes suite"
    using offer_length [OF assms(1)] assms(2) by (auto simp: canonical_def ML_KEM_512_SUITE_def ML_KEM_768_SUITE_def ML_KEM_1024_SUITE_def)
  have "decodeOffer (offer_bytes x) suite None = Inr x"
    using assms(1) by (auto simp: offer_ok_def decodeOffer_def decodeHeader_def result_simps Let_def)
  then show "inspectPqHealingRecord (offer_bytes x) suite = Inr (InspectedOffer x binding)" "length (offer_bytes x) \<noteq> 64"
    using b5 len assms(2) by (simp_all add: inspectPqHealingRecord_def assertCanonicalSuite_iff [THEN iffD2] PQ_HEALING_RECORD_HEADER_BYTES_def)
qed

lemma advance_inspected:
  assumes "advance_ok suite binding a" "canonical suite"
  shows "inspectPqHealingRecord (advance_bytes a) suite = Inr (InspectedAdvance a binding)" "length (advance_bytes a) \<noteq> 64"
proof -
  note d = advance_okD [OF assms(1)]
  have "length binding = 32" using d(1) by (simp add: slot_ok_def)
  then have b5: "advance_bytes a ! 5 = ADVANCE_TYPE" "sub (advance_bytes a) 8 40 = binding"
    using d(7) header_fields(3,6) by (simp_all add: advance_layout_def)
  have len: "64 < length (advance_bytes a)" using advance_length [OF assms(1)] by simp
  have "decodeAdvance (advance_bytes a) suite None = Inr a"
    using assms(1) by (auto simp: advance_ok_def decodeAdvance_def decodeOffer_def decodeHeader_def result_simps Let_def)
  then show "inspectPqHealingRecord (advance_bytes a) suite = Inr (InspectedAdvance a binding)" "length (advance_bytes a) \<noteq> 64"
    using b5 len assms(2)
    by (simp_all add: inspectPqHealingRecord_def assertCanonicalSuite_iff [THEN iffD2] PQ_HEALING_RECORD_HEADER_BYTES_def
        OFFER_TYPE_def ADVANCE_TYPE_def)
qed

lemma control_inspected:
  "offer_ok suite binding x \<Longrightarrow> canonical suite \<Longrightarrow> inspectControlRecord (offer_bytes x) suite binding = Inr (senderCounter x, fromEpoch x)"
  "advance_ok suite binding a \<Longrightarrow> canonical suite \<Longrightarrow> inspectControlRecord (advance_bytes a) suite binding = Inr (senderCounter a, fromEpoch a)"
  "ack_ok suite binding k \<Longrightarrow> inspectControlRecord (ack_layout suite binding k) suite binding = Inr (ack_advanceCounter k, ack_epoch k)"
  using offer_inspected [of suite binding x] advance_inspected [of suite binding a] decodeAck_iff [of "ack_layout suite binding k" suite binding k]
    length_header [of binding]
  by (simp_all add: inspectControlRecord_def frame_lift_def bytesEqual_iff PQ_HEALING_ACK_BYTES_def ack_layout_def ack_ok_def)

definition aead_total :: "aead \<Rightarrow> bool" where
  "aead_total A \<longleftrightarrow> (\<forall>key nonce plaintext aad. \<exists>ct. aead_encrypt A key nonce plaintext aad = Some ct)"

lemma frame_sealable:
  assumes "aead_total A" "kdf_total module" "canonical (fc_suite ctx)" "length (fc_binding ctx) = 32" "length (fc_rootKey ctx) = 32"
    and "fc_direction ctx = ''initiator-to-responder'' \<or> fc_direction ctx = ''responder-to-initiator''" "u64_ok (fc_keyEpoch ctx)"
    and "fc_module ctx = module" "inspectControlRecord rec (fc_suite ctx) (fc_binding ctx) = Inr (counter, fc_keyEpoch ctx)" "length rec \<le> 65401"
  shows "\<exists>frame. control_sealed A ctx rec nonce frame"
proof -
  obtain prk where p: "hkdf_sha512_extract module (fc_rootKey ctx) (fc_binding ctx) = Some prk" "length prk \<le> 64"
    using assms(2) unfolding kdf_total_def by blast
  have tag: "\<exists>t. suiteTag (fc_suite ctx) = Inr t"
    using assms(3) by (auto simp: suiteTag_def canonical_def getMlKemSuite_def frame_lift_def ML_KEM_512_SUITE_def ML_KEM_768_SUITE_def ML_KEM_1024_SUITE_def)
  have dir: "\<exists>d. directionTag (fc_direction ctx) = Inr d" using assms(6) by (auto simp: directionTag_def)
  obtain info where info: "frameKeyInfo (fc_suite ctx) (fc_binding ctx) (fc_direction ctx) (fc_keyEpoch ctx) = Inr info"
    using tag dir by (auto simp: frameKeyInfo_def Let_def)
  obtain okm where "hkdf_sha512_expand module 32 prk info = Some okm" using assms(2) unfolding kdf_total_def by blast
  then have "control_key ctx = Inr okm"
    using p info assms(4,5,7,8) by (simp add: control_key_def deriveFrameKey_def PQ_HEALING_ROOT_BYTES_def PQ_HEALING_BINDING_BYTES_def
        hkdfExtract_def hkdfExpand_def frame_kdf_def)
  moreover obtain ct where "aead_encrypt A okm nonce (padded [] 65401 rec) (control_header ctx counter nonce) = Some ct"
    using assms(1) unfolding aead_total_def by blast
  ultimately show ?thesis using assms(4,7,9,10) by (auto simp: control_sealed_def)
qed

lemma opened_epoch: "openPqControlFrame A ctx f = Inr rec \<Longrightarrow> getU64 f 49 = fc_keyEpoch ctx"
  by (auto simp: openPqControlFrame_def result_simps Let_def EPOCH_OFFSET_def)

text \<open>A cached ADVANCE belongs to an earlier epoch.\<close>

definition cache_old :: "pq_runtime \<Rightarrow> bool" where
  "cache_old rt \<longleftrightarrow> (\<forall>g. rt_lastInboundAdvanceFrame rt = Some g \<longrightarrow> getU64 g 49 < mEpoch (rt_machine rt))"

lemma reached_cache_old:
  assumes A: "aead_ok A" and kdf: "kdf_ok module" and r: "rt_reach A module mode suiteName binding i rt"
  shows "cache_old rt"
  using r
proof (induction rule: rt_reach.induct)
  case (created root turn now rt)
  then show ?case by (auto simp: newSparsePqHealingState_def result_simps cache_old_def)
next
  case (counted rt rt')
  then show ?case by (auto simp: noteApplicationMessage_def result_simps cache_old_def)
next
  case (dispatched rt now rt')
  then show ?case by (auto simp: markPendingDispatched_def result_simps cache_old_def split: option.splits)
next
  case (offered rt now rt1 nonce kp frame rt2)
  then have o: "rt_ok rt" using reached_ok [OF A kdf] by blast
  show ?case by (rule offer_step [OF A offered.hyps(3) kdf o offered.hyps(2,4)]) (simp add: cache_old_def)
next
  case (answered rt f now d c rt')
  then have o: "rt_ok rt" using reached_ok [OF A kdf] by blast
  show ?case
  proof (cases "duplicate_answer f rt")
    case None
    then obtain rec where r: "clock_ok now" "accept_record (mRootKey (rt_machine rt)) rec now rt = (Inr (Answered d c), rt')"
      using answered.hyps(2) by (auto simp: control_start_iff [OF o])
    show ?thesis by (rule ack_received [OF kdf o r]) (simp add: cache_old_def)
  next
    case (Some cached)
    then show ?thesis using answered.hyps(2) answered.IH by (simp add: control_start_iff [OF o])
  qed
next
  case (encapsulated rt f now root x rt1 nonce enc d rt2)
  then have o: "rt_ok rt" using reached_ok [OF A kdf] by blast
  obtain rec where r: "length f = 65490" "clock_ok now" "accept_record (mRootKey (rt_machine rt)) rec now rt = (Inr (AwaitsEncaps root x), rt1)"
    by (rule start_facts [OF o encapsulated.hyps(2)]) (use that in auto)
  show ?case by (rule offer_answered [OF A encapsulated.hyps(3) kdf o r encapsulated.hyps(4)]) (simp add: cache_old_def)
next
  case (decapsulated rt f now p rt1 nonce dec d rt2)
  then have o: "rt_ok rt" using reached_ok [OF A kdf] by blast
  obtain a x kp where p: "p = (a, x, kp)" by (cases p) auto
  obtain rec where g: "length f = 65490" "clock_ok now" "accept_record (mRootKey (rt_machine rt)) rec now rt = (Inr (AwaitsDecaps (a, x, kp)), rt1)"
      and open_f: "openPqControlFrame A (inbound_context module rt) f = Inr rec"
    by (rule start_facts [OF o decapsulated.hyps(2)]) (use that p in auto)
  have "fromEpoch a = mEpoch (rt_machine rt)"
    by (rule acceptAdvance_start_cases [of rec "rt_machine rt"]) (use advance_received(5) [OF o g(3)] in auto)
  then have "toEpoch a = mEpoch (rt_machine rt) + 1" using advance_okD(2) [OF advance_received(3) [OF o g(3)]] by simp
  moreover have "getU64 f 49 = mEpoch (rt_machine rt)" using opened_epoch [OF open_f] by (simp add: frame_context_def)
  ultimately show ?case
    by - (rule advance_answered [OF A decapsulated.hyps(3) kdf o g decapsulated.hyps(4) [unfolded p]], simp add: cache_old_def)
next
  case (copied rt rt')
  then have "rt_ok rt" "edge_of mode suiteName binding i rt" using reached_ok [OF A kdf] by blast+
  then show ?case using copied cloned [of rt mode suiteName binding i] by simp
next
  case (adopted rt nxt rt' nxt')
  then have "rt_ok rt" "edge_of mode suiteName binding i rt" "rt_ok nxt" "edge_of mode suiteName binding i nxt"
    using reached_ok [OF A kdf] by blast+
  then show ?case using adopted_candidate adopted by blast
next
  case (reloaded rt b rt')
  then have o: "rt_ok rt" "edge_of mode suiteName binding i rt" using reached_ok [OF A kdf] by blast+
  have "rt' = rt\<lparr>rt_activeReceiveKeys := sorted_keys (rt_activeReceiveKeys rt)\<rparr>"
    by (rule stored_reloaded [OF o reloaded.hyps(2,3)])
  then show ?case using reloaded.IH by (simp add: cache_old_def)
qed (simp add: cache_old_def)

lemma offer_made:
  assumes A: "aead_ok A" "aead_total A" "length nonce = 12" and kdf: "kdf_total module"
    and ok: "rt_ok rt" "edge_of mode suiteName binding i rt" and due: "healingDue now rt = Inr True" and room: "room (rt_machine rt)"
    and kp: "length (kp_publicKey kp) = publicKeyBytes (rt_suite rt)" "length (kp_secretKey kp) = secretKeyBytes (rt_suite rt)"
  shows "\<exists>rt1 frame rt2. prepareHealingOffer_start now rt = (Inr (), rt1) \<and>
    prepareHealingOffer_resume A module (Some kp) nonce now rt1 = (Inr frame, rt2)"
proof -
  let ?m = "rt_machine rt"
  note k = okD [OF ok(1)]
  have idle: "mPhase ?m = Idle" "mNextOfferer ?m = Local"
    using due k(1,3) by (auto simp: healingDue_def result_simps trafficBlocked_def live_def split: if_splits)
  have st: "prepareOffer_start ?m = (Inr (), ?m\<lparr>mBusy := True\<rparr>)" by (rule start_offer_ok [OF k(3) idle room])
  have start: "prepareHealingOffer_start now rt = (Inr (), rt\<lparr>rt_machine := ?m\<lparr>mBusy := True\<rparr>\<rparr>)"
    using due k(1) st by (simp add: prepareHealingOffer_start_def on_machine_def)
  let ?b = "?m\<lparr>mBusy := True\<rparr>"
  have inv: "pq_inv ?b" "\<not> mDestroyed ?b" "room ?b" using k(2,3) room by (simp_all add: live_def)
  obtain x where x: "prepareOffer_resume (Some kp) ?b = (Inr (offer_bytes x), ?m\<lparr>mPhase := OutboundOffer False x kp\<rparr>)"
      "offer_ok (rt_suite rt) (rt_binding rt) x" "senderCounter x = mLocalCounter ?m" "fromEpoch x = mEpoch ?m"
  proof (rule prepareOffer_resume_cases [of "Some kp" ?b])
    fix e assume "prepareOffer_resume (Some kp) ?b = (Inl e, ?b\<lparr>mBusy := False\<rparr>)"
    then show thesis using offer_answer_ok [OF inv, of kp] kp k(3,4) idle by (auto simp: live_def dest: arg_cong [of _ _ mPhase])
  qed (use that k(3,4,5) idle_phase [OF k(3)] in auto)
  let ?rt = "rt\<lparr>rt_machine := ?m\<lparr>mPhase := OutboundOffer False x kp\<rparr>\<rparr>"
  have c: "canonical (rt_suite rt)" "length (rt_binding rt) = 32" "length (mRootKey ?m) = 32" "u64_ok (mEpoch ?m)" using k(2,4,5) by (simp_all add: pq_inv_def)
  have dir: "rt_outboundDirection rt = ''initiator-to-responder'' \<or> rt_outboundDirection rt = ''responder-to-initiator''"
    using ok(2) by (auto simp: edge_of_def)
  have "length (offer_bytes x) \<le> 65401" using offer_length [OF x(2)] suite_sizes [OF c(1)] by simp
  then obtain frame where "control_sealed A (outbound_context module ?rt) (offer_bytes x) nonce frame"
    using frame_sealable [OF A(2) kdf, of "outbound_context module ?rt" "offer_bytes x" "mLocalCounter ?m"] c dir control_inspected(1) [OF x(2) c(1)] x(3,4)
    by (auto simp: frame_context_def)
  then have "fst (seal_outbound A module (mRootKey ?m) (offer_bytes x) nonce ?rt) = Inr frame"
    using seal_outbound_Inr [OF A(1,3), of ?rt module "mRootKey ?m" "offer_bytes x" frame] k(3) by simp
  then have "\<exists>rt2. prepareHealingOffer_resume A module (Some kp) nonce now (rt\<lparr>rt_machine := ?b\<rparr>) = (Inr frame, rt2)"
    using x(1) k(3) by (auto simp: prepareHealingOffer_resume_def chain_ok markOfferDispatched_def)
  then show ?thesis using start by blast
qed

lemma offer_taken:
  assumes ok: "rt_ok rt" "cache_old rt" and m: "mPhase (rt_machine rt) = Idle" "mNextOfferer (rt_machine rt) = Remote" "room (rt_machine rt)"
    and f: "length f = 65490" "clock_ok now" "openPqControlFrame A (inbound_context module rt) f = Inr (offer_bytes x)"
    and x: "offer_ok (rt_suite rt) (rt_binding rt) x" "senderCounter x = mRemoteCounter (rt_machine rt)" "fromEpoch x = mEpoch (rt_machine rt)"
  shows "acceptControlFrame_start A module f now rt = (Inr (AwaitsEncaps (mRootKey (rt_machine rt)) x),
     rt\<lparr>rt_machine := (rt_machine rt)\<lparr>mPhase := InboundOffer x, mBusy := True\<rparr>\<rparr>)"
proof -
  let ?m = "rt_machine rt" and ?m1 = "(rt_machine rt)\<lparr>mPhase := InboundOffer x\<rparr>"
  note k = okD [OF ok(1)]
  have "getU64 f 49 = mEpoch ?m" using opened_epoch [OF f(3)] by (simp add: frame_context_def)
  then have dup: "duplicate_answer f rt = None"
    using ok(2) idle_quiet [OF ok(1) m(1)] by (auto simp: duplicate_answer_def cache_old_def bytesEqual_iff split: option.splits)
  have x': "offer_ok (mSuite ?m) (mBinding ?m) x" using x(1) k(4,5) by simp
  have g: "acceptAuthenticatedOffer (offer_bytes x) ?m = (Inr (), ?m1)" by (rule get_offer_ok [OF k(3,2) m x' x(2,3)])
  have "pq_inv ?m1" using get_offer_inv [OF k(2,10), where r = "offer_bytes x"] g by simp
  then have s: "prepareAdvance_start ?m1 = (Inr x, ?m1\<lparr>mBusy := True\<rparr>)" using start_advance_ok [of ?m1 x] k(3) by simp
  have c: "canonical (rt_suite rt)" using k(2,4) by (simp add: pq_inv_def)
  have "accept_record (mRootKey ?m) (offer_bytes x) now rt = (Inr (AwaitsEncaps (mRootKey ?m) x), rt\<lparr>rt_machine := ?m1\<lparr>mBusy := True\<rparr>\<rparr>)"
    using offer_inspected [OF x(1) c] g s by (simp add: accept_record_def PQ_HEALING_ACK_BYTES_def chain_ok)
  then show ?thesis using dup f by (simp add: control_start_iff [OF ok(1)])
qed

lemma offer_answer_made:
  assumes A: "aead_ok A" "aead_total A" "length nonce = 12" and kdf: "kdf_total module" and ok: "rt_ok rt" "edge_of mode suiteName binding i rt"
    and r: "acceptControlFrame_start A module f now rt = (Inr (AwaitsEncaps root x), rt1)"
    and ct: "length ct = ciphertextBytes (rt_suite rt)" "length ss = sharedSecretBytes (rt_suite rt)"
  shows "\<exists>d rt2. answerOffer_resume A module root x (Some (ct, ss)) nonce f now rt1 = (Inr d, rt2)"
proof -
  let ?m = "rt_machine rt" and ?m1 = "(rt_machine rt)\<lparr>mPhase := InboundOffer x, mBusy := True\<rparr>"
  note k = okD [OF ok(1)]
  obtain rec where rec: "accept_record (mRootKey ?m) rec now rt = (Inr (AwaitsEncaps root x), rt1)"
    by (rule start_facts [OF ok(1) r]) (use that in auto)
  note g = offer_received [OF ok(1) rec]
  have "fold (pq_handle module) [GetOffer rec, StartAdvance] (?m, NoFlight) = (?m1, AdvanceFlight x)" using g(5,6) by simp
  then have inv: "pq_inv ?m1" using pq_run_inv [OF k(2) _ k(10)] kdf unfolding kdf_total_def by blast
  have act: "\<not> mDestroyed ?m1" using k(3) by (simp add: live_def)
  obtain a0 root0 where snd0: "snd (prepareAdvance_resume module x (Some (ct, ss)) ?m1) = ?m1\<lparr>mBusy := False, mPhase := OutboundAdvancePrepared x a0 root0\<rparr>"
    using advance_answer_ok [OF kdf inv act, of x ct ss] ct k(4) by auto
  have okx: "offer_ok (mSuite ?m1) (mBinding ?m1) x" using g(4) k(4,5) by simp
  obtain a nextRoot where a: "prepareAdvance_resume module x (Some (ct, ss)) ?m1 = (Inr (advance_bytes a), ?m\<lparr>mPhase := OutboundAdvancePrepared x a nextRoot\<rparr>)"
      "advance_ok (rt_suite rt) (rt_binding rt) a" "advance_offer a = x" "senderCounter a = mLocalCounter ?m" "length nextRoot = 32"
  proof (rule prepareAdvance_resume_cases [OF okx, of module "Some (ct, ss)"])
    fix e assume "prepareAdvance_resume module x (Some (ct, ss)) ?m1 = (Inl e, ?m1\<lparr>mBusy := False\<rparr>)"
    then show thesis using snd0 by (auto dest: arg_cong [of _ _ mPhase])
  next
    fix a s' r assume "prepareAdvance_resume module x (Some (ct, ss)) ?m1 = (Inr (advance_bytes a), ?m1\<lparr>mBusy := False, mPhase := OutboundAdvancePrepared x a r\<rparr>)"
      "advance_ok (mSuite ?m1) (mBinding ?m1) a" "advance_offer a = x" "senderCounter a = mLocalCounter ?m1" "advance_root module ?m1 a s' r"
    moreover have "length r = 32" using advance_root_length calculation(5) kdf unfolding kdf_total_def by blast
    ultimately show thesis using that [of a r] k(3,4,5) idle_phase [OF k(3)] by auto
  qed
  let ?rt = "rt\<lparr>rt_machine := ?m\<lparr>mPhase := OutboundAdvancePrepared x a nextRoot\<rparr>\<rparr>"
  have c: "canonical (rt_suite rt)" "length (rt_binding rt) = 32" "length (mRootKey ?m) = 32" "u64_ok (mEpoch ?m)" using k(2,4,5) by (simp_all add: pq_inv_def)
  have dir: "rt_outboundDirection rt = ''initiator-to-responder'' \<or> rt_outboundDirection rt = ''responder-to-initiator''"
    using ok(2) by (auto simp: edge_of_def)
  have ep: "fromEpoch a = mEpoch ?m" using advance_okD(4) [OF a(2)] a(3) inv by (simp add: pq_inv_def validate_iff)
  have "length (advance_bytes a) \<le> 65401" using advance_length [OF a(2)] suite_sizes [OF c(1)] by simp
  then obtain frame where "control_sealed A (outbound_context module ?rt) (advance_bytes a) nonce frame"
    using frame_sealable [OF A(2) kdf, of "outbound_context module ?rt" "advance_bytes a" "mLocalCounter ?m"] c dir
      control_inspected(2) [OF a(2) c(1)] a(4) ep
    by (auto simp: frame_context_def)
  then have "fst (seal_outbound A module (mRootKey ?m) (advance_bytes a) nonce ?rt) = Inr frame"
    using seal_outbound_Inr [OF A(1,3), of ?rt module "mRootKey ?m" "advance_bytes a" frame] k(3) by simp
  then show ?thesis
    using a(1,5) k(3) g(1)
    by (auto simp: answerOffer_resume_def chain_ok g(2) commitPreparedAdvance_def requireBytes_def PQ_HEALING_ROOT_BYTES_def refresh_live)
qed

lemma advance_taken:
  assumes ok: "rt_ok rt" and m: "mPhase (rt_machine rt) = OutboundOffer True x kp"
    and none: "rt_lastInboundOfferFrame rt = None" "rt_lastInboundAdvanceFrame rt = None"
    and f: "length f = 65490" "clock_ok now" "openPqControlFrame A (inbound_context module rt) f = Inr (advance_bytes a)"
    and a: "advance_ok (rt_suite rt) (rt_binding rt) a" "advance_offer a = x" "senderCounter a = mRemoteCounter (rt_machine rt)"
      "fromEpoch a = mEpoch (rt_machine rt)"
  shows "acceptControlFrame_start A module f now rt = (Inr (AwaitsDecaps (a, x, kp)), rt\<lparr>rt_machine := (rt_machine rt)\<lparr>mBusy := True\<rparr>\<rparr>)"
proof -
  let ?m = "rt_machine rt"
  note k = okD [OF ok]
  have dup: "duplicate_answer f rt = None" using none by (simp add: duplicate_answer_def)
  obtain ob where ob: "rt_outbox rt = Some ob" "ob_kind ob = OfferKind"
    using ok m k(3) by (auto simp: rt_ok_def coherent_iff offer_dispatched_def live_def)
  have "advance_ok (mSuite ?m) (mBinding ?m) a" using a(1) k(4,5) by simp
  then have g: "acceptAuthenticatedAdvance_start (advance_bytes a) ?m = (Inr (a, x, kp), ?m\<lparr>mBusy := True\<rparr>)"
    by (rule get_advance_ok [OF k(3,2) m _ a(2-4)])
  have c: "canonical (rt_suite rt)" using k(2,4) by (simp add: pq_inv_def)
  have "accept_record (mRootKey ?m) (advance_bytes a) now rt = (Inr (AwaitsDecaps (a, x, kp)), rt\<lparr>rt_machine := ?m\<lparr>mBusy := True\<rparr>\<rparr>)"
    using advance_inspected [OF a(1) c] g ob by (simp add: accept_record_def PQ_HEALING_ACK_BYTES_def chain_ok)
  then show ?thesis using dup f by (simp add: control_start_iff [OF ok])
qed

lemma advance_answer_made:
  assumes A: "aead_ok A" "aead_total A" "length nonce = 12" and kdf: "kdf_total module" and ok: "rt_ok rt" "edge_of mode suiteName binding i rt"
    and r: "acceptControlFrame_start A module f now rt = (Inr (AwaitsDecaps (a, x, kp)), rt1)"
    and ss: "length ss = sharedSecretBytes (rt_suite rt)"
  shows "\<exists>d rt2. answerAdvance_resume A module (a, x, kp) (Some ss) nonce f now rt1 = (Inr d, rt2)"
proof -
  let ?m = "rt_machine rt" and ?k = "\<lparr>ack_epoch = toEpoch a, ack_advanceCounter = senderCounter a\<rparr>"
  note k = okD [OF ok(1)]
  have kdf': "kdf_ok module" using kdf by (simp add: kdf_total_def)
  obtain rec where rec: "accept_record (mRootKey ?m) rec now rt = (Inr (AwaitsDecaps (a, x, kp)), rt1)"
    by (rule start_facts [OF ok(1) r]) (use that in auto)
  note g = advance_received [OF ok(1) rec]
  have root: "length (mRootKey ?m) = 32" "canonical (rt_suite rt)" "length (rt_binding rt) = 32" using k(2,4,5) by (simp_all add: pq_inv_def)
  obtain nextRoot where n: "deriveNextRoot module (mRootKey ?m) ss (advance_bytes a) = Inr nextRoot"
    using deriveNextRoot_total [OF kdf root(1)] by blast
  let ?m2 = "?m\<lparr>mPhase := InboundAdvancePrepared x a kp nextRoot\<rparr>"
  have m2: "acceptAuthenticatedAdvance_resume module (a, x, kp) (Some ss) (?m\<lparr>mBusy := True\<rparr>) = (Inr (), ?m2)"
    using n ss k(3,4) idle_phase [OF k(3)] by (simp add: acceptAuthenticatedAdvance_resume_def assertActive_def requireBytes_def live_def)
  have len: "length nextRoot = 32" using advance_root_length [OF kdf', of ?m a ss nextRoot] n by (simp add: advance_root_def)
  let ?m3 = "?m\<lparr>mRootKey := nextRoot, mEpoch := toEpoch a, mLocalCounter := mLocalCounter ?m + 1,
           mRemoteCounter := mRemoteCounter ?m + 1, mNextOfferer := Remote, mLastInboundAdvance := Some a,
           mPhase := InboundAdvanceAwaitingAckDispatch a\<rparr>"
  have cm: "commitAcceptedAdvance ?m2 = (Inr ?k, ?m3)"
    using k(3) len by (simp add: commitAcceptedAdvance_def requireBytes_def PQ_HEALING_ROOT_BYTES_def Let_def)
  have "fold (pq_handle module) [GetAdvance rec, AcceptAnswer (Some ss), CommitAccepted] (?m, NoFlight) = (?m3, NoFlight)"
    using g(5) m2 cm by simp
  then have inv3: "pq_inv ?m3" using pq_run_inv [OF k(2) kdf' k(10)] by blast
  have mk: "markAdvanceAcknowledgementDispatched ?k ?m3 = (Inr (), ?m3\<lparr>mPhase := Idle\<rparr>)"
    using mark_ack_ok [OF _ inv3] k(3) by simp
  have u: "u64_ok (toEpoch a)" "u64_ok (senderCounter a)" using inv3 advance_okD(1) [OF g(3)] by (simp_all add: pq_inv_def slot_ok_def)
  then have ok_k: "ack_ok (rt_suite rt) (rt_binding rt) ?k" using root by (simp add: ack_ok_def)
  let ?rec = "ack_layout (rt_suite rt) (rt_binding rt) ?k" and ?ctx = "frame_context module rt nextRoot (rt_outboundDirection rt) (toEpoch a)"
  have enc: "encodePqHealingAck ?k (rt_suite rt) (rt_binding rt) = Inr ?rec" using ok_k by (simp add: encodeAck_iff)
  have dir: "rt_outboundDirection rt = ''initiator-to-responder'' \<or> rt_outboundDirection rt = ''responder-to-initiator''"
    using ok(2) by (auto simp: edge_of_def)
  have "length ?rec \<le> 65401" using root(3) by (simp add: ack_layout_def length_header)
  then obtain frame where "control_sealed A ?ctx ?rec nonce frame"
    using frame_sealable [OF A(2) kdf, of ?ctx ?rec "senderCounter a"] root len dir u(1) control_inspected(3) [OF ok_k]
    by (auto simp: frame_context_def)
  then have "sealPqControlFrame A (frame_context module (rt\<lparr>rt_machine := ?m3\<rparr>) nextRoot (rt_outboundDirection rt) (toEpoch a)) ?rec nonce = Inr frame"
    by (simp add: frame_seal_iff [OF A(1,3)] frame_context_def)
  then show ?thesis using m2 cm mk enc k(3) by (auto simp: answerAdvance_resume_def chain_ok g(1) refresh_live)
qed

lemma ack_taken:
  assumes ok: "rt_ok rt" and m: "mPhase (rt_machine rt) = OutboundAdvanceAwaitingAck x a" and none: "rt_lastInboundAdvanceFrame rt = None"
    and old: "\<And>g. rt_lastInboundOfferFrame rt = Some g \<Longrightarrow> getU64 g 49 < mEpoch (rt_machine rt)"
    and f: "length f = 65490" "clock_ok now" "openPqControlFrame A (inbound_context module rt) f =
      Inr (ack_layout (rt_suite rt) (rt_binding rt) \<lparr>ack_epoch = mEpoch (rt_machine rt), ack_advanceCounter = senderCounter a\<rparr>)"
  shows "\<exists>rt1. acceptControlFrame_start A module f now rt = (Inr (Answered None True), rt1)"
proof -
  let ?m = "rt_machine rt" and ?k = "\<lparr>ack_epoch = mEpoch (rt_machine rt), ack_advanceCounter = senderCounter a\<rparr>"
  note k = okD [OF ok]
  have "getU64 f 49 = mEpoch ?m" using opened_epoch [OF f(3)] by (simp add: frame_context_def)
  then have dup: "duplicate_answer f rt = None"
    using old none by (auto simp: duplicate_answer_def bytesEqual_iff split: option.splits)
  obtain ob where ob: "rt_outbox rt = Some ob" "ob_kind ob = AdvanceKind"
    using ok m k(3) by (auto simp: rt_ok_def coherent_iff awaiting_ack_def live_def)
  have c: "canonical (rt_suite rt)" "length (rt_binding rt) = 32" "u64_ok (mEpoch ?m)" using k(2,4,5) by (simp_all add: pq_inv_def)
  have "advance_ok (mSuite ?m) (mBinding ?m) a" using k(2) m by (simp add: pq_inv_def phase_ok_def)
  then have "ack_ok (rt_suite rt) (rt_binding rt) ?k" using advance_okD(1) c k(4,5) by (simp add: ack_ok_def slot_ok_def)
  then have dec: "decodePqHealingAck (ack_layout (rt_suite rt) (rt_binding rt) ?k) (rt_suite rt) (rt_binding rt) = Inr ?k"
    by (simp add: decodeAck_iff)
  have "length (ack_layout (rt_suite rt) (rt_binding rt) ?k) = 64" using c(2) by (simp add: ack_layout_def length_header)
  then have "\<exists>rt1. accept_record (mRootKey ?m) (ack_layout (rt_suite rt) (rt_binding rt) ?k) now rt = (Inr (Answered None True), rt1)"
    using dec get_ack_ok [OF k(3,2) m] k(3) ob
    by (auto simp: accept_record_def accept_ack_def PQ_HEALING_ACK_BYTES_def chain_ok refresh_live clearDuplicateCache_def)
  then show ?thesis using dup f by (simp add: control_start_iff [OF ok])
qed

definition exchange ::
    "aead \<Rightarrow> 'r libcrypto \<Rightarrow> mlkem \<Rightarrow> bytes \<Rightarrow> bytes \<Rightarrow> bytes \<Rightarrow> bytes \<Rightarrow> bytes \<Rightarrow> int \<Rightarrow> pq_runtime \<Rightarrow> pq_runtime \<Rightarrow> pq_runtime \<Rightarrow> pq_runtime \<Rightarrow> bool" where
  "exchange A module kem c1 c2 n1 n2 n3 now ra rb ra' rb' \<longleftrightarrow>
     (\<exists>ra1 offerFrame ra2 root x rb1 advanceFrame rb2 a kp ra3 ackFrame.
        prepareHealingOffer_start now ra = (Inr (), ra1) \<and>
        prepareHealingOffer_resume A module (kem_keypair kem c1) n1 now ra1 = (Inr offerFrame, ra2) \<and>
        acceptControlFrame_start A module offerFrame now rb = (Inr (AwaitsEncaps root x), rb1) \<and>
        answerOffer_resume A module root x (kem_encaps kem (publicKey x) c2) n2 offerFrame now rb1 = (Inr (Some advanceFrame, True), rb2) \<and>
        acceptControlFrame_start A module advanceFrame now ra2 = (Inr (AwaitsDecaps (a, x, kp)), ra3) \<and>
        answerAdvance_resume A module (a, x, kp) (kem_decaps kem (ciphertext a) (kp_secretKey kp)) n3 advanceFrame now ra3 =
          (Inr (Some ackFrame, True), ra') \<and>
        acceptControlFrame_start A module ackFrame now rb2 = (Inr (Answered None True), rb'))"

lemma exchange_runs:
  assumes A: "aead_ok A" "aead_total A" and kdf: "kdf_total module" and kem: "kem_ok kem"
    and ra: "rt_ok ra" "edge_of mode suiteName binding i ra" and rb: "rt_ok rb" "edge_of mode suiteName binding (\<not> i) rb" "cache_old rb"
    and pr: "paired ra rb" and m: "mPhase (rt_machine rb) = Idle" "mNextOfferer (rt_machine rb) = Remote" "room (rt_machine ra)"
    and due: "healingDue now ra = Inr True" and n: "length n1 = 12" "length n2 = 12" "length n3 = 12"
    and kp: "kem_keypair kem c1 = Some kp" "length (kp_publicKey kp) = publicKeyBytes (rt_suite ra)" "length (kp_secretKey kp) = secretKeyBytes (rt_suite ra)"
    and ct: "kem_encaps kem (kp_publicKey kp) c2 = Some (ct, ss)" "length ct = ciphertextBytes (rt_suite ra)" "length ss = sharedSecretBytes (rt_suite ra)"
  shows "\<exists>ra' rb' root. exchange A module kem c1 c2 n1 n2 n3 now ra rb ra' rb' \<and> rt_ok ra' \<and> rt_ok rb' \<and>
     mRootKey (rt_machine ra') = root \<and> mRootKey (rt_machine rb') = root \<and>
     mEpoch (rt_machine ra') = mEpoch (rt_machine ra) + 1 \<and> mEpoch (rt_machine rb') = mEpoch (rt_machine ra) + 1 \<and>
     mPhase (rt_machine ra') = Idle \<and> mPhase (rt_machine rb') = Idle \<and>
     mNextOfferer (rt_machine ra') = Remote \<and> mNextOfferer (rt_machine rb') = Local \<and>
     rt_binding ra' = binding \<and> rt_binding rb' = binding \<and> rt_rootSuite ra' = suiteName \<and> rt_rootSuite rb' = suiteName \<and>
     rt_messagesSinceHealing ra' = 0 \<and> rt_messagesSinceHealing rb' = 0"
proof -
  let ?ma = "rt_machine ra" and ?mb = "rt_machine rb"
  note kA = okD [OF ra(1)] and kB = okD [OF rb(1)]
  have kdf': "kdf_ok module" using kdf by (simp add: kdf_total_def)
  have now: "clock_ok now" by (rule due_clock [OF due])
  have eq: "rt_suite rb = rt_suite ra" "rt_binding rb = rt_binding ra" "mRootKey ?mb = mRootKey ?ma" "mEpoch ?mb = mEpoch ?ma"
      "mLocalCounter ?mb = mRemoteCounter ?ma" "mRemoteCounter ?mb = mLocalCounter ?ma"
      "rt_inboundDirection rb = rt_outboundDirection ra" "rt_outboundDirection rb = rt_inboundDirection ra"
    using pr by (simp_all add: paired_def)
  have roomB: "room ?mb" using m(3) eq by (simp add: room_def)
  obtain ra1 f1 ra2 where s1: "prepareHealingOffer_start now ra = (Inr (), ra1)"
      "prepareHealingOffer_resume A module (Some kp) n1 now ra1 = (Inr f1, ra2)"
    using offer_made [OF A n(1) kdf ra due m(3) kp(2,3)] by blast
  obtain x kp' where a2: "Some kp = Some kp'" "rt_ok ra2"
      and ra2': "ra2 = ra\<lparr>rt_machine := ?ma\<lparr>mPhase := OutboundOffer True x kp'\<rparr>,
         rt_outbox := Some \<lparr>ob_kind = OfferKind, ob_frame = f1, ob_attempts = 0, ob_nextRetryAt = now\<rparr>,
         rt_lastInboundOfferFrame := None, rt_lastInboundAdvanceFrame := None, rt_cachedAckFrame := None\<rparr>"
      and f1: "control_sealed A (outbound_context module ra) (offer_bytes x) n1 f1" and pk': "kp_publicKey kp' = publicKey x"
    by (rule offer_step [OF A(1) n(1) kdf' ra(1) s1]) (use that in blast)
  have pk: "kp_publicKey kp = publicKey x" and ra2: "ra2 = ra\<lparr>rt_machine := ?ma\<lparr>mPhase := OutboundOffer True x kp\<rparr>,
         rt_outbox := Some \<lparr>ob_kind = OfferKind, ob_frame = f1, ob_attempts = 0, ob_nextRetryAt = now\<rparr>,
         rt_lastInboundOfferFrame := None, rt_lastInboundAdvanceFrame := None, rt_cachedAckFrame := None\<rparr>"
    using pk' ra2' a2(1) by simp_all
  note a2 = a2(2)
  have x: "offer_ok (rt_suite ra) (rt_binding ra) x" "senderCounter x = mLocalCounter ?ma" "fromEpoch x = mEpoch ?ma"
    using okD(2,4,5) [OF a2] by (simp_all add: ra2 pq_inv_def phase_ok_def validate_iff)
  have x': "offer_ok (rt_suite rb) (rt_binding rb) x" "senderCounter x = mRemoteCounter ?mb" "fromEpoch x = mEpoch ?mb" using x eq by simp_all
  have o1: "openPqControlFrame A (inbound_context module rb) f1 = Inr (offer_bytes x)"
    using frame_open_sealed [OF A(1) f1 n(1)] by (simp only: same_contexts(1) [OF pr])
  note t1 = offer_taken [OF rb(1,3) m(1,2) roomB sealed_length [OF A(1) n(1) f1] now o1 x']
  let ?rb1 = "rb\<lparr>rt_machine := ?mb\<lparr>mPhase := InboundOffer x, mBusy := True\<rparr>\<rparr>"
  obtain d rb2 where s2: "answerOffer_resume A module (mRootKey ?mb) x (Some (ct, ss)) n2 f1 now ?rb1 = (Inr d, rb2)"
    using offer_answer_made [OF A n(2) kdf rb(1,2) t1, of ct ss] ct(2,3) eq by auto
  obtain rec where r1: "accept_record (mRootKey ?mb) rec now rb = (Inr (AwaitsEncaps (mRootKey ?mb) x), ?rb1)"
    by (rule start_facts [OF rb(1) t1]) (use that in auto)
  obtain a ss' f2 nextRoot where aa: "Some (ct, ss) = Some (ciphertext a, ss')" "d = (Some f2, True)" "rt_ok rb2"
      "advance_root module ?mb a ss' nextRoot" "advance_ok (rt_suite rb) (rt_binding rb) a" "advance_offer a = x" "senderCounter a = mLocalCounter ?mb"
      and f2: "control_sealed A (outbound_context module rb) (advance_bytes a) n2 f2"
      and rb2: "rb2 = rb\<lparr>rt_machine := ?mb\<lparr>mRootKey := nextRoot, mEpoch := toEpoch a, mLocalCounter := mLocalCounter ?mb + 1,
           mRemoteCounter := mRemoteCounter ?mb + 1, mNextOfferer := Local, mLastInboundOffer := Some x,
           mPhase := OutboundAdvanceAwaitingAck x a\<rparr>, rt_messageRoot := nextRoot,
         rt_outbox := Some \<lparr>ob_kind = AdvanceKind, ob_frame = f2, ob_attempts = 0, ob_nextRetryAt = now\<rparr>,
         rt_lastInboundOfferFrame := Some f1, rt_lastInboundAdvanceFrame := None, rt_cachedAckFrame := None\<rparr>"
    by (rule offer_answered [OF A(1) n(2) kdf' rb(1) sealed_length [OF A(1) n(1) f1] now r1 s2]) (use that in blast)
  have fe: "fromEpoch a = mEpoch ?ma" "toEpoch a = mEpoch ?ma + 1" using advance_okD(2,4) [OF aa(5)] aa(6) x(3) by simp_all
  have a': "advance_ok (rt_suite ra2) (rt_binding ra2) a" "senderCounter a = mRemoteCounter (rt_machine ra2)" "fromEpoch a = mEpoch (rt_machine ra2)"
    using aa(5,7) eq fe by (simp_all add: ra2)
  have o2: "openPqControlFrame A (inbound_context module ra2) f2 = Inr (advance_bytes a)"
    using frame_open_sealed [OF A(1) f2 n(2)] eq by (simp add: ra2 frame_context_def)
  have t2: "acceptControlFrame_start A module f2 now ra2 = (Inr (AwaitsDecaps (a, x, kp)), ra2\<lparr>rt_machine := (rt_machine ra2)\<lparr>mBusy := True\<rparr>\<rparr>)"
    by (rule advance_taken [OF a2 _ _ _ sealed_length [OF A(1) n(2) f2] now o2 a'(1) aa(6) a'(2,3)]) (simp_all add: ra2)
  have e2: "edge_of mode suiteName binding i ra2" using ra(2) by (simp add: ra2 edge_of_def)
  obtain d2 ra4 where s3: "answerAdvance_resume A module (a, x, kp) (Some ss) n3 f2 now (ra2\<lparr>rt_machine := (rt_machine ra2)\<lparr>mBusy := True\<rparr>\<rparr>) = (Inr d2, ra4)"
    using advance_answer_made [OF A n(3) kdf a2 e2 t2, of ss] ct(3) by (auto simp: ra2)
  obtain rec2 where r2: "accept_record (mRootKey (rt_machine ra2)) rec2 now ra2 = (Inr (AwaitsDecaps (a, x, kp)), ra2\<lparr>rt_machine := (rt_machine ra2)\<lparr>mBusy := True\<rparr>\<rparr>)"
    by (rule start_facts [OF a2 t2]) (use that in auto)
  obtain ss2 f3 root2 where bb: "Some ss = Some ss2" "d2 = (Some f3, True)" "rt_ok ra4" "advance_root module (rt_machine ra2) a ss2 root2"
      and f3: "control_sealed A (frame_context module ra2 root2 (rt_outboundDirection ra2) (toEpoch a))
         (ack_layout (rt_suite ra2) (rt_binding ra2) \<lparr>ack_epoch = toEpoch a, ack_advanceCounter = senderCounter a\<rparr>) n3 f3"
      and ra4: "ra4 = ra2\<lparr>rt_machine := (rt_machine ra2)\<lparr>mRootKey := root2, mEpoch := toEpoch a, mLocalCounter := mLocalCounter (rt_machine ra2) + 1,
           mRemoteCounter := mRemoteCounter (rt_machine ra2) + 1, mNextOfferer := Remote, mLastInboundAdvance := Some a, mPhase := Idle\<rparr>,
         rt_messageRoot := root2, rt_outbox := None, rt_lastInboundAdvanceFrame := Some f2, rt_cachedAckFrame := Some f3,
         rt_lastInboundOfferFrame := None, rt_messagesSinceHealing := 0, rt_lastHealedAt := now\<rparr>"
    by (rule advance_answered [OF A(1) n(3) kdf' a2 sealed_length [OF A(1) n(2) f2] now r2 s3]) (use that in blast)
  have roots: "root2 = nextRoot" using aa(1,4) bb(1,4) eq(3) by (simp add: advance_root_def ra2)
  have o3: "openPqControlFrame A (inbound_context module rb2) f3 =
      Inr (ack_layout (rt_suite rb2) (rt_binding rb2) \<lparr>ack_epoch = mEpoch (rt_machine rb2), ack_advanceCounter = senderCounter a\<rparr>)"
    using frame_open_sealed [OF A(1) f3 n(3)] eq by (simp add: ra2 rb2 frame_context_def roots)
  have old: "getU64 g 49 < mEpoch (rt_machine rb2)" if "rt_lastInboundOfferFrame rb2 = Some g" for g
    using that opened_epoch [OF o1] eq(4) fe(2) by (simp add: rb2 frame_context_def)
  obtain rb3 where t3: "acceptControlFrame_start A module f3 now rb2 = (Inr (Answered None True), rb3)"
    using ack_taken [OF aa(3) _ _ old sealed_length [OF A(1) n(3) f3] now o3] by (auto simp: rb2)
  obtain rec3 where r3: "accept_record (mRootKey (rt_machine rb2)) rec3 now rb2 = (Inr (Answered None True), rb3)"
    by (rule start_facts [OF aa(3) t3]) (use that in auto)
  have fin: "rt_ok rb3 \<and> rb3 = rb2\<lparr>rt_machine := (rt_machine rb2)\<lparr>mPhase := Idle\<rparr>, rt_outbox := None, rt_lastInboundOfferFrame := None,
       rt_lastInboundAdvanceFrame := None, rt_cachedAckFrame := None, rt_messagesSinceHealing := 0, rt_lastHealedAt := now\<rparr>"
    by (rule ack_received [OF kdf' aa(3) now r3]) blast
  have dec: "kem_decaps kem (ciphertext a) (kp_secretKey kp) = Some ss"
    using kem kp(1) ct(1) aa(1) unfolding kem_ok_def by blast
  have enc: "kem_encaps kem (publicKey x) c2 = Some (ct, ss)" using ct(1) pk by simp
  have "exchange A module kem c1 c2 n1 n2 n3 now ra rb ra4 rb3"
    unfolding exchange_def
    by (rule exI [of _ ra1], rule exI [of _ f1], rule exI [of _ ra2], rule exI [of _ "mRootKey ?mb"], rule exI [of _ x], rule exI [of _ ?rb1],
        rule exI [of _ f2], rule exI [of _ rb2], rule exI [of _ a], rule exI [of _ kp],
        rule exI [of _ "ra2\<lparr>rt_machine := (rt_machine ra2)\<lparr>mBusy := True\<rparr>\<rparr>"], rule exI [of _ f3])
      (use s1 t1 s2 t2 s3 t3 aa(2) bb(2) kp(1) dec enc in simp)
  moreover have "rt_binding ra = binding" "rt_binding rb = binding" "rt_rootSuite ra = suiteName" "rt_rootSuite rb = suiteName"
    using ra(2) rb(2) by (simp_all add: edge_of_def)
  moreover have "mRootKey (rt_machine ra4) = nextRoot" "mEpoch (rt_machine ra4) = mEpoch ?ma + 1" "mPhase (rt_machine ra4) = Idle"
      "mNextOfferer (rt_machine ra4) = Remote" "rt_binding ra4 = rt_binding ra" "rt_rootSuite ra4 = rt_rootSuite ra" "rt_messagesSinceHealing ra4 = 0"
    by (simp_all add: ra4 ra2 roots fe)
  moreover have "mRootKey (rt_machine rb3) = nextRoot" "mEpoch (rt_machine rb3) = mEpoch ?ma + 1" "mPhase (rt_machine rb3) = Idle"
      "mNextOfferer (rt_machine rb3) = Local" "rt_binding rb3 = rt_binding rb" "rt_rootSuite rb3 = rt_rootSuite rb" "rt_messagesSinceHealing rb3 = 0"
    using fin by (simp_all add: rb2 fe)
  moreover have "rt_ok rb3" using fin by blast
  ultimately show ?thesis using bb(3) by - (rule exI [of _ ra4], rule exI [of _ rb3], rule exI [of _ nextRoot], simp only: simp_thms)
qed

section \<open>A concrete edge\<close>

lemma plain_aead_total: "aead_total plain_aead"
  by (simp add: aead_total_def plain_aead_def)

definition demo_runtime :: "bool \<Rightarrow> pq_runtime" where
  "demo_runtime i =
     \<lparr>rt_pqMode = ''hybrid-mlkem512'', rt_rootSuite = RATCHET_ROOT_SUITE_MLKEM512, rt_suite = ML_KEM_512_SUITE, rt_binding = zeros 32,
      rt_outboundDirection = (if i then ''initiator-to-responder'' else ''responder-to-initiator''),
      rt_inboundDirection = (if i then ''responder-to-initiator'' else ''initiator-to-responder''),
      rt_machine = fst (party const_edge i), rt_messageRoot = zeros 32, rt_outbox = None, rt_lastInboundOfferFrame = None,
      rt_lastInboundAdvanceFrame = None, rt_cachedAckFrame = None, rt_activeReceiveKeys = [],
      rt_messagesSinceHealing = 0, rt_lastHealedAt = 0, rt_destroyed = False\<rparr>"

lemma demo_runtime_created:
  "newSparsePqHealingState ''hybrid-mlkem512'' RATCHET_ROOT_SUITE_MLKEM512 (zeros 32) (zeros 32) (if i then Local else Remote) i 0 = Inr (demo_runtime i)"
proof -
  have "newPqHealingMachine ML_KEM_512_SUITE ML_KEM_512_SUITE (zeros 32) (zeros 32) t None None None =
      newPqHealingMachine ML_KEM_512_SUITE ML_KEM_512_SUITE (zeros 32) (zeros 32) t (Some 0) (Some 0) (Some 0)" for t
    by (simp add: newPqHealingMachine_def)
  then show ?thesis
    by (simp add: newSparsePqHealingState_def roomPqModeToParameterSet_def roomPqModeToRootSuite_def getMlKemSuite_def const_new
        copyRootKey_def assertActive_def demo_runtime_def const_edge_def clock_ok_def MAX_SAFE_INTEGER_def)
qed

lemma demo_reached: "rt_reach plain_aead const_kdf ''hybrid-mlkem512'' RATCHET_ROOT_SUITE_MLKEM512 (zeros 32) i (demo_runtime i)"
  by (rule rt_reach.created [OF demo_runtime_created])

lemma demo_level:
  "paired (demo_runtime True) (demo_runtime False)" "\<not> rt_trafficBlocked (demo_runtime False)"
  "mNextOfferer (rt_machine (demo_runtime False)) = Remote" "room (rt_machine (demo_runtime True))"
  "healingDue 86400000 (demo_runtime True) = Inr True"
  by (simp_all add: paired_def demo_runtime_def const_edge_def rt_trafficBlocked_def trafficBlocked_def room_def u64_ok_def MAX_U64_def
      healingDue_def clock_ok_def MAX_SAFE_INTEGER_def machine_nextOfferer_def assertActive_def PQ_HEAL_AFTER_MS_def)

lemma demo_keys:
  "kem_keypair const_kem [] = Some \<lparr>kp_publicKey = zeros 800, kp_secretKey = zeros 1632\<rparr>"
  "kem_encaps const_kem (zeros 800) [] = Some (zeros 768, replicate 32 7)" "rt_suite (demo_runtime True) = ML_KEM_512_SUITE"
  by (simp_all add: const_kem_def demo_runtime_def)

section \<open>Properties\<close>




text \<open>C13: two runtimes of one edge at rest in one epoch with one root, the offerer's healing due, exchange
  OFFER, ADVANCE and acknowledgement in sealed frames; every call succeeds, and both ends come to rest in
  the next epoch with one message context, the right to offer next on the other side.\<close>

theorem healing_exchange_agrees:
  assumes "aead_ok A" "aead_total A" "kdf_total module" "kem_ok kem"
    and "rt_reach A module mode suiteName binding i ra" "rt_reach A module mode suiteName binding (\<not> i) rb"
    and "paired ra rb" "\<not> rt_trafficBlocked rb" "mNextOfferer (rt_machine rb) = Remote" "room (rt_machine ra)"
    and "healingDue now ra = Inr True" "length n1 = 12" "length n2 = 12" "length n3 = 12"
    and "kem_keypair kem c1 = Some kp" "length (kp_publicKey kp) = publicKeyBytes (rt_suite ra)" "length (kp_secretKey kp) = secretKeyBytes (rt_suite ra)"
    and "kem_encaps kem (kp_publicKey kp) c2 = Some (ct, ss)" "length ct = ciphertextBytes (rt_suite ra)" "length ss = sharedSecretBytes (rt_suite ra)"
  shows "\<exists>ra' rb' ctx. exchange A module kem c1 c2 n1 n2 n3 now ra rb ra' rb' \<and>
     currentMessageContext ra' = Inr ctx \<and> currentMessageContext rb' = Inr ctx \<and> pm_epoch ctx = mEpoch (rt_machine ra) + 1 \<and>
     \<not> rt_trafficBlocked ra' \<and> \<not> rt_trafficBlocked rb' \<and>
     mNextOfferer (rt_machine ra') = Remote \<and> mNextOfferer (rt_machine rb') = Local"
proof -
  have kdf: "kdf_ok module" using assms(3) by (simp add: kdf_total_def)
  have o: "rt_ok ra" "edge_of mode suiteName binding i ra" "rt_ok rb" "edge_of mode suiteName binding (\<not> i) rb" "cache_old rb"
    using reached_ok [OF assms(1) kdf] reached_cache_old [OF assms(1) kdf] assms(5,6) by blast+
  have idle: "mPhase (rt_machine rb) = Idle" using assms(8) by (simp add: rt_trafficBlocked_def trafficBlocked_def)
  obtain ra' rb' root where r: "exchange A module kem c1 c2 n1 n2 n3 now ra rb ra' rb'" "rt_ok ra'" "rt_ok rb'"
      "mRootKey (rt_machine ra') = root" "mRootKey (rt_machine rb') = root"
      "mEpoch (rt_machine ra') = mEpoch (rt_machine ra) + 1" "mEpoch (rt_machine rb') = mEpoch (rt_machine ra) + 1"
      "mPhase (rt_machine ra') = Idle" "mPhase (rt_machine rb') = Idle" "mNextOfferer (rt_machine ra') = Remote" "mNextOfferer (rt_machine rb') = Local"
      "rt_binding ra' = binding" "rt_binding rb' = binding" "rt_rootSuite ra' = suiteName" "rt_rootSuite rb' = suiteName"
    using exchange_runs [OF assms(1-4) o assms(7) idle assms(9-20)] by blast
  have ctx: "currentMessageContext rt = Inr \<lparr>pm_rootKey = mRootKey (rt_machine rt), pm_binding = rt_binding rt, pm_rootSuite = rt_rootSuite rt,
       pm_epoch = mEpoch (rt_machine rt)\<rparr>" if "rt_ok rt" for rt
    using okD(1,3,6) [OF that] by (simp add: currentMessageContext_def)
  have free: "\<not> rt_trafficBlocked rt" if "rt_ok rt" "mPhase (rt_machine rt) = Idle" for rt
    using okD(1,3) [OF that(1)] that(2) by (simp add: rt_trafficBlocked_def trafficBlocked_def live_def)
  show ?thesis
    by (rule exI [of _ ra'], rule exI [of _ rb'], rule exI [of _ "\<lparr>pm_rootKey = root, pm_binding = binding, pm_rootSuite = suiteName,
       pm_epoch = mEpoch (rt_machine ra) + 1\<rparr>"])
      (simp add: r ctx free)
qed

lemma demo_sizes:
  "length (kp_publicKey \<lparr>kp_publicKey = zeros 800, kp_secretKey = zeros 1632\<rparr>) = publicKeyBytes (rt_suite (demo_runtime True))"
  "length (kp_secretKey \<lparr>kp_publicKey = zeros 800, kp_secretKey = zeros 1632\<rparr>) = secretKeyBytes (rt_suite (demo_runtime True))"
  "kem_encaps const_kem (kp_publicKey \<lparr>kp_publicKey = zeros 800, kp_secretKey = zeros 1632\<rparr>) [] = Some (zeros 768, replicate 32 7)"
  "length (zeros 768) = ciphertextBytes (rt_suite (demo_runtime True))" "length (replicate 32 (7 :: byte)) = sharedSecretBytes (rt_suite (demo_runtime True))"
  by (simp_all add: demo_keys ML_KEM_512_SUITE_def)

theorem healing_exchange_agrees_witness:
  "\<exists>ra' rb' ctx. exchange plain_aead const_kdf const_kem [] [] (zeros 12) (zeros 12) (zeros 12) 86400000 (demo_runtime True) (demo_runtime False) ra' rb' \<and>
     currentMessageContext ra' = Inr ctx \<and> currentMessageContext rb' = Inr ctx \<and> pm_epoch ctx = 1"
proof -
  have z: "length (zeros 12) = 12" by simp
  have rb: "rt_reach plain_aead const_kdf ''hybrid-mlkem512'' RATCHET_ROOT_SUITE_MLKEM512 (zeros 32) (\<not> True) (demo_runtime False)"
    using demo_reached [of False] by simp
  have "mEpoch (rt_machine (demo_runtime True)) = 0" by (simp add: demo_runtime_def const_edge_def)
  then show ?thesis
    using healing_exchange_agrees [OF plain_aead_ok plain_aead_total const_kdf_total const_ok(2) demo_reached rb demo_level z z z demo_keys(1) demo_sizes]
    by fastforce
qed


end
