(* ===== verification/Chunk_Crypto.thy ===== *)
theory Chunk_Crypto
  imports Message_Key Merkle_Props Ratchet_Props
begin

text \<open>
  Sealing and receiving message chunks: \<^verbatim>\<open>src/src/handlers/messageChunkCrypto.ts\<close> with the compiled receive path
  \<^verbatim>\<open>receive_message_with_key\<close> of \<^verbatim>\<open>cryptography/pake_ratchet.c\<close>. One ratchet step gives the key of a whole message; every chunk is
  sealed under it, combined with the epoch root, over the Merkle root and the clear header. The receiver
  steps a clone of its ratchet and adopts it once a chunk authenticates. The cipher and SHA-512 are
  parameters; the buffers of a message key and of an epoch root are different ones.
\<close>

section \<open>Keys and sealing\<close>

record 'r chunk_env =
  ce_module :: "'r libcrypto"
  ce_aead :: aead
  ce_sha :: sha512

datatype chunk_crypto_error =
    MerkleRootLength
  | PqEpochOutOfRange
  | IncompleteHeader
  | BadFrameHeader chunk_error
  | CombineFailed message_key_error
  | AeadEncryptFailed
  | AdoptFailed ratchet_error

definition AAD_LEN :: nat where [const_defs]: "AAD_LEN = crypto_hash_sha512_BYTES + CHUNK_AAD_HEADER_LEN"

definition messageCacheKey :: "bytes \<Rightarrow> int \<Rightarrow> int option \<Rightarrow> chunk_crypto_error + string" where
  "messageCacheKey pub n pqEpoch =
     (let prefix = toHex pub @ [CHR '':''] @ nat_to_dec (nat n)
      in case pqEpoch of
           None \<Rightarrow> Inr prefix
         | Some e \<Rightarrow> if e < 0 \<or> e > MAX_U64 then Inl PqEpochOutOfRange else Inr (prefix @ [CHR '':''] @ nat_to_dec (nat e)))"

definition buildAad :: "bytes \<Rightarrow> bytes \<Rightarrow> chunk_crypto_error + bytes" where
  "buildAad merkleRoot frameHeader =
     (if length frameHeader < CHUNK_AAD_HEADER_LEN then Inl IncompleteHeader
      else let aad = zeros AAD_LEN;
               aad = set_at aad 0 merkleRoot
           in Inr (set_at aad crypto_hash_sha512_BYTES (sub frameHeader 0 CHUNK_AAD_HEADER_LEN)))"

definition chunkSeal :: "aead \<Rightarrow> bytes \<Rightarrow> bytes \<Rightarrow> bytes \<Rightarrow> bytes \<Rightarrow> chunk_crypto_error + bytes" where
  "chunkSeal A key nonce data aad =
     (case aead_encrypt A key nonce data aad of None \<Rightarrow> Inl AeadEncryptFailed | Some out \<Rightarrow> Inr out)"

text \<open>The combiner on a copy of the message key, a buffer of its own.\<close>

definition message_key_view :: view where "message_key_view = \<lparr>v_buffer = 0, v_byteOffset = 0, v_byteLength = 32\<rparr>"
definition epoch_root_view :: view where "epoch_root_view = \<lparr>v_buffer = 1, v_byteOffset = 0, v_byteLength = 32\<rparr>"

definition combined_key :: "'r chunk_env \<Rightarrow> bytes \<Rightarrow> pq_message_context \<Rightarrow> ratchet_header \<Rightarrow> chunk_crypto_error + bytes" where
  "combined_key env messageKey context header =
     (case fst (combinePqMessageKey messageKey message_key_view context epoch_root_view header (ce_module env)) of
        Inl e \<Rightarrow> Inl (CombineFailed e) | Inr k \<Rightarrow> Inr k)"

definition sealChunk ::
    "'r chunk_env \<Rightarrow> bytes \<Rightarrow> ratchet_header \<Rightarrow> bytes \<Rightarrow> bytes \<Rightarrow> pq_message_context option \<Rightarrow> bytes \<Rightarrow> chunk_crypto_error + bytes" where
  "sealChunk env messageKey header data merkleRoot pqContext nonce =
     rbind (ensure (length merkleRoot = crypto_hash_sha512_BYTES) MerkleRootLength) (\<lambda>_.
     rbind (case packChunkFrameHeader header nonce (case pqContext of None \<Rightarrow> 0 | Some c \<Rightarrow> pm_epoch c) of
              Inl e \<Rightarrow> Inl (BadFrameHeader e) | Inr h \<Rightarrow> Inr h) (\<lambda>frameHeader.
     rbind (buildAad merkleRoot frameHeader) (\<lambda>aad.
     rbind (case pqContext of None \<Rightarrow> Inr messageKey | Some c \<Rightarrow> combined_key env messageKey c header) (\<lambda>aeadKey.
     rbind (chunkSeal (ce_aead env) aeadKey nonce data aad) (\<lambda>ct.
     let frame = zeros (length frameHeader + length ct);
         frame = set_at frame 0 frameHeader
     in Inr (set_at frame (length frameHeader) ct))))))"

section \<open>The compiled receive path\<close>

text \<open>After the chunk authenticated: its Merkle proof, and the leaf written over the proof.\<close>

definition check_plaintext :: "sha512 \<Rightarrow> bytes \<Rightarrow> bytes \<Rightarrow> int + bytes" where
  "check_plaintext sha merkle_root decrypted =
     (let proofLen = getU32 decrypted METADATA_LEN
      in if proofLen mod (crypto_hash_sha512_BYTES + 1) \<noteq> 0 \<or> proofLen > PROOF_LEN then Inl (-3)
         else case sha (MERKLE_LEAF_DOMAIN # sub decrypted (METADATA_LEN + PROOF_LEN) DECRYPTED_LEN) of
                None \<Rightarrow> Inl (-5)
              | Some leaf \<Rightarrow>
                  if c_verify_merkle_proof sha (proofLen div (crypto_hash_sha512_BYTES + 1)) leaf merkle_root
                       (drop (METADATA_LEN + 4) decrypted) \<noteq> 0
                  then Inl (-6)
                  else Inr (set_at decrypted METADATA_LEN leaf))"

definition receive_message_with_key :: "aead \<Rightarrow> sha512 \<Rightarrow> bytes \<Rightarrow> bytes \<Rightarrow> bytes \<Rightarrow> int + bytes" where
  "receive_message_with_key A sha message merkle_root mkey =
     (let aad = merkle_root @ sub message 0 CHUNK_AAD_HEADER_LEN;
          nonce = sub message CHUNK_AAD_HEADER_LEN (CHUNK_AAD_HEADER_LEN + RATCHET_NONCE_LEN);
          sealed = sub message MESSAGE_START (MESSAGE_START + (DECRYPTED_LEN + crypto_aead_chacha20poly1305_ietf_ABYTES))
      in case aead_decrypt A mkey nonce sealed aad of
           None \<Rightarrow> Inl (-2)
         | Some decrypted \<Rightarrow> check_plaintext sha merkle_root decrypted)"

definition receiveWithKey :: "'r chunk_env \<Rightarrow> bytes \<Rightarrow> bytes \<Rightarrow> bytes \<Rightarrow> int \<times> bytes option" where
  "receiveWithKey env frame merkleRoot key =
     (let msg = set_at (zeros MESSAGE_LEN) 0 (sub frame 0 MESSAGE_LEN)
      in case receive_message_with_key (ce_aead env) (ce_sha env) msg merkleRoot key of
           Inl code \<Rightarrow> (code, None)
         | Inr decrypted \<Rightarrow> (0, Some decrypted))"

section \<open>Receiving a chunk\<close>

record decrypted_chunk =
  dc_decrypted :: "bytes option"
  dc_ok :: bool
  dc_stateAdvanced :: bool

definition chunk_dropped :: decrypted_chunk where
  "chunk_dropped = \<lparr>dc_decrypted = None, dc_ok = False, dc_stateAdvanced = False\<rparr>"

text \<open>The resolver of the caller: \<open>Inl ()\<close> is a throw, \<open>Inr None\<close> a rejected epoch.\<close>

type_synonym resolver = "int \<Rightarrow> unit + pq_message_context option"

definition resolvedContextMatches :: "pq_message_context \<Rightarrow> int \<Rightarrow> string \<Rightarrow> bool" where
  "resolvedContextMatches context epoch suite \<longleftrightarrow>
     pm_epoch context = epoch \<and> pm_rootSuite context = suite \<and>
     length (pm_rootKey context) = PQ_MESSAGE_KEY_ROOT_BYTES \<and> length (pm_binding context) = PQ_MESSAGE_KEY_BINDING_BYTES"

text \<open>The context a frame is read under: \<open>None\<close> drops the frame.\<close>

definition frame_context_of :: "resolver option \<Rightarrow> int \<Rightarrow> string \<Rightarrow> pq_message_context option option" where
  "frame_context_of resolver pqEpoch suite =
     (case resolver of
        None \<Rightarrow> if pqEpoch \<noteq> 0 then None else Some None
      | Some resolve \<Rightarrow>
          (case resolve pqEpoch of
             Inl _ \<Rightarrow> None
           | Inr None \<Rightarrow> None
           | Inr (Some context) \<Rightarrow> if resolvedContextMatches context pqEpoch suite then Some (Some context) else None))"

definition deriveOnClone ::
    "'r chunk_env \<Rightarrow> ratchet_state \<Rightarrow> ratchet_header \<Rightarrow> 'r \<Rightarrow> (ratchet_error + bytes) \<times> ratchet_state \<times> 'r" where
  "deriveOnClone env cloned header rng =
     (case ratchetDecrypt cloned header (ce_module env) rng of
        (Inl e, cloned', rng') \<Rightarrow> (Inl e, wipeRatchet cloned', rng')
      | (Inr key, cloned', rng') \<Rightarrow> (Inr key, cloned', rng'))"

text \<open>A miss: the key from a clone, and the clone adopted once the chunk authenticated.\<close>

definition decrypt_miss ::
    "'r chunk_env \<Rightarrow> ratchet_state \<Rightarrow> bytes \<Rightarrow> ratchet_header \<Rightarrow> string \<Rightarrow> (string \<rightharpoonup> bytes) \<Rightarrow> bytes \<Rightarrow> pq_message_context option \<Rightarrow> 'r \<Rightarrow>
     (chunk_crypto_error + decrypted_chunk) \<times> ratchet_state \<times> (string \<rightharpoonup> bytes) \<times> 'r" where
  "decrypt_miss env state frame header cacheK cache merkleRoot pqContext rng =
     (case deriveOnClone env (cloneRatchet state) header rng of
        (Inl e, cloned, rng') \<Rightarrow> (Inr chunk_dropped, state, cache, rng')
      | (Inr classicalKey, cloned, rng') \<Rightarrow>
          (case (case pqContext of None \<Rightarrow> Inr classicalKey | Some c \<Rightarrow> combined_key env classicalKey c header) of
             Inl e \<Rightarrow> (Inr chunk_dropped, state, cache, rng')
           | Inr messageKey \<Rightarrow>
               (let (code, decrypted) = receiveWithKey env frame merkleRoot messageKey
                in if code = -2 then (Inr chunk_dropped, state, cache, rng')
                   else case adoptRatchet state cloned of
                          (Inl e, state') \<Rightarrow> (Inl (AdoptFailed e), state', cache, rng')
                        | (Inr _, state') \<Rightarrow>
                            (Inr \<lparr>dc_decrypted = (if code = 0 then decrypted else None), dc_ok = (code = 0), dc_stateAdvanced = True\<rparr>,
                             state', cache(cacheK \<mapsto> messageKey), rng'))))"

definition decryptMessageChunk ::
    "'r chunk_env \<Rightarrow> ratchet_state \<Rightarrow> bytes \<Rightarrow> (string \<rightharpoonup> bytes) \<Rightarrow> bytes \<Rightarrow> resolver option \<Rightarrow> 'r \<Rightarrow>
     (chunk_crypto_error + decrypted_chunk) \<times> ratchet_state \<times> (string \<rightharpoonup> bytes) \<times> 'r" where
  "decryptMessageChunk env state frame cache merkleRoot resolver rng =
     (if length merkleRoot \<noteq> crypto_hash_sha512_BYTES then (Inl MerkleRootLength, state, cache, rng)
      else case parseChunkFrameHeader frame of
        Inl e \<Rightarrow> (Inl (BadFrameHeader e), state, cache, rng)
      | Inr p \<Rightarrow>
          (case frame_context_of resolver (pf_pqEpoch p) (rootSuite state) of
             None \<Rightarrow> (Inr chunk_dropped, state, cache, rng)
           | Some pqContext \<Rightarrow>
               (case messageCacheKey (dhPub (pf_header p)) (N (pf_header p)) (if resolver = None then None else Some (pf_pqEpoch p)) of
                  Inl e \<Rightarrow> (Inl e, state, cache, rng)
                | Inr cacheK \<Rightarrow>
                    (case cache cacheK of
                       Some cached \<Rightarrow>
                         (let (code, decrypted) = receiveWithKey env frame merkleRoot cached
                          in (Inr \<lparr>dc_decrypted = (if code = 0 then decrypted else None), dc_ok = (code = 0), dc_stateAdvanced = False\<rparr>,
                              state, cache, rng))
                     | None \<Rightarrow> decrypt_miss env state frame (pf_header p) cacheK cache merkleRoot pqContext rng))))"

section \<open>Frames\<close>

lemma chunk_geometry [simp]: "CHUNK_AAD_HEADER_LEN = 57" "AAD_LEN = 121" "DECRYPTED_LEN = 65405" "MESSAGE_LEN = 65536" "MESSAGE_START = 69"
  "RATCHET_NONCE_LEN = 12" "crypto_aead_chacha20poly1305_ietf_ABYTES = 16" "crypto_hash_sha512_BYTES = 64" "METADATA_LEN = 369" "PROOF_LEN = 3124"
  by (simp_all add: const_defs)

definition chunk_aad :: "bytes \<Rightarrow> ratchet_header \<Rightarrow> int \<Rightarrow> bytes" where
  "chunk_aad root h e = root @ [2] @ dhPub h @ be_enc 8 (nat (N h)) @ be_enc 8 (nat (PN h)) @ be_enc 8 (nat e)"

lemma layout_aad: "chunk_header_ok h n e \<Longrightarrow> root @ sub (chunk_layout h n e @ ct) 0 57 = chunk_aad root h e"
  by (simp add: chunk_aad_def chunk_layout_def chunk_header_ok_def sub_def)

lemma chunkSeal_iff: "chunkSeal A k n d a = Inr out \<longleftrightarrow> aead_encrypt A k n d a = Some out"
  by (simp add: chunkSeal_def split: option.splits)

lemma sealChunk_iff:
  "sealChunk env mk h data root ctx n = Inr f \<longleftrightarrow>
   (\<exists>key ct. length root = 64 \<and> chunk_header_ok h n (case ctx of None \<Rightarrow> 0 | Some c \<Rightarrow> pm_epoch c) \<and>
      (case ctx of None \<Rightarrow> Inr mk | Some c \<Rightarrow> combined_key env mk c h) = Inr key \<and>
      aead_encrypt (ce_aead env) key n data (chunk_aad root h (case ctx of None \<Rightarrow> 0 | Some c \<Rightarrow> pm_epoch c)) = Some ct \<and>
      f = chunk_layout h n (case ctx of None \<Rightarrow> 0 | Some c \<Rightarrow> pm_epoch c) @ ct)"
proof -
  let ?e = "case ctx of None \<Rightarrow> 0 | Some c \<Rightarrow> pm_epoch c"
  have aad: "buildAad root (chunk_layout h n ?e) = Inr (chunk_aad root h ?e)" if "chunk_header_ok h n ?e" "length root = 64"
    using layout_aad [OF that(1), of root "[]"] length_chunk_layout [OF that(1)] that(2) by (simp add: buildAad_def wire_simps)
  have fr: "set_at (set_at (zeros (length a + length b)) 0 a) (length a) b = a @ b" for a b :: bytes
    by (simp add: set_at_def)
  show ?thesis
    using aad pack_ok [of h n ?e]
    by (cases ctx) (auto simp: sealChunk_def result_simps Let_def fr chunkSeal_iff split: sum.splits dest!: pack_okD)
qed

lemma receive_layout:
  assumes "chunk_header_ok h n e" "length ct = 65421"
  shows "receiveWithKey env (chunk_layout h n e @ ct) root key =
    (case aead_decrypt (ce_aead env) key n ct (chunk_aad root h e) of
       None \<Rightarrow> (-2, None)
     | Some d \<Rightarrow> (case check_plaintext (ce_sha env) root d of Inl c \<Rightarrow> (c, None) | Inr x \<Rightarrow> (0, Some x)))"
proof -
  note len = length_chunk_layout [OF assms(1)]
  let ?f = "chunk_layout h n e @ ct"
  have "set_at (zeros 65536) 0 (sub ?f 0 65536) = ?f @ zeros 46"
    using len assms(2) by (simp add: set_at_def sub_def)
  moreover have "sub (?f @ zeros 46) 57 69 = n" using chunk_layout_fields(5) [OF assms(1), of "ct @ zeros 46"] by simp
  moreover have "sub (?f @ zeros 46) 0 57 = sub ?f 0 57" "sub (?f @ zeros 46) 69 65490 = ct"
    using len assms(2) by (simp_all add: sub_def)
  ultimately show ?thesis
    using layout_aad [OF assms(1), of root ct]
    by (simp add: receiveWithKey_def receive_message_with_key_def Let_def split: option.splits sum.splits)
qed

lemma check_plaintext_codes: "check_plaintext sha root d = Inl c \<Longrightarrow> c \<noteq> -2 \<and> c \<noteq> 0"
  by (auto simp: check_plaintext_def Let_def split: if_splits option.splits)

text \<open>What a frame must hold for the chunk to authenticate.\<close>

lemma receive_code:
  assumes "receiveWithKey env frame root key = (code, d)"
  shows "code \<noteq> -2 \<longleftrightarrow> aead_decrypt (ce_aead env) key (sub (set_at (zeros 65536) 0 (take 65536 frame)) 57 69)
      (sub (set_at (zeros 65536) 0 (take 65536 frame)) 69 65490) (root @ sub (set_at (zeros 65536) 0 (take 65536 frame)) 0 57) \<noteq> None"
    "code = 0 \<longleftrightarrow> d \<noteq> None"
  using assms check_plaintext_codes
  by (auto simp: receiveWithKey_def receive_message_with_key_def Let_def sub_def split: option.splits sum.splits)

lemma skip_loop_suite: "rootSuite (snd (skip_loop m until ck s)) = rootSuite s"
proof (induction m until ck s rule: skip_loop.induct)
  case (1 m until ck s)
  then show ?case
    by (subst skip_loop.simps) (auto simp: Let_def split: sum.splits option.splits)
qed

lemma skip_keeps_suite: "skipMessageKeys s until m = (r, s') \<Longrightarrow> rootSuite s' = rootSuite s"
  using skip_loop_suite [of m until _ s]
  by (auto simp: skipMessageKeys_def split: if_splits option.splits prod.splits sum.splits) (metis snd_conv)+

lemma dh_keeps_suite: "dhRatchet s h m rng = (r, s', rng') \<Longrightarrow> rootSuite s' = rootSuite s"
  by (auto simp: dhRatchet_def Let_def split: sum.splits prod.splits)

lemma chain_keeps_suite: "decrypt_in_chain s h m = (r, s') \<Longrightarrow> rootSuite s' = rootSuite s"
  by (auto simp: decrypt_in_chain_def split: if_splits prod.splits sum.splits option.splits dest: skip_keeps_suite)

lemma decrypt_keeps_suite: "ratchetDecrypt s h m rng = (r, s', rng') \<Longrightarrow> rootSuite s' = rootSuite s"
  by (auto simp: ratchetDecrypt_def trySkipped_def Let_def split: if_splits prod.splits sum.splits option.splits
      dest!: skip_keeps_suite dh_keeps_suite chain_keeps_suite)

section \<open>A genuine chunk passes\<close>

lemma verify_loop_prefix:
  "length pf = 65 * n \<Longrightarrow> \<forall>i \<in> set is. i < n \<Longrightarrow> verify_loop sha (pf @ rest) is h = verify_loop sha pf is h"
proof (induction "is" arbitrary: h)
  case (Cons i "is")
  have "i < n" using Cons.prems by simp
  then have "65 * i + 65 \<le> length pf" using Cons.prems(1) by simp
  then have "position_at (pf @ rest) i = position_at pf i" "artifact_at (pf @ rest) i = artifact_at pf i"
    by (simp_all add: position_at_def artifact_at_def const_defs nth_append sub_def mult.commute)
  then show ?case using Cons by (auto split: option.splits)
qed simp

text \<open>The padded plaintext of a chunk: metadata, the fixed proof field, the chunk.\<close>

definition chunk_plaintext :: "bytes \<Rightarrow> bytes \<Rightarrow> bytes \<Rightarrow> bytes" where
  "chunk_plaintext md field body = md @ field @ body"

definition received_plaintext :: "sha512 \<Rightarrow> bytes \<Rightarrow> bytes \<Rightarrow> bytes \<Rightarrow> bytes" where
  "received_plaintext sha md field body = md @ leaf_hash sha body @ drop 64 field @ body"

lemma genuine_proof:
  assumes ok: "sha_ok sha" and c: "c \<in> set chunks" and root: "getMerkleRoot sha (leaves_of sha chunks) = Inr root"
  shows "c_verify_merkle_proof sha (length (chunk_proof sha chunks c)) (leaf_hash sha c) root (concat (chunk_proof sha chunks c) @ rest) = 0"
proof -
  let ?as = "chunk_proof sha chunks c"
  note p = chunk_proof_ok [OF ok c]
  have ne: "chunks \<noteq> []" using c by auto
  have r: "root = root_ref sha (leaf_nodes sha chunks)" using getMerkleRoot_ref [OF ok ne] root by simp
  have len: "length (concat ?as) = 65 * length ?as" by (rule length_concat_65 [OF p(1)])
  have st: "map (\<lambda>i. (position_at (concat ?as) i, artifact_at (concat ?as) i)) [0..<length ?as] = map step_of ?as"
    using steps_of_concat [OF p(1)] len by (simp add: steps_of_def const_defs)
  have v: "verify_loop sha (concat ?as @ rest) [0..<length ?as] (leaf_hash sha c) = Inr (climb sha (map step_of ?as) (leaf_hash sha c))"
    using verify_loop_prefix [OF len, of "[0..<length ?as]"] verify_loop_climb [OF ok, of "concat ?as"] st p(2) by simp
  show ?thesis
  proof (cases "length chunks = 1")
    case True
    then obtain d where "chunks = [d]" by (metis One_nat_def length_0_conv length_Suc_conv)
    then have "root = leaf_hash sha c" "length ?as = 1"
      using c r leaf_hash_eq [OF ok] by (simp_all add: root_ref.simps chunk_proof_def)
    then show ?thesis by (simp add: c_verify_merkle_proof_def)
  next
    case False
    then show ?thesis using v p(4) [OF False] r by (simp add: c_verify_merkle_proof_def)
  qed
qed

lemma genuine_plaintext:
  assumes ok: "sha_ok sha" "platform_ok env" and c: "c \<in> set chunks" "length chunks \<le> 2 ^ 48"
    and root: "getMerkleRoot sha (leaves_of sha chunks) = Inr root"
    and field: "getMerkleProof env sha (leaves_of sha chunks) (leaf_hash sha c) (Some PROOF_LEN) = Inr field"
    and len: "length md = 369" "length c = 61912"
  shows "check_plaintext sha root (chunk_plaintext md field c) = Inr (received_plaintext sha md field c) \<and>
    length (chunk_plaintext md field c) = 65405"
proof -
  let ?as = "chunk_proof sha chunks c" and ?r = "getRandomValues env 3124"
  let ?pf = "concat ?as"
  note e = proof_field_exact [OF ok c]
  have pl: "length ?pf = 65 * length ?as" by (rule length_concat_65 [OF chunk_proof_ok(1) [OF ok(1) c(1)]])
  have f: "field = be_enc 4 (length ?pf) @ ?pf @ drop (4 + length ?pf) ?r" using e(3) field by simp
  have fl: "length field = 3124" using ok(2) e(1) pl by (simp add: f platform_ok_def)
  have b: "be_dec (be_enc 4 (length ?pf)) = length ?pf" using pl e(1) by (intro be_dec_enc) simp
  have u: "getU32 (chunk_plaintext md field c) 369 = length ?pf"
    using len(1) b by (simp add: getU32_def chunk_plaintext_def f sub_def)
  have body: "sub (chunk_plaintext md field c) 3493 65405 = c"
    using len fl by (simp add: chunk_plaintext_def sub_def)
  have art: "drop 373 (chunk_plaintext md field c) = ?pf @ drop (4 + length ?pf) ?r @ c"
    using len(1) by (simp add: chunk_plaintext_def f)
  have "set_at (chunk_plaintext md field c) 369 (leaf_hash sha c) = received_plaintext sha md field c"
    using len(1) leaf_hash_eq [OF ok(1), of c] fl by (simp add: chunk_plaintext_def received_plaintext_def set_at_def)
  then show ?thesis
    using u body art pl e(1) fl len genuine_proof [OF ok(1) c(1) root, of "drop (4 + length ?pf) ?r @ c"] sha_leaf [OF ok(1), of c]
    by (simp add: check_plaintext_def Let_def) (simp add: chunk_plaintext_def)
qed

section \<open>Many chunks\<close>

type_synonym 'r chunk_receiver = "ratchet_state \<times> (string \<rightharpoonup> bytes) \<times> 'r"

fun receive_all :: "'r chunk_env \<Rightarrow> bytes \<Rightarrow> resolver option \<Rightarrow> bytes list \<Rightarrow> 'r chunk_receiver \<Rightarrow>
    (chunk_crypto_error + decrypted_chunk) list \<times> 'r chunk_receiver" where
  "receive_all env root R [] s = ([], s)"
| "receive_all env root R (f # fs) (st, cache, rng) =
     (case decryptMessageChunk env st f cache root R rng of
        (r, s) \<Rightarrow> (case receive_all env root R fs s of (rs, s') \<Rightarrow> (r # rs, s')))"

text \<open>A frame that carries a plaintext under a message's header, epoch and combined key.\<close>

definition carries :: "'r chunk_env \<Rightarrow> bytes \<Rightarrow> bytes \<Rightarrow> ratchet_header \<Rightarrow> int \<Rightarrow> bytes \<Rightarrow> bytes \<Rightarrow> bool" where
  "carries env key root h e f d \<longleftrightarrow>
     (\<exists>n ct p. chunk_header_ok h n e \<and> length p = 65405 \<and> aead_encrypt (ce_aead env) key n p (chunk_aad root h e) = Some ct \<and>
        f = chunk_layout h n e @ ct \<and> check_plaintext (ce_sha env) root p = Inr d)"

lemma carries_received:
  assumes "aead_ok (ce_aead env)" "carries env key root h e f d"
  shows "receiveWithKey env f root key = (0, Some d)" "\<exists>n ct. parseChunkFrameHeader f =
    Inr \<lparr>pf_header = h, pf_pqEpoch = e, pf_nonce = n, pf_ciphertext = ct\<rparr>"
proof -
  obtain n ct p where c: "chunk_header_ok h n e" "length p = 65405" "aead_encrypt (ce_aead env) key n p (chunk_aad root h e) = Some ct"
      "f = chunk_layout h n e @ ct" "check_plaintext (ce_sha env) root p = Inr d"
    using assms(2) unfolding carries_def by blast
  have "length ct = 65421" using aead_length [OF assms(1) c(3)] c(2) by simp
  moreover have "aead_decrypt (ce_aead env) key n ct (chunk_aad root h e) = Some p"
    using c(3) by (simp add: aead_inverse [OF assms(1)])
  ultimately show "receiveWithKey env f root key = (0, Some d)"
    using receive_layout [OF c(1), of ct env root key] c(4,5) by simp
  show "\<exists>n ct. parseChunkFrameHeader f = Inr \<lparr>pf_header = h, pf_pqEpoch = e, pf_nonce = n, pf_ciphertext = ct\<rparr>"
    using parse_layout [OF c(1)] c(4) by blast
qed

definition accepted :: "bytes \<Rightarrow> bool \<Rightarrow> chunk_crypto_error + decrypted_chunk" where
  "accepted d first = Inr \<lparr>dc_decrypted = Some d, dc_ok = True, dc_stateAdvanced = first\<rparr>"

lemma receive_hit:
  assumes "aead_ok (ce_aead env)" "carries env key root h e f d" "length root = 64"
    and "frame_context_of (Some R) e (rootSuite st) = Some ctx" "messageCacheKey (dhPub h) (N h) (Some e) = Inr k" "cache k = Some key"
  shows "decryptMessageChunk env st f cache root (Some R) rng = (accepted d False, st, cache, rng)"
proof -
  obtain n ct where p: "parseChunkFrameHeader f = Inr \<lparr>pf_header = h, pf_pqEpoch = e, pf_nonce = n, pf_ciphertext = ct\<rparr>"
    using carries_received(2) [OF assms(1,2)] by blast
  show ?thesis
    using p assms(3-6) carries_received(1) [OF assms(1,2)] by (simp add: decryptMessageChunk_def accepted_def)
qed

lemma receive_all_hits:
  assumes "aead_ok (ce_aead env)" "length root = 64"
    and "frame_context_of (Some R) e (rootSuite st) = Some ctx" "messageCacheKey (dhPub h) (N h) (Some e) = Inr k" "cache k = Some key"
    and "list_all2 (carries env key root h e) fs ds"
  shows "receive_all env root (Some R) fs (st, cache, rng) = (map (\<lambda>d. accepted d False) ds, st, cache, rng)"
  using assms(6)
proof (induction fs ds rule: list_all2_induct)
  case (Cons f fs d ds)
  then show ?case using receive_hit [where cache = cache and k = k, OF assms(1) Cons(1) assms(2-5)] by simp
qed simp

lemma receive_first:
  assumes "aead_ok (ce_aead env)" "carries env key root h e f d" "length root = 64"
    and "frame_context_of (Some R) e (rootSuite st) = Some (Some ctx)" "messageCacheKey (dhPub h) (N h) (Some e) = Inr k" "cache k = None"
    and "wf_skipped (skipped st)" "ratchetDecrypt st h (ce_module env) rng = (Inr mk, st1, rng1)" "combined_key env mk ctx h = Inr key"
  shows "decryptMessageChunk env st f cache root (Some R) rng = (accepted d True, st1, cache(k \<mapsto> key), rng1)"
proof -
  obtain n ct where p: "parseChunkFrameHeader f = Inr \<lparr>pf_header = h, pf_pqEpoch = e, pf_nonce = n, pf_ciphertext = ct\<rparr>"
    using carries_received(2) [OF assms(1,2)] by blast
  have "adoptRatchet st st1 = (Inr (), st1)" using adopt_ok decrypt_keeps_suite [OF assms(8)] by simp
  then have "decrypt_miss env st f h k cache root (Some ctx) rng = (accepted d True, st1, cache(k \<mapsto> key), rng1)"
    using assms(7-9) carries_received(1) [OF assms(1,2)]
    by (simp add: decrypt_miss_def deriveOnClone_def clone_eq accepted_def)
  then show ?thesis using p assms(3-6) by (simp add: decryptMessageChunk_def)
qed

section \<open>Properties\<close>

text \<open>C9: a message crosses the channel. Let the receiver's ratchet give the message's key for its header, and let the epoch be one it accepts.
  Then the chunk frames the sender sealed, each with its metadata and Merkle proof, are all accepted in
  any order and with any repetitions: every result holds the metadata, the leaf hash and the chunk it was
  sealed from, and only the first of them advances the ratchet.\<close>

theorem message_chunks_delivered:
  assumes A: "aead_ok (ce_aead env)" and M: "sha_ok (ce_sha env)" "platform_ok pl"
    and msg: "length chunks \<le> 2 ^ 48" "getMerkleRoot (ce_sha env) (leaves_of (ce_sha env) chunks) = Inr root"
    and sent: "list_all2 (\<lambda>f (md, field, c, n). c \<in> set chunks \<and> length c = CHUNK_LEN \<and> length md = METADATA_LEN \<and>
        getMerkleProof pl (ce_sha env) (leaves_of (ce_sha env) chunks) (leaf_hash (ce_sha env) c) (Some PROOF_LEN) = Inr field \<and>
        sealChunk env mk h (chunk_plaintext md field c) root (Some ctx) n = Inr f) frames items" "frames \<noteq> []"
    and recv: "wf_skipped (skipped st)" "ratchetDecrypt st h (ce_module env) rng = (Inr mk, st1, rng1)"
      "R (pm_epoch ctx) = Inr (Some ctx)" "pm_rootSuite ctx = rootSuite st"
      "messageCacheKey (dhPub h) (N h) (Some (pm_epoch ctx)) = Inr k" "cache k = None"
  shows "\<exists>key. receive_all env root (Some R) frames (st, cache, rng) =
    (map2 accepted (map (\<lambda>(md, field, c, n). received_plaintext (ce_sha env) md field c) items) (True # replicate (length frames - 1) False),
     st1, cache(k \<mapsto> key), rng1)"
proof -
  let ?got = "\<lambda>(md, field, c, n). received_plaintext (ce_sha env) md field c"
  obtain f fs i rest where fr: "frames = f # fs" "items = i # rest" using sent by (cases frames; cases items) auto
  obtain key where key: "combined_key env mk ctx h = Inr key" and l64: "length root = 64"
    using sent(1) fr by (cases i) (auto simp: sealChunk_iff)
  have carry: "carries env key root h (pm_epoch ctx) g (?got j)"
    if "(\<lambda>f (md, field, c, n). c \<in> set chunks \<and> length c = CHUNK_LEN \<and> length md = METADATA_LEN \<and>
        getMerkleProof pl (ce_sha env) (leaves_of (ce_sha env) chunks) (leaf_hash (ce_sha env) c) (Some PROOF_LEN) = Inr field \<and>
        sealChunk env mk h (chunk_plaintext md field c) root (Some ctx) n = Inr f) g j" for g j
  proof -
    obtain md field c n where j: "j = (md, field, c, n)" by (cases j)
    have "check_plaintext (ce_sha env) root (chunk_plaintext md field c) = Inr (received_plaintext (ce_sha env) md field c) \<and>
        length (chunk_plaintext md field c) = 65405"
      using genuine_plaintext [OF M _ msg] that j by (simp add: wire_geometry)
    then show ?thesis using that key by (auto simp: j carries_def sealChunk_iff)
  qed
  have "list_all2 (carries env key root h (pm_epoch ctx)) frames (map ?got items)"
    unfolding list_all2_map2 using sent(1) by (rule list_all2_mono) (rule carry)
  then have all: "carries env key root h (pm_epoch ctx) f (?got i)" "list_all2 (carries env key root h (pm_epoch ctx)) fs (map ?got rest)"
    using fr by simp_all
  have ctx: "frame_context_of (Some R) (pm_epoch ctx) (rootSuite st) = Some (Some ctx)"
    using key recv(3,4) by (auto simp: frame_context_of_def resolvedContextMatches_def combined_key_def combinePqMessageKey_def
        encodeInfo_iff result_simps const_defs split: if_splits sum.splits)
  have s1: "frame_context_of (Some R) (pm_epoch ctx) (rootSuite st1) = Some (Some ctx)"
    using ctx decrypt_keeps_suite [OF recv(2)] by simp
  have one: "decryptMessageChunk env st f cache root (Some R) rng = (accepted (?got i) True, st1, cache(k \<mapsto> key), rng1)"
    by (rule receive_first [where cache = cache and k = k, OF A all(1) l64 ctx recv(5,6,1,2) key])
  have later: "receive_all env root (Some R) fs (st1, cache(k \<mapsto> key), rng1) =
      (map (\<lambda>d. accepted d False) (map ?got rest), st1, cache(k \<mapsto> key), rng1)"
    by (rule receive_all_hits [where k = k, OF A l64 s1 recv(5) _ all(2)]) simp
  have len: "length fs = length rest" using sent(1) fr by (auto dest: list_all2_lengthD)
  have "map (\<lambda>d. accepted d False) ds = map2 accepted ds (replicate (length ds) False)" for ds
    by (induction ds) simp_all
  then show ?thesis using one later fr len by (intro exI [of _ key]) simp
qed

definition quiet_env :: "nat chunk_env" where
  "quiet_env = \<lparr>ce_module = demo_module, ce_aead = plain_aead, ce_sha = demo_sha\<rparr>"

definition quiet_header :: ratchet_header where
  "quiet_header = \<lparr>dhPub = zeros 32, N = 0, PN = 0\<rparr>"

definition quiet_context :: pq_message_context where
  "quiet_context = \<lparr>pm_rootKey = zeros 32, pm_binding = zeros 32, pm_rootSuite = RATCHET_ROOT_SUITE_MLKEM768, pm_epoch = 1\<rparr>"

definition quiet_receiver :: ratchet_state where
  "quiet_receiver = demo_receiver\<lparr>rootSuite := RATCHET_ROOT_SUITE_MLKEM768\<rparr>"

lemma quiet_ratchet: "\<exists>mk st1. ratchetDecrypt quiet_receiver quiet_header demo_module 9 = (Inr mk, st1, 9) \<and> length mk = 32"
proof -
  have "(case ratchetDecrypt quiet_receiver quiet_header demo_module 9 of (Inr mk, st1, r) \<Rightarrow> length mk = 32 \<and> r = 9 | _ \<Rightarrow> False)" by code_simp
  then show ?thesis by (auto split: prod.splits sum.splits)
qed

lemma quiet_key: "length mk = 32 \<Longrightarrow> \<exists>key. combined_key quiet_env mk quiet_context quiet_header = Inr key"
proof -
  assume "length mk = 32"
  moreover have "isRatchetRootSuite RATCHET_ROOT_SUITE_MLKEM768" by code_simp
  ultimately show ?thesis
    by (simp add: combined_key_def combinePqMessageKey_def viewsOverlap_def message_key_view_def epoch_root_view_def mkRequireBytes_def
        encodeInfo_iff [THEN iffD2] quiet_context_def quiet_header_def header_ok_def u64_ok_def const_defs quiet_env_def mk_kdf_def
        hkdfExtract_def hkdfExpand_def demo_module_def split: sum.splits)
qed

lemma quiet_facts:
  "aead_ok (ce_aead quiet_env)" "sha_ok (ce_sha quiet_env)" "ce_module quiet_env = demo_module" "rootSuite quiet_receiver = pm_rootSuite quiet_context"
  "wf_skipped (skipped quiet_receiver)" "\<exists>k. messageCacheKey (dhPub quiet_header) (N quiet_header) (Some (pm_epoch quiet_context)) = Inr k"
  using plain_aead_ok demo_merkle_ok
  by (simp_all add: quiet_env_def quiet_receiver_def quiet_context_def demo_receiver_def wf_skipped_def messageCacheKey_def Let_def const_defs)

lemma quiet_message:
  "\<exists>root field f mk st1 k. length root = 64 \<and> length f = WIRE_CHUNK_FRAME_LEN \<and>
     getMerkleRoot (ce_sha quiet_env) (leaves_of (ce_sha quiet_env) [zeros 61912]) = Inr root \<and>
     getMerkleProof demo_platform (ce_sha quiet_env) (leaves_of (ce_sha quiet_env) [zeros 61912]) (leaf_hash (ce_sha quiet_env) (zeros 61912))
       (Some PROOF_LEN) = Inr field \<and>
     ratchetDecrypt quiet_receiver quiet_header (ce_module quiet_env) 9 = (Inr mk, st1, 9) \<and>
     messageCacheKey (dhPub quiet_header) (N quiet_header) (Some (pm_epoch quiet_context)) = Inr k \<and>
     sealChunk quiet_env mk quiet_header (chunk_plaintext (zeros 369) field (zeros 61912)) root (Some quiet_context) (zeros 12) = Inr f"
proof -
  let ?c = "zeros 61912 :: bytes" and ?md = "zeros 369 :: bytes"
  obtain mk st1 where d: "ratchetDecrypt quiet_receiver quiet_header (ce_module quiet_env) 9 = (Inr mk, st1, 9)" "length mk = 32"
    using quiet_ratchet quiet_facts(3) by auto
  obtain key where key: "combined_key quiet_env mk quiet_context quiet_header = Inr key" using quiet_key [OF d(2)] by blast
  obtain k where k: "messageCacheKey (dhPub quiet_header) (N quiet_header) (Some (pm_epoch quiet_context)) = Inr k"
    using quiet_facts(6) by blast
  have in_c: "?c \<in> set [?c]" "length [?c] \<le> 2 ^ 48" by simp_all
  obtain root where root: "getMerkleRoot (ce_sha quiet_env) (leaves_of (ce_sha quiet_env) [?c]) = Inr root" "length root = 64"
    using getMerkleRoot_ref [OF quiet_facts(2), of "[?c]"] root_ref_length [OF quiet_facts(2), of "[?c]"] by auto
  obtain field where field: "getMerkleProof demo_platform (ce_sha quiet_env) (leaves_of (ce_sha quiet_env) [?c]) (leaf_hash (ce_sha quiet_env) ?c)
      (Some PROOF_LEN) = Inr field"
    using proof_field_exact(3) [OF quiet_facts(2) demo_merkle_ok(2) in_c] by blast
  have hdr: "chunk_header_ok quiet_header (zeros 12) (pm_epoch quiet_context)"
    by (simp add: chunk_header_ok_def quiet_header_def quiet_context_def MAX_SAFE_INTEGER_def MAX_U64_def)
  have len: "length (chunk_plaintext ?md field ?c) = 65405"
    using genuine_plaintext [OF quiet_facts(2) demo_merkle_ok(2) in_c root(1) field, of ?md] by simp
  obtain f where f: "sealChunk quiet_env mk quiet_header (chunk_plaintext ?md field ?c) root (Some quiet_context) (zeros 12) = Inr f"
    using key root(2) hdr by (auto simp: sealChunk_iff quiet_env_def plain_aead_def)
  then have "length f = WIRE_CHUNK_FRAME_LEN"
    using len length_chunk_layout [OF hdr] aead_length [OF quiet_facts(1)] by (auto simp: sealChunk_iff wire_geometry)
  then show ?thesis using d(1) k root field f by blast
qed

theorem message_chunks_delivered_witness:
  "\<exists>root f d st1 cache1 n. length root = 64 \<and>
     receive_all quiet_env root (Some (\<lambda>e. Inr (Some quiet_context))) [f, f] (quiet_receiver, Map.empty, 9) =
       ([accepted d True, accepted d False], st1, cache1, n)"
proof -
  let ?c = "zeros 61912 :: bytes" and ?md = "zeros 369 :: bytes"
  obtain root field f mk st1 k where q: "length root = 64" "getMerkleRoot (ce_sha quiet_env) (leaves_of (ce_sha quiet_env) [?c]) = Inr root"
      "getMerkleProof demo_platform (ce_sha quiet_env) (leaves_of (ce_sha quiet_env) [?c]) (leaf_hash (ce_sha quiet_env) ?c) (Some PROOF_LEN) = Inr field"
      "ratchetDecrypt quiet_receiver quiet_header (ce_module quiet_env) 9 = (Inr mk, st1, 9)"
      "messageCacheKey (dhPub quiet_header) (N quiet_header) (Some (pm_epoch quiet_context)) = Inr k"
      "sealChunk quiet_env mk quiet_header (chunk_plaintext ?md field ?c) root (Some quiet_context) (zeros 12) = Inr f"
    using quiet_message by blast
  have sent: "list_all2 (\<lambda>f (md, field, c, n). c \<in> set [?c] \<and> length c = CHUNK_LEN \<and> length md = METADATA_LEN \<and>
        getMerkleProof demo_platform (ce_sha quiet_env) (leaves_of (ce_sha quiet_env) [?c]) (leaf_hash (ce_sha quiet_env) c) (Some PROOF_LEN) = Inr field \<and>
        sealChunk quiet_env mk quiet_header (chunk_plaintext md field c) root (Some quiet_context) n = Inr f)
      [f, f] [(?md, field, ?c, zeros 12), (?md, field, ?c, zeros 12)]"
    using q(3,6) by (simp add: wire_geometry)
  have R: "(\<lambda>e. Inr (Some quiet_context) :: unit + pq_message_context option) (pm_epoch quiet_context) = Inr (Some quiet_context)" by simp
  have one: "length [?c] \<le> 2 ^ 48" by simp
  obtain key' where "receive_all quiet_env root (Some (\<lambda>e. Inr (Some quiet_context))) [f, f] (quiet_receiver, Map.empty, 9) =
      (map2 accepted (map (\<lambda>(md, field, c, n). received_plaintext (ce_sha quiet_env) md field c)
          [(?md, field, ?c, zeros 12), (?md, field, ?c, zeros 12 :: bytes)]) (True # replicate (length [f, f] - 1) False), st1, [k \<mapsto> key'], 9)"
    using message_chunks_delivered [OF quiet_facts(1,2) demo_merkle_ok(2) one q(2) sent _ quiet_facts(5) q(4) R quiet_facts(4) [symmetric] q(5), of Map.empty]
    by auto
  moreover have "map2 accepted (map (\<lambda>(md, field, c, n). received_plaintext (ce_sha quiet_env) md field c)
      [(?md, field, ?c, zeros 12), (?md, field, ?c, zeros 12 :: bytes)]) (True # replicate (length [f, f] - 1) False) =
      [accepted (received_plaintext (ce_sha quiet_env) ?md field ?c) True, accepted (received_plaintext (ce_sha quiet_env) ?md field ?c) False]"
    by simp
  ultimately show ?thesis using q(1) by metis
qed

text \<open>C10: a chunk that does not authenticate changes nothing. Receiving a frame leaves the ratchet and the key cache as they were, unless the
  frame's ciphertext is the encryption of some plaintext, over exactly this Merkle root and header, under the
  key the ratchet derives for the header in an epoch the receiver accepts; then that step of the ratchet is adopted and the key cached.\<close>

theorem unauthenticated_chunk_changes_nothing:
  assumes A: "aead_ok (ce_aead env)" and len: "length frame = WIRE_CHUNK_FRAME_LEN"
    and d: "decryptMessageChunk env st frame cache root R rng = (r, st', cache', rng')" and changed: "(st', cache') \<noteq> (st, cache)"
  shows "\<exists>p ctx k mk key plain. parseChunkFrameHeader frame = Inr p \<and>
    frame_context_of R (pf_pqEpoch p) (rootSuite st) = Some ctx \<and>
    ratchetDecrypt (cloneRatchet st) (pf_header p) (ce_module env) rng = (Inr mk, st', rng') \<and>
    (case ctx of None \<Rightarrow> Inr mk | Some c \<Rightarrow> combined_key env mk c (pf_header p)) = Inr key \<and>
    aead_encrypt (ce_aead env) key (pf_nonce p) plain (chunk_aad root (pf_header p) (pf_pqEpoch p)) = Some (pf_ciphertext p) \<and>
    cache' = cache(k \<mapsto> key)"
proof -
  obtain p ctx k where p: "parseChunkFrameHeader frame = Inr p" "frame_context_of R (pf_pqEpoch p) (rootSuite st) = Some ctx"
    and m: "decrypt_miss env st frame (pf_header p) k cache root ctx rng = (r, st', cache', rng')"
    using d changed by (auto simp: decryptMessageChunk_def Let_def split: if_splits sum.splits option.splits prod.splits)
  obtain mk cl key code dec where s: "ratchetDecrypt (cloneRatchet st) (pf_header p) (ce_module env) rng = (Inr mk, cl, rng')"
      "(case ctx of None \<Rightarrow> Inr mk | Some c \<Rightarrow> combined_key env mk c (pf_header p)) = Inr key"
      "receiveWithKey env frame root key = (code, dec)" "code \<noteq> -2"
    and ad: "(case adoptRatchet st cl of (Inl e, s) \<Rightarrow> (Inl (AdoptFailed e), s, cache, rng')
       | (Inr _, s) \<Rightarrow> (Inr \<lparr>dc_decrypted = (if code = 0 then dec else None), dc_ok = (code = 0), dc_stateAdvanced = True\<rparr>,
                        s, cache(k \<mapsto> key), rng')) = (r, st', cache', rng')"
    using m changed
    by (auto simp: decrypt_miss_def deriveOnClone_def Let_def split: if_splits sum.splits prod.splits)
  have st: "st' = cl \<and> cache' = cache(k \<mapsto> key)"
    using ad changed adopt_ok [of st cl] by (cases "rootSuite st = rootSuite cl") (auto simp: adoptRatchet_def)
  have fr: "chunk_header_ok (pf_header p) (pf_nonce p) (pf_pqEpoch p)"
      "frame = chunk_layout (pf_header p) (pf_nonce p) (pf_pqEpoch p) @ pf_ciphertext p"
    using parse_okD [OF p(1)] by simp_all
  have "length frame = 69 + length (pf_ciphertext p)" using length_chunk_layout [OF fr(1)] fr(2) by (metis length_append)
  then have "length (pf_ciphertext p) = 65421" using len by (simp add: wire_geometry)
  then have "aead_decrypt (ce_aead env) key (pf_nonce p) (pf_ciphertext p) (chunk_aad root (pf_header p) (pf_pqEpoch p)) \<noteq> None"
    using s(3,4) fr(2) receive_layout [OF fr(1), of "pf_ciphertext p" env root key] by (auto split: option.splits)
  then obtain plain where "aead_encrypt (ce_aead env) key (pf_nonce p) plain (chunk_aad root (pf_header p) (pf_pqEpoch p)) = Some (pf_ciphertext p)"
    using aead_inverse [OF A] by blast
  then show ?thesis using p s(1,2) st by blast
qed

theorem unauthenticated_chunk_changes_nothing_witness:
  "\<exists>root f p mk st1 plain key. length f = WIRE_CHUNK_FRAME_LEN \<and> parseChunkFrameHeader f = Inr p \<and>
     ratchetDecrypt (cloneRatchet quiet_receiver) (pf_header p) demo_module 9 = (Inr mk, st1, 9) \<and>
     aead_encrypt plain_aead key (pf_nonce p) plain (chunk_aad root (pf_header p) (pf_pqEpoch p)) = Some (pf_ciphertext p)"
proof -
  let ?c = "zeros 61912 :: bytes" and ?md = "zeros 369 :: bytes"
  obtain root field f mk st1 k where q: "length root = 64" "length f = WIRE_CHUNK_FRAME_LEN"
      "getMerkleRoot (ce_sha quiet_env) (leaves_of (ce_sha quiet_env) [?c]) = Inr root"
      "getMerkleProof demo_platform (ce_sha quiet_env) (leaves_of (ce_sha quiet_env) [?c]) (leaf_hash (ce_sha quiet_env) ?c) (Some PROOF_LEN) = Inr field"
      "ratchetDecrypt quiet_receiver quiet_header (ce_module quiet_env) 9 = (Inr mk, st1, 9)"
      "messageCacheKey (dhPub quiet_header) (N quiet_header) (Some (pm_epoch quiet_context)) = Inr k"
      "sealChunk quiet_env mk quiet_header (chunk_plaintext ?md field ?c) root (Some quiet_context) (zeros 12) = Inr f"
    using quiet_message by blast
  let ?R = "Some (\<lambda>e. Inr (Some quiet_context)) :: resolver option"
  obtain key where key: "combined_key quiet_env mk quiet_context quiet_header = Inr key" using q(7) by (auto simp: sealChunk_iff)
  have "carries quiet_env key root quiet_header (pm_epoch quiet_context) f (received_plaintext (ce_sha quiet_env) ?md field ?c)"
    using genuine_plaintext [OF quiet_facts(2) demo_merkle_ok(2) _ _ q(3,4), of ?md] q(7) key by (auto simp: carries_def sealChunk_iff)
  moreover have "frame_context_of ?R (pm_epoch quiet_context) (rootSuite quiet_receiver) = Some (Some quiet_context)"
    by (simp add: frame_context_of_def resolvedContextMatches_def quiet_facts(4) quiet_context_def const_defs)
  ultimately have d: "decryptMessageChunk quiet_env quiet_receiver f Map.empty root ?R 9 =
      (accepted (received_plaintext (ce_sha quiet_env) ?md field ?c) True, st1, [k \<mapsto> key], 9)"
    using receive_first [where cache = Map.empty, OF quiet_facts(1) _ q(1) _ q(6) _ quiet_facts(5) q(5) key] by simp
  have "(st1, [k \<mapsto> key]) \<noteq> (quiet_receiver, Map.empty)" by simp
  note n = unauthenticated_chunk_changes_nothing [OF quiet_facts(1) q(2) d this]
  have "ce_aead quiet_env = plain_aead" by (simp add: quiet_env_def)
  with n show ?thesis using q(2) quiet_facts(3) by metis
qed

end
