(* ===== verification/Cpace.thy ===== *)
theory Cpace
  imports Ratchet
begin

text \<open>
  The balanced PAKE of \<^verbatim>\<open>src/src/cryptography/cpace.ts\<close>. The ristretto255 group and SHA-512 belong to the
  compiled module and are parameters; the random scalar is an argument of \<open>cpaceStart\<close>. A hash that is fed in
  pieces is the hash of their concatenation. Shown: the transcript encoding is injective, so two runs
  hash the same string only for the same fields.
\<close>

record cpace_group =
  sha512_bytes :: "bytes \<Rightarrow> bytes option"
  from_hash :: "bytes \<Rightarrow> bytes"
  scalarmult :: "bytes \<Rightarrow> bytes \<Rightarrow> bytes option"

datatype cpace_error =
    InvalidFieldLength
  | WrongLength
  | HashFailed
  | ShareIsIdentity
  | PeerShareInvalid

definition CPACE_DSI_BYTES :: bytes where "CPACE_DSI_BYTES = ascii ''CPaceRistretto255''"
definition CPACE_ISK_DSI_BYTES :: bytes where "CPACE_ISK_DSI_BYTES = ascii ''CPaceRistretto255_ISK''"
definition SHA512_INPUT_BLOCK_BYTES :: int where "SHA512_INPUT_BLOCK_BYTES = 128"

definition assertLength :: "bytes \<Rightarrow> nat \<Rightarrow> cpace_error + unit" where
  "assertLength value expected = ensure (length value = expected) WrongLength"

text \<open>The loop of \<^verbatim>\<open>encodeCpaceLength\<close>: seven bits a byte, least significant first.\<close>

function leb128 :: "nat \<Rightarrow> bytes" where
  "leb128 remaining =
     (if remaining div 128 \<noteq> 0 then (of_nat (remaining mod 128) OR 0x80) # leb128 (remaining div 128)
      else [of_nat (remaining mod 128)])"
  by pat_completeness auto
termination
  by (relation "measure id") auto

declare leb128.simps [simp del]

definition encodeCpaceLength :: "int \<Rightarrow> cpace_error + bytes" where
  "encodeCpaceLength n = (if \<not> is_safe_integer n \<or> n < 0 then Inl InvalidFieldLength else Inr (leb128 (nat n)))"

definition lv_field :: "bytes \<Rightarrow> cpace_error + bytes" where
  "lv_field part = rbind (encodeCpaceLength (int (length part))) (\<lambda>l. Inr (l @ part))"

fun lv_cat :: "bytes list \<Rightarrow> cpace_error + bytes" where
  "lv_cat [] = Inr []"
| "lv_cat (part # parts) = rbind (lv_field part) (\<lambda>w. rbind (lv_cat parts) (\<lambda>ws. Inr (w @ ws)))"

definition sha512LvConcat :: "cpace_group \<Rightarrow> bytes list \<Rightarrow> cpace_error + bytes" where
  "sha512LvConcat G parts =
     rbind (lv_cat parts) (\<lambda>w. case sha512_bytes G w of None \<Rightarrow> Inl HashFailed | Some h \<Rightarrow> Inr h)"

definition deriveGenerator :: "cpace_group \<Rightarrow> bytes \<Rightarrow> bytes \<Rightarrow> bytes \<Rightarrow> cpace_error + bytes" where
  "deriveGenerator G pin sid channelInput =
     rbind (encodeCpaceLength (int (length CPACE_DSI_BYTES))) (\<lambda>d.
     rbind (encodeCpaceLength (int (length pin))) (\<lambda>p.
     let lenZpad = max 0 (SHA512_INPUT_BLOCK_BYTES - 1 - (int (length d) + int (length CPACE_DSI_BYTES)) -
                            (int (length p) + int (length pin)))
     in rbind (sha512LvConcat G [CPACE_DSI_BYTES, pin, zeros (nat lenZpad), channelInput, sid]) (\<lambda>h.
        Inr (from_hash G h))))"

definition cpaceStart :: "cpace_group \<Rightarrow> bytes \<Rightarrow> bytes \<Rightarrow> cpace_error + bytes \<times> bytes" where
  "cpaceStart G y generator =
     rbind (assertLength generator 32) (\<lambda>_.
     case scalarmult G y generator of None \<Rightarrow> Inl ShareIsIdentity | Some share \<Rightarrow> Inr (y, share))"

definition cpaceFinish :: "cpace_group \<Rightarrow> bytes \<Rightarrow> bytes \<Rightarrow> bytes \<Rightarrow> bytes \<Rightarrow> bytes \<Rightarrow> bytes \<Rightarrow> bytes \<Rightarrow> cpace_error + bytes" where
  "cpaceFinish G y peerShare sid initiatorShare responderShare initiatorData responderData =
     rbind (assertLength y 32) (\<lambda>_.
     rbind (assertLength peerShare 32) (\<lambda>_.
     rbind (assertLength initiatorShare 32) (\<lambda>_.
     rbind (assertLength responderShare 32) (\<lambda>_.
     case scalarmult G y peerShare of
       None \<Rightarrow> Inl PeerShareInvalid
     | Some k \<Rightarrow>
         sha512LvConcat G [CPACE_ISK_DSI_BYTES, sid, k, initiatorShare, initiatorData, responderShare, responderData]))))"

section \<open>The transcript encoding is injective\<close>

fun leb128_read :: "bytes \<Rightarrow> (nat \<times> bytes) option" where
  "leb128_read [] = None"
| "leb128_read (b # bs) =
     (if unat b < 128 then Some (unat b, bs)
      else map_option (\<lambda>(n, r). (n * 128 + (unat b - 128), r)) (leb128_read bs))"

lemma byte_with_flag: "k < 128 \<Longrightarrow> unat ((of_nat k :: byte) OR 0x80) = k + 128"
proof -
  have "list_all (\<lambda>k. unat ((of_nat k :: byte) OR 0x80) = k + 128) [0..<128]" by code_simp
  then show "k < 128 \<Longrightarrow> unat ((of_nat k :: byte) OR 0x80) = k + 128" by (simp add: list_all_iff)
qed

lemma leb128_reads_back: "leb128_read (leb128 n @ xs) = Some (n, xs)"
proof (induction n rule: leb128.induct)
  case (1 n)
  show ?case
  proof (cases "n div 128 \<noteq> 0")
    case True
    have "n = n div 128 * 128 + n mod 128" by simp
    then show ?thesis using 1 True by (subst leb128.simps) (simp add: byte_with_flag)
  next
    case False
    then have "n < 128" by simp
    then show ?thesis by (subst leb128.simps) simp
  qed
qed

lemma lv_field_iff: "lv_field p = Inr w \<longleftrightarrow> is_safe_integer (int (length p)) \<and> w = leb128 (length p) @ p"
  by (auto simp: lv_field_def encodeCpaceLength_def split: if_splits)

lemma leb128_nonempty: "leb128 n \<noteq> []"
  by (subst leb128.simps) simp

lemma lv_field_split:
  assumes "lv_field p = Inr v" "lv_field q = Inr w" "v @ xs = w @ ys"
  shows "p = q \<and> xs = ys"
proof -
  have "leb128 (length p) @ p @ xs = leb128 (length q) @ q @ ys" using assms by (simp add: lv_field_iff)
  then have "(length p, p @ xs) = (length q, q @ ys)"
    by (metis leb128_reads_back option.inject)
  then show ?thesis by auto
qed

lemma lv_cat_injective: "lv_cat ps = Inr w \<Longrightarrow> lv_cat qs = Inr w \<Longrightarrow> ps = qs"
proof (induction ps arbitrary: qs w)
  case Nil
  then show ?case by (cases qs) (auto simp: result_simps lv_field_iff leb128_nonempty)
next
  case (Cons p ps)
  then obtain v vs where v: "lv_field p = Inr v" "lv_cat ps = Inr vs" "w = v @ vs" by (auto simp: result_simps)
  then have "qs \<noteq> []" using Cons.prems(2) by (auto simp: lv_field_iff leb128_nonempty)
  then obtain q qs' u us where q: "qs = q # qs'" "lv_field q = Inr u" "lv_cat qs' = Inr us" "w = u @ us"
    using Cons.prems(2) by (cases qs) (auto simp: result_simps)
  then have "p = q" "vs = us" using lv_field_split [OF v(1) q(2)] v(3) by auto
  then show ?case using Cons.IH [OF v(2)] q(1,3) by simp
qed

section \<open>The length encoding\<close>

lemma leb128_length: "n < 128 ^ k \<Longrightarrow> 0 < k \<Longrightarrow> length (leb128 n) \<le> k"
proof (induction k arbitrary: n)
  case (Suc k)
  show ?case
  proof (cases "n div 128 = 0")
    case False
    then have "k \<noteq> 0" using Suc.prems by (cases k) auto
    moreover have "n div 128 < 128 ^ k" using Suc.prems(1) by (simp add: less_mult_imp_div_less mult.commute)
    ultimately show ?thesis using Suc.IH [of "n div 128"] False by (subst leb128.simps) simp
  qed (subst leb128.simps, simp)
qed simp

section \<open>Properties\<close>

text \<open>C40: the length loop of the CPace transcript ends for every length a JavaScript number holds exactly, after at most
  eight bytes, and the bytes read back as that length whatever follows them.\<close>

theorem cpace_length_loop:
  assumes "0 \<le> n" "is_safe_integer n"
  shows "\<exists>bs. encodeCpaceLength n = Inr bs \<and> 1 \<le> length bs \<and> length bs \<le> 8 \<and> leb128_read (bs @ rest) = Some (nat n, rest)"
proof -
  have "nat n < 128 ^ 8" using assms by (simp add: is_safe_integer_def MAX_SAFE_INTEGER_def nat_less_iff)
  then have "length (leb128 (nat n)) \<le> 8" by (rule leb128_length) simp
  then show ?thesis
    using assms leb128_reads_back leb128_nonempty [of "nat n"] by (simp add: encodeCpaceLength_def Suc_le_eq)
qed

theorem cpace_length_loop_witness:
  "\<exists>bs. encodeCpaceLength 300 = Inr bs \<and> 1 \<le> length bs \<and> length bs \<le> 8 \<and> leb128_read (bs @ [9]) = Some (300, [9])"
  using cpace_length_loop [of 300 "[9]"] by (simp add: is_safe_integer_def MAX_SAFE_INTEGER_def)

end
