(* ===== verification/Handshake.thy ===== *)
theory Handshake
  imports Cpace Room_Policy Pq_Machine
begin

text \<open>
  The handshake of \<^verbatim>\<open>src/src/handlers/handshakeCore.ts\<close>, with the interactive triple Diffie-Hellman of
  \<^verbatim>\<open>cryptography/x3dh.ts\<close> and the identity cross-signature of \<^verbatim>\<open>cryptography/identityCrossSig.ts\<close>. The function
  \<^verbatim>\<open>performHandshakeCore\<close> is cut at its \<^verbatim>\<open>recv\<close> calls: each part is a definition from what was received to
  the frames it sends and the state it continues with. The initiator has four parts, the responder
  two. Random values are arguments; the compiled primitives are fields of \<open>hs_env\<close>.
\<close>

section \<open>Primitives\<close>

record 'r hs_env =
  hs_module :: "'r libcrypto"
  hs_group :: cpace_group
  hs_keypair :: "bytes \<Rightarrow> mlkem_keypair option"
  hs_encaps :: "bytes \<Rightarrow> bytes \<Rightarrow> (bytes \<times> bytes) option"
  hs_decaps :: "bytes \<Rightarrow> bytes \<Rightarrow> bytes option"
  hs_verify :: "bytes \<Rightarrow> bytes \<Rightarrow> bytes \<Rightarrow> bool"
  hs_sha256 :: "bytes \<Rightarrow> bytes"

datatype hs_error =
    UnsupportedPqMode
  | UnsupportedSuiteMode policy_error
  | UnknownSuite pq_error
  | BackendRejectedKem
  | PinRequired
  | FieldOutOfRange
  | MalformedHello
  | ResponderKeyNotZero
  | ResponderCiphertextMissing
  | InitiatorKeyMissing
  | InitiatorCiphertextNotZero
  | CrossSignatureInvalid
  | ScalarUnavailable
  | HmacFailed
  | MalformedConfirm
  | KeyConfirmationFailed
  | MalformedFinish
  | FinalConfirmationFailed
  | HsPake cpace_error
  | HsRatchet ratchet_error

definition lift_ratchet :: "ratchet_error + 'a \<Rightarrow> hs_error + 'a" where
  "lift_ratchet r = (case r of Inl e \<Rightarrow> Inl (HsRatchet e) | Inr x \<Rightarrow> Inr x)"

definition lift_pake :: "cpace_error + 'a \<Rightarrow> hs_error + 'a" where
  "lift_pake r = (case r of Inl e \<Rightarrow> Inl (HsPake e) | Inr x \<Rightarrow> Inr x)"

definition lift_kem :: "'a option \<Rightarrow> hs_error + 'a" where
  "lift_kem r = (case r of None \<Rightarrow> Inl BackendRejectedKem | Some x \<Rightarrow> Inr x)"

section \<open>The channel input\<close>

definition pqTranscriptTag :: "string \<Rightarrow> hs_error + bytes" where
  "pqTranscriptTag mode =
     (if mode = ''hybrid-mlkem768'' then Inr [1]
      else if mode = ''hybrid-mlkem512'' then Inr [2]
      else if mode = ''hybrid-mlkem1024'' then Inr [3]
      else Inl UnsupportedPqMode)"

record channel_input_params =
  ci_channelId :: bytes
  ci_ikInitiator :: bytes
  ci_ikResponder :: bytes
  ci_fpInitiator :: bytes
  ci_fpResponder :: bytes
  ci_pqMode :: "string option"

definition buildChannelInput :: "channel_input_params \<Rightarrow> hs_error + bytes" where
  "buildChannelInput p =
     rbind (pqTranscriptTag (case ci_pqMode p of None \<Rightarrow> ''hybrid-mlkem768'' | Some m \<Rightarrow> m)) (\<lambda>pqTag.
     let parts = [ci_channelId p, ci_ikInitiator p, ci_ikResponder p, ci_fpInitiator p, ci_fpResponder p, pqTag]
     in Inr (copy_all (zeros (sum_list (map length parts))) 0 parts))"

section \<open>Layouts\<close>

definition HS_STEP_HELLO :: byte where [const_defs]: "HS_STEP_HELLO = 1"
definition HS_STEP_CONFIRM :: byte where [const_defs]: "HS_STEP_CONFIRM = 2"
definition HS_STEP_FINISH :: byte where [const_defs]: "HS_STEP_FINISH = 3"
definition HS_KC_DOMAIN :: bytes where "HS_KC_DOMAIN = ascii ''p2party-v4-hs-kc-transcript-v4''"
definition HS_KC_RESPONDER_DOMAIN :: bytes where "HS_KC_RESPONDER_DOMAIN = ascii ''p2party-v4-hs-kc-responder-v4''"
definition HS_KC_INITIATOR_DOMAIN :: bytes where "HS_KC_INITIATOR_DOMAIN = ascii ''p2party-v4-hs-kc-initiator-ratchet-dh-v4''"
definition HS_KC_RESPONDER_FINISH_DOMAIN :: bytes where
  "HS_KC_RESPONDER_FINISH_DOMAIN = ascii ''p2party-v4-hs-kc-responder-finish-v4''"

datatype hs_mode = Pin | NoPin

definition hybridKdfDomain :: "hs_mode \<Rightarrow> nat \<Rightarrow> bytes" where
  "hybridKdfDomain mode n =
     ascii (if mode = Pin then ''p2party-v4-hybrid-root-cpace21-3dh-ml-kem-'' @ nat_to_dec n @ ''-v4''
            else ''p2party-v4-hybrid-root-3dh-ml-kem-'' @ nat_to_dec n @ ''-v4'')"

definition HS_HYBRID_KDF_SALT :: bytes where "HS_HYBRID_KDF_SALT = zeros 64"
definition PQ_HEALING_ROOT_SALT :: bytes where "PQ_HEALING_ROOT_SALT = ascii ''p2party-v4-pq-healing-extract-v1''"
definition PQ_HEALING_ROOT_INFO :: bytes where "PQ_HEALING_ROOT_INFO = ascii ''p2party-v4-pq-healing-root-v1''"
definition PQ_HEALING_BINDING_DOMAIN :: bytes where
  "PQ_HEALING_BINDING_DOMAIN = ascii ''p2party-v4-pq-healing-binding-v1'' @ [0]"

definition DH_LEN :: nat where [const_defs]: "DH_LEN = 32"
definition SID_LEN :: nat where [const_defs]: "SID_LEN = 32"
definition EK_LEN :: nat where [const_defs]: "EK_LEN = 32"
definition Y_LEN :: nat where [const_defs]: "Y_LEN = 32"
definition MAC_LEN :: nat where [const_defs]: "MAC_LEN = 64"
definition X25519_ID_PUB_LEN :: nat where [const_defs]: "X25519_ID_PUB_LEN = 32"
definition IDENTITY_SIG_LEN :: nat where [const_defs]: "IDENTITY_SIG_LEN = 64"
definition HELLO_SID_OFF :: nat where [const_defs]: "HELLO_SID_OFF = 1"
definition HELLO_EK_OFF :: nat where [const_defs]: "HELLO_EK_OFF = HELLO_SID_OFF + SID_LEN"
definition HELLO_Y_OFF :: nat where [const_defs]: "HELLO_Y_OFF = HELLO_EK_OFF + EK_LEN"
definition HELLO_X25519_ID_PUB_OFF :: nat where [const_defs]: "HELLO_X25519_ID_PUB_OFF = HELLO_Y_OFF + Y_LEN"
definition HELLO_IDENTITY_SIG_OFF :: nat where [const_defs]: "HELLO_IDENTITY_SIG_OFF = HELLO_X25519_ID_PUB_OFF + X25519_ID_PUB_LEN"
definition HELLO_ML_KEM_PUBLIC_KEY_OFF :: nat where
  [const_defs]: "HELLO_ML_KEM_PUBLIC_KEY_OFF = HELLO_IDENTITY_SIG_OFF + IDENTITY_SIG_LEN"
definition CONFIRM_LEN :: nat where [const_defs]: "CONFIRM_LEN = 1 + DH_LEN + MAC_LEN"
definition FINISH_LEN :: nat where [const_defs]: "FINISH_LEN = 1 + MAC_LEN"

record hello_layout =
  hl_suite :: mlkem_suite
  hl_publicKeyOffset :: nat
  hl_ciphertextOffset :: nat
  hl_length :: nat

definition helloLayout :: "string \<Rightarrow> hs_error + hello_layout" where
  "helloLayout mode =
     (case roomPqModeToParameterSet mode of
        Inl e \<Rightarrow> Inl (UnsupportedSuiteMode e)
      | Inr p \<Rightarrow>
          (case getMlKemSuite p of
             Inl e \<Rightarrow> Inl (UnknownSuite e)
           | Inr suite \<Rightarrow>
               Inr \<lparr>hl_suite = suite, hl_publicKeyOffset = HELLO_ML_KEM_PUBLIC_KEY_OFF,
                    hl_ciphertextOffset = HELLO_ML_KEM_PUBLIC_KEY_OFF + publicKeyBytes suite,
                    hl_length = HELLO_ML_KEM_PUBLIC_KEY_OFF + publicKeyBytes suite + ciphertextBytes suite\<rparr>))"

definition isHandshakePayloadForStep :: "bytes \<Rightarrow> nat \<Rightarrow> string \<Rightarrow> hs_error + bool" where
  "isHandshakePayloadForStep p step mode =
     (if step = 1 then rbind (helloLayout mode) (\<lambda>l. Inr (length p = hl_length l \<and> p ! 0 = HS_STEP_HELLO))
      else if step = 2 then Inr (length p = CONFIRM_LEN \<and> p ! 0 = HS_STEP_CONFIRM)
      else Inr (length p = FINISH_LEN \<and> p ! 0 = HS_STEP_FINISH))"

record hello =
  h_sid :: bytes
  h_ek :: bytes
  h_y :: bytes
  h_idPub :: bytes
  h_sig :: bytes
  h_pk :: bytes
  h_ct :: bytes

text \<open>\<^verbatim>\<open>TypedArray.set\<close>: a field that does not fit is a \<^verbatim>\<open>RangeError\<close>.\<close>

definition put :: "bytes \<Rightarrow> nat \<Rightarrow> bytes \<Rightarrow> hs_error + bytes" where
  "put out off xs = (if off + length xs \<le> length out then Inr (set_at out off xs) else Inl FieldOutOfRange)"

definition packHello :: "hello_layout \<Rightarrow> hello \<Rightarrow> hs_error + bytes" where
  "packHello layout h =
     rbind (put (zeros (hl_length layout)) 0 [HS_STEP_HELLO]) (\<lambda>out.
     rbind (put out HELLO_SID_OFF (h_sid h)) (\<lambda>out.
     rbind (put out HELLO_EK_OFF (h_ek h)) (\<lambda>out.
     rbind (put out HELLO_Y_OFF (h_y h)) (\<lambda>out.
     rbind (put out HELLO_X25519_ID_PUB_OFF (h_idPub h)) (\<lambda>out.
     rbind (put out HELLO_IDENTITY_SIG_OFF (h_sig h)) (\<lambda>out.
     rbind (put out (hl_publicKeyOffset layout) (h_pk h)) (\<lambda>out.
     put out (hl_ciphertextOffset layout) (h_ct h))))))))"

definition parseHello :: "hello_layout \<Rightarrow> bytes \<Rightarrow> hs_error + hello" where
  "parseHello layout p =
     rbind (ensure (\<not> (length p \<noteq> hl_length layout \<or> p ! 0 \<noteq> HS_STEP_HELLO)) MalformedHello) (\<lambda>_.
     Inr \<lparr>h_sid = sub p HELLO_SID_OFF (HELLO_SID_OFF + SID_LEN),
          h_ek = sub p HELLO_EK_OFF (HELLO_EK_OFF + EK_LEN),
          h_y = sub p HELLO_Y_OFF (HELLO_Y_OFF + Y_LEN),
          h_idPub = sub p HELLO_X25519_ID_PUB_OFF (HELLO_X25519_ID_PUB_OFF + X25519_ID_PUB_LEN),
          h_sig = sub p HELLO_IDENTITY_SIG_OFF (HELLO_IDENTITY_SIG_OFF + IDENTITY_SIG_LEN),
          h_pk = sub p (hl_publicKeyOffset layout) (hl_publicKeyOffset layout + publicKeyBytes (hl_suite layout)),
          h_ct = sub p (hl_ciphertextOffset layout) (hl_ciphertextOffset layout + ciphertextBytes (hl_suite layout))\<rparr>)"

definition allZero :: "bytes \<Rightarrow> bool" where
  "allZero bs \<longleftrightarrow> or_all 0 bs = 0"

definition packConfirm :: "bytes \<Rightarrow> bytes \<Rightarrow> hs_error + bytes" where
  "packConfirm pub mac =
     rbind (put (zeros CONFIRM_LEN) 0 [HS_STEP_CONFIRM]) (\<lambda>out.
     rbind (put out 1 pub) (\<lambda>out. put out (1 + DH_LEN) mac))"

definition packFinish :: "bytes \<Rightarrow> hs_error + bytes" where
  "packFinish mac = rbind (put (zeros FINISH_LEN) 0 [HS_STEP_FINISH]) (\<lambda>out. put out 1 mac)"

definition hmacSha512 :: "'r hs_env \<Rightarrow> bytes \<Rightarrow> bytes \<Rightarrow> hs_error + bytes" where
  "hmacSha512 env key msg =
     (case hkdf_sha512_extract (hs_module env) key msg of None \<Rightarrow> Inl HmacFailed | Some mac \<Rightarrow> Inr mac)"

section \<open>Identity\<close>

definition IDENTITY_CROSS_SIGN_DOMAIN_BYTES :: bytes where
  "IDENTITY_CROSS_SIGN_DOMAIN_BYTES = ascii ''p2party-x25519-idsig-v1''"

definition identityCrossSignMessage :: "bytes \<Rightarrow> bytes" where
  "identityCrossSignMessage pub =
     (let msg = zeros (length IDENTITY_CROSS_SIGN_DOMAIN_BYTES + length pub);
          msg = set_at msg 0 IDENTITY_CROSS_SIGN_DOMAIN_BYTES
      in set_at msg (length IDENTITY_CROSS_SIGN_DOMAIN_BYTES) pub)"

definition verifyIdentityCrossSig :: "'r hs_env \<Rightarrow> bytes \<Rightarrow> bytes \<Rightarrow> bytes \<Rightarrow> bool" where
  "verifyIdentityCrossSig env pub sig ed = hs_verify env (identityCrossSignMessage pub) sig ed"

definition THREE_DH_INFO :: bytes where "THREE_DH_INFO = ascii ''p2party-interactive-3dh-v2''"
definition THREE_DH_SALT :: bytes where "THREE_DH_SALT = zeros 64"

definition deriveInteractive3dhSecret :: "'r libcrypto \<Rightarrow> bytes \<Rightarrow> bytes \<Rightarrow> bytes \<Rightarrow> bytes \<Rightarrow> bool \<Rightarrow> ratchet_error + bytes" where
  "deriveInteractive3dhSecret module idSelfSec idPeerPub ephSelfSec ephPeerPub amInitiator =
     rbind (x25519Dh module ephSelfSec ephPeerPub) (\<lambda>dh3.
     rbind (if amInitiator then x25519Dh module idSelfSec ephPeerPub else x25519Dh module ephSelfSec idPeerPub) (\<lambda>dh1.
     rbind (if amInitiator then x25519Dh module ephSelfSec idPeerPub else x25519Dh module idSelfSec ephPeerPub) (\<lambda>dh2.
     let ikm = zeros 96;
         ikm = set_at ikm 0 dh1;
         ikm = set_at ikm 32 dh2;
         ikm = set_at ikm 64 dh3
     in rbind (hkdfExtract module THREE_DH_SALT ikm) (\<lambda>prk. hkdfExpand module prk THREE_DH_INFO 32))))"

section \<open>Deriving the root\<close>

record hs_params =
  hp_mode :: hs_mode
  hp_pqMode :: string
  hp_pin :: "bytes option"
  hp_channelInput :: bytes
  hp_idSelfSec :: bytes
  hp_selfIdPub :: bytes
  hp_selfSig :: bytes
  hp_peerEd :: bytes

definition startCpace :: "'r hs_env \<Rightarrow> hs_params \<Rightarrow> bytes \<Rightarrow> bytes \<Rightarrow> hs_error + (bytes \<times> bytes) option" where
  "startCpace env p y sidForG =
     (if hp_mode p \<noteq> Pin then Inr None
      else case hp_pin p of
        None \<Rightarrow> Inl PinRequired
      | Some pin \<Rightarrow>
          rbind (lift_pake (deriveGenerator (hs_group env) pin sidForG (hp_channelInput p))) (\<lambda>g.
          rbind (lift_pake (cpaceStart (hs_group env) y g)) (\<lambda>started. Inr (Some started))))"

definition checkHelloFields :: "bool \<Rightarrow> hello \<Rightarrow> hs_error + unit" where
  "checkHelloFields amInitiator peer =
     (if amInitiator then
        rbind (ensure (allZero (h_pk peer)) ResponderKeyNotZero) (\<lambda>_.
        ensure (\<not> allZero (h_ct peer)) ResponderCiphertextMissing)
      else
        rbind (ensure (\<not> allZero (h_pk peer)) InitiatorKeyMissing) (\<lambda>_.
        ensure (allZero (h_ct peer)) InitiatorCiphertextNotZero))"

text \<open>The ordered HELLO flights of initiator and responder, with the secrets derived over them.\<close>

record hs_keys =
  k_I :: hello
  k_R :: hello
  k_secret :: bytes
  k_binding :: bytes
  k_root :: bytes

definition pake_secret :: "'r hs_env \<Rightarrow> hs_params \<Rightarrow> hello \<Rightarrow> hello \<Rightarrow> hello \<Rightarrow> bytes option \<Rightarrow> hs_error + bytes list" where
  "pake_secret env p hI hR peer scalar =
     (if hp_mode p = Pin then
        (case scalar of
           None \<Rightarrow> Inl ScalarUnavailable
         | Some y \<Rightarrow>
             rbind (lift_pake (cpaceFinish (hs_group env) y (h_y peer) (h_sid hI) (h_y hI) (h_y hR) [] [])) (\<lambda>isk. Inr [isk]))
      else Inr [])"

definition hybrid_secret :: "'r hs_env \<Rightarrow> hs_params \<Rightarrow> hello_layout \<Rightarrow> hello \<Rightarrow> hello \<Rightarrow> bytes list \<Rightarrow> bytes \<Rightarrow> bytes \<Rightarrow> hs_error + bytes" where
  "hybrid_secret env p layout hI hR pake identitySecret shared =
     rbind (lift_ratchet (hkdfExtract (hs_module env) HS_HYBRID_KDF_SALT (concatUint8Arrays (pake @ [identitySecret, shared])))) (\<lambda>prk.
     lift_ratchet (hkdfExpand (hs_module env) prk
       (concatUint8Arrays [hybridKdfDomain (hp_mode p) (parameterSet (hl_suite layout)), hp_channelInput p,
          h_idPub hI, h_sig hI, h_idPub hR, h_sig hR, h_pk hI, h_ct hR]) 32))"

definition healing_binding :: "'r hs_env \<Rightarrow> hs_params \<Rightarrow> hello \<Rightarrow> hello \<Rightarrow> bytes" where
  "healing_binding env p hI hR =
     hs_sha256 env (concatUint8Arrays [PQ_HEALING_BINDING_DOMAIN, hp_channelInput p, h_sid hI, h_sid hR, h_ek hI, h_ek hR,
       h_idPub hI, h_sig hI, h_idPub hR, h_sig hR, h_pk hI, h_ct hR])"

definition healing_root :: "'r hs_env \<Rightarrow> bytes \<Rightarrow> bytes \<Rightarrow> hs_error + bytes" where
  "healing_root env secret binding =
     rbind (lift_ratchet (hkdfExtract (hs_module env) PQ_HEALING_ROOT_SALT secret)) (\<lambda>prk.
     lift_ratchet (hkdfExpand (hs_module env) prk (concatUint8Arrays [PQ_HEALING_ROOT_INFO, binding]) 32))"

definition deriveKeys :: "'r hs_env \<Rightarrow> hs_params \<Rightarrow> hello_layout \<Rightarrow> bool \<Rightarrow> hello \<Rightarrow> hello \<Rightarrow> bytes \<Rightarrow> bytes option \<Rightarrow> bytes \<Rightarrow> hs_error + hs_keys" where
  "deriveKeys env p layout amInitiator self peer ekSec scalar shared =
     (let hI = (if amInitiator then self else peer); hR = (if amInitiator then peer else self)
      in rbind (lift_ratchet (deriveInteractive3dhSecret (hs_module env) (hp_idSelfSec p) (h_idPub peer) ekSec (h_ek peer) amInitiator))
           (\<lambda>identitySecret.
         rbind (pake_secret env p hI hR peer scalar) (\<lambda>pake.
         rbind (hybrid_secret env p layout hI hR pake identitySecret shared) (\<lambda>secret.
         rbind (healing_root env secret (healing_binding env p hI hR)) (\<lambda>root.
         Inr \<lparr>k_I = hI, k_R = hR, k_secret = secret, k_binding = healing_binding env p hI hR, k_root = root\<rparr>)))))"

definition buildConfirmationInput :: "hs_params \<Rightarrow> hs_keys \<Rightarrow> bytes \<Rightarrow> bytes \<Rightarrow> bytes option \<Rightarrow> bytes list \<Rightarrow> bytes" where
  "buildConfirmationInput p k roleDomain pubR pubI priorProofs =
     concatUint8Arrays ([HS_KC_DOMAIN, roleDomain, h_sid (k_I k), h_sid (k_R k), h_ek (k_I k), h_ek (k_R k), h_y (k_I k), h_y (k_R k),
       h_idPub (k_I k), h_sig (k_I k), h_idPub (k_R k), h_sig (k_R k), h_pk (k_I k), h_ct (k_I k), h_pk (k_R k), h_ct (k_R k), pubR] @
       (case pubI of None \<Rightarrow> [] | Some d \<Rightarrow> [d]) @ priorProofs @ [hp_channelInput p])"

record hs_result =
  r_state :: ratchet_state
  r_secret :: bytes
  r_pqRoot :: bytes
  r_pqBinding :: bytes
  r_nextOfferer :: turn

definition hs_established :: "hs_keys \<Rightarrow> bool \<Rightarrow> ratchet_state \<Rightarrow> hs_result" where
  "hs_established k amInitiator state =
     \<lparr>r_state = state, r_secret = k_secret k, r_pqRoot = k_root k, r_pqBinding = k_binding k,
      r_nextOfferer = (if amInitiator then Local else Remote)\<rparr>"

section \<open>The initiator\<close>

record init_state =
  is_layout :: hello_layout
  is_rootSuite :: string
  is_self :: hello
  is_ekSec :: bytes
  is_scalar :: "bytes option"
  is_kem :: mlkem_keypair

definition hs_setup :: "'r hs_env \<Rightarrow> hs_params \<Rightarrow> 'r \<Rightarrow> (hs_error + hello_layout \<times> string \<times> bytes \<times> bytes) \<times> 'r" where
  "hs_setup env p rng =
     (case rbind (helloLayout (hp_pqMode p)) (\<lambda>layout.
             case roomPqModeToRootSuite (hp_pqMode p) of Inl e \<Rightarrow> Inl (UnsupportedSuiteMode e) | Inr s \<Rightarrow> Inr (layout, s)) of
        Inl e \<Rightarrow> (Inl e, rng)
      | Inr (layout, suite) \<Rightarrow>
          (case x25519Keypair (hs_module env) rng of
             (Inl e, rng') \<Rightarrow> (Inl (HsRatchet e), rng')
           | (Inr (ekPub, ekSec), rng') \<Rightarrow> (Inr (layout, suite, ekPub, ekSec), rng')))"

text \<open>From the start to the wait for the responder's HELLO.\<close>

definition initiator_start :: "'r hs_env \<Rightarrow> hs_params \<Rightarrow> bytes \<Rightarrow> bytes \<Rightarrow> bytes \<Rightarrow> 'r \<Rightarrow> (hs_error + bytes \<times> init_state) \<times> 'r" where
  "initiator_start env p sid coins y rng =
     (case hs_setup env p rng of
        (Inl e, rng') \<Rightarrow> (Inl e, rng')
      | (Inr (layout, suite, ekPub, ekSec), rng') \<Rightarrow>
          (rbind (lift_kem (hs_keypair env coins)) (\<lambda>kp.
           rbind (put (zeros (publicKeyBytes (hl_suite layout))) 0 (kp_publicKey kp)) (\<lambda>pk.
           rbind (startCpace env p y sid) (\<lambda>started.
           let self = \<lparr>h_sid = sid, h_ek = ekPub, h_y = (case started of None \<Rightarrow> zeros Y_LEN | Some (_, Y) \<Rightarrow> Y),
                       h_idPub = hp_selfIdPub p, h_sig = hp_selfSig p, h_pk = pk,
                       h_ct = zeros (ciphertextBytes (hl_suite layout))\<rparr>
           in rbind (packHello layout self) (\<lambda>frame.
              Inr (frame, \<lparr>is_layout = layout, is_rootSuite = suite, is_self = self, is_ekSec = ekSec,
                           is_scalar = map_option fst started, is_kem = kp\<rparr>))))), rng'))"

text \<open>On the responder's HELLO.\<close>

definition initiator_hello :: "'r hs_env \<Rightarrow> hs_params \<Rightarrow> init_state \<Rightarrow> bytes \<Rightarrow> hs_error + hs_keys" where
  "initiator_hello env p st peerHello =
     rbind (parseHello (is_layout st) peerHello) (\<lambda>peer.
     rbind (checkHelloFields True peer) (\<lambda>_.
     rbind (ensure (verifyIdentityCrossSig env (h_idPub peer) (h_sig peer) (hp_peerEd p)) CrossSignatureInvalid) (\<lambda>_.
     rbind (lift_kem (hs_decaps env (h_ct peer) (kp_secretKey (is_kem st)))) (\<lambda>shared.
     deriveKeys env p (is_layout st) True (is_self st) peer (is_ekSec st) (is_scalar st) shared))))"

definition parseConfirm :: "bytes \<Rightarrow> hs_error + bytes \<times> bytes" where
  "parseConfirm c =
     rbind (ensure (\<not> (length c \<noteq> CONFIRM_LEN \<or> c ! 0 \<noteq> HS_STEP_CONFIRM)) MalformedConfirm) (\<lambda>_.
     Inr (sub c 1 (1 + DH_LEN), sub c (1 + DH_LEN) (1 + DH_LEN + MAC_LEN)))"

record init_confirmed =
  ic_ratchet :: ratchet_state
  ic_pubR :: bytes
  ic_macR :: bytes
  ic_macI :: bytes

text \<open>On the responder's CONFIRM: the own proof is sent before the received one is checked.\<close>

definition initiator_confirm ::
    "'r hs_env \<Rightarrow> hs_params \<Rightarrow> string \<Rightarrow> hs_keys \<Rightarrow> bytes \<Rightarrow> 'r \<Rightarrow> bytes list \<times> (hs_error + init_confirmed) \<times> 'r" where
  "initiator_confirm env p suite k peerConfirm rng =
     (case parseConfirm peerConfirm of
        Inl e \<Rightarrow> ([], Inl e, rng)
      | Inr (pubR, macR) \<Rightarrow>
          (case initRatchet (k_secret k) True (Some pubR) (hs_module env) suite rng of
             (Inl e, rng') \<Rightarrow> ([], Inl (HsRatchet e), rng')
           | (Inr state, rng') \<Rightarrow>
               (case rbind (hmacSha512 env (k_secret k)
                              (buildConfirmationInput p k HS_KC_INITIATOR_DOMAIN pubR (Some (dhSelfPub state)) [macR])) (\<lambda>macI.
                       rbind (packConfirm (dhSelfPub state) macI) (\<lambda>frame. Inr (macI, frame))) of
                  Inl e \<Rightarrow> ([], Inl e, rng')
                | Inr (macI, frame) \<Rightarrow>
                    ([frame],
                     rbind (hmacSha512 env (k_secret k) (buildConfirmationInput p k HS_KC_RESPONDER_DOMAIN pubR None [])) (\<lambda>expectR.
                     rbind (ensure (uint8ArraysAreEqual macR expectR) KeyConfirmationFailed) (\<lambda>_.
                     Inr \<lparr>ic_ratchet = state, ic_pubR = pubR, ic_macR = macR, ic_macI = macI\<rparr>)), rng'))))"

text \<open>On the responder's FINISH.\<close>

definition initiator_finish :: "'r hs_env \<Rightarrow> hs_params \<Rightarrow> hs_keys \<Rightarrow> init_confirmed \<Rightarrow> bytes \<Rightarrow> hs_error + hs_result" where
  "initiator_finish env p k ic peerFinish =
     rbind (ensure (\<not> (length peerFinish \<noteq> FINISH_LEN \<or> peerFinish ! 0 \<noteq> HS_STEP_FINISH)) MalformedFinish) (\<lambda>_.
     rbind (hmacSha512 env (k_secret k)
              (buildConfirmationInput p k HS_KC_RESPONDER_FINISH_DOMAIN (ic_pubR ic) (Some (dhSelfPub (ic_ratchet ic))) [ic_macR ic, ic_macI ic]))
       (\<lambda>expectFinish.
     rbind (ensure (uint8ArraysAreEqual (sub peerFinish 1 (1 + MAC_LEN)) expectFinish) FinalConfirmationFailed) (\<lambda>_.
     Inr (hs_established k True (ic_ratchet ic)))))"

section \<open>The responder\<close>

record resp_state =
  rs_keys :: hs_keys
  rs_ratchet :: ratchet_state
  rs_macR :: bytes

text \<open>The answer to the initiator's HELLO: its checks, the encapsulation and the own HELLO.\<close>

definition responder_reply ::
    "'r hs_env \<Rightarrow> hs_params \<Rightarrow> hello_layout \<Rightarrow> bytes \<Rightarrow> bytes \<Rightarrow> bytes \<Rightarrow> bytes \<Rightarrow> bytes \<Rightarrow>
     hs_error + hello \<times> hello \<times> bytes \<times> bytes option \<times> bytes" where
  "responder_reply env p layout ekPub sid coins y peerHello =
     rbind (parseHello layout peerHello) (\<lambda>peer.
     rbind (checkHelloFields False peer) (\<lambda>_.
     rbind (ensure (verifyIdentityCrossSig env (h_idPub peer) (h_sig peer) (hp_peerEd p)) CrossSignatureInvalid) (\<lambda>_.
     rbind (lift_kem (hs_encaps env (h_pk peer) coins)) (\<lambda>(ct, shared).
     rbind (put (zeros (ciphertextBytes (hl_suite layout))) 0 ct) (\<lambda>ctSelf.
     rbind (startCpace env p y (h_sid peer)) (\<lambda>started.
     let self = \<lparr>h_sid = sid, h_ek = ekPub, h_y = (case started of None \<Rightarrow> zeros Y_LEN | Some (_, Y) \<Rightarrow> Y),
                 h_idPub = hp_selfIdPub p, h_sig = hp_selfSig p,
                 h_pk = zeros (publicKeyBytes (hl_suite layout)), h_ct = ctSelf\<rparr>
     in rbind (packHello layout self) (\<lambda>frame. Inr (peer, self, shared, map_option fst started, frame))))))))"

text \<open>The responder's ratchet and its proof.\<close>

definition responder_prove :: "'r hs_env \<Rightarrow> hs_params \<Rightarrow> string \<Rightarrow> hs_keys \<Rightarrow> 'r \<Rightarrow> (hs_error + bytes \<times> resp_state) \<times> 'r" where
  "responder_prove env p suite k rng =
     (case initRatchet (k_secret k) False None (hs_module env) suite rng of
        (Inl e, rng') \<Rightarrow> (Inl (HsRatchet e), rng')
      | (Inr state, rng') \<Rightarrow>
          (rbind (hmacSha512 env (k_secret k) (buildConfirmationInput p k HS_KC_RESPONDER_DOMAIN (dhSelfPub state) None [])) (\<lambda>macR.
           rbind (packConfirm (dhSelfPub state) macR) (\<lambda>confirm.
           Inr (confirm, \<lparr>rs_keys = k, rs_ratchet = state, rs_macR = macR\<rparr>))), rng'))"

text \<open>From the start, with the initiator's HELLO, to the wait for its CONFIRM.\<close>

definition responder_hello ::
    "'r hs_env \<Rightarrow> hs_params \<Rightarrow> bytes \<Rightarrow> bytes \<Rightarrow> bytes \<Rightarrow> bytes \<Rightarrow> 'r \<Rightarrow> bytes list \<times> (hs_error + resp_state) \<times> 'r" where
  "responder_hello env p sid coins y peerHello rng =
     (case hs_setup env p rng of
        (Inl e, rng') \<Rightarrow> ([], Inl e, rng')
      | (Inr (layout, suite, ekPub, ekSec), rng') \<Rightarrow>
          (case responder_reply env p layout ekPub sid coins y peerHello of
             Inl e \<Rightarrow> ([], Inl e, rng')
           | Inr (peer, self, shared, scalar, frame) \<Rightarrow>
               (case deriveKeys env p layout False self peer ekSec scalar shared of
                  Inl e \<Rightarrow> ([frame], Inl e, rng')
                | Inr k \<Rightarrow>
                    (case responder_prove env p suite k rng' of
                       (Inl e, rng'') \<Rightarrow> ([frame], Inl e, rng'')
                     | (Inr (confirm, st), rng'') \<Rightarrow> ([frame, confirm], Inr st, rng'')))))"

text \<open>On the initiator's CONFIRM.\<close>

definition responder_confirm ::
    "'r hs_env \<Rightarrow> hs_params \<Rightarrow> resp_state \<Rightarrow> bytes \<Rightarrow> 'r \<Rightarrow> bytes list \<times> (hs_error + hs_result) \<times> 'r" where
  "responder_confirm env p st peerConfirm rng =
     (let k = rs_keys st; pubR = dhSelfPub (rs_ratchet st)
      in case rbind (parseConfirm peerConfirm) (\<lambda>(pubI, macI).
              rbind (hmacSha512 env (k_secret k) (buildConfirmationInput p k HS_KC_INITIATOR_DOMAIN pubR (Some pubI) [rs_macR st])) (\<lambda>expectI.
              rbind (ensure (uint8ArraysAreEqual macI expectI) KeyConfirmationFailed) (\<lambda>_. Inr (pubI, macI)))) of
           Inl e \<Rightarrow> ([], Inl e, rng)
         | Inr (pubI, macI) \<Rightarrow>
             (case primeResponderRatchet (rs_ratchet st) pubI (hs_module env) rng of
                (Inl e, _, rng') \<Rightarrow> ([], Inl (HsRatchet e), rng')
              | (Inr _, state, rng') \<Rightarrow>
                  (case rbind (hmacSha512 env (k_secret k)
                                 (buildConfirmationInput p k HS_KC_RESPONDER_FINISH_DOMAIN pubR (Some pubI) [rs_macR st, macI])) packFinish of
                     Inl e \<Rightarrow> ([], Inl e, rng')
                   | Inr frame \<Rightarrow> ([frame], Inr (hs_established k False state), rng'))))"

end
