(* ===== verification/Handshake_Props.thy ===== *)
theory Handshake_Props
  imports Handshake Ratchet_Props
begin

text \<open>
  The handshake succeeds and agrees between honest peers, ending in a bootstrapped ratchet edge; and an
  initiator that accepts the responder's final proof agrees with it on the whole transcript, unless
  the message authentication code collides.
\<close>

section \<open>Frames\<close>

definition hello_ok :: "mlkem_suite \<Rightarrow> hello \<Rightarrow> bool" where
  "hello_ok suite h \<longleftrightarrow> length (h_sid h) = 32 \<and> length (h_ek h) = 32 \<and> length (h_y h) = 32 \<and> length (h_idPub h) = 32 \<and>
     length (h_sig h) = 64 \<and> length (h_pk h) = publicKeyBytes suite \<and> length (h_ct h) = ciphertextBytes suite"

definition hello_bytes :: "hello \<Rightarrow> bytes" where
  "hello_bytes h = [1] @ h_sid h @ h_ek h @ h_y h @ h_idPub h @ h_sig h @ h_pk h @ h_ct h"

definition layout_of :: "mlkem_suite \<Rightarrow> hello_layout" where
  "layout_of suite = \<lparr>hl_suite = suite, hl_publicKeyOffset = 193, hl_ciphertextOffset = 193 + publicKeyBytes suite,
     hl_length = 193 + publicKeyBytes suite + ciphertextBytes suite\<rparr>"

lemma hs_offsets [simp]:
  "HELLO_SID_OFF = 1" "HELLO_EK_OFF = 33" "HELLO_Y_OFF = 65" "HELLO_X25519_ID_PUB_OFF = 97" "HELLO_IDENTITY_SIG_OFF = 129"
  "HELLO_ML_KEM_PUBLIC_KEY_OFF = 193" "CONFIRM_LEN = 97" "FINISH_LEN = 65" "DH_LEN = 32" "MAC_LEN = 64" "SID_LEN = 32" "EK_LEN = 32"
  "Y_LEN = 32" "X25519_ID_PUB_LEN = 32" "IDENTITY_SIG_LEN = 64" "HS_STEP_HELLO = 1" "HS_STEP_CONFIRM = 2" "HS_STEP_FINISH = 3"
  by (simp_all add: const_defs)

lemma past_tag: "set_at (x # buf) (193 + k) xs = x # set_at buf (192 + k) xs" "drop (193 + k) (x # buf) = drop (192 + k) buf"
  using drop_Suc_Cons [of "192 + k" x buf] by (simp_all add: set_at_def Suc_diff_le add.commute eval_nat_numeral)

lemma packHello_ok: "hello_ok suite h \<Longrightarrow> packHello (layout_of suite) h = Inr (hello_bytes h)"
  by (simp add: packHello_def put_def layout_of_def hello_ok_def hello_bytes_def wire_simps past_tag)

lemma hello_fields:
  assumes "hello_ok suite h"
  shows "sub (hello_bytes h) 1 33 = h_sid h" "sub (hello_bytes h) 33 65 = h_ek h" "sub (hello_bytes h) 65 97 = h_y h"
    "sub (hello_bytes h) 97 129 = h_idPub h" "sub (hello_bytes h) 129 193 = h_sig h"
    "sub (hello_bytes h) 193 (193 + publicKeyBytes suite) = h_pk h"
    "sub (hello_bytes h) (193 + publicKeyBytes suite) (193 + publicKeyBytes suite + ciphertextBytes suite) = h_ct h"
    "length (hello_bytes h) = 193 + publicKeyBytes suite + ciphertextBytes suite" "hello_bytes h ! 0 = 1"
  using assms by (simp_all add: hello_ok_def hello_bytes_def sub_def past_tag)

lemma parseHello_bytes:
  assumes "hello_ok suite h"
  shows "parseHello (layout_of suite) (hello_bytes h) = Inr h"
proof -
  note f = hello_fields [OF assms]
  have "sub (hello_bytes h) (Suc 0) 33 = h_sid h" using f(1) by simp
  then show ?thesis using f by (cases h) (simp add: parseHello_def layout_of_def)
qed

lemma parseHello_ok: "parseHello (layout_of suite) b = Inr h \<Longrightarrow> hello_ok suite h"
  by (auto simp: parseHello_def layout_of_def hello_ok_def result_simps)

lemma confirm_frame:
  assumes "length pub = 32" "length mac = 64"
  shows "packConfirm pub mac = Inr ([2] @ pub @ mac)" "parseConfirm ([2] @ pub @ mac) = Inr (pub, mac)"
  using assms by (simp_all add: packConfirm_def parseConfirm_def put_def wire_simps sub_def)

lemma parseConfirm_lengths: "parseConfirm c = Inr (pub, mac) \<Longrightarrow> length pub = 32 \<and> length mac = 64"
  by (auto simp: parseConfirm_def result_simps)

lemma finish_frame: "length mac = 64 \<Longrightarrow> packFinish mac = Inr ([3] @ mac)"
  by (simp add: packFinish_def put_def wire_simps)

lemma allZero_iff: "allZero bs \<longleftrightarrow> bs = zeros (length bs)"
  by (simp add: allZero_def or_all_zero_iff)

lemma layout_cases:
  "helloLayout mode = Inr l \<Longrightarrow> \<exists>suite. l = layout_of suite"
  by (auto simp: helloLayout_def layout_of_def split: sum.splits)

section \<open>Both sides derive one root\<close>

definition kem_works :: "'r hs_env \<Rightarrow> mlkem_suite \<Rightarrow> bool" where
  "kem_works env suite \<longleftrightarrow>
     (\<forall>coins. \<exists>kp. hs_keypair env coins = Some kp \<and> length (kp_publicKey kp) = publicKeyBytes suite \<and> \<not> allZero (kp_publicKey kp)) \<and>
     (\<forall>coins coins' kp. hs_keypair env coins = Some kp \<longrightarrow>
        (\<exists>ct ss. hs_encaps env (kp_publicKey kp) coins' = Some (ct, ss) \<and> length ct = ciphertextBytes suite \<and> \<not> allZero ct \<and>
           hs_decaps env ct (kp_secretKey kp) = Some ss))"

definition group_works :: "cpace_group \<Rightarrow> bool" where
  "group_works G \<longleftrightarrow>
     (\<forall>w. sha512_bytes G w \<noteq> None) \<and> (\<forall>h. length (from_hash G h) = 32) \<and>
     (\<forall>y h. length y = 32 \<longrightarrow> (\<exists>Y. scalarmult G y (from_hash G h) = Some Y \<and> length Y = 32)) \<and>
     (\<forall>a b h A B. length a = 32 \<longrightarrow> length b = 32 \<longrightarrow> scalarmult G a (from_hash G h) = Some A \<longrightarrow> scalarmult G b (from_hash G h) = Some B \<longrightarrow>
        (\<exists>K. scalarmult G a B = Some K \<and> scalarmult G b A = Some K \<and> is_safe_integer (int (length K))))"

lemma dh3_agrees:
  assumes c: "module_contract m pub_of" and "length idI = 32" "length idR = 32" "length ekI = 32" "length ekR = 32"
  shows "\<exists>s. deriveInteractive3dhSecret m idI (pub_of idR) ekI (pub_of ekR) True = Inr s \<and>
    deriveInteractive3dhSecret m idR (pub_of idI) ekR (pub_of ekI) False = Inr s"
proof -
  have dh: "\<exists>z. x25519Dh m a (pub_of b) = Inr z \<and> x25519Dh m b (pub_of a) = Inr z" if "length a = 32" "length b = 32" for a b
  proof -
    obtain z where "x25519_dh m a (pub_of b) = Some z" "x25519_dh m b (pub_of a) = Some z"
      using c unfolding module_contract_def by blast
    moreover have "length (pub_of x) = 32" for x using c by (simp add: module_contract_def)
    ultimately show ?thesis using that by (simp add: x25519Dh_def)
  qed
  obtain z1 where z1: "x25519Dh m idI (pub_of ekR) = Inr z1" "x25519Dh m ekR (pub_of idI) = Inr z1" using dh assms by blast
  obtain z2 where z2: "x25519Dh m ekI (pub_of idR) = Inr z2" "x25519Dh m idR (pub_of ekI) = Inr z2" using dh assms by blast
  obtain z3 where z3: "x25519Dh m ekI (pub_of ekR) = Inr z3" "x25519Dh m ekR (pub_of ekI) = Inr z3" using dh assms by blast
  obtain prk where prk: "hkdf_sha512_extract m THREE_DH_SALT (set_at (set_at (set_at (zeros 96) 0 z1) 32 z2) 64 z3) = Some prk" "length prk = 64"
    using c unfolding module_contract_def by blast
  obtain s where "hkdf_sha512_expand m 32 prk THREE_DH_INFO = Some s" using c unfolding module_contract_def by blast
  then show ?thesis using z1 z2 z3 prk
    by (simp add: deriveInteractive3dhSecret_def hkdfExtract_def hkdfExpand_def Let_def)
qed

lemma hkdf_32:
  assumes "module_contract m pub_of"
  shows "\<exists>okm. rbind (lift_ratchet (hkdfExtract m salt ikm)) (\<lambda>prk. lift_ratchet (hkdfExpand m prk info 32)) = Inr okm"
proof -
  obtain prk where prk: "hkdf_sha512_extract m salt ikm = Some prk" "length prk = 64" using assms unfolding module_contract_def by blast
  obtain okm where "hkdf_sha512_expand m 32 prk info = Some okm" using assms unfolding module_contract_def by blast
  then show ?thesis using prk by (simp add: hkdfExtract_def hkdfExpand_def lift_ratchet_def)
qed

lemma lv_cat_total: "list_all (\<lambda>p. is_safe_integer (int (length p))) ps \<Longrightarrow> \<exists>w. lv_cat ps = Inr w"
  by (induction ps) (auto simp: lv_field_def encodeCpaceLength_def)

lemma sha512Lv_total:
  assumes "group_works G" "list_all (\<lambda>p. is_safe_integer (int (length p))) ps"
  shows "\<exists>h. sha512LvConcat G ps = Inr h"
proof -
  obtain w where w: "lv_cat ps = Inr w" using lv_cat_total [OF assms(2)] by blast
  obtain h where "sha512_bytes G w = Some h" using assms(1) unfolding group_works_def by blast
  then show ?thesis using w by (simp add: sha512LvConcat_def)
qed

lemma safe_small: "n \<le> 2 ^ 20 \<Longrightarrow> is_safe_integer (int n)"
  by (simp add: is_safe_integer_def MAX_SAFE_INTEGER_def)

lemma cpace_agrees:
  assumes G: "group_works G" and y: "length yI = 32" "length yR = 32"
    and safe: "is_safe_integer (int (length pin))" "is_safe_integer (int (length ci))" "length sid = 32"
  shows "\<exists>g YI YR isk. deriveGenerator G pin sid ci = Inr g \<and> cpaceStart G yI g = Inr (yI, YI) \<and> cpaceStart G yR g = Inr (yR, YR) \<and>
    length YI = 32 \<and> length YR = 32 \<and> cpaceFinish G yI YR sid YI YR [] [] = Inr isk \<and> cpaceFinish G yR YI sid YI YR [] [] = Inr isk"
proof -
  have dsi: "is_safe_integer (int (length CPACE_DSI_BYTES))" "is_safe_integer (int (length CPACE_ISK_DSI_BYTES))"
    by (rule safe_small, simp add: CPACE_DSI_BYTES_def CPACE_ISK_DSI_BYTES_def ascii_def)+
  let ?z = "nat (max 0 (SHA512_INPUT_BLOCK_BYTES - 1 - (int (length (leb128 (length CPACE_DSI_BYTES))) + int (length CPACE_DSI_BYTES)) -
    (int (length (leb128 (length pin))) + int (length pin))))"
  have "?z \<le> 2 ^ 20" by (simp add: SHA512_INPUT_BLOCK_BYTES_def)
  then have z: "is_safe_integer (int ?z)" by (rule safe_small)
  have small: "is_safe_integer 32" "is_safe_integer 0" using safe_small [of 32] safe_small [of 0] by simp_all
  obtain h where h: "sha512LvConcat G [CPACE_DSI_BYTES, pin, zeros ?z, ci, sid] = Inr h"
  proof -
    have "list_all (\<lambda>p. is_safe_integer (int (length p))) [CPACE_DSI_BYTES, pin, zeros ?z, ci, sid]"
      using dsi(1) safe z small(1) by (simp only: list.pred_inject length_zeros of_nat_numeral simp_thms)
    then show ?thesis using sha512Lv_total [OF G] that by blast
  qed
  let ?g = "from_hash G h"
  have g: "deriveGenerator G pin sid ci = Inr ?g" "length ?g = 32"
    using h dsi safe G by (simp_all add: deriveGenerator_def encodeCpaceLength_def Let_def group_works_def)
  have sm: "\<exists>Y. scalarmult G y ?g = Some Y \<and> length Y = 32" if "length y = 32" for y
    using G that unfolding group_works_def by blast
  obtain YI YR where Y: "scalarmult G yI ?g = Some YI" "length YI = 32" "scalarmult G yR ?g = Some YR" "length YR = 32"
    using sm [OF y(1)] sm [OF y(2)] by blast
  have "\<forall>a b h A B. length a = 32 \<longrightarrow> length b = 32 \<longrightarrow> scalarmult G a (from_hash G h) = Some A \<longrightarrow> scalarmult G b (from_hash G h) = Some B \<longrightarrow>
        (\<exists>K. scalarmult G a B = Some K \<and> scalarmult G b A = Some K \<and> is_safe_integer (int (length K)))"
    using G unfolding group_works_def by blast
  then obtain K where K: "scalarmult G yI YR = Some K" "scalarmult G yR YI = Some K" "is_safe_integer (int (length K))"
    using y Y(1,3) by blast
  obtain isk where "sha512LvConcat G [CPACE_ISK_DSI_BYTES, sid, K, YI, [], YR, []] = Inr isk"
    using sha512Lv_total [OF G, of "[CPACE_ISK_DSI_BYTES, sid, K, YI, [], YR, []]"] dsi safe(3) K(3) Y small by auto
  then show ?thesis using g Y K y
    by (intro exI [of _ ?g] exI [of _ YI] exI [of _ YR] exI [of _ isk]) (simp add: cpaceStart_def cpaceFinish_def assertLength_def)
qed

lemma keys_agree:
  assumes c: "module_contract (hs_module env) pub_of"
    and id: "length (hp_idSelfSec pI) = 32" "length (hp_idSelfSec pR) = 32" "length ekI = 32" "length ekR = 32"
      "h_idPub hI = pub_of (hp_idSelfSec pI)" "h_idPub hR = pub_of (hp_idSelfSec pR)" "h_ek hI = pub_of ekI" "h_ek hR = pub_of ekR"
    and eq: "hp_mode pR = hp_mode pI" "hp_channelInput pR = hp_channelInput pI"
    and pake: "pake_secret env pI hI hR hR sI = Inr pk" "pake_secret env pR hI hR hI sR = Inr pk"
  shows "\<exists>k. deriveKeys env pI l True hI hR ekI sI ss = Inr k \<and> deriveKeys env pR l False hR hI ekR sR ss = Inr k \<and> k_I k = hI \<and> k_R k = hR"
proof -
  obtain s where s: "deriveInteractive3dhSecret (hs_module env) (hp_idSelfSec pI) (h_idPub hR) ekI (h_ek hR) True = Inr s"
      "deriveInteractive3dhSecret (hs_module env) (hp_idSelfSec pR) (h_idPub hI) ekR (h_ek hI) False = Inr s"
    using dh3_agrees [OF c id(1-4)] id by auto
  have b: "healing_binding env pR hI hR = healing_binding env pI hI hR" by (simp add: healing_binding_def eq)
  have hy: "hybrid_secret env pR l hI hR pk s ss = hybrid_secret env pI l hI hR pk s ss" by (simp add: hybrid_secret_def eq)
  obtain x where x: "hybrid_secret env pI l hI hR pk s ss = Inr x" using hkdf_32 [OF c] unfolding hybrid_secret_def by blast
  obtain r where "healing_root env x (healing_binding env pI hI hR) = Inr r" using hkdf_32 [OF c] unfolding healing_root_def by blast
  then show ?thesis using s pake x b hy by (simp add: deriveKeys_def lift_ratchet_def)
qed

section \<open>Honest runs\<close>

definition handshake_run ::
    "'r hs_env \<Rightarrow> hs_params \<Rightarrow> hs_params \<Rightarrow> bytes \<Rightarrow> bytes \<Rightarrow> bytes \<Rightarrow> bytes \<Rightarrow> bytes \<Rightarrow> bytes \<Rightarrow> 'r \<Rightarrow> (hs_error + hs_result \<times> hs_result) \<times> 'r" where
  "handshake_run env pI pR sidI sidR coinsI coinsR yI yR r0 =
     (case initiator_start env pI sidI coinsI yI r0 of
        (Inl e, r1) \<Rightarrow> (Inl e, r1)
      | (Inr (hello1, st), r1) \<Rightarrow>
          (case responder_hello env pR sidR coinsR yR hello1 r1 of
             ([hello2, confirm1], Inr rs, r2) \<Rightarrow>
               (case initiator_hello env pI st hello2 of
                  Inl e \<Rightarrow> (Inl e, r2)
                | Inr k \<Rightarrow>
                    (case initiator_confirm env pI (is_rootSuite st) k confirm1 r2 of
                       ([confirm2], Inr ic, r3) \<Rightarrow>
                         (case responder_confirm env pR rs confirm2 r3 of
                            ([finish], Inr resR, r4) \<Rightarrow> (rbind (initiator_finish env pI k ic finish) (\<lambda>resI. Inr (resI, resR)), r4)
                          | (_, r, r4) \<Rightarrow> (rbind r (\<lambda>_. Inl MalformedFinish), r4))
                     | (_, r, r3) \<Rightarrow> (rbind r (\<lambda>_. Inl MalformedConfirm), r3)))
           | (_, r, r2) \<Rightarrow> (rbind r (\<lambda>_. Inl MalformedHello), r2)))"

definition honest :: "'r hs_env \<Rightarrow> (bytes \<Rightarrow> bytes) \<Rightarrow> hs_params \<Rightarrow> hs_params \<Rightarrow> bool" where
  "honest env pub_of pI pR \<longleftrightarrow>
     module_contract (hs_module env) pub_of \<and> group_works (hs_group env) \<and>
     hp_mode pR = hp_mode pI \<and> hp_pqMode pR = hp_pqMode pI \<and> hp_pin pR = hp_pin pI \<and> hp_channelInput pR = hp_channelInput pI \<and>
     (\<exists>suite. helloLayout (hp_pqMode pI) = Inr (layout_of suite) \<and> kem_works env suite) \<and>
     (hp_mode pI = Pin \<longrightarrow> (\<exists>pin. hp_pin pI = Some pin \<and> is_safe_integer (int (length pin)) \<and> is_safe_integer (int (length (hp_channelInput pI))))) \<and>
     length (hp_idSelfSec pI) = 32 \<and> length (hp_idSelfSec pR) = 32 \<and> length (hp_selfSig pI) = 64 \<and> length (hp_selfSig pR) = 64 \<and>
     hp_selfIdPub pI = pub_of (hp_idSelfSec pI) \<and> hp_selfIdPub pR = pub_of (hp_idSelfSec pR) \<and>
     verifyIdentityCrossSig env (hp_selfIdPub pI) (hp_selfSig pI) (hp_peerEd pR) \<and>
     verifyIdentityCrossSig env (hp_selfIdPub pR) (hp_selfSig pR) (hp_peerEd pI)"

lemma setup_ok:
  assumes c: "module_contract (hs_module env) pub_of" and l: "helloLayout (hp_pqMode p) = Inr l"
    and s: "roomPqModeToRootSuite (hp_pqMode p) = Inr suite"
  shows "\<exists>ek r'. hs_setup env p r = (Inr (l, suite, pub_of ek, ek), r') \<and> length ek = 32"
proof -
  obtain ek r' where "x25519Keypair (hs_module env) r = (Inr (pub_of ek, ek), r')" "length ek = 32"
    using contract_keypair [OF c] by blast
  then show ?thesis using l s by (intro exI [of _ ek] exI [of _ r']) (simp add: hs_setup_def)
qed

lemma layout_suite: "helloLayout mode = Inr l \<Longrightarrow> \<exists>s. roomPqModeToRootSuite mode = Inr s"
  by (auto simp: helloLayout_def roomPqModeToParameterSet_def roomPqModeToRootSuite_def split: sum.splits if_splits)

text \<open>The shares of both sides, in PIN mode and without.\<close>

definition share_of :: "(bytes \<times> bytes) option \<Rightarrow> bytes" where
  "share_of s = (case s of None \<Rightarrow> zeros Y_LEN | Some (_, Y) \<Rightarrow> Y)"

lemma shares_agree:
  assumes h: "honest env pub_of pI pR" and y: "length yI = 32" "length yR = 32" "length sid = 32"
  shows "\<exists>a b pk. startCpace env pI yI sid = Inr a \<and> startCpace env pR yR sid = Inr b \<and>
    length (share_of a) = 32 \<and> length (share_of b) = 32 \<and>
    (\<forall>hI hR. h_sid hI = sid \<longrightarrow> h_y hI = share_of a \<longrightarrow> h_y hR = share_of b \<longrightarrow>
       pake_secret env pI hI hR hR (map_option fst a) = Inr pk \<and> pake_secret env pR hI hR hI (map_option fst b) = Inr pk)"
proof (cases "hp_mode pI = Pin")
  case False
  then have "hp_mode pR \<noteq> Pin" using h by (simp add: honest_def)
  then show ?thesis using False by (intro exI [of _ None] exI [of _ "[]"]) (simp add: startCpace_def pake_secret_def share_of_def)
next
  case True
  then obtain pin where pin: "hp_pin pI = Some pin" "is_safe_integer (int (length pin))" "is_safe_integer (int (length (hp_channelInput pI)))"
    using h by (auto simp: honest_def)
  have eq: "hp_mode pR = Pin" "hp_pin pR = Some pin" "hp_channelInput pR = hp_channelInput pI" "group_works (hs_group env)"
    using h True pin(1) by (simp_all add: honest_def)
  obtain g YI YR isk where c: "deriveGenerator (hs_group env) pin sid (hp_channelInput pI) = Inr g"
      "cpaceStart (hs_group env) yI g = Inr (yI, YI)" "cpaceStart (hs_group env) yR g = Inr (yR, YR)" "length YI = 32" "length YR = 32"
      "cpaceFinish (hs_group env) yI YR sid YI YR [] [] = Inr isk" "cpaceFinish (hs_group env) yR YI sid YI YR [] [] = Inr isk"
    using cpace_agrees [OF eq(4) y(1,2) pin(2,3) y(3)] by blast
  show ?thesis
    using True pin(1) eq c
    by (intro exI [of _ "Some (yI, YI)"] exI [of _ "Some (yR, YR)"] exI [of _ "[isk]"]) (simp add: startCpace_def pake_secret_def lift_pake_def share_of_def)
qed


lemma put_full: "length xs = n \<Longrightarrow> put (zeros n) 0 xs = Inr xs"
  by (simp add: put_def set_at_def)

lemma bootstrap_parts:
  assumes c: "module_contract m pub_of"
  shows "\<exists>R0 r1 I r2 u R r3. initRatchet seed False None m suite r0 = (Inr R0, r1) \<and>
    initRatchet seed True (Some (dhSelfPub R0)) m suite r1 = (Inr I, r2) \<and>
    primeResponderRatchet R0 (dhSelfPub I) m r2 = (Inr u, R, r3) \<and>
    bootstrap seed m suite r0 = (Inr (I, R), r3) \<and> length (dhSelfPub R0) = 32 \<and> length (dhSelfPub I) = 32"
proof -
  obtain I R r3 pI where b: "bootstrap seed m suite r0 = (Inr (I, R), r3)" "dhSelfPub I = pub_of pI"
    using bootstrap_ok [OF c, of seed suite r0] by auto
  have len: "length (pub_of x) = 32" for x using c by (simp add: module_contract_def)
  obtain sk r1 where "x25519Keypair m r0 = (Inr (pub_of sk, sk), r1)" using contract_keypair [OF c] by blast
  then obtain R0 where R0: "initRatchet seed False None m suite r0 = (Inr R0, r1)" "dhSelfPub R0 = pub_of sk"
    by (simp add: initRatchet_def)
  show ?thesis using b R0 len
    by (auto simp: bootstrap_def split: prod.splits sum.splits)
qed

lemma hmac_64:
  assumes "module_contract (hs_module env) pub_of"
  shows "\<exists>mac. hmacSha512 env key msg = Inr mac \<and> length mac = 64"
proof -
  obtain x where "hkdf_sha512_extract (hs_module env) key msg = Some x" "length x = 64"
    using assms unfolding module_contract_def by blast
  then show ?thesis by (simp add: hmacSha512_def)
qed

text \<open>The two HELLO flights of an honest run, and the keys derived over them.\<close>

lemma hello_phase:
  assumes h: "honest env pub_of pI pR" and len: "length sidI = 32" "length sidR = 32" "length yI = 32" "length yR = 32"
    and suite: "roomPqModeToRootSuite (hp_pqMode pI) = Inr suite"
  shows "\<exists>st r1 layout hI hR ekR r2 k ss scal. is_rootSuite st = suite \<and>
    initiator_start env pI sidI coinsI yI r0 = (Inr (hello_bytes hI, st), r1) \<and>
    hs_setup env pR r1 = (Inr (layout, suite, h_ek hR, ekR), r2) \<and>
    parseHello layout (hello_bytes hI) = Inr hI \<and> checkHelloFields False hI = Inr () \<and>
    verifyIdentityCrossSig env (h_idPub hI) (h_sig hI) (hp_peerEd pR) \<and>
    hs_encaps env (h_pk hI) coinsR = Some (h_ct hR, ss) \<and> put (zeros (ciphertextBytes (hl_suite layout))) 0 (h_ct hR) = Inr (h_ct hR) \<and>
    (\<exists>started. startCpace env pR yR (h_sid hI) = Inr started \<and> scal = map_option fst started \<and>
       hR = \<lparr>h_sid = sidR, h_ek = h_ek hR, h_y = share_of started,
             h_idPub = hp_selfIdPub pR, h_sig = hp_selfSig pR, h_pk = zeros (publicKeyBytes (hl_suite layout)), h_ct = h_ct hR\<rparr>) \<and>
    packHello layout hR = Inr (hello_bytes hR) \<and>
    deriveKeys env pR layout False hR hI ekR scal ss = Inr k \<and>
    initiator_hello env pI st (hello_bytes hR) = Inr k"
proof -
  note H = h [unfolded honest_def]
  have c: "module_contract (hs_module env) pub_of" using H by blast
  have V: "verifyIdentityCrossSig env (hp_selfIdPub pI) (hp_selfSig pI) (hp_peerEd pR)"
    "verifyIdentityCrossSig env (hp_selfIdPub pR) (hp_selfSig pR) (hp_peerEd pI)" using H by blast+
  obtain su where l: "helloLayout (hp_pqMode pI) = Inr (layout_of su)" and kem: "kem_works env su" using H by blast
  have lR: "helloLayout (hp_pqMode pR) = Inr (layout_of su)" "roomPqModeToRootSuite (hp_pqMode pR) = Inr suite" using H l suite by auto
  obtain ekI r1 where ekI: "hs_setup env pI r0 = (Inr (layout_of su, suite, pub_of ekI, ekI), r1)" "length ekI = 32"
    using setup_ok [OF c l suite] by blast
  obtain ekR r2 where ekR: "hs_setup env pR r1 = (Inr (layout_of su, suite, pub_of ekR, ekR), r2)" "length ekR = 32"
    using setup_ok [OF c lR] by blast
  obtain kp where kp: "hs_keypair env coinsI = Some kp" "length (kp_publicKey kp) = publicKeyBytes su" "\<not> allZero (kp_publicKey kp)"
    using kem unfolding kem_works_def by blast
  obtain ct ss where ct: "hs_encaps env (kp_publicKey kp) coinsR = Some (ct, ss)" "length ct = ciphertextBytes su" "\<not> allZero ct"
      "hs_decaps env ct (kp_secretKey kp) = Some ss"
    using kem kp(1) unfolding kem_works_def by blast
  obtain a b pk where sh: "startCpace env pI yI sidI = Inr a" "startCpace env pR yR sidI = Inr b"
      "length (share_of a) = 32" "length (share_of b) = 32"
      "\<And>hI hR. h_sid hI = sidI \<Longrightarrow> h_y hI = share_of a \<Longrightarrow> h_y hR = share_of b \<Longrightarrow>
         pake_secret env pI hI hR hR (map_option fst a) = Inr pk \<and> pake_secret env pR hI hR hI (map_option fst b) = Inr pk"
    using shares_agree [OF h len(3,4,1)] by blast
  have suite_l: "hl_suite (layout_of su) = su" by (simp add: layout_of_def)
  define hI where "hI = \<lparr>h_sid = sidI, h_ek = pub_of ekI, h_y = share_of a, h_idPub = hp_selfIdPub pI, h_sig = hp_selfSig pI,
    h_pk = kp_publicKey kp, h_ct = zeros (ciphertextBytes su)\<rparr>"
  define hR where "hR = \<lparr>h_sid = sidR, h_ek = pub_of ekR, h_y = share_of b, h_idPub = hp_selfIdPub pR, h_sig = hp_selfSig pR,
    h_pk = zeros (publicKeyBytes su), h_ct = ct\<rparr>"
  have pub: "length (pub_of x) = 32" for x using c by (simp add: module_contract_def)
  have ok: "hello_ok su hI" "hello_ok su hR"
    using H kp(2) ct(2) sh(3,4) pub len by (simp_all add: hello_ok_def hI_def hR_def)
  define st where "st = \<lparr>is_layout = layout_of su, is_rootSuite = suite, is_self = hI, is_ekSec = ekI, is_scalar = map_option fst a, is_kem = kp\<rparr>"
  have start: "initiator_start env pI sidI coinsI yI r0 = (Inr (hello_bytes hI, st), r1)"
  proof -
    have "packHello (layout_of su) \<lparr>h_sid = sidI, h_ek = pub_of ekI, h_y = (case a of None \<Rightarrow> zeros Y_LEN | Some (_, Y) \<Rightarrow> Y),
        h_idPub = hp_selfIdPub pI, h_sig = hp_selfSig pI, h_pk = kp_publicKey kp, h_ct = zeros (ciphertextBytes su)\<rparr> = Inr (hello_bytes hI)"
      using packHello_ok [OF ok(1)] unfolding hI_def share_of_def .
    then show ?thesis using ekI kp sh(1) suite_l
      by (simp add: initiator_start_def lift_kem_def put_full Let_def st_def) (simp add: hI_def share_of_def)
  qed
  obtain k where k: "deriveKeys env pI (layout_of su) True hI hR ekI (map_option fst a) ss = Inr k"
      "deriveKeys env pR (layout_of su) False hR hI ekR (map_option fst b) ss = Inr k"
    using keys_agree [OF c, of pI pR ekI ekR hI hR "map_option fst a" pk "map_option fst b" "layout_of su" ss] H ekI(2) ekR(2) sh(5) [of hI hR]
    by (auto simp: hI_def hR_def)
  have z: "allZero (zeros n)" for n by (simp add: allZero_iff)
  have "initiator_hello env pI st (hello_bytes hR) = Inr k"
  proof -
    have "verifyIdentityCrossSig env (h_idPub hR) (h_sig hR) (hp_peerEd pI)" using V by (simp add: hR_def)
    moreover have "checkHelloFields True hR = Inr ()" using ct z by (simp add: checkHelloFields_def hR_def ensure_def)
    moreover have "hs_decaps env (h_ct hR) (kp_secretKey kp) = Some ss" using ct by (simp add: hR_def)
    ultimately show ?thesis using parseHello_bytes [OF ok(2)] k(1)
      by (simp add: initiator_hello_def st_def ensure_def lift_kem_def)
  qed
  moreover have "hs_setup env pR r1 = (Inr (layout_of su, suite, h_ek hR, ekR), r2)" using ekR by (simp add: hR_def)
  moreover have "checkHelloFields False hI = Inr ()" using kp z by (simp add: checkHelloFields_def hI_def ensure_def)
  moreover have "verifyIdentityCrossSig env (h_idPub hI) (h_sig hI) (hp_peerEd pR)" using V by (simp add: hI_def)
  moreover have "hs_encaps env (h_pk hI) coinsR = Some (h_ct hR, ss)" using ct by (simp add: hI_def hR_def)
  moreover have "put (zeros (ciphertextBytes (hl_suite (layout_of su)))) 0 (h_ct hR) = Inr (h_ct hR)"
    using ct by (simp add: hR_def put_full suite_l)
  moreover have "\<exists>started. startCpace env pR yR (h_sid hI) = Inr started \<and> map_option fst b = map_option fst started \<and>
       hR = \<lparr>h_sid = sidR, h_ek = h_ek hR, h_y = share_of started,
             h_idPub = hp_selfIdPub pR, h_sig = hp_selfSig pR, h_pk = zeros (publicKeyBytes (hl_suite (layout_of su))), h_ct = h_ct hR\<rparr>"
    using sh(2) by (intro exI [of _ b]) (simp add: hI_def hR_def suite_l)
  moreover have "is_rootSuite st = suite" by (simp add: st_def)
  ultimately show ?thesis
    using start parseHello_bytes [OF ok(1)] packHello_ok [OF ok(2)] k(2)
    by - (rule exI [of _ st], rule exI [of _ r1], rule exI [of _ "layout_of su"], rule exI [of _ hI], rule exI [of _ hR],
        rule exI [of _ ekR], rule exI [of _ r2], rule exI [of _ k], rule exI [of _ ss], rule exI [of _ "map_option fst b"],
          intro conjI; assumption)
qed


lemma responder_sends:
  assumes ready: "hs_setup env pR r1 = (Inr (layout, suite, h_ek hR, ekR), r2)"
    and p: "parseHello layout b = Inr hI" "checkHelloFields False hI = Inr ()"
      "verifyIdentityCrossSig env (h_idPub hI) (h_sig hI) (hp_peerEd pR)" "hs_encaps env (h_pk hI) coinsR = Some (h_ct hR, ss)"
      "put (zeros (ciphertextBytes (hl_suite layout))) 0 (h_ct hR) = Inr (h_ct hR)" "startCpace env pR yR (h_sid hI) = Inr started"
      "hR = \<lparr>h_sid = sidR, h_ek = h_ek hR, h_y = share_of started, h_idPub = hp_selfIdPub pR, h_sig = hp_selfSig pR,
             h_pk = zeros (publicKeyBytes (hl_suite layout)), h_ct = h_ct hR\<rparr>"
      "packHello layout hR = Inr frame"
      "deriveKeys env pR layout False hR hI ekR (map_option fst started) ss = Inr k"
    and r: "initRatchet (k_secret k) False None (hs_module env) suite r2 = (Inr R0, r3)"
      "hmacSha512 env (k_secret k) (buildConfirmationInput pR k HS_KC_RESPONDER_DOMAIN (dhSelfPub R0) None []) = Inr macR"
      "packConfirm (dhSelfPub R0) macR = Inr confirm"
  shows "responder_hello env pR sidR coinsR yR b r1 = ([frame, confirm], Inr \<lparr>rs_keys = k, rs_ratchet = R0, rs_macR = macR\<rparr>, r3)"
proof -
  have self: "\<lparr>h_sid = sidR, h_ek = h_ek hR, h_y = (case started of None \<Rightarrow> zeros Y_LEN | Some (_, Y) \<Rightarrow> Y), h_idPub = hp_selfIdPub pR,
      h_sig = hp_selfSig pR, h_pk = zeros (publicKeyBytes (hl_suite layout)), h_ct = h_ct hR\<rparr> = hR"
    using p(7) unfolding share_of_def by (rule sym)
  have "responder_reply env pR layout (h_ek hR) sidR coinsR yR b = Inr (hI, hR, ss, map_option fst started, frame)"
    using p(1-6,8) by (simp add: responder_reply_def ensure_def lift_kem_def self Let_def)
  moreover have "responder_prove env pR suite k r2 = (Inr (confirm, \<lparr>rs_keys = k, rs_ratchet = R0, rs_macR = macR\<rparr>), r3)"
    using r by (simp add: responder_prove_def)
  ultimately show ?thesis using ready p(9) by (simp add: responder_hello_def)
qed

text \<open>The frames of an honest run, one after the other.\<close>

lemma honest_trace:
  assumes h: "honest env pub_of pI pR" and len: "length sidI = 32" "length sidR = 32" "length yI = 32" "length yR = 32"
    and suite: "roomPqModeToRootSuite (hp_pqMode pI) = Inr suite"
  shows "\<exists>hello1 st r1 hello2 confirm1 rs r2 r3 k confirm2 ic r4 finish R r5. is_rootSuite st = suite \<and>
    initiator_start env pI sidI coinsI yI r0 = (Inr (hello1, st), r1) \<and>
    responder_hello env pR sidR coinsR yR hello1 r1 = ([hello2, confirm1], Inr rs, r3) \<and>
    initiator_hello env pI st hello2 = Inr k \<and> rs_keys rs = k \<and>
    initiator_confirm env pI suite k confirm1 r3 = ([confirm2], Inr ic, r4) \<and>
    parseConfirm confirm2 = Inr (dhSelfPub (ic_ratchet ic), ic_macI ic) \<and> ic_pubR ic = dhSelfPub (rs_ratchet rs) \<and> ic_macR ic = rs_macR rs \<and>
    responder_confirm env pR rs confirm2 r4 = ([finish], Inr (hs_established k False R), r5) \<and>
    initiator_finish env pI k ic finish = Inr (hs_established k True (ic_ratchet ic)) \<and>
    bootstrap (k_secret k) (hs_module env) suite r2 = (Inr (ic_ratchet ic, R), r5)"
proof -
  have c: "module_contract (hs_module env) pub_of" and ci: "hp_channelInput pR = hp_channelInput pI" using h by (simp_all add: honest_def)
  obtain st r1 layout hI hR ekR r2 k ss started where hp: "is_rootSuite st = suite"
      "initiator_start env pI sidI coinsI yI r0 = (Inr (hello_bytes hI, st), r1)"
      "hs_setup env pR r1 = (Inr (layout, suite, h_ek hR, ekR), r2)"
      "parseHello layout (hello_bytes hI) = Inr hI" "checkHelloFields False hI = Inr ()"
      "verifyIdentityCrossSig env (h_idPub hI) (h_sig hI) (hp_peerEd pR)" "hs_encaps env (h_pk hI) coinsR = Some (h_ct hR, ss)"
      "put (zeros (ciphertextBytes (hl_suite layout))) 0 (h_ct hR) = Inr (h_ct hR)" "startCpace env pR yR (h_sid hI) = Inr started"
      "hR = \<lparr>h_sid = sidR, h_ek = h_ek hR, h_y = share_of started, h_idPub = hp_selfIdPub pR, h_sig = hp_selfSig pR,
             h_pk = zeros (publicKeyBytes (hl_suite layout)), h_ct = h_ct hR\<rparr>"
      "packHello layout hR = Inr (hello_bytes hR)"
      "deriveKeys env pR layout False hR hI ekR (map_option fst started) ss = Inr k"
      "initiator_hello env pI st (hello_bytes hR) = Inr k"
    using hello_phase [OF h len suite, of coinsI r0 coinsR] by blast
  obtain R0 r3 I r4 u R r5 where b: "initRatchet (k_secret k) False None (hs_module env) suite r2 = (Inr R0, r3)"
      "initRatchet (k_secret k) True (Some (dhSelfPub R0)) (hs_module env) suite r3 = (Inr I, r4)"
      "primeResponderRatchet R0 (dhSelfPub I) (hs_module env) r4 = (Inr u, R, r5)"
      "bootstrap (k_secret k) (hs_module env) suite r2 = (Inr (I, R), r5)" "length (dhSelfPub R0) = 32" "length (dhSelfPub I) = 32"
    using bootstrap_parts [OF c, of "k_secret k" suite r2] by blast
  have same: "buildConfirmationInput pR k = buildConfirmationInput pI k" by (simp add: buildConfirmationInput_def fun_eq_iff ci)
  obtain macR where macR: "hmacSha512 env (k_secret k) (buildConfirmationInput pI k HS_KC_RESPONDER_DOMAIN (dhSelfPub R0) None []) = Inr macR"
      "length macR = 64" using hmac_64 [OF c] by blast
  obtain macI where macI: "hmacSha512 env (k_secret k)
      (buildConfirmationInput pI k HS_KC_INITIATOR_DOMAIN (dhSelfPub R0) (Some (dhSelfPub I)) [macR]) = Inr macI"
      "length macI = 64" using hmac_64 [OF c] by blast
  obtain macF where macF: "hmacSha512 env (k_secret k)
      (buildConfirmationInput pI k HS_KC_RESPONDER_FINISH_DOMAIN (dhSelfPub R0) (Some (dhSelfPub I)) [macR, macI]) = Inr macF"
      "length macF = 64" using hmac_64 [OF c] by blast
  define rs where "rs = \<lparr>rs_keys = k, rs_ratchet = R0, rs_macR = macR\<rparr>"
  define ic where "ic = \<lparr>ic_ratchet = I, ic_pubR = dhSelfPub R0, ic_macR = macR, ic_macI = macI\<rparr>"
  note resp = responder_sends [OF hp(3-12) b(1) macR(1) [folded same] confirm_frame(1) [OF b(5) macR(2)], folded rs_def]
  have conf: "initiator_confirm env pI suite k ([2] @ dhSelfPub R0 @ macR) r3 = ([[2] @ dhSelfPub I @ macI], Inr ic, r4)"
    using confirm_frame(2) [OF b(5) macR(2)] confirm_frame(1) [OF b(6) macI(2)] b(2) macI macR
    by (simp add: initiator_confirm_def ensure_def uint8ArraysAreEqual_iff ic_def)
  have fin: "responder_confirm env pR rs ([2] @ dhSelfPub I @ macI) r4 = ([[3] @ macF], Inr (hs_established k False R), r5)"
    using confirm_frame(2) [OF b(6) macI(2)] finish_frame [OF macF(2)] b(3) macI macF
    by (simp add: responder_confirm_def ensure_def same Let_def uint8ArraysAreEqual_iff rs_def)
  have ack: "initiator_finish env pI k ic ([3] @ macF) = Inr (hs_established k True (ic_ratchet ic))"
    using macF by (simp add: initiator_finish_def ensure_def sub_def uint8ArraysAreEqual_iff ic_def)
  have f: "rs_keys rs = k" "ic_pubR ic = dhSelfPub (rs_ratchet rs)" "ic_macR ic = rs_macR rs" "ic_ratchet ic = I" "ic_macI ic = macI"
    by (simp_all add: rs_def ic_def)
  have pc: "parseConfirm ([2] @ dhSelfPub I @ macI) = Inr (dhSelfPub (ic_ratchet ic), ic_macI ic)"
    and boot: "bootstrap (k_secret k) (hs_module env) suite r2 = (Inr (ic_ratchet ic, R), r5)"
    using confirm_frame(2) [OF b(6) macI(2)] b(4) f(4,5) by simp_all
  show ?thesis
    by (rule exI [of _ "hello_bytes hI"], rule exI [of _ st], rule exI [of _ r1], rule exI [of _ "hello_bytes hR"],
        rule exI [of _ "[2] @ dhSelfPub R0 @ macR"], rule exI [of _ rs], rule exI [of _ r2], rule exI [of _ r3], rule exI [of _ k],
        rule exI [of _ "[2] @ dhSelfPub I @ macI"], rule exI [of _ ic], rule exI [of _ r4], rule exI [of _ "[3] @ macF"],
        rule exI [of _ R], rule exI [of _ r5]) (intro conjI hp(1,2,13) resp conf pc fin ack boot f(1-3))
qed

lemma honest_run:
  assumes h: "honest env pub_of pI pR" and len: "length sidI = 32" "length sidR = 32" "length yI = 32" "length yR = 32"
  shows "\<exists>resI resR suite r r'. handshake_run env pI pR sidI sidR coinsI coinsR yI yR r0 = (Inr (resI, resR), r') \<and>
    r_secret resI = r_secret resR \<and> r_pqRoot resI = r_pqRoot resR \<and> r_pqBinding resI = r_pqBinding resR \<and>
    r_nextOfferer resI = Local \<and> r_nextOfferer resR = Remote \<and>
    roomPqModeToRootSuite (hp_pqMode pI) = Inr suite \<and>
    bootstrap (r_secret resI) (hs_module env) suite r = (Inr (r_state resI, r_state resR), r')"
proof -
  obtain suite where suite: "roomPqModeToRootSuite (hp_pqMode pI) = Inr suite"
    using h layout_suite by (auto simp: honest_def)
  obtain hello1 st r1 hello2 confirm1 rs r2 r3 k confirm2 ic r4 finish R r5 where t: "is_rootSuite st = suite"
      "initiator_start env pI sidI coinsI yI r0 = (Inr (hello1, st), r1)"
      "responder_hello env pR sidR coinsR yR hello1 r1 = ([hello2, confirm1], Inr rs, r3)"
      "initiator_hello env pI st hello2 = Inr k" "initiator_confirm env pI suite k confirm1 r3 = ([confirm2], Inr ic, r4)"
      "responder_confirm env pR rs confirm2 r4 = ([finish], Inr (hs_established k False R), r5)"
      "initiator_finish env pI k ic finish = Inr (hs_established k True (ic_ratchet ic))"
      "bootstrap (k_secret k) (hs_module env) suite r2 = (Inr (ic_ratchet ic, R), r5)"
    using honest_trace [OF h len suite, of coinsI r0 coinsR] by blast
  then show ?thesis using suite
    by (intro exI [of _ "hs_established k True (ic_ratchet ic)"] exI [of _ "hs_established k False R"] exI [of _ suite] exI [of _ r2] exI [of _ r5])
       (simp add: handshake_run_def hs_established_def)
qed


text \<open>A concrete environment: the primitives are toys with the algebra of the real ones.\<close>

definition demo_group :: cpace_group where
  "demo_group = \<lparr>sha512_bytes = (\<lambda>w. Some (take 64 (w @ zeros 64))), from_hash = (\<lambda>h. zeros 32),
     scalarmult = (\<lambda>y p. Some (take 32 (map2 xor y p @ zeros 32)))\<rparr>"

definition toy_env :: "nat hs_env" where
  "toy_env = \<lparr>hs_module = demo_module, hs_group = demo_group,
     hs_keypair = (\<lambda>c. Some \<lparr>kp_publicKey = replicate 1184 1, kp_secretKey = c\<rparr>),
     hs_encaps = (\<lambda>pk c. Some (replicate 1088 1, zeros 32)),
     hs_decaps = (\<lambda>ct sk. Some (zeros 32)),
     hs_verify = (\<lambda>m s e. s = replicate 64 1), hs_sha256 = (\<lambda>m. take 32 (m @ zeros 32))\<rparr>"

definition demo_params :: "byte \<Rightarrow> hs_params" where
  "demo_params b = \<lparr>hp_mode = Pin, hp_pqMode = ''hybrid-mlkem768'', hp_pin = Some [1, 2, 3, 4], hp_channelInput = [7],
     hp_idSelfSec = replicate 32 b, hp_selfIdPub = demo_pub (replicate 32 b), hp_selfSig = replicate 64 1, hp_peerEd = zeros 32\<rparr>"

lemma xor_with_zeros: "length y = n \<Longrightarrow> map2 xor y (zeros n) = (y :: bytes)"
  by (rule nth_equalityI) (simp_all add: zeros_def)

lemma demo_group_works: "group_works demo_group"
  by (auto simp: group_works_def demo_group_def xor_with_zeros is_safe_integer_def MAX_SAFE_INTEGER_def intro: xor_lists_commute)

lemma demo_suite: "helloLayout ''hybrid-mlkem768'' = Inr (layout_of ML_KEM_768_SUITE)"
  by (simp add: helloLayout_def roomPqModeToParameterSet_def getMlKemSuite_def layout_of_def)

lemma demo_kem: "kem_works toy_env ML_KEM_768_SUITE"
  by (simp add: kem_works_def toy_env_def ML_KEM_768_SUITE_def allZero_iff zeros_def)

lemma demo_honest: "honest toy_env demo_pub (demo_params 1) (demo_params 2)"
proof -
  have "\<exists>suite. helloLayout (hp_pqMode (demo_params 1)) = Inr (layout_of suite) \<and> kem_works toy_env suite"
    using demo_suite demo_kem by (intro exI [of _ ML_KEM_768_SUITE]) (simp add: demo_params_def)
  moreover have "hs_module toy_env = demo_module" "hs_group toy_env = demo_group" by (simp_all add: toy_env_def)
  moreover have "hs_verify toy_env m (replicate 64 1) e" for m e by (simp add: toy_env_def)
  ultimately show ?thesis using demo_contract demo_group_works
    by (simp add: honest_def verifyIdentityCrossSig_def) (simp add: demo_params_def is_safe_integer_def MAX_SAFE_INTEGER_def)
qed


section \<open>What an accepted final proof says\<close>

text \<open>Two keys with fields of the fixed lengths, over one suite.\<close>

definition hs_keys_ok :: "mlkem_suite \<Rightarrow> hs_keys \<Rightarrow> bool" where
  "hs_keys_ok suite k \<longleftrightarrow> hello_ok suite (k_I k) \<and> hello_ok suite (k_R k)"

lemma confirmation_injective:
  assumes eq: "buildConfirmationInput p k role pubR (Some pubI) [m1, m2] = buildConfirmationInput p' k' role pubR' (Some pubI') [m1', m2']"
    and ok: "hs_keys_ok suite k" "hs_keys_ok suite k'"
    and len: "length pubR = 32" "length pubR' = 32" "length pubI = 32" "length pubI' = 32" "length m1 = 64" "length m1' = 64" "length m2 = 64" "length m2' = 64"
  shows "k_I k = k_I k' \<and> k_R k = k_R k' \<and> pubR = pubR' \<and> pubI = pubI' \<and> m1 = m1' \<and> m2 = m2' \<and> hp_channelInput p = hp_channelInput p'"
proof -
  have "h_sid (k_I k) = h_sid (k_I k') \<and> h_sid (k_R k) = h_sid (k_R k') \<and> h_ek (k_I k) = h_ek (k_I k') \<and> h_ek (k_R k) = h_ek (k_R k') \<and>
     h_y (k_I k) = h_y (k_I k') \<and> h_y (k_R k) = h_y (k_R k') \<and> h_idPub (k_I k) = h_idPub (k_I k') \<and> h_sig (k_I k) = h_sig (k_I k') \<and>
     h_idPub (k_R k) = h_idPub (k_R k') \<and> h_sig (k_R k) = h_sig (k_R k') \<and> h_pk (k_I k) = h_pk (k_I k') \<and> h_ct (k_I k) = h_ct (k_I k') \<and>
     h_pk (k_R k) = h_pk (k_R k') \<and> h_ct (k_R k) = h_ct (k_R k') \<and>
     pubR = pubR' \<and> pubI = pubI' \<and> m1 = m1' \<and> m2 = m2' \<and> hp_channelInput p = hp_channelInput p'"
    using eq ok len by (simp add: buildConfirmationInput_def concatUint8Arrays_concat hs_keys_ok_def hello_ok_def)
  then show ?thesis by (cases "k_I k"; cases "k_I k'"; cases "k_R k"; cases "k_R k'") simp
qed


definition shares_32 :: "cpace_group \<Rightarrow> bool" where
  "shares_32 G \<longleftrightarrow> (\<forall>y g Y. scalarmult G y g = Some Y \<longrightarrow> length Y = 32)"

definition self_ok :: "hs_params \<Rightarrow> bool" where
  "self_ok p \<longleftrightarrow> length (hp_selfIdPub p) = 32 \<and> length (hp_selfSig p) = 64"

lemma deriveKeys_fields:
  assumes "deriveKeys env p l ini self peer ek sc sh = Inr k"
  shows "k_I k = (if ini then self else peer)" "k_R k = (if ini then peer else self)"
    "k_binding k = healing_binding env p (k_I k) (k_R k)" "healing_root env (k_secret k) (k_binding k) = Inr (k_root k)"
  using assms by (auto simp: deriveKeys_def Let_def result_simps)

lemma startCpace_share:
  assumes "shares_32 (hs_group env)" "startCpace env p y sid = Inr s"
  shows "length (share_of s) = 32"
  using assms
  by (auto simp: startCpace_def share_of_def shares_32_def cpaceStart_def lift_pake_def result_simps split: if_splits option.splits sum.splits)

lemma put_zeros_length: "put (zeros n) 0 xs = Inr ys \<Longrightarrow> length ys = n"
  by (auto simp: put_def set_at_def split: if_splits)

lemma hs_setup_fields:
  assumes "module_contract (hs_module env) pub_of" "hs_setup env p r = (Inr (l, suite, ek, sk), r')"
  shows "helloLayout (hp_pqMode p) = Inr l" "length ek = 32"
proof -
  obtain sk' r'' where "x25519Keypair (hs_module env) r = (Inr (pub_of sk', sk'), r'')" using contract_keypair [OF assms(1)] by blast
  then show "helloLayout (hp_pqMode p) = Inr l" "length ek = 32"
    using assms by (cases "roomPqModeToRootSuite (hp_pqMode p)"; auto simp: hs_setup_def module_contract_def result_simps split: sum.splits)+
qed

lemma initRatchet_fields:
  assumes "module_contract m pub_of" "initRatchet seed ini remote m suite r = (Inr s, r')"
  shows "length (dhSelfPub s) = 32" "ini \<Longrightarrow> dhRemotePub s = remote"
proof -
  obtain sk r'' where "x25519Keypair m r = (Inr (pub_of sk, sk), r'')" using contract_keypair [OF assms(1)] by blast
  then show "length (dhSelfPub s) = 32" "ini \<Longrightarrow> dhRemotePub s = remote"
    using assms by (auto simp: initRatchet_def module_contract_def Let_def result_simps split: if_splits option.splits)
qed

lemma prime_remote: "primeResponderRatchet s pub m r = (Inr u, s', r') \<Longrightarrow> dhRemotePub s' = Some pub"
  by (auto simp: primeResponderRatchet_def dhRatchet_def Let_def split: if_splits sum.splits prod.splits)

lemma hmac_length: "module_contract (hs_module env) pub_of \<Longrightarrow> hmacSha512 env key msg = Inr mac \<Longrightarrow> length mac = 64"
  using hmac_64 [of env pub_of key msg] by auto

lemma initiator_start_fields:
  assumes "module_contract (hs_module env) pub_of" "shares_32 (hs_group env)" "self_ok p" "length sid = 32"
    "initiator_start env p sid coins y r = (Inr (frame, st), r')"
  shows "helloLayout (hp_pqMode p) = Inr (is_layout st) \<and> (\<forall>suite. is_layout st = layout_of suite \<longrightarrow> hello_ok suite (is_self st))"
proof -
  obtain l suite ek sk where s: "hs_setup env p r = (Inr (l, suite, ek, sk), r')"
    using assms(5) by (auto simp: initiator_start_def split: prod.splits sum.splits)
  note f = hs_setup_fields [OF assms(1) s]
  show ?thesis
    using assms(3-5) s f startCpace_share [OF assms(2)] put_zeros_length
    by (auto simp: initiator_start_def Let_def result_simps self_ok_def hello_ok_def layout_of_def share_of_def lift_kem_def)
qed


lemma responder_hello_fields:
  assumes c: "module_contract (hs_module env) pub_of" and s: "shares_32 (hs_group env)" and self: "self_ok p" "length sid = 32"
    and r: "responder_hello env p sid coins y b r = (frames, Inr rs, r')"
    and l: "helloLayout (hp_pqMode p) = Inr (layout_of suite)"
  shows "hs_keys_ok suite (rs_keys rs) \<and> length (dhSelfPub (rs_ratchet rs)) = 32 \<and> length (rs_macR rs) = 64 \<and>
    k_binding (rs_keys rs) = healing_binding env p (k_I (rs_keys rs)) (k_R (rs_keys rs)) \<and>
    healing_root env (k_secret (rs_keys rs)) (k_binding (rs_keys rs)) = Inr (k_root (rs_keys rs))"
proof -
  obtain layout rootSuite ek sk r1 where st: "hs_setup env p r = (Inr (layout, rootSuite, ek, sk), r1)"
    using r by (auto simp: responder_hello_def split: prod.splits sum.splits)
  note f = hs_setup_fields [OF c st]
  have lay: "layout = layout_of suite" using f(1) l by simp
  obtain peer ct ctSelf started shared r2 where
    p: "parseHello layout b = Inr peer" "put (zeros (ciphertextBytes (hl_suite layout))) 0 ct = Inr ctSelf"
      "startCpace env p y (h_sid peer) = Inr started"
    and d: "deriveKeys env p layout False
        \<lparr>h_sid = sid, h_ek = ek, h_y = (case started of None \<Rightarrow> zeros Y_LEN | Some (_, Y) \<Rightarrow> Y), h_idPub = hp_selfIdPub p,
         h_sig = hp_selfSig p, h_pk = zeros (publicKeyBytes (hl_suite layout)), h_ct = ctSelf\<rparr> peer sk (map_option fst started) shared = Inr (rs_keys rs)"
      "initRatchet (k_secret (rs_keys rs)) False None (hs_module env) rootSuite r1 = (Inr (rs_ratchet rs), r2)"
      "hmacSha512 env (k_secret (rs_keys rs))
         (buildConfirmationInput p (rs_keys rs) HS_KC_RESPONDER_DOMAIN (dhSelfPub (rs_ratchet rs)) None []) = Inr (rs_macR rs)"
    using r st by (auto simp: responder_hello_def responder_reply_def responder_prove_def result_simps Let_def split: sum.splits prod.splits)
  have "hello_ok suite peer" using p(1) parseHello_ok lay by simp
  moreover have "length (share_of started) = 32" "length ctSelf = ciphertextBytes suite"
    using startCpace_share [OF s p(3)] put_zeros_length [OF p(2)] by (simp_all add: lay layout_of_def)
  ultimately have "hs_keys_ok suite (rs_keys rs)"
    using deriveKeys_fields(1,2) [OF d(1)] self f(2) by (simp add: hs_keys_ok_def hello_ok_def self_ok_def share_of_def lay layout_of_def)
  then show ?thesis
    using deriveKeys_fields(3,4) [OF d(1)] initRatchet_fields(1) [OF c d(2)] hmac_length [OF c d(3)] by simp
qed

lemma initiator_keys_fields:
  assumes c: "module_contract (hs_module env) pub_of" and s: "shares_32 (hs_group env)" and self: "self_ok p" "length sid = 32"
    and i: "initiator_start env p sid coins y r = (Inr (frame, st), r')" "initiator_hello env p st b = Inr k"
    and l: "helloLayout (hp_pqMode p) = Inr (layout_of suite)"
  shows "hs_keys_ok suite k \<and> k_binding k = healing_binding env p (k_I k) (k_R k) \<and>
    healing_root env (k_secret k) (k_binding k) = Inr (k_root k)"
proof -
  have st: "is_layout st = layout_of suite" "hello_ok suite (is_self st)"
    using initiator_start_fields [OF c s self i(1)] l by auto
  obtain peer shared where p: "parseHello (is_layout st) b = Inr peer"
    and d: "deriveKeys env p (is_layout st) True (is_self st) peer (is_ekSec st) (is_scalar st) shared = Inr k"
    using i(2) by (auto simp: initiator_hello_def result_simps)
  have "hello_ok suite peer" using p st(1) parseHello_ok by simp
  then show ?thesis using deriveKeys_fields [OF d] st(2) by (simp add: hs_keys_ok_def)
qed

lemma initiator_confirm_fields:
  assumes c: "module_contract (hs_module env) pub_of" and i: "initiator_confirm env p suite k b r = (frames, Inr ic, r')"
  shows "length (ic_pubR ic) = 32 \<and> length (ic_macR ic) = 64 \<and> length (ic_macI ic) = 64 \<and> length (dhSelfPub (ic_ratchet ic)) = 32 \<and>
    dhRemotePub (ic_ratchet ic) = Some (ic_pubR ic)"
proof -
  obtain r1 where p: "parseConfirm b = Inr (ic_pubR ic, ic_macR ic)"
    and n: "initRatchet (k_secret k) True (Some (ic_pubR ic)) (hs_module env) suite r = (Inr (ic_ratchet ic), r1)"
    and m: "hmacSha512 env (k_secret k)
        (buildConfirmationInput p k HS_KC_INITIATOR_DOMAIN (ic_pubR ic) (Some (dhSelfPub (ic_ratchet ic))) [ic_macR ic]) = Inr (ic_macI ic)"
    using i by (auto simp: initiator_confirm_def result_simps split: sum.splits prod.splits)
  have "length (ic_pubR ic) = 32" "length (ic_macR ic) = 64" using parseConfirm_lengths [OF p] by simp_all
  then show ?thesis using initRatchet_fields [OF c n] hmac_length [OF c m] by simp
qed

text \<open>The authentication code does not collide on the two inputs.\<close>

definition mac_separates :: "'r hs_env \<Rightarrow> bytes \<Rightarrow> bytes \<Rightarrow> bytes \<Rightarrow> bytes \<Rightarrow> bool" where
  "mac_separates env key msg key' msg' \<longleftrightarrow> ((key, msg) \<noteq> (key', msg') \<longrightarrow> hmacSha512 env key msg \<noteq> hmacSha512 env key' msg')"

definition finish_input :: "hs_params \<Rightarrow> hs_keys \<Rightarrow> bytes \<Rightarrow> bytes \<Rightarrow> bytes \<Rightarrow> bytes \<Rightarrow> bytes" where
  "finish_input p k pubR pubI macR macI = buildConfirmationInput p k HS_KC_RESPONDER_FINISH_DOMAIN pubR (Some pubI) [macR, macI]"

text \<open>C7: the final proof authenticates the whole run. Over any network, when an initiator accepts the FINISH frame a responder
  sent and the authentication code does not collide on the two inputs they authenticated, both hold the same two HELLO flights, channel
  input, secret, healing root and binding, and each ratchet's remote key is the one the peer's ratchet announced.\<close>

theorem finish_authenticates_run:
  assumes c: "module_contract (hs_module env) pub_of" and s: "shares_32 (hs_group env)"
    and self: "self_ok pI" "self_ok pR" "length sidI = 32" "length sidR = 32" and mode: "hp_pqMode pR = hp_pqMode pI"
    and I: "initiator_start env pI sidI coinsI yI ra = (Inr (fr, st), ra')" "initiator_hello env pI st helloR = Inr k"
      "initiator_confirm env pI suite k confirmR rb = (frames, Inr ic, rb')" "initiator_finish env pI k ic finish = Inr resI"
    and R: "responder_hello env pR sidR coinsR yR helloI rc = (frames', Inr rs, rc')" "parseConfirm confirmI = Inr (pubI, macI)"
      "responder_confirm env pR rs confirmI rd = ([finish], Inr resR, rd')"
    and mac: "mac_separates env (k_secret k) (finish_input pI k (ic_pubR ic) (dhSelfPub (ic_ratchet ic)) (ic_macR ic) (ic_macI ic))
      (k_secret (rs_keys rs)) (finish_input pR (rs_keys rs) (dhSelfPub (rs_ratchet rs)) pubI (rs_macR rs) macI)"
  shows "k_I k = k_I (rs_keys rs) \<and> k_R k = k_R (rs_keys rs) \<and> hp_channelInput pI = hp_channelInput pR \<and>
    r_secret resI = r_secret resR \<and> r_pqRoot resI = r_pqRoot resR \<and> r_pqBinding resI = r_pqBinding resR \<and>
    dhRemotePub (r_state resI) = Some (dhSelfPub (rs_ratchet rs)) \<and> dhRemotePub (r_state resR) = Some (dhSelfPub (r_state resI))"
proof -
  obtain su where l: "helloLayout (hp_pqMode pI) = Inr (layout_of su)"
    using initiator_start_fields [OF c s self(1,3) I(1)] layout_cases by metis
  note i = initiator_keys_fields [OF c s self(1,3) I(1,2) l] and ic = initiator_confirm_fields [OF c I(3)]
  note r = responder_hello_fields [OF c s self(2,4) R(1) l [folded mode]]
  obtain tag state where R': "primeResponderRatchet (rs_ratchet rs) pubI (hs_module env) rd = (Inr (), state, rd')"
      "hmacSha512 env (k_secret (rs_keys rs)) (finish_input pR (rs_keys rs) (dhSelfPub (rs_ratchet rs)) pubI (rs_macR rs) macI) = Inr tag"
      "packFinish tag = Inr finish" "resR = hs_established (rs_keys rs) False state"
    using R(2,3) by (auto simp: responder_confirm_def Let_def result_simps finish_input_def split: sum.splits prod.splits)
  have len: "length pubI = 32" "length macI = 64" using parseConfirm_lengths [OF R(2)] by simp_all
  have "finish = [3] @ tag" using finish_frame [OF hmac_length [OF c R'(2)]] R'(3) by simp
  then have tag: "hmacSha512 env (k_secret k) (finish_input pI k (ic_pubR ic) (dhSelfPub (ic_ratchet ic)) (ic_macR ic) (ic_macI ic)) = Inr tag"
    and res: "resI = hs_established k True (ic_ratchet ic)"
    using I(4) hmac_length [OF c R'(2)] by (auto simp: initiator_finish_def result_simps sub_def uint8ArraysAreEqual_iff finish_input_def)
  have m: "k_secret k = k_secret (rs_keys rs)"
      "finish_input pI k (ic_pubR ic) (dhSelfPub (ic_ratchet ic)) (ic_macR ic) (ic_macI ic) =
       finish_input pR (rs_keys rs) (dhSelfPub (rs_ratchet rs)) pubI (rs_macR rs) macI"
    using mac tag R'(2) unfolding mac_separates_def by auto
  have same: "k_I k = k_I (rs_keys rs) \<and> k_R k = k_R (rs_keys rs) \<and> ic_pubR ic = dhSelfPub (rs_ratchet rs) \<and>
      dhSelfPub (ic_ratchet ic) = pubI \<and> hp_channelInput pI = hp_channelInput pR"
    using confirmation_injective [OF m(2) [unfolded finish_input_def]] i ic r len by blast
  then have "healing_binding env pI (k_I k) (k_R k) = healing_binding env pR (k_I (rs_keys rs)) (k_R (rs_keys rs))"
    by (simp add: healing_binding_def)
  then have b: "k_binding k = k_binding (rs_keys rs)" using i r by metis
  then have "k_root k = k_root (rs_keys rs)" using i r m(1) by (metis Inr_inject)
  then show ?thesis
    using same b m(1) ic prime_remote [OF R'(1)] by (simp add: res R'(4) hs_established_def)
qed

lemma demo_shares: "shares_32 demo_group"
  by (auto simp: shares_32_def demo_group_def min_def)

theorem finish_authenticates_run_witness:
  "\<exists>k rs (resI :: hs_result) (resR :: hs_result). k_I k = k_I (rs_keys rs) \<and> k_R k = k_R (rs_keys rs) \<and> r_secret resI = r_secret resR \<and>
     r_pqRoot resI = r_pqRoot resR \<and> dhRemotePub (r_state resI) = Some (dhSelfPub (rs_ratchet rs)) \<and>
     dhRemotePub (r_state resR) = Some (dhSelfPub (r_state resI)) \<and>
     (\<exists>st r hello2 hello1 frames r' r''. initiator_start toy_env (demo_params 1) (zeros 32) [] (replicate 32 5) 0 = (Inr (hello1, st), r) \<and>
        initiator_hello toy_env (demo_params 1) st hello2 = Inr k \<and>
        responder_hello toy_env (demo_params 2) (replicate 32 1) [] (replicate 32 6) hello1 r' = (frames, Inr rs, r''))"
proof -
  have e: "hs_module toy_env = demo_module" "hs_group toy_env = demo_group" by (simp_all add: toy_env_def)
  have p: "hp_pqMode (demo_params b) = ''hybrid-mlkem768''" "self_ok (demo_params b)" "hp_channelInput (demo_params b) = [7]" for b
    by (simp_all add: demo_params_def self_ok_def demo_pub_def zeros_def)
  have m: "hp_pqMode (demo_params 2) = hp_pqMode (demo_params 1)" by (simp add: p)
  have suite: "roomPqModeToRootSuite (hp_pqMode (demo_params 1)) = Inr RATCHET_ROOT_SUITE_MLKEM768"
    by (simp add: p roomPqModeToRootSuite_def)
  have len: "length (zeros 32) = 32" "length (replicate 32 (1 :: byte)) = 32" "length (replicate 32 (5 :: byte)) = 32"
    "length (replicate 32 (6 :: byte)) = 32" by simp_all
  obtain hello1 st r1 hello2 confirm1 rs r3 k confirm2 ic r4 finish R r5 where
    t: "initiator_start toy_env (demo_params 1) (zeros 32) [] (replicate 32 5) 0 = (Inr (hello1, st), r1)"
      "initiator_hello toy_env (demo_params 1) st hello2 = Inr k"
      "initiator_confirm toy_env (demo_params 1) RATCHET_ROOT_SUITE_MLKEM768 k confirm1 r3 = ([confirm2], Inr ic, r4)"
      "initiator_finish toy_env (demo_params 1) k ic finish = Inr (hs_established k True (ic_ratchet ic))"
      "responder_hello toy_env (demo_params 2) (replicate 32 1) [] (replicate 32 6) hello1 r1 = ([hello2, confirm1], Inr rs, r3)"
      "parseConfirm confirm2 = Inr (dhSelfPub (ic_ratchet ic), ic_macI ic)"
      "responder_confirm toy_env (demo_params 2) rs confirm2 r4 = ([finish], Inr (hs_established k False R), r5)"
    and f: "rs_keys rs = k" "ic_pubR ic = dhSelfPub (rs_ratchet rs)" "ic_macR ic = rs_macR rs"
    using honest_trace [OF demo_honest len suite, of "[]" 0 "[]"] by blast
  have mac: "mac_separates toy_env (k_secret k) (finish_input (demo_params 1) k (ic_pubR ic) (dhSelfPub (ic_ratchet ic)) (ic_macR ic) (ic_macI ic))
      (k_secret (rs_keys rs)) (finish_input (demo_params 2) (rs_keys rs) (dhSelfPub (rs_ratchet rs)) (dhSelfPub (ic_ratchet ic)) (rs_macR rs) (ic_macI ic))"
    by (simp add: mac_separates_def finish_input_def f buildConfirmationInput_def p)
  have run: "\<exists>st r hello2 hello1 frames r' r''. initiator_start toy_env (demo_params 1) (zeros 32) [] (replicate 32 5) 0 = (Inr (hello1, st), r) \<and>
        initiator_hello toy_env (demo_params 1) st hello2 = Inr k \<and>
        responder_hello toy_env (demo_params 2) (replicate 32 1) [] (replicate 32 6) hello1 r' = (frames, Inr rs, r'')"
    using t(1,2,5) by blast
  show ?thesis
    using finish_authenticates_run [OF demo_contract [folded e(1)] demo_shares [folded e(2)] p(2) p(2) len(1,2) m t mac] run
    by - (rule exI [of _ k], rule exI [of _ rs], rule exI [of _ "hs_established k True (ic_ratchet ic)"],
      rule exI [of _ "hs_established k False R"], elim conjE, intro conjI; assumption)
qed

end
