(* ===== verification/Spec2Isabelle.thy ===== *)
theory Spec2Isabelle
  imports Room_Policy Frames Text_Codec Ratchet_Props Cover_Props Cover_Runtime Message_Types Room_Store Merkle_Props Receipts Reconcile Metadata Pq_Props Pq_Exchange Chunk_Crypto Handshake_Props
begin

text \<open>
  A verification library of the p2party client: the TypeScript of \<^verbatim>\<open>src/src\<close> (paths below are relative to
  it), and the C functions of \<^verbatim>\<open>cryptography/merkle.c\<close> and \<^verbatim>\<open>cryptography/pake_ratchet.c\<close> that it calls.

  \<^bold>\<open>The program.\<close> Peers of a room meet through a signaling server and open WebRTC data channels. On each edge a
  handshake authenticates the two identities, the room's PIN when it has one, and the channel, and leaves a Double
  Ratchet and the root of a post-quantum healing machine. A message is cut into padded chunks with a
  Merkle tree over them; a ratchet step gives its key, the epoch root of the healing machine is mixed in, and every chunk is
  sealed into a frame of one size. The receiver opens the frame, checks the Merkle proof, and answers with
  receipts, which the sender collects per transfer. In rooms with scheduled cover all of this leaves the
  client only in the slots of a fixed schedule, filled up with authenticated dummies. Rooms, peers, channels
  and messages are mirrored in a Redux store.

  \<^bold>\<open>Theories.\<close> Each names its sources and has one definition per function, in the order of the source.

  \<^item> \<open>Prelude\<close>: results, buffers, big-endian integers, the generic codec locales. \<open>Wire_Constants\<close>: \<^verbatim>\<open>utils/constants.ts\<close>,
    \<^verbatim>\<open>protocolVersion.ts\<close>, \<^verbatim>\<open>chunkBounds.ts\<close>. \<open>Text_Codec\<close>: \<^verbatim>\<open>utils/uint8array.ts\<close>, \<^verbatim>\<open>identityRole.ts\<close>. \<open>Utf8\<close>: \<^verbatim>\<open>TextEncoder\<close>, \<^verbatim>\<open>TextDecoder\<close>.
  \<^item> \<open>Room_Policy\<close>: \<^verbatim>\<open>roomPolicy.ts\<close>. The 32-byte codec is a bijection with the validated policies.
  \<^item> \<open>Cpace\<close>, \<open>Handshake\<close>, \<open>Handshake_Props\<close>: \<^verbatim>\<open>cryptography/cpace.ts\<close>, \<^verbatim>\<open>x3dh.ts\<close>, \<^verbatim>\<open>identityCrossSig.ts\<close>,
    \<^verbatim>\<open>handlers/handshakeCore.ts\<close>. Honest peers agree; an accepted final proof fixes the whole transcript.
  \<^item> \<open>Frames\<close>: \<^verbatim>\<open>handlers/frameType.ts\<close>, \<^verbatim>\<open>receiptFrame.ts\<close>, \<^verbatim>\<open>chunkFrame.ts\<close>. \<open>Ratchet\<close>, \<open>Ratchet_Props\<close>: \<^verbatim>\<open>cryptography/ratchet.ts\<close>,
    \<^verbatim>\<open>hkdf.ts\<close>, \<^verbatim>\<open>x25519.ts\<close>. Keys agree for any order of delivery, none is served twice, the store of skipped keys
    is bounded and a state survives its snapshot.
  \<^item> \<open>Pq_Healing\<close>, \<open>Pq_Machine\<close> (\<^verbatim>\<open>cryptography/pqHealing.ts\<close>), \<open>Pq_Records\<close>, \<open>Pq_Steps\<close>, \<open>Pq_Invariant\<close>, \<open>Pq_Edge\<close>, \<open>Pq_Progress\<close>, \<open>Pq_Props\<close>:
    records and machine of the healing protocol. Two machines on an edge, with every interleaving of calls, backend
    answers and (repeated, delayed, lost) records as a step relation: their roots never diverge, the exchange can always be
    completed, every reachable machine restores from its snapshot.
  \<^item> \<open>Edge_Codec\<close>, \<open>Pq_Runtime\<close> (\<^verbatim>\<open>handlers/pqHealingRuntime.ts\<close>), \<open>Pq_Checkpoint\<close>, \<open>Pq_Runtime_Props\<close>, \<open>Pq_Exchange\<close>: the runtime around
    the machine, its outbox, replay caches and the checkpoint it is stored as. Every reachable runtime fits its checkpoint
    and restores from it; a repeated frame is answered from the cache; an exchange of frames heals both sides.
  \<^item> \<open>Cells\<close>, \<open>Cover_Cell\<close> (\<^verbatim>\<open>cryptography/coverCell.ts\<close>), \<open>Pq_Frame\<close> (\<^verbatim>\<open>pqHealingFrame.ts\<close>), \<open>Message_Key\<close> (\<^verbatim>\<open>pqMessageKey.ts\<close>): the
    sealed cells and the combined message key; opening accepts exactly what sealing produces, and no two uses of an
    epoch root share a derivation context.
  \<^item> \<open>Merkle\<close>, \<open>Merkle_Props\<close>, \<open>Receipts\<close>: \<^verbatim>\<open>cryptography/merkle.ts\<close> and \<^verbatim>\<open>merkle.c\<close>, \<^verbatim>\<open>utils/leafHash.ts\<close>, \<^verbatim>\<open>receiptToken.ts\<close>.
    The in-place loops compute the tree; proofs verify, fit their field and are sound up to collisions.
  \<^item> \<open>Chunk_Crypto\<close>: \<^verbatim>\<open>handlers/messageChunkCrypto.ts\<close> and \<^verbatim>\<open>receive_message_with_key\<close> of \<^verbatim>\<open>pake_ratchet.c\<close>, on top of
    the frames, the ratchet, the message key and the Merkle trees: a message's chunks arrive, and a forged chunk changes nothing.
  \<^item> \<open>Metadata\<close>: \<^verbatim>\<open>utils/metadata.ts\<close>, \<^verbatim>\<open>channelLabel.ts\<close>. \<open>Message_Types\<close>: \<^verbatim>\<open>utils/messageTypes.ts\<close>. \<open>Reconcile\<close>: \<^verbatim>\<open>handlers/reconcile.ts\<close>,
    refined to sets of acknowledged chunks.
  \<^item> \<open>Cover_Scheduler\<close> (\<^verbatim>\<open>handlers/coverScheduler.ts\<close>), \<open>Cover_Jobs\<close>, \<open>Cover_Slots\<close>, \<open>Cover_Cycle\<close>, \<open>Cover_Control\<close>, \<open>Cover_Progress\<close>,
    \<open>Cover_Props\<close>, \<open>Cover_Runtime\<close> (\<^verbatim>\<open>handlers/coverRuntime.ts\<close>): the scheduler as a step function on events (timers, answers
    of producers and of the transport, calls), its invariant by rule induction over all runs, and the replay window
    refined to the complete history of counters.
  \<^item> \<open>Room_Slice\<close>, \<open>Room_Store\<close>: \<^verbatim>\<open>reducers/roomSlice.ts\<close>, one definition per reducer; what holds after any sequence of actions.

  \<^bold>\<open>How code becomes definitions.\<close> Bytes are 8-bit words, JavaScript integers are \<open>int\<close> with their range checks, a throw is
  the left of a sum, state is passed explicitly. A function with \<^verbatim>\<open>await\<close> is cut there: the parts are separate definitions or
  events, so that other calls can come between. Where \<^verbatim>\<open>Number(...)\<close> can round, the rounding is written out. Loops are
  recursive functions with termination proofs; no definition uses fuel.

  \<^bold>\<open>Parameters.\<close> Compiled primitives that are not in the sources are parameters: HKDF-SHA-512 and X25519 (\<open>libcrypto\<close>), the ristretto
  group and hash of CPace (\<open>cpace_group\<close>), ML-KEM (\<open>mlkem\<close>, \<open>hs_env\<close>), ChaCha20-Poly1305 (\<open>aead\<close>), SHA-512, Ed25519 verification, random
  bytes. What a theorem needs of them is a named hypothesis (\<open>module_contract\<close>, \<open>group_works\<close>, \<open>kem_works\<close>, \<open>aead_ok\<close>, \<open>sha_ok\<close>): totality,
  output lengths, algebra and inverses. Security against collisions is never assumed globally; where it is
  needed the theorem names the two inputs that would have to collide. Each such theorem has a witness with
  concrete functions.

  \<^bold>\<open>Not modelled.\<close> IndexedDB and its worker (\<^verbatim>\<open>db/\<close>), WebRTC and WebSocket input and output (\<^verbatim>\<open>api/\<close>, signaling handlers, session), the
  memory management around compiled code, React and Redux plumbing, key wrapping with WebCrypto. Of the protocol code:
  \<^verbatim>\<open>pqHealingRuntime.ts\<close> and \<^verbatim>\<open>pqHealingOrchestrator.ts\<close> (persistence and dispatch around the healing machine),
  \<^verbatim>\<open>splitToChunks.ts\<close>, \<^verbatim>\<open>coverTransfer.ts\<close>, the send and receive queues, invitations and PIN attempts, the mnemonic. They are next, in this
  order. Shape checks of untyped JavaScript values are typing here.
\<close>

section \<open>A session\<close>



end
